(* ===== verification/Prelude.thy ===== *)
theory Prelude
  imports Main "HOL-Library.Word"
begin

text \<open>
  Shared vocabulary of the development: the machine integer types of the kernel (all unsigned
  arithmetic of the sources is arithmetic on words of the declared width), the counted loop
  \<open>for (uint64_t i = lo; i < hi; i++)\<close> that nearly every component uses, with its unfolding rules
  and its invariant rule, the same loop with a counter of type \<open>int\<close>, which overflows, and the arithmetic facts about words that the components share.
\<close>

unbundle bit_operations_syntax

type_synonym u8 = "8 word"
type_synonym u16 = "16 word"
type_synonym u32 = "32 word"
type_synonym u64 = "64 word"

text \<open>\<open>mem_simps\<close>: reads over writes of the physical memory; \<open>word_nat\<close>: facts that move word
  comparisons to natural numbers; \<open>frame_simps\<close>: which fields an operation leaves alone.\<close>

named_theorems mem_simps
named_theorems word_nat
named_theorems frame_simps

subsection \<open>Word arithmetic\<close>

lemma unat_add_no_wrap:
  fixes a b :: "'a::len word"
  assumes "unat a + unat b < 2 ^ LENGTH('a)"
  shows "unat (a + b) = unat a + unat b"
  using assms by (simp add: unat_add_lem [symmetric])

lemma unat_plus_one_less:
  fixes i n :: "'a::len word"
  assumes "i < n"
  shows "unat (i + 1) = Suc (unat i)"
proof -
  have "unat i < unat n" using assms by (simp add: word_less_nat_alt)
  moreover have "unat n < 2 ^ LENGTH('a)" by (rule unsigned_less)
  ultimately have "unat i + 1 < 2 ^ LENGTH('a)" by linarith
  then show ?thesis by (simp add: unat_add_no_wrap)
qed

lemma unat_sub_le:
  fixes a b :: "'a::len word"
  assumes "b \<le> a"
  shows "unat (a - b) = unat a - unat b"
  using assms by (simp add: unat_sub)

lemma unat_of_nat_lt:
  "k < 2 ^ LENGTH('a) \<Longrightarrow> unat (of_nat k :: 'a::len word) = k"
  by (simp add: unat_of_nat)

lemma unat_add_of_nat:
  fixes a :: "'a::len word"
  assumes "unat a + k < 2 ^ LENGTH('a)"
  shows "unat (a + of_nat k) = unat a + k"
  using assms by (simp add: unat_add_no_wrap unat_of_nat_lt)

lemma unat_lt_u64 [simp]: "unat (a :: u64) < 18446744073709551616"
  using unsigned_less [of a] by simp

lemma unat_lt_u32 [simp]: "unat (a :: u32) < 4294967296"
  using unsigned_less [of a] by simp

lemma unat_lt_u16 [simp]: "unat (a :: u16) < 65536"
  using unsigned_less [of a] by simp

lemma unat_lt_u8 [simp]: "unat (a :: u8) < 256"
  using unsigned_less [of a] by simp

lemma ucast_add32: "(ucast (a + b :: u64) :: u32) = ucast a + ucast b"
  by (simp add: word_uint_eq_iff unsigned_ucast_eq uint_word_ariths take_bit_eq_mod mod_simps mod_mod_cancel)

lemma ucast_minus32: "(ucast (a - b :: u64) :: u32) = ucast a - ucast b"
  by (metis ucast_add32 add_diff_cancel diff_add_cancel)

declare word_less_nat_alt [word_nat] word_le_nat_alt [word_nat] word_unat_eq_iff [word_nat]

subsection \<open>The counted loop\<close>

text \<open>\<open>for (uint64_t i = lo; i < hi; i++) body\<close>: the condition is tested before every round, and
  the counter cannot wrap because it is below \<open>hi\<close> when it is incremented.\<close>

function for_u64 :: "u64 \<Rightarrow> u64 \<Rightarrow> (u64 \<Rightarrow> 's \<Rightarrow> 's) \<Rightarrow> 's \<Rightarrow> 's" where
  "for_u64 i n f s = (if i < n then for_u64 (i + 1) n f (f i s) else s)"
  by pat_completeness auto
termination
proof (relation "measure (\<lambda>(i, n, f, s). unat n - unat i)")
  show "wf (measure (\<lambda>(i::u64, n::u64, f::u64 \<Rightarrow> 's \<Rightarrow> 's, s::'s). unat n - unat i))" by simp
next
  fix i n :: u64 and f :: "u64 \<Rightarrow> 's \<Rightarrow> 's" and s :: 's
  assume lt: "i < n"
  then have "unat (i + 1) = Suc (unat i)" by (rule unat_plus_one_less)
  with lt show "((i + 1, n, f, f i s), i, n, f, s) \<in> measure (\<lambda>(i, n, f, s). unat n - unat i)"
    by (simp add: word_less_nat_alt diff_less_mono2)
qed

declare for_u64.simps [simp del]

lemma for_u64_step: "i < n \<Longrightarrow> for_u64 i n f s = for_u64 (i + 1) n f (f i s)"
  by (subst for_u64.simps) simp

lemma for_u64_stop [simp]: "\<not> i < n \<Longrightarrow> for_u64 i n f s = s"
  by (subst for_u64.simps) simp

lemma plus_one_le:
  fixes i n :: "'a::len word"
  assumes "i < n"
  shows "i + 1 \<le> n"
  using assms unat_plus_one_less [OF assms] by (simp add: word_less_nat_alt word_le_nat_alt)

lemma for_u64_inv:
  assumes "i \<le> n" and "P i s"
    and step: "\<And>k s. i \<le> k \<Longrightarrow> k < n \<Longrightarrow> P k s \<Longrightarrow> P (k + 1) (f k s)"
  shows "P n (for_u64 i n f s)"
  using assms
proof (induction i n f s rule: for_u64.induct)
  case (1 i n f s)
  show ?case
  proof (cases "i < n")
    case True
    have "i \<le> i + 1"
      using unat_plus_one_less [OF True] by (simp add: word_le_nat_alt)
    then have "P n (for_u64 (i + 1) n f (f i s))"
      using True 1 by (intro "1.IH") (auto intro: plus_one_le)
    then show ?thesis using True by (simp add: for_u64_step)
  next
    case False
    with "1.prems" show ?thesis by (simp add: not_less)
  qed
qed

lemma for_u64_keeps:
  assumes "P s" and "\<And>k s. i \<le> k \<Longrightarrow> k < n \<Longrightarrow> P s \<Longrightarrow> P (f k s)"
  shows "P (for_u64 i n f s)"
proof (cases "i \<le> n")
  case True
  then show ?thesis
    using for_u64_inv [of i n "\<lambda>_. P" s f] assms by blast
next
  case False
  then have "\<not> i < n" by simp
  then show ?thesis using assms(1) by (simp add: for_u64_stop)
qed

lemma for_u64_cong:
  assumes "\<And>k s. i \<le> k \<Longrightarrow> k < n \<Longrightarrow> f k s = g k s"
  shows "for_u64 i n f s = for_u64 i n g s"
  using assms
proof (induction i n f s rule: for_u64.induct)
  case (1 i n f s)
  show ?case
  proof (cases "i < n")
    case True
    have "i \<le> i + 1"
      using unat_plus_one_less [OF True] by (simp add: word_le_nat_alt)
    then have "for_u64 (i + 1) n f (f i s) = for_u64 (i + 1) n g (f i s)"
      using True "1.prems" by (intro "1.IH") auto
    then show ?thesis using True "1.prems" by (simp add: for_u64_step)
  qed simp
qed

lemma for_u64_fold: "for_u64 i n f s = fold (\<lambda>k. f (of_nat k)) [unat i..<unat n] s"
proof (induction i n f s rule: for_u64.induct)
  case (1 i n f s)
  show ?case
  proof (cases "i < n")
    case True
    then have lt: "unat i < unat n" by (simp add: word_less_nat_alt)
    have "for_u64 i n f s = fold (\<lambda>k. f (of_nat k)) [Suc (unat i)..<unat n] (f i s)"
      using "1.IH" [OF True] True unat_plus_one_less [OF True] by (simp add: for_u64_step)
    then show ?thesis using lt by (simp add: upt_conv_Cons)
  next
    case False
    then show ?thesis by (simp add: word_less_nat_alt)
  qed
qed

subsection \<open>The loop with a counter of type int\<close>

text \<open>\<open>for (int i = 0; i < n; i++) body\<close> with a 64-bit bound \<open>n\<close>: the counter, never negative, is
  widened for the comparison. The increment of \<open>INT_MAX\<close> is undefined behaviour, so a loop that
  gets there has no result: None.\<close>

function for_int :: "nat \<Rightarrow> u64 \<Rightarrow> (u64 \<Rightarrow> 's \<Rightarrow> 's) \<Rightarrow> 's \<Rightarrow> 's option" where
  "for_int i n f s =
     (if of_nat i < n then
        let s = f (of_nat i) s
        in if 2147483647 \<le> i then None else for_int (Suc i) n f s
      else Some s)"
  by pat_completeness auto
termination by (relation "measure (\<lambda>(i, n, f, s). 2147483648 - i)") auto

declare for_int.simps [simp del]

lemma for_int_for_u64:
  assumes "unat n < 2 ^ 31" "i \<le> unat n"
  shows "for_int i n f s = Some (for_u64 (of_nat i) n f s)"
  using assms(2)
proof (induction "unat n - i" arbitrary: i s)
  case 0
  then have "i = unat n" by simp
  then have "of_nat i = n" by simp
  then show ?case by (simp add: for_int.simps [of i])
next
  case (Suc d)
  have i: "i < unat n" using Suc.hyps(2) by simp
  then have "unat (of_nat i :: u64) = i"
    using less_trans [OF i unat_lt_u64] by (intro unat_of_nat_lt) simp
  then have lt: "of_nat i < n" using i by (simp add: word_less_nat_alt)
  have "for_int (Suc i) n f (f (of_nat i) s) = Some (for_u64 (of_nat (Suc i)) n f (f (of_nat i) s))"
    using Suc.hyps(2) i by (intro Suc.hyps(1)) simp_all
  then show ?case
    using lt i assms(1) by (simp add: for_int.simps [of i] for_u64_step [of "of_nat i"] Let_def add.commute)
qed

lemmas for_int_ok = for_int_for_u64 [where i = 0, simplified]

lemma for_int_overflow:
  assumes "2 ^ 31 \<le> unat n" "i < 2 ^ 31"
  shows "for_int i n f s = None"
  using assms(2)
proof (induction "2 ^ 31 - i" arbitrary: i s)
  case (Suc d)
  have "unat (of_nat i :: u64) = i" using Suc.prems by (intro unat_of_nat_lt) simp
  then have lt: "of_nat i < n" using Suc.prems assms(1) by (simp add: word_less_nat_alt)
  show ?case
  proof (cases "2147483647 \<le> i")
    case True
    then show ?thesis using lt by (simp add: for_int.simps [of i] Let_def)
  next
    case False
    then have "for_int (Suc i) n f (f (of_nat i) s) = None"
      using Suc.hyps(2) by (intro Suc.hyps(1)) simp_all
    then show ?thesis using lt False by (simp add: for_int.simps [of i] Let_def)
  qed
qed simp

subsection \<open>Page numbers\<close>

text \<open>A page is 4096 bytes; the page number of an address is the address divided by 4096.\<close>

lemma page_index_mult:
  fixes i :: u64
  assumes "unat i < 2 ^ 52"
  shows "i * 4096 div 4096 = i"
proof -
  have "unat (i * 4096) = unat i * 4096" using assms unat_mult_lem [of i 4096] by simp
  then have "unat (i * 4096 div 4096) = unat i" unfolding unat_div by simp
  then show ?thesis by (simp add: word_unat_eq_iff)
qed

lemma unat_page_index: "unat (a div 4096 :: u64) < 2 ^ 52"
  unfolding unat_div using unat_lt_u64 [of a] by (intro less_mult_imp_div_less) simp

end
