(* ===== verification/PhysMem.thy ===== *)
theory PhysMem
  imports Prelude
begin

text \<open>
  The physical memory the kernel runs on: a byte for every 64-bit address. The kernel maps memory
  one to one (\<open>PrepareMemory\<close> in \<open>kernel/src/kernelUtil.cpp\<close>), so a pointer is the address it
  points to. Loads and stores of the C types are little endian, as on x86; they wrap around the end
  of the address space like the address arithmetic does. \<open>region a n\<close> is the set of the \<open>n\<close> bytes
  from \<open>a\<close> on, and the lemmas say what a store changes and what it leaves alone.
\<close>

type_synonym memory = "u64 \<Rightarrow> u8"

record ram =
  mem :: memory

definition region :: "u64 \<Rightarrow> nat \<Rightarrow> u64 set" where
  "region a n = {b. unat (b - a) < n}"

fun load_le :: "nat \<Rightarrow> memory \<Rightarrow> u64 \<Rightarrow> u64" where
  "load_le 0 m a = 0"
| "load_le (Suc n) m a = ucast (m a) OR push_bit 8 (load_le n m (a + 1))"

fun store_le :: "nat \<Rightarrow> memory \<Rightarrow> u64 \<Rightarrow> u64 \<Rightarrow> memory" where
  "store_le 0 m a v = m"
| "store_le (Suc n) m a v = store_le n (m(a := ucast v)) (a + 1) (drop_bit 8 v)"

definition read16 :: "memory \<Rightarrow> u64 \<Rightarrow> u16" where
  "read16 m a = ucast (load_le 2 m a)"

definition read32 :: "memory \<Rightarrow> u64 \<Rightarrow> u32" where
  "read32 m a = ucast (load_le 4 m a)"

definition read64 :: "memory \<Rightarrow> u64 \<Rightarrow> u64" where
  "read64 m a = load_le 8 m a"

definition write16 :: "memory \<Rightarrow> u64 \<Rightarrow> u16 \<Rightarrow> memory" where
  "write16 m a v = store_le 2 m a (ucast v)"

definition write32 :: "memory \<Rightarrow> u64 \<Rightarrow> u32 \<Rightarrow> memory" where
  "write32 m a v = store_le 4 m a (ucast v)"

definition write64 :: "memory \<Rightarrow> u64 \<Rightarrow> u64 \<Rightarrow> memory" where
  "write64 m a v = store_le 8 m a v"

text \<open>Unfolding a load of a fixed width, for evaluation.\<close>

lemma load_le_numeral: "load_le (numeral k) m a = ucast (m a) OR push_bit 8 (load_le (pred_numeral k) m (a + 1))"
  by (simp add: numeral_eq_Suc)

lemma store_le_numeral: "store_le (numeral k) m a v = store_le (pred_numeral k) (m(a := ucast v)) (a + 1) (drop_bit 8 v)"
  by (simp add: numeral_eq_Suc)

lemmas load_eval = read16_def read32_def read64_def load_le_numeral
lemmas store_eval = write16_def write32_def write64_def store_le_numeral

subsection \<open>What a store changes\<close>

lemma unat_minus_plus_one:
  fixes a b :: u64
  assumes "b \<noteq> a"
  shows "unat (b - a) = Suc (unat (b - (a + 1)))"
proof -
  let ?d = "b - (a + 1)"
  have d: "b - a = 1 + ?d" by simp
  have "1 + ?d \<noteq> 0" using assms d by (metis right_minus_eq)
  then show ?thesis unfolding d by (rule unatSuc)
qed

lemma store_le_apply:
  "n < 2 ^ 64 \<Longrightarrow> store_le n m a v b =
     (if unat (b - a) < n then ucast (drop_bit (8 * unat (b - a)) v) else m b)"
proof (induction n arbitrary: m a v)
  case 0
  then show ?case by simp
next
  case (Suc n)
  show ?case
  proof (cases "b = a")
    case True
    have "unat (-1 :: u64) = 2 ^ 64 - 1" by (simp add: unsigned_minus_1_eq_mask mask_eq_exp_minus_1)
    moreover have "b - (a + 1) = -1" using True by simp
    ultimately show ?thesis using Suc True by simp
  next
    case False
    have "unat (b - a) = Suc (unat (b - (a + 1)))" using False by (rule unat_minus_plus_one)
    then show ?thesis using Suc False by (simp add: ac_simps)
  qed
qed

lemma store_le_outside [mem_simps]:
  "n \<le> 8 \<Longrightarrow> b \<notin> region a n \<Longrightarrow> store_le n m a v b = m b"
  by (simp add: store_le_apply region_def)

lemma bit_load_le:
  "n \<le> 8 \<Longrightarrow> bit (load_le n m a) i \<longleftrightarrow> i < 8 * n \<and> bit (m (a + of_nat (i div 8))) (i mod 8)"
proof (induction n arbitrary: a i)
  case 0
  then show ?case by simp
next
  case (Suc n)
  show ?case
  proof (cases "i < 8")
    case True
    then show ?thesis by (auto simp: bit_simps)
  next
    case False
    then obtain j where j: "i = j + 8" by (metis add.commute le_Suc_ex not_less)
    have "bit (load_le (Suc n) m a) i \<longleftrightarrow> i < 64 \<and> bit (load_le n m (a + 1)) j"
      using j by (auto simp: bit_simps dest: bit_imp_le_length)
    also have "\<dots> \<longleftrightarrow> i < 8 * Suc n \<and> bit (m (a + 1 + of_nat (j div 8))) (j mod 8)"
      using Suc j by auto
    also have "a + 1 + of_nat (j div 8) = a + of_nat (i div 8)" using j by (simp add: div_add_self2)
    finally show ?thesis using j by simp
  qed
qed

lemma load_le_cong:
  "(\<And>k. k < n \<Longrightarrow> m (a + of_nat k) = m' (a + of_nat k)) \<Longrightarrow> load_le n m a = load_le n m' a"
proof (induction n arbitrary: a)
  case 0
  then show ?case by simp
next
  case (Suc n)
  have "m (a + 1 + of_nat k) = m' (a + 1 + of_nat k)" if "k < n" for k
    using Suc.prems [of "Suc k"] that by (simp add: add.assoc)
  then have "load_le n m (a + 1) = load_le n m' (a + 1)" by (rule Suc.IH)
  moreover have "m a = m' a" using Suc.prems [of 0] by simp
  ultimately show ?case by simp
qed

lemma in_region_of_nat: "k < n \<Longrightarrow> n < 2 ^ 64 \<Longrightarrow> a + of_nat k \<in> region a n"
  by (simp add: region_def unat_of_nat_lt)

lemma load_le_region_cong:
  assumes "n \<le> 8" and "\<And>b. b \<in> region a n \<Longrightarrow> m b = m' b"
  shows "load_le n m a = load_le n m' a"
proof (rule load_le_cong)
  fix k assume "k < n"
  then show "m (a + of_nat k) = m' (a + of_nat k)"
    using assms(1) by (intro assms(2) in_region_of_nat) auto
qed

lemma load_store_same:
  assumes "n \<le> 8"
  shows "load_le n (store_le n m a v) a = take_bit (8 * n) v"
proof (rule bit_word_eqI)
  fix i assume i: "i < LENGTH(64)"
  have "unat (of_nat (i div 8) :: u64) = i div 8" using i by (simp add: unat_of_nat_lt)
  moreover have "8 * (i div 8) + i mod 8 = i" by simp
  ultimately show "bit (load_le n (store_le n m a v) a) i \<longleftrightarrow> bit (take_bit (8 * n) v) i"
    using assms i by (auto simp: bit_load_le store_le_apply bit_simps)
qed

lemma load_store_disjoint [mem_simps]:
  assumes "n \<le> 8" "k \<le> 8" "region a k \<inter> region b n = {}"
  shows "load_le n (store_le k m a v) b = load_le n m b"
proof (rule load_le_region_cong)
  fix c assume "c \<in> region b n"
  then have "c \<notin> region a k" using assms(3) by blast
  then show "store_le k m a v c = m c" using assms(2) by (simp add: store_le_outside)
qed (rule assms(1))

lemma read64_write64_same [simp]: "read64 (write64 m a v) a = v"
  by (simp add: read64_def write64_def load_store_same take_bit_word_eq_self)

lemma read32_write32_same [simp]: "read32 (write32 m a v) a = v"
  unfolding read32_def write32_def
  by (subst load_store_same) (auto intro!: bit_word_eqI simp: bit_simps)

lemma read16_write16_same [simp]: "read16 (write16 m a v) a = v"
  unfolding read16_def write16_def
  by (subst load_store_same) (auto intro!: bit_word_eqI simp: bit_simps)

lemma write64_outside [mem_simps]: "b \<notin> region a 8 \<Longrightarrow> write64 m a v b = m b"
  by (simp add: write64_def store_le_outside)

lemma write16_outside [mem_simps]: "b \<notin> region a 2 \<Longrightarrow> write16 m a v b = m b"
  by (simp add: write16_def store_le_outside)

lemma write32_outside [mem_simps]: "b \<notin> region a 4 \<Longrightarrow> write32 m a v b = m b"
  by (simp add: write32_def store_le_outside)

lemma read64_cong: "(\<And>b. b \<in> region a 8 \<Longrightarrow> m b = m' b) \<Longrightarrow> read64 m a = read64 m' a"
  unfolding read64_def by (rule load_le_region_cong) simp_all

lemma read32_cong: "(\<And>b. b \<in> region a 4 \<Longrightarrow> m b = m' b) \<Longrightarrow> read32 m a = read32 m' a"
  unfolding read32_def by (rule arg_cong [where f = ucast], rule load_le_region_cong) simp_all

lemma read16_cong: "(\<And>b. b \<in> region a 2 \<Longrightarrow> m b = m' b) \<Longrightarrow> read16 m a = read16 m' a"
  unfolding read16_def by (rule arg_cong [where f = ucast], rule load_le_region_cong) simp_all

lemma read64_zero: "(\<And>b. b \<in> region a 8 \<Longrightarrow> m b = 0) \<Longrightarrow> read64 m a = 0"
proof -
  assume z: "\<And>b. b \<in> region a 8 \<Longrightarrow> m b = 0"
  have "m (a + of_nat (i div 8)) = 0" if "i < 64" for i
  proof -
    have "a + of_nat (i div 8) \<in> region a 8" by (rule in_region_of_nat) (use that in simp_all)
    then show ?thesis by (rule z)
  qed
  then show ?thesis
    by (intro bit_word_eqI) (auto simp: read64_def bit_load_le)
qed

lemma region_sub: "b \<in> region (a + of_nat k) n \<Longrightarrow> k + n \<le> l \<Longrightarrow> l < 2 ^ 64 \<Longrightarrow> b \<in> region a l"
proof -
  assume b: "b \<in> region (a + of_nat k) n" and l: "k + n \<le> l" "l < 2 ^ 64"
  have "b - a = (b - (a + of_nat k)) + of_nat k" by simp
  moreover have "unat (b - (a + of_nat k)) + k < 2 ^ 64" using b l by (simp add: region_def)
  ultimately have "unat (b - a) = unat (b - (a + of_nat k)) + k"
    using unat_add_of_nat [of "b - (a + of_nat k)" k] by simp
  then show ?thesis using b l by (simp add: region_def)
qed

lemma in_region_off:
  assumes "j + n < 2 ^ 64"
  shows "x \<in> region (b + of_nat j) n \<longleftrightarrow> j \<le> unat (x - b) \<and> unat (x - b) < j + n"
proof -
  let ?d = "x - b"
  have e: "x - (b + of_nat j) = ?d - of_nat j" by simp
  have u: "unat (of_nat j :: u64) = j" using assms by (intro unat_of_nat_lt) simp
  show ?thesis
  proof (cases "j \<le> unat ?d")
    case True
    then have "unat (?d - of_nat j) = unat ?d - j" using u by (simp add: unat_sub word_le_nat_alt)
    then show ?thesis using True by (auto simp: region_def e)
  next
    case False
    then have "unat (?d - of_nat j) = unat ?d + 2 ^ 64 - j" using u
      by (simp add: unat_sub_if_size word_size word_le_nat_alt)
    then show ?thesis using False assms by (simp add: region_def e)
  qed
qed

lemma regions_apart:
  assumes "j + n \<le> k" "k + l < 2 ^ 64"
  shows "region (b + of_nat j) n \<inter> region (b + of_nat k) l = {}"
proof -
  have "j + n < 2 ^ 64" using assms by simp
  then show ?thesis using assms by (auto simp: in_region_off)
qed

end
