(* ===== verification/Bitmap.thy ===== *)
theory Bitmap
  imports PhysMem
begin

text \<open>
  \<open>kernel/src/Bitmap.cpp\<close>: a bitmap is a buffer of \<open>size\<close> bytes in memory, bit \<open>7 - i mod 8\<close> of byte
  \<open>i div 8\<close> for index \<open>i\<close>. Both accessors compare the index with \<open>size * 8\<close> by \<open>>\<close>, so the index
  \<open>size * 8\<close>, one past the last bit, is let through. The locale \<open>bit_store\<close> is the contract the
  accessors give their clients: a set reaches exactly its own bit.
\<close>

record Bitmap =
  bm_size :: u64
  bm_Buffer :: u64

definition Bitmap_Get :: "memory \<Rightarrow> Bitmap \<Rightarrow> u64 \<Rightarrow> bool" where
  "Bitmap_Get m b index =
     (if index > bm_size b * 8 then False
      else
        let byteIndex = index div 8; bitIndex = ucast (index mod 8) :: u8;
            bitIndexer = drop_bit (unat bitIndex) 0x80 :: u8
        in m (bm_Buffer b + byteIndex) AND bitIndexer > 0)"

definition Bitmap_Set :: "memory \<Rightarrow> Bitmap \<Rightarrow> u64 \<Rightarrow> bool \<Rightarrow> bool \<times> memory" where
  "Bitmap_Set m b index v =
     (if index > bm_size b * 8 then (False, m)
      else
        let byteIndex = index div 8; bitIndex = ucast (index mod 8) :: u8;
            bitIndexer = drop_bit (unat bitIndex) 0x80 :: u8;
            m = m(bm_Buffer b + byteIndex := m (bm_Buffer b + byteIndex) AND NOT bitIndexer);
            m = (if v then m(bm_Buffer b + byteIndex := m (bm_Buffer b + byteIndex) OR bitIndexer) else m)
        in (True, m))"

subsection \<open>The contract\<close>

locale bit_store =
  fixes get :: "'s \<Rightarrow> u64 \<Rightarrow> bool"
    and put :: "'s \<Rightarrow> u64 \<Rightarrow> bool \<Rightarrow> bool \<times> 's"
    and inr :: "'s \<Rightarrow> u64 \<Rightarrow> bool"
  assumes get_out: "\<not> inr s i \<Longrightarrow> \<not> get s i"
    and put_out: "\<not> inr s i \<Longrightarrow> put s i v = (False, s)"
    and put_ok: "inr s i \<Longrightarrow> fst (put s i v)"
    and get_put: "inr s i \<Longrightarrow> get (snd (put s i v)) j = (if j = i then v else get s j)"
    and inr_put: "inr (snd (put s i v)) j = inr s j"
begin

text \<open>What a guarded set (\<open>if already so then return\<close>) does: it is the set itself.\<close>

lemma guarded_set:
  "get (if get s i then s else snd (put s i True)) j = (if j = i \<and> inr s j then True else get s j)"
  using get_out [of s i] put_out [of s i True] get_put [of s i True j] by (cases "inr s i") auto

lemma guarded_clear:
  "get (if \<not> get s i then s else snd (put s i False)) j = (if j = i \<and> inr s j then False else get s j)"
  using get_out [of s i] put_out [of s i False] get_put [of s i False j] by (cases "inr s i") auto

lemma put_put: "inr s i \<Longrightarrow> get (snd (put (snd (put s i v)) i w)) j = get (snd (put s i w)) j"
  by (simp add: get_put inr_put)

end

subsection \<open>The bitmap in memory keeps the contract\<close>

lemma bit_indexer:
  assumes "k < 8"
  shows "drop_bit k (0x80 :: u8) = 2 ^ (7 - k)"
proof -
  have "k = 0 \<or> k = 1 \<or> k = 2 \<or> k = 3 \<or> k = 4 \<or> k = 5 \<or> k = 6 \<or> k = 7" using assms by arith
  then show ?thesis by (elim disjE) (simp_all add: drop_bit_eq_div)
qed

lemma and_exp_positive: "(x AND 2 ^ k > 0) = bit (x :: u8) k" if "k < 8"
proof -
  have "x AND 2 ^ k = (if bit x k then 2 ^ k else 0)"
    using that by (auto intro!: bit_word_eqI simp: bit_simps)
  moreover have "bit ((2 :: u8) ^ k) k" using that by (simp add: bit_simps)
  then have "(2 :: u8) ^ k \<noteq> 0" by (metis bit_0_eq bot_apply bot_bool_def)
  ultimately show ?thesis by (simp add: word_neq_0_conv [symmetric])
qed

lemma unat_bit_index: "unat (ucast (index mod 8 :: u64) :: u8) = unat index mod 8"
  by (simp add: unsigned_ucast_eq unat_mod take_bit_nat_eq_self)

lemma Bitmap_Get_bit:
  "Bitmap_Get m b i \<longleftrightarrow> i \<le> bm_size b * 8 \<and> bit (m (bm_Buffer b + i div 8)) (7 - unat i mod 8)"
  by (auto simp: Bitmap_Get_def Let_def unat_bit_index bit_indexer and_exp_positive)

lemma Bitmap_Set_bit:
  "Bitmap_Set m b i v =
     (if i \<le> bm_size b * 8
      then (True, m(bm_Buffer b + i div 8 :=
              (if v then set_bit else unset_bit) (7 - unat i mod 8) (m (bm_Buffer b + i div 8))))
      else (False, m))"
  by (auto simp: Bitmap_Set_def Let_def unat_bit_index bit_indexer not_less
      intro!: arg_cong [where f = "\<lambda>x. m(bm_Buffer b + i div 8 := x)"] bit_word_eqI)
    (auto simp: bit_simps)

lemma index_split: "(i :: u64) div 8 = j div 8 \<Longrightarrow> unat i mod 8 = unat j mod 8 \<Longrightarrow> i = j"
proof -
  assume "i div 8 = j div 8" "unat i mod 8 = unat j mod 8"
  then have "unat i div 8 = unat j div 8" "unat i mod 8 = unat j mod 8"
    using unat_div [of i 8] unat_div [of j 8] by simp_all
  then show "i = j" by (metis div_mult_mod_eq word_unat_eq_iff)
qed

lemma Bitmap_Get_Set:
  assumes "i \<le> bm_size b * 8"
  shows "Bitmap_Get (snd (Bitmap_Set m b i v)) b j = (if j = i then v else Bitmap_Get m b j)"
proof (cases "j = i")
  case True
  then show ?thesis using assms by (auto simp: Bitmap_Get_bit Bitmap_Set_bit bit_simps)
next
  case False
  then have "j div 8 \<noteq> i div 8 \<or> 7 - unat i mod 8 \<noteq> 7 - unat j mod 8"
    using index_split [of i j] mod_less_divisor [of 8 "unat i"] mod_less_divisor [of 8 "unat j"]
    by fastforce
  then show ?thesis using assms False by (auto simp: Bitmap_Get_bit Bitmap_Set_bit bit_simps)
qed

interpretation bm_bits: bit_store
  "\<lambda>m. Bitmap_Get m b" "\<lambda>m i v. Bitmap_Set m b i v" "\<lambda>m i. i \<le> bm_size b * 8" for b
  by unfold_locales
    (simp_all only: Bitmap_Get_Set, simp_all add: Bitmap_Get_bit Bitmap_Set_bit)

subsection \<open>Properties\<close>

text \<open>A set at an index up to \<open>size * 8\<close> succeeds, is read back at that index and changes no other
  index and no byte but its own; beyond, it fails and leaves the memory alone.\<close>

theorem Bitmap_Set_spec:
  "(if i \<le> bm_size b * 8
    then fst (Bitmap_Set m b i v)
      \<and> Bitmap_Get (snd (Bitmap_Set m b i v)) b j = (if j = i then v else Bitmap_Get m b j)
      \<and> (a \<noteq> bm_Buffer b + i div 8 \<longrightarrow> snd (Bitmap_Set m b i v) a = m a)
    else Bitmap_Set m b i v = (False, m))"
  using Bitmap_Get_Set [of i b m v j] by (simp add: Bitmap_Set_bit)

theorem Bitmap_Set_spec_witness:
  "snd (Bitmap_Set (\<lambda>_. 0) \<lparr>bm_size = 4, bm_Buffer = 0x1000\<rparr> 9 True) 0x1000 = 0"
  using Bitmap_Set_spec [of 9 "\<lparr>bm_size = 4, bm_Buffer = 0x1000\<rparr>" "\<lambda>_. 0" True 0 "0x1000"] by simp

text \<open>The bounds test of the accessors lets the index one past the last bit through: setting it
  succeeds and writes the byte behind the buffer.\<close>

theorem Bitmap_Set_past_end:
  assumes "unat (bm_size b) < 2 ^ 61"
  shows "fst (Bitmap_Set m b (bm_size b * 8) True)
    \<and> bit (snd (Bitmap_Set m b (bm_size b * 8) True) (bm_Buffer b + bm_size b)) 7"
proof -
  have "unat (bm_size b * 8) = unat (bm_size b) * 8" using assms unat_mult_lem [of "bm_size b" 8] by simp
  then have "bm_size b * 8 div 8 = bm_size b" "unat (bm_size b * 8) mod 8 = 0"
    by (simp_all add: word_unat_eq_iff unat_div)
  then show ?thesis by (simp add: Bitmap_Set_bit bit_simps)
qed

theorem Bitmap_Set_past_end_witness:
  "bit (snd (Bitmap_Set (\<lambda>_. 0) \<lparr>bm_size = 4, bm_Buffer = 0x1000\<rparr> 32 True) 0x1004) 7"
  using Bitmap_Set_past_end [of "\<lparr>bm_size = 4, bm_Buffer = 0x1000\<rparr>" "\<lambda>_. 0"] by simp

end
