(* ===== verification/EfiMap.thy ===== *)
theory EfiMap
  imports PhysMem "HOL-Library.Monad_Syntax"
begin

text \<open>
  The firmware's memory map: the descriptors of \<open>kernel/src/efiMemory.h\<close> as they lie in memory
  (natural C alignment: the 32-bit type, four bytes of padding, then four 64-bit fields), the names
  of the memory types in \<open>kernel/src/efiMemory.cpp\<close>, and \<open>GetMemorySize\<close> of
  \<open>kernel/src/mem/mem.cpp\<close> with its function-static accumulator, a field of the state here; its
  counter is an \<open>int\<close>, so it returns an option.
\<close>

record EFI_MEMORY_DESCRIPTOR =
  desc_type :: u32
  physAddr :: u64
  virtAddr :: u64
  numPages :: u64
  attribs :: u64

definition EFI_MEMORY_TYPE_STRINGS :: "string list" where
  "EFI_MEMORY_TYPE_STRINGS =
    [''EfiReservedMemoryType'', ''EfiLoaderCode'', ''EfiLoaderData'', ''EfiBootServicesCode'',
     ''EfiBootServicesData'', ''EfiRuntimeServiceCode'', ''EfiRuntimeServicesData'',
     ''EfiConventionalMemory'', ''EfiUnusableMemory'', ''EfiACPIReclaimMemory'',
     ''EfiACPIMemoryNVS'', ''EfiMemoryMappedIO'', ''EfiMemoryMappedIOPortSpace'', ''EfiPalCode'']"

text \<open>\<open>(EFI_MEMORY_DESCRIPTOR*)((uint64_t)Map + (i * DescriptorSize))\<close>, dereferenced.\<close>

definition read_descriptor :: "memory \<Rightarrow> u64 \<Rightarrow> EFI_MEMORY_DESCRIPTOR" where
  "read_descriptor m a =
     \<lparr>desc_type = read32 m a, physAddr = read64 m (a + 8), virtAddr = read64 m (a + 16),
      numPages = read64 m (a + 24), attribs = read64 m (a + 32)\<rparr>"

definition descriptor_at :: "memory \<Rightarrow> u64 \<Rightarrow> u64 \<Rightarrow> u64 \<Rightarrow> EFI_MEMORY_DESCRIPTOR" where
  "descriptor_at m Map DescriptorSize i = read_descriptor m (Map + i * DescriptorSize)"

definition map_entries :: "memory \<Rightarrow> u64 \<Rightarrow> u64 \<Rightarrow> u64 \<Rightarrow> EFI_MEMORY_DESCRIPTOR list" where
  "map_entries m Map DescriptorSize entries =
     map (\<lambda>k. descriptor_at m Map DescriptorSize (of_nat k)) [0..<unat entries]"

record efi = ram +
  memoryMapSize :: u64

definition GetMemorySize ::
  "u64 \<Rightarrow> u64 \<Rightarrow> u64 \<Rightarrow> 'a efi_scheme \<Rightarrow> (u64 \<times> 'a efi_scheme) option" where
  "GetMemorySize Map MapEntries DescriptorSize s =
     (if memoryMapSize s > 0 then Some (memoryMapSize s, s)
      else do {
        s \<leftarrow> for_int 0 MapEntries
              (\<lambda>i s. let desc = descriptor_at (mem s) Map DescriptorSize i
                     in s\<lparr>memoryMapSize := memoryMapSize s + numPages desc * 4096\<rparr>) s;
        Some (memoryMapSize s, s)
      })"

text \<open>The size of a memory map: all its pages, of every type, modulo \<open>2 ^ 64\<close>.\<close>

definition map_bytes :: "EFI_MEMORY_DESCRIPTOR list \<Rightarrow> u64" where
  "map_bytes ds = sum_list (map (\<lambda>d. numPages d * 4096) ds)"

lemma length_map_entries [simp]: "length (map_entries m Map ds n) = unat n"
  by (simp add: map_entries_def)

lemma accumulate_sizes:
  "fold (\<lambda>k s. s\<lparr>memoryMapSize := memoryMapSize s + numPages (descriptor_at (mem s) Map D (of_nat k)) * 4096\<rparr>) ks s
   = s\<lparr>memoryMapSize := memoryMapSize s + sum_list (map (\<lambda>k. numPages (descriptor_at (mem s) Map D (of_nat k)) * 4096) ks)\<rparr>"
  by (induction ks arbitrary: s) (simp_all add: add.assoc)

lemma GetMemorySize_first:
  assumes "memoryMapSize s = 0" "unat n < 2 ^ 31"
  shows "GetMemorySize Map n D s =
    (let total = map_bytes (map_entries (mem s) Map D n) in Some (total, s\<lparr>memoryMapSize := total\<rparr>))"
  using assms
  by (simp add: GetMemorySize_def for_int_ok for_u64_fold Let_def accumulate_sizes map_bytes_def
      map_entries_def comp_def)

lemma GetMemorySize_cached: "0 < memoryMapSize s \<Longrightarrow> GetMemorySize Map n D s = Some (memoryMapSize s, s)"
  by (simp add: GetMemorySize_def)

text \<open>A map of \<open>2 ^ 31\<close> entries or more overflows the counter.\<close>

lemma GetMemorySize_overflow:
  "memoryMapSize s = 0 \<Longrightarrow> 2 ^ 31 \<le> unat n \<Longrightarrow> GetMemorySize Map n D s = None"
  by (simp add: GetMemorySize_def for_int_overflow)

text \<open>A descriptor occupies 40 bytes; reading it depends on these bytes only.\<close>

lemma read_descriptor_cong:
  assumes "\<And>b. b \<in> region a 40 \<Longrightarrow> m b = m' b"
  shows "read_descriptor m a = read_descriptor m' a"
proof -
  have "read64 m (a + of_nat k) = read64 m' (a + of_nat k)" if "k + 8 \<le> 40" for k
    using assms that by (intro read64_cong) (auto dest: region_sub [of _ a k 8 40])
  from this [of 8] this [of 16] this [of 24] this [of 32]
  have "read64 m (a + 8) = read64 m' (a + 8)" "read64 m (a + 16) = read64 m' (a + 16)"
    "read64 m (a + 24) = read64 m' (a + 24)" "read64 m (a + 32) = read64 m' (a + 32)" by simp_all
  moreover have "read32 m a = read32 m' a"
    using assms by (intro read32_cong) (auto dest: region_sub [of _ a 0 4 40, simplified])
  ultimately show ?thesis by (simp add: read_descriptor_def)
qed

text \<open>The memory map lies outside a set of addresses.\<close>

definition map_outside :: "u64 \<Rightarrow> u64 \<Rightarrow> u64 \<Rightarrow> u64 set \<Rightarrow> bool" where
  "map_outside Map D entries R \<longleftrightarrow> (\<forall>i < entries. region (Map + i * D) 40 \<inter> R = {})"

lemma descriptor_at_cong:
  assumes "map_outside Map D entries R" "i < entries" "\<And>b. b \<notin> R \<Longrightarrow> m b = m' b"
  shows "descriptor_at m Map D i = descriptor_at m' Map D i"
  unfolding descriptor_at_def
  using assms by (intro read_descriptor_cong) (auto simp: map_outside_def)

lemma in_map_entries:
  "d \<in> set (map_entries m Map D entries) \<longleftrightarrow> (\<exists>i < entries. d = descriptor_at m Map D i)"
proof -
  have "(\<exists>k < unat entries. d = descriptor_at m Map D (of_nat k)) \<longleftrightarrow> (\<exists>i < entries. d = descriptor_at m Map D i)"
  proof
    assume "\<exists>k < unat entries. d = descriptor_at m Map D (of_nat k)"
    then obtain k where k: "k < unat entries" "d = descriptor_at m Map D (of_nat k)" by blast
    have "unat (of_nat k :: u64) = k" using k(1) less_trans [OF k(1) unat_lt_u64] by (simp add: unat_of_nat_lt)
    then show "\<exists>i < entries. d = descriptor_at m Map D i"
      using k by (intro exI [of _ "of_nat k"]) (simp add: word_less_nat_alt)
  next
    assume "\<exists>i < entries. d = descriptor_at m Map D i"
    then obtain i where "i < entries" "d = descriptor_at m Map D i" by blast
    then show "\<exists>k < unat entries. d = descriptor_at m Map D (of_nat k)"
      by (intro exI [of _ "unat i"]) (simp add: word_less_nat_alt)
  qed
  then show ?thesis by (auto simp: map_entries_def)
qed

lemma bex_map_entries:
  "(\<exists>d \<in> set (map_entries m Map D entries). P d) \<longleftrightarrow> (\<exists>i < entries. P (descriptor_at m Map D i))"
  unfolding Bex_def in_map_entries by blast

end
