(* ===== verification/FrameAllocator.thy ===== *)
theory FrameAllocator
  imports Bitmap EfiMap
begin

text \<open>
  \<open>kernel/src/paging/PageFrameAllocator.cpp\<close>: the page frame allocator over the bitmap in memory,
  with its counters and the search cursor \<open>bitmapIndex\<close>. The file-level variables of the source are
  the fields of the state. \<open>ReadEfiMemoryMap\<close> divides by the descriptor size, which faults for
  zero, and its loops count with an \<open>int\<close>, so it returns an option. The lemmas say, for every operation, which bits of the bitmap
  change and how the counters move, and that the cursor never passes a free page.
\<close>

record pfa = efi +
  PageBitmap :: Bitmap
  allocatedMemory :: u64
  reservedMemory :: u64
  freeMemory :: u64
  isInitialized :: bool
  bitmapIndex :: u64

subsection \<open>Single pages\<close>

definition PageBitmap_Get :: "'a pfa_scheme \<Rightarrow> u64 \<Rightarrow> bool" where
  "PageBitmap_Get s i = Bitmap_Get (mem s) (PageBitmap s) i"

definition PageBitmap_Set :: "'a pfa_scheme \<Rightarrow> u64 \<Rightarrow> bool \<Rightarrow> bool \<times> 'a pfa_scheme" where
  "PageBitmap_Set s i v = (let (ok, m) = Bitmap_Set (mem s) (PageBitmap s) i v in (ok, s\<lparr>mem := m\<rparr>))"

definition AllocatePage :: "u64 \<Rightarrow> 'a pfa_scheme \<Rightarrow> 'a pfa_scheme" where
  "AllocatePage addr s =
     (let i = addr div 4096
      in if PageBitmap_Get s i then s
         else let (ok, s) = PageBitmap_Set s i True
              in if ok then s\<lparr>allocatedMemory := allocatedMemory s + 4096,
                              freeMemory := freeMemory s - 4096\<rparr>
                 else s)"

definition FreePage :: "u64 \<Rightarrow> 'a pfa_scheme \<Rightarrow> 'a pfa_scheme" where
  "FreePage addr s =
     (let i = addr div 4096
      in if \<not> PageBitmap_Get s i then s
         else let (ok, s) = PageBitmap_Set s i False
              in if ok then
                   let s = s\<lparr>allocatedMemory := allocatedMemory s - 4096,
                             freeMemory := freeMemory s + 4096\<rparr>
                   in if bitmapIndex s > i then s\<lparr>bitmapIndex := i\<rparr> else s
                 else s)"

definition ReservePage :: "u64 \<Rightarrow> 'a pfa_scheme \<Rightarrow> 'a pfa_scheme" where
  "ReservePage addr s =
     (let i = addr div 4096
      in if PageBitmap_Get s i then s else snd (PageBitmap_Set s i True))"

definition UnreservePage :: "u64 \<Rightarrow> 'a pfa_scheme \<Rightarrow> 'a pfa_scheme" where
  "UnreservePage addr s =
     (let i = addr div 4096
      in if \<not> PageBitmap_Get s i then s
         else let (ok, s) = PageBitmap_Set s i False
              in if ok then if bitmapIndex s > i then s\<lparr>bitmapIndex := i\<rparr> else s else s)"

subsection \<open>Page ranges\<close>

definition AllocatePages :: "u64 \<Rightarrow> u64 \<Rightarrow> 'a pfa_scheme \<Rightarrow> 'a pfa_scheme" where
  "AllocatePages addr pageCount s =
     (let startIndex = addr div 4096
      in for_u64 startIndex (startIndex + pageCount) (\<lambda>i. AllocatePage (i * 4096)) s)"

definition FreePages :: "u64 \<Rightarrow> u64 \<Rightarrow> 'a pfa_scheme \<Rightarrow> 'a pfa_scheme" where
  "FreePages addr pageCount s =
     (let startIndex = addr div 4096
      in for_u64 startIndex (startIndex + pageCount) (\<lambda>i. FreePage (i * 4096)) s)"

definition ReservePages :: "u64 \<Rightarrow> u64 \<Rightarrow> 'a pfa_scheme \<Rightarrow> 'a pfa_scheme" where
  "ReservePages addr pageCount s =
     (let startIndex = addr div 4096
      in for_u64 startIndex (startIndex + pageCount) (\<lambda>i. ReservePage (i * 4096)) s)"

definition UnreservePages :: "u64 \<Rightarrow> u64 \<Rightarrow> 'a pfa_scheme \<Rightarrow> 'a pfa_scheme" where
  "UnreservePages addr pageCount s =
     (let startIndex = addr div 4096
      in for_u64 startIndex (startIndex + pageCount) (\<lambda>i. UnreservePage (i * 4096)) s)"

subsection \<open>Requesting a page\<close>

text \<open>The search loop of \<open>RequestPage\<close>: its counter is the persistent cursor \<open>bitmapIndex\<close>.\<close>

function RequestPage :: "'a pfa_scheme \<Rightarrow> u64 \<times> 'a pfa_scheme" where
  "RequestPage s =
     (if bitmapIndex s < bm_size (PageBitmap s) * 8 then
        if PageBitmap_Get s (bitmapIndex s) then RequestPage (s\<lparr>bitmapIndex := bitmapIndex s + 1\<rparr>)
        else (bitmapIndex s * 4096, AllocatePage (bitmapIndex s * 4096) s)
      else (0, s))"
  by pat_completeness auto
termination
proof (relation "measure (\<lambda>s. unat (bm_size (PageBitmap s) * 8) - unat (bitmapIndex s))")
  fix s :: "'a pfa_scheme"
  assume lt: "bitmapIndex s < bm_size (PageBitmap s) * 8"
  then have "unat (bitmapIndex s + 1) = Suc (unat (bitmapIndex s))" by (rule unat_plus_one_less)
  with lt show "(s\<lparr>bitmapIndex := bitmapIndex s + 1\<rparr>, s)
      \<in> measure (\<lambda>s. unat (bm_size (PageBitmap s) * 8) - unat (bitmapIndex s))"
    by (simp add: word_less_nat_alt diff_less_mono2)
qed simp

declare RequestPage.simps [simp del]

definition GetFreeRAM :: "'a pfa_scheme \<Rightarrow> u64" where
  "GetFreeRAM s = freeMemory s"

definition GetUsedRAM :: "'a pfa_scheme \<Rightarrow> u64" where
  "GetUsedRAM s = allocatedMemory s"

definition GetReservedRAM :: "'a pfa_scheme \<Rightarrow> u64" where
  "GetReservedRAM s = reservedMemory s"

subsection \<open>Initialisation\<close>

definition InitializeBitmap :: "u64 \<Rightarrow> u64 \<Rightarrow> 'a pfa_scheme \<Rightarrow> 'a pfa_scheme option" where
  "InitializeBitmap bitmapSize bufferAddress s =
     (let s = s\<lparr>PageBitmap := \<lparr>bm_size = bitmapSize, bm_Buffer = bufferAddress\<rparr>\<rparr>
      in for_int 0 bitmapSize (\<lambda>i s. s\<lparr>mem := (mem s)(bm_Buffer (PageBitmap s) + i := 0)\<rparr>) s)"

text \<open>The first loop of \<open>ReadEfiMemoryMap\<close>: the first of the largest free segments.\<close>

definition largestFreeMemSeg :: "memory \<Rightarrow> u64 \<Rightarrow> u64 \<Rightarrow> u64 \<Rightarrow> (u64 \<times> u64) option" where
  "largestFreeMemSeg m Map entries DescriptorSize =
     for_int 0 entries
       (\<lambda>i (seg, size).
          let desc = descriptor_at m Map DescriptorSize i
          in if desc_type desc = 7 then
               if numPages desc * 4096 > size then (physAddr desc, numPages desc * 4096)
               else (seg, size)
             else (seg, size))
       (0, 0)"

definition account_descriptor :: "u64 \<Rightarrow> u64 \<Rightarrow> u64 \<Rightarrow> 'a pfa_scheme \<Rightarrow> 'a pfa_scheme" where
  "account_descriptor Map DescriptorSize i s =
     (let desc = descriptor_at (mem s) Map DescriptorSize i;
          s = (if desc_type desc = 7 then
                 let s = UnreservePages (physAddr desc) (numPages desc) s
                 in s\<lparr>freeMemory := freeMemory s + numPages (descriptor_at (mem s) Map DescriptorSize i) * 4096\<rparr>
               else s);
          desc = descriptor_at (mem s) Map DescriptorSize i
      in if desc_type desc = 2 \<or> desc_type desc = 3 \<or> desc_type desc = 4 \<or> desc_type desc = 5
         then s\<lparr>reservedMemory := reservedMemory s + numPages desc * 4096\<rparr> else s)"

definition ReadEfiMemoryMap :: "u64 \<Rightarrow> u64 \<Rightarrow> u64 \<Rightarrow> 'a pfa_scheme \<Rightarrow> 'a pfa_scheme option" where
  "ReadEfiMemoryMap Map MapSize DescriptorSize s =
     (if isInitialized s then Some s
      else if DescriptorSize = 0 then None
      else do {
        let s = s\<lparr>isInitialized := True\<rparr>;
        let entries = MapSize div DescriptorSize;
        (seg, _) \<leftarrow> largestFreeMemSeg (mem s) Map entries DescriptorSize;
        (memorySize, s) \<leftarrow> GetMemorySize Map entries DescriptorSize s;
        let bitmapSize = memorySize div 4096 div 8 + 1;
        s \<leftarrow> InitializeBitmap bitmapSize seg s;
        let s = ReservePages 0 (memorySize div 4096 + 1) s;
        s \<leftarrow> for_int 0 entries (account_descriptor Map DescriptorSize) s;
        let s = ReservePages 0 0x100 s;
        let s = s\<lparr>reservedMemory := reservedMemory s + 0x100 * 0x1000\<rparr>;
        Some (AllocatePages (bm_Buffer (PageBitmap s)) (bm_size (PageBitmap s) div 4096 + 1) s)
      })"

subsection \<open>What the single-page operations do\<close>

text \<open>\<open>tracked\<close>: the indices the accessors let through; \<open>limit\<close>: the first index the search does not
  reach. The bitmap holds one bit for every index below the limit.\<close>

definition limit :: "'a pfa_scheme \<Rightarrow> u64" where
  "limit s = bm_size (PageBitmap s) * 8"

definition tracked :: "'a pfa_scheme \<Rightarrow> u64 \<Rightarrow> bool" where
  "tracked s i \<longleftrightarrow> i \<le> limit s"

interpretation pages: bit_store PageBitmap_Get PageBitmap_Set tracked
  by unfold_locales
    (simp_all add: PageBitmap_Get_def PageBitmap_Set_def tracked_def limit_def split_beta
      bm_bits.get_out bm_bits.put_out bm_bits.put_ok bm_bits.get_put)

text \<open>The frame of a bit update: only the bitmap's memory changes.\<close>

lemma PageBitmap_Set_frame [frame_simps]:
  "PageBitmap (snd (PageBitmap_Set s i v)) = PageBitmap s"
  "bitmapIndex (snd (PageBitmap_Set s i v)) = bitmapIndex s"
  "allocatedMemory (snd (PageBitmap_Set s i v)) = allocatedMemory s"
  "freeMemory (snd (PageBitmap_Set s i v)) = freeMemory s"
  "reservedMemory (snd (PageBitmap_Set s i v)) = reservedMemory s"
  "memoryMapSize (snd (PageBitmap_Set s i v)) = memoryMapSize s"
  "isInitialized (snd (PageBitmap_Set s i v)) = isInitialized s"
  "pfa.more (snd (PageBitmap_Set s i v)) = pfa.more s"
  by (simp_all add: PageBitmap_Set_def split_beta)

lemma PageBitmap_Get_cong:
  "mem s = mem s' \<Longrightarrow> PageBitmap s = PageBitmap s' \<Longrightarrow> PageBitmap_Get s i = PageBitmap_Get s' i"
  by (simp add: PageBitmap_Get_def)

lemma PageBitmap_Get_upd [simp]:
  "PageBitmap_Get (s\<lparr>allocatedMemory := x\<rparr>) i = PageBitmap_Get s i"
  "PageBitmap_Get (s\<lparr>freeMemory := x\<rparr>) i = PageBitmap_Get s i"
  "PageBitmap_Get (s\<lparr>reservedMemory := x\<rparr>) i = PageBitmap_Get s i"
  "PageBitmap_Get (s\<lparr>bitmapIndex := x\<rparr>) i = PageBitmap_Get s i"
  "PageBitmap_Get (s\<lparr>isInitialized := b\<rparr>) i = PageBitmap_Get s i"
  "PageBitmap_Get (s\<lparr>memoryMapSize := x\<rparr>) i = PageBitmap_Get s i"
  by (simp_all add: PageBitmap_Get_def)

lemma limit_upd [simp]:
  "limit (s\<lparr>allocatedMemory := x\<rparr>) = limit s" "limit (s\<lparr>freeMemory := x\<rparr>) = limit s"
  "limit (s\<lparr>reservedMemory := x\<rparr>) = limit s" "limit (s\<lparr>bitmapIndex := x\<rparr>) = limit s"
  "limit (s\<lparr>isInitialized := b\<rparr>) = limit s" "limit (s\<lparr>memoryMapSize := x\<rparr>) = limit s"
  "limit (s\<lparr>mem := m\<rparr>) = limit s"
  by (simp_all add: limit_def)

lemma PageBitmap_op [frame_simps]:
  "PageBitmap (AllocatePage a s) = PageBitmap s" "PageBitmap (FreePage a s) = PageBitmap s"
  "PageBitmap (ReservePage a s) = PageBitmap s" "PageBitmap (UnreservePage a s) = PageBitmap s"
  by (simp_all add: AllocatePage_def FreePage_def ReservePage_def UnreservePage_def Let_def
      split_beta frame_simps)

lemma limit_op [frame_simps]:
  "limit (AllocatePage a s) = limit s" "limit (FreePage a s) = limit s"
  "limit (ReservePage a s) = limit s" "limit (UnreservePage a s) = limit s"
  by (simp_all add: limit_def frame_simps)

lemma used_op:
  "PageBitmap_Get (AllocatePage a s) j = (if j = a div 4096 \<and> tracked s j then True else PageBitmap_Get s j)"
  "PageBitmap_Get (FreePage a s) j = (if j = a div 4096 \<and> tracked s j then False else PageBitmap_Get s j)"
  "PageBitmap_Get (ReservePage a s) j = (if j = a div 4096 \<and> tracked s j then True else PageBitmap_Get s j)"
  "PageBitmap_Get (UnreservePage a s) j = (if j = a div 4096 \<and> tracked s j then False else PageBitmap_Get s j)"
  using pages.guarded_set [of s "a div 4096" j] pages.guarded_clear [of s "a div 4096" j]
  by (auto simp: AllocatePage_def FreePage_def ReservePage_def UnreservePage_def Let_def split_beta
      split: if_splits)

lemma tracked_op [frame_simps]:
  "tracked (AllocatePage a s) = tracked s" "tracked (FreePage a s) = tracked s"
  "tracked (ReservePage a s) = tracked s" "tracked (UnreservePage a s) = tracked s"
  by (simp_all add: tracked_def frame_simps fun_eq_iff)

lemma AllocatePage_counters:
  "allocatedMemory (AllocatePage a s) = allocatedMemory s +
     (if tracked s (a div 4096) \<and> \<not> PageBitmap_Get s (a div 4096) then 4096 else 0)"
  "freeMemory (AllocatePage a s) = freeMemory s -
     (if tracked s (a div 4096) \<and> \<not> PageBitmap_Get s (a div 4096) then 4096 else 0)"
  "bitmapIndex (AllocatePage a s) = bitmapIndex s"
  using pages.put_ok [of s "a div 4096" True] pages.put_out [of s "a div 4096" True]
  by (cases "tracked s (a div 4096)"; auto simp: AllocatePage_def Let_def split_beta frame_simps)+

lemma FreePage_counters:
  "allocatedMemory (FreePage a s) = allocatedMemory s -
     (if PageBitmap_Get s (a div 4096) then 4096 else 0)"
  "freeMemory (FreePage a s) = freeMemory s + (if PageBitmap_Get s (a div 4096) then 4096 else 0)"
  "bitmapIndex (FreePage a s) =
     (if PageBitmap_Get s (a div 4096) \<and> bitmapIndex s > a div 4096 then a div 4096 else bitmapIndex s)"
  using pages.put_ok [of s "a div 4096" False] pages.get_out [of s "a div 4096"]
  by (auto simp: FreePage_def Let_def split_beta frame_simps)

lemma ReservePage_counters:
  "allocatedMemory (ReservePage a s) = allocatedMemory s"
  "freeMemory (ReservePage a s) = freeMemory s"
  "bitmapIndex (ReservePage a s) = bitmapIndex s"
  by (auto simp: ReservePage_def Let_def split_beta frame_simps)

lemma UnreservePage_counters:
  "allocatedMemory (UnreservePage a s) = allocatedMemory s"
  "freeMemory (UnreservePage a s) = freeMemory s"
  "bitmapIndex (UnreservePage a s) =
     (if PageBitmap_Get s (a div 4096) \<and> bitmapIndex s > a div 4096 then a div 4096 else bitmapIndex s)"
  using pages.put_ok [of s "a div 4096" False] pages.get_out [of s "a div 4096"]
  by (auto simp: UnreservePage_def Let_def split_beta frame_simps)

subsection \<open>Ranges of pages\<close>

text \<open>The four range operations share one loop; what it does follows from what the single-page
  operation does to the page of an address.\<close>

locale page_op =
  fixes used :: "'s \<Rightarrow> u64 \<Rightarrow> bool"
    and known :: "'s \<Rightarrow> u64 \<Rightarrow> bool"
    and op :: "u64 \<Rightarrow> 's \<Rightarrow> 's"
    and v :: bool
  assumes op_used: "used (op a s) j = (if j = a div 4096 \<and> known s j then v else used s j)"
    and op_known: "known (op a s) = known s"
begin

lemma range_used:
  assumes "unat n \<le> 2 ^ 52"
  shows "used (for_u64 lo n (\<lambda>i. op (i * 4096)) s) j
       = (if lo \<le> j \<and> j < n \<and> known s j then v else used s j)"
proof (cases "lo \<le> n")
  case True
  have "(\<forall>j. used (for_u64 lo n (\<lambda>i. op (i * 4096)) s) j = (if lo \<le> j \<and> j < n \<and> known s j then v else used s j))
     \<and> known (for_u64 lo n (\<lambda>i. op (i * 4096)) s) = known s"
  proof (rule for_u64_inv [OF True, where P = "\<lambda>k t.
      (\<forall>j. used t j = (if lo \<le> j \<and> j < k \<and> known s j then v else used s j)) \<and> known t = known s"])
    fix k t
    assume k: "lo \<le> k" "k < n"
      and t: "(\<forall>j. used t j = (if lo \<le> j \<and> j < k \<and> known s j then v else used s j)) \<and> known t = known s"
    have "unat k < 2 ^ 52" using k assms by (simp add: word_nat)
    then have i: "k * 4096 div 4096 = k" by (rule page_index_mult)
    have le: "j < k + 1 \<longleftrightarrow> j < k \<or> j = k" for j
      using unat_plus_one_less [OF k(2)] by (auto simp: word_nat less_Suc_eq)
    show "(\<forall>j. used (op (k * 4096) t) j = (if lo \<le> j \<and> j < k + 1 \<and> known s j then v else used s j))
       \<and> known (op (k * 4096) t) = known s"
      using t k by (auto simp: op_used op_known i le)
  qed auto
  then show ?thesis by blast
next
  case False
  then show ?thesis by auto
qed

lemma range_known: "known (for_u64 lo n (\<lambda>i. op (i * 4096)) s) = known s"
  by (rule for_u64_keeps [where P = "\<lambda>t. known t = known s"]) (simp_all add: op_known)

end

interpretation alloc_op: page_op PageBitmap_Get tracked AllocatePage True
  by unfold_locales (simp_all only: used_op tracked_op)

interpretation free_op: page_op PageBitmap_Get tracked FreePage False
  by unfold_locales (simp_all only: used_op tracked_op)

interpretation reserve_op: page_op PageBitmap_Get tracked ReservePage True
  by unfold_locales (simp_all only: used_op tracked_op)

interpretation unreserve_op: page_op PageBitmap_Get tracked UnreservePage False
  by unfold_locales (simp_all only: used_op tracked_op)

text \<open>The pages of a range operation on \<open>addr\<close> and \<open>count\<close>.\<close>

definition page_range :: "u64 \<Rightarrow> u64 \<Rightarrow> u64 \<Rightarrow> bool" where
  "page_range addr count j \<longleftrightarrow> addr div 4096 \<le> j \<and> j < addr div 4096 + count"

definition range_ok :: "u64 \<Rightarrow> u64 \<Rightarrow> bool" where
  "range_ok addr count \<longleftrightarrow> unat (addr div 4096) + unat count \<le> 2 ^ 52"

lemma range_ok_bound: "range_ok addr count \<Longrightarrow> unat (addr div 4096 + count) \<le> 2 ^ 52"
  by (simp add: range_ok_def unat_add_no_wrap)

lemma page_range_nat:
  "range_ok addr count \<Longrightarrow>
   page_range addr count j \<longleftrightarrow> unat (addr div 4096) \<le> unat j \<and> unat j < unat (addr div 4096) + unat count"
  by (simp add: page_range_def range_ok_def word_nat unat_add_no_wrap)

lemma used_range:
  assumes "range_ok addr count"
  shows "PageBitmap_Get (AllocatePages addr count s) j =
           (if page_range addr count j \<and> tracked s j then True else PageBitmap_Get s j)"
    and "PageBitmap_Get (FreePages addr count s) j =
           (if page_range addr count j \<and> tracked s j then False else PageBitmap_Get s j)"
    and "PageBitmap_Get (ReservePages addr count s) j =
           (if page_range addr count j \<and> tracked s j then True else PageBitmap_Get s j)"
    and "PageBitmap_Get (UnreservePages addr count s) j =
           (if page_range addr count j \<and> tracked s j then False else PageBitmap_Get s j)"
  unfolding AllocatePages_def FreePages_def ReservePages_def UnreservePages_def page_range_def Let_def
    alloc_op.range_used [OF range_ok_bound [OF assms]] free_op.range_used [OF range_ok_bound [OF assms]]
    reserve_op.range_used [OF range_ok_bound [OF assms]] unreserve_op.range_used [OF range_ok_bound [OF assms]]
  by simp_all

lemma PageBitmap_range [frame_simps]:
  "PageBitmap (AllocatePages a n s) = PageBitmap s" "PageBitmap (FreePages a n s) = PageBitmap s"
  "PageBitmap (ReservePages a n s) = PageBitmap s" "PageBitmap (UnreservePages a n s) = PageBitmap s"
  unfolding AllocatePages_def FreePages_def ReservePages_def UnreservePages_def Let_def
  by (rule for_u64_keeps [where P = "\<lambda>t. PageBitmap t = PageBitmap s"]; simp add: frame_simps)+

lemma tracked_range [frame_simps]:
  "tracked (AllocatePages a n s) = tracked s" "tracked (FreePages a n s) = tracked s"
  "tracked (ReservePages a n s) = tracked s" "tracked (UnreservePages a n s) = tracked s"
  by (simp_all add: tracked_def limit_def frame_simps fun_eq_iff)

lemma counters_range [frame_simps]:
  "allocatedMemory (ReservePages a n s) = allocatedMemory s"
  "freeMemory (ReservePages a n s) = freeMemory s"
  "bitmapIndex (ReservePages a n s) = bitmapIndex s"
  "allocatedMemory (UnreservePages a n s) = allocatedMemory s"
  "freeMemory (UnreservePages a n s) = freeMemory s"
  "bitmapIndex (AllocatePages a n s) = bitmapIndex s"
  unfolding AllocatePages_def ReservePages_def UnreservePages_def Let_def
  by (rule for_u64_keeps [where P = "\<lambda>t. allocatedMemory t = allocatedMemory s"]
      for_u64_keeps [where P = "\<lambda>t. freeMemory t = freeMemory s"]
      for_u64_keeps [where P = "\<lambda>t. bitmapIndex t = bitmapIndex s"];
      simp add: ReservePage_counters UnreservePage_counters AllocatePage_counters)+

subsection \<open>The counters\<close>

text \<open>No operation on allocated pages changes the sum of the two counters.\<close>

definition accounted :: "'a pfa_scheme \<Rightarrow> u64" where
  "accounted s = allocatedMemory s + freeMemory s"

lemma accounted_op:
  "accounted (AllocatePage a s) = accounted s" "accounted (FreePage a s) = accounted s"
  by (simp_all add: accounted_def AllocatePage_counters FreePage_counters)

lemma accounted_range:
  "accounted (AllocatePages a n s) = accounted s" "accounted (FreePages a n s) = accounted s"
  unfolding AllocatePages_def FreePages_def Let_def
  by (rule for_u64_keeps [where P = "\<lambda>t. accounted t = accounted s"]; simp add: accounted_op)+

text \<open>A range allocation moves exactly the pages that were free from one counter to the other.\<close>

definition newly_used :: "'a pfa_scheme \<Rightarrow> u64 \<Rightarrow> u64 \<Rightarrow> u64 set" where
  "newly_used s lo hi = {j. lo \<le> j \<and> j < hi \<and> tracked s j \<and> \<not> PageBitmap_Get s j}"

lemma newly_used_empty [simp]: "newly_used s lo lo = {}"
  by (auto simp: newly_used_def)

lemma AllocatePages_allocated:
  assumes "range_ok addr count"
  shows "allocatedMemory (AllocatePages addr count s)
       = allocatedMemory s + 4096 * of_nat (card (newly_used s (addr div 4096) (addr div 4096 + count)))"
proof -
  let ?lo = "addr div 4096" and ?hi = "addr div 4096 + count"
  have le: "?lo \<le> ?hi" using assms by (simp add: range_ok_def word_nat unat_add_no_wrap)
  have "(\<forall>j. PageBitmap_Get (AllocatePages addr count s) j = (?lo \<le> j \<and> j < ?hi \<and> tracked s j \<or> PageBitmap_Get s j))
    \<and> tracked (AllocatePages addr count s) = tracked s
    \<and> allocatedMemory (AllocatePages addr count s) = allocatedMemory s + 4096 * of_nat (card (newly_used s ?lo ?hi))"
    unfolding AllocatePages_def Let_def
  proof (rule for_u64_inv [OF le, where P = "\<lambda>k t.
      (\<forall>j. PageBitmap_Get t j = (?lo \<le> j \<and> j < k \<and> tracked s j \<or> PageBitmap_Get s j))
      \<and> tracked t = tracked s
      \<and> allocatedMemory t = allocatedMemory s + 4096 * of_nat (card (newly_used s ?lo k))"])
    fix k t
    assume k: "?lo \<le> k" "k < ?hi" and t: "(\<forall>j. PageBitmap_Get t j = (?lo \<le> j \<and> j < k \<and> tracked s j \<or> PageBitmap_Get s j))
      \<and> tracked t = tracked s \<and> allocatedMemory t = allocatedMemory s + 4096 * of_nat (card (newly_used s ?lo k))"
    have "unat k < 2 ^ 52" using k range_ok_bound [OF assms] by (simp add: word_nat)
    then have i: "k * 4096 div 4096 = k" by (rule page_index_mult)
    have lt: "j < k + 1 \<longleftrightarrow> j < k \<or> j = k" for j
      using unat_plus_one_less [OF k(2)] by (auto simp: word_nat less_Suc_eq)
    have new: "newly_used s ?lo (k + 1) =
        (if tracked s k \<and> \<not> PageBitmap_Get s k then insert k (newly_used s ?lo k) else newly_used s ?lo k)"
      using k by (auto simp: newly_used_def lt)
    have "k \<notin> newly_used s ?lo k" by (simp add: newly_used_def)
    then have "card (newly_used s ?lo (k + 1)) = card (newly_used s ?lo k)
        + (if tracked s k \<and> \<not> PageBitmap_Get s k then 1 else 0)"
      by (simp add: new)
    then show "(\<forall>j. PageBitmap_Get (AllocatePage (k * 4096) t) j = (?lo \<le> j \<and> j < k + 1 \<and> tracked s j \<or> PageBitmap_Get s j))
      \<and> tracked (AllocatePage (k * 4096) t) = tracked s
      \<and> allocatedMemory (AllocatePage (k * 4096) t) = allocatedMemory s + 4096 * of_nat (card (newly_used s ?lo (k + 1)))"
      using t k by (auto simp: used_op i lt frame_simps AllocatePage_counters distrib_left)
  qed auto
  then show ?thesis by blast
qed

subsection \<open>The cursor and the page request\<close>

text \<open>The invariant of the search: every page below the cursor is in use.\<close>

definition cursor_ok :: "'a pfa_scheme \<Rightarrow> bool" where
  "cursor_ok s \<longleftrightarrow> (\<forall>i. i < bitmapIndex s \<longrightarrow> i < limit s \<longrightarrow> PageBitmap_Get s i)"

lemma cursor_ok_op:
  assumes "cursor_ok s"
  shows "cursor_ok (AllocatePage a s)" "cursor_ok (FreePage a s)"
    "cursor_ok (ReservePage a s)" "cursor_ok (UnreservePage a s)"
  using assms
  by (auto simp: cursor_ok_def used_op frame_simps AllocatePage_counters ReservePage_counters
      FreePage_counters UnreservePage_counters split: if_splits)

lemma cursor_ok_RequestPage: "cursor_ok s \<Longrightarrow> cursor_ok (snd (RequestPage s))"
proof (induction s rule: RequestPage.induct)
  case (1 s)
  show ?case
  proof (cases "bitmapIndex s < limit s \<and> PageBitmap_Get s (bitmapIndex s)")
    case True
    have "i < bitmapIndex s + 1 \<longleftrightarrow> i < bitmapIndex s \<or> i = bitmapIndex s" for i
      using True unat_plus_one_less [of "bitmapIndex s" "limit s"] by (auto simp: word_nat less_Suc_eq)
    then have "cursor_ok (s\<lparr>bitmapIndex := bitmapIndex s + 1\<rparr>)" using "1.prems" True by (auto simp: cursor_ok_def)
    then show ?thesis using "1.IH" True by (simp add: RequestPage.simps [of s] limit_def)
  next
    case False
    then show ?thesis using "1.prems" cursor_ok_op(1) by (auto simp: RequestPage.simps [of s] limit_def)
  qed
qed

lemma cursor_ok_range:
  assumes "cursor_ok s"
  shows "cursor_ok (AllocatePages a n s)" "cursor_ok (FreePages a n s)"
    "cursor_ok (ReservePages a n s)" "cursor_ok (UnreservePages a n s)"
  unfolding AllocatePages_def FreePages_def ReservePages_def UnreservePages_def Let_def
  by (rule for_u64_keeps [where P = cursor_ok]; simp add: assms cursor_ok_op)+

text \<open>The search of a request: it returns the least free page at or above the cursor, marked used,
  or zero with the cursor past the end.\<close>

definition free_at :: "'a pfa_scheme \<Rightarrow> u64 \<Rightarrow> bool" where
  "free_at s i \<longleftrightarrow> i < limit s \<and> \<not> PageBitmap_Get s i"

lemma RequestPage_none:
  assumes "\<And>i. bitmapIndex s \<le> i \<Longrightarrow> \<not> free_at s i"
  shows "\<exists>k. RequestPage s = (0, s\<lparr>bitmapIndex := k\<rparr>) \<and> limit s \<le> k"
  using assms
proof (induction s rule: RequestPage.induct)
  case (1 s)
  show ?case
  proof (cases "bitmapIndex s < limit s")
    case True
    then have used: "PageBitmap_Get s (bitmapIndex s)" using "1.prems" [of "bitmapIndex s"] by (simp add: free_at_def)
    have "bitmapIndex s \<le> bitmapIndex s + 1"
      using unat_plus_one_less [OF True] by (simp add: word_nat)
    then have "\<exists>k. RequestPage (s\<lparr>bitmapIndex := bitmapIndex s + 1\<rparr>)
        = (0, s\<lparr>bitmapIndex := bitmapIndex s + 1\<rparr>\<lparr>bitmapIndex := k\<rparr>) \<and> limit s \<le> k"
      using "1.IH" "1.prems" True used by (fastforce simp: limit_def [symmetric] free_at_def)
    then show ?thesis using True used by (simp add: RequestPage.simps [of s] limit_def)
  next
    case False
    then show ?thesis
      by (intro exI [of _ "bitmapIndex s"]) (simp add: RequestPage.simps [of s] limit_def)
  qed
qed

lemma RequestPage_found:
  assumes "bitmapIndex s \<le> i" "free_at s i" "\<And>j. bitmapIndex s \<le> j \<Longrightarrow> j < i \<Longrightarrow> PageBitmap_Get s j"
  shows "RequestPage s = (i * 4096, AllocatePage (i * 4096) (s\<lparr>bitmapIndex := i\<rparr>))"
  using assms
proof (induction s rule: RequestPage.induct)
  case (1 s)
  have lt: "bitmapIndex s < limit s" using "1.prems" by (auto simp: free_at_def)
  show ?case
  proof (cases "bitmapIndex s = i")
    case True
    then have "AllocatePage (i * 4096) (s\<lparr>bitmapIndex := i\<rparr>) = AllocatePage (i * 4096) s"
      by (intro arg_cong [where f = "AllocatePage (i * 4096)"]) (cases s, simp)
    then show ?thesis
      using True lt "1.prems" by (simp add: RequestPage.simps [of s] limit_def free_at_def)
  next
    case False
    then have c: "bitmapIndex s < i" using "1.prems"(1) by simp
    then have used: "PageBitmap_Get s (bitmapIndex s)" using "1.prems"(3) [of "bitmapIndex s"] by simp
    have "bitmapIndex s \<le> bitmapIndex s + 1" "bitmapIndex s + 1 \<le> i"
      using unat_plus_one_less [OF c] plus_one_le [OF c] by (simp_all add: word_nat)
    then have "RequestPage (s\<lparr>bitmapIndex := bitmapIndex s + 1\<rparr>)
        = (i * 4096, AllocatePage (i * 4096) (s\<lparr>bitmapIndex := bitmapIndex s + 1\<rparr>\<lparr>bitmapIndex := i\<rparr>))"
      using "1.IH" "1.prems" lt used by (auto simp: limit_def [symmetric] free_at_def)
    then show ?thesis using lt used by (simp add: RequestPage.simps [of s] limit_def)
  qed
qed

lemma least_free:
  assumes "cursor_ok s" "free_at s i"
  obtains k where "bitmapIndex s \<le> k" "free_at s k" "\<And>j. j < k \<Longrightarrow> PageBitmap_Get s j"
proof -
  let ?k = "LEAST n. \<exists>i. unat i = n \<and> free_at s i"
  have "\<exists>i. unat i = unat i \<and> free_at s i" using assms(2) by blast
  then have ex: "\<exists>n. \<exists>i. unat i = n \<and> free_at s i" using assms(2) by blast
  obtain k where k: "unat k = ?k" "free_at s k" using LeastI_ex [OF ex] by blast
  have low: "PageBitmap_Get s j" if "j < k" for j
  proof (rule ccontr)
    assume "\<not> PageBitmap_Get s j"
    moreover have "j < limit s" using that k(2) by (simp add: free_at_def word_nat)
    ultimately have "free_at s j" by (simp add: free_at_def)
    then have "?k \<le> unat j" by (intro Least_le) blast
    then show False using that k(1) by (simp add: word_nat)
  qed
  have "bitmapIndex s \<le> k"
    using k(2) assms(1) by (force simp: cursor_ok_def free_at_def not_less)
  then show thesis using that k(2) low by blast
qed

lemma RequestPage_least:
  assumes "cursor_ok s" "free_at s k" "\<And>j. j < k \<Longrightarrow> PageBitmap_Get s j"
  shows "RequestPage s = (k * 4096, AllocatePage (k * 4096) (s\<lparr>bitmapIndex := k\<rparr>))"
proof (rule RequestPage_found)
  show "bitmapIndex s \<le> k" using assms(1,2) by (force simp: cursor_ok_def free_at_def not_less)
qed (use assms in auto)

text \<open>The states a request is made in: the search can reach only pages whose address fits, page
  zero is in use (so that address zero means failure), and the cursor is right.\<close>

definition alloc_ready :: "'a pfa_scheme \<Rightarrow> bool" where
  "alloc_ready s \<longleftrightarrow> cursor_ok s \<and> unat (limit s) \<le> 2 ^ 40 \<and> unat (limit s) = 8 * unat (bm_size (PageBitmap s))
     \<and> 0 < limit s \<and> PageBitmap_Get s 0"

lemma RequestPage_cases:
  assumes "alloc_ready s"
  obtains (none) k where "\<And>i. i < limit s \<Longrightarrow> PageBitmap_Get s i" "RequestPage s = (0, s\<lparr>bitmapIndex := k\<rparr>)"
  | (page) k where "k < limit s" "k \<noteq> 0" "\<not> PageBitmap_Get s k" "\<And>j. j < k \<Longrightarrow> PageBitmap_Get s j"
      "RequestPage s = (k * 4096, AllocatePage (k * 4096) (s\<lparr>bitmapIndex := k\<rparr>))"
      "k * 4096 div 4096 = k" "k * 4096 \<noteq> 0" "unat (k * 4096) = unat k * 4096"
proof (cases "\<exists>i. free_at s i")
  case True
  have c: "cursor_ok s" and lim: "unat (limit s) \<le> 2 ^ 40" and z: "PageBitmap_Get s 0"
    using assms by (simp_all add: alloc_ready_def)
  obtain k where k: "free_at s k" "\<And>j. j < k \<Longrightarrow> PageBitmap_Get s j"
    using True least_free [OF c] by metis
  have "k \<noteq> 0" using k(1) z by (auto simp: free_at_def)
  have "unat k < 2 ^ 40" using k(1) lim by (simp add: free_at_def word_nat)
  then have u: "unat (k * 4096) = unat k * 4096" using unat_mult_lem [of k 4096] by simp
  have d: "k * 4096 div 4096 = k" using \<open>unat k < 2 ^ 40\<close> by (intro page_index_mult) simp
  then have "k * 4096 \<noteq> 0" using \<open>k \<noteq> 0\<close> by auto
  show thesis
    by (rule page [of k])
      (use k \<open>k \<noteq> 0\<close> \<open>k * 4096 \<noteq> 0\<close> u d RequestPage_least [OF c k(1)] in \<open>auto simp: free_at_def\<close>)
next
  case False
  then obtain k where "RequestPage s = (0, s\<lparr>bitmapIndex := k\<rparr>)" using RequestPage_none [of s] by blast
  then show thesis using none False by (simp add: free_at_def)
qed

subsection \<open>The contract with the clients of the allocator\<close>

text \<open>What the paging code and the disk driver rely on: a request that succeeds gives the address of
  a page nobody holds, and from then on that page is held.\<close>

locale frame_source =
  fixes request :: "'s \<Rightarrow> u64 \<times> 's"
    and taken :: "'s \<Rightarrow> u64 \<Rightarrow> bool"
    and ready :: "'s \<Rightarrow> bool"
  assumes request_ready: "ready s \<Longrightarrow> ready (snd (request s))"
    and request_free: "ready s \<Longrightarrow> fst (request s) \<noteq> 0 \<Longrightarrow> \<not> taken s (fst (request s) div 4096)"
    and request_aligned: "ready s \<Longrightarrow> unat (fst (request s)) mod 4096 = 0"
    and request_taken: "ready s \<Longrightarrow> fst (request s) \<noteq> 0 \<Longrightarrow>
      taken (snd (request s)) j \<longleftrightarrow> j = fst (request s) div 4096 \<or> taken s j"
    and request_failed: "ready s \<Longrightarrow> fst (request s) = 0 \<Longrightarrow> taken (snd (request s)) = taken s"

fun request_many :: "('s \<Rightarrow> u64 \<times> 's) \<Rightarrow> nat \<Rightarrow> 's \<Rightarrow> u64 list \<times> 's" where
  "request_many req 0 s = ([], s)"
| "request_many req (Suc n) s =
     (let (p, s) = req s; (ps, s) = request_many req n s in (p # ps, s))"

context frame_source
begin

lemma taken_mono: "ready s \<Longrightarrow> taken s j \<Longrightarrow> taken (snd (request s)) j"
  using request_taken [of s j] request_failed [of s] by (cases "fst (request s) = 0") auto

lemma request_many_ready: "ready s \<Longrightarrow> ready (snd (request_many request n s))"
  by (induction n arbitrary: s) (auto simp: split_beta Let_def request_ready)

lemma request_many_fresh:
  "ready s \<Longrightarrow> p \<in> set (fst (request_many request n s)) \<Longrightarrow> p \<noteq> 0 \<Longrightarrow> \<not> taken s (p div 4096)"
proof (induction n arbitrary: s)
  case (Suc n)
  let ?s = "snd (request s)"
  show ?case
  proof (cases "p = fst (request s)")
    case True
    then show ?thesis using Suc.prems request_free by simp
  next
    case False
    then have "p \<in> set (fst (request_many request n ?s))" using Suc.prems by (auto simp: split_beta Let_def)
    then have "\<not> taken ?s (p div 4096)" using Suc.IH Suc.prems request_ready by blast
    then show ?thesis using taken_mono Suc.prems(1) by blast
  qed
qed simp

lemma request_many_distinct:
  "ready s \<Longrightarrow> distinct (map (\<lambda>p. p div 4096) (filter (\<lambda>p. p \<noteq> 0) (fst (request_many request n s))))"
proof (induction n arbitrary: s)
  case (Suc n)
  let ?s = "snd (request s)" and ?p = "fst (request s)"
  have IH: "distinct (map (\<lambda>p. p div 4096) (filter (\<lambda>p. p \<noteq> 0) (fst (request_many request n ?s))))"
    using Suc request_ready by blast
  have "?p div 4096 \<noteq> q div 4096"
    if "?p \<noteq> 0" "q \<in> set (fst (request_many request n ?s))" "q \<noteq> 0" for q
  proof -
    have "\<not> taken ?s (q div 4096)"
      using request_many_fresh [OF request_ready [OF Suc.prems] that(2,3)] .
    moreover have "taken ?s (?p div 4096)" using request_taken [OF Suc.prems that(1)] by blast
    ultimately show ?thesis by metis
  qed
  then have "?p div 4096 \<notin> (\<lambda>p. p div 4096) ` set (filter (\<lambda>p. p \<noteq> 0) (fst (request_many request n ?s)))"
    if "?p \<noteq> 0" using that by fastforce
  moreover have "fst (request_many request (Suc n) s) = ?p # fst (request_many request n ?s)"
    by (simp add: split_beta Let_def)
  ultimately show ?case using IH by simp
qed simp

end

lemma alloc_ready_RequestPage: "alloc_ready s \<Longrightarrow> alloc_ready (snd (RequestPage s))"
proof -
  assume r: "alloc_ready s"
  from r show ?thesis
  proof (cases rule: RequestPage_cases)
    case (none k)
    then show ?thesis using r by (auto simp: alloc_ready_def cursor_ok_def)
  next
    case (page k)
    have "cursor_ok (s\<lparr>bitmapIndex := k\<rparr>)" using page by (simp add: cursor_ok_def)
    then have "cursor_ok (AllocatePage (k * 4096) (s\<lparr>bitmapIndex := k\<rparr>))" by (rule cursor_ok_op)
    then show ?thesis using r page by (auto simp: alloc_ready_def frame_simps used_op)
  qed
qed

interpretation frames: frame_source RequestPage PageBitmap_Get alloc_ready
proof
  fix s :: "'a pfa_scheme" and j
  assume r: "alloc_ready s"
  show "alloc_ready (snd (RequestPage s))" using r by (rule alloc_ready_RequestPage)
  show "unat (fst (RequestPage s)) mod 4096 = 0"
    using r by (cases rule: RequestPage_cases) simp_all
  show "\<not> PageBitmap_Get s (fst (RequestPage s) div 4096)" if "fst (RequestPage s) \<noteq> 0"
    using r by (cases rule: RequestPage_cases) (use that in simp_all)
  show "PageBitmap_Get (snd (RequestPage s)) j \<longleftrightarrow> j = fst (RequestPage s) div 4096 \<or> PageBitmap_Get s j"
    if "fst (RequestPage s) \<noteq> 0"
    using r by (cases rule: RequestPage_cases) (use that in \<open>auto simp: used_op tracked_def\<close>)
  show "PageBitmap_Get (snd (RequestPage s)) = PageBitmap_Get s" if "fst (RequestPage s) = 0"
    using r by (cases rule: RequestPage_cases) (use that in \<open>auto simp: fun_eq_iff\<close>)
qed

subsection \<open>A sequence of requests\<close>

text \<open>The free pages in ascending order. A request takes the head of the list, so a sequence of
  requests takes its first pages and fails from the moment the list is empty.\<close>

definition free_pages :: "'a pfa_scheme \<Rightarrow> u64 list" where
  "free_pages s = filter (free_at s) (map of_nat [0..<unat (limit s)])"

lemma set_free_pages: "set (free_pages s) = {k. free_at s k}"
proof -
  have "k \<in> of_nat ` {0..<unat (limit s)}" if "free_at s k" for k
    using that by (intro image_eqI [of _ _ "unat k"]) (simp_all add: free_at_def word_nat)
  then show ?thesis by (auto simp: free_pages_def)
qed

lemma distinct_free_pages: "distinct (free_pages s)"
proof -
  have "inj_on (of_nat :: nat \<Rightarrow> u64) {0..<unat (limit s)}"
  proof (rule inj_on_inverseI [where g = unat])
    show "unat (of_nat k :: u64) = k" if "k \<in> {0..<unat (limit s)}" for k
      using that less_trans [of k, OF _ unat_lt_u64 [of "limit s"]] by (intro unat_of_nat_lt) simp
  qed
  then show ?thesis by (simp add: free_pages_def distinct_map)
qed

lemma length_free_pages: "length (free_pages s) = card {k. free_at s k}"
  by (metis distinct_card distinct_free_pages set_free_pages)

lemma free_pages_split:
  fixes s t :: "'a pfa_scheme"
  assumes "free_at s k" "\<And>j. j < k \<Longrightarrow> \<not> free_at s j"
    and after: "limit t = limit s" "\<And>j. free_at t j \<longleftrightarrow> j \<noteq> k \<and> free_at s j"
  shows "free_pages s = k # free_pages t"
proof -
  let ?L = "unat (limit s)" and ?W = "of_nat :: nat \<Rightarrow> u64"
  have k: "unat k < ?L" using assms(1) by (simp add: free_at_def word_nat)
  have u: "unat (?W n) = n" if "n < ?L" for n
    using less_trans [OF that unat_lt_u64] by (intro unat_of_nat_lt) simp
  have "[0..<?L] = [0..<unat k] @ unat k # [Suc (unat k)..<?L]"
    using k upt_add_eq_append [of 0 "unat k" "?L - unat k"] by (simp add: upt_conv_Cons)
  moreover have "filter (free_at v) (map ?W [0..<unat k]) = []" if "v = s \<or> v = t" for v
  proof -
    have "?W n < k" if "n < unat k" for n using u [of n] that k by (simp add: word_nat)
    then show ?thesis using assms(2) after(2) that by (auto simp: filter_empty_conv)
  qed
  moreover have "filter (free_at t) (map ?W [Suc (unat k)..<?L]) = filter (free_at s) (map ?W [Suc (unat k)..<?L])"
  proof (rule filter_cong [OF refl])
    fix j assume "j \<in> set (map ?W [Suc (unat k)..<?L])"
    then obtain n where n: "j = ?W n" "unat k < n" "n < ?L" by auto
    then have "j \<noteq> k" using u [of n] by auto
    then show "free_at t j = free_at s j" using after(2) by simp
  qed
  ultimately show ?thesis using assms(1) after by (simp add: free_pages_def)
qed

lemma ready_page:
  assumes "alloc_ready s" "free_at s k"
  shows "k * 4096 div 4096 = k \<and> k * 4096 \<noteq> 0"
proof -
  have "unat k < 2 ^ 40" using assms by (simp add: free_at_def alloc_ready_def word_nat)
  moreover have "k \<noteq> 0" using assms by (auto simp: free_at_def alloc_ready_def)
  ultimately show ?thesis using page_index_mult [of k] by auto
qed

lemma RequestPage_free_pages:
  assumes "alloc_ready s"
  shows "case free_pages s of
      [] \<Rightarrow> fst (RequestPage s) = 0 \<and> free_pages (snd (RequestPage s)) = []
    | k # ks \<Rightarrow> fst (RequestPage s) = k * 4096 \<and> free_pages (snd (RequestPage s)) = ks"
  using assms
proof (cases rule: RequestPage_cases)
  case (none k)
  then have "\<not> free_at s i" "\<not> free_at (snd (RequestPage s)) i" for i by (auto simp: free_at_def)
  then have "free_pages s = []" "free_pages (snd (RequestPage s)) = []" by (simp_all add: free_pages_def)
  then show ?thesis using none by simp
next
  case (page k)
  have "free_pages s = k # free_pages (snd (RequestPage s))"
  proof (rule free_pages_split)
    show "free_at s k" using page by (simp add: free_at_def)
    show "\<not> free_at s j" if "j < k" for j using page(4) that by (simp add: free_at_def)
    show lim: "limit (snd (RequestPage s)) = limit s" using page(5) by (simp add: frame_simps)
    show "free_at (snd (RequestPage s)) j \<longleftrightarrow> j \<noteq> k \<and> free_at s j" for j
      using page(1,5,6) lim by (auto simp: free_at_def used_op tracked_def)
  qed
  then show ?thesis using page(5) by simp
qed

lemma request_many_pages:
  assumes "alloc_ready s"
  shows "fst (request_many RequestPage n s)
      = map (\<lambda>k. k * 4096) (take n (free_pages s)) @ replicate (n - length (free_pages s)) 0
    \<and> (\<forall>j. PageBitmap_Get (snd (request_many RequestPage n s)) j
      \<longleftrightarrow> j \<in> set (take n (free_pages s)) \<or> PageBitmap_Get s j)"
  using assms
proof (induction n arbitrary: s)
  case (Suc n)
  let ?t = "snd (RequestPage s)"
  note r = Suc.prems and IH = Suc.IH [OF alloc_ready_RequestPage [OF Suc.prems]]
  have fst: "fst (request_many RequestPage (Suc n) s) = fst (RequestPage s) # fst (request_many RequestPage n ?t)"
    and snd: "snd (request_many RequestPage (Suc n) s) = snd (request_many RequestPage n ?t)"
    by (simp_all add: split_beta Let_def)
  note fp = RequestPage_free_pages [OF r]
  have "fst (request_many RequestPage (Suc n) s)
      = map (\<lambda>k. k * 4096) (take (Suc n) (free_pages s)) @ replicate (Suc n - length (free_pages s)) 0"
    unfolding fst using fp IH by (cases "free_pages s") simp_all
  moreover have "PageBitmap_Get ?t j \<longleftrightarrow> (\<exists>k ks. free_pages s = k # ks \<and> j = k) \<or> PageBitmap_Get s j" for j
  proof (cases "free_pages s")
    case Nil
    then show ?thesis using fp frames.request_failed [OF r] by simp
  next
    case (Cons k ks)
    then have "free_at s k" using set_free_pages [of s] by auto
    then show ?thesis using Cons fp frames.request_taken [OF r, of j] ready_page [OF r] by simp
  qed
  then have "PageBitmap_Get (snd (request_many RequestPage (Suc n) s)) j
      \<longleftrightarrow> j \<in> set (take (Suc n) (free_pages s)) \<or> PageBitmap_Get s j" for j
    unfolding snd using fp IH by (cases "free_pages s") auto
  ultimately show ?case by blast
qed simp_all

subsection \<open>Which memory the bitmap operations write\<close>

text \<open>The bytes of the bitmap, and the one after them that the index check lets through.\<close>

definition bitmap_region :: "'a pfa_scheme \<Rightarrow> u64 set" where
  "bitmap_region s = region (bm_Buffer (PageBitmap s)) (unat (bm_size (PageBitmap s)) + 1)"

definition no_wrap :: "'a pfa_scheme \<Rightarrow> bool" where
  "no_wrap s \<longleftrightarrow> unat (limit s) = 8 * unat (bm_size (PageBitmap s))"

lemma tracked_byte:
  assumes "no_wrap s" "tracked s i"
  shows "bm_Buffer (PageBitmap s) + i div 8 \<in> bitmap_region s"
proof -
  have "unat i \<le> 8 * unat (bm_size (PageBitmap s))"
    using assms by (simp add: no_wrap_def tracked_def word_nat)
  then have "unat i div 8 \<le> unat (bm_size (PageBitmap s))" by simp
  then have "unat (i div 8) \<le> unat (bm_size (PageBitmap s))" using unat_div [of i 8] by simp
  then show ?thesis by (simp add: bitmap_region_def region_def)
qed

lemma mem_PageBitmap_Set:
  "b \<notin> bitmap_region s \<Longrightarrow> no_wrap s \<Longrightarrow> mem (snd (PageBitmap_Set s i v)) b = mem s b"
  using tracked_byte [of s i]
  by (auto simp: PageBitmap_Set_def Bitmap_Set_bit tracked_def limit_def)

lemma mem_op:
  assumes "b \<notin> bitmap_region s" "no_wrap s"
  shows "mem (AllocatePage a s) b = mem s b" "mem (FreePage a s) b = mem s b"
    "mem (ReservePage a s) b = mem s b" "mem (UnreservePage a s) b = mem s b"
  using mem_PageBitmap_Set [OF assms]
  by (auto simp: AllocatePage_def FreePage_def ReservePage_def UnreservePage_def Let_def split_beta)

lemma bitmap_region_cong: "PageBitmap s = PageBitmap t \<Longrightarrow> bitmap_region s = bitmap_region t"
  by (simp add: bitmap_region_def)

lemma no_wrap_cong: "PageBitmap s = PageBitmap t \<Longrightarrow> no_wrap s = no_wrap t"
  by (simp add: no_wrap_def limit_def)

text \<open>The frame every operation of the allocator keeps: bitmap, counters of the map, and the memory
  outside the bitmap.\<close>

definition same_frame :: "'a pfa_scheme \<Rightarrow> 'a pfa_scheme \<Rightarrow> bool" where
  "same_frame s t \<longleftrightarrow> PageBitmap t = PageBitmap s \<and> memoryMapSize t = memoryMapSize s
     \<and> pfa.more t = pfa.more s \<and> (no_wrap s \<longrightarrow> (\<forall>b. b \<notin> bitmap_region s \<longrightarrow> mem t b = mem s b))"

lemma same_frame_refl [simp]: "same_frame s s"
  by (simp add: same_frame_def)

lemma same_frame_trans: "same_frame s t \<Longrightarrow> same_frame t u \<Longrightarrow> same_frame s u"
  by (auto simp: same_frame_def bitmap_region_def no_wrap_def limit_def)

lemma same_frame_op:
  "same_frame s (AllocatePage a s)" "same_frame s (FreePage a s)"
  "same_frame s (ReservePage a s)" "same_frame s (UnreservePage a s)"
  by (auto simp: same_frame_def frame_simps mem_op)
    (auto simp: AllocatePage_def FreePage_def ReservePage_def UnreservePage_def Let_def split_beta frame_simps)

lemma same_frame_range:
  "same_frame s (AllocatePages a n s)" "same_frame s (FreePages a n s)"
  "same_frame s (ReservePages a n s)" "same_frame s (UnreservePages a n s)"
  unfolding AllocatePages_def FreePages_def ReservePages_def UnreservePages_def Let_def
  by (rule for_u64_keeps [where P = "same_frame s"];
      blast intro: same_frame_trans same_frame_op same_frame_refl)+

lemma same_frame_upd:
  "same_frame s t \<Longrightarrow> same_frame s (t\<lparr>freeMemory := x\<rparr>)"
  "same_frame s t \<Longrightarrow> same_frame s (t\<lparr>reservedMemory := x\<rparr>)"
  "same_frame s t \<Longrightarrow> same_frame s (t\<lparr>bitmapIndex := x\<rparr>)"
  by (simp_all add: same_frame_def)

lemma same_frame_RequestPage: "same_frame s (snd (RequestPage s))"
proof (induction s rule: RequestPage.induct)
  case (1 s)
  have "same_frame s (s\<lparr>bitmapIndex := x\<rparr>)" for x by (simp add: same_frame_upd)
  then show ?case
    using 1 same_frame_trans [of s "s\<lparr>bitmapIndex := bitmapIndex s + 1\<rparr>"] same_frame_op
    by (subst RequestPage.simps) (auto simp: Let_def)
qed

subsection \<open>Initialisation\<close>

text \<open>The state with an all-free bitmap, which the loop of \<open>InitializeBitmap\<close> makes.\<close>

definition zeroed_bitmap :: "u64 \<Rightarrow> u64 \<Rightarrow> 'a pfa_scheme \<Rightarrow> 'a pfa_scheme" where
  "zeroed_bitmap n buf s = s\<lparr>PageBitmap := \<lparr>bm_size = n, bm_Buffer = buf\<rparr>,
     mem := \<lambda>b. if b \<in> region buf (unat n) then 0 else mem s b\<rparr>"

lemma InitializeBitmap_zeroes:
  assumes "unat n < 2 ^ 31"
  shows "InitializeBitmap n buf s = Some (zeroed_bitmap n buf s)"
proof -
  let ?s0 = "s\<lparr>PageBitmap := \<lparr>bm_size = n, bm_Buffer = buf\<rparr>\<rparr>"
  have "for_u64 0 n (\<lambda>i s. s\<lparr>mem := (mem s)(bm_Buffer (PageBitmap s) + i := 0)\<rparr>) ?s0
      = ?s0\<lparr>mem := \<lambda>b. if unat (b - buf) < unat n then 0 else mem s b\<rparr>"
  proof (rule for_u64_inv [where P = "\<lambda>k t. t = ?s0\<lparr>mem := \<lambda>b. if unat (b - buf) < unat k then 0 else mem s b\<rparr>"])
    fix k t assume "k < n" and t: "t = ?s0\<lparr>mem := \<lambda>b. if unat (b - buf) < unat k then 0 else mem s b\<rparr>"
    then have S: "unat (k + 1) = Suc (unat k)" by (intro unat_plus_one_less)
    have "b = buf + k \<longleftrightarrow> unat (b - buf) = unat k" for b
      by (auto simp: word_unat_eq_iff [symmetric] algebra_simps)
    then show "t\<lparr>mem := (mem t)(bm_Buffer (PageBitmap t) + k := 0)\<rparr>
        = ?s0\<lparr>mem := \<lambda>b. if unat (b - buf) < unat (k + 1) then 0 else mem s b\<rparr>"
      unfolding t S by (auto simp: fun_eq_iff less_Suc_eq)
  qed simp_all
  then show ?thesis
    using assms by (simp add: InitializeBitmap_def for_int_ok zeroed_bitmap_def region_def)
qed

lemma zeroed_bitmap_sel [simp]:
  "PageBitmap (zeroed_bitmap n buf s) = \<lparr>bm_size = n, bm_Buffer = buf\<rparr>"
  "mem (zeroed_bitmap n buf s) b = (if b \<in> region buf (unat n) then 0 else mem s b)"
  "memoryMapSize (zeroed_bitmap n buf s) = memoryMapSize s"
  "bitmapIndex (zeroed_bitmap n buf s) = bitmapIndex s"
  by (simp_all add: zeroed_bitmap_def)

lemma zeroed_bitmap_unused:
  assumes "no_wrap (zeroed_bitmap n buf s)" "j < limit (zeroed_bitmap n buf s)"
  shows "\<not> PageBitmap_Get (zeroed_bitmap n buf s) j"
proof -
  have "unat j < 8 * unat n"
    using assms by (simp add: no_wrap_def limit_def word_nat)
  then have "unat (j div 8) < unat n" using unat_div [of j 8] by simp
  then have "buf + j div 8 \<in> region buf (unat n)" by (simp add: region_def)
  then show ?thesis
    by (simp add: PageBitmap_Get_def Bitmap_Get_bit)
qed

text \<open>The segment the bitmap is put in: the first among the largest of the free ones.\<close>

definition largest_segment :: "EFI_MEMORY_DESCRIPTOR list \<Rightarrow> u64 \<times> u64" where
  "largest_segment ds =
     fold (\<lambda>d (seg, size). if desc_type d = 7 \<and> size < numPages d * 4096
             then (physAddr d, numPages d * 4096) else (seg, size)) ds (0, 0)"

lemma largestFreeMemSeg_segment:
  assumes "unat entries < 2 ^ 31"
  shows "largestFreeMemSeg m Map entries D = Some (largest_segment (map_entries m Map D entries))"
proof -
  have "(\<lambda>k (seg, size). let desc = descriptor_at m Map D (of_nat k)
            in if desc_type desc = 7 then
                 if size < numPages desc * 4096 then (physAddr desc, numPages desc * 4096) else (seg, size)
               else (seg, size))
      = (\<lambda>d (seg, size). if desc_type d = 7 \<and> size < numPages d * 4096
             then (physAddr d, numPages d * 4096) else (seg, size)) \<circ> (\<lambda>k. descriptor_at m Map D (of_nat k))"
    by (auto simp: fun_eq_iff Let_def)
  then show ?thesis
    using assms
    by (simp add: largestFreeMemSeg_def for_int_ok for_u64_fold largest_segment_def map_entries_def fold_map)
qed

text \<open>It is as large as every free segment, and is one of them unless they are all empty.\<close>

lemma largest_segment_max:
  "d \<in> set ds \<Longrightarrow> desc_type d = 7 \<Longrightarrow> numPages d * 4096 \<le> snd (largest_segment ds)"
  "largest_segment ds = (0, 0) \<or> (\<exists>d \<in> set ds. desc_type d = 7
     \<and> largest_segment ds = (physAddr d, numPages d * 4096))"
proof (induction ds rule: rev_induct)
  case (snoc x ds)
  have step: "largest_segment (ds @ [x]) = (if desc_type x = 7 \<and> snd (largest_segment ds) < numPages x * 4096
      then (physAddr x, numPages x * 4096) else largest_segment ds)"
    by (simp add: largest_segment_def split_beta)
  { case 1
    then show ?case using snoc(1) unfolding step by (auto simp: not_less) }
  { case 2
    then show ?case using snoc(2) unfolding step by auto }
qed (simp_all add: largest_segment_def)

text \<open>One round of the second loop over the memory map: a free segment (type 7) is released.\<close>

lemma account_descriptor_effect:
  fixes s :: "'a pfa_scheme" and Map D i :: u64
  defines "d \<equiv> descriptor_at (mem s) Map D i"
  assumes "desc_type d = 7 \<Longrightarrow> range_ok (physAddr d) (numPages d)"
  shows "PageBitmap_Get (account_descriptor Map D i s) j =
           (if desc_type d = 7 \<and> page_range (physAddr d) (numPages d) j \<and> tracked s j then False
            else PageBitmap_Get s j)"
    and "same_frame s (account_descriptor Map D i s)"
    and "cursor_ok s \<Longrightarrow> cursor_ok (account_descriptor Map D i s)"
    and "allocatedMemory (account_descriptor Map D i s) = allocatedMemory s"
proof -
  have co: "cursor_ok (t\<lparr>freeMemory := x\<rparr>) = cursor_ok t" "cursor_ok (t\<lparr>reservedMemory := x\<rparr>) = cursor_ok t"
    for t :: "'a pfa_scheme" and x by (simp_all add: cursor_ok_def)
  show "PageBitmap_Get (account_descriptor Map D i s) j =
           (if desc_type d = 7 \<and> page_range (physAddr d) (numPages d) j \<and> tracked s j then False
            else PageBitmap_Get s j)"
    using assms by (auto simp: account_descriptor_def Let_def used_range)
  show "same_frame s (account_descriptor Map D i s)"
    by (auto simp: account_descriptor_def Let_def intro!: same_frame_upd same_frame_range)
  show "cursor_ok (account_descriptor Map D i s)" if "cursor_ok s"
    using that by (auto simp: account_descriptor_def Let_def co cursor_ok_range)
  show "allocatedMemory (account_descriptor Map D i s) = allocatedMemory s"
    by (auto simp: account_descriptor_def Let_def frame_simps)
qed

definition free_segment :: "EFI_MEMORY_DESCRIPTOR \<Rightarrow> u64 \<Rightarrow> bool" where
  "free_segment d j \<longleftrightarrow> desc_type d = 7 \<and> page_range (physAddr d) (numPages d) j"

lemma account_loop:
  fixes s :: "'a pfa_scheme" and Map D entries :: u64
  defines "ds \<equiv> map_entries (mem s) Map D entries"
  assumes nw: "no_wrap s" and out: "map_outside Map D entries (bitmap_region s)"
    and ok: "\<And>d. d \<in> set ds \<Longrightarrow> desc_type d = 7 \<Longrightarrow> range_ok (physAddr d) (numPages d)"
    and co: "cursor_ok s"
  defines "t \<equiv> for_u64 0 entries (account_descriptor Map D) s"
  shows "\<forall>j < limit s. PageBitmap_Get t j \<longleftrightarrow> PageBitmap_Get s j \<and> \<not> (\<exists>d \<in> set ds. free_segment d j)"
    and "same_frame s t" and "cursor_ok t"
proof -
  let ?P = "\<lambda>k t. same_frame s t \<and> cursor_ok t \<and> (\<forall>j < limit s. PageBitmap_Get t j \<longleftrightarrow>
      PageBitmap_Get s j \<and> \<not> (\<exists>i < k. free_segment (descriptor_at (mem s) Map D i) j))"
  have "?P entries t"
    unfolding t_def
  proof (rule for_u64_inv [where P = ?P])
    fix k u assume k: "k < entries" and u: "?P k u"
    let ?d = "descriptor_at (mem s) Map D k"
    have d: "descriptor_at (mem u) Map D k = ?d"
      by (rule descriptor_at_cong [OF out k]) (use u nw in \<open>auto simp: same_frame_def\<close>)
    have "?d \<in> set ds" using k unfolding ds_def in_map_entries by blast
    then have okd: "desc_type ?d = 7 \<Longrightarrow> range_ok (physAddr ?d) (numPages ?d)" by (rule ok)
    have lim: "limit u = limit s" using u by (simp add: same_frame_def limit_def)
    have lt: "i < k + 1 \<longleftrightarrow> i < k \<or> i = k" for i
      using unat_plus_one_less [OF k] by (auto simp: word_nat less_Suc_eq)
    note e = account_descriptor_effect [of u Map D k, unfolded d, OF okd]
    show "?P (k + 1) (account_descriptor Map D k u)"
      using u e(1) same_frame_trans [OF _ e(2)] e(3) lim
      by (auto simp: free_segment_def lt tracked_def)
  qed (use co in auto)
  then show "\<forall>j < limit s. PageBitmap_Get t j \<longleftrightarrow> PageBitmap_Get s j \<and> \<not> (\<exists>d \<in> set ds. free_segment d j)"
    "same_frame s t" "cursor_ok t"
    unfolding ds_def bex_map_entries by blast+
qed

text \<open>The bitmap after the firmware's map has been read: a page below the limit is in use unless it
  belongs to a free segment or lies between the end of memory and the end of the bitmap, and the
  first megabyte and the bitmap's own pages are in use in any case.\<close>

definition boot_used :: "EFI_MEMORY_DESCRIPTOR list \<Rightarrow> u64 \<Rightarrow> u64 \<Rightarrow> bool" where
  "boot_used ds seg j \<longleftrightarrow>
     (j \<le> map_bytes ds div 4096 \<and> \<not> (\<exists>d \<in> set ds. free_segment d j))
     \<or> j < 0x100
     \<or> page_range seg ((map_bytes ds div 4096 div 8 + 1) div 4096 + 1) j"

lemma bitmap_size_bounds:
  fixes total :: u64
  defines "n \<equiv> total div 4096 div 8 + 1"
  shows "unat (total div 4096) < 2 ^ 52" "unat n = unat total div 32768 + 1" "unat (n * 8) = 8 * unat n"
    "total div 4096 < n * 8" "unat (total div 4096 + 1) = unat total div 4096 + 1"
proof -
  have t: "unat total < 2 ^ 64" by simp
  have d: "unat (total div 4096) = unat total div 4096" using unat_div [of total 4096] by simp
  show "unat (total div 4096) < 2 ^ 52" by (rule unat_page_index)
  have "unat (total div 4096 div 8) = unat total div 32768"
    using unat_div [of "total div 4096" 8] d by (simp add: div_mult2_eq [symmetric])
  then show n: "unat n = unat total div 32768 + 1"
  proof -
    have "unat total div 32768 < 2 ^ 49" using t by (intro less_mult_imp_div_less) simp
    then show ?thesis
      unfolding n_def using \<open>unat (total div 4096 div 8) = unat total div 32768\<close>
      by (subst unat_add_no_wrap) simp_all
  qed
  have "unat total div 32768 < 2 ^ 49" using t by (intro less_mult_imp_div_less) simp
  then have "unat n < 2 ^ 50" using n by simp
  then show n8: "unat (n * 8) = 8 * unat n" using unat_mult_lem [of n 8] by simp
  show "total div 4096 < n * 8" using d n n8 by (simp add: word_less_nat_alt)
  show "unat (total div 4096 + 1) = unat total div 4096 + 1"
    using d \<open>unat (total div 4096) < 2 ^ 52\<close> by (subst unat_add_no_wrap) simp_all
qed

text \<open>The preconditions under which the map is read: nothing was initialised before, the descriptor
  size is not zero, the entries of the map and the bytes of the bitmap can be counted with an \<open>int\<close>
  (so less than 64 TB of memory), the chosen segment holds the bitmap without touching the map itself, and no
  free segment reaches beyond the 52 bits of a page number.\<close>

definition boot_map_ok :: "u64 \<Rightarrow> u64 \<Rightarrow> u64 \<Rightarrow> 'a pfa_scheme \<Rightarrow> bool" where
  "boot_map_ok Map MapSize D s \<longleftrightarrow>
     \<not> isInitialized s \<and> memoryMapSize s = 0 \<and> bitmapIndex s = 0 \<and> D \<noteq> 0 \<and>
     (let entries = MapSize div D; ds = map_entries (mem s) Map D entries;
          seg = fst (largest_segment ds);
          size = map_bytes ds div 4096 div 8 + 1
      in unat entries < 2 ^ 31 \<and> unat size < 2 ^ 31
         \<and> map_outside Map D entries (region seg (unat size + 1))
         \<and> range_ok seg (size div 4096 + 1)
         \<and> (\<forall>d \<in> set ds. desc_type d = 7 \<longrightarrow> range_ok (physAddr d) (numPages d)))"

text \<open>The three stages after the size is known: every page up to the end of memory reserved, free
  segments released, the first megabyte and the bitmap's own pages taken.\<close>

lemma boot_reserved:
  fixes s :: "'a pfa_scheme" and total seg :: u64
  defines "bsize \<equiv> total div 4096 div 8 + 1"
  defines "t \<equiv> ReservePages 0 (total div 4096 + 1) (zeroed_bitmap bsize seg s)"
  assumes "bitmapIndex s = 0"
  shows "PageBitmap t = \<lparr>bm_size = bsize, bm_Buffer = seg\<rparr>" and "no_wrap t" and "memoryMapSize t = memoryMapSize s"
    and "\<forall>b. b \<notin> bitmap_region t \<longrightarrow> mem t b = mem s b"
    and "\<forall>j < limit t. PageBitmap_Get t j \<longleftrightarrow> j \<le> total div 4096" and "cursor_ok t"
proof -
  let ?u = "zeroed_bitmap bsize seg s"
  note sz = bitmap_size_bounds [of total]
  show bm: "PageBitmap t = \<lparr>bm_size = bsize, bm_Buffer = seg\<rparr>"
    by (simp add: t_def frame_simps )
  then have bmu: "PageBitmap ?u = PageBitmap t" by simp
  show nw: "no_wrap t" using bm sz by (simp add: no_wrap_def limit_def bsize_def)
  then have nwu: "no_wrap ?u" using no_wrap_cong [OF bmu] by simp
  have sf: "same_frame ?u t" unfolding t_def by (rule same_frame_range)
  have "memoryMapSize ?u = memoryMapSize s" by simp
  then show "memoryMapSize t = memoryMapSize s" using sf by (simp add: same_frame_def)
  have "mem t b = mem s b" if b: "b \<notin> bitmap_region t" for b
  proof -
    have "b \<notin> region seg (unat bsize)" using b unfolding bitmap_region_def bm by (simp add: region_def)
    then show ?thesis
      using sf b nwu bitmap_region_cong [OF bmu] by (simp add: same_frame_def)
  qed
  then show "\<forall>b. b \<notin> bitmap_region t \<longrightarrow> mem t b = mem s b" by blast
  have r: "range_ok 0 (total div 4096 + 1)"
    using sz(1,5) unat_div [of total 4096] by (simp add: range_ok_def)
  have limu: "limit ?u = limit t" using bmu by (simp add: limit_def)
  have "PageBitmap_Get t j \<longleftrightarrow> j \<le> total div 4096" if "j < limit t" for j
    using that zeroed_bitmap_unused [OF nwu, of j] sz(5) unat_div [of total 4096] limu
    by (auto simp: t_def used_range [OF r] page_range_def tracked_def word_nat)
  then show "\<forall>j < limit t. PageBitmap_Get t j \<longleftrightarrow> j \<le> total div 4096" by blast
  have "cursor_ok ?u" using assms(3) by (simp add: cursor_ok_def)
  then show "cursor_ok t" unfolding t_def by (rule cursor_ok_range)
qed

lemma boot_taken:
  fixes s :: "'a pfa_scheme"
  defines "u \<equiv> (ReservePages 0 0x100 s)\<lparr>reservedMemory := reservedMemory (ReservePages 0 0x100 s) + 0x100 * 0x1000\<rparr>"
  defines "t \<equiv> AllocatePages (bm_Buffer (PageBitmap u)) (bm_size (PageBitmap u) div 4096 + 1) u"
  assumes "range_ok (bm_Buffer (PageBitmap s)) (bm_size (PageBitmap s) div 4096 + 1)"
  shows "same_frame s t" and "cursor_ok s \<Longrightarrow> cursor_ok t"
    and "\<forall>j < limit s. PageBitmap_Get t j \<longleftrightarrow> PageBitmap_Get s j \<or> j < 0x100
           \<or> page_range (bm_Buffer (PageBitmap s)) (bm_size (PageBitmap s) div 4096 + 1) j"
proof -
  have bm: "PageBitmap u = PageBitmap s" by (simp add: u_def frame_simps)
  show "same_frame s t"
    unfolding t_def by (rule same_frame_trans [OF _ same_frame_range(1)])
      (simp add: u_def same_frame_upd same_frame_range)
  have "cursor_ok u = cursor_ok (ReservePages 0 0x100 s)" by (simp add: u_def cursor_ok_def)
  then show "cursor_ok t" if "cursor_ok s"
    unfolding t_def using cursor_ok_range that by blast
  have r: "range_ok 0 0x100" by (simp add: range_ok_def)
  have "PageBitmap_Get u j \<longleftrightarrow> PageBitmap_Get s j \<or> j < 0x100" if "j < limit s" for j
    using that by (auto simp: u_def used_range [OF r] page_range_def tracked_def)
  moreover have "tracked u = tracked s" by (simp add: tracked_def limit_def bm fun_eq_iff)
  ultimately show "\<forall>j < limit s. PageBitmap_Get t j \<longleftrightarrow> PageBitmap_Get s j \<or> j < 0x100
      \<or> page_range (bm_Buffer (PageBitmap s)) (bm_size (PageBitmap s) div 4096 + 1) j"
    using assms(3) by (auto simp: t_def bm used_range tracked_def)
qed

lemma map_entries_cong:
  assumes "map_outside Map D entries R" "\<And>b. b \<notin> R \<Longrightarrow> m b = m' b"
  shows "map_entries m Map D entries = map_entries m' Map D entries"
  unfolding map_entries_def
proof (rule map_cong)
  fix k assume "k \<in> set [0..<unat entries]"
  then have k: "k < unat entries" by simp
  then have "unat (of_nat k :: u64) = k" using less_trans [OF k unat_lt_u64] by (simp add: unat_of_nat_lt)
  then have "of_nat k < entries" using k by (simp add: word_nat)
  then show "descriptor_at m Map D (of_nat k) = descriptor_at m' Map D (of_nat k)"
    using assms(2) by (rule descriptor_at_cong [OF assms(1)])
qed simp

lemma ReadEfiMemoryMap_bitmap:
  fixes s :: "'a pfa_scheme" and Map MapSize D :: u64
  defines "entries \<equiv> MapSize div D"
  defines "ds \<equiv> map_entries (mem s) Map D entries"
  defines "seg \<equiv> fst (largest_segment ds)"
  assumes ok: "boot_map_ok Map MapSize D s"
  shows "\<exists>t. ReadEfiMemoryMap Map MapSize D s = Some t
    \<and> PageBitmap t = \<lparr>bm_size = map_bytes ds div 4096 div 8 + 1, bm_Buffer = seg\<rparr>
    \<and> memoryMapSize t = map_bytes ds
    \<and> no_wrap t \<and> cursor_ok t \<and> (\<forall>j < limit t. PageBitmap_Get t j \<longleftrightarrow> boot_used ds seg j)
    \<and> (\<forall>b. b \<notin> bitmap_region t \<longrightarrow> mem t b = mem s b)"
proof -
  let ?size = "map_bytes ds div 4096 div 8 + 1"
  let ?s = "s\<lparr>isInitialized := True\<rparr>\<lparr>memoryMapSize := map_bytes ds\<rparr>"
  have o: "\<not> isInitialized s" "memoryMapSize s = 0" "bitmapIndex ?s = 0" "D \<noteq> 0"
    and small: "unat entries < 2 ^ 31" "unat ?size < 2 ^ 31"
    and out: "map_outside Map D entries (region seg (unat ?size + 1))"
    and segok: "range_ok seg (?size div 4096 + 1)"
    and rok: "\<And>d. d \<in> set ds \<Longrightarrow> desc_type d = 7 \<Longrightarrow> range_ok (physAddr d) (numPages d)"
    using ok by (simp_all add: boot_map_ok_def Let_def entries_def ds_def seg_def)
  define u where "u = ReservePages 0 (map_bytes ds div 4096 + 1) (zeroed_bitmap ?size seg ?s)"
  define v where "v = for_u64 0 entries (account_descriptor Map D) u"
  note U = boot_reserved [of ?s "map_bytes ds" seg, OF o(3), folded u_def]
  have reg: "bitmap_region u = region seg (unat ?size + 1)" by (simp add: bitmap_region_def U(1))
  have dsu: "map_entries (mem u) Map D entries = ds"
    unfolding ds_def using U(4) reg by (intro map_entries_cong [OF out]) simp
  note V = account_loop [of u Map D entries, unfolded dsu reg, OF U(2) out rok U(6), folded v_def]
  have bmv: "PageBitmap v = \<lparr>bm_size = ?size, bm_Buffer = seg\<rparr>" using V(2) U(1) by (simp add: same_frame_def)
  note T = boot_taken [of v, unfolded bmv, simplified, OF segok]
  show ?thesis
  proof (intro exI conjI)
    show "ReadEfiMemoryMap Map MapSize D s = Some (let s = ReservePages 0 0x100 v;
        s = s\<lparr>reservedMemory := reservedMemory s + 0x100 * 0x1000\<rparr>
      in AllocatePages (bm_Buffer (PageBitmap s)) (bm_size (PageBitmap s) div 4096 + 1) s)"
      using o small unfolding ReadEfiMemoryMap_def entries_def
      by (simp add: GetMemorySize_first largestFreeMemSeg_segment InitializeBitmap_zeroes for_int_ok split_beta
          Let_def v_def u_def entries_def ds_def seg_def)
  qed (use T U V bmv in \<open>auto simp: Let_def same_frame_def boot_used_def limit_def no_wrap_def bitmap_region_def\<close>)
qed

subsection \<open>A small allocator\<close>

text \<open>A bitmap of two bytes at 0x100 with only page zero in use.\<close>

definition small_pfa :: pfa where
  "small_pfa = \<lparr>mem = (\<lambda>a. if a = 0x100 then 0x80 else 0), memoryMapSize = 0x10000,
     PageBitmap = \<lparr>bm_size = 2, bm_Buffer = 0x100\<rparr>, allocatedMemory = 0x1000, reservedMemory = 0,
     freeMemory = 0xf000, isInitialized = True, bitmapIndex = 0\<rparr>"

lemma small_pfa_ready: "alloc_ready small_pfa"
  by (simp add: alloc_ready_def cursor_ok_def limit_def PageBitmap_Get_def Bitmap_Get_bit small_pfa_def)

lemma small_pfa_bits: "\<not> PageBitmap_Get small_pfa 1" "limit small_pfa = 16"
  by (simp_all add: limit_def PageBitmap_Get_def Bitmap_Get_bit small_pfa_def)

subsection \<open>Properties\<close>

text \<open>C4: \<open>n\<close> successive page requests return the addresses of the first \<open>n\<close> free pages below the limit
  in ascending order, and address zero from the moment no page is free: so the pages returned are distinct,
  were free and inside the bitmap, and a request fails only when every page is in use. Exactly these
  pages are in use afterwards besides those that were.\<close>

theorem requests_distinct:
  fixes n :: nat and s :: "'a pfa_scheme"
  assumes "alloc_ready s"
  defines "ps \<equiv> fst (request_many RequestPage n s)" and "t \<equiv> snd (request_many RequestPage n s)"
  shows "ps = map (\<lambda>k. k * 4096) (take n (free_pages s)) @ replicate (n - length (free_pages s)) 0
    \<and> set (free_pages s) = {k. k < limit s \<and> \<not> PageBitmap_Get s k}
    \<and> distinct (map (\<lambda>p. p div 4096) (filter (\<lambda>p. p \<noteq> 0) ps))
    \<and> (\<forall>p. p \<in> set ps \<longrightarrow> p \<noteq> 0 \<longrightarrow> p div 4096 < limit s \<and> \<not> PageBitmap_Get s (p div 4096))
    \<and> (0 \<in> set ps \<longleftrightarrow> card {k. k < limit s \<and> \<not> PageBitmap_Get s k} < n)
    \<and> (\<forall>j. PageBitmap_Get t j \<longleftrightarrow> j \<in> set (take n (free_pages s)) \<or> PageBitmap_Get s j)"
proof -
  have k: "k * 4096 div 4096 = k \<and> k * 4096 \<noteq> 0" if "k \<in> set (take n (free_pages s))" for k
    using in_set_takeD [OF that] assms(1) unfolding set_free_pages mem_Collect_eq by (intro ready_page)
  have ps: "ps = map (\<lambda>k. k * 4096) (take n (free_pages s)) @ replicate (n - length (free_pages s)) 0"
    unfolding ps_def using request_many_pages [OF assms(1)] by blast
  have fresh: "p \<noteq> 0 \<longrightarrow> p div 4096 < limit s \<and> \<not> PageBitmap_Get s (p div 4096)" if "p \<in> set ps" for p
    using that k in_set_takeD [of _ n "free_pages s"] set_free_pages [of s]
    unfolding ps by (auto simp: free_at_def)
  have "0 \<notin> set (map (\<lambda>k. k * 4096) (take n (free_pages s)))" using k by (auto simp: image_iff)
  then have "0 \<in> set ps \<longleftrightarrow> length (free_pages s) < n" unfolding ps by (simp add: not_le)
  moreover have "{k. free_at s k} = {k. k < limit s \<and> \<not> PageBitmap_Get s k}" by (auto simp: free_at_def)
  ultimately have "0 \<in> set ps \<longleftrightarrow> card {k. k < limit s \<and> \<not> PageBitmap_Get s k} < n"
    unfolding length_free_pages by metis
  then show ?thesis
    using fresh request_many_pages [OF assms(1), of n] frames.request_many_distinct [OF assms(1), of n] set_free_pages [of s]
    unfolding ps_def t_def by (simp add: free_at_def)
qed

theorem requests_distinct_witness:
  "0 \<in> set (fst (request_many RequestPage 20 small_pfa))
    \<and> distinct (map (\<lambda>p. p div 4096) (filter (\<lambda>p. p \<noteq> 0) (fst (request_many RequestPage 20 small_pfa))))"
proof -
  have "card {k. k < limit small_pfa \<and> \<not> PageBitmap_Get small_pfa k} \<le> card {k :: u64. k < 16}"
    by (rule card_mono) (auto simp: small_pfa_bits)
  also have "\<dots> \<le> card (unat ` {k :: u64. k < 16})" by (subst card_image) (auto simp: inj_on_def word_unat_eq_iff)
  also have "\<dots> \<le> card {..< 16 :: nat}" by (rule card_mono) (auto simp: word_nat)
  finally have "card {k. k < limit small_pfa \<and> \<not> PageBitmap_Get small_pfa k} < 20" by simp
  then show ?thesis using requests_distinct [OF small_pfa_ready, of 20] by blast
qed

text \<open>A request takes the first free page: it returns its address, marks exactly that page, leaves
  the cursor on it and moves 4096 bytes from the free to the allocated counter.\<close>

theorem RequestPage_takes_first:
  assumes "alloc_ready s" "free_at s k" "\<forall>j < k. PageBitmap_Get s j"
  shows "fst (RequestPage s) = k * 4096
    \<and> (\<forall>j. PageBitmap_Get (snd (RequestPage s)) j \<longleftrightarrow> j = k \<or> PageBitmap_Get s j)
    \<and> bitmapIndex (snd (RequestPage s)) = k
    \<and> allocatedMemory (snd (RequestPage s)) = allocatedMemory s + 4096
    \<and> freeMemory (snd (RequestPage s)) = freeMemory s - 4096"
proof -
  have c: "cursor_ok s" and lim: "unat (limit s) \<le> 2 ^ 40" using assms(1) by (simp_all add: alloc_ready_def)
  have kl: "k < limit s" "\<not> PageBitmap_Get s k" using assms(2) by (simp_all add: free_at_def)
  then have "unat k < 2 ^ 52" using lim by (simp add: word_nat)
  then have d: "k * 4096 div 4096 = k" by (rule page_index_mult)
  have "RequestPage s = (k * 4096, AllocatePage (k * 4096) (s\<lparr>bitmapIndex := k\<rparr>))"
    using RequestPage_least [OF c assms(2)] assms(3) by blast
  then show ?thesis using kl by (auto simp: used_op d AllocatePage_counters tracked_def)
qed

theorem RequestPage_takes_first_witness: "fst (RequestPage small_pfa) = 0x1000"
proof -
  have "free_at small_pfa 1" using small_pfa_bits by (simp add: free_at_def)
  moreover have "\<forall>j < 1. PageBitmap_Get small_pfa j" using small_pfa_ready by (simp add: alloc_ready_def)
  ultimately show ?thesis using RequestPage_takes_first [OF small_pfa_ready] by simp
qed

text \<open>C8: Every operation on pages and page ranges, and the page request that moves the cursor forward,
  keeps the invariant of the search: no free page lies below the cursor.\<close>

theorem cursor_invariant:
  assumes "cursor_ok s"
  shows "cursor_ok (AllocatePage a s) \<and> cursor_ok (FreePage a s) \<and> cursor_ok (ReservePage a s)
    \<and> cursor_ok (UnreservePage a s) \<and> cursor_ok (AllocatePages a n s) \<and> cursor_ok (FreePages a n s)
    \<and> cursor_ok (ReservePages a n s) \<and> cursor_ok (UnreservePages a n s)
    \<and> cursor_ok (snd (RequestPage s))"
  using cursor_ok_op [OF assms] cursor_ok_range [OF assms] cursor_ok_RequestPage [OF assms] by blast

theorem cursor_invariant_witness: "cursor_ok (FreePage 0x3000 small_pfa)"
  using cursor_invariant [of small_pfa] small_pfa_ready by (simp add: alloc_ready_def)

text \<open>C7: The counters are consistent: allocating or freeing pages never changes the sum of allocated
  and free memory, and a range allocation adds to the allocated counter 4096 bytes for exactly the
  pages of the range that were free before, so pages allocated twice are counted once.\<close>

theorem counters_conserve:
  assumes "range_ok addr count"
  shows "accounted (AllocatePages addr count s) = accounted s \<and> accounted (FreePages addr count s) = accounted s
    \<and> allocatedMemory (AllocatePages addr count s)
       = allocatedMemory s + 4096 * of_nat (card (newly_used s (addr div 4096) (addr div 4096 + count)))"
  using accounted_range AllocatePages_allocated [OF assms] by blast

theorem counters_conserve_witness: "accounted (FreePages 0x1000 3 small_pfa) = 0x10000"
  using counters_conserve [of "0x1000" 3 small_pfa] by (simp add: range_ok_def accounted_def small_pfa_def)

text \<open>Range operations set or clear exactly the tracked pages of the range.\<close>

theorem ranges_mark:
  assumes "range_ok addr count"
  shows "PageBitmap_Get (AllocatePages addr count s) j = (page_range addr count j \<and> tracked s j \<or> PageBitmap_Get s j)
    \<and> PageBitmap_Get (FreePages addr count s) j = (PageBitmap_Get s j \<and> \<not> (page_range addr count j \<and> tracked s j))
    \<and> PageBitmap_Get (ReservePages addr count s) j = (page_range addr count j \<and> tracked s j \<or> PageBitmap_Get s j)
    \<and> PageBitmap_Get (UnreservePages addr count s) j = (PageBitmap_Get s j \<and> \<not> (page_range addr count j \<and> tracked s j))"
  by (auto simp: used_range [OF assms])

theorem ranges_mark_witness: "PageBitmap_Get (ReservePages 0x2000 3 small_pfa) 4"
proof -
  have "page_range 0x2000 3 4 \<and> tracked small_pfa 4" by (simp add: page_range_def tracked_def small_pfa_bits)
  then show ?thesis using ranges_mark [of "0x2000" 3 small_pfa 4] by (simp add: range_ok_def)
qed


text \<open>A map of one free descriptor of 16 pages, at 0x10000.\<close>

definition small_map :: pfa where
  "small_map = \<lparr>mem = (\<lambda>a. if a = 0x10000 then 7 else if a = 0x10018 then 16 else 0), memoryMapSize = 0,
     PageBitmap = \<lparr>bm_size = 0, bm_Buffer = 0\<rparr>, allocatedMemory = 0, reservedMemory = 0,
     freeMemory = 0, isInitialized = False, bitmapIndex = 0\<rparr>"

lemma small_map_descriptor: "descriptor_at (mem small_map) 0x10000 40 0 =
   \<lparr>desc_type = 7, physAddr = 0, virtAddr = 0, numPages = 16, attribs = 0\<rparr>"
  by (simp add: small_map_def descriptor_at_def read_descriptor_def load_eval)

lemma small_map_ok: "boot_map_ok 0x10000 40 40 small_map"
proof -
  have e: "40 div 40 = (1 :: u64)" by simp
  have ds: "map_entries (mem small_map) 0x10000 40 1 =
      [\<lparr>desc_type = 7, physAddr = 0, virtAddr = 0, numPages = 16, attribs = 0\<rparr>]"
    using small_map_descriptor by (simp add: map_entries_def)
  have seg: "fst (largest_segment [\<lparr>desc_type = 7, physAddr = 0, virtAddr = 0, numPages = 16, attribs = 0\<rparr>]) = 0"
    by (simp add: largest_segment_def)
  have "map_outside 0x10000 40 1 (region 0 4)"
    unfolding map_outside_def
  proof (intro allI impI)
    fix i :: u64 assume "i < 1"
    then have "i = 0" by simp
    moreover have "x \<notin> region 0 4" if "x \<in> region 0x10000 40" for x :: u64
    proof -
      define d where "d = unat (x - 0x10000)"
      have d: "d < 40" using that by (simp add: region_def d_def)
      have "x = 0x10000 + of_nat d" by (simp add: d_def)
      then have "unat x = 0x10000 + d" using unat_add_of_nat [of "0x10000 :: u64" d] d by simp
      then show ?thesis by (simp add: region_def)
    qed
    ultimately show "region (0x10000 + i * 40) 40 \<inter> region 0 4 = {}" by auto
  qed
  then show ?thesis
    unfolding boot_map_ok_def Let_def e ds seg
    by (simp add: small_map_def map_bytes_def range_ok_def)
qed


end
