(* ===== verification/MemSet.thy ===== *)
theory MemSet
  imports PhysMem "HOL-Library.Monad_Syntax"
begin

text \<open>
  \<open>memset\<close> of \<open>kernel/src/mem/mem.cpp\<close>: the small, the medium and the huge variant with their
  overlapping word and vector stores. The 32-byte stores of the aligned vector type \<open>char32a\<close> fault
  on an address that is not a multiple of 32, and the two loops compare pointers that can wrap
  around, so the routine is a computation in \<open>option\<close>: \<open>None\<close> is a fault or a run that does not
  return. The main lemma says that on a buffer away from the end of the address space every variant
  returns and has exactly the effect of the byte loop \<open>stamp\<close>.
\<close>

text \<open>A store of \<open>k\<close> equal bytes: the vector types \<open>char16\<close> and \<open>char32\<close>, and the reference
  meaning of the whole routine.\<close>

definition stamp :: "nat \<Rightarrow> memory \<Rightarrow> u64 \<Rightarrow> u8 \<Rightarrow> memory" where
  "stamp k m p X = (\<lambda>b. if unat (b - p) < k then X else m b)"

definition stamp32a :: "memory \<Rightarrow> u64 \<Rightarrow> u8 \<Rightarrow> memory option" where
  "stamp32a m p X = (if p mod 32 = 0 then Some (stamp 32 m p X) else None)"

definition small_memset :: "memory \<Rightarrow> u64 \<Rightarrow> u8 \<Rightarrow> u64 \<Rightarrow> memory" where
  "small_memset m s c n =
     (if n < 5 then
        if n = 0 then m
        else let m = m(s := c); m = m(s + (n - 1) := c)
             in if n \<le> 2 then m else m(s + 1 := c, s + 2 := c)
      else if n \<le> 16 then
        let val8 = 0x0101010101010101 * ucast c :: u64
        in if n \<ge> 8 then write64 (write64 m s val8) (s + n - 8) val8
           else let val4 = ucast val8 :: u32
                in write32 (write32 m s val4) (s + n - 4) val4
      else stamp 16 (stamp 16 m (s + n - 16) c) s c)"

partial_function (option) huge_loop :: "u8 \<Rightarrow> u64 \<Rightarrow> memory \<Rightarrow> u64 \<Rightarrow> (memory \<times> u64) option" where
  "huge_loop X buffer_end m p =
     (if p + 32 * 5 < buffer_end then do {
        m \<leftarrow> stamp32a m p X;
        m \<leftarrow> stamp32a m (p + 32) X;
        m \<leftarrow> stamp32a m (p + 32 + 32) X;
        m \<leftarrow> stamp32a m (p + 32 + 32 + 32) X;
        m \<leftarrow> stamp32a m (p + 32 + 32 + 32 + 32) X;
        huge_loop X buffer_end m (p + 32 + 32 + 32 + 32 + 32)
      } else Some (m, p))"

definition try_stamp32 :: "u8 \<Rightarrow> u64 \<Rightarrow> memory \<times> u64 \<Rightarrow> (memory \<times> u64) option" where
  "try_stamp32 X last_word = (\<lambda>(m, p).
     if p < last_word then do { m \<leftarrow> stamp32a m p X; Some (m, p + 32) } else Some (m, p))"

definition huge_memset :: "memory \<Rightarrow> u64 \<Rightarrow> u8 \<Rightarrow> u64 \<Rightarrow> memory option" where
  "huge_memset m s c n = do {
     let m = stamp 32 m s c;
     let first_aligned = s + 32 - s mod 32;
     let buffer_end = s + n;
     let last_word = buffer_end - 32;
     st \<leftarrow> huge_loop c buffer_end m first_aligned;
     st \<leftarrow> try_stamp32 c last_word st;
     st \<leftarrow> try_stamp32 c last_word st;
     st \<leftarrow> try_stamp32 c last_word st;
     (m, p) \<leftarrow> try_stamp32 c last_word st;
     Some (stamp 32 m last_word c)
   }"

partial_function (option) medium_loop :: "u8 \<Rightarrow> u64 \<Rightarrow> memory \<Rightarrow> u64 \<Rightarrow> memory option" where
  "medium_loop X last_word m p =
     (let m = stamp 32 m p X; p = p + 32
      in if p < last_word then medium_loop X last_word m p else Some m)"

definition memset :: "memory \<Rightarrow> u64 \<Rightarrow> u8 \<Rightarrow> u64 \<Rightarrow> memory option" where
  "memset m s c n =
     (if n < 32 then Some (small_memset m s c n)
      else if n > 160 then huge_memset m s c n
      else do {
        let last_word = s + n - 32;
        m \<leftarrow> medium_loop c last_word m s;
        Some (stamp 32 m last_word c)
      })"

subsection \<open>Stores in terms of offsets into the buffer\<close>

lemma unat_off: "j < 2 ^ 64 \<Longrightarrow> unat (b - (s + of_nat j) :: u64) =
    (if j \<le> unat (b - s) then unat (b - s) - j else unat (b - s) + 2 ^ 64 - j)"
proof -
  assume j: "j < 2 ^ 64"
  then have u: "unat (of_nat j :: u64) = j" by (simp add: unat_of_nat_lt)
  have e: "b - (s + of_nat j) = (b - s) - of_nat j" by (simp only: diff_diff_eq)
  show ?thesis
    unfolding e using unat_sub_if_size [of "b - s" "of_nat j"] u
    by (simp only: word_size word_le_nat_alt) simp
qed

lemma stamp_within:
  assumes "i + j < 2 ^ 64" "j \<le> k" "k < 2 ^ 64"
  shows "stamp i (stamp k m s X) (s + of_nat j) X = stamp (max k (j + i)) m s X"
proof
  fix b
  have "unat (b - (s + of_nat j)) < i \<longleftrightarrow> j \<le> unat (b - s) \<and> unat (b - s) < j + i"
    using assms unat_lt_u64 [of "b - s"] by (auto simp: unat_off)
  then show "stamp i (stamp k m s X) (s + of_nat j) X b = stamp (max k (j + i)) m s X b"
    using assms by (auto simp: stamp_def)
qed

lemma stamp_last_first:
  assumes "j \<le> i" "i < 2 ^ 63"
  shows "stamp i (stamp i m (s + of_nat j) X) s X = stamp (j + i) m s X"
proof
  fix b
  have "unat (b - (s + of_nat j)) < i \<longleftrightarrow> j \<le> unat (b - s) \<and> unat (b - s) < j + i"
    using assms unat_lt_u64 [of "b - s"] by (auto simp: unat_off)
  then show "stamp i (stamp i m (s + of_nat j) X) s X b = stamp (j + i) m s X b"
    using assms by (auto simp: stamp_def)
qed

lemma stamp_zero [simp]: "stamp 0 m s X = m"
  by (simp add: stamp_def)

lemma stamp_first: "stamp i m s X = stamp i (stamp 0 m s X) (s + of_nat 0) X"
  by simp

lemma stamp_one: "stamp 1 m s X = m(s := X)"
proof
  fix b
  have "unat (b - s) < 1 \<longleftrightarrow> b = s" by (auto simp: unat_0_iff)
  then show "stamp 1 m s X b = (m(s := X)) b" by (simp add: stamp_def)
qed

lemma stamp_apply [mem_simps]: "stamp k m s X b = (if b \<in> region s k then X else m b)"
  by (simp add: stamp_def region_def)

lemma le_word_off [word_nat]:
  "unat s + j < 2 ^ 64 \<Longrightarrow> unat s + k < 2 ^ 64 \<Longrightarrow> s + of_nat j < s + of_nat k \<longleftrightarrow> j < (k :: nat)"
  for s :: u64
proof -
  assume a: "unat s + j < 2 ^ 64" "unat s + k < 2 ^ 64"
  have "unat (s + of_nat j) = unat s + j" using a by (simp add: unat_add_of_nat)
  moreover have "unat (s + of_nat k) = unat s + k" using a by (simp add: unat_add_of_nat)
  ultimately show ?thesis by (simp add: word_less_nat_alt)
qed

subsection \<open>The aligned stores\<close>

lemma first_aligned_off:
  fixes s :: u64
  obtains a where "0 < a" "a \<le> 32" "s + 32 - s mod 32 = s + of_nat a"
    "\<And>i. unat s + a + 32 * i < 2 ^ 64 \<Longrightarrow> (s + of_nat (a + 32 * i)) mod 32 = 0"
proof
  let ?r = "unat s mod 32" and ?a = "32 - unat s mod 32"
  show "0 < ?a" "?a \<le> 32" by simp_all
  have "s mod 32 = of_nat ?r" by (simp add: word_unat_eq_iff unat_mod unat_of_nat_lt)
  then have "s + 32 - s mod 32 = s + (of_nat 32 - of_nat ?r)" by simp
  also have "of_nat 32 - of_nat ?r = (of_nat ?a :: u64)" by (subst of_nat_diff) simp_all
  finally show "s + 32 - s mod 32 = s + of_nat ?a" .
  fix i assume lt: "unat s + ?a + 32 * i < 2 ^ 64"
  then have "unat (s + of_nat (?a + 32 * i)) = unat s + (?a + 32 * i)"
    by (intro unat_add_of_nat) (simp only: len_num1 len_bit0 add.assoc mult_1_right numeral_times_numeral semiring_norm)
  moreover have "(unat s + (?a + 32 * i)) mod 32 = 0"
  proof -
    have "unat s + (?a + 32 * i) = 32 * (unat s div 32) + 32 + 32 * i"
      by presburger
    then show ?thesis by simp
  qed
  ultimately have "unat ((s + of_nat (?a + 32 * i)) mod 32) = 0"
    unfolding unat_mod by simp
  then show "(s + of_nat (?a + 32 * i)) mod 32 = 0" by (simp only: unat_0_iff)
qed

lemma stamp32a_off:
  assumes "(s + of_nat j) mod 32 = 0" "j \<le> k" "j + 32 \<le> n" "k \<le> n" "unat s + n < 2 ^ 64"
  shows "stamp32a (stamp k m s X) (s + of_nat j) X = Some (stamp (max k (j + 32)) m s X)"
proof -
  have "stamp 32 (stamp k m s X) (s + of_nat j) X = stamp (max k (j + 32)) m s X"
    by (rule stamp_within) (use assms in simp_all)
  then show ?thesis using assms(1) by (simp add: stamp32a_def)
qed

text \<open>One round of the unrolled loop: five aligned stores, 160 bytes.\<close>

lemma huge_loop_round:
  assumes "unat s + n + 160 < 2 ^ 64" "j \<le> k" "k \<le> n" "j + 160 < n"
    and al: "\<And>i. unat s + j + 32 * i < 2 ^ 64 \<Longrightarrow> (s + of_nat (j + 32 * i)) mod 32 = 0"
  shows "huge_loop X (s + of_nat n) (stamp k m s X) (s + of_nat j)
       = huge_loop X (s + of_nat n) (stamp (max k (j + 160)) m s X) (s + of_nat (j + 160))"
proof -
  have cond: "s + of_nat j + 32 * 5 < s + of_nat n"
    using le_word_off [of s "j + 160" n] assms(1-4) by (simp add: add.assoc)
  have p: "s + of_nat j + 32 = s + of_nat (j + 32)"
    "s + of_nat (j + 32) + 32 = s + of_nat (j + 64)"
    "s + of_nat (j + 64) + 32 = s + of_nat (j + 96)"
    "s + of_nat (j + 96) + 32 = s + of_nat (j + 128)"
    "s + of_nat (j + 128) + 32 = s + of_nat (j + 160)"
    by simp_all
  have al': "(s + of_nat j) mod 32 = 0" "(s + of_nat (j + 32)) mod 32 = 0"
    "(s + of_nat (j + 64)) mod 32 = 0" "(s + of_nat (j + 96)) mod 32 = 0"
    "(s + of_nat (j + 128)) mod 32 = 0"
    using al [of 0] al [of 1] al [of 2] al [of 3] al [of 4] assms(1-4) by simp_all
  have st: "stamp32a (stamp (max k i) m s X) (s + of_nat i) X = Some (stamp (max k i') m s X)"
    if "(s + of_nat i) mod 32 = 0" "i' = i + 32" "i' \<le> n" for i i'
    using stamp32a_off [of s i "max k i" n] that assms(1-4) by (simp add: max.assoc)
  have "max k j = k" using assms(2) by simp
  then have s0: "stamp32a (stamp k m s X) (s + of_nat j) X = Some (stamp (max k (j + 32)) m s X)"
    using st [of j "j + 32"] al'(1) assms(4) by simp
  have s1: "stamp32a (stamp (max k (j + 32)) m s X) (s + of_nat (j + 32)) X
      = Some (stamp (max k (j + 64)) m s X)" by (rule st) (use al' assms(4) in simp_all)
  have s2: "stamp32a (stamp (max k (j + 64)) m s X) (s + of_nat (j + 64)) X
      = Some (stamp (max k (j + 96)) m s X)" by (rule st) (use al' assms(4) in simp_all)
  have s3: "stamp32a (stamp (max k (j + 96)) m s X) (s + of_nat (j + 96)) X
      = Some (stamp (max k (j + 128)) m s X)" by (rule st) (use al' assms(4) in simp_all)
  have s4: "stamp32a (stamp (max k (j + 128)) m s X) (s + of_nat (j + 128)) X
      = Some (stamp (max k (j + 160)) m s X)" by (rule st) (use al' assms(4) in simp_all)
  show ?thesis
    unfolding huge_loop.simps [of X "s + of_nat n" "stamp k m s X" "s + of_nat j"] p if_P [OF cond]
      s0 s1 s2 s3 s4 bind.bind_lunit by (rule refl)
qed

text \<open>The unrolled loop starts at an aligned offset \<open>j\<close> with the first \<open>k\<close> bytes already stamped,
  and stops with at most 160 bytes to go.\<close>

lemma huge_loop_stamps:
  assumes "unat s + n + 160 < 2 ^ 64" "j \<le> k" "k \<le> n"
    and al: "\<And>i. unat s + j + 32 * i < 2 ^ 64 \<Longrightarrow> (s + of_nat (j + 32 * i)) mod 32 = 0"
  shows "\<exists>j' k'. huge_loop X (s + of_nat n) (stamp k m s X) (s + of_nat j)
           = Some (stamp k' m s X, s + of_nat j') \<and> j' \<le> k' \<and> k \<le> k' \<and> k' \<le> n \<and> n \<le> j' + 160
         \<and> (\<forall>i. unat s + j' + 32 * i < 2 ^ 64 \<longrightarrow> (s + of_nat (j' + 32 * i)) mod 32 = 0)"
  using assms(2-4)
proof (induction "n - j" arbitrary: j k rule: less_induct)
  case less
  show ?case
  proof (cases "j + 160 < n")
    case False
    have "\<not> s + of_nat j + 32 * 5 < s + of_nat n"
      using False le_word_off [of s "j + 160" n] less.prems assms(1) by (simp add: add.assoc)
    then have "huge_loop X (s + of_nat n) (stamp k m s X) (s + of_nat j)
        = Some (stamp k m s X, s + of_nat j)"
      by (subst huge_loop.simps) simp
    then show ?thesis using False less.prems by (intro exI [of _ j] exI [of _ k]) auto
  next
    case True
    let ?k = "max k (j + 160)"
    have al2: "(s + of_nat (j + 160 + 32 * i)) mod 32 = 0" if "unat s + (j + 160) + 32 * i < 2 ^ 64" for i
      using less.prems(3) [of "i + 5"] that by (simp add: add_ac)
    have "n - (j + 160) < n - j" "j + 160 \<le> ?k" "?k \<le> n" using True less.prems by simp_all
    from less.hyps [OF this al2] obtain j' k' where
      "huge_loop X (s + of_nat n) (stamp ?k m s X) (s + of_nat (j + 160))
         = Some (stamp k' m s X, s + of_nat j')" "j' \<le> k'" "?k \<le> k'" "k' \<le> n" "n \<le> j' + 160"
      "\<forall>i. unat s + j' + 32 * i < 2 ^ 64 \<longrightarrow> (s + of_nat (j' + 32 * i)) mod 32 = 0" by blast
    then show ?thesis
      using huge_loop_round [OF assms(1) less.prems(1,2) True less.prems(3)]
      by (intro exI [of _ j'] exI [of _ k']) simp
  qed
qed

lemma try_stamp32_off:
  assumes "unat s + n + 160 < 2 ^ 64" "32 \<le> n" "j \<le> k" "k \<le> n"
    and al: "\<And>i. unat s + j + 32 * i < 2 ^ 64 \<Longrightarrow> (s + of_nat (j + 32 * i)) mod 32 = 0"
  shows "try_stamp32 X (s + of_nat (n - 32)) (stamp k m s X, s + of_nat j)
      = Some (if j < n - 32 then (stamp (max k (j + 32)) m s X, s + of_nat (j + 32))
              else (stamp k m s X, s + of_nat j))"
  using stamp32a_off [of s j k n m X] al [of 0] le_word_off [of s j "n - 32"] assms(1-4)
  by (auto simp: try_stamp32_def add.assoc)

text \<open>The state between the steps of the huge variant: the pointer is an aligned offset \<open>j\<close>, the
  first \<open>k\<close> bytes are done, \<open>j \<le> k \<le> n\<close>, and at most \<open>d\<close> bytes lie between the pointer and the
  last word.\<close>

definition huge_inv :: "memory \<Rightarrow> u64 \<Rightarrow> u8 \<Rightarrow> nat \<Rightarrow> nat \<Rightarrow> memory \<times> u64 \<Rightarrow> bool" where
  "huge_inv m s X n d st \<longleftrightarrow> (\<exists>j k. st = (stamp k m s X, s + of_nat j) \<and> j \<le> k \<and> k \<le> n \<and> n \<le> j + 32 + d
     \<and> (\<forall>i. unat s + j + 32 * i < 2 ^ 64 \<longrightarrow> (s + of_nat (j + 32 * i)) mod 32 = 0))"

lemma try_stamp32_inv:
  assumes "unat s + n + 160 < 2 ^ 64" "32 \<le> n" "huge_inv m s X n d st"
  obtains st' where "try_stamp32 X (s + of_nat (n - 32)) st = Some st'" "huge_inv m s X n (d - 32) st'"
proof -
  obtain j k where st: "st = (stamp k m s X, s + of_nat j)" and jk: "j \<le> k" "k \<le> n" "n \<le> j + 32 + d"
    and al: "\<And>i. unat s + j + 32 * i < 2 ^ 64 \<Longrightarrow> (s + of_nat (j + 32 * i)) mod 32 = 0"
    using assms(3) by (auto simp: huge_inv_def)
  note r = try_stamp32_off [OF assms(1,2) jk(1,2) al, of X m]
  show thesis
  proof (cases "j < n - 32")
    case True
    have al2: "(s + of_nat (j + 32 + 32 * i)) mod 32 = 0" if "unat s + (j + 32) + 32 * i < 2 ^ 64" for i
      using al [of "i + 1"] that by (simp add: add_ac)
    have "huge_inv m s X n (d - 32) (stamp (max k (j + 32)) m s X, s + of_nat (j + 32))"
      unfolding huge_inv_def
      by (intro exI [of _ "j + 32"] exI [of _ "max k (j + 32)"]) (use True jk al2 in auto)
    then show thesis using that r True st by auto
  next
    case False
    then have "huge_inv m s X n (d - 32) st"
      unfolding huge_inv_def by (intro exI [of _ j] exI [of _ k]) (use st jk al in auto)
    then show thesis using that r False st by auto
  qed
qed

lemma huge_memset_stamps:
  assumes "160 < unat n" "unat s + unat n + 160 < 2 ^ 64"
  shows "huge_memset m s c n = Some (stamp (unat n) m s c)"
proof -
  let ?n = "unat n" and ?w = "s + of_nat (unat n - 32)"
  obtain a where a: "0 < a" "a \<le> 32" "s + 32 - s mod 32 = s + of_nat a"
    and al: "\<And>i. unat s + a + 32 * i < 2 ^ 64 \<Longrightarrow> (s + of_nat (a + 32 * i)) mod 32 = 0"
    by (rule first_aligned_off [of s]) blast
  have w: "s + n - 32 = ?w" using assms(1) by (simp add: of_nat_diff)
  obtain j' k' where jk: "huge_loop c (s + of_nat ?n) (stamp 32 m s c) (s + of_nat a)
        = Some (stamp k' m s c, s + of_nat j')" "j' \<le> k'" "k' \<le> ?n" "?n \<le> j' + 160"
      "\<forall>i. unat s + j' + 32 * i < 2 ^ 64 \<longrightarrow> (s + of_nat (j' + 32 * i)) mod 32 = 0"
    using huge_loop_stamps [OF assms(2) a(2) _ al, of c m] assms(1) by auto
  define st where "st = (stamp k' m s c, s + of_nat j')"
  have st: "huge_loop c (s + n) (stamp 32 m s c) (s + of_nat a) = Some st"
    using jk(1) by (simp only: of_nat_unat ucast_id st_def)
  have i0: "huge_inv m s c ?n 128 st"
    unfolding huge_inv_def st_def by (intro exI [of _ j'] exI [of _ k']) (use jk in auto)
  have n32: "32 \<le> ?n" using assms(1) by simp
  obtain st1 where s1: "try_stamp32 c ?w st = Some st1" and i1: "huge_inv m s c ?n (128 - 32) st1"
    using try_stamp32_inv [OF assms(2) n32 i0] .
  obtain st2 where s2: "try_stamp32 c ?w st1 = Some st2" and i2: "huge_inv m s c ?n (128 - 32 - 32) st2"
    using try_stamp32_inv [OF assms(2) n32 i1] .
  obtain st3 where s3: "try_stamp32 c ?w st2 = Some st3" and i3: "huge_inv m s c ?n (128 - 32 - 32 - 32) st3"
    using try_stamp32_inv [OF assms(2) n32 i2] .
  obtain st4 where s4: "try_stamp32 c ?w st3 = Some st4" and i4: "huge_inv m s c ?n 0 st4"
    using try_stamp32_inv [OF assms(2) n32 i3] by auto
  obtain j k where j: "st4 = (stamp k m s c, s + of_nat j)" "j \<le> k" "k \<le> ?n" "?n \<le> j + 32"
    using i4 by (auto simp: huge_inv_def)
  have "stamp 32 (stamp k m s c) ?w c = stamp (max k (?n - 32 + 32)) m s c"
    by (rule stamp_within) (use j assms in simp_all)
  then have "stamp 32 (stamp k m s c) ?w c = stamp ?n m s c" using j n32 by simp
  then show ?thesis
    unfolding huge_memset_def Let_def a(3) w st s1 s2 s3 s4 j(1) bind.bind_lunit prod.case by simp
qed

subsection \<open>The medium and the small variant\<close>

lemma medium_loop_stamps:
  assumes "unat s + n + 160 < 2 ^ 64" "j \<le> k" "k \<le> n" "j + 32 \<le> n"
  shows "\<exists>k'. medium_loop X (s + of_nat (n - 32)) (stamp k m s X) (s + of_nat j) = Some (stamp k' m s X)
           \<and> n - 32 \<le> k' \<and> k' \<le> n"
  using assms(2-4)
proof (induction "n - j" arbitrary: j k rule: less_induct)
  case less
  let ?k = "max k (j + 32)"
  have st: "stamp 32 (stamp k m s X) (s + of_nat j) X = stamp ?k m s X"
    by (rule stamp_within) (use less.prems assms(1) in simp_all)
  have p: "s + of_nat j + 32 = s + of_nat (j + 32)" by simp
  have lt: "s + of_nat (j + 32) < s + of_nat (n - 32) \<longleftrightarrow> j + 32 < n - 32"
    by (rule le_word_off) (use less.prems assms(1) in simp_all)
  show ?case
  proof (cases "j + 32 < n - 32")
    case True
    then have "\<exists>k'. medium_loop X (s + of_nat (n - 32)) (stamp ?k m s X) (s + of_nat (j + 32))
        = Some (stamp k' m s X) \<and> n - 32 \<le> k' \<and> k' \<le> n"
      using less.prems by (intro less.hyps) auto
    then show ?thesis
      unfolding medium_loop.simps [of X _ "stamp k m s X" "s + of_nat j"] st p Let_def
      using lt True by simp
  next
    case False
    then show ?thesis
      unfolding medium_loop.simps [of X _ "stamp k m s X" "s + of_nat j"] st p Let_def
      using lt less.prems by (intro exI [of _ ?k]) simp
  qed
qed

lemma replicated_byte_nat:
  "P > 0 \<Longrightarrow> B * c < P \<Longrightarrow> c < 256 \<Longrightarrow> N = (A * 256 + 1) * P + B \<Longrightarrow> (N * c) div P mod 256 = (c::nat)"
proof -
  assume a: "P > 0" "B * c < P" "c < 256" and N: "N = (A * 256 + 1) * P + B"
  have "((A * 256 + 1) * P + B) * c = B * c + (A * c * 256 + c) * P" by (simp add: algebra_simps)
  then have "((A * 256 + 1) * P + B) * c div P = A * c * 256 + c" using a by (simp add: div_mult_self3)
  then show ?thesis using a N by simp
qed

lemma replicated_byte_cases:
  fixes c :: nat
  assumes "c < 256"
  shows "0x0101010101010101 * c div 2 ^ 0 mod 256 = c" "0x0101010101010101 * c div 2 ^ 8 mod 256 = c"
    "0x0101010101010101 * c div 2 ^ 16 mod 256 = c" "0x0101010101010101 * c div 2 ^ 24 mod 256 = c"
    "0x0101010101010101 * c div 2 ^ 32 mod 256 = c" "0x0101010101010101 * c div 2 ^ 40 mod 256 = c"
    "0x0101010101010101 * c div 2 ^ 48 mod 256 = c" "0x0101010101010101 * c div 2 ^ 56 mod 256 = c"
proof -
  show "0x0101010101010101 * c div 2 ^ 0 mod 256 = c"
    by (rule replicated_byte_nat [where B = 0 and A = "0x01010101010101"]) (use assms in simp_all)
  show "0x0101010101010101 * c div 2 ^ 8 mod 256 = c"
    by (rule replicated_byte_nat [where B = 1 and A = "0x010101010101"]) (use assms in simp_all)
  show "0x0101010101010101 * c div 2 ^ 16 mod 256 = c"
    by (rule replicated_byte_nat [where B = "0x0101" and A = "0x0101010101"]) (use assms in simp_all)
  show "0x0101010101010101 * c div 2 ^ 24 mod 256 = c"
    by (rule replicated_byte_nat [where B = "0x010101" and A = "0x01010101"]) (use assms in simp_all)
  show "0x0101010101010101 * c div 2 ^ 32 mod 256 = c"
    by (rule replicated_byte_nat [where B = "0x01010101" and A = "0x010101"]) (use assms in simp_all)
  show "0x0101010101010101 * c div 2 ^ 40 mod 256 = c"
    by (rule replicated_byte_nat [where B = "0x0101010101" and A = "0x0101"]) (use assms in simp_all)
  show "0x0101010101010101 * c div 2 ^ 48 mod 256 = c"
    by (rule replicated_byte_nat [where B = "0x010101010101" and A = "0x01"]) (use assms in simp_all)
  show "0x0101010101010101 * c div 2 ^ 56 mod 256 = c"
    by (rule replicated_byte_nat [where B = "0x01010101010101" and A = 0]) (use assms in simp_all)
qed

lemma replicated_byte:
  assumes "k < 8"
  shows "ucast (drop_bit (8 * k) (0x0101010101010101 * ucast c :: u64)) = (c :: u8)"
proof -
  let ?v = "0x0101010101010101 * ucast c :: u64"
  have c: "unat c < 256" by simp
  have u: "unat (ucast c :: u64) = unat c"
    by (simp add: unsigned_ucast_eq take_bit_nat_eq_self less_trans [OF c])
  have "0x0101010101010101 * unat c \<le> 0x0101010101010101 * 255"
    using c by (intro mult_le_mono2) linarith
  then have lt: "0x0101010101010101 * unat c < 2 ^ 64" by simp
  have v: "unat ?v = 0x0101010101010101 * unat c"
    using lt u unat_mult_lem [of "0x0101010101010101 :: u64" "ucast c"] by simp
  have "k = 0 \<or> k = 1 \<or> k = 2 \<or> k = 3 \<or> k = 4 \<or> k = 5 \<or> k = 6 \<or> k = 7" using assms by arith
  then have n: "0x0101010101010101 * unat c div 2 ^ (8 * k) mod 256 = unat c"
    using replicated_byte_cases [OF c]
    by (elim disjE) (simp_all only: mult_0_right, simp_all only: mult_numeral_1_right mult_1_right
      numeral_times_numeral semiring_norm One_nat_def [symmetric])
  have "unat (ucast (drop_bit (8 * k) ?v) :: u8) = take_bit 8 (unat (drop_bit (8 * k) ?v))"
    by (simp add: unsigned_ucast_eq)
  also have "\<dots> = unat ?v div 2 ^ (8 * k) mod 256"
    by (subst unat_drop_bit_eq) (simp add: drop_bit_eq_div take_bit_eq_mod)
  also have "\<dots> = unat c" using n v by simp
  finally show ?thesis by (rule word_unat_eq_iff [THEN iffD2])
qed

lemma store_le_replicated:
  assumes "k \<le> 8" "\<And>i. i < k \<Longrightarrow> ucast (drop_bit (8 * i) v) = X"
  shows "store_le k m a v = stamp k m a X"
proof
  fix b
  show "store_le k m a v b = stamp k m a X b"
    using assms by (simp add: store_le_apply stamp_def)
qed

lemma write64_replicated: "write64 m a (0x0101010101010101 * ucast c) = stamp 8 m a c"
  unfolding write64_def by (rule store_le_replicated) (simp_all add: replicated_byte)

lemma ucast_drop_bit_ucast32:
  "i < 4 \<Longrightarrow> ucast (drop_bit (8 * i) (ucast (ucast (v :: u64) :: u32) :: u64)) = (ucast (drop_bit (8 * i) v) :: u8)"
  by (rule bit_word_eqI) (auto simp: bit_simps)

lemma write32_replicated:
  "write32 m a (ucast (0x0101010101010101 * ucast c :: u64)) = stamp 4 m a c"
  unfolding write32_def
proof (rule store_le_replicated)
  fix i :: nat assume "i < 4"
  then show "ucast (drop_bit (8 * i) (ucast (ucast (0x0101010101010101 * ucast c :: u64) :: u32) :: u64)) = c"
    by (subst ucast_drop_bit_ucast32) (simp_all add: replicated_byte)
qed simp

lemma upd_within:
  assumes "j \<le> k" "k < 2 ^ 63"
  shows "(stamp k m s X)(s + of_nat j := X) = stamp (max k (j + 1)) m s X"
  unfolding stamp_one [symmetric] by (rule stamp_within) (use assms in simp_all)

lemma unat_minus_eq_iff: "i < 2 ^ 64 \<Longrightarrow> unat (b - s :: u64) = i \<longleftrightarrow> b = s + of_nat i"
proof -
  assume i: "i < 2 ^ 64"
  have "unat (b - s) = i \<longleftrightarrow> b - s = of_nat i"
    using i by (simp add: word_unat_eq_iff unat_of_nat_lt)
  then show ?thesis by (auto simp: algebra_simps)
qed

lemma stamp_few:
  "stamp 2 m s X = m(s := X, s + 1 := X)"
  "stamp 3 m s X = m(s := X, s + 2 := X, s + 1 := X)"
  "stamp 4 m s X = m(s := X, s + 3 := X, s + 1 := X, s + 2 := X)"
proof -
  have "unat (b - s) < 4 \<longleftrightarrow> unat (b - s) = 0 \<or> unat (b - s) = 1 \<or> unat (b - s) = 2 \<or> unat (b - s) = 3"
    "unat (b - s) < 3 \<longleftrightarrow> unat (b - s) = 0 \<or> unat (b - s) = 1 \<or> unat (b - s) = 2"
    "unat (b - s) < 2 \<longleftrightarrow> unat (b - s) = 0 \<or> unat (b - s) = 1" for b
    by arith+
  then have off: "unat (b - s) < 4 \<longleftrightarrow> b = s \<or> b = s + 1 \<or> b = s + 2 \<or> b = s + 3"
    "unat (b - s) < 3 \<longleftrightarrow> b = s \<or> b = s + 1 \<or> b = s + 2"
    "unat (b - s) < 2 \<longleftrightarrow> b = s \<or> b = s + 1" for b
    using unat_minus_eq_iff [of 0 b s for b] unat_minus_eq_iff [of 1 b s for b]
      unat_minus_eq_iff [of 2 b s for b] unat_minus_eq_iff [of 3 b s for b] by simp_all
  show "stamp 2 m s X = m(s := X, s + 1 := X)"
    "stamp 3 m s X = m(s := X, s + 2 := X, s + 1 := X)"
    "stamp 4 m s X = m(s := X, s + 3 := X, s + 1 := X, s + 2 := X)"
    by (rule ext, simp add: stamp_def off fun_upd_apply)+
qed

lemma small_memset_stamps:
  assumes "unat n < 32"
  shows "small_memset m s c n = stamp (unat n) m s c"
proof -
  have n: "n = of_nat (unat n)" by simp
  consider "unat n = 0" | "unat n = 1" | "unat n = 2" | "unat n = 3" | "unat n = 4"
    | "5 \<le> unat n" "unat n < 8" | "8 \<le> unat n" "unat n \<le> 16" | "16 < unat n"
    by linarith
  then show ?thesis
  proof cases
    case 1 then show ?thesis by (simp add: small_memset_def unat_0_iff)
  next
    case 2
    then have "n = 1" using n by simp
    then show ?thesis by (simp add: small_memset_def stamp_one [simplified])
  next
    case 3
    then have "n = 2" using n by simp
    then show ?thesis by (simp add: small_memset_def stamp_few)
  next
    case 4
    then have "n = 3" using n by simp
    then show ?thesis by (simp add: small_memset_def stamp_few fun_eq_iff)
  next
    case 5
    then have "n = 4" using n by simp
    then show ?thesis by (simp add: small_memset_def stamp_few)
  next
    case 6
    then have c: "\<not> n < 5" "n \<le> 16" "\<not> 8 \<le> n" by (simp_all add: word_nat)
    have "s + n - 4 = s + of_nat (unat n - 4)" using 6 by (simp add: of_nat_diff)
    moreover have "stamp 4 (stamp 4 m s c) (s + of_nat (unat n - 4)) c
        = stamp (max 4 (unat n - 4 + 4)) m s c"
      by (rule stamp_within) (use 6 in auto)
    ultimately show ?thesis
      using c 6 by (simp add: small_memset_def write32_replicated Let_def add_diff_eq)
  next
    case 7
    then have c: "\<not> n < 5" "n \<le> 16" "8 \<le> n" by (simp_all add: word_nat)
    have "s + n - 8 = s + of_nat (unat n - 8)" using 7 by (simp add: of_nat_diff)
    moreover have "stamp 8 (stamp 8 m s c) (s + of_nat (unat n - 8)) c
        = stamp (max 8 (unat n - 8 + 8)) m s c"
      by (rule stamp_within) (use 7 in auto)
    ultimately show ?thesis
      using c 7 by (simp add: small_memset_def write64_replicated Let_def add_diff_eq)
  next
    case 8
    then have c: "\<not> n < 5" "\<not> n \<le> 16" by (simp_all add: word_nat)
    have "s + n - 16 = s + of_nat (unat n - 16)" using 8 by (simp add: of_nat_diff)
    moreover have "stamp 16 (stamp 16 m (s + of_nat (unat n - 16)) c) s c = stamp (unat n) m s c"
      using stamp_last_first [of "unat n - 16" 16 m s c] 8 assms by simp
    ultimately show ?thesis using c unfolding small_memset_def Let_def by (simp only: if_False)
  qed
qed

subsection \<open>All variants\<close>

lemma memset_stamps:
  assumes "unat s + unat n + 160 < 2 ^ 64"
  shows "memset m s c n = Some (stamp (unat n) m s c)"
proof -
  consider "unat n < 32" | "32 \<le> unat n" "unat n \<le> 160" | "160 < unat n" by linarith
  then show ?thesis
  proof cases
    case 1
    then show ?thesis by (simp add: memset_def small_memset_stamps word_nat)
  next
    case 2
    have w: "s + n - 32 = s + of_nat (unat n - 32)" using 2 by (simp add: of_nat_diff)
    obtain k where k: "medium_loop c (s + of_nat (unat n - 32)) m s = Some (stamp k m s c)"
      "unat n - 32 \<le> k" "k \<le> unat n"
      using medium_loop_stamps [OF assms, of 0 0 c m] 2 by auto
    have "stamp 32 (stamp k m s c) (s + of_nat (unat n - 32)) c = stamp (max k (unat n - 32 + 32)) m s c"
      by (rule stamp_within) (use 2 k in auto)
    then have "stamp 32 (stamp k m s c) (s + of_nat (unat n - 32)) c = stamp (unat n) m s c"
      using k 2 by simp
    moreover have "\<not> n < 32" "\<not> 160 < n" using 2 by (simp_all add: word_nat)
    ultimately show ?thesis unfolding memset_def w Let_def k(1) by simp
  next
    case 3
    then show ?thesis using assms by (simp add: memset_def huge_memset_stamps word_nat)
  qed
qed

subsection \<open>Properties\<close>

text \<open>C5: \<open>memset\<close> returns for every size, by whichever of its three routes (up to 31 bytes, up to 160,
  more), and then exactly the \<open>num\<close> bytes from the start hold the value; the only condition is that
  the range ends 160 bytes before the end of the address space.\<close>

theorem memset_fills:
  assumes "unat start + unat num + 160 < 2 ^ 64"
  shows "\<exists>m'. memset m start value num = Some m'
    \<and> (\<forall>a. m' a = (if unat (a - start) < unat num then value else m a))"
  by (auto simp: memset_stamps [OF assms] stamp_def)

theorem memset_fills_witness:
  "\<exists>m'. memset (\<lambda>_. 1) 0x1003 7 500 = Some m' \<and> m' 0x1003 = 7 \<and> m' 0x1200 = 1"
proof -
  have "unat (0x1003 :: u64) + unat (500 :: u64) + 160 < 2 ^ 64" by simp
  from memset_fills [OF this, of "\<lambda>_. 1" 7] obtain m' where
    "memset (\<lambda>_. 1) 0x1003 7 500 = Some m'"
    "\<forall>a. m' a = (if unat (a - 0x1003) < unat (500 :: u64) then 7 else 1)" by blast
  then show ?thesis by (intro exI [of _ m']) simp
qed

end
