(* ===== verification/PageTables.thy ===== *)
theory PageTables
  imports FrameAllocator MemSet
begin

text \<open>
  The page tables: entries and flags (\<open>kernel/src/paging/paging.cpp\<close>), the splitting of a virtual
  address (\<open>kernel/src/paging/PageMapIndexer.cpp\<close>) and \<open>MapMemory\<close>
  (\<open>kernel/src/paging/PageTableManager.cpp\<close>). The abstract side is the processor's own walk of the
  four levels, \<open>translate\<close>; the refinement lemma says that \<open>MapMemory v p\<close> updates the translation
  at the page of \<open>v\<close> and nowhere else, and keeps the tables a tree of pages that the frame
  allocator holds.
\<close>

subsection \<open>Entries\<close>

datatype PT_Flags = Present | ReadWrite | UserSuper | WriteThrough | CacheDisabled | Accessed
  | LargerPages | Custom0 | Custom1 | Custom2 | NX

fun PT_Flags_value :: "PT_Flags \<Rightarrow> nat" where
  "PT_Flags_value Present = 0"
| "PT_Flags_value ReadWrite = 1"
| "PT_Flags_value UserSuper = 2"
| "PT_Flags_value WriteThrough = 3"
| "PT_Flags_value CacheDisabled = 4"
| "PT_Flags_value Accessed = 5"
| "PT_Flags_value LargerPages = 7"
| "PT_Flags_value Custom0 = 9"
| "PT_Flags_value Custom1 = 10"
| "PT_Flags_value Custom2 = 11"
| "PT_Flags_value NX = 63"

definition setFlag :: "u64 \<Rightarrow> PT_Flags \<Rightarrow> bool \<Rightarrow> u64" where
  "setFlag Value flag v =
     (let bitSelector = push_bit (PT_Flags_value flag) 1;
          Value = Value AND NOT bitSelector
      in if v then Value OR bitSelector else Value)"

text \<open>The source writes \<open>Value & bitSelector > 0\<close>; in C++ the comparison binds tighter than the
  \<open>&\<close>, so what is tested is \<open>Value & (bitSelector > 0)\<close>.\<close>

definition getFlag :: "u64 \<Rightarrow> PT_Flags \<Rightarrow> bool" where
  "getFlag Value flag =
     (let bitSelector = push_bit (PT_Flags_value flag) 1 :: u64
      in Value AND (if bitSelector > 0 then 1 else 0) \<noteq> 0)"

definition setAddress :: "u64 \<Rightarrow> u64 \<Rightarrow> u64" where
  "setAddress Value addr =
     (let addr = addr AND 0x000000ffffffffff
      in (Value AND 0xfff0000000000fff) OR push_bit 12 addr)"

definition getAddress :: "u64 \<Rightarrow> u64" where
  "getAddress Value = drop_bit 12 (Value AND 0x000ffffffffff000)"

record PageMapIndexer =
  PDP_i :: u64
  PD_i :: u64
  PT_i :: u64
  P_i :: u64

definition pageMapIndexer :: "u64 \<Rightarrow> PageMapIndexer" where
  "pageMapIndexer virtualAddress =
     (let va = drop_bit 12 virtualAddress;
          p = va AND 0x1ff;
          va = drop_bit 9 va;
          pt = va AND 0x1ff;
          va = drop_bit 9 va;
          pd = va AND 0x1ff;
          va = drop_bit 9 va;
          pdp = va AND 0x1ff
      in \<lparr>PDP_i = pdp, PD_i = pd, PT_i = pt, P_i = p\<rparr>)"

subsection \<open>Mapping a page\<close>

record ptm = pfa +
  PML4 :: u64

text \<open>\<open>table->entries[i]\<close>: 8-byte entries from the start of the table.\<close>

definition entry_addr :: "u64 \<Rightarrow> u64 \<Rightarrow> u64" where
  "entry_addr table i = table + 8 * i"

text \<open>The block that \<open>MapMemory\<close> repeats for the three upper levels: follow the entry, or allocate,
  clear and link a table for it.\<close>

definition next_table :: "u64 \<Rightarrow> u64 \<Rightarrow> 'a pfa_scheme \<Rightarrow> (u64 \<times> 'a pfa_scheme) option" where
  "next_table table i s =
     (let PDE = read64 (mem s) (entry_addr table i)
      in if \<not> getFlag PDE Present then do {
           let (new, s) = RequestPage s;
           m \<leftarrow> memset (mem s) new 0 0x1000;
           let PDE = setAddress PDE (drop_bit 12 new);
           let PDE = setFlag PDE Present True;
           let PDE = setFlag PDE ReadWrite True;
           Some (new, s\<lparr>mem := write64 m (entry_addr table i) PDE\<rparr>)
         } else Some (push_bit 12 (getAddress PDE), s))"

definition MapMemory :: "u64 \<Rightarrow> u64 \<Rightarrow> 'a ptm_scheme \<Rightarrow> 'a ptm_scheme option" where
  "MapMemory virtualMemory physicalMemory s = do {
     let indexer = pageMapIndexer virtualMemory;
     (PDP, s) \<leftarrow> next_table (PML4 s) (PDP_i indexer) s;
     (PD, s) \<leftarrow> next_table PDP (PD_i indexer) s;
     (PT, s) \<leftarrow> next_table PD (PT_i indexer) s;
     let PDE = read64 (mem s) (entry_addr PT (P_i indexer));
     let PDE = setAddress PDE (drop_bit 12 physicalMemory);
     let PDE = setFlag PDE Present True;
     let PDE = setFlag PDE ReadWrite True;
     Some (s\<lparr>mem := write64 (mem s) (entry_addr PT (P_i indexer)) PDE\<rparr>)
   }"

subsection \<open>Entries: what the accessors do\<close>

lemma PT_Flags_value_bound: "PT_Flags_value f < 64"
  by (cases f) simp_all

lemma getFlag_bit0: "getFlag v f = bit v 0"
proof -
  have "bit (push_bit (PT_Flags_value f) 1 :: u64) (PT_Flags_value f)"
    by (simp add: bit_simps PT_Flags_value_bound)
  then have "push_bit (PT_Flags_value f) 1 \<noteq> (0 :: u64)" by (metis bit_0_eq bot_apply bot_bool_def)
  then have "push_bit (PT_Flags_value f) 1 > (0 :: u64)" by (simp only: word_neq_0_conv)
  then have "getFlag v f \<longleftrightarrow> v AND 1 \<noteq> 0" by (simp only: getFlag_def Let_def if_True)
  also have "\<dots> \<longleftrightarrow> bit v 0" by (simp add: and_one_eq bit_0 mod2_eq_if)
  finally show ?thesis .
qed

lemma bit_setFlag: "bit (setFlag v f x) k = (if k = PT_Flags_value f then x else bit v k)" if "k < 64"
  using that by (auto simp: setFlag_def Let_def bit_simps)

text \<open>The address mask of an entry: bits 12 to 51.\<close>

definition frame_of :: "u64 \<Rightarrow> u64" where
  "frame_of e = e AND 0x000ffffffffff000"

lemma possible_bit64: "possible_bit TYPE(u64) k \<longleftrightarrow> k < 64"
  by (simp add: possible_bit_word)

lemma bit_mask_frame: "bit (0x000ffffffffff000 :: u64) k \<longleftrightarrow> 12 \<le> k \<and> k < 52"
proof -
  have e: "(0x000ffffffffff000 :: u64) = push_bit 12 (mask 40)" by (simp add: mask_eq_exp_minus_1 push_bit_eq_mult)
  show ?thesis
    by (subst e) (simp only: bit_push_bit_iff bit_mask_iff possible_bit64, arith)
qed

lemma bit_mask_rest: "bit (0xfff0000000000fff :: u64) k \<longleftrightarrow> k < 64 \<and> (k < 12 \<or> 52 \<le> k)"
proof -
  have e: "(0xfff0000000000fff :: u64) = NOT 0x000ffffffffff000" by simp
  show ?thesis by (subst e) (simp only: bit_not_iff bit_mask_frame possible_bit64, arith)
qed

lemma bit_mask40: "bit (0x000000ffffffffff :: u64) k \<longleftrightarrow> k < 40"
proof -
  have e: "(0x000000ffffffffff :: u64) = mask 40" by (simp add: mask_eq_exp_minus_1)
  show ?thesis by (subst e) (simp only: bit_mask_iff possible_bit64, arith)
qed

lemmas entry_bits = bit_push_bit_iff bit_drop_bit_eq bit_and_iff bit_or_iff possible_bit64
  bit_mask_frame bit_mask_rest bit_mask40 o_apply

lemma nat_shift12: "(12::nat) \<le> n \<Longrightarrow> 12 + (n - 12) = n"
  by simp

lemma bit_frame_of: "bit (frame_of e) n \<longleftrightarrow> 12 \<le> n \<and> n < 52 \<and> bit e n"
  by (auto simp only: frame_of_def entry_bits)

lemma getAddress_frame: "push_bit 12 (getAddress e) = frame_of e"
proof (rule bit_word_eqI)
  fix n assume "n < LENGTH(64)"
  then have "n < 64" by simp
  then show "bit (push_bit 12 (getAddress e)) n \<longleftrightarrow> bit (frame_of e) n"
    by (cases "12 \<le> n") (auto simp only: getAddress_def bit_frame_of entry_bits nat_shift12)
qed

lemma bit_getAddress: "bit (getAddress e) n \<longleftrightarrow> n < 40 \<and> bit e (n + 12)"
  unfolding getAddress_def entry_bits by (auto simp: add.commute)

lemma bit_setAddress:
  assumes "n < 64"
  shows "bit (setAddress v a) n \<longleftrightarrow> (if 12 \<le> n \<and> n < 52 then bit a (n - 12) else bit v n)"
  using assms unfolding setAddress_def Let_def entry_bits by auto

lemma getAddress_setAddress: "getAddress (setAddress v a) = a AND 0x000000ffffffffff"
proof (rule bit_word_eqI)
  fix n assume "n < LENGTH(64)"
  show "bit (getAddress (setAddress v a)) n \<longleftrightarrow> bit (a AND 0x000000ffffffffff) n"
    unfolding entry_bits bit_getAddress by (cases "n < 40") (auto simp: bit_setAddress)
qed

lemma frame_of_setAddress: "frame_of (setAddress v a) = push_bit 12 (a AND 0x000000ffffffffff)"
  by (metis getAddress_frame getAddress_setAddress)

lemma frame_of_setFlag: "PT_Flags_value f < 12 \<or> PT_Flags_value f = 63 \<Longrightarrow> frame_of (setFlag v f x) = frame_of v"
  by (rule bit_word_eqI) (auto simp: bit_frame_of bit_setFlag)

definition aligned :: "u64 \<Rightarrow> bool" where
  "aligned a \<longleftrightarrow> unat a mod 4096 = 0"

definition new_entry :: "u64 \<Rightarrow> u64 \<Rightarrow> u64" where
  "new_entry e a = setFlag (setFlag (setAddress e (drop_bit 12 a)) Present True) ReadWrite True"

lemma frame_new_entry: "frame_of (new_entry e a) = frame_of a"
proof -
  have "push_bit 12 (drop_bit 12 a AND 0x000000ffffffffff) = frame_of a"
  proof (rule bit_word_eqI)
    fix n assume "n < LENGTH(64)"
    then show "bit (push_bit 12 (drop_bit 12 a AND 0x000000ffffffffff)) n \<longleftrightarrow> bit (frame_of a) n"
      by (cases "12 \<le> n") (auto simp only: bit_frame_of entry_bits nat_shift12 simp: less_diff_conv)
  qed
  moreover have "frame_of (new_entry e a) = frame_of (setAddress e (drop_bit 12 a))"
    by (simp add: new_entry_def frame_of_setFlag)
  ultimately show ?thesis by (simp only: frame_of_setAddress)
qed

lemma present_new_entry: "bit (new_entry e a) 0"
  by (simp add: new_entry_def bit_setFlag)

lemma aligned_bits: "aligned a \<longleftrightarrow> (\<forall>n < 12. \<not> bit a n)"
proof -
  have "aligned a \<longleftrightarrow> take_bit 12 a = 0"
    by (simp add: aligned_def take_bit_eq_mod word_unat_eq_iff unat_mod)
  also have "\<dots> \<longleftrightarrow> (\<forall>n < 12. \<not> bit a n)"
    by (auto simp: bit_eq_iff bit_simps dest: bit_imp_le_length)
  finally show ?thesis .
qed

lemma aligned_frame_of: "aligned (frame_of e)"
  by (simp add: aligned_bits bit_frame_of)

lemma small_bits: "unat a < 2 ^ 52 \<Longrightarrow> bit (a :: u64) n \<Longrightarrow> n < 52"
proof (rule ccontr)
  assume a: "unat a < 2 ^ 52" "bit a n" "\<not> n < 52"
  then have "take_bit 52 (unat a) = unat a" by (simp add: take_bit_nat_eq_self)
  moreover have "bit (unat a) n" using a(2) by (simp add: bit_unsigned_iff bit_imp_le_length)
  ultimately show False using a(3) by (metis bit_take_bit_iff)
qed

lemma frame_of_small: "aligned a \<Longrightarrow> unat a < 2 ^ 52 \<Longrightarrow> frame_of a = a"
  using small_bits [of a] by (intro bit_word_eqI) (auto simp: bit_frame_of aligned_bits intro: leI)

subsection \<open>The processor's walk of the tables\<close>

text \<open>An entry is followed when its present bit is set; a path is a list of entry indices from the
  root. The translation of an address is the walk along its four indices.\<close>

definition child :: "memory \<Rightarrow> u64 \<Rightarrow> u64 \<Rightarrow> u64 option" where
  "child m t i = (let e = read64 m (entry_addr t i) in if bit e 0 then Some (frame_of e) else None)"

fun walk :: "memory \<Rightarrow> u64 \<Rightarrow> u64 list \<Rightarrow> u64 option" where
  "walk m t [] = Some t"
| "walk m t (i # is) = (case child m t i of None \<Rightarrow> None | Some t' \<Rightarrow> walk m t' is)"

definition path :: "u64 \<Rightarrow> u64 list" where
  "path v = (let x = pageMapIndexer v in [PDP_i x, PD_i x, PT_i x, P_i x])"

definition translate :: "'a ptm_scheme \<Rightarrow> u64 \<Rightarrow> u64 option" where
  "translate s v = map_option (\<lambda>p. p OR (v AND 0xfff)) (walk (mem s) (PML4 s) (path v))"

definition valid :: "u64 list \<Rightarrow> bool" where
  "valid ps \<longleftrightarrow> (\<forall>i \<in> set ps. unat i < 512)"

lemma walk_append: "walk m t (ps @ qs) = (case walk m t ps of None \<Rightarrow> None | Some t' \<Rightarrow> walk m t' qs)"
  by (induction ps arbitrary: t) (simp_all split: option.split)

lemma walk_snoc: "walk m t (ps @ [i]) = (case walk m t ps of None \<Rightarrow> None | Some t' \<Rightarrow> child m t' i)"
  by (simp add: walk_append split: option.split)

lemma walk_prefix_none: "walk m t ps = None \<Longrightarrow> walk m t (ps @ qs) = None"
  by (simp add: walk_append)

lemma valid_append [simp]: "valid (ps @ qs) \<longleftrightarrow> valid ps \<and> valid qs"
  by (auto simp: valid_def)

lemma valid_Cons [simp]: "valid (i # ps) \<longleftrightarrow> unat i < 512 \<and> valid ps"
  by (auto simp: valid_def)

lemma valid_Nil [simp]: "valid []"
  by (simp add: valid_def)

lemma unat_and_511: "unat (x AND 0x1ff :: u64) < 512"
proof -
  have "(x AND 0x1ff :: u64) = take_bit 9 x" by (simp add: take_bit_eq_mask mask_eq_exp_minus_1)
  then show ?thesis by (simp add: unsigned_take_bit_eq take_bit_nat_def)
qed

lemma valid_path [simp]: "valid (path v)" and length_path [simp]: "length (path v) = 4"
  by (simp_all add: path_def pageMapIndexer_def Let_def unat_and_511)

subsection \<open>Linking a table\<close>

text \<open>The bytes of distinct entries of distinct tables are distinct, so a link changes one edge.\<close>

lemma entry_slot:
  assumes "aligned t" "unat i < 512" "b \<in> region (entry_addr t i) 8"
  shows "unat b div 4096 = unat t div 4096" "unat b mod 4096 div 8 = unat i"
proof -
  define q where "q = unat t div 4096"
  have t: "unat t = 4096 * q" using assms(1) by (auto simp: aligned_def q_def)
  have q: "4096 * q + 4096 \<le> 2 ^ 64" using unat_lt_u64 [of t] unfolding t by simp
  define d where "d = unat (b - entry_addr t i)"
  have d: "d < 8" using assms(3) by (simp add: region_def d_def)
  have "b = t + of_nat (8 * unat i + d)" by (simp add: d_def entry_addr_def)
  also have "unat \<dots> = 4096 * q + (8 * unat i + d)"
    using assms(2) d q t by (subst unat_add_of_nat) simp_all
  finally have b: "unat b = 4096 * q + (8 * unat i + d)" .
  then show "unat b div 4096 = unat t div 4096" "unat b mod 4096 div 8 = unat i"
    using assms(2) d t by simp_all
qed

lemma entry_in_page: "aligned t \<Longrightarrow> unat i < 512 \<Longrightarrow> b \<in> region (entry_addr t i) 8 \<Longrightarrow> b div 4096 = t div 4096"
  using entry_slot(1) [of t i b] by (simp add: word_unat_eq_iff unat_div)

lemma aligned_eq: "aligned t \<Longrightarrow> aligned t' \<Longrightarrow> t div 4096 = t' div 4096 \<Longrightarrow> t = t'"
  by (simp add: word_unat_eq_iff unat_div aligned_def) (metis div_mult_mod_eq)

lemma entries_disjoint:
  assumes "aligned t" "aligned t'" "unat i < 512" "unat j < 512" "t \<noteq> t' \<or> i \<noteq> j" "b \<in> region (entry_addr t' j) 8"
  shows "b \<notin> region (entry_addr t i) 8"
  using entry_slot [OF assms(1,3)] entry_slot [OF assms(2,4)] assms(5,6) aligned_eq [OF assms(1,2)]
  by (metis unat_div unat_numeral word_unat_eq_iff entry_in_page assms(1-4))

lemma child_write_other:
  assumes "aligned t" "aligned t'" "unat i < 512" "unat j < 512" "t \<noteq> t' \<or> i \<noteq> j"
  shows "child (write64 m (entry_addr t i) e) t' j = child m t' j"
  using entries_disjoint [OF assms] unfolding child_def by (simp add: mem_simps cong: read64_cong)

lemma child_write_same: "child (write64 m (entry_addr t i) e) t i = (if bit e 0 then Some (frame_of e) else None)"
  by (simp add: child_def)

lemma child_cong:
  "aligned t \<Longrightarrow> unat i < 512 \<Longrightarrow> (\<And>b. b div 4096 = t div 4096 \<Longrightarrow> m b = m' b) \<Longrightarrow> child m t i = child m' t i"
  using entry_in_page [of t i] read64_cong [of "entry_addr t i" m m'] by (simp add: child_def)

text \<open>The tables of a root: what paths of at most three indices reach. A tree of tables is one in
  which no table is reached along two paths.\<close>

definition tables :: "memory \<Rightarrow> u64 \<Rightarrow> u64 set" where
  "tables m r = {t. \<exists>ps. valid ps \<and> length ps \<le> 3 \<and> walk m r ps = Some t}"

definition tree :: "memory \<Rightarrow> u64 \<Rightarrow> bool" where
  "tree m r \<longleftrightarrow> aligned r \<and> (\<forall>ps qs t. valid ps \<longrightarrow> valid qs \<longrightarrow> length ps \<le> 3 \<longrightarrow> length qs \<le> 3 \<longrightarrow>
     walk m r ps = Some t \<longrightarrow> walk m r qs = Some t \<longrightarrow> ps = qs)"

lemma child_aligned: "child m t i = Some t' \<Longrightarrow> aligned t'"
  by (auto simp: child_def Let_def aligned_frame_of split: if_splits)

lemma walk_aligned: "aligned r \<Longrightarrow> walk m r ps = Some t \<Longrightarrow> aligned t"
  by (induction ps arbitrary: r) (auto dest: child_aligned split: option.splits)

lemma walk_link:
  assumes tr: "tree m r" and ps: "valid ps" "length ps \<le> 3" "walk m r ps = Some t" and i: "unat i < 512"
    and edge: "child m' t i = Some N"
    and other: "\<And>t' j. t' \<in> tables m r \<Longrightarrow> unat j < 512 \<Longrightarrow> t' \<noteq> t \<or> j \<noteq> i \<Longrightarrow> child m' t' j = child m t' j"
    and new: "length ps = 3 \<or> child m t i = None \<and> (\<forall>j. unat j < 512 \<longrightarrow> child m' N j = None)"
    and qs: "valid qs" "length qs \<le> 4"
  shows "walk m' r qs = (if qs = ps @ [i] then Some N else walk m r qs)"
  using qs
proof (induction qs rule: rev_induct)
  case Nil
  then show ?case by simp
next
  case (snoc j xs)
  have xs: "valid xs" "length xs \<le> 3" "unat j < 512" using snoc.prems by auto
  have IH: "walk m' r xs = (if xs = ps @ [i] then Some N else walk m r xs)" using snoc xs by simp
  show ?case
  proof (cases "xs = ps @ [i]")
    case True
    then have "length ps \<noteq> 3" using xs by simp
    then have c: "child m t i = None" "child m' N j = None" using new xs(3) by auto
    have "walk m' r (xs @ [j]) = None" using IH True c(2) by (simp add: walk_snoc del: append_assoc)
    moreover have "walk m r xs = None" using True ps(3) c(1) by (simp add: walk_snoc)
    ultimately show ?thesis using True by (simp add: walk_prefix_none del: append_assoc)
  next
    case False
    show ?thesis
    proof (cases "walk m r xs")
      case None
      then show ?thesis using IH False ps(3) by (auto simp: walk_snoc)
    next
      case (Some t')
      then have t': "t' \<in> tables m r" using xs by (auto simp: tables_def)
      have "t' = t \<longleftrightarrow> xs = ps" using tr ps xs Some by (auto simp: tree_def)
      then show ?thesis
        using IH False Some edge other [OF t' xs(3)] by (cases "t' = t \<and> j = i") (auto simp: walk_snoc)
    qed
  qed
qed

subsection \<open>The states in which pages are mapped\<close>

definition free_count :: "'a pfa_scheme \<Rightarrow> nat" where
  "free_count s = card {i. free_at s i}"

text \<open>The invariant: the allocator is ready and holds the pages of its bitmap and of all tables, the
  tables form a tree, and no table shares a byte with the bitmap.\<close>

definition pt_ok :: "'a ptm_scheme \<Rightarrow> bool" where
  "pt_ok s \<longleftrightarrow> alloc_ready s \<and> tree (mem s) (PML4 s)
     \<and> (\<forall>b \<in> bitmap_region s. \<not> free_at s (b div 4096))
     \<and> (\<forall>t \<in> tables (mem s) (PML4 s). \<not> free_at s (t div 4096)
          \<and> (\<forall>b. b div 4096 = t div 4096 \<longrightarrow> b \<notin> bitmap_region s))"

lemma alloc_ready_no_wrap: "alloc_ready s \<Longrightarrow> no_wrap s"
  by (simp add: alloc_ready_def no_wrap_def)

lemma PML4_same_frame: "same_frame s t \<Longrightarrow> PML4 t = PML4 s"
  by (cases s, cases t) (simp add: same_frame_def)

lemma used_mem_cong:
  assumes "no_wrap s" "\<And>b. b \<in> bitmap_region s \<Longrightarrow> m b = mem s b"
  shows "PageBitmap_Get (s\<lparr>mem := m\<rparr>) j = PageBitmap_Get s j"
proof (cases "tracked s j")
  case True
  then show ?thesis
    using tracked_byte [OF assms(1)] assms(2) by (simp add: PageBitmap_Get_def Bitmap_Get_bit)
next
  case False
  then show ?thesis by (simp add: PageBitmap_Get_def Bitmap_Get_bit tracked_def limit_def)
qed

lemma free_at_mem_cong:
  "no_wrap s \<Longrightarrow> (\<And>b. b \<in> bitmap_region s \<Longrightarrow> m b = mem s b) \<Longrightarrow> free_at (s\<lparr>mem := m\<rparr>) j = free_at s j"
  by (simp add: free_at_def used_mem_cong)

lemma alloc_ready_mem_cong:
  "no_wrap s \<Longrightarrow> (\<And>b. b \<in> bitmap_region s \<Longrightarrow> m b = mem s b) \<Longrightarrow> alloc_ready (s\<lparr>mem := m\<rparr>) = alloc_ready s"
  by (simp add: alloc_ready_def cursor_ok_def used_mem_cong)

lemma finite_free: "finite {i. free_at s i}"
  by simp

lemma RequestPage_some:
  assumes "alloc_ready s" "0 < free_count s"
  obtains k where "free_at s k" "fst (RequestPage s) = k * 4096" "k * 4096 div 4096 = k"
    "aligned (k * 4096)" "unat (k * 4096) < 2 ^ 52"
    "\<And>j. free_at (snd (RequestPage s)) j \<longleftrightarrow> free_at s j \<and> j \<noteq> k"
  using assms(1)
proof (cases rule: RequestPage_cases)
  case (none k)
  then have "{i. free_at s i} = {}" by (auto simp: free_at_def)
  then show ?thesis using assms(2) by (simp add: free_count_def)
next
  case (page k)
  have "unat k < 2 ^ 40" using page(1) assms(1) by (simp add: alloc_ready_def word_nat)
  then have u: "unat (k * 4096) < 2 ^ 52" using page(8) by simp
  have f: "free_at (snd (RequestPage s)) j \<longleftrightarrow> free_at s j \<and> j \<noteq> k" for j
    using page by (auto simp: free_at_def frame_simps used_op tracked_def)
  show ?thesis
    by (rule that [OF _ _ page(6) _ u f]) (use page in \<open>simp_all add: free_at_def aligned_def\<close>)
qed

lemma entry_in_frame: "aligned t \<Longrightarrow> unat i < 512 \<Longrightarrow> b div 4096 \<noteq> t div 4096 \<Longrightarrow> write64 m (entry_addr t i) e b = m b"
  using entry_in_page [of t i b] by (intro write64_outside) auto

lemma page_region: "aligned t \<Longrightarrow> b \<in> region t 4096 \<longleftrightarrow> b div 4096 = t div 4096"
proof -
  assume a: "aligned t"
  define q where "q = unat t div 4096"
  have t: "unat t = 4096 * q" using a by (auto simp: aligned_def q_def)
  have eq: "b div 4096 = t div 4096 \<longleftrightarrow> unat b div 4096 = q"
    by (simp add: word_unat_eq_iff unat_div q_def)
  show ?thesis
  proof (cases "t \<le> b")
    case True
    then have "unat (b - t) = unat b - 4096 * q" "4096 * q \<le> unat b" using t by (simp_all add: unat_sub word_nat)
    then show ?thesis unfolding eq region_def by auto
  next
    case False
    then have "unat b < 4096 * q" using t by (simp add: word_nat)
    moreover have "unat (b - t) = unat b + 2 ^ 64 - 4096 * q"
      using False t by (simp add: unat_sub_if_size word_size word_nat)
    moreover have "4096 * q + 4096 \<le> 2 ^ 64" using unat_lt_u64 [of t] unfolding t by simp
    ultimately show ?thesis unfolding eq region_def by auto
  qed
qed

abbreviation at_path :: "'a ptm_scheme \<Rightarrow> u64 list \<Rightarrow> u64 option" where
  "at_path s ps \<equiv> walk (mem s) (PML4 s) ps"

definition missing :: "'a ptm_scheme \<Rightarrow> u64 list set \<Rightarrow> u64 list set" where
  "missing s P = {p \<in> P. at_path s p = None}"

text \<open>Bytes a mapping may not touch: those of pages in use that hold neither a table nor the bitmap.\<close>

definition foreign :: "'a ptm_scheme \<Rightarrow> u64 \<Rightarrow> bool" where
  "foreign s b \<longleftrightarrow> \<not> free_at s (b div 4096) \<and> b \<notin> bitmap_region s
     \<and> (\<forall>t \<in> tables (mem s) (PML4 s). t div 4096 \<noteq> b div 4096)"

text \<open>\<open>grown P g s s'\<close>: the tables at the paths in \<open>P\<close> exist now, those that were missing are new
  pages from the allocator, the pages of the paths in \<open>g\<close> are mapped as \<open>g\<close> says, and nothing else
  has changed.\<close>

definition grown ::
    "u64 list set \<Rightarrow> (u64 list \<Rightarrow> u64 option) \<Rightarrow> 'a ptm_scheme \<Rightarrow> 'a ptm_scheme \<Rightarrow> bool" where
  "grown P g s s' \<longleftrightarrow> pt_ok s' \<and> PML4 s' = PML4 s
     \<and> PageBitmap s' = PageBitmap s \<and> bitmap_region s' = bitmap_region s
     \<and> (\<forall>qs. valid qs \<longrightarrow> length qs \<le> 3 \<longrightarrow> (at_path s' qs = None \<longleftrightarrow> at_path s qs = None \<and> qs \<notin> P))
     \<and> (\<forall>qs t. valid qs \<longrightarrow> length qs \<le> 3 \<longrightarrow> at_path s qs = Some t \<longrightarrow> at_path s' qs = Some t)
     \<and> (\<forall>qs. valid qs \<longrightarrow> length qs = 4 \<longrightarrow> at_path s' qs = (at_path s ++ g) qs)
     \<and> free_count s' + card (missing s P) = free_count s
     \<and> (\<forall>j. free_at s' j \<longrightarrow> free_at s j)
     \<and> (\<forall>t \<in> tables (mem s') (PML4 s'). t \<in> tables (mem s) (PML4 s) \<or> free_at s (t div 4096))
     \<and> (\<forall>b. foreign s b \<longrightarrow> mem s' b = mem s b)"

definition dir_paths :: "u64 list set \<Rightarrow> bool" where
  "dir_paths P \<longleftrightarrow> finite P \<and> (\<forall>q \<in> P. valid q \<and> length q \<le> 3)"

lemma grown_refl: "pt_ok s \<Longrightarrow> missing s P = {} \<Longrightarrow> grown P Map.empty s s"
proof -
  assume a: "pt_ok s" "missing s P = {}"
  then have "qs \<in> P \<Longrightarrow> at_path s qs = None \<Longrightarrow> False" for qs by (auto simp: missing_def)
  then show ?thesis using a unfolding grown_def by (auto simp del: split_paired_All)
qed

lemma grown_foreign: "grown P g s s' \<Longrightarrow> foreign s b \<Longrightarrow> foreign s' b"
  unfolding grown_def foreign_def by metis

lemma missing_grown:
  assumes "grown P g s s1" "dir_paths P" "dir_paths Q"
  shows "card (missing s (P \<union> Q)) = card (missing s P) + card (missing s1 Q)"
proof -
  have "missing s (P \<union> Q) = missing s P \<union> missing s1 Q" "missing s P \<inter> missing s1 Q = {}"
    using assms by (auto simp: missing_def grown_def dir_paths_def)
  moreover have "finite (missing s P)" "finite (missing s1 Q)"
    using assms(2,3) by (simp_all add: missing_def dir_paths_def)
  ultimately show ?thesis by (simp add: card_Un_disjoint)
qed

lemma grown_trans:
  assumes "grown P g s s1" "grown Q h s1 s2" "dir_paths P" "dir_paths Q"
  shows "grown (P \<union> Q) (g ++ h) s s2"
proof -
  have "free_count s2 + card (missing s (P \<union> Q)) = free_count s"
    using assms(1,2) missing_grown [OF assms(1,3,4)] by (simp add: grown_def)
  moreover have "mem s2 b = mem s b" if "foreign s b" for b
    using that grown_foreign [OF assms(1) that] assms(1,2) by (simp add: grown_def)
  moreover have "\<forall>t \<in> tables (mem s2) (PML4 s2). t \<in> tables (mem s) (PML4 s) \<or> free_at s (t div 4096)"
    using assms(1,2) unfolding grown_def by metis
  moreover have "at_path s2 qs = (at_path s ++ (g ++ h)) qs" if "valid qs" "length qs = 4" for qs
  proof -
    have "at_path s1 qs = (at_path s ++ g) qs" "at_path s2 qs = (at_path s1 ++ h) qs"
      using assms(1,2) that unfolding grown_def by blast+
    then show ?thesis by (simp add: map_add_def split: option.split)
  qed
  ultimately show ?thesis using assms(1,2) unfolding grown_def by auto
qed

lemma grown_link:
  assumes ok: "pt_ok s" and ps: "valid ps" "length ps \<le> 2" "at_path s ps = Some t" and i: "unat i < 512"
    and none: "at_path s (ps @ [i]) = None"
    and N: "free_at s (N div 4096)" "aligned N"
    and s2: "alloc_ready s2" "PML4 s2 = PML4 s" "PageBitmap s2 = PageBitmap s"
      "\<And>j. free_at s2 j \<longleftrightarrow> free_at s j \<and> j \<noteq> N div 4096"
    and mem: "\<And>b. b div 4096 \<noteq> N div 4096 \<Longrightarrow> b \<notin> region (entry_addr t i) 8 \<Longrightarrow> b \<notin> bitmap_region s \<Longrightarrow> mem s2 b = mem s b"
      "child (mem s2) t i = Some N" "\<And>j. unat j < 512 \<Longrightarrow> child (mem s2) N j = None"
  shows "at_path s2 (ps @ [i]) = Some N" and "grown {ps @ [i]} Map.empty s s2"
proof -
  have tr: "tree (mem s) (PML4 s)" and bmf: "\<And>b. b \<in> bitmap_region s \<Longrightarrow> \<not> free_at s (b div 4096)"
    and tf: "\<And>t. t \<in> tables (mem s) (PML4 s) \<Longrightarrow> \<not> free_at s (t div 4096)"
    and tb: "\<And>t b. t \<in> tables (mem s) (PML4 s) \<Longrightarrow> b div 4096 = t div 4096 \<Longrightarrow> b \<notin> bitmap_region s"
    using ok by (auto simp: pt_ok_def)
  have al: "aligned t'" if "t' \<in> tables (mem s) (PML4 s)" for t'
    using that tr walk_aligned [of "PML4 s"] by (auto simp: tables_def tree_def)
  have t: "t \<in> tables (mem s) (PML4 s)" using ps by (auto simp: tables_def)
  have br: "bitmap_region s2 = bitmap_region s" using s2(3) by (rule bitmap_region_cong)
  have other: "child (mem s2) t' j = child (mem s) t' j"
    if t': "t' \<in> tables (mem s) (PML4 s)" and j: "unat j < 512" and ne: "t' \<noteq> t \<or> j \<noteq> i" for t' j
    unfolding child_def
  proof (subst read64_cong [of "entry_addr t' j" "mem s2" "mem s"])
    fix b assume b: "b \<in> region (entry_addr t' j) 8"
    then have pg: "b div 4096 = t' div 4096" using al [OF t'] j by (metis entry_in_page)
    moreover have "b \<notin> region (entry_addr t i) 8"
      using entries_disjoint [OF al [OF t] al [OF t'] i j _ b] ne by blast
    ultimately show "mem s2 b = mem s b" using tf [OF t'] tb [OF t' pg] N(1) by (intro mem(1)) auto
  qed simp
  have cn: "child (mem s) t i = None" using none ps(3) by (simp add: walk_snoc)
  have W: "at_path s2 qs = (if qs = ps @ [i] then Some N else at_path s qs)"
    if "valid qs" "length qs \<le> 4" for qs
    unfolding s2(2) by (rule walk_link [OF tr ps(1) _ ps(3) i mem(2) other]) (use ps(2) cn mem(3) that in auto)
  show pi: "at_path s2 (ps @ [i]) = Some N" using W [of "ps @ [i]"] ps i by simp
  have tab: "tables (mem s2) (PML4 s2) = insert N (tables (mem s) (PML4 s))"
  proof (intro equalityI subsetI)
    fix u assume "u \<in> tables (mem s2) (PML4 s2)"
    then obtain qs where "valid qs" "length qs \<le> 3" "at_path s2 qs = Some u" by (auto simp: tables_def)
    then show "u \<in> insert N (tables (mem s) (PML4 s))"
      using W [of qs] by (auto simp: tables_def split: if_splits)
  next
    fix u assume "u \<in> insert N (tables (mem s) (PML4 s))"
    then consider "u = N" | qs where "valid qs" "length qs \<le> 3" "at_path s qs = Some u"
      by (auto simp: tables_def)
    then show "u \<in> tables (mem s2) (PML4 s2)"
    proof cases
      case 1
      moreover have "valid (ps @ [i])" "length (ps @ [i]) \<le> 3" using ps i by simp_all
      ultimately show ?thesis using pi unfolding tables_def by blast
    next
      case 2
      then show ?thesis using W [of qs] none unfolding tables_def by force
    qed
  qed
  have Nn: "N \<notin> tables (mem s) (PML4 s)" using tf N(1) by blast
  have "tree (mem s2) (PML4 s2)"
    unfolding tree_def
  proof (intro conjI allI impI)
    show "aligned (PML4 s2)" using tr s2(2) by (simp add: tree_def)
    fix p q u
    assume p: "valid p" "valid q" "length p \<le> 3" "length q \<le> 3" "at_path s2 p = Some u" "at_path s2 q = Some u"
    have "at_path s v \<noteq> Some N" if "valid v" "length v \<le> 3" for v using Nn that by (auto simp: tables_def)
    then show "p = q" using p W [of p] W [of q] tr by (auto simp: tree_def split: if_splits)
  qed
  moreover have "b \<notin> bitmap_region s" if "b div 4096 = N div 4096" for b using bmf [of b] N(1) that by auto
  ultimately have ok2: "pt_ok s2"
    using s2(1,4) tab tf tb bmf N(1) unfolding pt_ok_def br by auto
  have ms: "missing s {ps @ [i]} = {ps @ [i]}" using none by (auto simp: missing_def)
  have "{j. free_at s j} = insert (N div 4096) {j. free_at s2 j}" using s2(4) N(1) by auto
  then have fc: "free_count s = free_count s2 + 1"
    using s2(4) by (simp add: free_count_def card_insert_if)
  have fr: "mem s2 b = mem s b" if "foreign s b" for b
  proof (rule mem(1))
    show "b \<notin> region (entry_addr t i) 8" using that t entry_in_page [OF al [OF t] i, of b] by (auto simp: foreign_def)
  qed (use that N(1) in \<open>auto simp: foreign_def\<close>)
  show "grown {ps @ [i]} Map.empty s s2"
    unfolding grown_def
    using ok2 s2(2,3) br W none ms fc fr s2(4) N(1) tab ps(2) by simp
qed

lemma next_table_spec:
  assumes ok: "pt_ok s" and ps: "valid ps" "length ps \<le> 2" "at_path s ps = Some t" and i: "unat i < 512"
    and enough: "card (missing s {ps @ [i]}) \<le> free_count s"
  shows "\<exists>N s'. next_table t i s = Some (N, s') \<and> at_path s' (ps @ [i]) = Some N \<and> grown {ps @ [i]} Map.empty s s'"
proof (cases "at_path s (ps @ [i])")
  case (Some N)
  then have c: "child (mem s) t i = Some N" using ps(3) by (simp add: walk_snoc)
  then have "next_table t i s = Some (N, s)"
    by (auto simp: next_table_def child_def Let_def getFlag_bit0 getAddress_frame split: if_splits)
  moreover have "missing s {ps @ [i]} = {}" using Some by (auto simp: missing_def)
  ultimately show ?thesis using Some grown_refl [OF ok] by blast
next
  case None
  then have "missing s {ps @ [i]} = {ps @ [i]}" by (auto simp: missing_def)
  then have fc: "0 < free_count s" using enough by simp
  have ar: "alloc_ready s" using ok by (simp add: pt_ok_def)
  obtain k where k: "free_at s k" "fst (RequestPage s) = k * 4096" "k * 4096 div 4096 = k"
      "aligned (k * 4096)" "unat (k * 4096) < 2 ^ 52"
      "\<And>j. free_at (snd (RequestPage s)) j \<longleftrightarrow> free_at s j \<and> j \<noteq> k"
    using RequestPage_some [OF ar fc] by blast
  define s1 where "s1 = snd (RequestPage s)"
  define N where "N = k * 4096"
  define e where "e = new_entry (read64 (mem s) (entry_addr t i)) N"
  define m where "m = stamp 4096 (mem s1) N 0"
  define s2 where "s2 = s1\<lparr>mem := write64 m (entry_addr t i) e\<rparr>"
  have sf: "same_frame s s1" unfolding s1_def by (rule same_frame_RequestPage)
  have nw: "no_wrap s" using ar by (rule alloc_ready_no_wrap)
  have R: "RequestPage s = (N, s1)" using k(2) by (simp add: N_def s1_def prod_eq_iff)
  have "memset (mem s1) N 0 0x1000 = Some m"
    using k(5) by (subst memset_stamps) (simp_all add: N_def m_def)
  moreover have "\<not> bit (read64 (mem s) (entry_addr t i)) 0"
    using None ps(3) by (auto simp: walk_snoc child_def Let_def split: if_splits)
  ultimately have nt: "next_table t i s = Some (N, s2)"
    by (simp add: next_table_def Let_def getFlag_bit0 R s2_def e_def new_entry_def)
  have fN: "frame_of e = N" using k(4,5) by (simp add: e_def frame_new_entry frame_of_small N_def)
  have al: "aligned t" using ok ps(3) walk_aligned by (auto simp: pt_ok_def tree_def)
  have tt: "t \<in> tables (mem s) (PML4 s)" using ps by (auto simp: tables_def)
  have kd: "N div 4096 = k" "aligned N" using k(3,4) by (simp_all add: N_def)
  have tk: "t div 4096 \<noteq> k" using ok tt k(1) by (auto simp: pt_ok_def)
  have bm: "bitmap_region s1 = bitmap_region s" "PageBitmap s1 = PageBitmap s" "no_wrap s1"
    using sf nw by (simp_all add: same_frame_def bitmap_region_def no_wrap_def limit_def)
  have m_other: "m b = mem s1 b" if "b div 4096 \<noteq> k" for b
    using that kd by (simp add: m_def mem_simps page_region)
  have bmem: "mem s2 b = mem s1 b" if b: "b \<in> bitmap_region s1" for b
  proof -
    have "b div 4096 \<noteq> k" "b div 4096 \<noteq> t div 4096" using ok b k(1) tt by (auto simp: pt_ok_def bm)
    then show ?thesis by (simp add: s2_def m_other entry_in_frame [OF al i])
  qed
  have free2: "free_at s2 j \<longleftrightarrow> free_at s j \<and> j \<noteq> N div 4096" for j
    using free_at_mem_cong [OF bm(3), of "mem s2" j] bmem k(6) kd by (simp add: s2_def s1_def)
  have ar2: "alloc_ready s2"
    using alloc_ready_mem_cong [OF bm(3), of "mem s2"] bmem alloc_ready_RequestPage [OF ar]
    by (simp add: s2_def s1_def)
  have P2: "PML4 s2 = PML4 s" "PageBitmap s2 = PageBitmap s"
    using PML4_same_frame [OF sf] bm(2) by (simp_all add: s2_def)
  have zero: "child (mem s2) N j = None" if j: "unat j < 512" for j
  proof -
    have "child (mem s2) N j = child m N j"
      using al kd tk i j by (simp add: s2_def) (rule child_write_other, auto)
    moreover have "read64 m (entry_addr N j) = 0"
      by (rule read64_zero) (use entry_in_page [OF kd(2) j] in \<open>auto simp: m_def mem_simps page_region kd\<close>)
    ultimately show ?thesis by (simp add: child_def)
  qed
  have keep: "mem s2 b = mem s b"
    if "b div 4096 \<noteq> N div 4096" "b \<notin> region (entry_addr t i) 8" "b \<notin> bitmap_region s" for b
    using that kd sf nw by (simp add: s2_def mem_simps m_other same_frame_def)
  have edge: "child (mem s2) t i = Some N"
    by (simp add: s2_def child_write_same fN) (simp add: e_def present_new_entry)
  have fr: "free_at s (N div 4096)" using k(1) kd by simp
  show ?thesis
    using grown_link [OF ok ps i None fr kd(2) ar2 P2 free2 keep edge zero] nt by blast
qed

subsection \<open>Mapping refines an update of the translation\<close>

definition dirs :: "u64 \<Rightarrow> u64 list set" where
  "dirs v = {take 1 (path v), take 2 (path v), take 3 (path v)}"

lemma dir_paths_dirs [simp]: "dir_paths (dirs v)"
  by (auto simp: dir_paths_def dirs_def valid_def dest: in_set_takeD)
    (use valid_path [of v] in \<open>auto simp: valid_def dest: in_set_takeD\<close>)

lemma grown_leaf:
  assumes ok: "pt_ok s" and ps: "valid ps" "length ps = 3" "at_path s ps = Some t" and i: "unat i < 512"
  shows "grown {} [ps @ [i] \<mapsto> frame_of p] s
    (s\<lparr>mem := write64 (mem s) (entry_addr t i) (new_entry (read64 (mem s) (entry_addr t i)) p)\<rparr>)"
    (is "grown _ _ s ?s2")
proof -
  have tr: "tree (mem s) (PML4 s)" using ok by (simp add: pt_ok_def)
  have t: "t \<in> tables (mem s) (PML4 s)" using ps by (auto simp: tables_def)
  have al: "aligned t'" if "t' \<in> tables (mem s) (PML4 s)" for t'
    using that tr walk_aligned [of "PML4 s"] by (auto simp: tables_def tree_def)
  have edge: "child (mem ?s2) t i = Some (frame_of p)"
    by (simp add: child_write_same frame_new_entry present_new_entry)
  have other: "child (mem ?s2) t' j = child (mem s) t' j"
    if "t' \<in> tables (mem s) (PML4 s)" "unat j < 512" "t' \<noteq> t \<or> j \<noteq> i" for t' j
    using that al t i by (simp, intro child_write_other) auto
  have W: "at_path ?s2 qs = (if qs = ps @ [i] then Some (frame_of p) else at_path s qs)"
    if "valid qs" "length qs \<le> 4" for qs
    using walk_link [OF tr ps(1) _ ps(3) i edge other _ that] ps(2) by simp
  have short: "at_path ?s2 qs = at_path s qs" if "valid qs" "length qs \<le> 3" for qs
    using W [of qs] that ps(2) by auto
  then have tab: "tables (mem ?s2) (PML4 ?s2) = tables (mem s) (PML4 s)"
    by (auto simp: tables_def cong: conj_cong)
  have "tree (mem ?s2) (PML4 ?s2)"
    using tr short unfolding tree_def by simp
  moreover have nw: "no_wrap s" using ok by (simp add: pt_ok_def alloc_ready_no_wrap)
  have bmem: "mem ?s2 b = mem s b" if "b \<in> bitmap_region s" for b
  proof -
    have "b div 4096 \<noteq> t div 4096" using ok that t unfolding pt_ok_def by blast
    then show ?thesis using entry_in_frame [OF al [OF t] i, of b] by simp
  qed
  have fr: "free_at ?s2 j = free_at s j" for j
    using free_at_mem_cong [OF nw, of "mem ?s2" j] bmem by simp
  moreover have "alloc_ready ?s2" using ok alloc_ready_mem_cong [OF nw, of "mem ?s2"] bmem by (simp add: pt_ok_def)
  moreover have br: "bitmap_region ?s2 = bitmap_region s" by (simp add: bitmap_region_def)
  ultimately have ok2: "pt_ok ?s2" using ok tab unfolding pt_ok_def by (simp add: bitmap_region_def)
  have "mem ?s2 b = mem s b" if "foreign s b" for b
    using that t entry_in_frame [OF al [OF t] i, of b] by (auto simp: foreign_def)
  moreover have "free_count ?s2 = free_count s" using fr by (simp add: free_count_def)
  ultimately show ?thesis
    unfolding grown_def using ok2 short W tab fr br by (auto simp: missing_def map_add_def)
qed

lemma MapMemory_grown:
  assumes ok: "pt_ok s" and enough: "card (missing s (dirs v)) \<le> free_count s"
  shows "\<exists>s'. MapMemory v p s = Some s' \<and> grown (dirs v) [path v \<mapsto> frame_of p] s s'"
proof -
  define x where "x = pageMapIndexer v"
  define a b c d where "a = PDP_i x" and "b = PD_i x" and "c = PT_i x" and "d = P_i x"
  have P: "path v = [a, b, c, d]" by (simp add: path_def x_def a_def b_def c_def d_def Let_def)
  have V: "unat a < 512" "unat b < 512" "unat c < 512" "unat d < 512" using valid_path [of v] by (simp_all add: P)
  have D: "dirs v = {[a]} \<union> {[a, b]} \<union> {[a, b, c]}" by (auto simp: dirs_def P numeral_2_eq_2 numeral_3_eq_3)
  have dp: "dir_paths {[a]}" "dir_paths {[a, b]}" "dir_paths {[a, b, c]}" "dir_paths ({[a]} \<union> {[a, b]})" "dir_paths {}"
    using V by (simp_all add: dir_paths_def)
  have fin: "finite (missing s (dirs v))" by (simp add: missing_def D)
  have "card (missing s {[a]}) \<le> free_count s"
    using enough card_mono [OF fin, of "missing s {[a]}"] by (force simp: missing_def D)
  then obtain t1 s1 where 1: "next_table (PML4 s) a s = Some (t1, s1)" "at_path s1 [a] = Some t1"
      "grown {[a]} Map.empty s s1"
    using next_table_spec [OF ok, of "[]" "PML4 s" a] V by auto
  have pml: "PML4 s1 = PML4 s" and ok1: "pt_ok s1" using 1 by (simp_all add: grown_def)
  have "card (missing s ({[a]} \<union> {[a, b]})) \<le> free_count s"
    using enough card_mono [OF fin, of "missing s ({[a]} \<union> {[a, b]})"] by (force simp: missing_def D)
  then have "card (missing s1 {[a, b]}) \<le> free_count s1"
    using missing_grown [OF 1(3) dp(1,2)] 1(3) by (simp add: grown_def)
  then obtain t2 s2 where 2: "next_table t1 b s1 = Some (t2, s2)" "at_path s2 [a, b] = Some t2"
      "grown {[a, b]} Map.empty s1 s2"
    using next_table_spec [OF ok1, of "[a]" t1 b] 1(2) V by auto
  have g2: "grown ({[a]} \<union> {[a, b]}) (Map.empty ++ Map.empty) s s2"
    using 1(3) 2(3) dp(1,2) by (rule grown_trans)
  have ok2: "pt_ok s2" using 2 by (simp add: grown_def)
  have "card (missing s2 {[a, b, c]}) \<le> free_count s2"
    using missing_grown [OF g2 dp(4,3)] enough g2 by (simp add: grown_def D)
  then obtain t3 s3 where 3: "next_table t2 c s2 = Some (t3, s3)" "at_path s3 [a, b, c] = Some t3"
      "grown {[a, b, c]} Map.empty s2 s3"
    using next_table_spec [OF ok2, of "[a, b]" t2 c] 2(2) V by auto
  have g3: "grown (dirs v) ((Map.empty ++ Map.empty) ++ Map.empty) s s3"
    unfolding D using g2 3(3) dp(4,3) by (rule grown_trans)
  have ok3: "pt_ok s3" using 3 by (simp add: grown_def)
  define s4 where "s4 = s3\<lparr>mem := write64 (mem s3) (entry_addr t3 d) (new_entry (read64 (mem s3) (entry_addr t3 d)) p)\<rparr>"
  have "grown {} [path v \<mapsto> frame_of p] s3 s4"
    using grown_leaf [OF ok3, of "[a, b, c]" t3 d p] 3(2) V by (simp add: s4_def P)
  from grown_trans [OF g3 this _ dp(5)] have "grown (dirs v) [path v \<mapsto> frame_of p] s s4" by simp
  moreover have "MapMemory v p s = Some s4"
    using 1(1) 2(1) 3(1)
    by (simp add: MapMemory_def Let_def x_def [symmetric] a_def b_def c_def d_def s4_def new_entry_def)
  ultimately show ?thesis by blast
qed

text \<open>What the processor sees of a mapping.\<close>

lemma path_bits: "path v = map (\<lambda>k. take_bit 9 (drop_bit k v)) [39, 30, 21, 12]"
proof -
  have "(x AND 0x1ff :: u64) = take_bit 9 x" for x by (simp add: take_bit_eq_mask mask_eq_exp_minus_1)
  then show ?thesis by (simp add: path_def pageMapIndexer_def Let_def drop_bit_drop_bit)
qed

lemma path_eq_iff: "path v = path w \<longleftrightarrow> (\<forall>n. 12 \<le> n \<and> n < 48 \<longrightarrow> bit v n = bit w n)"
proof
  assume p: "path v = path w"
  show "\<forall>n. 12 \<le> n \<and> n < 48 \<longrightarrow> bit v n = bit w n"
  proof (intro allI impI)
    fix n :: nat assume n: "12 \<le> n \<and> n < 48"
    have "\<exists>k \<in> {12, 21, 30, 39}. k \<le> n \<and> n < k + 9" using n by auto
    then obtain k where k: "k \<in> {12, 21, 30, 39}" "k \<le> n" "n < k + 9" by blast
    have "take_bit 9 (drop_bit k v) = take_bit 9 (drop_bit k w)" using p k(1) by (auto simp: path_bits)
    then have "bit (take_bit 9 (drop_bit k v)) (n - k) = bit (take_bit 9 (drop_bit k w)) (n - k)" by simp
    then show "bit v n = bit w n" using k by (auto simp: bit_simps)
  qed
next
  assume b: "\<forall>n. 12 \<le> n \<and> n < 48 \<longrightarrow> bit v n = bit w n"
  have "take_bit 9 (drop_bit k v) = take_bit 9 (drop_bit k w)" if "12 \<le> k" "k + 9 \<le> 48" for k
    using b that by (intro bit_word_eqI) (auto simp: bit_simps)
  then show "path v = path w" by (simp add: path_bits)
qed

lemma translate_at_path: "translate s v = map_option (\<lambda>p. p OR (v AND 0xfff)) (at_path s (path v))"
  by (simp add: translate_def)

text \<open>Mapping one page changes the translation at that page and nowhere else.\<close>

lemma translate_grown:
  assumes "grown P g s s'"
  shows "translate s' v = (case g (path v) of None \<Rightarrow> translate s v | Some p \<Rightarrow> Some (p OR (v AND 0xfff)))"
proof -
  have "at_path s' (path v) = (at_path s ++ g) (path v)"
    using assms valid_path length_path unfolding grown_def by blast
  then show ?thesis by (simp add: translate_at_path map_add_def split: option.split)
qed

lemma frame_or_offset: "unat v < 2 ^ 52 \<Longrightarrow> frame_of v OR (v AND 0xfff) = v"
proof -
  assume v: "unat v < 2 ^ 52"
  have m: "(0xfff :: u64) = mask 12" by (simp add: mask_eq_exp_minus_1)
  show ?thesis unfolding m
    by (rule bit_word_eqI) (auto simp: bit_frame_of bit_simps not_less dest: small_bits [OF v])
qed

subsection \<open>Mapping a range of pages onto itself\<close>

text \<open>The loops of \<open>PrepareMemory\<close>: \<open>for (i = start; i < stop; i += 0x1000) MapMemory(i, i)\<close>. The
  counter wraps around at the end of the address space, so the loop may run forever.\<close>

partial_function (option) identity_loop :: "u64 \<Rightarrow> u64 \<Rightarrow> 'a ptm_scheme \<Rightarrow> 'a ptm_scheme option" where
  "identity_loop i stop s =
     (if i < stop then do { s \<leftarrow> MapMemory i i s; identity_loop (i + 0x1000) stop s } else Some s)"

definition page_from :: "u64 \<Rightarrow> nat \<Rightarrow> u64" where
  "page_from a k = a + of_nat (4096 * k)"

definition range_dirs :: "u64 \<Rightarrow> nat \<Rightarrow> u64 list set" where
  "range_dirs a n = (\<Union>k < n. dirs (page_from a k))"

definition identity :: "u64 \<Rightarrow> nat \<Rightarrow> u64 list \<Rightarrow> u64 option" where
  "identity a n = fold (\<lambda>k g. g(path (page_from a k) \<mapsto> frame_of (page_from a k))) [0..<n] Map.empty"

lemma identity_Suc: "identity a (Suc n) = identity a n ++ [path (page_from a n) \<mapsto> frame_of (page_from a n)]"
  by (simp add: identity_def)

lemma identity_0 [simp]: "identity a 0 = Map.empty"
  by (simp add: identity_def)

lemma range_dirs_Suc: "range_dirs a (Suc n) = range_dirs a n \<union> dirs (page_from a n)"
  by (auto simp: range_dirs_def less_Suc_eq)

lemma dir_paths_Un: "dir_paths P \<Longrightarrow> dir_paths Q \<Longrightarrow> dir_paths (P \<union> Q)"
  by (auto simp: dir_paths_def)

lemma dir_paths_range [simp]: "dir_paths (range_dirs a n)"
  by (induction n) (auto simp: range_dirs_Suc intro: dir_paths_Un, simp_all add: range_dirs_def dir_paths_def)

lemma missing_mono: "dir_paths Q \<Longrightarrow> P \<subseteq> Q \<Longrightarrow> card (missing s P) \<le> card (missing s Q)"
  by (rule card_mono) (auto simp: missing_def dir_paths_def)

lemma identity_loop_grown:
  assumes "grown (range_dirs a k) (identity a k) s0 s" "k \<le> n"
    and "unat a + 4096 * n < 2 ^ 64" "unat stop \<le> unat a + 4096 * n"
      "\<And>j. j < n \<Longrightarrow> unat a + 4096 * j < unat stop"
    and "card (missing s0 (range_dirs a n)) \<le> free_count s0"
  shows "\<exists>s'. identity_loop (page_from a k) stop s = Some s' \<and> grown (range_dirs a n) (identity a n) s0 s'"
  using assms(1,2)
proof (induction "n - k" arbitrary: k s)
  case 0
  have "unat (page_from a k) = unat a + 4096 * k"
    using 0 assms(3) unfolding page_from_def by (subst unat_add_of_nat) auto
  then have "\<not> page_from a k < stop" using assms(4) 0 by (simp add: word_nat)
  then show ?case using 0 by (subst identity_loop.simps) auto
next
  case (Suc d)
  have u: "unat (page_from a k) = unat a + 4096 * k"
    using Suc assms(3) unfolding page_from_def by (subst unat_add_of_nat) auto
  then have lt: "page_from a k < stop" using assms(5) [of k] Suc by (simp add: word_nat)
  have nxt: "page_from a k + 0x1000 = page_from a (Suc k)" by (simp add: page_from_def algebra_simps)
  have "card (missing s0 (range_dirs a k \<union> dirs (page_from a k))) \<le> free_count s0"
  proof (rule le_trans [OF missing_mono assms(6)])
    show "range_dirs a k \<union> dirs (page_from a k) \<subseteq> range_dirs a n"
      using Suc by (force simp: range_dirs_def)
  qed simp
  then have "card (missing s (dirs (page_from a k))) \<le> free_count s"
    using missing_grown [OF Suc.prems(1), of "dirs (page_from a k)"] Suc.prems(1) by (simp add: grown_def)
  moreover have "pt_ok s" using Suc.prems(1) by (simp add: grown_def)
  ultimately obtain s1 where s1: "MapMemory (page_from a k) (page_from a k) s = Some s1"
      "grown (dirs (page_from a k)) [path (page_from a k) \<mapsto> frame_of (page_from a k)] s s1"
    using MapMemory_grown by blast
  have "grown (range_dirs a (Suc k)) (identity a (Suc k)) s0 s1"
    unfolding range_dirs_Suc identity_Suc using Suc.prems(1) s1(2) by (rule grown_trans) simp_all
  then show ?case
    using Suc.hyps(1) [of "Suc k" s1] Suc.hyps(2) Suc.prems lt s1(1) nxt
    by (subst identity_loop.simps) simp
qed

text \<open>The number of rounds of the loop.\<close>

definition rounds :: "u64 \<Rightarrow> u64 \<Rightarrow> nat" where
  "rounds a stop = (unat stop - unat a + 4095) div 4096"

lemma identity_loop_maps:
  assumes "pt_ok s" "unat a + 4096 * rounds a stop < 2 ^ 64"
    and "card (missing s (range_dirs a (rounds a stop))) \<le> free_count s"
  shows "\<exists>s'. identity_loop a stop s = Some s'
    \<and> grown (range_dirs a (rounds a stop)) (identity a (rounds a stop)) s s'"
proof -
  have g0: "grown (range_dirs a 0) (identity a 0) s s"
    using grown_refl [OF assms(1)] by (simp add: range_dirs_def missing_def)
  have a: "page_from a 0 = a" by (simp add: page_from_def)
  have "unat a + 4096 * j < unat stop" if "j < rounds a stop" for j
    using that unfolding rounds_def by linarith
  then show ?thesis
    using identity_loop_grown [OF g0, of "rounds a stop" stop, unfolded a] assms(2,3)
    by (auto simp: rounds_def)
qed

lemma identity_lookup:
  "identity a n qs = Some p \<Longrightarrow> \<exists>k < n. qs = path (page_from a k) \<and> p = frame_of (page_from a k)"
  by (induction n) (auto simp: identity_Suc less_Suc_eq split: if_splits)

lemma identity_defined: "k < n \<Longrightarrow> identity a n (path (page_from a k)) \<noteq> None"
  by (induction n) (auto simp: identity_Suc less_Suc_eq map_add_def)

lemma path_inj:
  assumes "path v = path w" "unat v < 2 ^ 48" "unat w < 2 ^ 48" "aligned v" "aligned w"
  shows "v = w"
proof (rule bit_word_eqI)
  have small: "bit x n \<Longrightarrow> n < 48" if "unat x < 2 ^ 48" for x :: u64 and n
  proof (rule ccontr)
    assume a: "bit x n" "\<not> n < 48"
    have "take_bit 48 (unat x) = unat x" using that by (simp add: take_bit_nat_eq_self)
    moreover have "bit (unat x) n" using a(1) by (simp add: bit_unsigned_iff bit_imp_le_length)
    ultimately show False using a(2) by (metis bit_take_bit_iff)
  qed
  fix n assume "n < LENGTH(64)"
  show "bit v n = bit w n"
    using assms(1,4,5) small [OF assms(2)] small [OF assms(3)]
    by (cases "12 \<le> n \<and> n < 48") (auto simp: path_eq_iff aligned_bits)
qed

text \<open>A range mapped onto itself is translated to itself, below the 256 TB a walk can name.\<close>

lemma identity_translates:
  assumes g: "grown P (identity a n) s s'" and a: "aligned a" "unat a + 4096 * n \<le> 2 ^ 48"
    and v: "a \<le> v" "unat v < unat a + 4096 * n"
  shows "translate s' v = Some v"
proof -
  define k where "k = (unat v - unat a) div 4096"
  have k: "k < n" "unat a + 4096 * k \<le> unat v" "unat v < unat a + 4096 * k + 4096"
    using v unfolding k_def by (auto simp: word_nat)
  define w where "w = page_from a k"
  have u: "unat (page_from a j) = unat a + 4096 * j" if "j < n" for j
    using that a(2) unfolding page_from_def by (subst unat_add_of_nat) auto
  have pg: "v div 4096 = w div 4096"
    using k u [OF k(1)] a(1) by (auto simp: word_unat_eq_iff unat_div w_def aligned_def)
  have al: "aligned (page_from a j)" if "j < n" for j using u [OF that] a(1) by (simp add: aligned_def mod_add_eq [symmetric])
  have fw: "frame_of v = w"
  proof (rule aligned_eq)
    show "frame_of v div 4096 = w div 4096"
    proof -
      have eq: "v div 4096 = drop_bit 12 v" "frame_of v div 4096 = drop_bit 12 (frame_of v)"
        by (simp_all add: drop_bit_eq_div)
      have small: "unat v < 2 ^ 52" using v(2) a(2) by simp
      have d: "drop_bit 12 (frame_of v) = drop_bit 12 v"
        by (intro bit_word_eqI) (auto simp: bit_simps bit_frame_of dest: small_bits [OF small])
      show ?thesis using pg by (simp add: eq d)
    qed
  qed (use al [OF k(1)] in \<open>simp_all add: aligned_frame_of w_def\<close>)
  have pv: "path v = path w"
    unfolding path_eq_iff fw [symmetric] by (auto simp: bit_frame_of)
  obtain p where p: "identity a n (path w) = Some p" using identity_defined [OF k(1), of a] by (auto simp: w_def)
  then obtain j where j: "j < n" "path w = path (page_from a j)" "p = frame_of (page_from a j)"
    using identity_lookup by blast
  have "w = page_from a j"
    using j(1,2) u [OF k(1)] u [OF j(1)] al [OF k(1)] al [OF j(1)] a(2) k(1) unfolding w_def
    by (intro path_inj) auto
  then have "p = frame_of v" using j(3) fw frame_of_small [of w] al [OF k(1)] u [OF k(1)] a(2) k(1) by (simp add: w_def)
  moreover have "unat v < 2 ^ 52" using v(2) a(2) by simp
  ultimately show ?thesis using translate_grown [OF g, of v] p pv frame_or_offset by simp
qed

lemma frame_of_page: "unat v < 2 ^ 52 \<Longrightarrow> unat (frame_of v) = 4096 * (unat v div 4096)"
proof -
  assume v: "unat v < 2 ^ 52"
  have "frame_of v = push_bit 12 (drop_bit 12 v)"
  proof (rule bit_word_eqI)
    fix n assume "n < LENGTH(64)"
    then show "bit (frame_of v) n = bit (push_bit 12 (drop_bit 12 v)) n"
      by (cases "12 \<le> n") (auto simp: bit_frame_of bit_push_bit_iff bit_drop_bit_eq dest: small_bits [OF v])
  qed
  then have "frame_of v = (v div 4096) * 4096" by (simp add: push_bit_eq_mult drop_bit_eq_div)
  moreover have "unat ((v div 4096) * 4096) = unat v div 4096 * 4096"
  proof -
    have "unat v div 4096 * 4096 \<le> unat v" by simp
    also have "\<dots> < 2 ^ 64" by simp
    finally have "unat v div 4096 * 4096 < 2 ^ 64" .
    then show ?thesis using unat_mult_lem [of "v div 4096" 4096] by (simp add: unat_div)
  qed
  ultimately show ?thesis by simp
qed

lemma identity_elsewhere:
  assumes g: "grown P (identity a n) s s'" and a: "aligned a" "unat a + 4096 * n \<le> 2 ^ 48"
    and v: "unat v < 2 ^ 48" "\<not> (a \<le> v \<and> unat v < unat a + 4096 * n)"
  shows "translate s' v = translate s v"
proof (cases "identity a n (path v)")
  case None
  then show ?thesis using translate_grown [OF g, of v] by simp
next
  case (Some p)
  then obtain j where j: "j < n" "path v = path (page_from a j)" using identity_lookup by blast
  have u: "unat (page_from a j) = unat a + 4096 * j"
    using j(1) a(2) unfolding page_from_def by (subst unat_add_of_nat) auto
  have fv: "unat (frame_of v) = 4096 * (unat v div 4096)" using v(1) by (intro frame_of_page) simp
  have "frame_of v = page_from a j"
  proof (rule path_inj)
    show "path (frame_of v) = path (page_from a j)" unfolding j(2) [symmetric] path_eq_iff by (auto simp: bit_frame_of)
  qed (use u fv a j(1) v(1) in \<open>auto simp: aligned_def\<close>)
  then have "4096 * (unat v div 4096) = unat a + 4096 * j" using u fv by metis
  then have "unat a + 4096 * j \<le> unat v" "unat v < unat a + 4096 * j + 4096" by linarith+
  then show ?thesis using v(2) j(1) by (auto simp: word_nat)
qed

lemma identity_translate:
  assumes "grown P (identity a n) s s'" "aligned a" "unat a + 4096 * n \<le> 2 ^ 48" "unat v < 2 ^ 48"
  shows "translate s' v = (if a \<le> v \<and> unat v < unat a + 4096 * n then Some v else translate s v)"
  using identity_translates [OF assms(1-3)] identity_elsewhere [OF assms] by auto

subsection \<open>An empty root\<close>

lemma fresh_root:
  assumes s: "alloc_ready s" "\<And>b. b \<in> bitmap_region s \<Longrightarrow> \<not> free_at s (b div 4096)" "0 < free_count s"
  shows "\<exists>N s1 m. RequestPage s = (N, s1) \<and> memset (mem s1) N 0 0x1000 = Some m
    \<and> pt_ok (s1\<lparr>mem := m, PML4 := N\<rparr>) \<and> free_count (s1\<lparr>mem := m, PML4 := N\<rparr>) + 1 = free_count s
    \<and> same_frame s s1 \<and> (\<forall>i ps. valid (i # ps) \<longrightarrow> at_path (s1\<lparr>mem := m, PML4 := N\<rparr>) (i # ps) = None)"
proof -
  obtain k where k: "free_at s k" "fst (RequestPage s) = k * 4096" "k * 4096 div 4096 = k"
      "aligned (k * 4096)" "unat (k * 4096) < 2 ^ 52"
      "\<And>j. free_at (snd (RequestPage s)) j \<longleftrightarrow> free_at s j \<and> j \<noteq> k"
    using RequestPage_some [OF s(1,3)] by blast
  define s1 where "s1 = snd (RequestPage s)"
  define N where "N = k * 4096"
  define m where "m = stamp 4096 (mem s1) N 0"
  define s2 where "s2 = s1\<lparr>mem := m, PML4 := N\<rparr>"
  have sf: "same_frame s s1" unfolding s1_def by (rule same_frame_RequestPage)
  have R: "RequestPage s = (N, s1)" using k(2) by (simp add: N_def s1_def prod_eq_iff)
  have ms: "memset (mem s1) N 0 0x1000 = Some m"
    using k(5) by (subst memset_stamps) (simp_all add: N_def m_def)
  have kd: "N div 4096 = k" "aligned N" using k(3,4) by (simp_all add: N_def)
  have m0: "m b = (if b div 4096 = k then 0 else mem s1 b)" for b
    using kd by (simp add: m_def mem_simps page_region)
  have bm: "bitmap_region s1 = bitmap_region s" "no_wrap s1"
    using sf alloc_ready_no_wrap [OF s(1)] by (simp_all add: same_frame_def bitmap_region_def no_wrap_def limit_def)
  have bk: "b div 4096 \<noteq> k" if "b \<in> bitmap_region s" for b using s(2) [OF that] k(1) by metis
  then have same: "m b = mem s1 b" if "b \<in> bitmap_region s1" for b using that by (simp add: m0 bm)
  have free2: "free_at s2 j \<longleftrightarrow> free_at s j \<and> j \<noteq> k" for j
    using free_at_mem_cong [OF bm(2), of m j] same k(6)
    by (simp add: s2_def s1_def free_at_def PageBitmap_Get_def limit_def)
  have "alloc_ready (s1\<lparr>mem := m\<rparr>)"
    using alloc_ready_mem_cong [OF bm(2), of m] same alloc_ready_RequestPage [OF s(1)] by (simp add: s1_def)
  then have ar2: "alloc_ready s2"
    by (simp add: s2_def alloc_ready_def cursor_ok_def PageBitmap_Get_def limit_def)
  have none: "at_path s2 (i # ps) = None" if "valid (i # ps)" for i ps
  proof -
    have "read64 m (entry_addr N i) = 0"
      by (rule read64_zero) (use entry_in_page [OF kd(2), of i] that in \<open>auto simp: m0 kd\<close>)
    then show ?thesis by (simp add: s2_def child_def)
  qed
  then have only: "ps = []" if "valid ps" "at_path s2 ps = Some t" for ps t using that by (cases ps) auto
  have root: "at_path s2 [] = Some N" by (simp add: s2_def)
  have "tables (mem s2) (PML4 s2) = {N}"
  proof (intro equalityI subsetI)
    fix t assume "t \<in> tables (mem s2) (PML4 s2)"
    then obtain ps where "valid ps" "at_path s2 ps = Some t" by (auto simp: tables_def)
    moreover from this have "ps = []" by (rule only)
    ultimately show "t \<in> {N}" using root by simp
  next
    fix t assume "t \<in> {N}"
    then show "t \<in> tables (mem s2) (PML4 s2)" using root by (force simp: tables_def simp del: walk.simps intro: exI [of _ "[]"])
  qed
  moreover have "tree (mem s2) (PML4 s2)"
    unfolding tree_def using only kd(2) by (auto simp: s2_def simp del: walk.simps)
  moreover have "bitmap_region s2 = bitmap_region s" using bm by (simp add: s2_def bitmap_region_def)
  ultimately have "pt_ok s2"
    unfolding pt_ok_def using ar2 free2 s(2) kd bk by auto
  moreover have "{j. free_at s j} = insert k {j. free_at s2 j}" using free2 k(1) by auto
  then have "free_count s2 + 1 = free_count s" using free2 by (simp add: free_count_def card_insert_if)
  ultimately show ?thesis using R ms sf none unfolding s2_def by blast
qed

subsection \<open>A small machine\<close>

text \<open>A bitmap of one byte at 0x10000 in which page zero is taken, and an empty root at 0x9000: the
  state the examples map pages in.\<close>

definition small_machine :: ptm where
  "small_machine = \<lparr>mem = (\<lambda>a. if a = 0x10000 then 0x80 else 0), memoryMapSize = 0x8000,
     PageBitmap = \<lparr>bm_size = 1, bm_Buffer = 0x10000\<rparr>, allocatedMemory = 0, reservedMemory = 0,
     freeMemory = 0x8000, isInitialized = True, bitmapIndex = 0, PML4 = 0x9000\<rparr>"

lemma small_machine_free: "free_at small_machine i \<longleftrightarrow> i < 8 \<and> i \<noteq> 0"
proof (cases "i < 8")
  case True
  then have u: "unat i < 8" by (simp add: word_nat)
  have d: "i div 8 = 0" using u by (simp add: word_unat_eq_iff unat_div)
  have "unat i = 0 \<or> unat i = 1 \<or> unat i = 2 \<or> unat i = 3 \<or> unat i = 4 \<or> unat i = 5 \<or> unat i = 6 \<or> unat i = 7"
    using u by arith
  then have "bit (0x80 :: u8) (7 - unat i mod 8) \<longleftrightarrow> unat i = 0" by (elim disjE) simp_all
  moreover have "unat i = 0 \<longleftrightarrow> i = 0" by (simp add: unat_eq_zero)
  moreover have "i \<le> 8" using True by simp
  ultimately have "PageBitmap_Get small_machine i \<longleftrightarrow> i = 0"
    by (simp add: small_machine_def PageBitmap_Get_def Bitmap_Get_bit d)
  then show ?thesis using True by (simp add: free_at_def limit_def small_machine_def)
qed (simp add: free_at_def limit_def small_machine_def)

lemma small_machine_walk: "valid ps \<Longrightarrow> at_path small_machine ps = (if ps = [] then Some 0x9000 else None)"
proof (cases ps)
  case (Cons i "is")
  assume "valid ps"
  then have i: "unat i < 512" using Cons by simp
  have "aligned 0x9000" by (simp add: aligned_def)
  then have "read64 (mem small_machine) (entry_addr 0x9000 i) = 0"
    using i by (intro read64_zero) (auto dest!: entry_in_page simp: small_machine_def)
  then show ?thesis using Cons by (simp add: child_def) (simp add: small_machine_def child_def)
qed (simp add: small_machine_def)

lemma small_machine_tables: "tables (mem small_machine) (PML4 small_machine) = {0x9000}"
proof -
  have "at_path small_machine [] = Some 0x9000" by (simp add: small_machine_def)
  then show ?thesis
    by (auto simp: tables_def small_machine_walk simp del: walk.simps split: if_splits intro!: exI [of _ "[]"])
qed

lemma small_machine_ok: "pt_ok small_machine"
proof -
  have "cursor_ok small_machine" by (simp add: cursor_ok_def small_machine_def)
  moreover have "limit small_machine = 8" by (simp add: limit_def small_machine_def)
  moreover have "PageBitmap_Get small_machine 0"
    by (simp add: PageBitmap_Get_def Bitmap_Get_bit small_machine_def)
  ultimately have "alloc_ready small_machine" by (simp add: alloc_ready_def small_machine_def)
  moreover have "tree (mem small_machine) (PML4 small_machine)"
    unfolding tree_def by (auto simp: small_machine_walk split: if_splits) (simp add: aligned_def small_machine_def)
  moreover have "b div 4096 = 0x10" if "b \<in> bitmap_region small_machine" for b
    using entry_slot(1) [of "0x10000" 0 b] that
    by (simp add: bitmap_region_def small_machine_def entry_addr_def region_def aligned_def word_unat_eq_iff unat_div)
  ultimately show ?thesis
    unfolding pt_ok_def small_machine_tables small_machine_free by auto
qed

lemma small_machine_free_count: "3 \<le> free_count small_machine"
proof -
  have "card {1, 2, 3 :: u64} \<le> free_count small_machine"
    unfolding free_count_def small_machine_free by (rule card_mono) auto
  then show ?thesis by simp
qed

lemma card_dirs: "card (missing s (dirs v)) \<le> 3"
proof -
  have "card (missing s (dirs v)) \<le> card (dirs v)" by (rule card_mono) (auto simp: dirs_def missing_def)
  also have "\<dots> \<le> 3"
    unfolding dirs_def by (rule card_insert_le_m1; simp?)+
  finally show ?thesis .
qed

subsection \<open>Properties\<close>

text \<open>C3: When the allocator is ready and has the pages for the tables that are missing on the way,
  \<open>MapMemory v p\<close> returns; afterwards the processor translates every address of the page of \<open>v\<close>
  into the page of \<open>p\<close>, translates every other address as before, the tables are a tree of pages
  the allocator holds again, exactly the missing tables were taken from the allocator, and no byte
  of a page in use by anybody else has changed.\<close>

theorem MapMemory_translates:
  assumes "pt_ok s" "card (missing s (dirs v)) \<le> free_count s"
  shows "\<exists>s'. MapMemory v p s = Some s' \<and> pt_ok s'
    \<and> (\<forall>w. translate s' w = (if path w = path v then Some (frame_of p OR (w AND 0xfff)) else translate s w))
    \<and> free_count s' + card (missing s (dirs v)) = free_count s
    \<and> (\<forall>b. foreign s b \<longrightarrow> mem s' b = mem s b)"
proof -
  obtain s' where s': "MapMemory v p s = Some s'" "grown (dirs v) [path v \<mapsto> frame_of p] s s'"
    using MapMemory_grown [OF assms] by blast
  then have "pt_ok s'" "free_count s' + card (missing s (dirs v)) = free_count s"
    "\<forall>b. foreign s b \<longrightarrow> mem s' b = mem s b" unfolding grown_def by blast+
  then show ?thesis using s'(1) translate_grown [OF s'(2)] by auto
qed

theorem MapMemory_translates_witness:
  "\<exists>s'. MapMemory 0x40000000 0x5000 small_machine = Some s' \<and> translate s' 0x40000123 = Some 0x5123"
proof -
  have "card (missing small_machine (dirs 0x40000000)) \<le> free_count small_machine"
    using card_dirs small_machine_free_count by (rule le_trans)
  moreover have "path 0x40000123 = path 0x40000000" by (simp add: path_def pageMapIndexer_def Let_def drop_bit_eq_div)
  moreover have "frame_of 0x5000 OR (0x40000123 AND 0xfff) = 0x5123" by (simp add: frame_of_def)
  ultimately show ?thesis
    using MapMemory_translates [OF small_machine_ok, of "0x40000000" "0x5000"] by (metis (no_types, lifting))
qed

text \<open>Two addresses have the same path through the tables exactly when they agree on bits 12 to
  47: the page map indexer splits an address into four 9-bit indices that lose nothing of the page.\<close>

theorem pageMapIndexer_splits:
  "pageMapIndexer v = pageMapIndexer w \<longleftrightarrow> (\<forall>n. 12 \<le> n \<and> n < 48 \<longrightarrow> bit v n = bit w n)"
  unfolding path_eq_iff [symmetric] path_def Let_def
  by (cases "pageMapIndexer v", cases "pageMapIndexer w") auto

theorem pageMapIndexer_splits_witness: "pageMapIndexer 0xffff800000001234 = pageMapIndexer 0x800000001fff"
proof -
  define v w :: u64 where "v = 0xffff800000001234" and "w = 0x800000001fff"
  have e: "drop_bit 12 (take_bit 48 v) = drop_bit 12 (take_bit 48 w)"
    by (simp add: v_def w_def drop_bit_eq_div take_bit_eq_mod)
  have "\<forall>n. 12 \<le> n \<and> n < 48 \<longrightarrow> bit v n = bit w n"
  proof (intro allI impI)
    fix n :: nat assume n: "12 \<le> n \<and> n < 48"
    have "bit (drop_bit 12 (take_bit 48 v)) (n - 12) = bit (drop_bit 12 (take_bit 48 w)) (n - 12)" by (simp add: e)
    then show "bit v n = bit w n" using n by (simp add: bit_simps)
  qed
  then show ?thesis unfolding v_def w_def by (rule pageMapIndexer_splits [THEN iffD2])
qed

text \<open>\<open>getAddress\<close> reads back the low 40 bits of what \<open>setAddress\<close> stored, and neither the
  address update touches the flag bits nor a flag update of the flags in use touches the address.\<close>

theorem entry_fields_independent:
  "getAddress (setAddress e a) = a AND 0x000000ffffffffff
   \<and> setAddress e a AND 0xfff0000000000fff = e AND 0xfff0000000000fff
   \<and> getAddress (setFlag e f x) = getAddress e"
proof (intro conjI)
  show "getAddress (setAddress e a) = a AND 0x000000ffffffffff" by (rule getAddress_setAddress)
  show "setAddress e a AND 0xfff0000000000fff = e AND 0xfff0000000000fff"
    by (rule bit_word_eqI) (auto simp: bit_setAddress bit_and_iff bit_mask_rest simp del: bit_numeral_word_iff)
  have f: "PT_Flags_value f < 12 \<or> PT_Flags_value f = 63" by (cases f) simp_all
  show "getAddress (setFlag e f x) = getAddress e"
    by (rule bit_word_eqI) (use f in \<open>auto simp: bit_getAddress bit_setFlag\<close>)
qed

text \<open>\<open>getFlag\<close> reads bit zero whatever flag it is asked for, so it is right for \<open>Present\<close>, the one
  flag the code reads, and after \<open>setFlag\<close> it sees the new value of \<open>Present\<close> only.\<close>

theorem getFlag_reads_present:
  "getFlag v f = getFlag v Present
   \<and> getFlag (setFlag v f x) g = (if f = Present then x else getFlag v Present)"
proof
  show "getFlag v f = getFlag v Present" by (simp add: getFlag_bit0)
  have "PT_Flags_value f = 0 \<longleftrightarrow> f = Present" by (cases f) simp_all
  then show "getFlag (setFlag v f x) g = (if f = Present then x else getFlag v Present)"
    by (auto simp: getFlag_bit0 bit_setFlag)
qed

end
