(* ===== verification/KernelMemory.thy ===== *)
theory KernelMemory
  imports PageTables
begin

text \<open>
  \<open>PrepareMemory\<close> of \<open>kernel/src/kernelUtil.cpp\<close> with \<open>enablePaging.asm\<close>: the kernel reads the
  firmware's memory map, takes its own pages, makes an empty root table, maps all of memory and the
  frame buffer onto themselves and switches the processor to the new tables. The boot information is
  the record the boot loader hands over; the two linker symbols are arguments.
\<close>

record FrameBuffer =
  BaseAddress :: u64
  BufferSize :: u64
  Width :: u32
  Height :: u32
  PixelsPerScanline :: u32

record BootInfo =
  bi_frameBuffer :: FrameBuffer
  bi_font :: u64
  bi_memoryMap :: u64
  bi_mapSize :: u64
  bi_descriptorSize :: u64
  bi_rsdp :: u64

record paging_cpu = ptm +
  cr0 :: u64
  cr3 :: u64
  cr4 :: u64

text \<open>The immediate operand of \<open>or rax, imm\<close> is a 32-bit word extended with its sign, so
  \<open>1 << 31\<close> also sets the bits 63 to 32 of CR0, which are reserved. A processor that checks them
  (\<open>strict\<close>) faults on the write and the function does not return; other machines, such as
  emulators, take the value.\<close>

definition or_imm32 :: "u64 \<Rightarrow> u32 \<Rightarrow> u64" where
  "or_imm32 rax imm = rax OR scast imm"

definition mov_cr0 :: "bool \<Rightarrow> u64 \<Rightarrow> 'a paging_cpu_scheme \<Rightarrow> 'a paging_cpu_scheme option" where
  "mov_cr0 strict rax s = (if strict \<and> drop_bit 32 rax \<noteq> 0 then None else Some (s\<lparr>cr0 := rax\<rparr>))"

definition enablePaging :: "bool \<Rightarrow> u64 \<Rightarrow> 'a paging_cpu_scheme \<Rightarrow> 'a paging_cpu_scheme option" where
  "enablePaging strict table s =
     (let s = s\<lparr>cr3 := table\<rparr>;
          s = s\<lparr>cr4 := or_imm32 (cr4 s) (push_bit 5 1)\<rparr>;
          rax = or_imm32 (cr0 s) (push_bit 31 1);
          rax = or_imm32 rax (push_bit 16 1)
      in mov_cr0 strict rax s)"

definition PrepareMemory ::
  "bool \<Rightarrow> BootInfo \<Rightarrow> u64 \<Rightarrow> u64 \<Rightarrow> 'a paging_cpu_scheme \<Rightarrow> 'a paging_cpu_scheme option" where
  "PrepareMemory strict bootInfo kernelStart kernelEnd s =
     (if bi_descriptorSize bootInfo = 0 then None
      else do {
        let entries = bi_mapSize bootInfo div bi_descriptorSize bootInfo;
        let s = s\<lparr>PageBitmap := \<lparr>bm_size = 0, bm_Buffer = 0\<rparr>\<rparr>;
        s \<leftarrow> ReadEfiMemoryMap (bi_memoryMap bootInfo) (bi_mapSize bootInfo) (bi_descriptorSize bootInfo) s;
        (memSize, s) \<leftarrow> GetMemorySize (bi_memoryMap bootInfo) entries (bi_descriptorSize bootInfo) s;
        let kernelSize = kernelEnd - kernelStart;
        let pages = kernelSize div 4096 + 1;
        let s = AllocatePages kernelStart pages s;
        let (root, s) = RequestPage s;
        m \<leftarrow> memset (mem s) root 0 0x1000;
        let s = s\<lparr>mem := m, PML4 := root\<rparr>;
        s \<leftarrow> identity_loop 0 memSize s;
        let frameBufferBase = BaseAddress (bi_frameBuffer bootInfo);
        let frameBufferSize = BufferSize (bi_frameBuffer bootInfo) + 0x1000;
        let s = AllocatePages frameBufferBase (frameBufferSize div 0x1000 + 1) s;
        s \<leftarrow> identity_loop frameBufferBase (frameBufferBase + frameBufferSize) s;
        enablePaging strict root s
      })"

text \<open>The value written to CR0 always has its upper half set.\<close>

lemma enablePaging_eq:
  "enablePaging strict table s =
     (if strict then None
      else Some (s\<lparr>cr3 := table, cr4 := cr4 s OR 0x20, cr0 := cr0 s OR 0xFFFFFFFF80010000\<rparr>))"
proof -
  have imm: "(scast (push_bit 31 1 :: u32) :: u64) = 0xFFFFFFFF80000000" "(scast (push_bit 16 1 :: u32) :: u64) = 0x10000"
    "(scast (push_bit 5 1 :: u32) :: u64) = 0x20" by simp_all
  have v: "or_imm32 (or_imm32 c (push_bit 31 1)) (push_bit 16 1) = c OR 0xFFFFFFFF80010000" for c
    unfolding or_imm32_def imm by (simp add: or.assoc)
  have "bit (drop_bit 32 (c OR 0xFFFFFFFF80010000 :: u64)) 0" for c
    by (simp add: bit_simps)
  then have "drop_bit 32 (c OR 0xFFFFFFFF80010000 :: u64) \<noteq> 0" for c by (metis bit_0_eq bot_apply bot_bool_def)
  then show ?thesis
    unfolding enablePaging_def Let_def mov_cr0_def v by (simp add: or_imm32_def imm)
qed

subsection \<open>The state after the map is read\<close>

definition boot_descriptors :: "BootInfo \<Rightarrow> memory \<Rightarrow> EFI_MEMORY_DESCRIPTOR list" where
  "boot_descriptors b m =
     map_entries m (bi_memoryMap b) (bi_descriptorSize b) (bi_mapSize b div bi_descriptorSize b)"

definition boot_segment :: "BootInfo \<Rightarrow> memory \<Rightarrow> u64" where
  "boot_segment b m =
     fst (largest_segment (boot_descriptors b m))"

definition bitmap_bytes :: "u64 \<Rightarrow> u64" where
  "bitmap_bytes memSize = memSize div 4096 div 8 + 1"

text \<open>The pages free once the kernel's own pages are taken.\<close>

definition boot_free :: "BootInfo \<Rightarrow> u64 \<Rightarrow> u64 \<Rightarrow> memory \<Rightarrow> u64 set" where
  "boot_free b kernelStart kernelEnd m =
     {j. j < bitmap_bytes (map_bytes (boot_descriptors b m)) * 8
         \<and> \<not> boot_used (boot_descriptors b m) (boot_segment b m) j
         \<and> \<not> page_range kernelStart ((kernelEnd - kernelStart) div 4096 + 1) j}"

text \<open>What the boot loader has to hand over: a map the allocator can be built from (which bounds
  memory by 64 TB), a frame buffer on a page boundary beyond that memory, and enough free pages for the
  page tables.\<close>

definition frame_rounds :: "BootInfo \<Rightarrow> nat" where
  "frame_rounds b = (unat (BufferSize (bi_frameBuffer b)) + 0x1000 + 4095) div 4096"

definition boot_ok :: "BootInfo \<Rightarrow> u64 \<Rightarrow> u64 \<Rightarrow> 'a paging_cpu_scheme \<Rightarrow> bool" where
  "boot_ok b kernelStart kernelEnd s \<longleftrightarrow>
     (let memSize = map_bytes (boot_descriptors b (mem s)); fb = bi_frameBuffer b
      in boot_map_ok (bi_memoryMap b) (bi_mapSize b) (bi_descriptorSize b) s
       \<and> aligned (boot_segment b (mem s))
       \<and> unat memSize < 2 ^ 47 \<and> 0 < memSize
       \<and> range_ok kernelStart ((kernelEnd - kernelStart) div 4096 + 1)
       \<and> aligned (BaseAddress fb)
       \<and> unat (BaseAddress fb) + 4096 * (frame_rounds b + 1) \<le> 2 ^ 48
       \<and> bitmap_bytes memSize * 8 < BaseAddress fb div 4096
       \<and> 1 + card (range_dirs 0 (rounds 0 memSize) \<union> range_dirs (BaseAddress fb) (frame_rounds b))
           \<le> card (boot_free b kernelStart kernelEnd (mem s)))"

text \<open>The bitmap lies in pages that the allocator holds.\<close>

lemma bitmap_pages:
  assumes a: "aligned seg" and r: "range_ok seg (n div 4096 + 1)" and b: "b \<in> region seg (unat n + 1)"
  shows "page_range seg (n div 4096 + 1) (b div 4096)"
proof -
  define d where "d = unat (b - seg)"
  have d: "d \<le> unat n" using b by (simp add: region_def d_def)
  define q where "q = unat seg div 4096"
  have s: "unat seg = 4096 * q" using a by (auto simp: aligned_def q_def)
  have n1: "unat (n div 4096 + 1) = unat n div 4096 + 1"
    using unat_page_index [of n] by (subst unat_add_no_wrap) (simp_all add: unat_div)
  have q: "q + unat n div 4096 + 1 \<le> 2 ^ 52" using r n1 by (simp add: range_ok_def unat_div q_def)
  have "unat seg + d < 2 ^ 64" using q d s by simp
  moreover have "b = seg + of_nat d" by (simp add: d_def)
  ultimately have "unat b = 4096 * q + d" using unat_add_of_nat [of seg d] s by simp
  moreover have "d div 4096 \<le> unat n div 4096" using d by (rule div_le_mono)
  ultimately show ?thesis
    unfolding page_range_nat [OF r] n1 by (simp add: unat_div q_def [symmetric])
qed

lemma untracked_noop:
  assumes r: "range_ok a n" and out: "limit s < a div 4096"
  shows "AllocatePages a n s = s"
  unfolding AllocatePages_def Let_def
proof (rule for_u64_keeps [where P = "\<lambda>t. t = s"])
  fix k t assume k: "a div 4096 \<le> k" "k < a div 4096 + n" and t: "t = s"
  have "unat k < 2 ^ 52" using k(2) range_ok_bound [OF r] by (simp add: word_nat)
  then have "k * 4096 div 4096 = k" by (rule page_index_mult)
  moreover have "\<not> tracked s k" using k(1) out by (simp add: tracked_def not_le less_le_trans)
  ultimately show "AllocatePage (k * 4096) t = s"
    using t pages.get_out [of s k] pages.put_out [of s k True] by (simp add: AllocatePage_def Let_def)
qed simp

text \<open>After the firmware's map is read and the kernel's pages are taken, the allocator is ready, holds
  the bitmap and offers exactly the free pages named above.\<close>

lemma booted:
  fixes s :: "'a pfa_scheme" and kernelStart kernelEnd :: u64
  defines "t \<equiv> AllocatePages kernelStart ((kernelEnd - kernelStart) div 4096 + 1)"
  assumes m: "boot_map_ok (bi_memoryMap b) (bi_mapSize b) (bi_descriptorSize b) s"
    and seg: "aligned (boot_segment b (mem s))"
    and size: "unat (map_bytes (boot_descriptors b (mem s))) < 2 ^ 47" "0 < map_bytes (boot_descriptors b (mem s))"
    and k: "range_ok kernelStart ((kernelEnd - kernelStart) div 4096 + 1)"
  shows "\<exists>u. ReadEfiMemoryMap (bi_memoryMap b) (bi_mapSize b) (bi_descriptorSize b) s = Some u
    \<and> memoryMapSize u = map_bytes (boot_descriptors b (mem s)) \<and> alloc_ready (t u)
    \<and> (\<forall>b \<in> bitmap_region (t u). \<not> free_at (t u) (b div 4096))
    \<and> {j. free_at (t u) j} = boot_free b kernelStart kernelEnd (mem s)
    \<and> limit (t u) = bitmap_bytes (map_bytes (boot_descriptors b (mem s))) * 8"
proof -
  let ?ds = "boot_descriptors b (mem s)" and ?seg = "boot_segment b (mem s)"
  let ?size = "bitmap_bytes (map_bytes ?ds)"
  obtain u where u: "ReadEfiMemoryMap (bi_memoryMap b) (bi_mapSize b) (bi_descriptorSize b) s = Some u"
      "PageBitmap u = \<lparr>bm_size = ?size, bm_Buffer = ?seg\<rparr>" "memoryMapSize u = map_bytes ?ds"
      "no_wrap u" "cursor_ok u" "\<forall>j < limit u. PageBitmap_Get u j \<longleftrightarrow> boot_used ?ds ?seg j"
    using ReadEfiMemoryMap_bitmap [OF m] unfolding boot_descriptors_def boot_segment_def bitmap_bytes_def by blast
  have segok: "range_ok ?seg (?size div 4096 + 1)"
    using m by (simp add: boot_map_ok_def Let_def boot_descriptors_def boot_segment_def bitmap_bytes_def)
  note sz = bitmap_size_bounds [of "map_bytes ?ds", folded bitmap_bytes_def]
  have bm: "PageBitmap (t u) = PageBitmap u" by (simp add: t_def frame_simps)
  then have lim: "limit (t u) = ?size * 8" by (simp add: limit_def u(2))
  have used: "PageBitmap_Get (t u) j \<longleftrightarrow> boot_used ?ds ?seg j
      \<or> page_range kernelStart ((kernelEnd - kernelStart) div 4096 + 1) j" if "j < limit (t u)" for j
    using that u(6) lim u(2) unfolding t_def used_range [OF k] by (auto simp: tracked_def limit_def)
  have free: "{j. free_at (t u) j} = boot_free b kernelStart kernelEnd (mem s)"
    using used by (auto simp: free_at_def boot_free_def lim)
  have sb: "unat (?size * 8) \<le> 2 ^ 40" "0 < unat (?size * 8)" using sz(2,3) size(1) by simp_all
  then have zero: "0 < limit (t u)" by (simp add: lim word_nat)
  then have "PageBitmap_Get (t u) 0" using used [of 0] by (simp add: boot_used_def)
  moreover have "cursor_ok (t u)" unfolding t_def using u(5) by (rule cursor_ok_range)
  ultimately have ar: "alloc_ready (t u)" using sb zero sz(3) by (simp add: alloc_ready_def bm u(2) lim)
  have "\<not> free_at (t u) (x div 4096)" if "x \<in> bitmap_region (t u)" for x
  proof -
    have "page_range ?seg (?size div 4096 + 1) (x div 4096)"
      using that by (intro bitmap_pages [OF seg segok]) (simp add: bitmap_region_def bm u(2))
    then have "boot_used ?ds ?seg (x div 4096)" by (simp add: boot_used_def bitmap_bytes_def)
    then show ?thesis using used by (auto simp: free_at_def)
  qed
  then show ?thesis using u(1,3) ar free lim by blast
qed

text \<open>The two loops of \<open>PrepareMemory\<close>, from an empty root.\<close>

lemma both_loops:
  assumes ok: "pt_ok s" and empty: "\<And>i ps. valid (i # ps) \<Longrightarrow> at_path s (i # ps) = None"
    and n: "n1 = rounds 0 stop" "n2 = rounds fb (fb + len)"
    and b1: "4096 * n1 \<le> 2 ^ 48" and b2: "aligned fb" "unat fb + 4096 * n2 \<le> 2 ^ 48"
    and out: "range_ok fb n" "limit s < fb div 4096"
    and enough: "card (range_dirs 0 n1 \<union> range_dirs fb n2) \<le> free_count s"
  shows "\<exists>s1 s2. identity_loop 0 stop s = Some s1 \<and> identity_loop fb (fb + len) (AllocatePages fb n s1) = Some s2
    \<and> pt_ok s2 \<and> PML4 s2 = PML4 s
    \<and> (\<forall>v. unat v < 2 ^ 48 \<longrightarrow> translate s2 v =
         (if unat v < 4096 * n1 \<or> fb \<le> v \<and> unat v < unat fb + 4096 * n2 then Some v else None))"
proof -
  have le: "card (missing s P) \<le> card (range_dirs 0 n1 \<union> range_dirs fb n2)"
    if "P \<subseteq> range_dirs 0 n1 \<union> range_dirs fb n2" for P
  proof (rule card_mono)
    show "finite (range_dirs 0 n1 \<union> range_dirs fb n2)"
      using dir_paths_range [of 0 n1] dir_paths_range [of fb n2] by (simp add: dir_paths_def)
  qed (use that in \<open>auto simp: missing_def\<close>)
  have bound1: "unat (0 :: u64) + 4096 * n1 < 2 ^ 64" and bound2: "unat fb + 4096 * n2 < 2 ^ 64"
    using b1 b2(2) by simp_all
  have card1: "card (missing s (range_dirs 0 n1)) \<le> free_count s"
    using le [OF Un_upper1] enough by (rule le_trans)
  obtain s1 where s1: "identity_loop 0 stop s = Some s1" "grown (range_dirs 0 n1) (identity 0 n1) s s1"
    using identity_loop_maps [OF ok, of 0 stop, folded n(1), OF bound1 card1] by blast
  have ok1: "pt_ok s1" and bm: "PageBitmap s1 = PageBitmap s"
    and fc: "free_count s1 + card (missing s (range_dirs 0 n1)) = free_count s"
    using s1(2) unfolding grown_def by blast+
  have no: "AllocatePages fb n s1 = s1" using out bm by (intro untracked_noop) (simp_all add: limit_def)
  have "card (missing s (range_dirs 0 n1 \<union> range_dirs fb n2)) \<le> free_count s"
    using le [OF subset_refl] enough by (rule le_trans)
  then have "card (missing s1 (range_dirs fb n2)) \<le> free_count s1"
    using missing_grown [OF s1(2), of "range_dirs fb n2"] fc by simp
  then obtain s2 where s2: "identity_loop fb (fb + len) s1 = Some s2"
      "grown (range_dirs fb n2) (identity fb n2) s1 s2"
    using identity_loop_maps [OF ok1, of fb "fb + len", folded n(2), OF bound2] by blast
  have ok2: "pt_ok s2" "PML4 s2 = PML4 s" using s1(2) s2(2) unfolding grown_def by auto
  have none: "translate s v = None" for v
    using empty [of "hd (path v)" "tl (path v)"] valid_path [of v] length_path [of v]
    by (cases "path v") (simp_all add: translate_at_path)
  have "translate s2 v = (if unat v < 4096 * n1 \<or> fb \<le> v \<and> unat v < unat fb + 4096 * n2 then Some v else None)"
    if v: "unat v < 2 ^ 48" for v
    using identity_translate [OF s1(2) _ _ v] identity_translate [OF s2(2) b2 v] b1 none
    by (simp add: aligned_def)
  then show ?thesis using s1(1) s2(1) no ok2 by auto
qed

lemma PrepareMemory_maps:
  fixes s :: "'a paging_cpu_scheme"
  assumes ok: "boot_ok b kernelStart kernelEnd s"
  defines "fb \<equiv> BaseAddress (bi_frameBuffer b)" and "memSize \<equiv> map_bytes (boot_descriptors b (mem s))"
  shows "if strict then PrepareMemory strict b kernelStart kernelEnd s = None
    else \<exists>t. PrepareMemory strict b kernelStart kernelEnd s = Some t \<and> pt_ok t
    \<and> cr3 t = PML4 t \<and> bit (cr0 t) 31 \<and> bit (cr4 t) 5
    \<and> (\<forall>v. unat v < 2 ^ 48 \<longrightarrow> translate t v =
         (if unat v < 4096 * rounds 0 memSize \<or> fb \<le> v \<and> unat v < unat fb + 4096 * frame_rounds b
          then Some v else None))"
proof -
  let ?s0 = "s\<lparr>PageBitmap := \<lparr>bm_size = 0, bm_Buffer = 0\<rparr>\<rparr>"
  let ?size = "BufferSize (bi_frameBuffer b) + 0x1000"
  let ?pages = "(kernelEnd - kernelStart) div 4096 + 1"
  have o: "boot_map_ok (bi_memoryMap b) (bi_mapSize b) (bi_descriptorSize b) s"
    "aligned (boot_segment b (mem s))" "unat memSize < 2 ^ 47" "0 < memSize" "range_ok kernelStart ?pages"
    "aligned fb" "unat fb + 4096 * (frame_rounds b + 1) \<le> 2 ^ 48" "bitmap_bytes memSize * 8 < fb div 4096"
    "1 + card (range_dirs 0 (rounds 0 memSize) \<union> range_dirs fb (frame_rounds b))
       \<le> card (boot_free b kernelStart kernelEnd (mem s))"
    using ok unfolding boot_ok_def Let_def fb_def memSize_def by blast+
  have o0: "boot_map_ok (bi_memoryMap b) (bi_mapSize b) (bi_descriptorSize b) ?s0"
    using o(1) by (simp add: boot_map_ok_def)
  have m0: "mem ?s0 = mem s" by simp
  obtain u where u: "ReadEfiMemoryMap (bi_memoryMap b) (bi_mapSize b) (bi_descriptorSize b) ?s0 = Some u"
      "memoryMapSize u = memSize" "alloc_ready (AllocatePages kernelStart ?pages u)"
      "\<forall>x \<in> bitmap_region (AllocatePages kernelStart ?pages u). \<not> free_at (AllocatePages kernelStart ?pages u) (x div 4096)"
      "{j. free_at (AllocatePages kernelStart ?pages u) j} = boot_free b kernelStart kernelEnd (mem s)"
      "limit (AllocatePages kernelStart ?pages u) = bitmap_bytes memSize * 8"
    using booted [OF o0, unfolded m0, OF o(2)] o(3-5) unfolding memSize_def by blast
  define v where "v = AllocatePages kernelStart ?pages u"
  note v = u(3-6) [folded v_def]
  have fc: "1 + card (range_dirs 0 (rounds 0 memSize) \<union> range_dirs fb (frame_rounds b)) \<le> free_count v"
    using o(9) v(3) by (simp add: free_count_def)
  then have "0 < free_count v" by simp
  then obtain N w m where w: "RequestPage v = (N, w)" "memset (mem w) N 0 0x1000 = Some m"
      "pt_ok (w\<lparr>mem := m, PML4 := N\<rparr>)" "free_count (w\<lparr>mem := m, PML4 := N\<rparr>) + 1 = free_count v" "same_frame v w"
      "\<And>i ps. valid (i # ps) \<Longrightarrow> at_path (w\<lparr>mem := m, PML4 := N\<rparr>) (i # ps) = None"
    using fresh_root [OF v(1)] v(2) by blast
  define x where "x = w\<lparr>mem := m, PML4 := N\<rparr>"
  have lim: "limit x = limit v" using w(5) by (simp add: x_def same_frame_def limit_def)
  have fr: "4096 * frame_rounds b \<le> 2 ^ 48" using o(7) by simp
  have bs: "unat (BufferSize (bi_frameBuffer b)) + 0x1000 \<le> 4096 * frame_rounds b"
    unfolding frame_rounds_def by linarith
  have us: "unat ?size = unat (BufferSize (bi_frameBuffer b)) + 0x1000"
    using bs fr by (subst unat_add_no_wrap) simp_all
  have uf: "unat (fb + ?size) = unat fb + unat ?size"
    using bs us o(7) by (subst unat_add_no_wrap) simp_all
  have n2: "frame_rounds b = rounds fb (fb + ?size)" unfolding rounds_def uf us frame_rounds_def by simp
  have n1: "4096 * rounds 0 memSize \<le> 2 ^ 48" using o(3) unfolding rounds_def by simp
  have d: "unat (?size div 0x1000) = unat ?size div 4096" by (simp add: unat_div)
  have cnt: "unat (?size div 0x1000 + 1) = unat ?size div 4096 + 1"
    using d us bs fr by (subst unat_add_no_wrap) auto
  have rng: "range_ok fb (?size div 0x1000 + 1)"
    using o(7) bs unfolding range_ok_def cnt us by (simp add: unat_div)
  obtain s1 s2 where l: "identity_loop 0 memSize x = Some s1"
      "identity_loop fb (fb + ?size) (AllocatePages fb (?size div 0x1000 + 1) s1) = Some s2"
      "pt_ok s2" "PML4 s2 = PML4 x"
      "\<forall>v. unat v < 2 ^ 48 \<longrightarrow> translate s2 v =
         (if unat v < 4096 * rounds 0 memSize \<or> fb \<le> v \<and> unat v < unat fb + 4096 * frame_rounds b then Some v else None)"
    using both_loops [of x "rounds 0 memSize" memSize "frame_rounds b" fb ?size "?size div 0x1000 + 1"]
      w(3,6) n1 n2 o(6,7,8) rng lim v(4) fc w(4) unfolding x_def by fastforce
  have "D \<noteq> 0" if "D = bi_descriptorSize b" for D using o(1) that by (simp add: boot_map_ok_def)
  then have pm: "PrepareMemory strict b kernelStart kernelEnd s = enablePaging strict N s2"
    using u(1,2) w(1,2) l(1,2) GetMemorySize_cached [of u] o(4)
    unfolding PrepareMemory_def x_def v_def fb_def by (simp add: Let_def)
  show ?thesis
  proof (cases strict)
    case True
    then show ?thesis unfolding pm by (simp add: enablePaging_eq)
  next
    case False
    let ?t = "s2\<lparr>cr3 := N, cr4 := cr4 s2 OR 0x20, cr0 := cr0 s2 OR 0xFFFFFFFF80010000\<rparr>"
    have "PrepareMemory strict b kernelStart kernelEnd s = Some ?t" unfolding pm using False by (simp add: enablePaging_eq)
    moreover have "pt_ok ?t" using l(3) by (simp add: pt_ok_def alloc_ready_def
        cursor_ok_def free_at_def PageBitmap_Get_def limit_def bitmap_region_def)
    moreover have "translate ?t v = translate s2 v" for v by (simp add: translate_def)
    moreover have "cr3 ?t = PML4 ?t" "bit (cr0 ?t) 31" "bit (cr4 ?t) 5"
      using l(4) by (simp_all add: x_def bit_simps)
    ultimately show ?thesis using l(5) False by auto
  qed
qed

subsection \<open>A small boot\<close>

text \<open>Two megabytes of free memory in one descriptor, a kernel of one page at 0x100000 and a frame
  buffer of one page at 2 GB.\<close>

definition small_boot :: BootInfo where
  "small_boot = \<lparr>bi_frameBuffer = \<lparr>BaseAddress = 0x80000000, BufferSize = 0x1000, Width = 32, Height = 32,
     PixelsPerScanline = 32\<rparr>, bi_font = 0, bi_memoryMap = 0x300000, bi_mapSize = 48,
     bi_descriptorSize = 48, bi_rsdp = 0\<rparr>"

definition small_pc :: paging_cpu where
  "small_pc = \<lparr>mem = (\<lambda>a. if a = 0x300000 then 7 else if a = 0x300019 then 2 else 0), memoryMapSize = 0,
     PageBitmap = \<lparr>bm_size = 0, bm_Buffer = 0\<rparr>, allocatedMemory = 0, reservedMemory = 0, freeMemory = 0,
     isInitialized = False, bitmapIndex = 0, PML4 = 0, cr0 = 0, cr3 = 0, cr4 = 0\<rparr>"

lemma small_boot_descriptor: "descriptor_at (mem small_pc) 0x300000 48 0 =
   \<lparr>desc_type = 7, physAddr = 0, virtAddr = 0, numPages = 512, attribs = 0\<rparr>"
  by (simp add: small_pc_def descriptor_at_def read_descriptor_def load_eval)

lemma small_boot_entries: "bi_mapSize small_boot div bi_descriptorSize small_boot = 1"
  by (simp add: small_boot_def)

lemma small_boot_descriptors: "boot_descriptors small_boot (mem small_pc) =
   [\<lparr>desc_type = 7, physAddr = 0, virtAddr = 0, numPages = 512, attribs = 0\<rparr>]"
  using small_boot_descriptor unfolding boot_descriptors_def map_entries_def small_boot_entries
  by (simp add: small_boot_def)

lemma small_boot_segment: "boot_segment small_boot (mem small_pc) = 0"
  by (simp add: boot_segment_def small_boot_descriptors largest_segment_def)

lemma small_boot_size: "map_bytes (boot_descriptors small_boot (mem small_pc)) = 0x200000"
  by (simp add: small_boot_descriptors map_bytes_def)

lemma dirs_low: "unat v < 2 ^ 21 \<Longrightarrow> dirs v = {[0], [0, 0], [0, 0, 0]}"
proof -
  assume v: "unat v < 2 ^ 21"
  have "drop_bit k v = 0" if "k \<in> {39, 30, 21}" for k
  proof -
    have "unat v < 2 ^ k" using v that by auto
    then show ?thesis by (simp add: word_unat_eq_iff unat_drop_bit_eq) (simp add: drop_bit_eq_div)
  qed
  then have "drop_bit 39 v = 0" "drop_bit 30 v = 0" "drop_bit 21 v = 0" by simp_all
  then show ?thesis by (simp add: dirs_def path_bits numeral_2_eq_2 numeral_3_eq_3)
qed

lemma small_boot_dirs:
  "card (range_dirs 0 (rounds 0 0x200000) \<union> range_dirs 0x80000000 (frame_rounds small_boot)) \<le> 6"
proof -
  have r: "rounds 0 0x200000 = 512" "frame_rounds small_boot = 2"
    by (simp_all add: rounds_def frame_rounds_def small_boot_def)
  have "range_dirs 0 512 \<subseteq> {[0], [0, 0], [0, 0, 0]}"
    unfolding range_dirs_def
  proof (rule UN_least)
    fix k :: nat assume "k \<in> {..< 512}"
    then have k: "4096 * k < 2 ^ 21" by simp
    then have "unat (of_nat (4096 * k) :: u64) = 4096 * k" by (intro unat_of_nat_lt) simp
    with k have "unat (page_from 0 k) < 2 ^ 21" by (simp add: page_from_def del: of_nat_mult)
    then show "dirs (page_from 0 k) \<subseteq> {[0], [0, 0], [0, 0, 0]}" by (simp add: dirs_low)
  qed
  moreover have "dirs (page_from 0x80000000 k) = {[0], [0, 2], [0, 2, 0]}" if "k < 2" for k
  proof -
    have "k = 0 \<or> k = 1" using that by arith
    then have pg: "page_from 0x80000000 k = 0x80000000 \<or> page_from 0x80000000 k = 0x80001000"
      by (elim disjE) (simp_all add: page_from_def)
    have "path 0x80000000 = [0, 2, 0, 0]" "path 0x80001000 = [0, 2, 0, 1]"
      by (simp_all add: path_def pageMapIndexer_def Let_def drop_bit_eq_div)
    then have "dirs 0x80000000 = {[0], [0, 2], [0, 2, 0]}" "dirs 0x80001000 = {[0], [0, 2], [0, 2, 0]}"
      by (simp_all only: dirs_def) (simp_all add: take_Cons numeral_2_eq_2 numeral_3_eq_3)
    then show ?thesis using pg by (elim disjE) simp_all
  qed
  then have "range_dirs 0x80000000 2 \<subseteq> {[0], [0, 2], [0, 2, 0]}" by (auto simp: range_dirs_def)
  ultimately have "range_dirs 0 512 \<union> range_dirs 0x80000000 2
      \<subseteq> {[0], [0, 0], [0, 0, 0], [0, 2], [0, 2, 0]}" by blast
  then have "card (range_dirs 0 512 \<union> range_dirs 0x80000000 2)
      \<le> card {[0], [0, 0], [0, 0, 0], [0, 2], [0, 2, 0 :: u64]}" by (rule card_mono [rotated]) simp
  also have "\<dots> \<le> 6" by simp
  finally show ?thesis unfolding r .
qed

lemma small_boot_free: "7 \<le> card (boot_free small_boot 0x100000 0x101000 (mem small_pc))"
proof -
  have "{0x110, 0x111, 0x112, 0x113, 0x114, 0x115, 0x116} \<subseteq> boot_free small_boot 0x100000 0x101000 (mem small_pc)"
    unfolding boot_free_def small_boot_size small_boot_descriptors small_boot_segment
    by (simp add: bitmap_bytes_def boot_used_def map_bytes_def free_segment_def page_range_def)
  then have "card ({0x110, 0x111, 0x112, 0x113, 0x114, 0x115, 0x116} :: u64 set) \<le> card (boot_free small_boot 0x100000 0x101000 (mem small_pc))"
    by (rule card_mono [rotated]) simp
  then show ?thesis by simp
qed

lemma small_boot_ok: "boot_ok small_boot 0x100000 0x101000 small_pc"
proof -
  have "1 + card (range_dirs 0 (rounds 0 0x200000) \<union> range_dirs 0x80000000 (frame_rounds small_boot))
      \<le> card (boot_free small_boot 0x100000 0x101000 (mem small_pc))"
    using small_boot_dirs small_boot_free by linarith
  moreover have "BaseAddress (bi_frameBuffer small_boot) = 0x80000000" by (simp add: small_boot_def)
  moreover have "map_outside 0x300000 48 1 (region 0 66)"
    unfolding map_outside_def
  proof (intro allI impI)
    fix i :: u64 assume "i < 1"
    then have "i = 0" by simp
    moreover have "x \<notin> region 0 66" if "x \<in> region 0x300000 40" for x :: u64
    proof -
      define d where "d = unat (x - 0x300000)"
      have d: "d < 40" using that by (simp add: region_def d_def)
      have "x = 0x300000 + of_nat d" by (simp add: d_def)
      then have "unat x = 0x300000 + d" using unat_add_of_nat [of "0x300000 :: u64" d] d by simp
      then show ?thesis by (simp add: region_def)
    qed
    ultimately show "region (0x300000 + i * 48) 40 \<inter> region 0 66 = {}" by auto
  qed
  moreover have "boot_map_ok 0x300000 48 48 small_pc"
    using calculation(3) small_boot_descriptors small_boot_segment small_boot_size
    unfolding boot_map_ok_def boot_descriptors_def boot_segment_def small_boot_entries Let_def
    by (simp add: small_boot_def small_pc_def range_ok_def)
  ultimately show ?thesis
    unfolding boot_ok_def Let_def small_boot_size small_boot_segment
    by (simp add: small_boot_def aligned_def range_ok_def bitmap_bytes_def frame_rounds_def)
qed

subsection \<open>Properties\<close>



end
