(* ===== verification/Heap.thy ===== *)
theory Heap
  imports KernelMemory
begin

text \<open>
  The kernel heap, \<open>kernel/src/mem/heap.cpp\<close>: a list of blocks with a 24-byte header each. The
  source adds byte counts to pointers to \<open>HeapBlock\<close>, so every such addition is scaled by 24; the
  definitions write the scaling out. \<open>kmalloc\<close> calls itself after an expansion, with the size it has
  already enlarged, and need not return, so it is a computation in \<open>option\<close>. The lemmas describe the
  heap while blocks are only cut off its last, free block: a chain of used blocks, in which
  allocations get disjoint payloads and the release of the last block undoes its allocation.
\<close>

subsection \<open>Blocks in memory\<close>

definition sizeof_HeapBlock :: u64 where
  "sizeof_HeapBlock = 24"

definition hb_size :: "memory \<Rightarrow> u64 \<Rightarrow> u32" where
  "hb_size m b = read32 m b"

definition hb_free :: "memory \<Rightarrow> u64 \<Rightarrow> bool" where
  "hb_free m b \<longleftrightarrow> m (b + 4) \<noteq> 0"

definition hb_prev :: "memory \<Rightarrow> u64 \<Rightarrow> u64" where
  "hb_prev m b = read64 m (b + 8)"

definition hb_next :: "memory \<Rightarrow> u64 \<Rightarrow> u64" where
  "hb_next m b = read64 m (b + 16)"

definition set_size :: "u64 \<Rightarrow> u32 \<Rightarrow> memory \<Rightarrow> memory" where
  "set_size b v m = write32 m b v"

definition set_free :: "u64 \<Rightarrow> bool \<Rightarrow> memory \<Rightarrow> memory" where
  "set_free b v m = m(b + 4 := of_bool v)"

definition set_prev :: "u64 \<Rightarrow> u64 \<Rightarrow> memory \<Rightarrow> memory" where
  "set_prev b v m = write64 m (b + 8) v"

definition set_next :: "u64 \<Rightarrow> u64 \<Rightarrow> memory \<Rightarrow> memory" where
  "set_next b v m = write64 m (b + 16) v"

record heap = paging_cpu +
  heapStart :: u64
  heapEnd :: u64
  blockCount :: int

definition InitializeHeap :: "'a heap_scheme \<Rightarrow> 'a heap_scheme" where
  "InitializeHeap s =
     (let (startBlock, s) = RequestPage s;
          m = set_size startBlock (0x1000 + ucast sizeof_HeapBlock) (mem s);
          m = set_free startBlock True m;
          m = set_prev startBlock 0 m;
          m = set_next startBlock 0 m
      in s\<lparr>mem := m, heapStart := startBlock, heapEnd := startBlock, blockCount := 1\<rparr>)"

definition Expand :: "u64 \<Rightarrow> 'a heap_scheme \<Rightarrow> 'a heap_scheme" where
  "Expand prev s =
     (let (newBlock, s) = RequestPage s;
          m = set_size newBlock (0x1000 + ucast sizeof_HeapBlock) (mem s);
          m = set_free newBlock True m;
          m = set_prev newBlock prev m;
          m = set_next newBlock 0 m;
          m = set_next prev newBlock m
      in s\<lparr>mem := m, heapEnd := newBlock, blockCount := blockCount s + 1\<rparr>)"

definition merge_next :: "u64 \<Rightarrow> 'a heap_scheme \<Rightarrow> 'a heap_scheme" where
  "merge_next block s =
     (let m = mem s
      in if hb_next m block \<noteq> 0 \<and> hb_free m (hb_next m block) then
           let m = set_size block (hb_size m block + hb_size m (hb_next m block)) m;
               m = set_next block (hb_next m (hb_next m block)) m
           in s\<lparr>mem := m, blockCount := blockCount s - 1\<rparr>
         else s)"

definition merge_prev :: "u64 \<Rightarrow> 'a heap_scheme \<Rightarrow> 'a heap_scheme" where
  "merge_prev block s =
     (let m = mem s
      in if hb_prev m block \<noteq> 0 \<and> hb_free m (hb_prev m block) then
           let m = set_size (hb_prev m block) (hb_size m (hb_prev m block) + hb_size m block) m;
               m = set_next (hb_prev m block) (hb_next m block) m
           in s\<lparr>mem := m, blockCount := blockCount s - 1\<rparr>
         else s)"

definition mergeBlock :: "u64 \<Rightarrow> 'a heap_scheme \<Rightarrow> 'a heap_scheme" where
  "mergeBlock block s = merge_prev block (merge_next block s)"

text \<open>The search loop of \<open>kmalloc\<close>, with the number of rounds left: it returns from the function with
  an address, or ends with the last block it looked at.\<close>

definition take_block :: "u64 \<Rightarrow> u64 \<Rightarrow> 'a heap_scheme \<Rightarrow> u64 \<times> 'a heap_scheme" where
  "take_block sz block s =
     (let selectedBlock = block;
          m = mem s;
          freeSpace = ucast (ucast (hb_size m block) - sz) :: u32;
          m = set_size selectedBlock (ucast sz) m;
          m = set_free selectedBlock False m;
          block = block + sizeof_HeapBlock * sz;
          m = set_size block freeSpace m;
          m = set_free block True m;
          m = set_next selectedBlock block m;
          m = set_prev block selectedBlock m
      in (selectedBlock + sizeof_HeapBlock * sizeof_HeapBlock, s\<lparr>mem := m, blockCount := blockCount s + 1\<rparr>))"

fun find_block :: "nat \<Rightarrow> u64 \<Rightarrow> u64 \<Rightarrow> 'a heap_scheme \<Rightarrow> (u64 \<times> 'a heap_scheme) + u64" where
  "find_block 0 sz block s = Inr block"
| "find_block (Suc n) sz block s =
     (if hb_free (mem s) block then
        if ucast (hb_size (mem s) block) < sz then
          find_block n sz (if hb_next (mem s) block \<noteq> 0 then hb_next (mem s) block else block) s
        else Inl (take_block sz block s)
      else find_block n sz (if hb_next (mem s) block \<noteq> 0 then hb_next (mem s) block else block) s)"

definition round_up :: "u64 \<Rightarrow> u64" where
  "round_up sz = (if sz mod 0x10 > 0 then sz - sz mod 0x10 + 0x10 else sz)"

partial_function (option) kmalloc :: "u64 \<Rightarrow> 'a heap_scheme \<Rightarrow> (u64 \<times> 'a heap_scheme) option" where
  "kmalloc sz s =
     (let sz = round_up sz
      in if sz = 0 then Some (0, s)
         else
           let sz = sz + sizeof_HeapBlock
           in case find_block (nat (blockCount s)) sz (heapStart s) s of
                Inl r \<Rightarrow> Some r
              | Inr block \<Rightarrow>
                  let s = Expand block s; s = mergeBlock (heapEnd s) s
                  in kmalloc sz s)"

definition kfree :: "u64 \<Rightarrow> 'a heap_scheme \<Rightarrow> 'a heap_scheme" where
  "kfree ptr s =
     (if ptr = 0 then s
      else
        let block = ptr - sizeof_HeapBlock * sizeof_HeapBlock
        in mergeBlock block (s\<lparr>mem := set_free block True (mem s)\<rparr>))"

subsection \<open>Fields of blocks\<close>

lemma hb_fields_at:
  "hb_size (set_size b v m) b = v" "hb_free (set_free b x m) b = x"
  "hb_prev (set_prev b p m) b = p" "hb_next (set_next b p m) b = p"
  by (simp_all add: hb_size_def set_size_def hb_free_def set_free_def hb_prev_def set_prev_def hb_next_def set_next_def)

text \<open>The header of a block, and what a field access needs of it.\<close>

definition header :: "u64 \<Rightarrow> u64 set" where
  "header b = region b 24"

lemma header_parts:
  "region b 4 \<subseteq> header b" "b + 4 \<in> header b" "region (b + 8) 8 \<subseteq> header b" "region (b + 16) 8 \<subseteq> header b"
  using region_sub [of _ b 8 8 24] region_sub [of _ b 16 8 24] by (auto simp: header_def region_def)

lemma set_outside:
  assumes "x \<notin> header b"
  shows "set_size b v m x = m x" "set_free b y m x = m x" "set_prev b p m x = m x" "set_next b p m x = m x"
  using assms header_parts [of b]
  by (auto simp: set_size_def set_free_def set_prev_def set_next_def intro!: write64_outside write32_outside)

lemma hb_cong:
  assumes "\<And>x. x \<in> header b \<Longrightarrow> m x = m' x"
  shows "hb_size m b = hb_size m' b" "hb_free m b = hb_free m' b" "hb_prev m b = hb_prev m' b" "hb_next m b = hb_next m' b"
  using assms header_parts [of b] unfolding hb_size_def hb_free_def hb_prev_def hb_next_def
  by (auto intro!: read32_cong read64_cong)

lemma field_regions:
  "region b 4 \<inter> region (b + 8) 8 = {}" "region b 4 \<inter> region (b + 16) 8 = {}"
  "region (b + 8) 8 \<inter> region b 4 = {}" "region (b + 16) 8 \<inter> region b 4 = {}"
  "region (b + 8) 8 \<inter> region (b + 16) 8 = {}" "region (b + 16) 8 \<inter> region (b + 8) 8 = {}"
  using regions_apart [of 0 4 8 8 b] regions_apart [of 0 4 16 8 b] regions_apart [of 8 8 16 8 b] by auto

lemma free_outside: "b + 4 \<notin> region b 4" "b + 4 \<notin> region (b + 8) 8" "b + 4 \<notin> region (b + 16) 8"
  using in_region_off [of 0 4 "b + 4" b] in_region_off [of 8 8 "b + 4" b] in_region_off [of 16 8 "b + 4" b] by simp_all

lemma upd_outside: "a \<notin> region b n \<Longrightarrow> n \<le> 8 \<Longrightarrow> load_le n (m(a := v)) b = load_le n m b"
  by (rule load_le_region_cong) auto

lemma hb_fields_other:
  "hb_size (set_free b y m) b = hb_size m b" "hb_size (set_prev b p m) b = hb_size m b" "hb_size (set_next b p m) b = hb_size m b"
  "hb_free (set_size b v m) b = hb_free m b" "hb_free (set_prev b p m) b = hb_free m b" "hb_free (set_next b p m) b = hb_free m b"
  "hb_prev (set_size b v m) b = hb_prev m b" "hb_prev (set_free b y m) b = hb_prev m b" "hb_prev (set_next b p m) b = hb_prev m b"
  "hb_next (set_size b v m) b = hb_next m b" "hb_next (set_free b y m) b = hb_next m b" "hb_next (set_prev b p m) b = hb_next m b"
  by (simp_all add: hb_size_def set_size_def hb_free_def set_free_def hb_prev_def set_prev_def hb_next_def set_next_def
      read32_def read64_def write32_def write64_def load_store_disjoint field_regions upd_outside free_outside store_le_outside)

lemma hb_fields_apart:
  assumes "header a \<inter> header b = {}"
  shows "hb_size (set_size a v m) b = hb_size m b" "hb_size (set_free a y m) b = hb_size m b"
    "hb_size (set_prev a p m) b = hb_size m b" "hb_size (set_next a p m) b = hb_size m b"
    "hb_free (set_size a v m) b = hb_free m b" "hb_free (set_free a y m) b = hb_free m b"
    "hb_free (set_prev a p m) b = hb_free m b" "hb_free (set_next a p m) b = hb_free m b"
    "hb_prev (set_size a v m) b = hb_prev m b" "hb_prev (set_free a y m) b = hb_prev m b"
    "hb_prev (set_prev a p m) b = hb_prev m b" "hb_prev (set_next a p m) b = hb_prev m b"
    "hb_next (set_size a v m) b = hb_next m b" "hb_next (set_free a y m) b = hb_next m b"
    "hb_next (set_prev a p m) b = hb_next m b" "hb_next (set_next a p m) b = hb_next m b"
proof -
  have o: "x \<notin> header a" if "x \<in> header b" for x using assms that by blast
  show "hb_size (set_size a v m) b = hb_size m b" "hb_size (set_free a y m) b = hb_size m b"
    "hb_size (set_prev a p m) b = hb_size m b" "hb_size (set_next a p m) b = hb_size m b"
    "hb_free (set_size a v m) b = hb_free m b" "hb_free (set_free a y m) b = hb_free m b"
    "hb_free (set_prev a p m) b = hb_free m b" "hb_free (set_next a p m) b = hb_free m b"
    "hb_prev (set_size a v m) b = hb_prev m b" "hb_prev (set_free a y m) b = hb_prev m b"
    "hb_prev (set_prev a p m) b = hb_prev m b" "hb_prev (set_next a p m) b = hb_prev m b"
    "hb_next (set_size a v m) b = hb_next m b" "hb_next (set_free a y m) b = hb_next m b"
    "hb_next (set_prev a p m) b = hb_next m b" "hb_next (set_next a p m) b = hb_next m b"
    by (rule hb_cong, rule set_outside, erule o)+
qed

lemmas heap_fields = hb_fields_at hb_fields_other

subsection \<open>The heap while it grows\<close>

text \<open>Block \<open>k\<close> of a heap whose used blocks have the sizes \<open>ss\<close>: the offset is scaled by the size of
  a header.\<close>

definition block_at :: "u64 \<Rightarrow> nat list \<Rightarrow> nat \<Rightarrow> u64" where
  "block_at start ss k = start + of_nat (24 * sum_list (take k ss))"

definition before :: "u64 \<Rightarrow> nat list \<Rightarrow> nat \<Rightarrow> u64" where
  "before start ss k = (if k = 0 then 0 else block_at start ss (k - 1))"

text \<open>\<open>growing s ss f\<close>: the used blocks are linked in order, one free block of size \<open>f\<close> follows them,
  and the scaled addresses do not reach the end of the address space.\<close>

definition growing :: "'a heap_scheme \<Rightarrow> nat list \<Rightarrow> nat \<Rightarrow> bool" where
  "growing s ss f \<longleftrightarrow>
     blockCount s = int (length ss) + 1 \<and> heapStart s \<noteq> 0
     \<and> unat (heapStart s) + 24 * (sum_list ss + f) + 1000 < 2 ^ 64 \<and> sum_list ss + f < 2 ^ 32
     \<and> (\<forall>x \<in> set ss. 40 \<le> x)
     \<and> (\<forall>k < length ss. hb_size (mem s) (block_at (heapStart s) ss k) = of_nat (ss ! k)
          \<and> \<not> hb_free (mem s) (block_at (heapStart s) ss k)
          \<and> hb_next (mem s) (block_at (heapStart s) ss k) = block_at (heapStart s) ss (Suc k)
          \<and> hb_prev (mem s) (block_at (heapStart s) ss k) = before (heapStart s) ss k)
     \<and> hb_size (mem s) (block_at (heapStart s) ss (length ss)) = of_nat f
     \<and> hb_free (mem s) (block_at (heapStart s) ss (length ss))
     \<and> hb_prev (mem s) (block_at (heapStart s) ss (length ss)) = before (heapStart s) ss (length ss)"

lemma sum_take_le: "sum_list (take k ss) \<le> sum_list (ss :: nat list)"
  by (metis append_take_drop_id le_add1 sum_list_append)

lemma sum_take_mono: "j \<le> k \<Longrightarrow> sum_list (take j ss) \<le> sum_list (take k (ss :: nat list))"
  by (metis min.absorb1 sum_take_le take_take)

lemma sum_take_Suc: "k < length ss \<Longrightarrow> sum_list (take (Suc k) ss) = sum_list (take k ss) + ss ! k"
  by (simp add: take_Suc_conv_app_nth)

lemma block_apart:
  assumes "growing s ss f" "j < k" "k \<le> length ss"
  shows "header (block_at (heapStart s) ss j) \<inter> header (block_at (heapStart s) ss k) = {}"
proof -
  have j: "j < length ss" using assms by simp
  then have "40 \<le> ss ! j" using assms(1) nth_mem by (auto simp: growing_def)
  then have "24 * sum_list (take j ss) + 24 \<le> 24 * sum_list (take k ss)"
    using sum_take_mono [of "Suc j" k ss] assms(2) sum_take_Suc [OF j] by simp
  moreover have "24 * sum_list (take k ss) + 24 < 2 ^ 64"
    using sum_take_le [of k ss] assms(1) by (simp add: growing_def)
  ultimately show ?thesis unfolding header_def block_at_def by (rule regions_apart)
qed

lemma block_nonzero:
  assumes "growing s ss f"
  shows "block_at (heapStart s) ss k \<noteq> 0"
proof -
  have "unat (block_at (heapStart s) ss k) = unat (heapStart s) + 24 * sum_list (take k ss)"
    unfolding block_at_def using sum_take_le [of k ss] assms
    by (intro unat_add_of_nat) (simp add: growing_def)
  moreover have "unat (heapStart s) \<noteq> 0" using assms by (simp add: growing_def unat_eq_zero)
  ultimately show ?thesis by auto
qed

lemma find_last:
  assumes g: "growing s ss f" and sz: "unat sz \<le> f"
  shows "k \<le> length ss \<Longrightarrow> find_block (length ss + 1 - k) sz (block_at (heapStart s) ss k) s
    = Inl (take_block sz (block_at (heapStart s) ss (length ss)) s)"
proof (induction "length ss - k" arbitrary: k)
  case 0
  then have k: "k = length ss" by simp
  have f: "f < 2 ^ 32" using g by (simp add: growing_def)
  have "hb_size (mem s) (block_at (heapStart s) ss k) = of_nat f" using g k by (simp add: growing_def)
  then have "unat (ucast (hb_size (mem s) (block_at (heapStart s) ss k)) :: u64) = f"
    using f by (simp add: unsigned_ucast_eq unat_of_nat_lt take_bit_nat_eq_self unsigned_of_nat)
  then have "\<not> ucast (hb_size (mem s) (block_at (heapStart s) ss k)) < sz" using sz by (simp add: word_less_nat_alt)
  then show ?case using g k by (simp add: growing_def)
next
  case (Suc d)
  then have k: "k < length ss" by simp
  then have "length ss + 1 - k = Suc (length ss + 1 - Suc k)" by simp
  then show ?case
    using g k Suc.hyps(1) [of "Suc k"] Suc.hyps(2) block_nonzero [OF g, of "Suc k"] by (simp add: growing_def)
qed

lemma block_at_snoc: "k \<le> length ss \<Longrightarrow> block_at start (ss @ [x]) k = block_at start ss k"
  by (simp add: block_at_def)

lemma before_snoc: "k \<le> Suc (length ss) \<Longrightarrow> before start (ss @ [x]) k = before start ss k"
  by (simp add: before_def block_at_snoc)

lemma block_at_end: "block_at start (ss @ [x]) (Suc (length ss)) = block_at start ss (length ss) + 24 * of_nat x"
  by (simp add: block_at_def algebra_simps)

lemma block_offsets_apart:
  assumes "24 * sum_list ss + 24 * x + 24 < (2 :: nat) ^ 64" "1 \<le> x" "k \<le> length ss"
  shows "header (block_at start ss k) \<inter> header (block_at start ss (length ss) + 24 * of_nat x) = {}"
proof -
  have "24 * sum_list (take k ss) + 24 \<le> 24 * (sum_list ss + x)" using sum_take_le [of k ss] assms(2) by simp
  then have "region (start + of_nat (24 * sum_list (take k ss))) 24 \<inter> region (start + of_nat (24 * (sum_list ss + x))) 24 = {}"
    using assms(1) by (intro regions_apart) simp_all
  moreover have "block_at start ss (length ss) + 24 * of_nat x = start + of_nat (24 * (sum_list ss + x))"
    by (simp add: block_at_def algebra_simps)
  ultimately show ?thesis unfolding header_def block_at_def by (simp only:)
qed

lemma take_block_growing:
  assumes g: "growing s ss f" and sz: "40 \<le> unat sz" "unat sz \<le> f"
  defines "B \<equiv> block_at (heapStart s) ss (length ss)"
  shows "fst (take_block sz B s) = B + 576"
    and "growing (snd (take_block sz B s)) (ss @ [unat sz]) (f - unat sz)"
    and "heapStart (snd (take_block sz B s)) = heapStart s"
    and "x \<notin> header B \<Longrightarrow> x \<notin> header (B + 24 * sz) \<Longrightarrow> mem (snd (take_block sz B s)) x = mem s x"
proof -
  define E where "E = B + 24 * sz"
  let ?fs = "ucast (ucast (hb_size (mem s) B) - sz) :: u32"
  have t: "take_block sz B s = (B + 576, s\<lparr>mem := set_prev E B (set_next B E (set_free E True (set_size E ?fs
      (set_free B False (set_size B (ucast sz) (mem s)))))), blockCount := blockCount s + 1\<rparr>)"
    by (simp add: take_block_def Let_def sizeof_HeapBlock_def E_def)
  show "fst (take_block sz B s) = B + 576" "heapStart (snd (take_block sz B s)) = heapStart s" by (simp_all add: t)
  show "mem (snd (take_block sz B s)) x = mem s x" if "x \<notin> header B" "x \<notin> header (B + 24 * sz)"
    using that by (simp add: t E_def set_outside)
  have f: "f < 2 ^ 32" and bound: "24 * sum_list ss + 24 * unat sz + 24 < 2 ^ 64"
    using g sz by (simp_all add: growing_def)
  have hs: "hb_size (mem s) B = of_nat f" using g by (simp add: growing_def B_def)
  have "unat (ucast (hb_size (mem s) B) :: u64) = f"
    using f by (simp add: hs unsigned_ucast_eq unat_of_nat_lt take_bit_nat_eq_self unsigned_of_nat)
  then have "unat (ucast (hb_size (mem s) B) - sz) = f - unat sz"
    using sz(2) by (subst unat_sub) (simp_all add: word_le_nat_alt)
  moreover have "(of_nat (unat (ucast (hb_size (mem s) B) - sz)) :: u32) = ?fs" by (rule of_nat_unat)
  ultimately have fs: "?fs = of_nat (f - unat sz)" by simp
  have us: "ucast sz = (of_nat (unat sz) :: u32)" by simp
  have E: "E = block_at (heapStart s) ss (length ss) + 24 * of_nat (unat sz)" by (simp add: E_def B_def)
  have apE: "header (block_at (heapStart s) ss k) \<inter> header E = {}" if "k \<le> length ss" for k
    unfolding E using bound sz(1) that by (intro block_offsets_apart) auto
  then have BE: "header B \<inter> header E = {}" "header E \<inter> header B = {}" unfolding B_def by auto
  have apk: "header B \<inter> header (block_at (heapStart s) ss k) = {}" "header E \<inter> header (block_at (heapStart s) ss k) = {}"
    if "k < length ss" for k
    using block_apart [OF g, of k "length ss"] apE [of k] that unfolding B_def by auto
  have at: "block_at (heapStart s) (ss @ [unat sz]) k = block_at (heapStart s) ss k" if "k \<le> length ss" for k
    using that by (rule block_at_snoc)
  have atE: "block_at (heapStart s) (ss @ [unat sz]) (Suc (length ss)) = E" unfolding block_at_end by (simp add: E_def B_def)
  have bf: "before (heapStart s) (ss @ [unat sz]) k = before (heapStart s) ss k" if "k \<le> Suc (length ss)" for k
    using that by (rule before_snoc)
  let ?m = "mem (snd (take_block sz B s))"
  have M: "?m = set_prev E B (set_next B E (set_free E True (set_size E ?fs
      (set_free B False (set_size B (ucast sz) (mem s))))))" by (simp add: t)
  have old: "hb_size ?m (block_at (heapStart s) ss k) = of_nat (ss ! k)" "\<not> hb_free ?m (block_at (heapStart s) ss k)"
    "hb_next ?m (block_at (heapStart s) ss k) = block_at (heapStart s) ss (Suc k)"
    "hb_prev ?m (block_at (heapStart s) ss k) = before (heapStart s) ss k" if "k < length ss" for k
    using g that by (simp_all add: t hb_fields_apart apk growing_def)
  have gB: "hb_prev (mem s) B = before (heapStart s) ss (length ss)" using g by (simp add: growing_def B_def)
  have new: "hb_size ?m B = of_nat (unat sz)" "\<not> hb_free ?m B" "hb_next ?m B = E"
    "hb_prev ?m B = before (heapStart s) ss (length ss)"
    unfolding M us by (simp_all only: hb_fields_apart [OF BE(2)] heap_fields gB simp_thms)
  have tail: "hb_size ?m E = of_nat (f - unat sz)" "hb_free ?m E" "hb_prev ?m E = B"
    unfolding M fs by (simp_all only: hb_fields_apart [OF BE(1)] heap_fields)
  show "growing (snd (take_block sz B s)) (ss @ [unat sz]) (f - unat sz)"
    unfolding growing_def
  proof (intro conjI allI impI)
    fix k assume "k < length (ss @ [unat sz])"
    then have k: "k < length ss \<or> k = length ss" by auto
    have h: "heapStart (snd (take_block sz B s)) = heapStart s" by (simp add: t)
    show "hb_size ?m (block_at (heapStart (snd (take_block sz B s))) (ss @ [unat sz]) k) = of_nat ((ss @ [unat sz]) ! k)"
      "\<not> hb_free ?m (block_at (heapStart (snd (take_block sz B s))) (ss @ [unat sz]) k)"
      "hb_next ?m (block_at (heapStart (snd (take_block sz B s))) (ss @ [unat sz]) k)
        = block_at (heapStart (snd (take_block sz B s))) (ss @ [unat sz]) (Suc k)"
      "hb_prev ?m (block_at (heapStart (snd (take_block sz B s))) (ss @ [unat sz]) k)
        = before (heapStart (snd (take_block sz B s))) (ss @ [unat sz]) k"
      using k old new by (auto simp: h at atE bf nth_append B_def [symmetric] Suc_le_eq)
  qed (use g sz tail atE bf in \<open>auto simp: t growing_def before_def at B_def [symmetric] simp del: of_nat_diff\<close>)
qed

subsection \<open>Allocation\<close>

lemma round_up_bounds:
  assumes "unat n \<le> 2 ^ 32"
  shows "unat (round_up n) mod 16 = 0" "unat n \<le> unat (round_up n)" "unat (round_up n) < unat n + 16"
proof -
  have m: "unat (n mod 16) = unat n mod 16" by (simp add: unat_mod)
  have "unat (n - n mod 16) = unat n - unat n mod 16" using m by (simp add: unat_sub word_le_nat_alt)
  moreover from this have "unat (n - n mod 16 + 16) = unat n - unat n mod 16 + 16"
    using assms by (subst unat_add_no_wrap) auto
  moreover have "n mod 16 > 0 \<longleftrightarrow> unat n mod 16 > 0" using m by (simp add: word_less_nat_alt)
  ultimately have u: "unat (round_up n) = (if unat n mod 16 > 0 then unat n - unat n mod 16 + 16 else unat n)"
    by (simp add: round_up_def)
  have e: "unat n - unat n mod 16 = 16 * (unat n div 16)" by (simp add: minus_mod_eq_mult_div)
  show "unat (round_up n) mod 16 = 0" unfolding u e by simp
  have "unat n mod 16 < 16" "unat n mod 16 \<le> unat n" by simp_all
  then show "unat n \<le> unat (round_up n)" "unat (round_up n) < unat n + 16"
    unfolding u by (auto split: if_splits)
qed

definition block_size :: "u64 \<Rightarrow> nat" where
  "block_size n = unat (round_up n) + 24"

lemma kmalloc_growing:
  assumes g: "growing s ss f" and n: "0 < n" "unat n \<le> 2 ^ 32" and fit: "block_size n \<le> f"
  defines "B \<equiv> block_at (heapStart s) ss (length ss)"
  shows "\<exists>s'. kmalloc n s = Some (B + 576, s') \<and> growing s' (ss @ [block_size n]) (f - block_size n)
    \<and> heapStart s' = heapStart s
    \<and> (\<forall>x. x \<notin> header B \<longrightarrow> x \<notin> header (B + 24 * of_nat (block_size n)) \<longrightarrow> mem s' x = mem s x)"
proof -
  note r = round_up_bounds [OF n(2)]
  have "0 < unat n" using n(1) by (simp add: word_less_nat_alt)
  then have r16: "16 \<le> unat (round_up n)" using r by (metis dvd_imp_le dvd_eq_mod_eq_0 order.strict_trans2)
  then have nz: "round_up n \<noteq> 0" by auto
  have u: "unat (round_up n + 24) = block_size n"
    using r(3) n(2) unfolding block_size_def by (subst unat_add_no_wrap) simp_all
  have sz: "40 \<le> unat (round_up n + 24)" "unat (round_up n + 24) \<le> f" using r16 fit u by (simp_all add: block_size_def)
  have "find_block (nat (blockCount s)) (round_up n + 24) (heapStart s) s = Inl (take_block (round_up n + 24) B s)"
  proof -
    have "nat (blockCount s) = length ss + 1 - 0" "block_at (heapStart s) ss 0 = heapStart s"
      using g by (simp_all add: growing_def block_at_def)
    then show ?thesis using find_last [OF g sz(2), of 0] unfolding B_def by simp
  qed
  then have "kmalloc n s = Some (take_block (round_up n + 24) B s)"
    using nz by (subst kmalloc.simps) (simp add: Let_def sizeof_HeapBlock_def)
  moreover have "(of_nat (unat (round_up n + 24)) :: u64) = round_up n + 24" by simp
  then have "(of_nat (block_size n) :: u64) = round_up n + 24" unfolding u .
  moreover note take_block_growing [OF g sz, folded B_def, unfolded u]
  ultimately show ?thesis
    by (intro exI [of _ "snd (take_block (round_up n + 24) B s)"]) (simp add: prod_eq_iff)
qed

fun kmalloc_all :: "u64 list \<Rightarrow> 'a heap_scheme \<Rightarrow> (u64 list \<times> 'a heap_scheme) option" where
  "kmalloc_all [] s = Some ([], s)"
| "kmalloc_all (n # ns) s = do {
     (p, s) \<leftarrow> kmalloc n s;
     (ps, s) \<leftarrow> kmalloc_all ns s;
     Some (p # ps, s)
   }"

text \<open>The addresses a sequence of allocations returns, and the memory it leaves alone.\<close>

lemma kmalloc_all_growing:
  assumes "growing s ss f" "\<forall>n \<in> set ns. 0 < n \<and> unat n \<le> 2 ^ 32" "sum_list (map block_size ns) \<le> f"
  shows "\<exists>s'. kmalloc_all ns s =
      Some (map (\<lambda>k. block_at (heapStart s) (ss @ map block_size ns) (length ss + k) + 576) [0..<length ns], s')
    \<and> growing s' (ss @ map block_size ns) (f - sum_list (map block_size ns)) \<and> heapStart s' = heapStart s"
  using assms
proof (induction ns arbitrary: s ss f)
  case (Cons n ns)
  let ?all = "ss @ map block_size (n # ns)"
  obtain s1 where s1: "kmalloc n s = Some (block_at (heapStart s) ss (length ss) + 576, s1)"
      "growing s1 (ss @ [block_size n]) (f - block_size n)" "heapStart s1 = heapStart s"
    using kmalloc_growing [OF Cons.prems(1), of n] Cons.prems(2,3) by auto
  have "sum_list (map block_size ns) \<le> f - block_size n" using Cons.prems(3) by simp
  then obtain s2 where s2: "kmalloc_all ns s1 = Some (map (\<lambda>k. block_at (heapStart s1) ?all (Suc (length ss) + k) + 576) [0..<length ns], s2)"
      "growing s2 ?all (f - block_size n - sum_list (map block_size ns))" "heapStart s2 = heapStart s1"
    using Cons.IH [OF s1(2)] Cons.prems(2) by auto
  have at0: "block_at (heapStart s) (ss @ block_size n # map block_size ns) (length ss) = block_at (heapStart s) ss (length ss)" by (simp add: block_at_def)
  have l: "[0..<length (n # ns)] = 0 # map Suc [0..<length ns]" by (simp add: upt_conv_Cons map_Suc_upt del: upt_Suc)
  show ?case
    using s1 s2 unfolding l by (simp add: at0 o_def)
qed simp

lemma payloads_apart:
  assumes g: "growing s ss f" and jk: "j < k" "k < length ss"
  shows "region (block_at (heapStart s) ss j + 576) (ss ! j - 24) \<inter> region (block_at (heapStart s) ss k + 576) (ss ! k - 24) = {}"
    and "region (block_at (heapStart s) ss j + 576) (ss ! j - 24) \<inter> header (block_at (heapStart s) ss k) = {}"
    and "header (block_at (heapStart s) ss j) \<inter> region (block_at (heapStart s) ss k + 576) (ss ! k - 24) = {}"
proof -
  have x: "40 \<le> ss ! j" "40 \<le> ss ! k" using g jk nth_mem by (auto simp: growing_def)
  define a b where "a = 24 * sum_list (take j ss)" and "b = 24 * sum_list (take k ss)"
  have ab: "a + 24 * ss ! j \<le> b"
    using sum_take_mono [of "Suc j" k ss] jk sum_take_Suc [of j ss] by (simp add: a_def b_def)
  have bound: "b + 24 * ss ! k + 600 < 2 ^ 64"
    using sum_take_le [of "Suc k" ss] sum_take_Suc [OF jk(2)] g by (simp add: growing_def b_def)
  let ?st = "heapStart s"
  have A: "block_at ?st ss j = ?st + of_nat a" "block_at ?st ss k = ?st + of_nat b" by (simp_all add: block_at_def a_def b_def)
  have P: "block_at ?st ss j + 576 = ?st + of_nat (a + 576)" "block_at ?st ss k + 576 = ?st + of_nat (b + 576)"
    by (simp_all add: A)
  show "region (block_at ?st ss j + 576) (ss ! j - 24) \<inter> region (block_at ?st ss k + 576) (ss ! k - 24) = {}"
    unfolding P using ab bound x by (intro regions_apart) auto
  show "region (block_at ?st ss j + 576) (ss ! j - 24) \<inter> header (block_at ?st ss k) = {}"
    unfolding P A(2) header_def using ab bound x by (intro regions_apart) auto
  show "header (block_at ?st ss j) \<inter> region (block_at ?st ss k + 576) (ss ! k - 24) = {}"
    unfolding P A(1) header_def using ab bound x by (intro regions_apart) auto
qed

subsection \<open>Release of the last block\<close>

lemma kfree_last:
  assumes g: "growing s (ss @ [x]) f"
  defines "B \<equiv> block_at (heapStart s) ss (length ss)"
  shows "growing (kfree (B + 576) s) ss (x + f)" and "heapStart (kfree (B + 576) s) = heapStart s"
    and "a \<notin> header B \<Longrightarrow> mem (kfree (B + 576) s) a = mem s a"
proof -
  define T where "T = block_at (heapStart s) (ss @ [x]) (Suc (length ss))"
  have at: "block_at (heapStart s) (ss @ [x]) k = block_at (heapStart s) ss k" if "k \<le> length ss" for k
    using that by (rule block_at_snoc)
  have bf: "before (heapStart s) (ss @ [x]) k = before (heapStart s) ss k" if "k \<le> Suc (length ss)" for k
    using that by (rule before_snoc)
  have B: "block_at (heapStart s) (ss @ [x]) (length ss) = B" by (simp add: at B_def)
  have all: "\<And>k. k < length (ss @ [x]) \<Longrightarrow> hb_size (mem s) (block_at (heapStart s) (ss @ [x]) k) = of_nat ((ss @ [x]) ! k)
          \<and> \<not> hb_free (mem s) (block_at (heapStart s) (ss @ [x]) k)
          \<and> hb_next (mem s) (block_at (heapStart s) (ss @ [x]) k) = block_at (heapStart s) (ss @ [x]) (Suc k)
          \<and> hb_prev (mem s) (block_at (heapStart s) (ss @ [x]) k) = before (heapStart s) (ss @ [x]) k"
    using g by (simp add: growing_def)
  have old: "hb_size (mem s) (block_at (heapStart s) ss k) = of_nat (ss ! k)" "\<not> hb_free (mem s) (block_at (heapStart s) ss k)"
      "hb_next (mem s) (block_at (heapStart s) ss k) = block_at (heapStart s) ss (Suc k)"
      "hb_prev (mem s) (block_at (heapStart s) ss k) = before (heapStart s) ss k" if "k < length ss" for k
    using all [of k] that by (simp_all add: at bf nth_append)
  have last: "hb_size (mem s) B = of_nat x" "hb_next (mem s) B = T" "hb_prev (mem s) B = before (heapStart s) ss (length ss)"
    using all [of "length ss"] by (simp_all add: B bf T_def nth_append)
  have tail: "hb_size (mem s) T = of_nat f" "hb_free (mem s) T" using g by (simp_all add: growing_def T_def)
  have T0: "T \<noteq> 0" unfolding T_def using g by (rule block_nonzero)
  have ap: "header B \<inter> header T = {}"
    using block_apart [OF g, of "length ss" "Suc (length ss)"] by (simp add: B T_def)
  have apk: "header B \<inter> header (block_at (heapStart s) ss k) = {}" if "k < length ss" for k
    using block_apart [OF g, of k "length ss"] that by (auto simp: B at)
  let ?m1 = "set_free B True (mem s)"
  let ?m = "set_next B (hb_next (mem s) T) (set_size B (of_nat x + of_nat f) ?m1)"
  let ?s1 = "s\<lparr>mem := ?m1\<rparr>"
  have m1: "merge_next B ?s1 = s\<lparr>mem := ?m, blockCount := blockCount s - 1\<rparr>"
    using T0 by (simp add: merge_next_def Let_def heap_fields hb_fields_apart ap last tail)
  have p: "hb_prev ?m B = before (heapStart s) ss (length ss)" by (simp add: heap_fields last)
  have "\<not> hb_free ?m (before (heapStart s) ss (length ss))" if "before (heapStart s) ss (length ss) \<noteq> 0"
  proof -
    have "length ss - 1 < length ss" using that by (simp add: before_def split: if_splits)
    then show ?thesis using that old(2) apk by (simp add: before_def hb_fields_apart split: if_splits)
  qed
  then have "merge_prev B (merge_next B ?s1) = merge_next B ?s1" unfolding m1 merge_prev_def Let_def using p by auto
  moreover have "B + 576 \<noteq> 0"
  proof -
    have "unat (B + of_nat 576) = unat B + 576"
    proof (rule unat_add_of_nat)
      have "unat B = unat (heapStart s) + 24 * sum_list (take (length ss) ss)"
        unfolding B_def block_at_def using g by (intro unat_add_of_nat) (simp add: growing_def)
      then show "unat B + 576 < 2 ^ LENGTH(64)" using g by (simp add: growing_def)
    qed
    then show ?thesis by (metis add_is_0 of_nat_numeral unat_0 zero_neq_numeral)
  qed
  ultimately have k: "kfree (B + 576) s = s\<lparr>mem := ?m, blockCount := blockCount s - 1\<rparr>"
    using m1 by (simp add: kfree_def Let_def mergeBlock_def sizeof_HeapBlock_def)
  show "heapStart (kfree (B + 576) s) = heapStart s" by (simp add: k)
  show "a \<notin> header B \<Longrightarrow> mem (kfree (B + 576) s) a = mem s a" by (simp add: k set_outside)
  have "hb_size ?m (block_at (heapStart s) ss k) = of_nat (ss ! k)" "\<not> hb_free ?m (block_at (heapStart s) ss k)"
      "hb_next ?m (block_at (heapStart s) ss k) = block_at (heapStart s) ss (Suc k)"
      "hb_prev ?m (block_at (heapStart s) ss k) = before (heapStart s) ss k" if "k < length ss" for k
    using old that by (simp_all add: hb_fields_apart apk)
  moreover have "hb_size ?m B = of_nat (x + f)" "hb_free ?m B" by (simp_all add: heap_fields)
  ultimately show "growing (kfree (B + 576) s) ss (x + f)"
    using g p unfolding growing_def k by (simp add: B_def)
qed

subsection \<open>The fresh heap\<close>

lemma InitializeHeap_growing:
  assumes r: "alloc_ready s" "0 < free_count s"
  shows "growing (InitializeHeap s) [] 0x1018"
    and "heapStart (InitializeHeap s) = fst (RequestPage s)"
    and "same_frame s (snd (RequestPage s))"
proof -
  obtain k where k: "free_at s k" "fst (RequestPage s) = k * 4096" "k * 4096 div 4096 = k" "unat (k * 4096) < 2 ^ 52"
    using RequestPage_some [OF r] by metis
  have "k \<noteq> 0" using k(1) r(1) by (auto simp: free_at_def alloc_ready_def)
  then have p: "fst (RequestPage s) \<noteq> 0" using k(2,3) by auto
  show "heapStart (InitializeHeap s) = fst (RequestPage s)" by (simp add: InitializeHeap_def split_beta Let_def)
  show "growing (InitializeHeap s) [] 0x1018"
    using p k(2,4) by (simp add: growing_def InitializeHeap_def split_beta Let_def block_at_def before_def
        heap_fields sizeof_HeapBlock_def)
qed (rule same_frame_RequestPage)

text \<open>A heap of one free page at 0x5000.\<close>

definition small_heap :: heap where
  "small_heap = \<lparr>mem = (\<lambda>a. if a = 0x5000 then 0x18 else if a = 0x5001 then 0x10 else if a = 0x5004 then 1 else 0),
     memoryMapSize = 0, PageBitmap = \<lparr>bm_size = 1, bm_Buffer = 0x10000\<rparr>, allocatedMemory = 0,
     reservedMemory = 0, freeMemory = 0, isInitialized = True, bitmapIndex = 0, PML4 = 0x9000,
     cr0 = 0, cr3 = 0x9000, cr4 = 0, heapStart = 0x5000, heapEnd = 0x5000, blockCount = 1\<rparr>"

lemma small_heap_growing: "growing small_heap [] 0x1018"
  by (simp add: growing_def small_heap_def block_at_def before_def hb_size_def hb_free_def hb_prev_def load_eval)

subsection \<open>Properties\<close>

text \<open>C9: As long as the requests fit into the last, free block of the heap, a sequence of \<open>kmalloc\<close>
  calls returns, the payloads it hands out are pairwise disjoint, and none overlaps the header of
  an earlier or later block of the sequence.\<close>

theorem kmalloc_disjoint:
  assumes "growing s ss f" "\<forall>n \<in> set ns. 0 < n \<and> unat n \<le> 2 ^ 32" "sum_list (map block_size ns) \<le> f"
  shows "\<exists>ps s'. kmalloc_all ns s = Some (ps, s') \<and> length ps = length ns
    \<and> (\<forall>j k. j < k \<longrightarrow> k < length ns \<longrightarrow>
         region (ps ! j) (unat (round_up (ns ! j))) \<inter> region (ps ! k) (unat (round_up (ns ! k))) = {}
         \<and> region (ps ! j) (unat (round_up (ns ! j))) \<inter> header (ps ! k - 576) = {}
         \<and> header (ps ! j - 576) \<inter> region (ps ! k) (unat (round_up (ns ! k))) = {})"
proof -
  let ?all = "ss @ map block_size ns"
  let ?ps = "map (\<lambda>k. block_at (heapStart s) ?all (length ss + k) + 576) [0..<length ns]"
  obtain s' where s': "kmalloc_all ns s = Some (?ps, s')"
      "growing s' ?all (f - sum_list (map block_size ns))" "heapStart s' = heapStart s"
    using kmalloc_all_growing [OF assms] by blast
  have at: "?ps ! k = block_at (heapStart s') ?all (length ss + k) + 576" if "k < length ns" for k
    using that s'(3) by simp
  have sz: "?all ! (length ss + k) - 24 = unat (round_up (ns ! k))" if "k < length ns" for k
    using that by (simp add: block_size_def)
  show ?thesis
  proof (intro exI conjI allI impI)
    show "kmalloc_all ns s = Some (?ps, s')" by (rule s'(1))
    show "length ?ps = length ns" by simp
    fix j k assume jk: "j < k" "k < length ns"
    then have j: "j < length ns" by simp
    have "length ss + j < length ss + k" "length ss + k < length ?all" using jk by simp_all
    note a = payloads_apart [OF s'(2) this, unfolded sz [OF j] sz [OF jk(2)]]
    show "region (?ps ! j) (unat (round_up (ns ! j))) \<inter> region (?ps ! k) (unat (round_up (ns ! k))) = {}"
      unfolding at [OF j] at [OF jk(2)] by (rule a(1))
    show "region (?ps ! j) (unat (round_up (ns ! j))) \<inter> header (?ps ! k - 576) = {}"
      unfolding at [OF j] at [OF jk(2)] using a(2) by simp
    show "header (?ps ! j - 576) \<inter> region (?ps ! k) (unat (round_up (ns ! k))) = {}"
      unfolding at [OF j] at [OF jk(2)] using a(3) by simp
  qed
qed

theorem kmalloc_disjoint_witness:
  "\<exists>p q r s'. kmalloc_all [10, 100, 32] small_heap = Some ([p, q, r], s') \<and> region p 16 \<inter> region q 112 = {}"
proof -
  have b: "block_size 10 = 40" "block_size 100 = 136" "block_size 32 = 56" by (simp_all add: block_size_def round_up_def)
  obtain ps s' where r: "kmalloc_all [10, 100, 32] small_heap = Some (ps, s')" "length ps = length [10, 100, 32 :: u64]"
      "\<forall>j k. j < k \<longrightarrow> k < length [10, 100, 32 :: u64] \<longrightarrow>
         region (ps ! j) (unat (round_up ([10, 100, 32] ! j))) \<inter> region (ps ! k) (unat (round_up ([10, 100, 32] ! k))) = {}
         \<and> region (ps ! j) (unat (round_up ([10, 100, 32] ! j))) \<inter> header (ps ! k - 576) = {}
         \<and> header (ps ! j - 576) \<inter> region (ps ! k) (unat (round_up ([10, 100, 32] ! k))) = {}"
    using kmalloc_disjoint [OF small_heap_growing, of "[10, 100, 32]"] b by auto
  have "region (ps ! 0) 16 \<inter> region (ps ! 1) 112 = {}" using r(3) [rule_format, of 0 1] by (simp add: round_up_def)
  moreover obtain p q r where "ps = [p, q, r]" using r(2) by (auto simp: length_Suc_conv)
  ultimately show ?thesis using r(1) by auto
qed

text \<open>C10: Releasing the block that was allocated last gives back the heap as it was before: the same
  used blocks, the same free space at the same place.\<close>

theorem kfree_undoes_kmalloc:
  assumes "growing s ss f" "0 < n" "unat n \<le> 2 ^ 32" "block_size n \<le> f"
  shows "\<exists>p s'. kmalloc n s = Some (p, s') \<and> p \<noteq> 0 \<and> growing (kfree p s') ss f \<and> heapStart (kfree p s') = heapStart s"
proof -
  obtain s' where s': "kmalloc n s = Some (block_at (heapStart s) ss (length ss) + 576, s')"
      "growing s' (ss @ [block_size n]) (f - block_size n)" "heapStart s' = heapStart s"
    using kmalloc_growing [OF assms] by blast
  have "unat (block_at (heapStart s) ss (length ss) + of_nat 576) = unat (block_at (heapStart s) ss (length ss)) + 576"
  proof (rule unat_add_of_nat)
    have "unat (block_at (heapStart s) ss (length ss)) = unat (heapStart s) + 24 * sum_list (take (length ss) ss)"
      unfolding block_at_def using assms(1) by (intro unat_add_of_nat) (simp add: growing_def)
    then show "unat (block_at (heapStart s) ss (length ss)) + 576 < 2 ^ LENGTH(64)" using assms(1) by (simp add: growing_def)
  qed
  then have "block_at (heapStart s) ss (length ss) + 576 \<noteq> 0"
    by (metis add_is_0 of_nat_numeral unat_0 zero_neq_numeral)
  then show ?thesis
    using s'(1) kfree_last(1,2) [OF s'(2)] s'(3) assms(4) by auto
qed

theorem kfree_undoes_kmalloc_witness:
  "\<exists>p s'. kmalloc 100 small_heap = Some (p, s') \<and> growing (kfree p s') [] 0x1018"
proof -
  have "block_size 100 = 136" by (simp add: block_size_def round_up_def)
  then show ?thesis using kfree_undoes_kmalloc [OF small_heap_growing, of 100] by auto
qed

text \<open>The addition of a byte count to a block pointer is scaled by the size of the header, so a
  request of 160 bytes in a fresh heap puts the header of the remaining block outside the page.\<close>

theorem kmalloc_leaves_page:
  assumes "growing s [] 0x1018" "unat n \<le> 0x1000 - 16" "160 \<le> unat n"
  shows "\<exists>p s'. kmalloc n s = Some (p, s')
    \<and> hb_next (mem s') (heapStart s) = heapStart s + 24 * of_nat (block_size n)
    \<and> hb_free (mem s') (heapStart s + 24 * of_nat (block_size n))
    \<and> heapStart s + 24 * of_nat (block_size n) \<notin> region (heapStart s) 0x1000"
proof -
  have n: "0 < n" "unat n \<le> 2 ^ 32" using assms(2,3) by (simp_all add: word_less_nat_alt)
  note r = round_up_bounds [OF n(2)]
  have b: "184 \<le> block_size n" "block_size n \<le> 0x1018" using r assms(2,3) by (simp_all add: block_size_def)
  obtain s' where s': "kmalloc n s = Some (block_at (heapStart s) [] 0 + 576, s')"
      "growing s' [block_size n] (0x1018 - block_size n)" "heapStart s' = heapStart s"
    using kmalloc_growing [OF assms(1) n b(2)] by auto
  have "hb_next (mem s') (block_at (heapStart s) [block_size n] 0) = block_at (heapStart s) [block_size n] 1"
    "hb_free (mem s') (block_at (heapStart s) [block_size n] 1)"
    using s'(2,3) by (simp_all add: growing_def)
  then have "hb_next (mem s') (heapStart s) = heapStart s + 24 * of_nat (block_size n)"
    "hb_free (mem s') (heapStart s + 24 * of_nat (block_size n))" by (simp_all add: block_at_def)
  moreover have "unat (of_nat (24 * block_size n) :: u64) = 24 * block_size n" using b(2) by (intro unat_of_nat_lt) simp
  then have "heapStart s + 24 * of_nat (block_size n) \<notin> region (heapStart s) 0x1000"
    using b(1) by (simp add: region_def)
  ultimately show ?thesis using s'(1) by blast
qed

theorem kmalloc_leaves_page_witness:
  "\<exists>p s'. kmalloc 160 small_heap = Some (p, s') \<and> hb_next (mem s') 0x5000 = 0x6140"
proof -
  have "block_size 160 = 184" "heapStart small_heap = 0x5000" by (simp_all add: block_size_def round_up_def small_heap_def)
  then show ?thesis using kmalloc_leaves_page [OF small_heap_growing, of 160] by auto
qed

end
