(* ===== verification/CStr.thy ===== *)
theory CStr
  imports PhysMem "HOL-Library.Monad_Syntax"
begin

text \<open>
  \<open>kernel/src/cstr.cpp\<close>: conversions between numbers and zero-terminated strings in memory. The
  static buffers of the source are addresses; the parameter of a \<open>to_hstring\<close> is read through its
  address, byte by byte, as the source does. The conversions of floating-point numbers are left
  out. A string in memory is a list of non-zero bytes with its terminator, \<open>c_string\<close>.
\<close>

subsection \<open>Decimal numbers\<close>

function digits_loop :: "memory \<Rightarrow> u64 \<Rightarrow> u32 \<Rightarrow> nat \<Rightarrow> memory \<times> nat" where
  "digits_loop m buffer n1 i =
     (if n1 \<noteq> 0
      then digits_loop (m(buffer + of_nat i := ucast (n1 mod 10) + 48)) buffer (n1 div 10) (i + 1)
      else (m, i))"
  by pat_completeness auto
termination
proof (relation "measure (\<lambda>(m, buffer, n1, i). unat n1)")
  fix m :: memory and buffer :: u64 and n1 :: u32 and i :: nat
  assume "n1 \<noteq> 0"
  then have "unat n1 \<noteq> 0" by (simp add: unat_eq_zero)
  then have "unat (n1 div 10) < unat n1" by (simp add: unat_div)
  then show "((m(buffer + of_nat i := ucast (n1 mod 10) + 48), buffer, n1 div 10, i + 1), m, buffer, n1, i)
      \<in> measure (\<lambda>(m, buffer, n1, i). unat n1)" by simp
qed simp

declare digits_loop.simps [simp del]

text \<open>One round of the reversal, the exchange by three exclusive ors.\<close>

definition xor_swap :: "u64 \<Rightarrow> nat \<Rightarrow> nat \<Rightarrow> memory \<Rightarrow> memory" where
  "xor_swap buffer i t m =
     (let a = buffer + of_nat t; b = buffer + of_nat (i - t - 1);
          m = m(a := m a XOR m b);
          m = m(b := m b XOR m a)
      in m(a := m a XOR m b))"

definition to_string :: "memory \<Rightarrow> u64 \<Rightarrow> u64 \<Rightarrow> memory" where
  "to_string m buffer n =
     (let isNeg = sint n < 0;
          n1 = ucast (if isNeg then - n else n) :: u32;
          (m, i) = digits_loop m buffer n1 0;
          (m, i) = (if isNeg then (m(buffer + of_nat i := 45), i + 1) else (m, i));
          m = m(buffer + of_nat i := 0);
          m = fold (xor_swap buffer i) [0..<i div 2] m
      in if n = 0 then m(buffer := 48, buffer + 1 := 0) else m)"

subsection \<open>Hexadecimal numbers\<close>

definition hex_digit :: "u8 \<Rightarrow> u8" where
  "hex_digit tmp = tmp + (if tmp > 9 then 55 else 48)"

text \<open>The loop the four variants share: byte \<open>i\<close> of the value gives the digits at the (signed)
  offsets \<open>size - (i * 2 + 1)\<close> and \<open>size - i * 2\<close>.\<close>

definition hstring_round :: "u64 \<Rightarrow> u64 \<Rightarrow> u64 \<Rightarrow> nat \<Rightarrow> memory \<Rightarrow> memory" where
  "hstring_round valuePtr buffer len i m =
     (let ptr = valuePtr + of_nat i;
          tmp = drop_bit 4 (m ptr AND 0xF0);
          m = m(buffer + len - of_nat (i * 2 + 1) := hex_digit tmp);
          tmp = m ptr AND 0x0F
      in m(buffer + len - of_nat (i * 2) := hex_digit tmp))"

definition to_hstring64 :: "u64 \<Rightarrow> memory \<Rightarrow> u64 \<Rightarrow> memory" where
  "to_hstring64 hexToString m valuePtr =
     (let m = fold (hstring_round valuePtr hexToString 15) [0..<15] m
      in m(hexToString + 16 := 0))"

text \<open>The variants for 32 and 16 bits use the length of the 16-bit one, and store the terminator in
  the buffer of the 64-bit one.\<close>

definition to_hstring32 :: "u64 \<Rightarrow> u64 \<Rightarrow> memory \<Rightarrow> u64 \<Rightarrow> memory" where
  "to_hstring32 hexToString hexToString32 m valuePtr =
     (let m = fold (hstring_round valuePtr hexToString32 3) [0..<3] m
      in m(hexToString + 4 := 0))"

definition to_hstring16 :: "u64 \<Rightarrow> u64 \<Rightarrow> memory \<Rightarrow> u64 \<Rightarrow> memory" where
  "to_hstring16 hexToString hexToString16 m valuePtr =
     (let m = fold (hstring_round valuePtr hexToString16 3) [0..<3] m
      in m(hexToString + 4 := 0))"

definition to_hstring8 :: "u64 \<Rightarrow> memory \<Rightarrow> u64 \<Rightarrow> memory" where
  "to_hstring8 hexToString8 m valuePtr =
     (let m = fold (hstring_round valuePtr hexToString8 1) [0..<1] m
      in m(hexToString8 + 2 := 0))"

subsection \<open>Comparison and parsing\<close>

function strcmp_loop :: "memory \<Rightarrow> u64 \<Rightarrow> u64 \<Rightarrow> u16 \<Rightarrow> u16 \<Rightarrow> bool" where
  "strcmp_loop m str val valLength i =
     (if i < valLength then
        if m (str + ucast i) \<noteq> m (val + ucast i) then False
        else strcmp_loop m str val valLength (i + 1)
      else True)"
  by pat_completeness auto
termination
proof (relation "measure (\<lambda>(m, str, val, len, i). unat len - unat i)")
  fix m :: memory and str val :: u64 and valLength i :: u16
  assume lt: "i < valLength"
  then have "unat (i + 1) = Suc (unat i)" by (rule unat_plus_one_less)
  with lt show "((m, str, val, valLength, i + 1), m, str, val, valLength, i)
      \<in> measure (\<lambda>(m, str, val, len, i). unat len - unat i)"
    by (simp add: word_less_nat_alt diff_less_mono2)
qed simp

declare strcmp_loop.simps [simp del]

definition strcmp :: "memory \<Rightarrow> u64 \<Rightarrow> u64 \<Rightarrow> u16 \<Rightarrow> bool" where
  "strcmp m str val valLength = strcmp_loop m str val valLength 0"

text \<open>\<open>num\<close> is a signed 32-bit integer that counts downwards; an overflow is undefined and the
  string may have no end, so the result is an option. The final negation is widened to 64 bits.\<close>

definition in_int32 :: "int \<Rightarrow> bool" where
  "in_int32 x \<longleftrightarrow> - (2 ^ 31) \<le> x \<and> x < 2 ^ 31"

partial_function (option) atoi_loop :: "memory \<Rightarrow> u64 \<Rightarrow> int \<Rightarrow> int option" where
  "atoi_loop m p num =
     (if m p \<ge> 48 \<and> m p \<le> 57 then
        let num' = num * 10 - (uint (m p) - 48)
        in if in_int32 (num * 10) \<and> in_int32 num' then atoi_loop m (p + 1) num' else None
      else Some num)"

definition atoi :: "memory \<Rightarrow> u64 \<Rightarrow> u64 option" where
  "atoi m str = do {
     num \<leftarrow> atoi_loop m str 0;
     if in_int32 (- num) then Some (of_int (- num)) else None
   }"

subsection \<open>Strings in memory\<close>

definition c_string :: "memory \<Rightarrow> u64 \<Rightarrow> u8 list \<Rightarrow> bool" where
  "c_string m p s \<longleftrightarrow> (\<forall>k < length s. m (p + of_nat k) = s ! k \<and> s ! k \<noteq> 0) \<and> m (p + of_nat (length s)) = 0"

fun decimal :: "nat \<Rightarrow> u8 list" where
  "decimal n = (if n < 10 then [of_nat n + 48] else decimal (n div 10) @ [of_nat (n mod 10) + 48])"

declare decimal.simps [simp del]

lemma buffer_inj:
  "j < 2 ^ 64 \<Longrightarrow> k < 2 ^ 64 \<Longrightarrow> buffer + of_nat j = buffer + of_nat k \<longleftrightarrow> j = k" for buffer :: u64
  by (simp add: word_of_nat_eq_iff take_bit_nat_eq_self)

lemma small_nat_inj: "j < 2 ^ 64 \<Longrightarrow> k < 2 ^ 64 \<Longrightarrow> (of_nat j :: u64) = of_nat k \<longleftrightarrow> j = k"
  by (simp add: word_of_nat_eq_iff take_bit_nat_eq_self)

text \<open>The digits come out least significant first.\<close>

fun rev_digits :: "nat \<Rightarrow> u8 list" where
  "rev_digits n = (if n = 0 then [] else (of_nat (n mod 10) + 48) # rev_digits (n div 10))"

declare rev_digits.simps [simp del]

lemma length_rev_digits: "n < 10 ^ d \<Longrightarrow> length (rev_digits n) \<le> d"
proof (induction n arbitrary: d rule: rev_digits.induct)
  case (1 n)
  show ?case
  proof (cases "n = 0")
    case False
    then obtain e where e: "d = Suc e" using 1 by (cases d) auto
    then have "n div 10 < 10 ^ e" using 1 by (simp add: less_mult_imp_div_less mult.commute)
    then show ?thesis using 1 False e by (subst rev_digits.simps) simp
  qed (simp add: rev_digits.simps)
qed

lemma rev_digits_decimal: "0 < n \<Longrightarrow> rev (rev_digits n) = decimal n"
proof (induction n rule: decimal.induct)
  case (1 n)
  show ?case
  proof (cases "n < 10")
    case True
    then show ?thesis using 1 by (subst rev_digits.simps, subst decimal.simps) (simp add: rev_digits.simps)
  next
    case False
    then show ?thesis using 1 by (subst rev_digits.simps, subst decimal.simps) simp
  qed
qed

lemma digits_loop_spec:
  "i + length (rev_digits (unat n1)) < 2 ^ 64 \<Longrightarrow>
   snd (digits_loop m buffer n1 i) = i + length (rev_digits (unat n1))
   \<and> (\<forall>k < 2 ^ 64. fst (digits_loop m buffer n1 i) (buffer + of_nat k) =
       (if i \<le> k \<and> k < i + length (rev_digits (unat n1)) then rev_digits (unat n1) ! (k - i)
        else m (buffer + of_nat k)))"
proof (induction m buffer n1 i rule: digits_loop.induct)
  case (1 m buffer n1 i)
  show ?case
  proof (cases "n1 = 0")
    case True
    then have "digits_loop m buffer n1 i = (m, i)" by (subst digits_loop.simps) simp
    then show ?thesis using True by (auto simp: rev_digits.simps)
  next
    case False
    let ?m = "m(buffer + of_nat i := ucast (n1 mod 10) + 48)"
    have r: "rev_digits (unat n1) = (of_nat (unat n1 mod 10) + 48) # rev_digits (unat (n1 div 10))"
      using False by (subst rev_digits.simps) (simp add: unat_eq_zero unat_div)
    have u: "(ucast (n1 mod 10) :: u8) = of_nat (unat n1 mod 10)"
    proof -
      have "unat (n1 mod 10) = unat n1 mod 10" by (simp add: unat_mod)
      then have "(of_nat (unat (n1 mod 10)) :: u8) = of_nat (unat n1 mod 10)" by (rule arg_cong)
      then show ?thesis by simp
    qed
    have step: "digits_loop m buffer n1 i = digits_loop ?m buffer (n1 div 10) (i + 1)"
      using False by (subst digits_loop.simps) simp
    have pre: "i + 1 + length (rev_digits (unat (n1 div 10))) < 2 ^ 64" using "1.prems" by (simp add: r)
    have IH: "snd (digits_loop ?m buffer (n1 div 10) (i + 1)) = i + 1 + length (rev_digits (unat (n1 div 10)))"
      "\<And>k. k < 2 ^ 64 \<Longrightarrow> fst (digits_loop ?m buffer (n1 div 10) (i + 1)) (buffer + of_nat k) =
         (if i + 1 \<le> k \<and> k < i + 1 + length (rev_digits (unat (n1 div 10)))
          then rev_digits (unat (n1 div 10)) ! (k - (i + 1)) else ?m (buffer + of_nat k))"
      using "1.IH" [OF False pre] by blast+
    have i: "i < 2 ^ 64" using "1.prems" by simp
    show ?thesis
      unfolding step
    proof (intro conjI allI impI)
      show "snd (digits_loop ?m buffer (n1 div 10) (i + 1)) = i + length (rev_digits (unat n1))"
        using IH(1) by (simp add: r)
      fix k :: nat assume k: "k < 2 ^ 64"
      then have m: "?m (buffer + of_nat k) = (if k = i then of_nat (unat n1 mod 10) + 48 else m (buffer + of_nat k))"
        using i by (simp add: small_nat_inj u)
      consider "k < i" | "k = i" | j where "k = i + 1 + j"
        by (metis Suc_eq_plus1 add.commute add_Suc_right le_add_diff_inverse less_Suc_eq not_less)
      then show "fst (digits_loop ?m buffer (n1 div 10) (i + 1)) (buffer + of_nat k) =
          (if i \<le> k \<and> k < i + length (rev_digits (unat n1)) then rev_digits (unat n1) ! (k - i)
           else m (buffer + of_nat k))"
        unfolding IH(2) [OF k] m r by cases simp_all
    qed
  qed
qed

lemma xor_swap_apply:
  assumes "a \<noteq> b" "a = buffer + of_nat t" "b = buffer + of_nat (i - t - 1)"
  shows "xor_swap buffer i t m = m(a := m b, b := m a)"
proof -
  have "(x XOR y) XOR (y XOR (x XOR y)) = y" "y XOR (x XOR y) = x" for x y :: u8
    by (auto intro!: bit_word_eqI simp: bit_simps)
  then show ?thesis using assms(1) unfolding xor_swap_def assms(2,3) by (auto simp: Let_def fun_eq_iff)
qed

lemma reversal:
  assumes "i < 2 ^ 64" "j \<le> i div 2" "k < 2 ^ 64"
  shows "fold (xor_swap buffer i) [0..<j] m (buffer + of_nat k) =
    (if k < j \<or> i - j \<le> k \<and> k < i then m (buffer + of_nat (i - 1 - k)) else m (buffer + of_nat k))"
  using assms(2,3)
proof (induction j arbitrary: k)
  case (Suc j)
  have j: "j < i" "j \<noteq> i - j - 1" "j < 2 ^ 64" "i - j - 1 < 2 ^ 64" using Suc.prems assms(1) by auto
  let ?f = "fold (xor_swap buffer i) [0..<j] m"
  have ne: "buffer + of_nat j \<noteq> buffer + of_nat (i - j - 1)" using j by (simp only: buffer_inj) simp
  have IH: "?f (buffer + of_nat k) = (if k < j \<or> i - j \<le> k \<and> k < i then m (buffer + of_nat (i - 1 - k)) else m (buffer + of_nat k))"
    if "k < 2 ^ 64" for k using Suc that by simp
  have "fold (xor_swap buffer i) [0..<Suc j] m = ?f(buffer + of_nat j := ?f (buffer + of_nat (i - j - 1)),
      buffer + of_nat (i - j - 1) := ?f (buffer + of_nat j))"
    by (simp add: xor_swap_apply [OF ne refl refl])
  then have "fold (xor_swap buffer i) [0..<Suc j] m (buffer + of_nat k) =
      (if k = i - j - 1 then ?f (buffer + of_nat j) else if k = j then ?f (buffer + of_nat (i - j - 1)) else ?f (buffer + of_nat k))"
    using j Suc.prems(2) by (simp only: fun_upd_apply buffer_inj)
  also have "\<dots> = (if k < Suc j \<or> i - Suc j \<le> k \<and> k < i then m (buffer + of_nat (i - 1 - k)) else m (buffer + of_nat k))"
    using j Suc.prems assms(1) by (auto simp: IH simp del: of_nat_diff)
  finally show ?case .
qed auto

text \<open>The characters of a number: the digits of the low 32 bits of its magnitude, after a sign.\<close>

definition number_string :: "u64 \<Rightarrow> u8 list" where
  "number_string n =
     (if n = 0 then [48]
      else (if sint n < 0 then [45] else []) @
        (let low = unat (ucast (if sint n < 0 then - n else n) :: u32) in if low = 0 then [] else decimal low))"

lemma rev_digits_nonzero: "d \<in> set (rev_digits n) \<Longrightarrow> d \<noteq> 0"
proof (induction n rule: rev_digits.induct)
  case (1 n)
  have "(of_nat (n mod 10) + 48 :: u8) \<noteq> 0"
  proof -
    have "unat (of_nat (n mod 10) + 48 :: u8) = n mod 10 + 48"
      by (subst unat_add_no_wrap) (simp_all add: unat_of_nat_lt)
    then show ?thesis by (metis add_eq_0_iff_both_eq_0 unat_0 zero_neq_numeral)
  qed
  then show ?case using 1 by (subst (asm) (2) rev_digits.simps) (auto split: if_splits)
qed

lemma to_string_c_string: "c_string (to_string m buffer n) buffer (number_string n)"
proof -
  define n1 :: u32 where "n1 = ucast (if sint n < 0 then - n else n)"
  define ds where "ds = rev_digits (unat n1)"
  obtain m1 i where d: "digits_loop m buffer n1 0 = (m1, i)" by fastforce
  have len: "length ds \<le> 10" unfolding ds_def by (rule length_rev_digits) (rule less_le_trans [OF unat_lt_u32], simp)
  have i: "i = length ds" and m1: "\<And>k. k < length ds \<Longrightarrow> m1 (buffer + of_nat k) = ds ! k"
    using digits_loop_spec [of 0 n1 m buffer] d len by (auto simp: ds_def)
  define cs where "cs = (if sint n < 0 then ds @ [45] else ds)"
  define m2 where "m2 = (if sint n < 0 then m1(buffer + of_nat i := 45) else m1)"
  have lc: "length cs \<le> 11" using len by (simp add: cs_def)
  have m2: "m2 (buffer + of_nat k) = cs ! k" if "k < length cs" for k
    using that len i m1 by (auto simp: m2_def cs_def nth_append small_nat_inj split: if_splits)
  define m3 where "m3 = m2(buffer + of_nat (length cs) := 0)"
  define m4 where "m4 = fold (xor_swap buffer (length cs)) [0..<length cs div 2] m3"
  have m3: "m3 (buffer + of_nat k) = (if k = length cs then 0 else cs ! k)" if "k \<le> length cs" for k
    using that lc m2 by (auto simp: m3_def small_nat_inj)
  have m4: "m4 (buffer + of_nat k) = (if k = length cs then 0 else rev cs ! k)" if "k \<le> length cs" for k
  proof -
    have "m4 (buffer + of_nat k) = (if k < length cs div 2 \<or> length cs - length cs div 2 \<le> k \<and> k < length cs
        then m3 (buffer + of_nat (length cs - 1 - k)) else m3 (buffer + of_nat k))"
      unfolding m4_def using that lc by (intro reversal) auto
    moreover have "length cs - 1 - k = k" if "\<not> k < length cs div 2" "k < length cs - length cs div 2" using that by arith
    ultimately show ?thesis using that lc by (auto simp: m3 rev_nth simp del: of_nat_diff)
  qed
  have t: "to_string m buffer n = (if n = 0 then m4(buffer := 48, buffer + 1 := 0) else m4)"
    unfolding to_string_def Let_def n1_def [symmetric] d
    by (simp add: m4_def m3_def m2_def cs_def i)
  have rc: "n \<noteq> 0 \<Longrightarrow> number_string n = rev cs"
    using rev_digits_decimal [of "unat n1"]
    by (auto simp: number_string_def Let_def cs_def ds_def n1_def [symmetric] rev_digits.simps [of 0])
  have "c \<noteq> 0" if "c \<in> set (rev cs)" for c
    using that rev_digits_nonzero [of c "unat n1"] by (auto simp: cs_def ds_def split: if_splits)
  then show ?thesis
  proof (cases "n = 0")
    case True
    then show ?thesis unfolding t c_string_def number_string_def by simp
  next
    case False
    have "rev cs ! k \<noteq> 0" if "k < length cs" for k using \<open>\<And>c. c \<in> set (rev cs) \<Longrightarrow> c \<noteq> 0\<close> that by (metis length_rev nth_mem)
    then show ?thesis using False by (auto simp: t c_string_def rc m4)
  qed
qed

lemma number_string_small:
  assumes "\<bar>sint n\<bar> < 2 ^ 32"
  shows "number_string n = (if sint n < 0 then [45] else []) @ decimal (nat \<bar>sint n\<bar>)"
proof -
  have n: "n = of_int (sint n)" by simp
  have "(if sint n < 0 then - n else n) = of_int \<bar>sint n\<bar>"
  proof -
    have "- n = of_int (- sint n)" using n by (metis of_int_minus)
    then show ?thesis by simp
  qed
  then have "unat (ucast (if sint n < 0 then - n else n) :: u32) = nat \<bar>sint n\<bar>"
    using assms by (simp add: unsigned_ucast_eq unsigned_of_int take_bit_int_eq_self take_bit_nat_eq_self nat_less_iff)
  moreover have "sint n = 0 \<longleftrightarrow> n = 0" using n by (metis of_int_0 sint_0)
  ultimately show ?thesis
    by (auto simp: number_string_def Let_def decimal.simps [of 0])
qed

subsection \<open>Parsing a number\<close>

definition holds_at :: "memory \<Rightarrow> u64 \<Rightarrow> u8 list \<Rightarrow> bool" where
  "holds_at m p s \<longleftrightarrow> (\<forall>k < length s. m (p + of_nat k) = s ! k)"

lemma holds_at_append: "holds_at m p (s @ t) \<longleftrightarrow> holds_at m p s \<and> holds_at m (p + of_nat (length s)) t"
proof -
  have "(\<forall>k < length s + length t. m (p + of_nat k) = (s @ t) ! k) \<longleftrightarrow>
    (\<forall>k < length s. m (p + of_nat k) = s ! k) \<and> (\<forall>k < length t. m (p + of_nat (length s) + of_nat k) = t ! k)"
    (is "?l \<longleftrightarrow> ?r")
  proof
    assume l: ?l
    show ?r
    proof (intro conjI allI impI)
      show "m (p + of_nat k) = s ! k" if "k < length s" for k using l that by (metis nth_append trans_less_add1)
      show "m (p + of_nat (length s) + of_nat k) = t ! k" if "k < length t" for k
        using l [rule_format, of "length s + k"] that by (simp add: algebra_simps nth_append)
    qed
  next
    assume r: ?r
    show ?l
    proof (intro allI impI)
      fix k assume k: "k < length s + length t"
      show "m (p + of_nat k) = (s @ t) ! k"
      proof (cases "k < length s")
        case False
        then obtain j where "k = length s + j" "j < length t" using k by (metis le_Suc_ex nat_add_left_cancel_less not_less)
        then show ?thesis using r by (auto simp: algebra_simps nth_append)
      qed (use r in \<open>simp add: nth_append\<close>)
    qed
  qed
  then show ?thesis by (simp add: holds_at_def)
qed

lemma c_string_holds: "c_string m p s \<Longrightarrow> holds_at m p s"
  by (simp add: c_string_def holds_at_def)

lemma digit_char: "d < 10 \<Longrightarrow> (of_nat d + 48 :: u8) \<ge> 48 \<and> (of_nat d + 48 :: u8) \<le> 57 \<and> uint (of_nat d + 48 :: u8) = int d + 48"
proof -
  assume d: "d < 10"
  then have u: "unat (of_nat d + 48 :: u8) = d + 48" by (subst unat_add_no_wrap) (simp_all add: unat_of_nat_lt)
  then have "uint (of_nat d + 48 :: u8) = int d + 48" by (metis of_nat_add of_nat_numeral uint_nat)
  then show ?thesis using u d by (simp add: word_le_nat_alt)
qed

lemma atoi_step:
  assumes "m p = of_nat d + 48" "d < 10" "in_int32 (num * 10)" "in_int32 (num * 10 - int d)"
  shows "atoi_loop m p num = atoi_loop m (p + 1) (num * 10 - int d)"
  using assms digit_char [OF assms(2)] by (subst atoi_loop.simps) (simp add: Let_def)

lemma atoi_decimal:
  "n < 2 ^ 31 \<Longrightarrow> holds_at m p (decimal n) \<Longrightarrow>
   atoi_loop m p 0 = atoi_loop m (p + of_nat (length (decimal n))) (- int n)"
proof (induction n rule: decimal.induct)
  case (1 n)
  show ?case
  proof (cases "n < 10")
    case True
    then have d: "decimal n = [of_nat n + 48]" by (subst decimal.simps) simp
    then have "m p = of_nat n + 48" using 1 by (simp add: holds_at_def)
    then show ?thesis using 1 d True atoi_step [of m p n 0] by (simp add: in_int32_def)
  next
    case False
    let ?q = "n div 10" and ?d = "n mod 10"
    have dec: "decimal n = decimal ?q @ [of_nat ?d + 48]" using False by (subst decimal.simps) simp
    then have h: "holds_at m p (decimal ?q)" "m (p + of_nat (length (decimal ?q))) = of_nat ?d + 48"
      using 1 by (simp_all add: holds_at_append) (simp add: holds_at_def)
    have sum: "int n = int ?q * 10 + int ?d" by (metis div_mult_mod_eq of_nat_add of_nat_mult of_nat_numeral)
    then have n: "- int ?q * 10 - int ?d = - int n" by simp
    have "atoi_loop m p 0 = atoi_loop m (p + of_nat (length (decimal ?q))) (- int ?q)"
      using "1.IH" [OF False] "1.prems"(1) h(1) by simp
    also have "\<dots> = atoi_loop m (p + of_nat (length (decimal ?q)) + 1) (- int ?q * 10 - int ?d)"
    proof (rule atoi_step)
      show "m (p + of_nat (length (decimal ?q))) = of_nat ?d + 48" by (rule h(2))
      have "int n < 2147483648" "0 \<le> int ?d" using "1.prems"(1) by simp_all
      then have "int ?q * 10 < 2147483648" using sum by linarith
      moreover have "0 \<le> int ?q" by simp
      ultimately show "in_int32 (- int ?q * 10)" unfolding in_int32_def by simp
      show "in_int32 (- int ?q * 10 - int ?d)"
        unfolding n using \<open>int n < 2147483648\<close> by (simp add: in_int32_def)
    qed simp
    finally show ?thesis unfolding n dec by (simp add: algebra_simps)
  qed
qed

lemma atoi_c_string:
  assumes "n < 2 ^ 31" "c_string m p (decimal n)"
  shows "atoi m p = Some (of_nat n)"
proof -
  have "atoi_loop m (p + of_nat (length (decimal n))) (- int n) = Some (- int n)"
    using assms(2) by (subst atoi_loop.simps) (simp add: c_string_def)
  then have "atoi_loop m p 0 = Some (- int n)"
    using atoi_decimal [OF assms(1) c_string_holds [OF assms(2)]] by simp
  moreover have "int n < 2 ^ 31" using assms(1) by simp
  ultimately show ?thesis by (simp add: atoi_def in_int32_def)
qed

subsection \<open>Comparison\<close>

lemma strcmp_loop_iff:
  "i \<le> len \<Longrightarrow> strcmp_loop m str val len i \<longleftrightarrow> (\<forall>k. i \<le> k \<longrightarrow> k < len \<longrightarrow> m (str + ucast k) = m (val + ucast k))"
proof (induction m str val len i rule: strcmp_loop.induct)
  case (1 m str val len i)
  show ?case
  proof (cases "i < len")
    case True
    have le: "i + 1 \<le> len" using plus_one_le [OF True] .
    have up: "i \<le> k \<longleftrightarrow> k = i \<or> i + 1 \<le> k" for k
      using unat_plus_one_less [OF True] by (auto simp: word_nat word_unat_eq_iff)
    show ?thesis
    proof (cases "m (str + ucast i) = m (val + ucast i)")
      case True
      then show ?thesis using "1.IH" \<open>i < len\<close> le up by (subst strcmp_loop.simps) auto
    next
      case False
      then show ?thesis using \<open>i < len\<close> by (subst strcmp_loop.simps) auto
    qed
  next
    case False
    then show ?thesis using 1 by (subst strcmp_loop.simps) auto
  qed
qed

lemma strcmp_iff: "strcmp m str val len \<longleftrightarrow> (\<forall>k < len. m (str + ucast k) = m (val + ucast k))"
  by (simp add: strcmp_def strcmp_loop_iff)

subsection \<open>Hexadecimal digits\<close>

text \<open>Digit \<open>q\<close> of the value at an address, the least significant first.\<close>

definition hex_char :: "memory \<Rightarrow> u64 \<Rightarrow> nat \<Rightarrow> u8" where
  "hex_char m valuePtr q =
     (let b = m (valuePtr + of_nat (q div 2)) in hex_digit (if even q then b AND 0x0F else drop_bit 4 (b AND 0xF0)))"

definition digit_window :: "u64 \<Rightarrow> u64 \<Rightarrow> nat \<Rightarrow> nat \<Rightarrow> u64 set" where
  "digit_window buffer len a b = {buffer + len - of_nat q | q. 2 * a \<le> q \<and> q < 2 * b}"

lemma in_window: "2 * a \<le> q \<Longrightarrow> q < 2 * b \<Longrightarrow> buffer + len - of_nat q \<in> digit_window buffer len a b"
  unfolding digit_window_def by blast

lemma hstring_round_apply:
  "hstring_round valuePtr buffer len i m x =
     (if x = buffer + len - of_nat (i * 2)
      then hex_digit ((if valuePtr + of_nat i = buffer + len - of_nat (i * 2 + 1)
          then hex_digit (drop_bit 4 (m (valuePtr + of_nat i) AND 0xF0)) else m (valuePtr + of_nat i)) AND 0x0F)
      else if x = buffer + len - of_nat (i * 2 + 1) then hex_digit (drop_bit 4 (m (valuePtr + of_nat i) AND 0xF0))
      else m x)"
  by (simp add: hstring_round_def Let_def)

lemma hstring_frame:
  "x \<notin> digit_window buffer len a b \<Longrightarrow> fold (hstring_round valuePtr buffer len) [a..<b] m x = m x"
proof (induction b)
  case (Suc b)
  show ?case
  proof (cases "a \<le> b")
    case True
    have "x \<noteq> buffer + len - of_nat (b * 2)" "x \<noteq> buffer + len - of_nat (b * 2 + 1)"
      using Suc.prems True in_window [of a "b * 2" "Suc b"] in_window [of a "b * 2 + 1" "Suc b"] by auto
    moreover have "x \<notin> digit_window buffer len a b" using Suc.prems by (auto simp: digit_window_def)
    ultimately show ?thesis using Suc.IH True by (simp add: hstring_round_apply del: of_nat_add of_nat_mult)
  qed simp
qed simp

lemma hstring_digits:
  assumes "b < 2 ^ 32" "\<And>i. i < b \<Longrightarrow> valuePtr + of_nat i \<notin> digit_window buffer len 0 b" "q < 2 * b"
  shows "fold (hstring_round valuePtr buffer len) [0..<b] m (buffer + len - of_nat q) = hex_char m valuePtr q"
  using assms
proof (induction b arbitrary: q)
  case (Suc b)
  let ?f = "fold (hstring_round valuePtr buffer len) [0..<b] m"
  have out: "valuePtr + of_nat b \<notin> digit_window buffer len 0 (Suc b)" using Suc.prems(2) [of b] by simp
  then have src: "?f (valuePtr + of_nat b) = m (valuePtr + of_nat b)"
    by (intro hstring_frame) (auto simp: digit_window_def)
  have ne: "valuePtr + of_nat b \<noteq> buffer + len - of_nat (b * 2 + 1)"
  proof
    assume eq: "valuePtr + of_nat b = buffer + len - of_nat (b * 2 + 1)"
    have "buffer + len - of_nat (b * 2 + 1) \<in> digit_window buffer len 0 (Suc b)" by (rule in_window) simp_all
    then show False using out unfolding eq by contradiction
  qed
  have inj: "buffer + len - of_nat j = buffer + len - of_nat k \<longleftrightarrow> j = k" if "j \<le> 2 * b + 1" "k \<le> 2 * b + 1" for j k
    using that Suc.prems(1) small_nat_inj [of j k] by (simp del: of_nat_add of_nat_mult)
  have step: "fold (hstring_round valuePtr buffer len) [0..<Suc b] m x =
      (if x = buffer + len - of_nat (b * 2) then hex_digit (m (valuePtr + of_nat b) AND 0x0F)
       else if x = buffer + len - of_nat (b * 2 + 1) then hex_digit (drop_bit 4 (m (valuePtr + of_nat b) AND 0xF0))
       else ?f x)" for x
    using ne by (simp add: hstring_round_apply src del: of_nat_add of_nat_mult)
  have "q = b * 2 \<or> q = b * 2 + 1 \<or> q < 2 * b" using Suc.prems(3) by arith
  then consider "q = b * 2" | "q = b * 2 + 1" | "q < 2 * b" by blast
  then show ?case
  proof cases
    case 3
    have "?f (buffer + len - of_nat q) = hex_char m valuePtr q"
    proof (rule Suc.IH)
      show "valuePtr + of_nat i \<notin> digit_window buffer len 0 b" if "i < b" for i
        using Suc.prems(2) [of i] that by (auto simp: digit_window_def)
    qed (use Suc.prems 3 in auto)
    then show ?thesis using 3 unfolding step by (simp only: inj) auto
  next
    case 1
    then show ?thesis unfolding step by (simp add: hex_char_def)
  next
    case 2
    then show ?thesis unfolding step 2 by (simp only: inj) (simp add: hex_char_def)
  qed
qed simp

lemma hex_char_nonzero: "hex_char m valuePtr q \<noteq> 0"
proof -
  have d: "hex_digit x \<noteq> 0" if "unat x < 16" for x
  proof -
    have "unat (x + 55) = unat x + 55" "unat (x + 48) = unat x + 48"
      using that by (simp_all add: unat_add_no_wrap)
    then show ?thesis unfolding hex_digit_def by (metis add_is_0 unat_0 zero_neq_numeral)
  qed
  have m: "(0x0F :: u8) = mask 4" "(0xF0 :: u8) = push_bit 4 (mask 4)"
    by (simp_all add: mask_eq_exp_minus_1 push_bit_eq_mult)
  have "drop_bit 4 (b AND 0xF0) = drop_bit 4 b" for b :: u8
    unfolding m by (rule bit_word_eqI) (auto simp: bit_simps dest: bit_imp_le_length)
  moreover have "unat (drop_bit 4 b) < 16" for b :: u8
    by (simp add: drop_bit_eq_div unat_div less_mult_imp_div_less)
  moreover have "unat (b AND 0x0F) < 16" for b :: u8
    unfolding m by (simp add: flip: take_bit_eq_mask) (simp add: unsigned_take_bit_eq take_bit_nat_def)
  ultimately show ?thesis unfolding hex_char_def Let_def by (auto intro!: d)
qed

lemma to_hstring_low:
  assumes b: "c \<le> b" "b < 2 ^ 32" and n: "2 * c = n + 1"
    and src: "\<And>i. i < c \<Longrightarrow> valuePtr + of_nat i \<notin> digit_window buffer (of_nat n) 0 c"
    and k: "k \<le> n"
  shows "fold (hstring_round valuePtr buffer (of_nat n)) [0..<b] m (buffer + of_nat k) = hex_char m valuePtr (n - k)"
proof -
  let ?r = "hstring_round valuePtr buffer (of_nat n)"
  have at: "buffer + of_nat k = buffer + of_nat n - of_nat (n - k)" using k by (simp add: of_nat_diff)
  have "[0..<b] = [0..<c] @ [c..<b]" using b(1) by (metis le0 upt_add_eq_append le_add_diff_inverse add_0)
  then have "fold ?r [0..<b] m = fold ?r [c..<b] (fold ?r [0..<c] m)" by simp
  moreover have "buffer + of_nat n - of_nat (n - k) \<notin> digit_window buffer (of_nat n) c b"
  proof
    assume "buffer + of_nat n - of_nat (n - k) \<in> digit_window buffer (of_nat n) c b"
    then obtain q where q: "2 * c \<le> q" "q < 2 * b" "(of_nat (n - k) :: u64) = of_nat q"
      by (auto simp: digit_window_def simp del: of_nat_diff)
    then have "n - k = q" using b n by (subst (asm) small_nat_inj) auto
    then show False using q(1) n by simp
  qed
  ultimately have "fold ?r [0..<b] m (buffer + of_nat k) = fold ?r [0..<c] m (buffer + of_nat n - of_nat (n - k))"
    unfolding at using hstring_frame by metis
  also have "\<dots> = hex_char m valuePtr (n - k)"
    using b n k src by (intro hstring_digits) auto
  finally show ?thesis .
qed

subsection \<open>Properties\<close>

text \<open>C11: \<open>to_string\<close> leaves in its buffer the zero-terminated decimal representation of every number
  \<open>n\<close> with \<open>\<bar>n\<bar> < 2 ^ 32\<close>, with a minus sign for the negative ones.\<close>

theorem to_string_decimal:
  assumes "\<bar>sint n\<bar> < 2 ^ 32"
  shows "c_string (to_string m buffer n) buffer
    ((if sint n < 0 then [45] else []) @ decimal (nat \<bar>sint n\<bar>))"
  using to_string_c_string [of m buffer n] number_string_small [OF assms] by simp

theorem to_string_decimal_witness:
  "c_string (to_string (\<lambda>_. 0) 0x1000 (- 42)) 0x1000 ([45] @ decimal 42)"
  using to_string_decimal [of "- 42" "\<lambda>_. 0" "0x1000"] by simp

text \<open>In general the magnitude is cut to 32 bits: a multiple of \<open>2 ^ 32\<close> other than zero is printed
  as the empty string.\<close>

theorem to_string_truncates:
  assumes "unat n mod 2 ^ 32 = 0" "n \<noteq> 0" "0 \<le> sint n"
  shows "c_string (to_string m buffer n) buffer []"
proof -
  have "unat (ucast n :: u32) = 0" using assms(1) by (simp add: unsigned_ucast_eq take_bit_nat_def)
  then have "number_string n = []" using assms(2,3) by (simp add: number_string_def Let_def)
  then show ?thesis using to_string_c_string [of m buffer n] by simp
qed

theorem to_string_truncates_witness: "c_string (to_string (\<lambda>_. 7) 0x1000 0x100000000) 0x1000 []"
  by (rule to_string_truncates) simp_all

text \<open>C12: Parsing what was printed gives the number back, for every number from 0 to \<open>2 ^ 31 - 1\<close>.\<close>

theorem atoi_to_string:
  assumes "unat n < 2 ^ 31"
  shows "atoi (to_string m buffer n) buffer = Some n"
proof -
  have small: "uint n < 2 ^ 31" unfolding uint_nat using assms by (metis of_nat_less_iff of_nat_numeral of_nat_power)
  have s: "sint n = int (unat n)" 
  proof -
    note small
    moreover have "- 9223372036854775808 \<le> uint n" by (rule order_trans [of _ 0]) simp_all
    ultimately have "sint n = uint n" unfolding sint_uint by (intro signed_take_bit_int_eq_self) simp_all
    then show ?thesis by simp
  qed
  have "c_string (to_string m buffer n) buffer (decimal (unat n))"
  proof -
    have "\<bar>sint n\<bar> < 2 ^ 32" unfolding s using small by simp
    then have "number_string n = (if sint n < 0 then [45] else []) @ decimal (nat \<bar>sint n\<bar>)"
      by (rule number_string_small)
    then have "number_string n = decimal (unat n)" unfolding s by simp
    then show ?thesis using to_string_c_string [of m buffer n] by simp
  qed
  then have "atoi (to_string m buffer n) buffer = Some (of_nat (unat n))" using assms by (intro atoi_c_string)
  then show ?thesis by simp
qed

theorem atoi_to_string_witness: "atoi (to_string (\<lambda>_. 0) 0x1000 2147483647) 0x1000 = Some 2147483647"
  by (rule atoi_to_string) simp

text \<open>The 64-bit \<open>to_hstring\<close> leaves the sixteen hexadecimal digits of the value, most significant
  first and terminated, when the value does not lie in the written window, although it also writes
  the fourteen bytes before the buffer.\<close>

theorem to_hstring64_digits:
  assumes "\<And>i. i < 8 \<Longrightarrow> valuePtr + of_nat i \<notin> digit_window buffer 15 0 8"
  shows "c_string (to_hstring64 buffer m valuePtr) buffer (map (\<lambda>k. hex_char m valuePtr (15 - k)) [0..<16])
    \<and> (\<forall>x. x \<notin> digit_window buffer 15 0 15 \<longrightarrow> x \<noteq> buffer + 16 \<longrightarrow> to_hstring64 buffer m valuePtr x = m x)"
proof -
  have "fold (hstring_round valuePtr buffer 15) [0..<15] m (buffer + of_nat k) = hex_char m valuePtr (15 - k)"
    if "k < 16" for k
    using to_hstring_low [of 8 15 15 valuePtr buffer k m] assms that by simp
  moreover have "buffer + of_nat k \<noteq> buffer + 16" if "k < 16" for k
    using that small_nat_inj [of k 16] by simp
  ultimately show ?thesis
    by (auto simp: c_string_def to_hstring64_def Let_def hex_char_nonzero hstring_frame)
qed

theorem to_hstring64_digits_witness:
  "c_string (to_hstring64 0x1000 (\<lambda>a. if a = 0x5000 then 0xAB else 0) 0x5000) 0x1000
    (map (\<lambda>k. hex_char (\<lambda>a. if a = 0x5000 then 0xAB else 0) 0x5000 (15 - k)) [0..<16])"
proof -
  have "0x5000 + of_nat i \<notin> digit_window 0x1000 15 0 8" if "i < 8" for i
  proof
    assume "0x5000 + of_nat i \<in> digit_window 0x1000 15 0 8"
    then obtain q where q: "q < 16" "0x5000 + of_nat i = 0x1000 + 15 - (of_nat q :: u64)" by (auto simp: digit_window_def)
    then have "of_nat (0x5000 + i + q) = (of_nat 0x100f :: u64)" by (simp add: algebra_simps)
    then show False using q(1) that by (subst (asm) small_nat_inj) auto
  qed
  then show ?thesis using to_hstring64_digits by blast
qed

text \<open>The 32-bit \<open>to_hstring\<close> shows only the low 16 bits, and stores its terminator in the buffer of
  the 64-bit variant.\<close>

theorem to_hstring32_low_half:
  assumes "\<And>i. i < 2 \<Longrightarrow> valuePtr + of_nat i \<notin> digit_window buffer 3 0 2"
    and "m (buffer + 4) = 0" "hexToString + 4 \<notin> region buffer 5"
  shows "c_string (to_hstring32 hexToString buffer m valuePtr) buffer (map (\<lambda>k. hex_char m valuePtr (3 - k)) [0..<4])
    \<and> to_hstring32 hexToString buffer m valuePtr (hexToString + 4) = 0"
proof -
  let ?f = "fold (hstring_round valuePtr buffer 3) [0..<3] m"
  have lo: "?f (buffer + of_nat k) = hex_char m valuePtr (3 - k)" if "k < 4" for k
    using to_hstring_low [of 2 3 3 valuePtr buffer k m] assms(1) that by simp
  have ne: "buffer + of_nat k \<noteq> hexToString + 4" if "k < 5" for k
    using assms(3) in_region_of_nat [of k 5 buffer] that by auto
  have "buffer + 4 \<notin> digit_window buffer 3 0 3"
  proof
    assume "buffer + 4 \<in> digit_window buffer 3 0 3"
    then obtain q where q: "q < 6" "(4 :: u64) = 3 - of_nat q" by (auto simp: digit_window_def algebra_simps)
    then have "of_nat (4 + q) = (of_nat 3 :: u64)" by (simp add: algebra_simps)
    then show False using q(1) by (subst (asm) small_nat_inj) auto
  qed
  then have "?f (buffer + 4) = 0" using assms(2) by (simp add: hstring_frame)
  then show ?thesis
    using lo ne ne [of 4] by (auto simp: c_string_def to_hstring32_def Let_def hex_char_nonzero)
qed

theorem to_hstring32_low_half_witness:
  "c_string (to_hstring32 0x2000 0x1000 (\<lambda>a. if a = 0x5002 then 0xAB else 0) 0x5000) 0x1000
    (map (\<lambda>k. hex_char (\<lambda>a. if a = 0x5002 then 0xAB else 0) 0x5000 (3 - k)) [0..<4])"
proof -
  have "0x5000 + of_nat i \<notin> digit_window 0x1000 3 0 2" if "i < 2" for i
  proof
    assume "0x5000 + of_nat i \<in> digit_window 0x1000 3 0 2"
    then obtain q where q: "q < 4" "0x5000 + of_nat i = 0x1000 + 3 - (of_nat q :: u64)" by (auto simp: digit_window_def)
    then have "of_nat (0x5000 + i + q) = (of_nat 0x1003 :: u64)" by (simp add: algebra_simps)
    then show False using q(1) that by (subst (asm) small_nat_inj) auto
  qed
  moreover have "0x2000 + 4 \<notin> region (0x1000 :: u64) 5" by (simp add: region_def)
  ultimately show ?thesis using to_hstring32_low_half [of "0x5000" "0x1000" _ "0x2000"] by simp
qed

text \<open>\<open>strcmp\<close> holds exactly when the two strings agree on the given number of bytes.\<close>

theorem strcmp_compares: "strcmp m str val len = (\<forall>k < unat len. m (str + of_nat k) = m (val + of_nat k))"
proof
  assume l: "strcmp m str val len"
  show "\<forall>k < unat len. m (str + of_nat k) = m (val + of_nat k)"
  proof (intro allI impI)
    fix k assume k: "k < unat len"
    then have "k < 65536" using unat_lt_u16 by (rule less_trans)
    then have u: "unat (of_nat k :: u16) = k" by (intro unat_of_nat_lt) simp
    then have "(of_nat k :: u16) < len" using k by (simp add: word_less_nat_alt)
    moreover have "(of_nat (unat (of_nat k :: u16)) :: u64) = ucast (of_nat k :: u16)" by (rule of_nat_unat)
    then have "ucast (of_nat k :: u16) = (of_nat k :: u64)" unfolding u by simp
    ultimately show "m (str + of_nat k) = m (val + of_nat k)"
      using l [unfolded strcmp_iff, rule_format, of "of_nat k"] by simp
  qed
next
  assume r: "\<forall>k < unat len. m (str + of_nat k) = m (val + of_nat k)"
  have "m (str + ucast k) = m (val + ucast k)" if "k < len" for k :: u16
    using r [rule_format, of "unat k"] that by (simp add: word_less_nat_alt)
  then show "strcmp m str val len" by (simp add: strcmp_iff)
qed

theorem strcmp_compares_witness: "strcmp (\<lambda>a. if a < 100 then 1 else 0) 8 16 5"
proof -
  have "(8 :: u64) + of_nat k < 100" "(16 :: u64) + of_nat k < 100" if "k < 5" for k
  proof -
    have "k = 0 \<or> k = 1 \<or> k = 2 \<or> k = 3 \<or> k = 4" using that by arith
    then show "(8 :: u64) + of_nat k < 100" "(16 :: u64) + of_nat k < 100" by (elim disjE; simp)+
  qed
  then show ?thesis by (subst strcmp_compares) simp
qed

end
