(* ===== verification/Renderer.thy ===== *)
theory Renderer
  imports Heap CStr
begin

text \<open>
  The text renderer on the linear frame buffer, \<open>kernel/src/BasicRenderer.cpp\<close>, with \<open>panic.cpp\<close>
  and \<open>utils.cpp\<close>. A pixel is a 32-bit store; the address of pixel \<open>(x, y)\<close> is computed as the
  source does, the product in 32 bits. The frame buffer descriptor and the font header are part of
  the state, the glyphs and the pixels are memory. String literals are lists of characters; a
  string that is printed from memory need not end, so \<open>Print\<close> is a computation in \<open>option\<close>.
\<close>

record PSF1_FONT =
  font_magic0 :: u8
  font_magic1 :: u8
  fontMode :: u8
  characterSize :: u8
  glyphBuffer :: u64

record gfx = heap +
  TargetFrameBuffer :: FrameBuffer
  Font :: PSF1_FONT
  color :: u32
  cursor_x :: u32
  cursor_y :: u32
  to_string_buffer :: u64
  doubleToString :: u64

text \<open>\<open>for (unsigned int i = lo; i < hi; i++)\<close>.\<close>

function for_u32 :: "u32 \<Rightarrow> u32 \<Rightarrow> (u32 \<Rightarrow> 's \<Rightarrow> 's) \<Rightarrow> 's \<Rightarrow> 's" where
  "for_u32 i n f s = (if i < n then for_u32 (i + 1) n f (f i s) else s)"
  by pat_completeness auto
termination
proof (relation "measure (\<lambda>(i, n, f, s). unat n - unat i)")
  fix i n :: u32 and f :: "u32 \<Rightarrow> 's \<Rightarrow> 's" and s :: 's
  assume lt: "i < n"
  then have "unat (i + 1) = Suc (unat i)" by (rule unat_plus_one_less)
  with lt show "((i + 1, n, f, f i s), i, n, f, s) \<in> measure (\<lambda>(i, n, f, s). unat n - unat i)"
    by (simp add: word_less_nat_alt diff_less_mono2)
qed simp

declare for_u32.simps [simp del]

definition pixel :: "FrameBuffer \<Rightarrow> u32 \<Rightarrow> u32 \<Rightarrow> u64" where
  "pixel fb x y = BaseAddress fb + 4 * ucast x + 4 * ucast (y * PixelsPerScanline fb)"

definition set_pixel :: "u32 \<Rightarrow> u32 \<Rightarrow> u32 \<Rightarrow> 'a gfx_scheme \<Rightarrow> 'a gfx_scheme" where
  "set_pixel c x y s = s\<lparr>mem := write32 (mem s) (pixel (TargetFrameBuffer s) x y) c\<rparr>"

definition BasicRenderer :: "FrameBuffer \<Rightarrow> PSF1_FONT \<Rightarrow> 'a gfx_scheme \<Rightarrow> 'a gfx_scheme" where
  "BasicRenderer fb font s =
     s\<lparr>TargetFrameBuffer := fb, Font := font, color := 0xffffffff, cursor_x := 0, cursor_y := 0\<rparr>"

text \<open>\<open>Clear\<close>: the inner loop runs over pointers, so it may wrap around; the counter of rows is an \<open>int\<close>.\<close>

partial_function (option) clear_row :: "u32 \<Rightarrow> u64 \<Rightarrow> u64 \<Rightarrow> memory \<Rightarrow> memory option" where
  "clear_row c pxlPtr stop m =
     (if pxlPtr < stop then clear_row c (pxlPtr + 4) stop (write32 m pxlPtr c) else Some m)"

partial_function (option) clear_rows :: "u32 \<Rightarrow> FrameBuffer \<Rightarrow> u64 \<Rightarrow> memory \<Rightarrow> memory option" where
  "clear_rows c fb v m =
     (if v < ucast (Height fb) then do {
        let bytesPerScanline = ucast (PixelsPerScanline fb * 4);
        let pxlPtrBase = BaseAddress fb + bytesPerScanline * v;
        m \<leftarrow> clear_row c pxlPtrBase (pxlPtrBase + bytesPerScanline) m;
        if v = 0x7FFFFFFF then None else clear_rows c fb (v + 1) m
      } else Some m)"

definition Clear :: "u32 \<Rightarrow> 'a gfx_scheme \<Rightarrow> 'a gfx_scheme option" where
  "Clear c s = do { m \<leftarrow> clear_rows c (TargetFrameBuffer s) 0 (mem s); Some (s\<lparr>mem := m\<rparr>) }"

definition NextLine :: "'a gfx_scheme \<Rightarrow> 'a gfx_scheme" where
  "NextLine s = s\<lparr>cursor_x := 0, cursor_y := cursor_y s + 18\<rparr>"

text \<open>One row of a glyph, for the font byte at \<open>fontPtr\<close>; the byte is read again for every column.\<close>

definition glyph_row :: "u64 \<Rightarrow> u32 \<Rightarrow> 'a gfx_scheme \<Rightarrow> 'a gfx_scheme" where
  "glyph_row fontPtr y s =
     for_u32 (cursor_x s) (cursor_x s + 8)
       (\<lambda>x s. if mem s fontPtr AND drop_bit (unat (x - cursor_x s)) 0x80 > 0 then set_pixel (color s) x y s else s) s"

definition PutChar :: "u8 \<Rightarrow> 'a gfx_scheme \<Rightarrow> 'a gfx_scheme" where
  "PutChar ch s =
     (let fontPtr = glyphBuffer (Font s) + of_int (sint ch * uint (characterSize (Font s)));
          (s, fontPtr) = for_u32 (cursor_y s) (cursor_y s + 16)
            (\<lambda>y (s, fontPtr). (glyph_row fontPtr y s, fontPtr + 1)) (s, fontPtr);
          s = s\<lparr>cursor_x := cursor_x s + 8\<rparr>
      in if cursor_x s + 8 > Width (TargetFrameBuffer s)
         then s\<lparr>cursor_x := 0, cursor_y := cursor_y s + 16\<rparr> else s)"

text \<open>\<open>RemoveChar\<close> counts the column down from the cursor while it is above the cursor minus eight.\<close>

function erase_columns :: "u32 \<Rightarrow> u32 \<Rightarrow> u32 \<Rightarrow> 'a gfx_scheme \<Rightarrow> 'a gfx_scheme" where
  "erase_columns x stop y s =
     (if x > stop then erase_columns (x - 1) stop y (set_pixel 0x272829 x y s) else s)"
  by pat_completeness auto
termination
proof (relation "measure (\<lambda>(x, stop, y, s). unat x)")
  fix x stop y :: u32 and s :: "'a gfx_scheme"
  assume "x > stop"
  then have "unat x \<noteq> 0" by (simp add: word_less_nat_alt)
  then have "unat (x - 1) = unat x - 1" "unat x - 1 < unat x" by (simp_all add: unat_sub word_le_nat_alt)
  then show "((x - 1, stop, y, set_pixel 0x272829 x y s), x, stop, y, s) \<in> measure (\<lambda>(x, stop, y, s). unat x)" by simp
qed simp

declare erase_columns.simps [simp del]

definition RemoveChar :: "'a gfx_scheme \<Rightarrow> 'a gfx_scheme" where
  "RemoveChar s =
     (let s = for_u32 (cursor_y s) (cursor_y s + 16) (\<lambda>y s. erase_columns (cursor_x s) (cursor_x s - 8) y s) s
      in s\<lparr>cursor_x := cursor_x s - 8\<rparr>)"

partial_function (option) Print :: "u64 \<Rightarrow> 'a gfx_scheme \<Rightarrow> 'a gfx_scheme option" where
  "Print chr s = (if mem s chr \<noteq> 0 then Print (chr + 1) (PutChar (mem s chr) s) else Some s)"

definition lit :: "string \<Rightarrow> u8 list" where
  "lit cs = map of_char cs"

definition Print_lit :: "string \<Rightarrow> 'a gfx_scheme \<Rightarrow> 'a gfx_scheme" where
  "Print_lit cs s = fold PutChar (lit cs) s"

definition PrintNL :: "u64 \<Rightarrow> 'a gfx_scheme \<Rightarrow> 'a gfx_scheme option" where
  "PrintNL str s = do { s \<leftarrow> Print str s; Some (NextLine s) }"

definition PrintNL_lit :: "string \<Rightarrow> 'a gfx_scheme \<Rightarrow> 'a gfx_scheme" where
  "PrintNL_lit cs s = NextLine (Print_lit cs s)"

definition PutPixel :: "u32 \<Rightarrow> u32 \<Rightarrow> 'a gfx_scheme \<Rightarrow> 'a gfx_scheme" where
  "PutPixel x y s = set_pixel (color s) x y s"

subsection \<open>Panic and sizes\<close>

definition Panic :: "u64 \<Rightarrow> 'a gfx_scheme \<Rightarrow> 'a gfx_scheme option" where
  "Panic message s = do {
     s \<leftarrow> Clear 0xffffffff s;
     let s = s\<lparr>color := 0, cursor_x := 0, cursor_y := 0\<rparr>;
     let s = NextLine (NextLine (Print_lit ''Damn! We broke :('' s));
     Print message s
   }"

text \<open>\<open>to_string((double) n)\<close> with two decimals, for a whole number below \<open>2 ^ 31\<close>: the whole part is
  copied up to its terminator, the digits after the point are those of zero. Above, the
  conversion of the value to \<open>int\<close> is undefined.\<close>

partial_function (option) copy_digits :: "memory \<Rightarrow> u64 \<Rightarrow> u64 \<Rightarrow> (memory \<times> u64) option" where
  "copy_digits m intPtr doublePtr =
     (if m intPtr \<noteq> 0 then copy_digits (m(doublePtr := m intPtr)) (intPtr + 1) (doublePtr + 1)
      else Some (m, doublePtr))"

definition to_string_double :: "u64 \<Rightarrow> 'a gfx_scheme \<Rightarrow> 'a gfx_scheme option" where
  "to_string_double n s =
     (if n < 2 ^ 31 then do {
        let m = to_string (mem s) (to_string_buffer s) n;
        (m, doublePtr) \<leftarrow> copy_digits m (to_string_buffer s) (doubleToString s);
        let m = m(doublePtr := 46);
        let m = m(doublePtr + 1 := 48);
        let m = m(doublePtr + 1 + 1 := 48);
        Some (s\<lparr>mem := m(doublePtr + 1 + 1 + 1 := 0)\<rparr>)
      } else None)"

definition PrintMemorySize :: "u64 \<Rightarrow> 'a gfx_scheme \<Rightarrow> 'a gfx_scheme option" where
  "PrintMemorySize sizeInBytes s =
     (let (n, unit) = (if sizeInBytes > 1024 * 1024 * 1024 then (sizeInBytes div (1024 * 1024 * 1024), '' GB'')
          else if sizeInBytes > 1024 * 1024 then (sizeInBytes div (1024 * 1024), '' MB'')
          else if sizeInBytes > 1024 then (sizeInBytes div 1024, '' KB'')
          else (sizeInBytes, '' B''))
      in do {
        s \<leftarrow> to_string_double n s;
        s \<leftarrow> Print (doubleToString s) s;
        Some (Print_lit unit s)
      })"

subsection \<open>The loops\<close>

lemma u32_limit: "(2 ^ 32 :: nat) = 4294967296"
  by simp

lemma for_u32_step: "i < n \<Longrightarrow> for_u32 i n f s = for_u32 (i + 1) n f (f i s)"
  by (subst for_u32.simps) simp

lemma for_u32_stop [simp]: "\<not> i < n \<Longrightarrow> for_u32 i n f s = s"
  by (subst for_u32.simps) simp

lemma for_u32_inv:
  assumes "i \<le> n" and "P i s"
    and step: "\<And>k s. i \<le> k \<Longrightarrow> k < n \<Longrightarrow> P k s \<Longrightarrow> P (k + 1) (f k s)"
  shows "P n (for_u32 i n f s)"
  using assms
proof (induction i n f s rule: for_u32.induct)
  case (1 i n f s)
  show ?case
  proof (cases "i < n")
    case True
    have "i \<le> i + 1" using unat_plus_one_less [OF True] by (simp add: word_le_nat_alt)
    then have "P n (for_u32 (i + 1) n f (f i s))"
      using True 1 by (intro "1.IH") (auto intro: plus_one_le)
    then show ?thesis using True by (simp add: for_u32_step)
  next
    case False
    with "1.prems" show ?thesis by (simp add: not_less)
  qed
qed

subsection \<open>Pixels\<close>

text \<open>A screen fits into the address space and into the 32-bit product of a line and its length.\<close>

definition cells :: "FrameBuffer \<Rightarrow> nat" where
  "cells fb = unat (PixelsPerScanline fb) * unat (Height fb)"

definition screen_ok :: "FrameBuffer \<Rightarrow> bool" where
  "screen_ok fb \<longleftrightarrow> cells fb < 2 ^ 32
     \<and> unat (BaseAddress fb) + 4 * (cells fb) \<le> 2 ^ 64"

definition on_screen :: "FrameBuffer \<Rightarrow> u32 \<Rightarrow> u32 \<Rightarrow> bool" where
  "on_screen fb x y \<longleftrightarrow> x < PixelsPerScanline fb \<and> y < Height fb"

definition screen :: "FrameBuffer \<Rightarrow> u64 set" where
  "screen fb = region (BaseAddress fb) (4 * (cells fb))"

definition pixel_index :: "FrameBuffer \<Rightarrow> u32 \<Rightarrow> u32 \<Rightarrow> nat" where
  "pixel_index fb x y = unat x + unat y * unat (PixelsPerScanline fb)"

lemma pixel_index_bound:
  "on_screen fb x y \<Longrightarrow> pixel_index fb x y + 1 \<le> cells fb"
proof -
  assume "on_screen fb x y"
  then have x: "unat x < unat (PixelsPerScanline fb)" and y: "unat y < unat (Height fb)"
    by (simp_all add: on_screen_def word_less_nat_alt)
  have "pixel_index fb x y + 1 \<le> (unat y + 1) * unat (PixelsPerScanline fb)" using x by (simp add: pixel_index_def)
  also have "\<dots> \<le> unat (Height fb) * unat (PixelsPerScanline fb)" using y by (intro mult_le_mono1) simp
  finally show ?thesis by (simp add: mult.commute cells_def)
qed

lemma pixel_address:
  assumes "screen_ok fb" "on_screen fb x y"
  shows "pixel fb x y = BaseAddress fb + of_nat (4 * pixel_index fb x y)"
proof -
  have "unat y * unat (PixelsPerScanline fb) < 2 ^ 32"
    using pixel_index_bound [OF assms(2)] assms(1) by (simp add: pixel_index_def screen_ok_def)
  then have "unat (y * PixelsPerScanline fb) = unat y * unat (PixelsPerScanline fb)"
    using unat_mult_lem [of y "PixelsPerScanline fb"] by simp
  moreover have "(ucast (y * PixelsPerScanline fb) :: u64) = of_nat (unat (y * PixelsPerScanline fb))"
    "(ucast x :: u64) = of_nat (unat x)" by (rule of_nat_unat [symmetric])+
  ultimately show ?thesis by (simp add: pixel_def pixel_index_def algebra_simps)
qed

lemma pixel_index_inj:
  assumes "on_screen fb x y" "on_screen fb x' y'" "pixel_index fb x y = pixel_index fb x' y'"
  shows "x = x' \<and> y = y'"
proof -
  let ?p = "unat (PixelsPerScanline fb)"
  have x: "unat x < ?p" "unat x' < ?p" using assms(1,2) by (simp_all add: on_screen_def word_less_nat_alt)
  have "(unat x + unat y * ?p) mod ?p = (unat x' + unat y' * ?p) mod ?p"
    "(unat x + unat y * ?p) div ?p = (unat x' + unat y' * ?p) div ?p"
    using assms(3) by (simp_all add: pixel_index_def)
  then have "unat x = unat x'" "unat y = unat y'" using x by simp_all
  then show ?thesis by (simp add: word_unat_eq_iff)
qed

lemma screen_bound: "screen_ok fb \<Longrightarrow> 4 * (cells fb) < 2 ^ 64"
  by (simp add: screen_ok_def)

lemma pixels_apart:
  assumes "screen_ok fb" "on_screen fb x y" "on_screen fb x' y'" "(x, y) \<noteq> (x', y')"
  shows "region (pixel fb x y) 4 \<inter> region (pixel fb x' y') 4 = {}"
proof -
  have b: "4 * pixel_index fb x y + 4 < 2 ^ 64" "4 * pixel_index fb x' y' + 4 < 2 ^ 64"
    using pixel_index_bound [OF assms(2)] pixel_index_bound [OF assms(3)] assms(1) by (simp_all add: screen_ok_def)
  have "pixel_index fb x y \<noteq> pixel_index fb x' y'" using pixel_index_inj [OF assms(2,3)] assms(4) by auto
  then consider "pixel_index fb x y < pixel_index fb x' y'" | "pixel_index fb x' y' < pixel_index fb x y" by linarith
  then show ?thesis
    unfolding pixel_address [OF assms(1,2)] pixel_address [OF assms(1,3)]
    using regions_apart [of "4 * pixel_index fb x y" 4 "4 * pixel_index fb x' y'" 4 "BaseAddress fb"]
      regions_apart [of "4 * pixel_index fb x' y'" 4 "4 * pixel_index fb x y" 4 "BaseAddress fb"] b
    by cases (auto simp del: of_nat_mult)
qed

lemma pixel_in_screen:
  assumes "screen_ok fb" "on_screen fb x y"
  shows "region (pixel fb x y) 4 \<subseteq> screen fb"
proof
  fix a assume "a \<in> region (pixel fb x y) 4"
  then show "a \<in> screen fb"
    unfolding pixel_address [OF assms] screen_def
    using pixel_index_bound [OF assms(2)] screen_bound [OF assms(1)] by (elim region_sub) simp_all
qed

text \<open>\<open>painted fb c P m m'\<close>: the pixels of \<open>P\<close> have the colour \<open>c\<close>, the others are as before, and so
  is all memory outside the screen.\<close>

definition painted :: "FrameBuffer \<Rightarrow> u32 \<Rightarrow> (u32 \<times> u32) set \<Rightarrow> memory \<Rightarrow> memory \<Rightarrow> bool" where
  "painted fb c P m m' \<longleftrightarrow>
     (\<forall>x y. on_screen fb x y \<longrightarrow> read32 m' (pixel fb x y) = (if (x, y) \<in> P then c else read32 m (pixel fb x y)))
     \<and> (\<forall>a. a \<notin> screen fb \<longrightarrow> m' a = m a)"

lemma painted_empty [simp]: "painted fb c {} m m"
  by (simp add: painted_def)

lemma painted_step:
  assumes ok: "screen_ok fb" "on_screen fb x y" and p: "painted fb c P m m'"
  shows "painted fb c (insert (x, y) P) m (write32 m' (pixel fb x y) c)"
  unfolding painted_def
proof (intro conjI allI impI)
  fix x' y' assume o: "on_screen fb x' y'"
  show "read32 (write32 m' (pixel fb x y) c) (pixel fb x' y')
      = (if (x', y') \<in> insert (x, y) P then c else read32 m (pixel fb x' y'))"
  proof (cases "(x, y) = (x', y')")
    case False
    have "read32 (write32 m' (pixel fb x y) c) (pixel fb x' y') = read32 m' (pixel fb x' y')"
      using pixels_apart [OF ok o False] by (simp add: read32_def write32_def load_store_disjoint)
    then show ?thesis using False p o by (auto simp: painted_def)
  qed auto
next
  fix a assume "a \<notin> screen fb"
  then show "write32 m' (pixel fb x y) c a = m a"
    using pixel_in_screen [OF ok] p by (subst write32_outside) (auto simp: painted_def)
qed

lemma painted_trans: "painted fb c P m m' \<Longrightarrow> painted fb c Q m' m'' \<Longrightarrow> painted fb c (P \<union> Q) m m''"
  by (auto simp: painted_def)

subsection \<open>Drawing a character\<close>

lemma font_bit: "k < 8 \<Longrightarrow> b AND drop_bit k (0x80 :: u8) > 0 \<longleftrightarrow> bit b (7 - k)"
  by (simp add: bit_indexer and_exp_positive)

definition row_pixels :: "u8 \<Rightarrow> u32 \<Rightarrow> u32 \<Rightarrow> u32 \<Rightarrow> (u32 \<times> u32) set" where
  "row_pixels b cx n y = {(x, y') | x y'. y' = y \<and> cx \<le> x \<and> x < n \<and> bit b (7 - unat (x - cx))}"

lemma row_pixels_next:
  assumes "cx \<le> x" "unat x + 1 < 2 ^ 32"
  shows "row_pixels b cx (x + 1) y =
    (if bit b (7 - unat (x - cx)) then insert (x, y) (row_pixels b cx x y) else row_pixels b cx x y)"
proof -
  have lt: "x' < x + 1 \<longleftrightarrow> x' < x \<or> x' = x" for x'
    using assms(2) by (auto simp: word_less_nat_alt unat_add_no_wrap word_unat_eq_iff)
  show ?thesis using assms(1) by (auto simp: row_pixels_def lt)
qed

lemma glyph_row_painted:
  assumes ok: "screen_ok (TargetFrameBuffer s)"
    and cell: "unat (cursor_x s) + 8 \<le> unat (PixelsPerScanline (TargetFrameBuffer s))" "y < Height (TargetFrameBuffer s)"
    and font: "fontPtr \<notin> screen (TargetFrameBuffer s)"
  shows "\<exists>m'. glyph_row fontPtr y s = s\<lparr>mem := m'\<rparr> \<and>
    painted (TargetFrameBuffer s) (color s) (row_pixels (mem s fontPtr) (cursor_x s) (cursor_x s + 8) y) (mem s) m'"
proof -
  let ?fb = "TargetFrameBuffer s" and ?b = "mem s fontPtr" and ?cx = "cursor_x s"
  let ?f = "\<lambda>x s'. if mem s' fontPtr AND drop_bit (unat (x - cursor_x s')) 0x80 > 0 then set_pixel (color s') x y s' else s'"
  have w: "unat ?cx + 8 < 2 ^ 32" by (simp only: u32_limit) (rule le_less_trans [OF cell(1) unat_lt_u32])
  then have e: "unat (?cx + 8) = unat ?cx + 8" by (subst unat_add_no_wrap) simp_all
  have "\<exists>m'. for_u32 ?cx (?cx + 8) ?f s = s\<lparr>mem := m'\<rparr> \<and> painted ?fb (color s) (row_pixels ?b ?cx (?cx + 8) y) (mem s) m'"
  proof (rule for_u32_inv [where P = "\<lambda>x t. \<exists>m'. t = s\<lparr>mem := m'\<rparr> \<and> painted ?fb (color s) (row_pixels ?b ?cx x y) (mem s) m'"])
    show "?cx \<le> ?cx + 8" using e by (simp add: word_le_nat_alt)
    have "row_pixels ?b ?cx ?cx y = {}" by (auto simp: row_pixels_def)
    then show "\<exists>m'. s = s\<lparr>mem := m'\<rparr> \<and> painted ?fb (color s) (row_pixels ?b ?cx ?cx y) (mem s) m'"
      by (intro exI [of _ "mem s"]) simp
  next
    fix x t
    assume x: "?cx \<le> x" "x < ?cx + 8" and t: "\<exists>m'. t = s\<lparr>mem := m'\<rparr> \<and> painted ?fb (color s) (row_pixels ?b ?cx x y) (mem s) m'"
    then obtain m' where m': "t = s\<lparr>mem := m'\<rparr>" "painted ?fb (color s) (row_pixels ?b ?cx x y) (mem s) m'" by blast
    have ux: "unat ?cx \<le> unat x" "unat x < unat ?cx + 8" using x e by (simp_all add: word_le_nat_alt word_less_nat_alt)
    then have k: "unat (x - ?cx) < 8" using x(1) by (simp add: unat_sub)
    have on: "on_screen ?fb x y" using ux cell by (simp add: on_screen_def word_less_nat_alt)
    have b: "m' fontPtr = ?b" using m'(2) font by (simp add: painted_def)
    have nx: "row_pixels ?b ?cx (x + 1) y =
        (if bit ?b (7 - unat (x - ?cx)) then insert (x, y) (row_pixels ?b ?cx x y) else row_pixels ?b ?cx x y)"
      using ux w by (intro row_pixels_next x(1)) simp
    show "\<exists>m'. ?f x t = s\<lparr>mem := m'\<rparr> \<and> painted ?fb (color s) (row_pixels ?b ?cx (x + 1) y) (mem s) m'"
      using painted_step [OF ok on m'(2)] m'(2) unfolding nx
      by (auto simp: m'(1) b font_bit [OF k] set_pixel_def)
  qed
  then show ?thesis by (simp add: glyph_row_def)
qed

text \<open>The pixels of a glyph whose rows start at an address, for a cell with the upper left corner
  \<open>(cx, cy)\<close>, down to a line.\<close>

definition glyph_pixels :: "memory \<Rightarrow> u64 \<Rightarrow> u32 \<Rightarrow> u32 \<Rightarrow> u32 \<Rightarrow> (u32 \<times> u32) set" where
  "glyph_pixels m fontPtr cx cy n =
     {(x, y) | x y. cy \<le> y \<and> y < n \<and> cx \<le> x \<and> x < cx + 8 \<and> bit (m (fontPtr + ucast (y - cy))) (7 - unat (x - cx))}"

definition glyph_at :: "PSF1_FONT \<Rightarrow> u8 \<Rightarrow> u64" where
  "glyph_at font ch = glyphBuffer font + of_int (sint ch * uint (characterSize font))"

text \<open>What drawing a character needs: its cell is on the screen and its glyph is not.\<close>

definition cell_ok :: "'a gfx_scheme \<Rightarrow> bool" where
  "cell_ok s \<longleftrightarrow> screen_ok (TargetFrameBuffer s)
     \<and> unat (cursor_x s) + 8 \<le> unat (PixelsPerScanline (TargetFrameBuffer s))
     \<and> unat (cursor_y s) + 16 \<le> unat (Height (TargetFrameBuffer s))"

definition glyph_outside :: "'a gfx_scheme \<Rightarrow> u8 \<Rightarrow> bool" where
  "glyph_outside s ch \<longleftrightarrow> (\<forall>k < 16. glyph_at (Font s) ch + of_nat k \<notin> screen (TargetFrameBuffer s))"

lemma PutChar_painted:
  assumes c: "cell_ok s" and g: "glyph_outside s ch"
  defines "P \<equiv> glyph_pixels (mem s) (glyph_at (Font s) ch) (cursor_x s) (cursor_y s) (cursor_y s + 16)"
  shows "\<exists>m'. painted (TargetFrameBuffer s) (color s) P (mem s) m' \<and>
    PutChar ch s = (if cursor_x s + 8 + 8 > Width (TargetFrameBuffer s)
      then s\<lparr>mem := m', cursor_x := 0, cursor_y := cursor_y s + 16\<rparr> else s\<lparr>mem := m', cursor_x := cursor_x s + 8\<rparr>)"
proof -
  let ?fb = "TargetFrameBuffer s" and ?g = "glyph_at (Font s) ch" and ?cy = "cursor_y s"
  let ?P = "glyph_pixels (mem s) ?g (cursor_x s) ?cy"
  let ?f = "\<lambda>y (s, fontPtr). (glyph_row fontPtr y s, fontPtr + 1)"
  have ok: "screen_ok ?fb" using c by (simp add: cell_ok_def)
  have h: "unat ?cy + 16 \<le> unat (Height ?fb)" using c by (simp add: cell_ok_def)
  have w: "unat ?cy + 16 < 2 ^ 32" by (simp only: u32_limit) (rule le_less_trans [OF h unat_lt_u32])
  then have e: "unat (?cy + 16) = unat ?cy + 16" by (subst unat_add_no_wrap) simp_all
  have "\<exists>m'. for_u32 ?cy (?cy + 16) ?f (s, ?g) = (s\<lparr>mem := m'\<rparr>, ?g + ucast (?cy + 16 - ?cy)) \<and> painted ?fb (color s) (?P (?cy + 16)) (mem s) m'"
  proof (rule for_u32_inv [where P = "\<lambda>y t. \<exists>m'. t = (s\<lparr>mem := m'\<rparr>, ?g + ucast (y - ?cy)) \<and> painted ?fb (color s) (?P y) (mem s) m'"])
    show "?cy \<le> ?cy + 16" using e by (simp add: word_le_nat_alt)
    have "?P ?cy = {}" by (auto simp: glyph_pixels_def)
    then show "\<exists>m'. (s, ?g) = (s\<lparr>mem := m'\<rparr>, ?g + ucast (?cy - ?cy)) \<and> painted ?fb (color s) (?P ?cy) (mem s) m'"
      by (intro exI [of _ "mem s"]) simp
  next
    fix y t
    assume y: "?cy \<le> y" "y < ?cy + 16"
      and t: "\<exists>m'. t = (s\<lparr>mem := m'\<rparr>, ?g + ucast (y - ?cy)) \<and> painted ?fb (color s) (?P y) (mem s) m'"
    then obtain m' where m': "t = (s\<lparr>mem := m'\<rparr>, ?g + ucast (y - ?cy))" "painted ?fb (color s) (?P y) (mem s) m'" by blast
    have uy: "unat ?cy \<le> unat y" "unat y < unat ?cy + 16" using y e by (simp_all add: word_le_nat_alt word_less_nat_alt)
    then have k: "unat (y - ?cy) < 16" using y(1) by (simp add: unat_sub)
    let ?fp = "?g + ucast (y - ?cy)"
    have "(of_nat (unat (y - ?cy)) :: u64) = ucast (y - ?cy)" by (rule of_nat_unat)
    then have out: "?fp \<notin> screen ?fb" using g k unfolding glyph_outside_def by metis
    have yh: "y < Height ?fb" using uy h by (simp add: word_less_nat_alt)
    obtain m'' where m'': "glyph_row ?fp y (s\<lparr>mem := m'\<rparr>) = s\<lparr>mem := m''\<rparr>"
        "painted ?fb (color s) (row_pixels (m' ?fp) (cursor_x s) (cursor_x s + 8) y) m' m''"
      using glyph_row_painted [of "s\<lparr>mem := m'\<rparr>" y ?fp] ok c yh out by (auto simp: cell_ok_def)
    have b: "m' ?fp = mem s ?fp" using m'(2) out by (simp add: painted_def)
    have lt: "y' < y + 1 \<longleftrightarrow> y' < y \<or> y' = y" for y'
      using uy w by (auto simp: word_less_nat_alt unat_add_no_wrap word_unat_eq_iff)
    have u: "?P (y + 1) = ?P y \<union> row_pixels (mem s ?fp) (cursor_x s) (cursor_x s + 8) y"
      using y(1) by (auto simp: glyph_pixels_def row_pixels_def lt)
    have n: "?g + ucast (y - ?cy) + 1 = ?g + ucast (y + 1 - ?cy)"
    proof -
      have s: "y + 1 - ?cy = (y - ?cy) + 1" by simp
      have "unat ((y - ?cy) + 1) = unat (y - ?cy) + 1" using k by (subst unat_add_no_wrap) simp_all
      moreover have "(of_nat (unat ((y - ?cy) + 1)) :: u64) = ucast ((y - ?cy) + 1)" by (rule of_nat_unat)
      ultimately show ?thesis using \<open>(of_nat (unat (y - ?cy)) :: u64) = ucast (y - ?cy)\<close> unfolding s
        by (simp add: add.commute)
    qed
    show "\<exists>m'. ?f y t = (s\<lparr>mem := m'\<rparr>, ?g + ucast (y + 1 - ?cy)) \<and> painted ?fb (color s) (?P (y + 1)) (mem s) m'"
      using painted_trans [OF m'(2) m''(2)] unfolding m'(1) b u n [symmetric] by (auto simp: m''(1))
  qed
  then show ?thesis unfolding P_def PutChar_def Let_def glyph_at_def [symmetric] by auto
qed


lemma glyph_pixels_cong:
  assumes "glyph_outside s ch" "painted (TargetFrameBuffer s) c P (mem s) m'" and cy: "unat cy + 16 < 2 ^ 32"
  shows "glyph_pixels m' (glyph_at (Font s) ch) cx cy (cy + 16) = glyph_pixels (mem s) (glyph_at (Font s) ch) cx cy (cy + 16)"
proof -
  have "m' (glyph_at (Font s) ch + ucast (y - cy)) = mem s (glyph_at (Font s) ch + ucast (y - cy))"
    if y: "cy \<le> y" "y < cy + 16" for y
  proof -
    have "unat (cy + 16) = unat cy + 16" using cy by (subst unat_add_no_wrap) simp_all
    then have "unat (y - cy) < 16" using y by (simp add: unat_sub word_less_nat_alt word_le_nat_alt)
    moreover have "(of_nat (unat (y - cy)) :: u64) = ucast (y - cy)" by (rule of_nat_unat)
    ultimately have "glyph_at (Font s) ch + ucast (y - cy) \<notin> screen (TargetFrameBuffer s)"
      using assms(1) unfolding glyph_outside_def by metis
    then show ?thesis using assms(2) by (simp add: painted_def)
  qed
  then show ?thesis by (auto simp: glyph_pixels_def)
qed

subsection \<open>Printing a text\<close>

text \<open>A text that starts at the left margin: the cell of its \<open>k\<close>-th character, with as many
  characters to a line as fit into the width.\<close>

definition columns :: "FrameBuffer \<Rightarrow> nat" where
  "columns fb = unat (Width fb) div 8"

definition text_x :: "FrameBuffer \<Rightarrow> nat \<Rightarrow> u32" where
  "text_x fb k = of_nat (8 * (k mod columns fb))"

definition text_y :: "FrameBuffer \<Rightarrow> u32 \<Rightarrow> nat \<Rightarrow> u32" where
  "text_y fb y k = y + of_nat (16 * (k div columns fb))"

definition text_pixels :: "'a gfx_scheme \<Rightarrow> u8 list \<Rightarrow> (u32 \<times> u32) set" where
  "text_pixels s chs = (\<Union>k < length chs. glyph_pixels (mem s) (glyph_at (Font s) (chs ! k))
     (text_x (TargetFrameBuffer s) k) (text_y (TargetFrameBuffer s) (cursor_y s) k)
     (text_y (TargetFrameBuffer s) (cursor_y s) k + 16))"

definition text_fits :: "'a gfx_scheme \<Rightarrow> nat \<Rightarrow> bool" where
  "text_fits s n \<longleftrightarrow> screen_ok (TargetFrameBuffer s) \<and> 8 \<le> Width (TargetFrameBuffer s)
     \<and> Width (TargetFrameBuffer s) \<le> PixelsPerScanline (TargetFrameBuffer s) \<and> cursor_x s = 0
     \<and> (\<forall>k < n. unat (cursor_y s) + 16 * (k div columns (TargetFrameBuffer s)) + 16 \<le> unat (Height (TargetFrameBuffer s)))"

lemma text_cell:
  assumes "text_fits s n" "k < n"
  shows "unat (text_x (TargetFrameBuffer s) k) = 8 * (k mod columns (TargetFrameBuffer s))"
    "unat (text_y (TargetFrameBuffer s) (cursor_y s) k) = unat (cursor_y s) + 16 * (k div columns (TargetFrameBuffer s))"
    "0 < columns (TargetFrameBuffer s)" "8 * columns (TargetFrameBuffer s) \<le> unat (Width (TargetFrameBuffer s))"
    "unat (Width (TargetFrameBuffer s)) < 8 * columns (TargetFrameBuffer s) + 8"
    "unat (Width (TargetFrameBuffer s)) \<le> unat (PixelsPerScanline (TargetFrameBuffer s))"
    "unat (Width (TargetFrameBuffer s)) + 16 < 2 ^ 32"
    "unat (cursor_y s) + 16 * (k div columns (TargetFrameBuffer s)) + 16 \<le> unat (Height (TargetFrameBuffer s))"
proof -
  let ?fb = "TargetFrameBuffer s" let ?c = "columns ?fb"
  show h: "unat (cursor_y s) + 16 * (k div ?c) + 16 \<le> unat (Height ?fb)"
    and p: "unat (Width ?fb) \<le> unat (PixelsPerScanline ?fb)"
    using assms by (simp_all add: text_fits_def word_le_nat_alt)
  have w: "8 \<le> unat (Width ?fb)" using assms by (simp add: text_fits_def word_le_nat_alt)
  have d: "unat (Width ?fb) = 8 * ?c + unat (Width ?fb) mod 8" by (simp add: columns_def)
  have m: "unat (Width ?fb) mod 8 < 8" by simp
  show c: "0 < ?c" using w d m by linarith
  show cw: "8 * ?c \<le> unat (Width ?fb)" using d by linarith
  show "unat (Width ?fb) < 8 * ?c + 8" using d m by linarith
  have "unat (PixelsPerScanline ?fb) * 16 \<le> cells ?fb" unfolding cells_def using h by (intro mult_le_mono2) linarith
  also have "\<dots> < 2 ^ 32" using assms by (simp add: text_fits_def screen_ok_def)
  finally show w16: "unat (Width ?fb) + 16 < 2 ^ 32" using p by simp
  have "k mod ?c < ?c" using c by simp
  then have "8 * (k mod ?c) < 2 ^ 32" using cw w16 by linarith
  then show "unat (text_x ?fb k) = 8 * (k mod ?c)" unfolding text_x_def by (intro unat_of_nat_lt) simp
  have "unat (cursor_y s) + 16 * (k div ?c) < 2 ^ 32"
    using h unat_lt_u32 [of "Height ?fb"] unfolding u32_limit by linarith
  then show "unat (text_y ?fb (cursor_y s) k) = unat (cursor_y s) + 16 * (k div ?c)"
    unfolding text_y_def by (intro unat_add_of_nat) simp
qed

lemma text_next:
  assumes "text_fits s n" "k < n"
  defines "fb \<equiv> TargetFrameBuffer s"
  shows "if text_x fb k + 8 + 8 > Width fb then text_x fb (Suc k) = 0 \<and> text_y fb (cursor_y s) (Suc k) = text_y fb (cursor_y s) k + 16
    else text_x fb (Suc k) = text_x fb k + 8 \<and> text_y fb (cursor_y s) (Suc k) = text_y fb (cursor_y s) k"
proof -
  note c = text_cell [OF assms(1,2), folded fb_def]
  let ?c = "columns fb"
  have lt: "k mod ?c < ?c" using c(3) by simp
  have l: "8 * (k mod ?c) + 16 < 2 ^ 32" using lt c(4,7) by linarith
  have "unat (text_x fb k + 8 + 8) = unat (text_x fb k + 16)" by (simp add: add.commute)
  also have "\<dots> = 8 * (k mod ?c) + 16" using c(1) l by (subst unat_add_no_wrap) simp_all
  finally have u: "unat (text_x fb k + 8 + 8) = 8 * (k mod ?c) + 16" .
  have a: "w < 8 * j + 16 \<longleftrightarrow> Suc j = c" if "j < c" "8 * c \<le> w" "w < 8 * c + 8" for w j c :: nat
    using that by presburger
  have w: "text_x fb k + 8 + 8 > Width fb \<longleftrightarrow> Suc (k mod ?c) = ?c"
    unfolding word_less_nat_alt u by (rule a [OF lt c(4,5)])
  show ?thesis
    unfolding w by (simp add: text_x_def text_y_def mod_Suc div_Suc algebra_simps)
qed

lemma fold_PutChar_text:
  "text_fits s (length chs) \<Longrightarrow> \<forall>ch \<in> set chs. glyph_outside s ch \<Longrightarrow>
   \<exists>m'. fold PutChar chs s = s\<lparr>mem := m', cursor_x := text_x (TargetFrameBuffer s) (length chs),
       cursor_y := text_y (TargetFrameBuffer s) (cursor_y s) (length chs)\<rparr>
     \<and> painted (TargetFrameBuffer s) (color s) (text_pixels s chs) (mem s) m'"
proof (induction chs rule: rev_induct)
  case Nil
  then show ?case by (intro exI [of _ "mem s"]) (simp add: text_x_def text_y_def text_pixels_def text_fits_def)
next
  case (snoc ch chs)
  let ?fb = "TargetFrameBuffer s" and ?k = "length chs"
  let ?x = "text_x ?fb ?k" and ?y = "text_y ?fb (cursor_y s) ?k"
  have fits: "text_fits s (Suc ?k)" using snoc.prems(1) by simp
  have "text_fits s ?k" using fits by (simp add: text_fits_def)
  then obtain m' where f: "fold PutChar chs s = s\<lparr>mem := m', cursor_x := ?x, cursor_y := ?y\<rparr>"
    and p: "painted ?fb (color s) (text_pixels s chs) (mem s) m'" using snoc by auto
  let ?t = "s\<lparr>mem := m', cursor_x := ?x, cursor_y := ?y\<rparr>"
  note c = text_cell [OF fits lessI]
  have lt: "?k mod columns ?fb < columns ?fb" using c(3) by simp
  have x8: "unat ?x + 8 \<le> unat (PixelsPerScanline ?fb)" using lt c(1,4,6) by linarith
  have y16: "unat ?y + 16 \<le> unat (Height ?fb)" using c(2,8) by linarith
  have cell: "cell_ok ?t" using fits x8 y16 by (simp add: cell_ok_def text_fits_def)
  have g: "glyph_outside s ch" using snoc.prems(2) by simp
  then have gt: "glyph_outside ?t ch" by (simp add: glyph_outside_def)
  have "unat ?y + 16 < 2 ^ 32" unfolding u32_limit by (rule le_less_trans [OF y16 unat_lt_u32])
  note cong = glyph_pixels_cong [OF g p this, of ?x]
  obtain m'' where m'': "painted ?fb (color s) (glyph_pixels (mem s) (glyph_at (Font s) ch) ?x ?y (?y + 16)) m' m''"
    "PutChar ch ?t = (if ?x + 8 + 8 > Width ?fb then ?t\<lparr>mem := m'', cursor_x := 0, cursor_y := ?y + 16\<rparr>
      else ?t\<lparr>mem := m'', cursor_x := ?x + 8\<rparr>)"
    using PutChar_painted [OF cell gt] by (auto simp: cong)
  have u: "text_pixels s (chs @ [ch]) = text_pixels s chs \<union> glyph_pixels (mem s) (glyph_at (Font s) ch) ?x ?y (?y + 16)"
    by (simp add: text_pixels_def lessThan_Suc nth_append Un_commute)
  have "PutChar ch ?t = s\<lparr>mem := m'', cursor_x := text_x ?fb (Suc ?k), cursor_y := text_y ?fb (cursor_y s) (Suc ?k)\<rparr>"
    using text_next [OF fits lessI] unfolding m''(2) by (auto split: if_splits)
  then show ?case using painted_trans [OF p m''(1)] unfolding u by (auto simp: f)
qed


subsection \<open>Clearing\<close>

definition clear_ok :: "FrameBuffer \<Rightarrow> bool" where
  "clear_ok fb \<longleftrightarrow> cells fb < 2 ^ 30 \<and> unat (BaseAddress fb) + 4 * cells fb < 2 ^ 64 \<and> 0 < Height fb \<and> unat (Height fb) < 2 ^ 31"

lemma clear_ok_screen: "clear_ok fb \<Longrightarrow> screen_ok fb"
  by (simp add: clear_ok_def screen_ok_def)

lemma unat_cell_address:
  assumes "clear_ok fb" "i \<le> cells fb"
  shows "unat (BaseAddress fb + of_nat (4 * i)) = unat (BaseAddress fb) + 4 * i"
  using assms by (intro unat_add_of_nat) (simp add: clear_ok_def)

lemma clear_row_step: "p < stop \<Longrightarrow> clear_row c p stop m = clear_row c (p + 4) stop (write32 m p c)"
  by (subst clear_row.simps) simp

lemma clear_row_painted:
  assumes ok: "clear_ok fb" and v: "v < Height fb"
  shows "j \<le> unat (PixelsPerScanline fb) \<Longrightarrow> \<exists>m'.
    clear_row c (BaseAddress fb + of_nat (4 * (unat v * unat (PixelsPerScanline fb) + j)))
      (BaseAddress fb + of_nat (4 * (unat v * unat (PixelsPerScanline fb) + unat (PixelsPerScanline fb)))) m = Some m'
    \<and> painted fb c {(x, y). y = v \<and> j \<le> unat x} m m'"
proof (induction "unat (PixelsPerScanline fb) - j" arbitrary: j m)
  case 0
  then have "j = unat (PixelsPerScanline fb)" by simp
  then show ?case
    by (subst clear_row.simps) (auto simp: painted_def on_screen_def word_less_nat_alt)
next
  case (Suc d)
  let ?p = "unat (PixelsPerScanline fb)" let ?x = "of_nat j :: u32"
  have j: "j < ?p" using Suc.hyps(2) by simp
  have "(unat v + 1) * ?p \<le> unat (Height fb) * ?p" using v by (intro mult_le_mono1) (simp add: word_less_nat_alt)
  then have b: "unat v * ?p + ?p \<le> cells fb" by (simp add: cells_def mult.commute)
  have "j < 2 ^ 32" unfolding u32_limit by (rule less_trans [OF j unat_lt_u32])
  then have x: "unat ?x = j" by (intro unat_of_nat_lt) simp
  have on: "on_screen fb ?x v" using j v by (simp add: on_screen_def word_less_nat_alt x)
  have px: "pixel fb ?x v = BaseAddress fb + of_nat (4 * (unat v * ?p + j))"
    by (simp add: pixel_address [OF clear_ok_screen [OF ok] on] pixel_index_def x algebra_simps)
  have lt: "BaseAddress fb + of_nat (4 * (unat v * ?p + j)) < BaseAddress fb + of_nat (4 * (unat v * ?p + ?p))"
    unfolding word_less_nat_alt using j b by (subst (1 2) unat_cell_address [OF ok]) simp_all
  have nx: "pixel fb ?x v + 4 = BaseAddress fb + of_nat (4 * (unat v * ?p + (j + 1)))"
    unfolding px by (simp add: algebra_simps)
  obtain m' where m': "clear_row c (BaseAddress fb + of_nat (4 * (unat v * ?p + (j + 1))))
      (BaseAddress fb + of_nat (4 * (unat v * ?p + ?p))) (write32 m (pixel fb ?x v) c) = Some m'"
    "painted fb c {(x, y). y = v \<and> j + 1 \<le> unat x} (write32 m (pixel fb ?x v) c) m'"
  proof -
    have "d = unat (PixelsPerScanline fb) - (j + 1)" "j + 1 \<le> unat (PixelsPerScanline fb)" using Suc.hyps(2) by simp_all
    from Suc.hyps(1) [OF this, of "write32 m (pixel fb ?x v) c"] show ?thesis using that by blast
  qed
  have "painted fb c {(?x, v)} m (write32 m (pixel fb ?x v) c)"
    using painted_step [OF clear_ok_screen [OF ok] on painted_empty] by simp
  from painted_trans [OF this m'(2)]
  have "painted fb c ({(?x, v)} \<union> {(x, y). y = v \<and> j + 1 \<le> unat x}) m m'" .
  moreover have "{(?x, v)} \<union> {(x, y). y = v \<and> j + 1 \<le> unat x} = {(x, y). y = v \<and> j \<le> unat x}"
    using x by (auto simp: word_unat_eq_iff)
  moreover have "clear_row c (BaseAddress fb + of_nat (4 * (unat v * ?p + j)))
      (BaseAddress fb + of_nat (4 * (unat v * ?p + ?p))) m = Some m'"
    unfolding clear_row_step [OF lt] unfolding px [symmetric] nx by (rule m'(1))
  ultimately show ?case by metis
qed

lemma clear_rows_painted:
  assumes ok: "clear_ok fb"
  shows "n \<le> unat (Height fb) \<Longrightarrow> \<exists>m'. clear_rows c fb (of_nat n) m = Some m'
    \<and> painted fb c {(x, y). n \<le> unat y} m m'"
proof (induction "unat (Height fb) - n" arbitrary: n m)
  case 0
  have "n = unat (Height fb)" using 0 by simp
  then have "(of_nat n :: u64) = ucast (Height fb)" by (simp only: of_nat_unat)
  then show ?case using 0
    by (subst clear_rows.simps) (auto simp: painted_def on_screen_def word_less_nat_alt)
next
  case (Suc d)
  let ?p = "unat (PixelsPerScanline fb)" let ?v = "of_nat n :: u32"
  have n: "n < unat (Height fb)" using Suc.hyps(2) by simp
  have n32: "n < 2 ^ 32" unfolding u32_limit by (rule less_trans [OF n unat_lt_u32])
  have v: "unat ?v = n" using n32 by (intro unat_of_nat_lt) simp
  have v64: "unat (of_nat n :: u64) = n" using n32 by (intro unat_of_nat_lt) simp
  have "unat (of_nat (unat (Height fb)) :: u64) = unat (Height fb)"
    by (rule unat_of_nat_lt) (rule less_trans [OF unat_lt_u32], simp)
  moreover have "(of_nat (unat (Height fb)) :: u64) = ucast (Height fb)" by (rule of_nat_unat)
  ultimately have lt: "(of_nat n :: u64) < ucast (Height fb)"
    using n by (simp only: word_less_nat_alt v64)
  have "?p * 1 \<le> cells fb" unfolding cells_def using n by (intro mult_le_mono2) linarith
  then have "?p < 2 ^ 30" using ok by (simp add: clear_ok_def)
  then have "unat (PixelsPerScanline fb * 4) = ?p * 4" using unat_mult_lem [of "PixelsPerScanline fb" 4] by simp
  moreover have "(of_nat (unat (PixelsPerScanline fb * 4)) :: u64) = ucast (PixelsPerScanline fb * 4)" by (rule of_nat_unat)
  ultimately have bp: "(ucast (PixelsPerScanline fb * 4) :: u64) = of_nat (4 * ?p)" by (simp add: mult.commute)
  have hv: "?v < Height fb" using n by (simp add: word_less_nat_alt v)
  obtain m1 where m1: "clear_row c (BaseAddress fb + of_nat (4 * (n * ?p))) (BaseAddress fb + of_nat (4 * (n * ?p + ?p))) m = Some m1"
    "painted fb c {(x, y). y = ?v} m m1"
    using clear_row_painted [OF ok hv, of 0 c m] by (auto simp: v)
  obtain m2 where m2: "clear_rows c fb (of_nat (n + 1)) m1 = Some m2" "painted fb c {(x, y). n + 1 \<le> unat y} m1 m2"
  proof -
    have "d = unat (Height fb) - (n + 1)" "n + 1 \<le> unat (Height fb)" using Suc.hyps(2) by simp_all
    from Suc.hyps(1) [OF this, of m1] show ?thesis using that by blast
  qed
  have "{(x, y). y = ?v} \<union> {(x, y). n + 1 \<le> unat y} = {(x :: u32, y). n \<le> unat y}"
    using v by (auto simp: word_unat_eq_iff)
  with painted_trans [OF m1(2) m2(2)] have "painted fb c {(x, y). n \<le> unat y} m m2" by simp
  moreover have a: "BaseAddress fb + ucast (PixelsPerScanline fb * 4) * of_nat n = BaseAddress fb + of_nat (4 * (n * ?p))"
    "BaseAddress fb + of_nat (4 * (n * ?p)) + ucast (PixelsPerScanline fb * 4) = BaseAddress fb + of_nat (4 * (n * ?p + ?p))"
    unfolding bp by (simp_all add: algebra_simps)
  have "unat (of_nat n :: u64) \<noteq> unat (0x7FFFFFFF :: u64)" using n ok v64 by (simp add: clear_ok_def)
  then have last: "(of_nat n :: u64) \<noteq> 0x7FFFFFFF" by metis
  have "clear_rows c fb (of_nat n) m = clear_rows c fb (of_nat n + 1) m1"
    by (subst clear_rows.simps) (simp only: lt last if_True if_False Let_def a m1(1) Option.bind.bind_lunit)
  moreover have "of_nat n + 1 = (of_nat (n + 1) :: u64)" by simp
  ultimately show ?case using m2(1) by metis
qed

lemma Clear_painted:
  assumes "clear_ok (TargetFrameBuffer s)"
  shows "\<exists>m'. Clear c s = Some (s\<lparr>mem := m'\<rparr>) \<and> painted (TargetFrameBuffer s) c UNIV (mem s) m'"
  using clear_rows_painted [OF assms, of 0 c "mem s"] by (auto simp: Clear_def)


subsection \<open>Erasing a character\<close>

definition erase_ok :: "'a gfx_scheme \<Rightarrow> bool" where
  "erase_ok s \<longleftrightarrow> screen_ok (TargetFrameBuffer s) \<and> 8 \<le> cursor_x s
     \<and> cursor_x s < PixelsPerScanline (TargetFrameBuffer s)
     \<and> unat (cursor_y s) + 16 \<le> unat (Height (TargetFrameBuffer s))"

lemma erase_columns_painted:
  assumes "screen_ok fb" "y < Height fb" "x < PixelsPerScanline fb" "TargetFrameBuffer s = fb"
  shows "\<exists>m'. erase_columns x stop y s = s\<lparr>mem := m'\<rparr> \<and> painted fb 0x272829 {(x', y'). y' = y \<and> stop < x' \<and> x' \<le> x} (mem s) m'"
  using assms
proof (induction x stop y s rule: erase_columns.induct)
  case (1 x stop y s)
  show ?case
  proof (cases "x > stop")
    case True
    then have x: "unat x \<noteq> 0" by (simp only: word_less_nat_alt)
    then have "unat (x - 1) = unat x - 1" by (simp add: unat_sub word_le_nat_alt)
    note x = this x
    have le: "x' \<le> x - 1 \<or> x' = x \<longleftrightarrow> x' \<le> x" for x' using x by (auto simp: word_le_nat_alt word_unat_eq_iff)
    let ?t = "set_pixel 0x272829 x y s"
    have "x - 1 < PixelsPerScanline fb" using "1.prems"(3) x by (simp add: word_less_nat_alt)
    then obtain m' where m': "erase_columns (x - 1) stop y ?t = ?t\<lparr>mem := m'\<rparr>"
      "painted fb 0x272829 {(x', y'). y' = y \<and> stop < x' \<and> x' \<le> x - 1} (mem ?t) m'"
      using "1.IH" [OF True "1.prems"(1,2)] "1.prems"(4) by (auto simp: set_pixel_def)
    have "on_screen fb x y" using "1.prems" by (simp add: on_screen_def)
    then have "painted fb 0x272829 {(x, y)} (mem s) (mem ?t)"
      using painted_step [OF "1.prems"(1) _ painted_empty] "1.prems"(4) by (simp add: set_pixel_def)
    from painted_trans [OF this m'(2)]
    have "painted fb 0x272829 ({(x, y)} \<union> {(x', y'). y' = y \<and> stop < x' \<and> x' \<le> x - 1}) (mem s) m'" .
    moreover have "{(x, y)} \<union> {(x', y'). y' = y \<and> stop < x' \<and> x' \<le> x - 1} = {(x', y'). y' = y \<and> stop < x' \<and> x' \<le> x}"
      using True le by auto
    ultimately show ?thesis using m'(1) True by (subst erase_columns.simps) (auto simp: set_pixel_def)
  next
    case False
    then have e: "{(x', y'). y' = y \<and> stop < x' \<and> x' \<le> x} = {}" by auto
    show ?thesis unfolding e using False by (subst erase_columns.simps) (auto intro: exI [of _ "mem s"])
  qed
qed

lemma RemoveChar_painted:
  assumes "erase_ok s"
  shows "\<exists>m'. RemoveChar s = s\<lparr>mem := m', cursor_x := cursor_x s - 8\<rparr> \<and>
    painted (TargetFrameBuffer s) 0x272829
      {(x, y). cursor_y s \<le> y \<and> y < cursor_y s + 16 \<and> cursor_x s - 8 < x \<and> x \<le> cursor_x s} (mem s) m'"
proof -
  let ?fb = "TargetFrameBuffer s" and ?cx = "cursor_x s" and ?cy = "cursor_y s"
  let ?P = "\<lambda>n. {(x, y). ?cy \<le> y \<and> y < n \<and> ?cx - 8 < x \<and> x \<le> ?cx}"
  have ok: "screen_ok ?fb" "?cx < PixelsPerScanline ?fb" and h: "unat ?cy + 16 \<le> unat (Height ?fb)"
    using assms by (simp_all add: erase_ok_def)
  have w: "unat ?cy + 16 < 2 ^ 32" by (simp only: u32_limit) (rule le_less_trans [OF h unat_lt_u32])
  then have e: "unat (?cy + 16) = unat ?cy + 16" by (subst unat_add_no_wrap) simp_all
  have "\<exists>m'. for_u32 ?cy (?cy + 16) (\<lambda>y s. erase_columns (cursor_x s) (cursor_x s - 8) y s) s = s\<lparr>mem := m'\<rparr>
      \<and> painted ?fb 0x272829 (?P (?cy + 16)) (mem s) m'"
  proof (rule for_u32_inv [where P = "\<lambda>y t. \<exists>m'. t = s\<lparr>mem := m'\<rparr> \<and> painted ?fb 0x272829 (?P y) (mem s) m'"])
    show "?cy \<le> ?cy + 16" using e by (simp add: word_le_nat_alt)
    have "?P ?cy = {}" by auto
    then show "\<exists>m'. s = s\<lparr>mem := m'\<rparr> \<and> painted ?fb 0x272829 (?P ?cy) (mem s) m'"
      by (intro exI [of _ "mem s"]) (simp only: painted_empty, simp)
  next
    fix y t assume y: "?cy \<le> y" "y < ?cy + 16"
      and "\<exists>m'. t = s\<lparr>mem := m'\<rparr> \<and> painted ?fb 0x272829 (?P y) (mem s) m'"
    then obtain m' where m': "t = s\<lparr>mem := m'\<rparr>" "painted ?fb 0x272829 (?P y) (mem s) m'" by blast
    have yh: "y < Height ?fb" using y e h by (simp add: word_less_nat_alt)
    obtain m'' where m'': "erase_columns ?cx (?cx - 8) y t = t\<lparr>mem := m''\<rparr>"
      "painted ?fb 0x272829 {(x', y'). y' = y \<and> ?cx - 8 < x' \<and> x' \<le> ?cx} m' m''"
      using erase_columns_painted [OF ok(1) yh ok(2), of t "?cx - 8"] m'(1) by auto
    have lt: "y' < y + 1 \<longleftrightarrow> y' < y \<or> y' = y" for y'
      using y e w by (auto simp: word_less_nat_alt unat_add_no_wrap word_unat_eq_iff)
    have "?P y \<union> {(x', y'). y' = y \<and> ?cx - 8 < x' \<and> x' \<le> ?cx} = ?P (y + 1)" using y(1) by (auto simp: lt)
    with painted_trans [OF m'(2) m''(2)] have "painted ?fb 0x272829 (?P (y + 1)) (mem s) m''" by simp
    then show "\<exists>m'. erase_columns (cursor_x t) (cursor_x t - 8) y t = s\<lparr>mem := m'\<rparr> \<and> painted ?fb 0x272829 (?P (y + 1)) (mem s) m'"
      using m''(1) m'(1) by auto
  qed
  then show ?thesis by (auto simp: RemoveChar_def Let_def)
qed

lemma c_string_Cons: "c_string m p (ch # chs) \<longleftrightarrow> m p = ch \<and> ch \<noteq> 0 \<and> c_string m (p + 1) chs"
  by (auto simp: c_string_def All_less_Suc2 add.assoc)

lemma text_mem_outside:
  assumes "text_fits s (length chs)" "\<forall>ch \<in> set chs. glyph_outside s ch" "a \<notin> screen (TargetFrameBuffer s)"
  shows "mem (fold PutChar chs s) a = mem s a"
proof -
  obtain m' where m': "fold PutChar chs s = s\<lparr>mem := m', cursor_x := text_x (TargetFrameBuffer s) (length chs),
       cursor_y := text_y (TargetFrameBuffer s) (cursor_y s) (length chs)\<rparr>"
    "painted (TargetFrameBuffer s) (color s) (text_pixels s chs) (mem s) m'"
    using fold_PutChar_text [OF assms(1,2)] by blast
  then show ?thesis using assms(3) by (simp add: painted_def)
qed

lemma Print_fold:
  "c_string (mem s) p chs \<Longrightarrow> text_fits s (length (pre @ chs)) \<Longrightarrow> \<forall>ch \<in> set (pre @ chs). glyph_outside s ch \<Longrightarrow>
   \<forall>k \<le> length chs. p + of_nat k \<notin> screen (TargetFrameBuffer s) \<Longrightarrow>
   Print p (fold PutChar pre s) = Some (fold PutChar (pre @ chs) s)"
proof (induction chs arbitrary: p pre)
  case Nil
  have "mem (fold PutChar pre s) p = mem s p" using Nil.prems(2-4) by (intro text_mem_outside) simp_all
  then show ?case using Nil.prems(1) by (subst Print.simps) (simp add: c_string_def)
next
  case (Cons ch chs)
  have fits: "text_fits s (length pre)" using Cons.prems(2) by (simp add: text_fits_def)
  have pre: "\<forall>ch \<in> set pre. glyph_outside s ch" using Cons.prems(3) by simp
  have "p + of_nat 0 \<notin> screen (TargetFrameBuffer s)" by (rule Cons.prems(4) [rule_format]) simp
  then have "mem (fold PutChar pre s) p = mem s p" by (intro text_mem_outside fits pre) simp
  then have p: "mem (fold PutChar pre s) p = ch" "ch \<noteq> 0"
    using Cons.prems(1) by (simp_all add: c_string_Cons)
  have c: "c_string (mem s) (p + 1) chs" using Cons.prems(1) by (simp add: c_string_Cons)
  have o: "\<forall>k \<le> length chs. p + 1 + of_nat k \<notin> screen (TargetFrameBuffer s)"
  proof (intro allI impI)
    fix k assume "k \<le> length chs"
    then have "p + of_nat (Suc k) \<notin> screen (TargetFrameBuffer s)" by (intro Cons.prems(4) [rule_format]) simp
    then show "p + 1 + of_nat k \<notin> screen (TargetFrameBuffer s)" by (simp add: add.assoc)
  qed
  have "Print (p + 1) (fold PutChar (pre @ [ch]) s) = Some (fold PutChar ((pre @ [ch]) @ chs) s)"
    by (rule Cons.IH [OF c _ _ o]) (use Cons.prems(2,3) in simp_all)
  then show ?case using p by (subst Print.simps) simp
qed


subsection \<open>Properties\<close>

text \<open>A screen of 16 by 32 pixels, a font at 0x1000 whose letter A is one pixel in the corner of its
  cell, and the text A at 0x2000.\<close>

definition small_screen :: gfx where
  "small_screen = \<lparr>mem = (\<lambda>a. if a = 0x2000 then 65 else if a = 0x1410 then 0x80 else 0),
     memoryMapSize = 0, PageBitmap = \<lparr>bm_size = 1, bm_Buffer = 0x10000\<rparr>, allocatedMemory = 0,
     reservedMemory = 0, freeMemory = 0, isInitialized = True, bitmapIndex = 0, PML4 = 0x9000,
     cr0 = 0, cr3 = 0x9000, cr4 = 0, heapStart = 0x5000, heapEnd = 0x5000, blockCount = 1,
     TargetFrameBuffer = \<lparr>BaseAddress = 0x80000000, BufferSize = 0x800, Width = 16, Height = 32, PixelsPerScanline = 16\<rparr>,
     Font = \<lparr>font_magic0 = 0x36, font_magic1 = 4, fontMode = 0, characterSize = 16, glyphBuffer = 0x1000\<rparr>,
     color = 0xffffffff, cursor_x = 0, cursor_y = 0, to_string_buffer = 0x3000, doubleToString = 0x3080\<rparr>"

lemma small_screen_fields:
  "TargetFrameBuffer small_screen = \<lparr>BaseAddress = 0x80000000, BufferSize = 0x800, Width = 16, Height = 32, PixelsPerScanline = 16\<rparr>"
  "cursor_x small_screen = 0" "cursor_y small_screen = 0" "color small_screen = 0xffffffff"
  "glyph_at (Font small_screen) 65 = 0x1410"
  "mem small_screen = (\<lambda>a. if a = 0x2000 then 65 else if a = 0x1410 then 0x80 else 0)"
  by (simp_all add: small_screen_def glyph_at_def)

lemma small_screen_ok: "screen_ok (TargetFrameBuffer small_screen)" "clear_ok (TargetFrameBuffer small_screen)"
  by (simp_all add: small_screen_fields screen_ok_def clear_ok_def cells_def)

lemma low_not_on_small_screen: "unat a < 0x80000000 \<Longrightarrow> a \<notin> screen (TargetFrameBuffer small_screen)"
proof -
  assume a: "unat a < 0x80000000"
  then have "unat (a - 0x80000000) = unat a + 2 ^ 64 - 0x80000000"
    by (simp add: unat_sub_if_size word_size)
  then show ?thesis by (simp add: screen_def region_def small_screen_fields cells_def)
qed

text \<open>C13: Printing a string that fits on the screen, from the left margin, draws exactly the glyphs of
  its characters, each in its own cell, wraps at the right margin and leaves the cursor at the cell
  after the last one; no other pixel and no memory outside the screen changes.\<close>

theorem Print_draws_text:
  assumes "c_string (mem s) p chs" "text_fits s (length chs)" "\<forall>ch \<in> set chs. glyph_outside s ch"
    and "\<forall>k \<le> length chs. p + of_nat k \<notin> screen (TargetFrameBuffer s)"
  shows "\<exists>m'. Print p s = Some (s\<lparr>mem := m', cursor_x := text_x (TargetFrameBuffer s) (length chs),
       cursor_y := text_y (TargetFrameBuffer s) (cursor_y s) (length chs)\<rparr>)
     \<and> painted (TargetFrameBuffer s) (color s) (text_pixels s chs) (mem s) m'"
  using Print_fold [of s p chs "[]"] fold_PutChar_text [OF assms(2,3)] assms by auto

theorem Print_draws_text_witness:
  "\<exists>m'. Print 0x2000 small_screen = Some (small_screen\<lparr>mem := m', cursor_x := 8, cursor_y := 0\<rparr>)
     \<and> painted (TargetFrameBuffer small_screen) 0xffffffff (text_pixels small_screen [65]) (mem small_screen) m'"
proof -
  have c: "c_string (mem small_screen) 0x2000 [65]"
    by (simp add: c_string_def small_screen_fields)
  have f: "text_fits small_screen (length [65 :: u8])"
    using small_screen_ok(1) by (simp add: text_fits_def small_screen_fields)
  have g: "\<forall>ch \<in> set [65]. glyph_outside small_screen ch"
  proof -
    have "unat (0x1410 + of_nat k :: u64) = 0x1410 + k" if "k < 16" for k
      using that by (subst unat_add_of_nat) simp_all
    then show ?thesis by (auto simp: glyph_outside_def small_screen_fields(5) intro!: low_not_on_small_screen)
  qed
  have o: "\<forall>k \<le> length [65 :: u8]. 0x2000 + of_nat k \<notin> screen (TargetFrameBuffer small_screen)"
    by (auto simp: le_Suc_eq intro!: low_not_on_small_screen)
  have "text_x (TargetFrameBuffer small_screen) 1 = 8" "text_y (TargetFrameBuffer small_screen) 0 1 = 0"
    by (simp_all add: text_x_def text_y_def columns_def small_screen_fields)
  then show ?thesis using Print_draws_text [OF c f g o] by (simp add: small_screen_fields(3,4))
qed

text \<open>Clearing a screen below the end of the address space returns, gives every pixel the colour
  and changes nothing outside the screen.\<close>

theorem Clear_fills:
  assumes "clear_ok (TargetFrameBuffer s)"
  shows "\<exists>m'. Clear c s = Some (s\<lparr>mem := m'\<rparr>) \<and> painted (TargetFrameBuffer s) c UNIV (mem s) m'"
  by (rule Clear_painted [OF assms])

theorem Clear_fills_witness:
  "\<exists>m'. Clear 7 small_screen = Some (small_screen\<lparr>mem := m'\<rparr>)
     \<and> painted (TargetFrameBuffer small_screen) 7 UNIV (mem small_screen) m'"
  by (rule Clear_fills [OF small_screen_ok(2)])

text \<open>Removing the character just drawn does not erase its leftmost column: the loop stops one
  column short, and erases the first column of the next cell instead. A pixel of the glyph in that
  column keeps its colour.\<close>

theorem RemoveChar_leaves_column:
  assumes "cell_ok s" "glyph_outside s ch" "\<not> cursor_x s + 8 + 8 > Width (TargetFrameBuffer s)"
    and "unat (cursor_x s) + 8 < unat (PixelsPerScanline (TargetFrameBuffer s))"
    and "k < 16" "bit (mem s (glyph_at (Font s) ch + of_nat k)) 7"
  shows "read32 (mem (RemoveChar (PutChar ch s))) (pixel (TargetFrameBuffer s) (cursor_x s) (cursor_y s + of_nat k)) = color s
    \<and> cursor_x (RemoveChar (PutChar ch s)) = cursor_x s"
proof -
  let ?fb = "TargetFrameBuffer s" and ?cx = "cursor_x s" and ?y = "cursor_y s + of_nat k"
  obtain m' where m': "painted ?fb (color s) (glyph_pixels (mem s) (glyph_at (Font s) ch) ?cx (cursor_y s) (cursor_y s + 16)) (mem s) m'"
    "PutChar ch s = s\<lparr>mem := m', cursor_x := ?cx + 8\<rparr>"
    using PutChar_painted [OF assms(1,2)] assms(3) by auto
  let ?t = "s\<lparr>mem := m', cursor_x := ?cx + 8\<rparr>"
  have px: "unat ?cx + 8 < 2 ^ 32" unfolding u32_limit by (rule less_trans [OF assms(4) unat_lt_u32])
  then have cx: "unat (?cx + 8) = unat ?cx + 8" by (subst unat_add_no_wrap) simp_all
  have h: "unat (cursor_y s) + 16 \<le> unat (Height ?fb)" and ok: "screen_ok ?fb"
    using assms(1) by (simp_all add: cell_ok_def)
  have py: "unat (cursor_y s) + 16 < 2 ^ 32" unfolding u32_limit by (rule le_less_trans [OF h unat_lt_u32])
  then have y16: "unat (cursor_y s + 16) = unat (cursor_y s) + 16" by (subst unat_add_no_wrap) simp_all
  have y: "unat ?y = unat (cursor_y s) + k" using py assms(5) by (intro unat_add_of_nat) simp
  have "erase_ok ?t" using ok h assms(4) cx by (simp add: erase_ok_def word_le_nat_alt word_less_nat_alt)
  then obtain m'' where m'': "RemoveChar ?t = ?t\<lparr>mem := m'', cursor_x := ?cx\<rparr>"
    "painted ?fb 0x272829 {(x, y). cursor_y s \<le> y \<and> y < cursor_y s + 16 \<and> ?cx < x \<and> x \<le> ?cx + 8} m' m''"
    using RemoveChar_painted [of ?t] by auto
  have on: "on_screen ?fb ?cx ?y" using assms(4,5) h y by (simp add: on_screen_def word_less_nat_alt)
  have "(of_nat (unat (?y - cursor_y s)) :: u64) = ucast (?y - cursor_y s)" by (rule of_nat_unat)
  moreover have "unat (?y - cursor_y s) = k" using assms(5) by (simp add: unat_of_nat_lt)
  ultimately have u: "ucast (?y - cursor_y s) = (of_nat k :: u64)" by (simp only:)
  have "(?cx, ?y) \<in> glyph_pixels (mem s) (glyph_at (Font s) ch) ?cx (cursor_y s) (cursor_y s + 16)"
    unfolding glyph_pixels_def using assms(5,6) y y16 cx u
    by (simp add: word_le_nat_alt word_less_nat_alt del: add_diff_cancel_left')
  then have "read32 m'' (pixel ?fb ?cx ?y) = color s" using m'(1) m''(2) on by (simp add: painted_def)
  then show ?thesis unfolding m'(2) m''(1) by simp
qed

theorem RemoveChar_leaves_column_witness:
  "read32 (mem (RemoveChar (PutChar 65 small_screen)))
     (pixel (TargetFrameBuffer small_screen) 0 0) = 0xffffffff"
proof -
  have "unat (0x1410 + of_nat k :: u64) = 0x1410 + k" if "k < 16" for k
    using that by (subst unat_add_of_nat) simp_all
  then have g: "glyph_outside small_screen 65"
    by (auto simp: glyph_outside_def small_screen_fields(5) intro!: low_not_on_small_screen)
  have c: "cell_ok small_screen" using small_screen_ok(1) by (simp add: cell_ok_def small_screen_fields)
  have w: "\<not> cursor_x small_screen + 8 + 8 > Width (TargetFrameBuffer small_screen)"
    "unat (cursor_x small_screen) + 8 < unat (PixelsPerScanline (TargetFrameBuffer small_screen))"
    by (simp_all add: small_screen_fields)
  have b: "bit (mem small_screen (glyph_at (Font small_screen) 65 + of_nat 0)) 7" by (simp add: small_screen_fields)
  show ?thesis using RemoveChar_leaves_column [OF c g w _ b] by (simp add: small_screen_fields(2,3,4))
qed

end
