(* ===== verification/PortIO.thy ===== *)
theory PortIO
  imports Renderer
begin

text \<open>
  Input and output: the port instructions of \<open>kernel/src/IO.cpp\<close>, memory-mapped device registers,
  and the privileged instructions the kernel issues. Every access is an event of a log, newest first.
  What a device answers is not code of the kernel: \<open>port_in\<close> and \<open>reg_in\<close> give the value a read
  returns as a function of the log before it, and \<open>dma\<close> what the device has done to memory after an
  access. They are fields of the state that no operation changes, so every theorem holds for every
  device, or for those its hypotheses describe.
\<close>

datatype io_event =
    OutB u16 u8
  | OutW u16 u16
  | OutL u16 u32
  | InB u16 u8
  | InW u16 u16
  | InL u16 u32
  | RegRead u64 u32
  | RegWrite u64 u32
  | Lgdt u16 u64
  | Lidt u16 u64
  | Sti
  | Hlt

record io = gfx +
  io_log :: "io_event list"
  port_in :: "io_event list \<Rightarrow> u16 \<Rightarrow> u32"
  reg_in :: "io_event list \<Rightarrow> u64 \<Rightarrow> u32"
  dma :: "io_event list \<Rightarrow> memory \<Rightarrow> memory"

definition event :: "io_event \<Rightarrow> 'a io_scheme \<Rightarrow> 'a io_scheme" where
  "event e s = s\<lparr>io_log := e # io_log s\<rparr>"

subsection \<open>Ports\<close>

definition outb :: "u16 \<Rightarrow> u8 \<Rightarrow> 'a io_scheme \<Rightarrow> 'a io_scheme" where
  "outb port v s = event (OutB port v) s"

definition outw :: "u16 \<Rightarrow> u16 \<Rightarrow> 'a io_scheme \<Rightarrow> 'a io_scheme" where
  "outw port v s = event (OutW port v) s"

definition outl :: "u16 \<Rightarrow> u32 \<Rightarrow> 'a io_scheme \<Rightarrow> 'a io_scheme" where
  "outl port v s = event (OutL port v) s"

definition inb :: "u16 \<Rightarrow> 'a io_scheme \<Rightarrow> u8 \<times> 'a io_scheme" where
  "inb port s = (let ret = ucast (port_in s (io_log s) port) in (ret, event (InB port ret) s))"

definition inw :: "u16 \<Rightarrow> 'a io_scheme \<Rightarrow> u16 \<times> 'a io_scheme" where
  "inw port s = (let ret = ucast (port_in s (io_log s) port) in (ret, event (InW port ret) s))"

definition inl :: "u16 \<Rightarrow> 'a io_scheme \<Rightarrow> u32 \<times> 'a io_scheme" where
  "inl port s = (let ret = port_in s (io_log s) port in (ret, event (InL port ret) s))"

definition io_wait :: "'a io_scheme \<Rightarrow> 'a io_scheme" where
  "io_wait s = event (OutB 0x80 0) s"

subsection \<open>Device registers\<close>

text \<open>An access to a memory-mapped register, after which the device may have written to memory.\<close>

definition reg_event :: "io_event \<Rightarrow> 'a io_scheme \<Rightarrow> 'a io_scheme" where
  "reg_event e s = (let s = event e s in s\<lparr>mem := dma s (io_log s) (mem s)\<rparr>)"

definition reg_read :: "u64 \<Rightarrow> 'a io_scheme \<Rightarrow> u32 \<times> 'a io_scheme" where
  "reg_read a s = (let v = reg_in s (io_log s) a in (v, reg_event (RegRead a v) s))"

definition reg_write :: "u64 \<Rightarrow> u32 \<Rightarrow> 'a io_scheme \<Rightarrow> 'a io_scheme" where
  "reg_write a v s = reg_event (RegWrite a v) s"

text \<open>A device that does not touch memory.\<close>

definition no_dma :: "'a io_scheme \<Rightarrow> bool" where
  "no_dma s \<longleftrightarrow> (\<forall>l m. dma s l m = m)"

named_theorems io_simps

declare event_def [io_simps] outb_def [io_simps] outw_def [io_simps] outl_def [io_simps]
  inb_def [io_simps] inw_def [io_simps] inl_def [io_simps] io_wait_def [io_simps]
  reg_event_def [io_simps] reg_read_def [io_simps] reg_write_def [io_simps]

lemma reg_write_no_dma: "no_dma s \<Longrightarrow> reg_write a v s = s\<lparr>io_log := RegWrite a v # io_log s\<rparr>"
  by (simp add: reg_write_def reg_event_def event_def no_dma_def Let_def)

lemma reg_read_no_dma: "no_dma s \<Longrightarrow>
  reg_read a s = (reg_in s (io_log s) a, s\<lparr>io_log := RegRead a (reg_in s (io_log s) a) # io_log s\<rparr>)"
  by (simp add: reg_read_def reg_event_def event_def no_dma_def Let_def)


text \<open>The small screen of the renderer with no devices behind it.\<close>

definition small_io :: io where
  "small_io = gfx.extend small_screen (io.fields [] (\<lambda>_ _. 0) (\<lambda>_ _. 0) (\<lambda>_ m. m))"

lemma small_io_fields:
  "io_log small_io = []" "port_in small_io = (\<lambda>_ _. 0)" "reg_in small_io = (\<lambda>_ _. 0)" "no_dma small_io"
  "mem small_io = mem small_screen"
  by (simp_all add: small_io_def small_screen_def gfx.defs io.defs no_dma_def)

end
