(* ===== verification/Ahci.thy ===== *)
theory Ahci
  imports PortIO
begin

text \<open>
  The AHCI disk driver, \<open>kernel/src/driver/ahci/ahci.cpp\<close>. The registers of the controller and of its
  ports are device registers; the command list, the command tables and the frame information
  structures are memory, laid out as the structs of \<open>ahci.h\<close> are, bit fields included. A loop that
  polls a register until the device answers need not end, so the operations are computations in
  \<open>option\<close>; the two loops with a spin limit are total.
\<close>

subsection \<open>Registers and structures\<close>

datatype hba_reg = CLB | CLBU | FB | FBU | IS | IE | CMD | RSV0 | TFD | SIG | SSTS | SCTL | SERR | SACT | CI | SNTF | FBS

primrec reg_offset :: "hba_reg \<Rightarrow> u64" where
  "reg_offset CLB = 0x00"
| "reg_offset CLBU = 0x04"
| "reg_offset FB = 0x08"
| "reg_offset FBU = 0x0C"
| "reg_offset IS = 0x10"
| "reg_offset IE = 0x14"
| "reg_offset CMD = 0x18"
| "reg_offset RSV0 = 0x1C"
| "reg_offset TFD = 0x20"
| "reg_offset SIG = 0x24"
| "reg_offset SSTS = 0x28"
| "reg_offset SCTL = 0x2C"
| "reg_offset SERR = 0x30"
| "reg_offset SACT = 0x34"
| "reg_offset CI = 0x38"
| "reg_offset SNTF = 0x3C"
| "reg_offset FBS = 0x40"

record ahci = io +
  GlobalABAR :: u64

definition rd :: "u64 \<Rightarrow> hba_reg \<Rightarrow> 'a io_scheme \<Rightarrow> u32 \<times> 'a io_scheme" where
  "rd port r s = reg_read (port + reg_offset r) s"

definition wr :: "u64 \<Rightarrow> hba_reg \<Rightarrow> u32 \<Rightarrow> 'a io_scheme \<Rightarrow> 'a io_scheme" where
  "wr port r v s = reg_write (port + reg_offset r) v s"

text \<open>\<open>HBAMem\<close>: the capabilities, the implemented ports and the array of ports.\<close>

definition hba_cap :: "u64 \<Rightarrow> u64" where
  "hba_cap abar = abar"

definition hba_pi :: "u64 \<Rightarrow> u64" where
  "hba_pi abar = abar + 0x0C"

definition hba_port :: "u64 \<Rightarrow> int \<Rightarrow> u64" where
  "hba_port abar i = abar + 0x100 + of_int i * 0x80"

text \<open>\<open>HBA_CMD_HEADER\<close>, 32 bytes.\<close>

definition set_cfl :: "u64 \<Rightarrow> u8 \<Rightarrow> memory \<Rightarrow> memory" where
  "set_cfl h v m = m(h := (m h AND 0xE0) OR (v AND 0x1F))"

definition set_w :: "u64 \<Rightarrow> bool \<Rightarrow> memory \<Rightarrow> memory" where
  "set_w h b m = m(h := (m h AND 0xBF) OR (if b then 0x40 else 0))"

definition set_p :: "u64 \<Rightarrow> bool \<Rightarrow> memory \<Rightarrow> memory" where
  "set_p h b m = m(h := (m h AND 0x7F) OR (if b then 0x80 else 0))"

definition set_c :: "u64 \<Rightarrow> bool \<Rightarrow> memory \<Rightarrow> memory" where
  "set_c h b m = m(h + 1 := (m (h + 1) AND 0xFB) OR (if b then 0x04 else 0))"

definition set_prdtl :: "u64 \<Rightarrow> u16 \<Rightarrow> memory \<Rightarrow> memory" where
  "set_prdtl h v m = write16 m (h + 2) v"

definition prdtl :: "memory \<Rightarrow> u64 \<Rightarrow> u16" where
  "prdtl m h = read16 m (h + 2)"

definition set_ctba :: "u64 \<Rightarrow> u64 \<Rightarrow> memory \<Rightarrow> memory" where
  "set_ctba h address m = write32 (write32 m (h + 8) (ucast address)) (h + 12) (ucast (drop_bit 32 address))"

definition ctba :: "memory \<Rightarrow> u64 \<Rightarrow> u64" where
  "ctba m h = ucast (read32 m (h + 8))"

text \<open>\<open>HBA_CMD_TBL\<close>: the command FIS, then at 0x80 the region table with one \<open>HBA_PRDT_ENTRY\<close>.\<close>

definition sizeof_HBA_CMD_TBL :: u64 where
  "sizeof_HBA_CMD_TBL = 144"

definition set_dba :: "u64 \<Rightarrow> u32 \<Rightarrow> memory \<Rightarrow> memory" where
  "set_dba t v m = write32 m (t + 0x80) v"

definition set_dbau :: "u64 \<Rightarrow> u32 \<Rightarrow> memory \<Rightarrow> memory" where
  "set_dbau t v m = write32 m (t + 0x84) v"

definition set_dbc :: "u64 \<Rightarrow> u32 \<Rightarrow> memory \<Rightarrow> memory" where
  "set_dbc t v m = write32 m (t + 0x8C) ((read32 m (t + 0x8C) AND 0xFFC00000) OR (v AND 0x003FFFFF))"

definition set_i :: "u64 \<Rightarrow> memory \<Rightarrow> memory" where
  "set_i t m = write32 m (t + 0x8C) (read32 m (t + 0x8C) OR 0x80000000)"

text \<open>\<open>FIS_REG_H2D\<close>, 20 bytes, at the start of the command table.\<close>

datatype fis_field = F_type | F_command | F_featurel | F_lba0 | F_lba1 | F_lba2 | F_device
  | F_lba3 | F_lba4 | F_lba5 | F_featureh | F_countl | F_counth | F_icc | F_control

primrec fis_offset :: "fis_field \<Rightarrow> u64" where
  "fis_offset F_type = 0"
| "fis_offset F_command = 2"
| "fis_offset F_featurel = 3"
| "fis_offset F_lba0 = 4"
| "fis_offset F_lba1 = 5"
| "fis_offset F_lba2 = 6"
| "fis_offset F_device = 7"
| "fis_offset F_lba3 = 8"
| "fis_offset F_lba4 = 9"
| "fis_offset F_lba5 = 10"
| "fis_offset F_featureh = 11"
| "fis_offset F_countl = 12"
| "fis_offset F_counth = 13"
| "fis_offset F_icc = 14"
| "fis_offset F_control = 15"

definition set_fis :: "u64 \<Rightarrow> fis_field \<Rightarrow> u8 \<Rightarrow> memory \<Rightarrow> memory" where
  "set_fis t f v m = m(t + fis_offset f := v)"

definition set_fis_c :: "u64 \<Rightarrow> memory \<Rightarrow> memory" where
  "set_fis_c t m = m(t + 1 := m (t + 1) OR 0x80)"

definition sizeof_FIS_REG_H2D :: u64 where
  "sizeof_FIS_REG_H2D = 20"

datatype FIS_TYPE = FIS_TYPE_REG_H2D | FIS_TYPE_REG_D2H | FIS_TYPE_DMA_ACT | FIS_TYPE_DMA_SETUP
  | FIS_TYPE_DATA | FIS_TYPE_BIST | FIS_TYPE_PIO_SETUP | FIS_TYPE_DEV_BITS

primrec FIS_TYPE_value :: "FIS_TYPE \<Rightarrow> u8" where
  "FIS_TYPE_value FIS_TYPE_REG_H2D = 0x27"
| "FIS_TYPE_value FIS_TYPE_REG_D2H = 0x34"
| "FIS_TYPE_value FIS_TYPE_DMA_ACT = 0x39"
| "FIS_TYPE_value FIS_TYPE_DMA_SETUP = 0x41"
| "FIS_TYPE_value FIS_TYPE_DATA = 0x46"
| "FIS_TYPE_value FIS_TYPE_BIST = 0x58"
| "FIS_TYPE_value FIS_TYPE_PIO_SETUP = 0x5F"
| "FIS_TYPE_value FIS_TYPE_DEV_BITS = 0xA1"

subsection \<open>Probing the ports\<close>

datatype ahci_dev = AHCI_DEV_NULL | AHCI_DEV_SATA | AHCI_DEV_SEMB | AHCI_DEV_PM | AHCI_DEV_SATAPI

definition CheckType :: "u64 \<Rightarrow> 'a io_scheme \<Rightarrow> ahci_dev \<times> 'a io_scheme" where
  "CheckType port s =
     (let (ssts, s) = rd port SSTS s;
          ipm = drop_bit 8 ssts AND 0x0F;
          det = ssts AND 0x0F
      in if det \<noteq> 3 then (AHCI_DEV_NULL, s)
         else if ipm \<noteq> 1 then (AHCI_DEV_NULL, s)
         else let (sig, s) = rd port SIG s
              in (if sig = 0xEB140101 then AHCI_DEV_SATAPI
                  else if sig = 0xC33C0101 then AHCI_DEV_SEMB
                  else if sig = 0x96690101 then AHCI_DEV_PM
                  else AHCI_DEV_SATA, s))"

text \<open>\<open>to_string\<close> writes into its static buffer, which is then printed.\<close>

definition print_number :: "u64 \<Rightarrow> 'a gfx_scheme \<Rightarrow> 'a gfx_scheme option" where
  "print_number n s = Print (to_string_buffer s) (s\<lparr>mem := to_string (mem s) (to_string_buffer s) n\<rparr>)"

definition print_drive :: "int \<Rightarrow> string \<Rightarrow> 'a gfx_scheme \<Rightarrow> 'a gfx_scheme option" where
  "print_drive i kind s = do {
     s \<leftarrow> print_number (of_int i) (s\<lparr>color := 0x73BBC9\<rparr>);
     let s = Print_lit kind (s\<lparr>color := 0xffffffff\<rparr>);
     Some (NextLine s)
   }"

text \<open>The loops over the 32 ports, with the number of rounds left.\<close>

fun drives_loop :: "nat \<Rightarrow> int \<Rightarrow> u32 \<Rightarrow> 'a ahci_scheme \<Rightarrow> 'a ahci_scheme option" where
  "drives_loop 0 i pi s = Some s"
| "drives_loop (Suc n) i pi s = do {
     s \<leftarrow> (if pi AND 1 \<noteq> 0 then
            let (dt, s) = CheckType (hba_port (GlobalABAR s) i) s
            in if dt = AHCI_DEV_SATA then print_drive i ''  SATA Drive'' s
               else if dt = AHCI_DEV_SATAPI then print_drive i ''  SATAPI Drive'' s
               else Some s
          else Some s);
     drives_loop n (i + 1) (drop_bit 1 pi) s
   }"

definition PrintDrives :: "'a ahci_scheme \<Rightarrow> 'a ahci_scheme option" where
  "PrintDrives s = (let (pi, s) = reg_read (hba_pi (GlobalABAR s)) s in drives_loop 32 0 pi s)"

definition update_reg :: "u64 \<Rightarrow> hba_reg \<Rightarrow> (u32 \<Rightarrow> u32) \<Rightarrow> 'a io_scheme \<Rightarrow> 'a io_scheme" where
  "update_reg port r f s = (let (v, s) = rd port r s in wr port r (f v) s)"

partial_function (option) startCmd :: "u64 \<Rightarrow> 'a io_scheme \<Rightarrow> 'a io_scheme option" where
  "startCmd port s =
     (let (cmd, s) = rd port CMD s
      in if cmd AND 0x8000 \<noteq> 0 then startCmd port s
         else Some (update_reg port CMD (\<lambda>v. v OR 0x0001) (update_reg port CMD (\<lambda>v. v OR 0x0010) s)))"

partial_function (option) stop_loop :: "u64 \<Rightarrow> 'a io_scheme \<Rightarrow> 'a io_scheme option" where
  "stop_loop port s =
     (let (cmd, s) = rd port CMD s
      in if cmd AND 0x4000 \<noteq> 0 then stop_loop port s
         else let (cmd, s) = rd port CMD s
              in if cmd AND 0x8000 \<noteq> 0 then stop_loop port s else Some s)"

definition stopCmd :: "u64 \<Rightarrow> 'a io_scheme \<Rightarrow> 'a io_scheme option" where
  "stopCmd port s =
     stop_loop port (update_reg port CMD (\<lambda>v. v AND NOT 0x0010) (update_reg port CMD (\<lambda>v. v AND NOT 0x0001) s))"

text \<open>One command slot of \<open>PortRebase\<close>: a page, the table at \<open>i << 8\<close> from its start.\<close>

definition rebase_slot :: "u64 \<Rightarrow> nat \<Rightarrow> 'a io_scheme \<Rightarrow> 'a io_scheme option" where
  "rebase_slot cmdHeader i s =
     (let h = cmdHeader + of_nat (32 * i);
          s = s\<lparr>mem := set_prdtl h 8 (mem s)\<rparr>;
          (cmdTableAddress, s) = RequestPage s;
          address = cmdTableAddress + push_bit 8 (of_nat i);
          s = s\<lparr>mem := set_ctba h address (mem s)\<rparr>
      in do { m \<leftarrow> memset (mem s) cmdTableAddress 0 256; Some (s\<lparr>mem := m\<rparr>) })"

fun rebase_slots :: "nat \<Rightarrow> u64 \<Rightarrow> nat \<Rightarrow> 'a io_scheme \<Rightarrow> 'a io_scheme option" where
  "rebase_slots 0 cmdHeader i s = Some s"
| "rebase_slots (Suc n) cmdHeader i s = do { s \<leftarrow> rebase_slot cmdHeader i s; rebase_slots n cmdHeader (i + 1) s }"

definition PortRebase :: "u64 \<Rightarrow> int \<Rightarrow> 'a io_scheme \<Rightarrow> 'a io_scheme option" where
  "PortRebase port portno s = do {
     s \<leftarrow> stopCmd port s;
     let (newBase, s) = RequestPage s;
     let s = wr port CLB (ucast newBase) s;
     let s = wr port CLBU (ucast (drop_bit 32 newBase)) s;
     let (clb, s) = rd port CLB s;
     m \<leftarrow> memset (mem s) (ucast clb) 0 1024;
     let s = s\<lparr>mem := m\<rparr>;
     let (fisBase, s) = RequestPage s;
     let s = wr port FB (ucast fisBase) s;
     let s = wr port FBU (ucast (drop_bit 32 fisBase)) s;
     m \<leftarrow> memset (mem s) fisBase 0 256;
     let s = s\<lparr>mem := m\<rparr>;
     let (clb, s) = rd port CLB s;
     let (clbu, s) = rd port CLBU s;
     let cmdHeader = ucast clb + push_bit 32 (ucast clbu);
     s \<leftarrow> rebase_slots 32 cmdHeader 0 s;
     startCmd port s
   }"

fun probe_loop :: "nat \<Rightarrow> int \<Rightarrow> u32 \<Rightarrow> u64 \<Rightarrow> 'a ahci_scheme \<Rightarrow> 'a ahci_scheme option" where
  "probe_loop 0 i pi abar s = Some s"
| "probe_loop (Suc n) i pi abar s = do {
     s \<leftarrow> (if pi AND 1 \<noteq> 0 then
            let (dt, s) = CheckType (hba_port abar i) s
            in if dt = AHCI_DEV_SATA then PortRebase (hba_port abar i) i s else Some s
          else Some s);
     probe_loop n (i + 1) (drop_bit 1 pi) abar s
   }"

definition ProbePort :: "u64 \<Rightarrow> 'a ahci_scheme \<Rightarrow> 'a ahci_scheme option" where
  "ProbePort abar s = do {
     s \<leftarrow> MapMemory abar abar s;
     let s = s\<lparr>GlobalABAR := abar\<rparr>;
     let (pi, s) = reg_read (hba_pi abar) s;
     probe_loop 32 0 pi abar s
   }"


subsection \<open>Commands\<close>

fun slot_loop :: "nat \<Rightarrow> int \<Rightarrow> u32 \<Rightarrow> int" where
  "slot_loop 0 i slots = -1"
| "slot_loop (Suc n) i slots = (if slots AND 1 = 0 then i else slot_loop n (i + 1) (drop_bit 1 slots))"

definition newline :: string where
  "newline = [CHR 0x0A]"

definition find_cmdslot :: "u64 \<Rightarrow> 'a ahci_scheme \<Rightarrow> int \<times> 'a ahci_scheme" where
  "find_cmdslot port s =
     (let (sact, s) = rd port SACT s;
          (ci, s) = rd port CI s;
          slots = sact OR ci;
          (cap, s) = reg_read (hba_cap (GlobalABAR s)) s;
          cmdslots = drop_bit 8 (cap AND 0x0f00);
          i = slot_loop (unat cmdslots) 0 slots
      in if i \<noteq> -1 then (i, s)
         else (-1, PrintNL_lit (''Cannot find free command list entry'' @ newline) s))"

text \<open>The command in memory: the header in its slot, the command table and the FIS.\<close>

definition read_command :: "u64 \<Rightarrow> u32 \<Rightarrow> u32 \<Rightarrow> u32 \<Rightarrow> u64 \<Rightarrow> memory \<Rightarrow> memory option" where
  "read_command cmdHeader startl starth count buf m = do {
     let m = set_cfl cmdHeader (ucast (sizeof_FIS_REG_H2D div 4)) m;
     let m = set_w cmdHeader False m;
     let m = set_prdtl cmdHeader 1 m;
     let t = ctba m cmdHeader;
     m \<leftarrow> memset m t 0 (sizeof_HBA_CMD_TBL + (ucast (prdtl m cmdHeader) - 1) * 16);
     let m = set_dba t (ucast buf) m;
     let m = set_dbau t (ucast (drop_bit 32 buf)) m;
     let m = set_dbc t (push_bit 9 count - 1) m;
     let m = set_i t m;
     let m = set_fis t F_type (FIS_TYPE_value FIS_TYPE_REG_H2D) m;
     let m = set_fis_c t m;
     let m = set_fis t F_command 0x25 m;
     let m = set_fis t F_lba0 (ucast startl) m;
     let m = set_fis t F_lba1 (ucast (drop_bit 8 startl)) m;
     let m = set_fis t F_lba2 (ucast (drop_bit 16 startl)) m;
     let m = set_fis t F_lba3 (ucast starth) m;
     let m = set_fis t F_lba4 (ucast (drop_bit 8 starth)) m;
     let m = set_fis t F_lba5 (ucast (drop_bit 16 starth)) m;
     let m = set_fis t F_device (push_bit 6 1) m;
     let m = set_fis t F_countl (ucast (count AND 0xFF)) m;
     Some (set_fis t F_counth (ucast (drop_bit 8 count AND 0xFF)) m)
   }"

definition write_command :: "u64 \<Rightarrow> u32 \<Rightarrow> u32 \<Rightarrow> u32 \<Rightarrow> u64 \<Rightarrow> memory \<Rightarrow> memory option" where
  "write_command cmdheader startl starth count buf m = do {
     let m = set_cfl cmdheader (ucast (sizeof_FIS_REG_H2D div 4)) m;
     let m = set_w cmdheader True m;
     let m = set_prdtl cmdheader (ucast (drop_bit 4 (count - 1)) + 1) m;
     let t = ctba m cmdheader;
     m \<leftarrow> memset m t 0 (sizeof_HBA_CMD_TBL + (ucast (prdtl m cmdheader) - 1) * 16);
     let m = set_dba t (ucast buf) m;
     let m = set_dbau t (ucast (drop_bit 32 buf)) m;
     let m = set_dbc t (push_bit 9 count - 1) m;
     let m = set_fis t F_type (FIS_TYPE_value FIS_TYPE_REG_H2D) m;
     let m = set_fis_c t m;
     let m = set_fis t F_command 0x35 m;
     let m = set_fis t F_lba0 (ucast startl) m;
     let m = set_fis t F_lba1 (ucast (drop_bit 8 startl)) m;
     let m = set_fis t F_lba2 (ucast (drop_bit 16 startl)) m;
     let m = set_fis t F_device (push_bit 6 1) m;
     let m = set_fis t F_lba3 (ucast (drop_bit 24 startl)) m;
     let m = set_fis t F_lba4 (ucast starth) m;
     let m = set_fis t F_lba5 (ucast (drop_bit 8 starth)) m;
     let m = set_fis t F_countl (ucast (count AND 0xff)) m;
     Some (set_fis t F_counth (ucast (drop_bit 8 count)) m)
   }"

text \<open>Waiting for the port to be ready, at most a million times, and for the command to complete.\<close>

function wait_ready :: "u64 \<Rightarrow> nat \<Rightarrow> 'a io_scheme \<Rightarrow> nat \<times> 'a io_scheme" where
  "wait_ready port spin s =
     (let (tfd, s) = rd port TFD s
      in if tfd AND 0x88 \<noteq> 0 \<and> spin < 1000000 then wait_ready port (spin + 1) s else (spin, s))"
  by pat_completeness auto
termination by (relation "measure (\<lambda>(port, spin, s). 1000000 - spin)") auto

declare wait_ready.simps [simp del]

definition TFES :: u32 where
  "TFES = push_bit 30 1"

partial_function (option) wait_done :: "u64 \<Rightarrow> u32 \<Rightarrow> string \<Rightarrow> 'a io_scheme \<Rightarrow> (bool \<times> 'a io_scheme) option" where
  "wait_done port slot_bit msg s =
     (let (ci, s) = rd port CI s
      in if ci AND slot_bit = 0 then Some (True, s)
         else let (is, s) = rd port IS s
              in if is AND TFES \<noteq> 0 then Some (False, PrintNL_lit msg s)
                 else wait_done port slot_bit msg s)"

definition check_again :: "u64 \<Rightarrow> string \<Rightarrow> 'a io_scheme \<Rightarrow> bool \<times> 'a io_scheme" where
  "check_again port msg s =
     (let (is, s) = rd port IS s
      in if is AND TFES \<noteq> 0 then (False, PrintNL_lit msg s) else (True, s))"

definition Read :: "int \<Rightarrow> u32 \<Rightarrow> u32 \<Rightarrow> u32 \<Rightarrow> u64 \<Rightarrow> 'a ahci_scheme \<Rightarrow> (bool \<times> 'a ahci_scheme) option" where
  "Read i startl starth count buf s =
     (let port = hba_port (GlobalABAR s) i;
          s = wr port IS (-1) s;
          (slot, s) = find_cmdslot port s
      in if slot = -1 then Some (False, s)
         else do {
           let (clb, s) = rd port CLB s;
           let cmdHeader = ucast clb + of_int (32 * slot);
           m \<leftarrow> read_command cmdHeader startl starth count buf (mem s);
           let (spin, s) = wait_ready port 0 (s\<lparr>mem := m\<rparr>);
           if spin = 1000000 then Some (False, s)
           else do {
             let s = wr port CI (push_bit (nat slot) 1) s;
             (done, s) \<leftarrow> wait_done port (push_bit (nat slot) 1) (''Read disk error'' @ newline) s;
             if done then Some (check_again port ''Read disk error here'' s) else Some (False, s)
           }
         })"

text \<open>\<open>Write\<close> goes on when no slot is free; shifting by the slot number \<open>-1\<close> is undefined.\<close>

definition Write :: "int \<Rightarrow> u32 \<Rightarrow> u32 \<Rightarrow> u32 \<Rightarrow> u64 \<Rightarrow> 'a ahci_scheme \<Rightarrow> (bool \<times> 'a ahci_scheme) option" where
  "Write i startl starth count buf s = do {
     let port = hba_port (GlobalABAR s) i;
     let s = wr port IS (-1) s;
     let (slot, s) = find_cmdslot port s;
     let (clb, s) = rd port CLB s;
     let cmdheader = ucast clb + of_int (32 * slot);
     m \<leftarrow> write_command cmdheader startl starth count buf (mem s);
     let (spin, s) = wait_ready port 0 (s\<lparr>mem := m\<rparr>);
     if spin = 1000000 then Some (False, s)
     else if slot < 0 then None
     else do {
       let s = wr port CI (push_bit (nat slot) 1) s;
       (done, s) \<leftarrow> wait_done port (push_bit (nat slot) 1) ''Write disk error here'' s;
       if done then Some (check_again port ''Write disk error here'' s) else Some (False, s)
     }
   }"

subsection \<open>The size of a disk\<close>

partial_function (option) wait_identify :: "u64 \<Rightarrow> 'a io_scheme \<Rightarrow> 'a io_scheme option" where
  "wait_identify port s =
     (let (ci, s) = rd port CI s
      in if ci = 0 then Some s
         else let (is, s) = rd port IS s
              in wait_identify port (if is AND TFES \<noteq> 0 then PrintNL_lit ''error'' s else s))"

text \<open>\<open>lba_capacity\<close> of \<open>SATA_ident\<close> is its 61st word.\<close>

definition lba_capacity :: "memory \<Rightarrow> u64 \<Rightarrow> u32" where
  "lba_capacity m data_base = read32 m (data_base + 120)"

definition ReadDiskSize :: "int \<Rightarrow> 'a ahci_scheme \<Rightarrow> (u64 \<times> 'a ahci_scheme) option" where
  "ReadDiskSize i s = do {
     (buf, s) \<leftarrow> kmalloc 0x4096 s;
     let port = hba_port (GlobalABAR s) i;
     let (clb, s) = rd port CLB s;
     let cmdhead = ucast clb;
     let m = set_cfl cmdhead 5 (mem s);
     let m = set_w cmdhead False m;
     let m = set_prdtl cmdhead 1 m;
     let m = set_p cmdhead True m;
     let m = set_c cmdhead True m;
     let cmdtbl = ctba m cmdhead;
     m \<leftarrow> memset m cmdtbl 0 sizeof_HBA_CMD_TBL;
     let m = set_dba cmdtbl (ucast buf) m;
     let m = set_dbc cmdtbl 0x1FF m;
     let m = set_i cmdtbl m;
     let data_base = ucast (read32 m (cmdtbl + 0x80));
     m \<leftarrow> memset m data_base 0 4096;
     m \<leftarrow> memset m cmdtbl 0 sizeof_FIS_REG_H2D;
     let m = set_fis cmdtbl F_type (FIS_TYPE_value FIS_TYPE_REG_H2D) m;
     let m = set_fis_c cmdtbl m;
     let m = set_fis cmdtbl F_command 0xEC m;
     let s = wr port CI 1 (s\<lparr>mem := m\<rparr>);
     s \<leftarrow> wait_identify port s;
     let (is, s) = rd port IS s;
     let s = (if is AND TFES \<noteq> 0 then PrintNL_lit ''error'' s else s);
     let s = kfree buf s;
     Some (ucast (lba_capacity (mem s) data_base), s)
   }"


subsection \<open>The address in a command\<close>

definition fis_lba :: "memory \<Rightarrow> u64 \<Rightarrow> u64" where
  "fis_lba m t = ucast (m (t + fis_offset F_lba0)) OR push_bit 8 (ucast (m (t + fis_offset F_lba1)))
     OR push_bit 16 (ucast (m (t + fis_offset F_lba2))) OR push_bit 24 (ucast (m (t + fis_offset F_lba3)))
     OR push_bit 32 (ucast (m (t + fis_offset F_lba4))) OR push_bit 40 (ucast (m (t + fis_offset F_lba5)))"

lemma byte_of: "(ucast (ucast (drop_bit k (l :: u32)) :: u8) :: u64) = take_bit 8 (drop_bit k (ucast l))"
  by (rule bit_word_eqI) (auto simp: bit_simps dest: bit_imp_le_length)

lemma join_bits: "take_bit a x OR push_bit a (take_bit b (drop_bit a x)) = take_bit (a + b) (x :: u64)"
  by (rule bit_word_eqI) (auto simp: bit_simps)

lemma join_at: "push_bit k (take_bit a x) OR push_bit (k + a) (take_bit b (drop_bit a x)) = push_bit k (take_bit (a + b) (x :: u64))"
  unfolding push_bit_push_bit [symmetric] push_bit_or [symmetric] join_bits ..

lemma three_bytes:
  "((ucast (ucast (l :: u32) :: u8) :: u64) OR push_bit 8 (ucast (ucast (drop_bit 8 l) :: u8)))
     OR push_bit 16 (ucast (ucast (drop_bit 16 l) :: u8)) = take_bit 24 (ucast l)"
  using byte_of [of 0 l] join_bits [of 8 "ucast l" 8] join_bits [of 16 "ucast l" 8] by (simp add: byte_of)

lemma write_lba_bytes:
  fixes l h :: u32
  shows "(ucast (ucast l :: u8) :: u64) OR push_bit 8 (ucast (ucast (drop_bit 8 l) :: u8))
     OR push_bit 16 (ucast (ucast (drop_bit 16 l) :: u8)) OR push_bit 24 (ucast (ucast (drop_bit 24 l) :: u8))
     OR push_bit 32 (ucast (ucast h :: u8)) OR push_bit 40 (ucast (ucast (drop_bit 8 h) :: u8))
   = ucast l OR push_bit 32 (take_bit 16 (ucast h))"
proof -
  have "take_bit 32 (ucast l :: u64) = ucast l"
    by (rule bit_word_eqI) (auto simp: bit_simps dest: bit_imp_le_length)
  then have l: "take_bit 24 (ucast l :: u64) OR push_bit 24 (ucast (ucast (drop_bit 24 l) :: u8)) = ucast l"
    using join_bits [of 24 "ucast l" 8] by (simp add: byte_of)
  have h: "push_bit 32 (ucast (ucast h :: u8)) OR push_bit 40 (ucast (ucast (drop_bit 8 h) :: u8))
      = (push_bit 32 (take_bit 16 (ucast h)) :: u64)"
    using byte_of [of 0 h] join_at [of 32 8 "ucast h" 8] by (simp add: byte_of)
  show ?thesis unfolding h [symmetric] or.assoc [symmetric] three_bytes l ..
qed

lemma read_lba_bytes:
  fixes l h :: u32
  shows "(ucast (ucast l :: u8) :: u64) OR push_bit 8 (ucast (ucast (drop_bit 8 l) :: u8))
     OR push_bit 16 (ucast (ucast (drop_bit 16 l) :: u8)) OR push_bit 24 (ucast (ucast h :: u8))
     OR push_bit 32 (ucast (ucast (drop_bit 8 h) :: u8)) OR push_bit 40 (ucast (ucast (drop_bit 16 h) :: u8))
   = take_bit 24 (ucast l) OR push_bit 24 (take_bit 24 (ucast h))"
proof -
  have h: "(push_bit 24 (ucast (ucast h :: u8)) OR push_bit 32 (ucast (ucast (drop_bit 8 h) :: u8)))
      OR push_bit 40 (ucast (ucast (drop_bit 16 h) :: u8)) = (push_bit 24 (take_bit 24 (ucast h)) :: u64)"
    using byte_of [of 0 h] join_at [of 24 8 "ucast h" 8] join_at [of 24 16 "ucast h" 8] by (simp add: byte_of)
  show ?thesis unfolding h [symmetric] or.assoc [symmetric] three_bytes ..
qed

text \<open>The header bytes that a command changes are not those of its table address.\<close>

lemma ctba_header:
  "ctba (set_cfl h v m) h = ctba m h" "ctba (set_w h b m) h = ctba m h" "ctba (set_prdtl h l m) h = ctba m h"
  by (simp_all add: ctba_def set_cfl_def set_w_def set_prdtl_def load_eval write16_def store_le_numeral)

lemma prdtl_set [simp]: "prdtl (set_prdtl h l m) h = l"
  by (simp add: prdtl_def set_prdtl_def)

lemma fis_lba_set:
  "fis_lba (m(t + 4 := a0, t + 5 := a1, t + 6 := a2, t + 7 := a3, t + 8 := a4, t + 9 := a5, t + 10 := a6, t + 12 := a7, t + 13 := a8)) t
   = ucast a0 OR push_bit 8 (ucast a1) OR push_bit 16 (ucast a2) OR push_bit 24 (ucast a4) OR push_bit 32 (ucast a5) OR push_bit 40 (ucast a6)"
  by (simp add: fis_lba_def)

lemma fis_lba_write_command:
  "write_command h l hi c b m = Some m' \<Longrightarrow> fis_lba m' (ctba m h) = ucast l OR push_bit 32 (take_bit 16 (ucast hi))"
  unfolding write_lba_bytes [symmetric]
  by (auto simp: write_command_def Let_def ctba_header set_fis_def fis_lba_def bind_eq_Some_conv)

lemma fis_lba_read_command:
  "read_command h l hi c b m = Some m' \<Longrightarrow> fis_lba m' (ctba m h) = take_bit 24 (ucast l) OR push_bit 24 (take_bit 24 (ucast hi))"
  unfolding read_lba_bytes [symmetric]
  by (auto simp: read_command_def Let_def ctba_header set_fis_def fis_lba_def bind_eq_Some_conv)

lemma ctba_bound: "unat (ctba m h) < 2 ^ 32"
proof -
  have "(of_nat (unat (read32 m (h + 8))) :: u64) = ctba m h" unfolding ctba_def by (rule of_nat_unat)
  moreover have "unat (of_nat (unat (read32 m (h + 8))) :: u64) = unat (read32 m (h + 8))"
    by (rule unat_of_nat_lt) (rule less_trans [OF unat_lt_u32], simp)
  ultimately show ?thesis by (metis u32_limit unat_lt_u32)
qed

lemma read_command_returns: "\<exists>m'. read_command h l hi c b m = Some m'"
proof -
  let ?t = "ctba m h"
  have "unat ?t + 144 + 160 < 2 ^ 64" using ctba_bound [of m h] by simp
  then have "memset m0 ?t 0 144 = Some (stamp 144 m0 ?t 0)" for m0
    using memset_stamps [of ?t 144 m0 0] by simp
  then show ?thesis by (simp add: read_command_def Let_def ctba_header sizeof_HBA_CMD_TBL_def)
qed

subsection \<open>Waiting\<close>

text \<open>What the device has still to say: nothing the driver does changes its answers.\<close>

definition same_device :: "'a io_scheme \<Rightarrow> 'a io_scheme \<Rightarrow> bool" where
  "same_device s t \<longleftrightarrow> reg_in t = reg_in s \<and> length (io_log s) \<le> length (io_log t)"

lemma same_device_refl [simp]: "same_device s s" by (simp add: same_device_def)

lemma same_device_trans: "same_device s t \<Longrightarrow> same_device t u \<Longrightarrow> same_device s u"
  by (auto simp: same_device_def)

lemma rd_eq: "rd port r s = (reg_in s (io_log s) (port + reg_offset r), snd (rd port r s))"
  by (simp add: rd_def reg_read_def Let_def)

lemma rd_log: "reg_in (snd (rd port r s)) = reg_in s" "length (io_log (snd (rd port r s))) = Suc (length (io_log s))"
  by (simp_all add: rd_def io_simps Let_def)

lemma wr_log: "reg_in (wr port r v s) = reg_in s" "length (io_log (wr port r v s)) = Suc (length (io_log s))"
  by (simp_all add: wr_def io_simps Let_def)

lemma rd_event: "io_log (snd (rd port r s)) = RegRead (port + reg_offset r) (reg_in s (io_log s) (port + reg_offset r)) # io_log s"
  by (simp add: rd_def io_simps Let_def)

text \<open>On a port that stays busy the status is read once more than the spin limit says.\<close>

lemma wait_ready_busy:
  assumes "\<And>l. reg_in s l (port + reg_offset TFD) AND 0x88 \<noteq> 0" "spin \<le> 1000000"
  shows "\<exists>vs t. wait_ready port spin s = (1000000, t) \<and> length vs = Suc (1000000 - spin)
    \<and> io_log t = map (RegRead (port + reg_offset TFD)) vs @ io_log s"
  using assms
proof (induction "1000000 - spin" arbitrary: spin s)
  case 0
  then have "wait_ready port spin s = (1000000, snd (rd port TFD s))"
    by (subst wait_ready.simps, subst rd_eq) simp
  then show ?case using 0 rd_event [of port TFD s] by (intro exI [of _ "[_]"]) auto
next
  case (Suc d)
  let ?s1 = "snd (rd port TFD s)"
  have lt: "spin < 1000000" using Suc.hyps(2) by simp
  have "\<exists>vs t. wait_ready port (spin + 1) ?s1 = (1000000, t) \<and> length vs = Suc (1000000 - (spin + 1))
    \<and> io_log t = map (RegRead (port + reg_offset TFD)) vs @ io_log ?s1"
    using Suc.hyps(2) Suc.prems by (intro Suc.hyps(1)) (simp_all add: rd_log)
  then obtain vs t where "wait_ready port (spin + 1) ?s1 = (1000000, t)" "length vs = Suc (1000000 - (spin + 1))"
    "io_log t = map (RegRead (port + reg_offset TFD)) vs @ io_log ?s1" by blast
  moreover have "wait_ready port spin s = wait_ready port (spin + 1) ?s1"
    using lt Suc.prems(1) by (subst wait_ready.simps, subst rd_eq) simp
  ultimately show ?case
    using Suc.hyps(2) rd_event [of port TFD s] by (intro exI [of _ "vs @ [_]"] exI [of _ t]) auto
qed

text \<open>A slot that is found costs three reads and prints nothing.\<close>

lemma find_cmdslot_found:
  assumes "find_cmdslot port s = (slot, t)" "slot \<noteq> -1"
  shows "t = snd (reg_read (hba_cap (GlobalABAR s)) (snd (rd port CI (snd (rd port SACT s)))))"
proof -
  have "GlobalABAR (snd (rd port r u)) = GlobalABAR u" for r and u :: "'a ahci_scheme"
    by (simp add: rd_def io_simps Let_def)
  then show ?thesis
    using assms unfolding find_cmdslot_def
    by (subst (asm) rd_eq, subst (asm) (2) rd_eq) (auto simp: Let_def split_beta split: if_splits)
qed

lemma slot_free_same:
  assumes "find_cmdslot port s = (slot, t)" "slot \<noteq> -1"
  shows "reg_in t = reg_in s" and "\<exists>v1 v2 v3. io_log t
    = [RegRead (hba_cap (GlobalABAR s)) v3, RegRead (port + reg_offset CI) v2, RegRead (port + reg_offset SACT) v1] @ io_log s"
  unfolding find_cmdslot_found [OF assms] by (simp_all add: rd_def io_simps Let_def)

text \<open>The free slot that \<open>Read\<close> and \<open>Write\<close> find.\<close>

definition free_slot :: "int \<Rightarrow> 'a ahci_scheme \<Rightarrow> int" where
  "free_slot i s = fst (find_cmdslot (hba_port (GlobalABAR s) i) (wr (hba_port (GlobalABAR s) i) IS (-1) s))"

text \<open>The events of \<open>Read\<close> up to the command in memory, newest first.\<close>

definition prepared_log :: "u64 \<Rightarrow> u64 \<Rightarrow> u32 list \<Rightarrow> io_event list" where
  "prepared_log abar port vs =
     map2 RegRead [port + reg_offset CLB, hba_cap abar, port + reg_offset CI, port + reg_offset SACT] vs
     @ [RegWrite (port + reg_offset IS) (-1)]"

lemma Read_prepared:
  assumes "free_slot i s \<noteq> -1"
  defines "port \<equiv> hba_port (GlobalABAR s) i"
  shows "\<exists>t vs. reg_in t = reg_in s \<and> length vs = 4 \<and> io_log t = prepared_log (GlobalABAR s) port vs @ io_log s
    \<and> Read i startl starth count buf s =
    (let (spin, t) = wait_ready port 0 t
     in if spin = 1000000 then Some (False, t)
        else do {
          let t = wr port CI (push_bit (nat (free_slot i s)) 1) t;
          (done, t) \<leftarrow> wait_done port (push_bit (nat (free_slot i s)) 1) (''Read disk error'' @ newline) t;
          if done then Some (check_again port ''Read disk error here'' t) else Some (False, t)
        })"
proof -
  let ?s1 = "wr port IS (-1) s"
  obtain slot s2 where f: "find_cmdslot port ?s1 = (slot, s2)" by (cases "find_cmdslot port ?s1")
  then have slot: "slot = free_slot i s" "slot \<noteq> -1" using assms(1) by (simp_all add: free_slot_def port_def)
  have g: "GlobalABAR ?s1 = GlobalABAR s" "io_log ?s1 = RegWrite (port + reg_offset IS) (-1) # io_log s"
    by (simp_all add: wr_def io_simps Let_def)
  obtain v1 v2 v3 where r2: "reg_in s2 = reg_in s" and l2: "io_log s2
    = [RegRead (hba_cap (GlobalABAR s)) v3, RegRead (port + reg_offset CI) v2, RegRead (port + reg_offset SACT) v1,
       RegWrite (port + reg_offset IS) (-1)] @ io_log s"
    using slot_free_same [OF f slot(2)] g by (auto simp: wr_log)
  obtain clb s3 where c: "rd port CLB s2 = (clb, s3)" by (cases "rd port CLB s2")
  have r3: "reg_in s3 = reg_in s" using rd_log(1) [of port CLB s2] c r2 by simp
  have "\<exists>v. io_log s3 = RegRead (port + reg_offset CLB) v # io_log s2" using rd_event [of port CLB s2] c by simp
  then obtain v4 where l3: "io_log s3 = prepared_log (GlobalABAR s) port [v4, v3, v2, v1] @ io_log s"
    using l2 by (auto simp: prepared_log_def)
  obtain m where m: "read_command (ucast clb + of_int (32 * slot)) startl starth count buf (mem s3) = Some m"
    using read_command_returns by blast
  show ?thesis
    by (rule exI [of _ "s3\<lparr>mem := m\<rparr>"], rule exI [of _ "[v4, v3, v2, v1]"])
      (use slot(2) r3 l3 in \<open>simp add: Read_def port_def [symmetric] f [unfolded slot(1)] c m [unfolded slot(1)] slot(1) del: of_int_mult\<close>)
qed

lemma wait_ready_idle:
  assumes "\<And>l. reg_in s l (port + reg_offset TFD) AND 0x88 = 0"
  shows "wait_ready port spin s = (spin, snd (rd port TFD s))"
  using assms by (subst wait_ready.simps, subst rd_eq) simp

subsection \<open>Properties\<close>

text \<open>A controller at 0x40000 with one command slot, whose port 1 always shows the given task file.\<close>

definition small_disk :: "u32 \<Rightarrow> ahci" where
  "small_disk tfd = io.extend
     (small_io\<lparr>mem := (\<lambda>a. if a = 0x10000 then 0x80 else 0),
        reg_in := (\<lambda>_ a. if a = 0x40000 then 0x100 else if a = 0x401A0 then tfd else 0)\<rparr>)
     (ahci.fields 0x40000)"

lemma small_disk_fields:
  "GlobalABAR (small_disk tfd) = 0x40000" "io_log (small_disk tfd) = []"
  "reg_in (small_disk tfd) = (\<lambda>_ a. if a = 0x40000 then 0x100 else if a = 0x401A0 then tfd else 0)"
  "mem (small_disk tfd) = (\<lambda>a. if a = 0x10000 then 0x80 else 0)"
  "PageBitmap (small_disk tfd) = \<lparr>bm_size = 1, bm_Buffer = 0x10000\<rparr>" "bitmapIndex (small_disk tfd) = 0"
  by (simp_all add: small_disk_def small_io_def small_screen_def gfx.defs io.defs ahci.defs)

lemma small_disk_slot: "free_slot 1 (small_disk tfd) = 0"
  by (simp add: free_slot_def find_cmdslot_def rd_def wr_def io_simps Let_def small_disk_fields hba_port_def hba_cap_def)

text \<open>C20: The command \<open>Write\<close> builds addresses the sector of its two arguments, low word and high
  half; the one \<open>Read\<close> builds takes the fourth byte of the address from its high argument and drops
  bits 24 to 31 of the low one. For a sector below \<open>2 ^ 32\<close> the two agree exactly when it is below
  \<open>2 ^ 24\<close>: what is written behind the first eight gigabytes is read from somewhere else.\<close>

theorem Read_misses_high_sectors:
  assumes "read_command h startl starth count buf m = Some m1" "write_command h startl starth count buf m = Some m2"
  shows "fis_lba m2 (ctba m h) = ucast startl OR push_bit 32 (take_bit 16 (ucast starth))
    \<and> fis_lba m1 (ctba m h) = take_bit 24 (ucast startl) OR push_bit 24 (take_bit 24 (ucast starth))
    \<and> (starth = 0 \<longrightarrow> (fis_lba m1 (ctba m h) = fis_lba m2 (ctba m h)) = (startl < 2 ^ 24))"
proof -
  have "(take_bit 24 (ucast startl) :: u64) = ucast startl \<longleftrightarrow> startl < 2 ^ 24"
  proof -
    have "(take_bit 24 (ucast startl) :: u64) = ucast (take_bit 24 startl)"
      by (rule bit_word_eqI) (auto simp: bit_simps)
    moreover have "(ucast (take_bit 24 startl) :: u64) = ucast startl \<longleftrightarrow> take_bit 24 startl = startl"
    proof
      assume "(ucast (take_bit 24 startl) :: u64) = ucast startl"
      then have "(ucast (ucast (take_bit 24 startl) :: u64) :: u32) = ucast (ucast startl :: u64)" by simp
      moreover have "(ucast (ucast (x :: u32) :: u64) :: u32) = x" for x
        by (rule bit_word_eqI) (auto simp: bit_simps)
      ultimately show "take_bit 24 startl = startl" by simp
    qed simp
    moreover have "take_bit 24 startl = startl \<longleftrightarrow> startl < 2 ^ 24"
    proof -
      have "unat (take_bit 24 startl) = take_bit 24 (unat startl)" by (rule unsigned_take_bit_eq)
      also have "\<dots> = unat startl mod 2 ^ 24" by (rule take_bit_eq_mod)
      finally have "unat (take_bit 24 startl) = unat startl mod 2 ^ 24" .
      moreover have "unat startl mod 2 ^ 24 = unat startl \<longleftrightarrow> unat startl < 2 ^ 24"
        by (metis mod_less mod_less_divisor zero_less_numeral zero_less_power)
      ultimately show ?thesis by (simp add: word_unat_eq_iff word_less_nat_alt)
    qed
    ultimately show ?thesis by simp
  qed
  then show ?thesis
    using fis_lba_read_command [OF assms(1)] fis_lba_write_command [OF assms(2)] by simp
qed

theorem Read_misses_high_sectors_witness:
  "\<exists>m1 m2. read_command 0x2000 0x1000000 0 1 0x3000 (\<lambda>_. 0) = Some m1 \<and> write_command 0x2000 0x1000000 0 1 0x3000 (\<lambda>_. 0) = Some m2
    \<and> fis_lba m1 0 \<noteq> fis_lba m2 0"
proof -
  obtain m1 where m1: "read_command 0x2000 0x1000000 0 1 0x3000 (\<lambda>_. 0) = Some m1" using read_command_returns by blast
  have t: "ctba (\<lambda>_. 0) 0x2000 = 0" by (simp add: ctba_def load_eval)
  have "memset m 0 0 144 = Some (stamp 144 m 0 0)" for m using memset_stamps [of 0 144 m 0] by simp
  then obtain m2 where m2: "write_command 0x2000 0x1000000 0 1 0x3000 (\<lambda>_. 0) = Some m2"
    by (simp add: write_command_def Let_def ctba_header t sizeof_HBA_CMD_TBL_def)
  show ?thesis using Read_misses_high_sectors [OF m1 m2] m1 m2 by (simp add: t)
qed

text \<open>C19: A read on a port that stays busy reads the status register 1000001 times (one test more
  than the spin limit of a million), returns false, and has not issued the command: apart from the
  status the driver has only cleared the interrupt bits and read the four registers that locate the
  command slot.\<close>

theorem Read_gives_up:
  assumes "free_slot i s \<noteq> -1" "\<And>l. reg_in s l (hba_port (GlobalABAR s) i + reg_offset TFD) AND 0x88 \<noteq> 0"
  defines "port \<equiv> hba_port (GlobalABAR s) i"
  shows "\<exists>t polls vs. Read i startl starth count buf s = Some (False, t)
    \<and> io_log t = map (RegRead (port + reg_offset TFD)) polls
        @ map2 RegRead [port + reg_offset CLB, hba_cap (GlobalABAR s), port + reg_offset CI, port + reg_offset SACT] vs
        @ [RegWrite (port + reg_offset IS) (-1)] @ io_log s
    \<and> length polls = 1000001 \<and> length vs = 4"
proof -
  obtain t vs where t: "reg_in t = reg_in s" "length vs = 4" "io_log t = prepared_log (GlobalABAR s) port vs @ io_log s"
    "Read i startl starth count buf s =
    (let (spin, t) = wait_ready port 0 t
     in if spin = 1000000 then Some (False, t)
        else do {
          let t = wr port CI (push_bit (nat (free_slot i s)) 1) t;
          (done, t) \<leftarrow> wait_done port (push_bit (nat (free_slot i s)) 1) (''Read disk error'' @ newline) t;
          if done then Some (check_again port ''Read disk error here'' t) else Some (False, t)
        })"
    using Read_prepared [OF assms(1)] unfolding port_def by blast
  have "\<exists>ps u. wait_ready port 0 t = (1000000, u) \<and> length ps = Suc (1000000 - 0)
    \<and> io_log u = map (RegRead (port + reg_offset TFD)) ps @ io_log t"
    using assms(2) t(1) by (intro wait_ready_busy) (simp_all add: port_def)
  then obtain ps u where "wait_ready port 0 t = (1000000, u)" "length ps = Suc (1000000 - 0)"
    "io_log u = map (RegRead (port + reg_offset TFD)) ps @ io_log t" by blast
  then show ?thesis
    unfolding t(4) using t(2,3) by (intro exI [of _ u] exI [of _ ps] exI [of _ vs]) (simp add: prepared_log_def)
qed

theorem Read_gives_up_witness: "\<exists>t. Read 1 7 0 1 0x3000 (small_disk 0x80) = Some (False, t)"
proof -
  have "free_slot 1 (small_disk 0x80) \<noteq> -1" by (simp add: small_disk_slot)
  moreover have "reg_in (small_disk 0x80) l (hba_port (GlobalABAR (small_disk 0x80)) 1 + reg_offset TFD) AND 0x88 \<noteq> 0" for l
    by (simp add: small_disk_fields hba_port_def)
  ultimately show ?thesis using Read_gives_up [where i = 1 and s = "small_disk 0x80"] by blast
qed

text \<open>\<open>PortRebase\<close> takes one page for each of the 32 command slots and puts the command table of
  slot \<open>i\<close> at offset \<open>256 * i\<close> from it: from slot 16 on the table lies outside the page.\<close>

theorem rebase_slot_leaves_page:
  assumes "rebase_slot h i s = Some s'" "RequestPage (s\<lparr>mem := set_prdtl (h + of_nat (32 * i)) 8 (mem s)\<rparr>) = (page, u)"
    and "16 \<le> i" "i < 32"
  shows "page + push_bit 8 (of_nat i) \<notin> region page 4096
    \<and> (\<exists>m. memset (set_ctba (h + of_nat (32 * i)) (page + push_bit 8 (of_nat i)) (mem u)) page 0 256 = Some m \<and> s' = u\<lparr>mem := m\<rparr>)"
proof
  have "unat (of_nat i :: u64) = i" using assms(4) by (intro unat_of_nat_lt) simp
  moreover have "(push_bit 8 (of_nat i) :: u64) = of_nat (i * 256)" by (simp add: push_bit_eq_mult)
  moreover have "unat (of_nat (i * 256) :: u64) = i * 256" using assms(4) by (intro unat_of_nat_lt) simp
  ultimately show "page + push_bit 8 (of_nat i) \<notin> region page 4096" using assms(3) by (simp add: region_def)
  show "\<exists>m. memset (set_ctba (h + of_nat (32 * i)) (page + push_bit 8 (of_nat i)) (mem u)) page 0 256 = Some m \<and> s' = u\<lparr>mem := m\<rparr>"
    using assms(1,2) by (auto simp: rebase_slot_def Let_def bind_eq_Some_conv)
qed

theorem rebase_slot_leaves_page_witness:
  "\<exists>u s'. RequestPage ((small_disk 0)\<lparr>mem := set_prdtl 0x2200 8 (mem (small_disk 0))\<rparr>) = (0x1000, u)
    \<and> rebase_slot 0x2000 16 (small_disk 0) = Some s' \<and> 0x2000 \<notin> region 0x1000 4096"
proof -
  let ?s = "(small_disk 0)\<lparr>mem := set_prdtl 0x2200 8 (mem (small_disk 0))\<rparr>"
  have "\<exists>u. RequestPage ?s = (0x1000, u)"
    by (subst RequestPage.simps, subst RequestPage.simps)
      (simp add: small_disk_fields PageBitmap_Get_def Bitmap_Get_def set_prdtl_def store_eval)
  then obtain u where u: "RequestPage ?s = (0x1000, u)" by blast
  then have u': "RequestPage ((small_disk 0)\<lparr>mem := set_prdtl (0x2000 + of_nat (32 * 16)) 8 (mem (small_disk 0))\<rparr>) = (0x1000, u)" by simp
  have "memset m 0x1000 0 256 = Some (stamp 256 m 0x1000 0)" for m using memset_stamps [of "0x1000" 256 m 0] by simp
  then obtain s' where s': "rebase_slot 0x2000 16 (small_disk 0) = Some s'"
    using u by (simp add: rebase_slot_def Let_def)
  show ?thesis using rebase_slot_leaves_page [OF s' u'] u s' by simp
qed

end
