(* ===== verification/AhciDisk.thy ===== *)
theory AhciDisk
  imports Ahci
begin

text \<open>
  The disk behind the driver of \<open>kernel/src/driver/ahci/ahci.cpp\<close>, as the AHCI specification documents
  a port: it takes the command header, the command table and the FIS from memory when the issue
  register is written, transfers the sectors some accesses later and then clears the slot's bit. The
  disk is a hypothesis on the answers of the device; the theorem says that \<open>Read\<close> brings the sectors
  of such a disk into the buffer.
\<close>

subsection \<open>What a port does\<close>

text \<open>The accesses since the command was issued by writing \<open>v\<close> to the issue register \<open>a\<close>.\<close>

primrec issued :: "u64 \<Rightarrow> u32 \<Rightarrow> io_event list \<Rightarrow> nat option" where
  "issued a v [] = None"
| "issued a v (e # log) = (if e = RegWrite a v then Some 0 else map_option Suc (issued a v log))"

definition pending :: "nat \<Rightarrow> u64 \<Rightarrow> u32 \<Rightarrow> io_event list \<Rightarrow> bool" where
  "pending delay a v log = (case issued a v log of None \<Rightarrow> False | Some k \<Rightarrow> k < delay)"

text \<open>The transfer of a read command whose header is at \<open>h\<close>: a well-formed command with one region
  brings the bytes of its sectors, from the one the FIS addresses on, to the region; any other
  header changes nothing.\<close>

definition table_base :: "memory \<Rightarrow> u64 \<Rightarrow> u64" where
  "table_base m h = ucast (read32 m (h + 8)) OR push_bit 32 (ucast (read32 m (h + 12)))"

definition region_base :: "memory \<Rightarrow> u64 \<Rightarrow> u64" where
  "region_base m t = ucast (read32 m (t + 0x80)) OR push_bit 32 (ucast (read32 m (t + 0x84)))"

definition region_bytes :: "memory \<Rightarrow> u64 \<Rightarrow> nat" where
  "region_bytes m t = unat (read32 m (t + 0x8C) AND 0x3FFFFF) + 1"

definition fis_count :: "memory \<Rightarrow> u64 \<Rightarrow> nat" where
  "fis_count m t = unat (m (t + fis_offset F_countl)) + 256 * unat (m (t + fis_offset F_counth))"

definition read_request :: "memory \<Rightarrow> u64 \<Rightarrow> bool" where
  "read_request m h \<longleftrightarrow> (let t = table_base m h in
     m h AND 0x1F = 5 \<and> m h AND 0x40 = 0 \<and> read16 m (h + 2) = 1 \<and> t AND 0x7F = 0
     \<and> region_base m t AND 1 = 0 \<and> m t = 0x27 \<and> m (t + 1) AND 0x80 = 0x80 \<and> m (t + 2) = 0x25
     \<and> m (t + fis_offset F_device) AND 0x40 = 0x40 \<and> region_bytes m t = 512 * fis_count m t)"

definition run_read :: "(u64 \<Rightarrow> u8) \<Rightarrow> u64 \<Rightarrow> memory \<Rightarrow> memory" where
  "run_read disk h m =
     (let t = table_base m h
      in if read_request m h
         then (\<lambda>a. if a \<in> region (region_base m t) (region_bytes m t)
                   then disk (fis_lba m t * 512 + (a - region_base m t)) else m a)
         else m)"

text \<open>A disk on a port whose command list is at \<open>clb\<close>, which works on a command for \<open>delay\<close> accesses:
  as long as no command is in progress it is not busy, the bit of the slot is set exactly while its
  command is in progress, no error is reported, and memory changes only when the command is done.\<close>

definition disk_device ::
  "u64 \<Rightarrow> u32 \<Rightarrow> nat \<Rightarrow> nat \<Rightarrow> (u64 \<Rightarrow> u8) \<Rightarrow> 'a io_scheme \<Rightarrow> bool" where
  "disk_device port clb slot delay disk s \<longleftrightarrow>
     (let ci = port + reg_offset CI; busy = pending delay ci (push_bit slot 1)
      in (\<forall>l. reg_in s l (port + reg_offset CLB) = clb)
       \<and> (\<forall>l. reg_in s l (port + reg_offset IS) AND TFES = 0)
       \<and> (\<forall>l. busy l \<or> reg_in s l (port + reg_offset TFD) AND 0x88 = 0)
       \<and> (\<forall>l. reg_in s l ci AND push_bit slot 1 = 0 \<longleftrightarrow> \<not> busy l)
       \<and> (\<forall>l m. dma s l m = (if issued ci (push_bit slot 1) l = Some delay
                              then run_read disk (ucast clb + of_nat (32 * slot)) m else m)))"

subsection \<open>The command that the driver builds\<close>

text \<open>The writes of \<open>read_command\<close> to the header, and those to the cleared table.\<close>

definition read_header :: "u64 \<Rightarrow> memory \<Rightarrow> memory" where
  "read_header h m = set_prdtl h 1 (set_w h False (set_cfl h 5 m))"

definition read_table :: "u64 \<Rightarrow> u32 \<Rightarrow> u32 \<Rightarrow> u32 \<Rightarrow> u64 \<Rightarrow> memory \<Rightarrow> memory" where
  "read_table t startl starth count buf m =
     (let m = set_i t (set_dbc t (push_bit 9 count - 1) (set_dbau t (ucast (drop_bit 32 buf)) (set_dba t (ucast buf) (stamp 144 m t 0))));
          m = set_fis t F_command 0x25 (set_fis_c t (set_fis t F_type 0x27 m));
          m = set_fis t F_lba2 (ucast (drop_bit 16 startl)) (set_fis t F_lba1 (ucast (drop_bit 8 startl)) (set_fis t F_lba0 (ucast startl) m));
          m = set_fis t F_lba5 (ucast (drop_bit 16 starth)) (set_fis t F_lba4 (ucast (drop_bit 8 starth)) (set_fis t F_lba3 (ucast starth) m))
      in set_fis t F_counth (ucast (drop_bit 8 count AND 0xFF)) (set_fis t F_countl (ucast (count AND 0xFF)) (set_fis t F_device (push_bit 6 1) m)))"

lemma read_command_eq:
  "read_command h startl starth count buf m = Some (read_table (ctba m h) startl starth count buf (read_header h m))"
proof -
  let ?t = "ctba m h"
  have "unat ?t + 144 + 160 < 2 ^ 64" using ctba_bound [of m h] by simp
  then have "memset m0 ?t 0 144 = Some (stamp 144 m0 ?t 0)" for m0
    using memset_stamps [of ?t 144 m0 0] by simp
  then show ?thesis
    by (simp add: read_command_def read_table_def read_header_def Let_def ctba_header sizeof_HBA_CMD_TBL_def
        sizeof_FIS_REG_H2D_def)
qed

lemma read_table_frame: "a \<notin> region t 144 \<Longrightarrow> read_table t startl starth count buf m a = m a"
  by (auto simp: read_table_def Let_def set_fis_def set_fis_c_def set_i_def set_dbc_def set_dbau_def set_dba_def
      store_eval stamp_def region_def)

lemma read_header_frame: "a \<notin> region h 4 \<Longrightarrow> read_header h m a = m a"
  by (auto simp: read_header_def set_prdtl_def set_w_def set_cfl_def store_eval region_def)

lemmas table_writes = read_table_def Let_def set_fis_def set_fis_c_def set_i_def set_dbc_def set_dbau_def set_dba_def

text \<open>The fields of the table, as the device reads them.\<close>

lemma read_table_bytes:
  fixes startl starth count :: u32 and t buf :: u64 and m :: memory
  defines "m' \<equiv> read_table t startl starth count buf m"
  shows "m' t = 0x27" "m' (t + 1) AND 0x80 = 0x80" "m' (t + 2) = 0x25" "m' (t + fis_offset F_device) = 0x40"
    "m' (t + fis_offset F_countl) = ucast (count AND 0xFF)" "m' (t + fis_offset F_counth) = ucast (drop_bit 8 count AND 0xFF)"
    "fis_lba m' t = take_bit 24 (ucast startl) OR push_bit 24 (take_bit 24 (ucast starth))"
  unfolding m'_def read_lba_bytes [symmetric]
  by (simp_all add: table_writes store_eval stamp_def fis_lba_def)

lemma read_table_words:
  fixes startl starth count :: u32 and t buf :: u64 and m :: memory
  defines "m' \<equiv> read_table t startl starth count buf m"
  shows "read32 m' (t + 0x80) = ucast buf" "read32 m' (t + 0x84) = ucast (drop_bit 32 buf)"
    "read32 m' (t + 0x8C) = 0x80000000 OR ((push_bit 9 count - 1) AND 0x003FFFFF)"
proof -
  show "read32 m' (t + 0x80) = ucast buf"
    using read32_write32_same [of m "t + 0x80" "ucast buf"]
    unfolding m'_def by (simp add: table_writes store_eval load_eval)
  show "read32 m' (t + 0x84) = ucast (drop_bit 32 buf)"
    using read32_write32_same [of m "t + 0x84" "ucast (drop_bit 32 buf)"]
    unfolding m'_def by (simp add: table_writes store_eval load_eval)
  let ?v = "(push_bit 9 count - 1) AND 0x003FFFFF"
  define m1 where "m1 = set_dbau t (ucast (drop_bit 32 buf)) (set_dba t (ucast buf) (stamp 144 m t 0))"
  have "read32 m1 (t + 0x8C) = 0"
    by (simp add: m1_def set_dba_def set_dbau_def store_eval load_eval stamp_def)
  then have "read32 (set_i t (set_dbc t (push_bit 9 count - 1) m1)) (t + 0x8C) = 0x80000000 OR ?v"
    by (simp add: set_i_def set_dbc_def or.commute)
  moreover have "read32 m' (t + 0x8C) = read32 (set_i t (set_dbc t (push_bit 9 count - 1) m1)) (t + 0x8C)"
    unfolding m'_def m1_def by (simp add: read_table_def Let_def set_fis_def set_fis_c_def load_eval)
  ultimately show "read32 m' (t + 0x8C) = 0x80000000 OR ?v" by simp
qed

text \<open>The header, whose table address stays.\<close>

lemma read_header_fields:
  "read_header h m h AND 0x1F = 5" "read_header h m h AND 0x40 = 0" "read16 (read_header h m) (h + 2) = 1"
  "read32 (read_header h m) (h + 8) = read32 m (h + 8)" "read32 (read_header h m) (h + 12) = read32 m (h + 12)"
proof -
  have "read_header h m h = ((m h AND 0xE0) OR 5) AND 0xBF"
    by (simp add: read_header_def set_cfl_def set_w_def set_prdtl_def store_eval)
  then have h: "read_header h m h = (m h AND 0xA0) OR 5"
    by (simp add: bit.conj_disj_distrib2 and.assoc)
  show "read_header h m h AND 0x1F = 5" "read_header h m h AND 0x40 = 0"
    unfolding h by (simp_all add: bit.conj_disj_distrib2 and.assoc)
qed (simp_all add: read_header_def set_cfl_def set_w_def set_prdtl_def store_eval load_eval)

lemma low_byte: "unat (ucast (x AND 0xFF) :: u8) = unat (x :: u32) mod 256"
proof -
  have "(0xFF :: u32) = mask 8" by (simp add: mask_eq_exp_minus_1)
  then have "x AND 0xFF = take_bit 8 x" by (simp only: take_bit_eq_mask)
  then have "ucast (x AND 0xFF) = (ucast x :: u8)" by (simp only:) (rule bit_word_eqI, auto simp: bit_simps)
  then show ?thesis by (simp add: unsigned_ucast_eq take_bit_eq_mod)
qed

lemma drop_bit_8: "unat (drop_bit 8 (x :: u32)) = unat x div 256"
  using unat_div [of x 256] by (simp add: drop_bit_eq_div)

text \<open>Of at most 8192 sectors, the bytes that the region table counts are those of the FIS.\<close>

lemma read_counts:
  fixes count :: u32
  assumes "0 < count" "count \<le> 8192"
  shows "unat ((0x80000000 OR ((push_bit 9 count - 1) AND 0x003FFFFF)) AND 0x3FFFFF :: u32) + 1 = 512 * unat count"
    and "unat (ucast (count AND 0xFF) :: u8) + 256 * unat (ucast (drop_bit 8 count AND 0xFF) :: u8) = unat count"
proof -
  have c: "0 < unat count" "unat count \<le> 8192" using assms by (simp_all add: word_less_nat_alt word_le_nat_alt)
  have p: "unat (push_bit 9 count) = 512 * unat count"
    using c(2) by (simp add: push_bit_eq_mult unat_mult_lem [THEN iffD1] mult.commute)
  then have "(1 :: u32) \<le> push_bit 9 count" using c(1) by (simp add: word_le_nat_alt)
  then have q: "unat (push_bit 9 count - 1) = 512 * unat count - 1" using p by (simp add: unat_sub_le)
  have m: "(0x3FFFFF :: u32) = mask 22" by (simp add: mask_eq_exp_minus_1)
  have "(0x80000000 OR ((push_bit 9 count - 1) AND 0x003FFFFF)) AND 0x3FFFFF = (push_bit 9 count - 1) AND (0x3FFFFF :: u32)"
    by (simp add: bit.conj_disj_distrib2 and.assoc)
  moreover have "(push_bit 9 count - 1) AND (0x3FFFFF :: u32) = push_bit 9 count - 1"
    unfolding m take_bit_eq_mask [symmetric] using q c
    by (simp add: word_unat_eq_iff unsigned_take_bit_eq take_bit_nat_eq_self)
  ultimately show "unat ((0x80000000 OR ((push_bit 9 count - 1) AND 0x003FFFFF)) AND 0x3FFFFF :: u32) + 1 = 512 * unat count"
    using q c by simp
  show "unat (ucast (count AND 0xFF) :: u8) + 256 * unat (ucast (drop_bit 8 count AND 0xFF) :: u8) = unat count"
    using c(2) by (simp add: low_byte drop_bit_8)
qed

text \<open>The command in memory is one the device accepts, and what the device makes of it.\<close>

lemma run_read_command:
  fixes startl starth count :: u32 and h buf :: u64 and m :: memory
  defines "t \<equiv> ctba m h"
    and "lba \<equiv> take_bit 24 (ucast startl) OR push_bit 24 (take_bit 24 (ucast starth)) :: u64"
  assumes m': "read_command h startl starth count buf m = Some m'"
    and count: "0 < count" "count \<le> 8192"
    and table: "read32 m (h + 12) = 0" "t AND 0x7F = 0" "region h 32 \<inter> region t 144 = {}"
    and even: "buf AND 1 = 0"
  shows "run_read disk h m' =
      (\<lambda>a. if a \<in> region buf (512 * unat count) then disk (lba * 512 + (a - buf)) else m' a)"
    and "a \<notin> region h 4 \<Longrightarrow> a \<notin> region t 144 \<Longrightarrow> m' a = m a"
proof -
  have eq: "m' = read_table t startl starth count buf (read_header h m)"
    using m' by (simp add: read_command_eq t_def)
  have h: "m' (h + of_nat k) = read_header h m (h + of_nat k)" if "k < 32" for k
    unfolding eq by (rule read_table_frame) (use that table(3) in_region_of_nat [of k 32 h] in auto)
  have "read16 m' (h + 2) = read16 (read_header h m) (h + 2)"
    "read32 m' (h + 8) = read32 (read_header h m) (h + 8)" "read32 m' (h + 12) = read32 (read_header h m) (h + 12)"
    using h [of 2] h [of 3] h [of 8] h [of 9] h [of 10] h [of 11] h [of 12] h [of 13] h [of 14] h [of 15]
    by (simp_all add: load_eval add.commute)
  then have hdr: "m' h AND 0x1F = 5" "m' h AND 0x40 = 0" "read16 m' (h + 2) = 1" "table_base m' h = t"
    using h [of 0] table(1) by (simp_all add: read_header_fields table_base_def t_def ctba_def)
  note B = read_table_bytes [of t startl starth count buf "read_header h m", folded eq]
  note W = read_table_words [of t startl starth count buf "read_header h m", folded eq]
  note C = read_counts [OF count]
  have base: "region_base m' t = buf"
    unfolding region_base_def W by (rule bit_word_eqI) (auto simp: bit_simps)
  have bytes: "region_bytes m' t = 512 * unat count" unfolding region_bytes_def W C(1) ..
  have "m' (t + 7) = 0x40" using B(4) by simp
  moreover have "fis_count m' t = unat count" unfolding fis_count_def B C(2) ..
  ultimately have "read_request m' h"
    using hdr table(2) even bytes by (simp add: read_request_def Let_def base B(1-3))
  then show "run_read disk h m' =
      (\<lambda>a. if a \<in> region buf (512 * unat count) then disk (lba * 512 + (a - buf)) else m' a)"
    unfolding run_read_def Let_def hdr(4) base bytes B(7) lba_def by simp
  show "m' a = m a" if "a \<notin> region h 4" "a \<notin> region t 144"
    using that by (simp add: eq read_table_frame read_header_frame)
qed

subsection \<open>The driver and the device\<close>

lemma issued_cons [simp]:
  "issued a v (RegRead b w # log) = map_option Suc (issued a v log)"
  "b \<noteq> a \<Longrightarrow> issued a v (RegWrite b w # log) = map_option Suc (issued a v log)"
  "issued a v (RegWrite a v # log) = Some 0"
  by simp_all

declare issued.simps(2) [simp del]

lemma disk_device_cong:
  "reg_in t = reg_in s \<Longrightarrow> dma t = dma s \<Longrightarrow>
   disk_device port clb slot delay disk t = disk_device port clb slot delay disk s"
  by (simp add: disk_device_def)

text \<open>One access: its event, and the transfer if the command is due.\<close>

lemma reg_read_device:
  assumes dev: "disk_device port clb slot delay disk s"
  defines "iss \<equiv> issued (port + reg_offset CI) (push_bit slot 1)"
  shows "\<exists>t. reg_read a s = (reg_in s (io_log s) a, t) \<and> disk_device port clb slot delay disk t
    \<and> GlobalABAR t = GlobalABAR s \<and> iss (io_log t) = map_option Suc (iss (io_log s))
    \<and> mem t = (if map_option Suc (iss (io_log s)) = Some delay
               then run_read disk (ucast clb + of_nat (32 * slot)) (mem s) else mem s)"
proof -
  let ?e = "RegRead a (reg_in s (io_log s) a)"
  let ?t = "s\<lparr>io_log := ?e # io_log s, mem := dma s (?e # io_log s) (mem s)\<rparr>"
  have "reg_read a s = (reg_in s (io_log s) a, ?t)"
    by (simp add: io_simps Let_def)
  moreover have "disk_device port clb slot delay disk ?t"
    using dev by (subst disk_device_cong [of _ s]) simp_all
  ultimately show ?thesis
    using dev by (intro exI [of _ ?t]) (simp add: disk_device_def Let_def iss_def)
qed

text \<open>No command is in progress: accesses leave memory alone.\<close>

definition disk_idle ::
  "u64 \<Rightarrow> u32 \<Rightarrow> nat \<Rightarrow> nat \<Rightarrow> (u64 \<Rightarrow> u8) \<Rightarrow> memory \<Rightarrow> u64 \<Rightarrow> 'a ahci_scheme \<Rightarrow> bool" where
  "disk_idle port clb slot delay disk m abar s \<longleftrightarrow> disk_device port clb slot delay disk s
     \<and> \<not> pending delay (port + reg_offset CI) (push_bit slot 1) (io_log s) \<and> mem s = m \<and> GlobalABAR s = abar"

lemma idle_reg_read:
  assumes "disk_idle port clb slot delay disk m abar s"
  shows "disk_idle port clb slot delay disk m abar (snd (reg_read a s))"
proof -
  have i: "disk_device port clb slot delay disk s" "mem s = m" "GlobalABAR s = abar"
    "\<not> pending delay (port + reg_offset CI) (push_bit slot 1) (io_log s)"
    using assms by (simp_all add: disk_idle_def)
  obtain t where t: "reg_read a s = (reg_in s (io_log s) a, t)" "disk_device port clb slot delay disk t"
    "GlobalABAR t = GlobalABAR s"
    "issued (port + reg_offset CI) (push_bit slot 1) (io_log t)
      = map_option Suc (issued (port + reg_offset CI) (push_bit slot 1) (io_log s))"
    "mem t = (if map_option Suc (issued (port + reg_offset CI) (push_bit slot 1) (io_log s)) = Some delay
               then run_read disk (ucast clb + of_nat (32 * slot)) (mem s) else mem s)"
    using reg_read_device [OF i(1)] by blast
  show ?thesis
    using i(2-4) t by (auto simp: disk_idle_def pending_def split: option.splits)
qed

lemma idle_rd: "disk_idle port clb slot delay disk m abar s \<Longrightarrow> disk_idle port clb slot delay disk m abar (snd (rd p r s))"
  by (simp add: rd_def idle_reg_read)

lemma idle_wr:
  assumes "disk_idle port clb slot delay disk m abar s" "p + reg_offset r \<noteq> port + reg_offset CI"
  shows "disk_idle port clb slot delay disk m abar (wr p r v s)"
proof -
  let ?iss = "issued (port + reg_offset CI) (push_bit slot 1)" and ?e = "RegWrite (p + reg_offset r) v"
  have i: "disk_device port clb slot delay disk s" "mem s = m" "GlobalABAR s = abar"
    "\<not> pending delay (port + reg_offset CI) (push_bit slot 1) (io_log s)"
    using assms(1) by (simp_all add: disk_idle_def)
  have e: "wr p r v s = s\<lparr>io_log := ?e # io_log s, mem := dma s (?e # io_log s) (mem s)\<rparr>"
    by (simp add: wr_def io_simps Let_def)
  have l: "?iss (?e # io_log s) = map_option Suc (?iss (io_log s))" using assms(2) by simp
  then have "?iss (?e # io_log s) \<noteq> Some delay" using i(4) by (auto simp: pending_def)
  then have "dma s (?e # io_log s) m' = m'" for m' using i(1) by (simp add: disk_device_def Let_def)
  moreover have "disk_device port clb slot delay disk (wr p r v s)"
    unfolding e using i(1) by (subst disk_device_cong [of _ s]) simp_all
  moreover have "\<not> pending delay (port + reg_offset CI) (push_bit slot 1) (?e # io_log s)"
    unfolding pending_def l using i(4) by (auto simp: pending_def split: option.splits)
  ultimately show ?thesis unfolding disk_idle_def e using i(2,3) by simp
qed

lemma idle_answers:
  assumes "disk_idle port clb slot delay disk m abar s"
  shows "reg_in s (io_log s) (port + reg_offset TFD) AND 0x88 = 0"
    "reg_in s (io_log s) (port + reg_offset CLB) = clb"
    "reg_in s (io_log s) (port + reg_offset IS) AND TFES = 0"
  using assms by (auto simp: disk_idle_def disk_device_def Let_def)

lemma idle_mem: "disk_idle port clb slot delay disk m abar s \<Longrightarrow> disk_idle port clb slot delay disk m' abar (s\<lparr>mem := m'\<rparr>)"
  by (auto simp: disk_idle_def disk_device_def)

text \<open>From the issue of the command until its bit is clear: the memory is that of before, or the
  transfer has taken place.\<close>

lemma wait_done_transfers:
  assumes "disk_device port clb slot delay disk s"
    and "issued (port + reg_offset CI) (push_bit slot 1) (io_log s) = Some k"
    and "mem s = (if k < delay then m else run_read disk (ucast clb + of_nat (32 * slot)) m)"
  shows "\<exists>t k'. wait_done port (push_bit slot 1) msg s = Some (True, t) \<and> delay \<le> k'
    \<and> issued (port + reg_offset CI) (push_bit slot 1) (io_log t) = Some k'
    \<and> disk_idle port clb slot delay disk (run_read disk (ucast clb + of_nat (32 * slot)) m) (GlobalABAR s) t"
  using assms
proof (induction "delay - k" arbitrary: s k rule: less_induct)
  case less
  let ?iss = "issued (port + reg_offset CI) (push_bit slot 1)"
  let ?run = "run_read disk (ucast clb + of_nat (32 * slot))"
  obtain s1 where s1: "rd port CI s = (reg_in s (io_log s) (port + reg_offset CI), s1)"
    "disk_device port clb slot delay disk s1" "GlobalABAR s1 = GlobalABAR s" "?iss (io_log s1) = Some (Suc k)"
    "mem s1 = (if Suc k = delay then ?run (mem s) else mem s)"
    using reg_read_device [OF less.prems(1), of "port + reg_offset CI"] less.prems(2) unfolding rd_def by auto
  have m1: "mem s1 = (if Suc k < delay then m else ?run m)" using s1(5) less.prems(3) by auto
  have ci: "reg_in s (io_log s) (port + reg_offset CI) AND push_bit slot 1 = 0 \<longleftrightarrow> \<not> k < delay"
    using less.prems(1,2) by (simp add: disk_device_def Let_def pending_def)
  show ?case
  proof (cases "k < delay")
    case True
    obtain s2 where s2: "rd port IS s1 = (reg_in s1 (io_log s1) (port + reg_offset IS), s2)"
      "disk_device port clb slot delay disk s2" "GlobalABAR s2 = GlobalABAR s1" "?iss (io_log s2) = Some (Suc (Suc k))"
      "mem s2 = (if Suc (Suc k) = delay then ?run (mem s1) else mem s1)"
      using reg_read_device [OF s1(2), of "port + reg_offset IS"] s1(4) unfolding rd_def by auto
    have m2: "mem s2 = (if Suc (Suc k) < delay then m else ?run m)" using s2(5) m1 by auto
    have "reg_in s1 (io_log s1) (port + reg_offset IS) AND TFES = 0"
      using s1(2) by (simp add: disk_device_def Let_def)
    then have "wait_done port (push_bit slot 1) msg s = wait_done port (push_bit slot 1) msg s2"
      using True ci by (subst wait_done.simps) (simp add: s1(1) s2(1))
    then show ?thesis
      using less.hyps [OF _ s2(2,4) m2] True s2(3) s1(3) by auto
  next
    case False
    then have "wait_done port (push_bit slot 1) msg s = Some (True, s1)"
      using ci by (subst wait_done.simps) (simp add: s1(1))
    then show ?thesis
      using False s1(2-4) m1 by (intro exI [of _ s1] exI [of _ "Suc k"]) (simp add: disk_idle_def pending_def)
  qed
qed

text \<open>The write that issues the command.\<close>

lemma issue_device:
  assumes "disk_idle port clb slot delay disk m abar s"
  defines "u \<equiv> wr port CI (push_bit slot 1) s"
  shows "disk_device port clb slot delay disk u" "GlobalABAR u = abar"
    "issued (port + reg_offset CI) (push_bit slot 1) (io_log u) = Some 0"
    "mem u = (if 0 < delay then m else run_read disk (ucast clb + of_nat (32 * slot)) m)"
proof -
  let ?e = "RegWrite (port + reg_offset CI) (push_bit slot 1)"
  have i: "disk_device port clb slot delay disk s" "mem s = m" "GlobalABAR s = abar"
    using assms(1) by (simp_all add: disk_idle_def)
  have e: "u = s\<lparr>io_log := ?e # io_log s, mem := dma s (?e # io_log s) (mem s)\<rparr>"
    by (simp add: u_def wr_def io_simps Let_def)
  show "disk_device port clb slot delay disk u"
    unfolding e using i(1) by (subst disk_device_cong [of _ s]) simp_all
  show "GlobalABAR u = abar" "issued (port + reg_offset CI) (push_bit slot 1) (io_log u) = Some 0"
    unfolding e using i(3) by simp_all
  show "mem u = (if 0 < delay then m else run_read disk (ucast clb + of_nat (32 * slot)) m)"
    unfolding e using i(1,2) by (auto simp: disk_device_def Let_def)
qed

lemma Read_runs:
  fixes i :: int and s :: "'a ahci_scheme"
  defines "port \<equiv> hba_port (GlobalABAR s) i"
  assumes dev: "disk_device port clb slot delay disk s"
    and idle: "\<not> pending delay (port + reg_offset CI) (push_bit slot 1) (io_log s)"
    and slot: "free_slot i s = int slot"
    and m': "read_command (ucast clb + of_nat (32 * slot)) startl starth count buf (mem s) = Some m'"
  shows "\<exists>t k. Read i startl starth count buf s = Some (True, t) \<and> delay \<le> k
    \<and> issued (port + reg_offset CI) (push_bit slot 1) (io_log t) = Some k
    \<and> mem t = run_read disk (ucast clb + of_nat (32 * slot)) m'"
proof -
  let ?ci = "port + reg_offset CI" and ?bit = "push_bit slot 1 :: u32" and ?run = "run_read disk (ucast clb + of_nat (32 * slot))"
  let ?idle = "\<lambda>m. disk_idle port clb slot delay disk m (GlobalABAR s)"
  define s1 where "s1 = wr port IS (-1) s"
  have "?idle (mem s) s" using dev idle by (simp add: disk_idle_def)
  then have s1: "?idle (mem s) s1" unfolding s1_def by (rule idle_wr) simp
  obtain sl s2 where f: "find_cmdslot port s1 = (sl, s2)" by (cases "find_cmdslot port s1")
  then have sl: "sl = int slot" using slot by (simp add: free_slot_def port_def s1_def)
  then have s2: "?idle (mem s) s2"
    using find_cmdslot_found [OF f] by (simp add: idle_reg_read idle_rd s1)
  define s3 where "s3 = snd (rd port CLB s2)"
  have c: "rd port CLB s2 = (clb, s3)" unfolding s3_def by (subst rd_eq) (simp only: idle_answers(2) [OF s2])
  have s3: "?idle (mem s) s3" unfolding s3_def using s2 by (rule idle_rd)
  then have m3: "mem s3 = mem s" by (simp add: disk_idle_def)
  have s4: "?idle m' (s3\<lparr>mem := m'\<rparr>)" using s3 by (rule idle_mem)
  define s5 where "s5 = snd (rd port TFD (s3\<lparr>mem := m'\<rparr>))"
  have w: "wait_ready port 0 (s3\<lparr>mem := m'\<rparr>) = (0, s5)"
    unfolding s5_def using idle_answers(1) [OF s4] by (subst wait_ready.simps, subst rd_eq) simp
  have s5: "?idle m' s5" unfolding s5_def using s4 by (rule idle_rd)
  note u = issue_device [OF s5]
  obtain v k where v: "wait_done port ?bit (''Read disk error'' @ newline) (wr port CI ?bit s5) = Some (True, v)" "delay \<le> k"
    "issued ?ci ?bit (io_log v) = Some k" "disk_idle port clb slot delay disk (?run m') (GlobalABAR (wr port CI ?bit s5)) v"
    using wait_done_transfers [OF u(1,3,4)] by blast
  define x where "x = snd (rd port IS v)"
  have x: "check_again port ''Read disk error here'' v = (True, x)"
    unfolding x_def check_again_def using idle_answers(3) [OF v(4)] by (subst rd_eq) simp
  have "mem x = ?run m'" using idle_rd [OF v(4), of port IS] by (simp add: disk_idle_def x_def)
  moreover have "issued ?ci ?bit (io_log x) = Some (Suc k)" unfolding x_def rd_event using v(3) by simp
  moreover have "Read i startl starth count buf s = Some (True, x)"
    using m' m3 v(1) x w
    by (simp add: Read_def port_def [symmetric] s1_def [symmetric] f sl c Let_def)
  ultimately show ?thesis using v(2) by (intro exI [of _ x] exI [of _ "Suc k"]) simp
qed

subsection \<open>Properties\<close>


text \<open>A disk with the bytes 0, 1, 2 and so on behind the controller of \<open>small_disk\<close>, which finishes a
  command after three accesses; the command list is at 0x2000, the table at address zero.\<close>

definition counting_disk :: "u64 \<Rightarrow> u8" where
  "counting_disk p = ucast p"

definition small_ahci :: ahci where
  "small_ahci = (small_disk 0)\<lparr>
     reg_in := (\<lambda>l a. if a = 0x40000 then 0x100 else if a = 0x40180 then 0x2000
                 else if a = 0x401B8 \<and> pending 3 0x401B8 1 l then 1 else 0),
     dma := (\<lambda>l m. if issued 0x401B8 1 l = Some 3 then run_read counting_disk 0x2000 m else m)\<rparr>"

lemma small_ahci_fields:
  "GlobalABAR small_ahci = 0x40000" "io_log small_ahci = []" "mem small_ahci = (\<lambda>a. if a = 0x10000 then 0x80 else 0)"
  "reg_in small_ahci = (\<lambda>l a. if a = 0x40000 then 0x100 else if a = 0x40180 then 0x2000
                 else if a = 0x401B8 \<and> pending 3 0x401B8 1 l then 1 else 0)"
  "dma small_ahci = (\<lambda>l m. if issued 0x401B8 1 l = Some 3 then run_read counting_disk 0x2000 m else m)"
  by (simp_all add: small_ahci_def small_disk_fields)

lemma small_ahci_device:
  "disk_device (hba_port (GlobalABAR small_ahci) 1) 0x2000 0 3 counting_disk small_ahci"
  by (auto simp: disk_device_def Let_def small_ahci_fields hba_port_def)

lemma small_ahci_slot: "free_slot 1 small_ahci = 0"
  by (simp add: free_slot_def find_cmdslot_def rd_def wr_def io_simps Let_def small_ahci_fields hba_port_def
      hba_cap_def pending_def)


end
