(* ===== verification/EfiRt.thy ===== *)
theory EfiRt
  imports PhysMem "HOL-Library.Monad_Syntax"
begin

text \<open>
  The gnu-efi library's routines on memory and strings: \<open>lib/runtime/efirtlib.c\<close>,
  \<open>lib/runtime/rtstr.c\<close> and \<open>lib/str.c\<close>. Strings are pointers to 16-bit characters that end with a
  zero; a loop that runs over an unterminated string is \<open>None\<close>. The differences of characters that
  the comparisons return are integers, and where a function returns them as \<open>UINTN\<close> they wrap.
\<close>

subsection \<open>Blocks of memory\<close>

text \<open>The loops \<open>while (Size--)\<close>, with the rounds left.\<close>

primrec set_loop :: "nat \<Rightarrow> memory \<Rightarrow> u64 \<Rightarrow> u8 \<Rightarrow> memory" where
  "set_loop 0 m pt v = m"
| "set_loop (Suc n) m pt v = set_loop n (m(pt := v)) (pt + 1) v"

primrec copy_loop :: "nat \<Rightarrow> memory \<Rightarrow> u64 \<Rightarrow> u64 \<Rightarrow> memory" where
  "copy_loop 0 m d s = m"
| "copy_loop (Suc n) m d s = copy_loop n (m(d := m s)) (d + 1) (s + 1)"

primrec compare_loop :: "nat \<Rightarrow> memory \<Rightarrow> u64 \<Rightarrow> u64 \<Rightarrow> int" where
  "compare_loop 0 m d s = 0"
| "compare_loop (Suc n) m d s =
     (if m d \<noteq> m s then uint (m d) - uint (m s) else compare_loop n m (d + 1) (s + 1))"

definition RtZeroMem :: "u64 \<Rightarrow> u64 \<Rightarrow> memory \<Rightarrow> memory" where
  "RtZeroMem Buffer Size m = set_loop (unat Size) m Buffer 0"

definition RtSetMem :: "u64 \<Rightarrow> u64 \<Rightarrow> u8 \<Rightarrow> memory \<Rightarrow> memory" where
  "RtSetMem Buffer Size Value m = set_loop (unat Size) m Buffer Value"

definition RtCopyMem :: "u64 \<Rightarrow> u64 \<Rightarrow> u64 \<Rightarrow> memory \<Rightarrow> memory" where
  "RtCopyMem Dest Src len m = copy_loop (unat len) m Dest Src"

definition RtCompareMem :: "memory \<Rightarrow> u64 \<Rightarrow> u64 \<Rightarrow> u64 \<Rightarrow> int" where
  "RtCompareMem m Dest Src len = compare_loop (unat len) m Dest Src"

text \<open>The differences are 32-bit integers that wrap as compiled; the result is widened with its sign.\<close>

definition RtCompareGuid :: "memory \<Rightarrow> u64 \<Rightarrow> u64 \<Rightarrow> int" where
  "RtCompareGuid m Guid1 Guid2 =
     (let r = read32 m Guid1 - read32 m Guid2;
          r = r OR (read32 m (Guid1 + 4) - read32 m (Guid2 + 4));
          r = r OR (read32 m (Guid1 + 8) - read32 m (Guid2 + 8));
          r = r OR (read32 m (Guid1 + 12) - read32 m (Guid2 + 12))
      in sint r)"

subsection \<open>Strings\<close>

partial_function (option) RtStrCmp :: "memory \<Rightarrow> u64 \<Rightarrow> u64 \<Rightarrow> int option" where
  "RtStrCmp m s1 s2 =
     (if read16 m s1 \<noteq> 0 \<and> read16 m s1 = read16 m s2 then RtStrCmp m (s1 + 2) (s2 + 2)
      else Some (uint (read16 m s1) - uint (read16 m s2)))"

partial_function (option) RtStpCpy :: "u64 \<Rightarrow> u64 \<Rightarrow> memory \<Rightarrow> (u64 \<times> memory) option" where
  "RtStpCpy Dest Src m =
     (if read16 m Src \<noteq> 0 then RtStpCpy (Dest + 2) (Src + 2) (write16 m Dest (read16 m Src))
      else Some (Dest, write16 m Dest 0))"

partial_function (option) RtStrCpy :: "u64 \<Rightarrow> u64 \<Rightarrow> memory \<Rightarrow> memory option" where
  "RtStrCpy Dest Src m =
     (if read16 m Src \<noteq> 0 then RtStrCpy (Dest + 2) (Src + 2) (write16 m Dest (read16 m Src))
      else Some (write16 m Dest 0))"

partial_function (option) len_loop :: "memory \<Rightarrow> u64 \<Rightarrow> u64 \<Rightarrow> u64 option" where
  "len_loop m s1 len = (if read16 m s1 \<noteq> 0 then len_loop m (s1 + 2) (len + 1) else Some len)"

definition RtStrLen :: "memory \<Rightarrow> u64 \<Rightarrow> u64 option" where
  "RtStrLen m s1 = len_loop m s1 0"

definition RtStrSize :: "memory \<Rightarrow> u64 \<Rightarrow> u64 option" where
  "RtStrSize m s1 = do { len \<leftarrow> len_loop m s1 0; Some ((len + 1) * 2) }"

function nlen_loop :: "memory \<Rightarrow> u64 \<Rightarrow> u64 \<Rightarrow> u64 \<Rightarrow> u64" where
  "nlen_loop m s1 Len i = (if read16 m s1 \<noteq> 0 \<and> i < Len then nlen_loop m (s1 + 2) Len (i + 1) else i)"
  by pat_completeness auto
termination
proof (relation "measure (\<lambda>(m, s1, Len, i). unat Len - unat i)")
  fix m :: memory and s1 Len i :: u64
  assume "read16 m s1 \<noteq> 0 \<and> i < Len"
  then have lt: "i < Len" by blast
  from lt have "unat (i + 1) = Suc (unat i)" by (rule unat_plus_one_less)
  with lt show "((m, s1 + 2, Len, i + 1), m, s1, Len, i) \<in> measure (\<lambda>(m, s1, Len, i). unat Len - unat i)"
    by (simp add: word_less_nat_alt diff_less_mono2)
qed simp

declare nlen_loop.simps [simp del]

definition RtStrnLen :: "memory \<Rightarrow> u64 \<Rightarrow> u64 \<Rightarrow> u64" where
  "RtStrnLen m s1 Len = nlen_loop m s1 Len 0"

definition RtStpnCpy :: "u64 \<Rightarrow> u64 \<Rightarrow> u64 \<Rightarrow> memory \<Rightarrow> u64 \<times> memory" where
  "RtStpnCpy Dest Src Len m =
     (let Size = RtStrnLen m Src Len;
          m = (if Size \<noteq> Len then RtSetMem (Dest + Size * 2) ((Len - Size) * 2) 0 m else m)
      in (Dest + Size * 2, RtCopyMem Dest Src (Size * 2) m))"

definition RtStrnCpy :: "u64 \<Rightarrow> u64 \<Rightarrow> u64 \<Rightarrow> memory \<Rightarrow> memory" where
  "RtStrnCpy Dest Src Len m =
     (let Size = RtStrnLen m Src Len;
          m = (if Size \<noteq> Len then RtSetMem (Dest + Size * 2) ((Len - Size) * 2) 0 m else m)
      in RtCopyMem Dest Src (Size * 2) m)"

definition RtStrCat :: "u64 \<Rightarrow> u64 \<Rightarrow> memory \<Rightarrow> memory option" where
  "RtStrCat Dest Src m = do { len \<leftarrow> RtStrLen m Dest; RtStrCpy (Dest + len * 2) Src m }"

definition RtStrnCat :: "u64 \<Rightarrow> u64 \<Rightarrow> u64 \<Rightarrow> memory \<Rightarrow> memory option" where
  "RtStrnCat Dest Src Len m = do {
     DestSize \<leftarrow> RtStrLen m Dest;
     let Size = RtStrnLen m Src Len;
     let m = RtCopyMem (Dest + DestSize * 2) Src (Size * 2) m;
     Some (write16 m (Dest + (DestSize + Size) * 2) 0)
   }"

definition RtBCDtoDecimal :: "u8 \<Rightarrow> u8" where
  "RtBCDtoDecimal BcdValue =
     (let High = drop_bit 4 (ucast BcdValue :: u64); Low = ucast BcdValue - push_bit 4 High
      in ucast (Low + High * 10))"

definition RtDecimaltoBCD :: "u8 \<Rightarrow> u8" where
  "RtDecimaltoBCD DecValue =
     (let High = (ucast DecValue :: u64) div 10; Low = ucast DecValue - High * 10
      in ucast (Low + push_bit 4 High))"

subsection \<open>What the block routines do\<close>

lemma set_loop_region:
  "n < 2 ^ 64 \<Longrightarrow> set_loop n m pt v b = (if b \<in> region pt n then v else m b)"
proof (induction n arbitrary: m pt)
  case 0
  then show ?case by (simp add: region_def)
next
  case (Suc n)
  show ?case
  proof (cases "b = pt")
    case True
    then have "b \<notin> region (pt + 1) n" using in_region_off [of 1 n b pt] Suc.prems by simp
    then show ?thesis using Suc True by (simp add: region_def)
  next
    case False
    have "b \<in> region pt (Suc n) \<longleftrightarrow> b \<in> region (pt + 1) n"
      using unat_minus_plus_one [OF False] by (simp add: region_def)
    then show ?thesis using Suc False by simp
  qed
qed

lemma copy_loop_region:
  assumes "n < 2 ^ 64" "region d n \<inter> region s n = {}"
  shows "copy_loop n m d s b = (if b \<in> region d n then m (s + (b - d)) else m b)"
  using assms
proof (induction n arbitrary: m d s)
  case 0
  then show ?case by (simp add: region_def)
next
  case (Suc n)
  have sub: "region (x + 1) n \<subseteq> region x (Suc n)" for x
    using Suc.prems(1) region_sub [of _ x 1 n "Suc n"] by auto
  have dj: "region (d + 1) n \<inter> region (s + 1) n = {}" using Suc.prems(2) sub by blast
  have IH: "copy_loop n m (d + 1) (s + 1) b = (if b \<in> region (d + 1) n then m (s + (b - d)) else m b)" for m
  proof -
    have "s + 1 + (b - (d + 1)) = s + (b - d)" by simp
    then show ?thesis using Suc.IH [OF _ dj, of m] Suc.prems(1) by simp
  qed
  show ?case
  proof (cases "b = d")
    case True
    then have "b \<notin> region (d + 1) n" using in_region_off [of 1 n b d] Suc.prems by simp
    then show ?thesis using IH True by (simp add: region_def)
  next
    case False
    have e: "b \<in> region d (Suc n) \<longleftrightarrow> b \<in> region (d + 1) n"
      using unat_minus_plus_one [OF False] by (simp add: region_def)
    have "s + (b - d) \<noteq> d" if "b \<in> region d (Suc n)"
    proof -
      have "s + (b - d) \<in> region s (Suc n)" using that by (simp add: region_def)
      moreover have "d \<in> region d (Suc n)" by (simp add: region_def)
      ultimately show ?thesis using Suc.prems(2) by (metis IntI empty_iff)
    qed
    then show ?thesis using IH False e by simp
  qed
qed

lemma compare_loop_zero:
  "compare_loop n m d s = 0 \<longleftrightarrow> (\<forall>k < n. m (d + of_nat k) = m (s + of_nat k))"
proof (induction n arbitrary: d s)
  case (Suc n)
  have "(\<forall>k < Suc n. m (d + of_nat k) = m (s + of_nat k)) \<longleftrightarrow>
      m d = m s \<and> (\<forall>k < n. m (d + 1 + of_nat k) = m (s + 1 + of_nat k))"
    by (simp add: All_less_Suc2 add.assoc)
  then show ?case using Suc by (simp add: word_uint_eq_iff)
qed simp

subsection \<open>Strings in memory\<close>

text \<open>The string at an address, without its terminator.\<close>

fun str16 :: "memory \<Rightarrow> u64 \<Rightarrow> u16 list \<Rightarrow> bool" where
  "str16 m a [] \<longleftrightarrow> read16 m a = 0"
| "str16 m a (c # cs) \<longleftrightarrow> c \<noteq> 0 \<and> read16 m a = c \<and> str16 m (a + 2) cs"

abbreviation str_region :: "u64 \<Rightarrow> u16 list \<Rightarrow> u64 set" where
  "str_region a cs \<equiv> region a (2 * length cs + 2)"

lemma region_Suc2:
  assumes "n + 2 < 2 ^ 64"
  shows "region a (n + 2) = region a 2 \<union> region (a + 2) n" "region a 2 \<inter> region (a + 2) n = {}"
  using in_region_off [of 2 n _ a] in_region_off [of 0 2 _ a] in_region_off [of 0 "n + 2" _ a] assms
  by auto

lemma str_region_Cons:
  assumes "2 * length cs + 4 < 2 ^ 64"
  shows "str_region a (c # cs) = region a 2 \<union> str_region (a + 2) cs" "region a 2 \<inter> str_region (a + 2) cs = {}"
  using region_Suc2 [of "2 * length cs + 2" a] assms by simp_all

lemma str16_cong:
  "2 * length cs + 2 < 2 ^ 64 \<Longrightarrow> (\<And>b. b \<in> str_region a cs \<Longrightarrow> m b = m' b) \<Longrightarrow> str16 m a cs = str16 m' a cs"
proof (induction cs arbitrary: a)
  case Nil
  then show ?case using read16_cong [of a m m'] by (simp add: numeral_2_eq_2 [symmetric])
next
  case (Cons c cs)
  have r: "str_region a (c # cs) = region a 2 \<union> str_region (a + 2) cs"
    using Cons.prems(1) by (intro str_region_Cons) simp
  have "read16 m a = read16 m' a" by (rule read16_cong) (use Cons.prems(2) r in blast)
  moreover have "str16 m (a + 2) cs = str16 m' (a + 2) cs"
    by (rule Cons.IH) (use Cons.prems r in auto)
  ultimately show ?case by simp
qed

lemma len_loop_str: "str16 m a cs \<Longrightarrow> len_loop m a n = Some (n + of_nat (length cs))"
proof (induction cs arbitrary: a n)
  case Nil
  then show ?case by (simp add: len_loop.simps)
next
  case (Cons c cs)
  then show ?case by (subst len_loop.simps) (simp add: ac_simps)
qed

lemma RtStrLen_str: "str16 m a cs \<Longrightarrow> RtStrLen m a = Some (of_nat (length cs))"
  by (simp add: RtStrLen_def len_loop_str)

lemma nlen_loop_str:
  "str16 m a cs \<Longrightarrow> unat i + length cs < 2 ^ 64 \<Longrightarrow> i \<le> Len \<Longrightarrow>
    nlen_loop m a Len i = i + of_nat (min (length cs) (unat (Len - i)))"
proof (induction cs arbitrary: a i)
  case Nil
  then show ?case by (simp add: nlen_loop.simps)
next
  case (Cons c cs)
  show ?case
  proof (cases "i < Len")
    case True
    then have s: "unat (i + 1) = Suc (unat i)" by (rule unat_plus_one_less)
    have l: "unat (Len - i) = Suc (unat (Len - (i + 1)))"
      using True s plus_one_le [OF True] by (simp add: unat_sub_le less_imp_le word_less_nat_alt)
    have "nlen_loop m (a + 2) Len (i + 1) = i + 1 + of_nat (min (length cs) (unat (Len - (i + 1))))"
      using Cons True s by (intro Cons.IH) (auto intro: plus_one_le)
    then show ?thesis using Cons.prems True l by (subst nlen_loop.simps) (simp add: ac_simps)
  next
    case False
    then show ?thesis using Cons.prems by (subst nlen_loop.simps) (simp add: not_less)
  qed
qed

lemma RtStrnLen_str:
  "str16 m a cs \<Longrightarrow> length cs < 2 ^ 64 \<Longrightarrow> RtStrnLen m a Len = of_nat (min (length cs) (unat Len))"
  by (simp add: RtStrnLen_def nlen_loop_str)

text \<open>Copying a string over memory that does not overlap it.\<close>

definition copied :: "u64 \<Rightarrow> u16 list \<Rightarrow> memory \<Rightarrow> memory \<Rightarrow> bool" where
  "copied Dest cs m m' \<longleftrightarrow> str16 m' Dest cs \<and> (\<forall>b. b \<notin> str_region Dest cs \<longrightarrow> m' b = m b)"

lemma RtStrCpy_copied:
  assumes "str16 m Src cs" "2 * length cs + 2 < 2 ^ 64" "str_region Dest cs \<inter> str_region Src cs = {}"
  shows "\<exists>m'. RtStrCpy Dest Src m = Some m' \<and> copied Dest cs m m'"
  using assms
proof (induction cs arbitrary: m Src Dest)
  case Nil
  then show ?case by (subst RtStrCpy.simps) (simp add: copied_def write16_outside numeral_2_eq_2 [symmetric])
next
  case (Cons c cs)
  have b: "2 * length cs + 4 < 2 ^ 64" using Cons.prems(2) by simp
  note r = str_region_Cons [OF b]
  have rd: "str_region Dest (c # cs) = region Dest 2 \<union> str_region (Dest + 2) cs" "region Dest 2 \<inter> str_region (Dest + 2) cs = {}"
    and rs: "str_region Src (c # cs) = region Src 2 \<union> str_region (Src + 2) cs"
    by (rule r)+
  let ?m = "write16 m Dest c"
  have "str16 ?m (Src + 2) cs"
  proof -
    have "?m b = m b" if "b \<in> str_region (Src + 2) cs" for b
    proof -
      have "b \<notin> region Dest 2" using that rd(1) rs(1) Cons.prems(3) by blast
      then show ?thesis by (rule write16_outside)
    qed
    then have "str16 ?m (Src + 2) cs = str16 m (Src + 2) cs" using b by (intro str16_cong) simp_all
    then show ?thesis using Cons.prems(1) by simp
  qed
  moreover have "str_region (Dest + 2) cs \<inter> str_region (Src + 2) cs = {}"
    using rd(1) rs(1) Cons.prems(3) by blast
  ultimately obtain m' where m': "RtStrCpy (Dest + 2) (Src + 2) ?m = Some m'" "copied (Dest + 2) cs ?m m'"
    using Cons.IH [of ?m "Src + 2" "Dest + 2"] b by auto
  have "read16 m' Dest = read16 ?m Dest"
    by (rule read16_cong) (use m'(2) rd(2) in \<open>auto simp: copied_def\<close>)
  then have "copied Dest (c # cs) m m'"
    using m'(2) Cons.prems(1) rd(1) unfolding copied_def by (auto simp: write16_outside)
  then show ?case using m'(1) Cons.prems(1) by (subst RtStrCpy.simps) auto
qed

text \<open>The string behind the first \<open>k\<close> characters, and two strings side by side.\<close>

lemma str16_append:
  "str16 m a (ds @ cs) \<longleftrightarrow>
     (\<forall>k < length ds. ds ! k \<noteq> 0 \<and> read16 m (a + 2 * of_nat k) = ds ! k) \<and> str16 m (a + 2 * of_nat (length ds)) cs"
proof (induction ds arbitrary: a)
  case (Cons d ds)
  have "(\<forall>k < length (d # ds). (d # ds) ! k \<noteq> 0 \<and> read16 m (a + 2 * of_nat k) = (d # ds) ! k) \<longleftrightarrow>
      d \<noteq> 0 \<and> read16 m a = d \<and> (\<forall>k < length ds. ds ! k \<noteq> 0 \<and> read16 m (a + 2 + 2 * of_nat k) = ds ! k)"
    by (simp add: All_less_Suc2 algebra_simps)
  then show ?case using Cons [of "a + 2"] by (simp add: algebra_simps)
qed simp

lemma str_region_append:
  assumes "2 * length (ds @ cs) + 2 < 2 ^ 64"
  shows "str_region a (ds @ cs) = region a (2 * length ds) \<union> str_region (a + 2 * of_nat (length ds)) cs"
    and "region a (2 * length ds) \<inter> str_region (a + 2 * of_nat (length ds)) cs = {}"
proof -
  let ?k = "2 * length ds"
  have e: "2 * of_nat (length ds) = (of_nat ?k :: u64)" by simp
  have A: "x \<in> str_region (a + of_nat ?k) cs \<longleftrightarrow> ?k \<le> unat (x - a) \<and> unat (x - a) < ?k + (2 * length cs + 2)" for x
    by (rule in_region_off) (use assms in simp)
  have B: "x \<in> region a n \<longleftrightarrow> unat (x - a) < n" for x n by (simp add: region_def)
  show "str_region a (ds @ cs) = region a ?k \<union> str_region (a + 2 * of_nat (length ds)) cs"
    unfolding e by (rule set_eqI) (unfold Un_iff A B, simp, linarith)
  show "region a ?k \<inter> str_region (a + 2 * of_nat (length ds)) cs = {}"
    unfolding e by (rule equals0I) (unfold Int_iff A B, linarith)
qed

subsection \<open>Comparing\<close>

text \<open>The first place where two terminated strings differ decides.\<close>

fun str_diff :: "u16 list \<Rightarrow> u16 list \<Rightarrow> int" where
  "str_diff (a # as) (b # bs) = (if a = b then str_diff as bs else uint a - uint b)"
| "str_diff (a # as) [] = uint a"
| "str_diff [] (b # bs) = - uint b"
| "str_diff [] [] = 0"

lemma RtStrCmp_diff: "str16 m s1 as \<Longrightarrow> str16 m s2 bs \<Longrightarrow> RtStrCmp m s1 s2 = Some (str_diff as bs)"
proof (induction as bs arbitrary: s1 s2 rule: str_diff.induct)
  case (1 a as b bs)
  then show ?case by (subst RtStrCmp.simps) (auto simp: word_uint_eq_iff)
qed (subst RtStrCmp.simps, auto)+

lemma str_diff_sign:
  assumes "0 \<notin> set as" "0 \<notin> set bs"
  shows "str_diff as bs = 0 \<longleftrightarrow> as = bs"
    and "str_diff as bs < 0 \<longleftrightarrow> (as, bs) \<in> lexord {(a, b). a < b}"
proof -
  show "str_diff as bs = 0 \<longleftrightarrow> as = bs" using assms
    by (induction as bs rule: str_diff.induct) (auto simp: word_uint_eq_iff)
  show "str_diff as bs < 0 \<longleftrightarrow> (as, bs) \<in> lexord {(a, b). a < b}" using assms
  proof (induction as bs rule: str_diff.induct)
    case (3 b bs)
    then have "uint b \<noteq> 0" by (auto simp: word_uint_eq_iff)
    then have "0 < uint b" using uint_ge_0 [of b] by linarith
    then show ?case by simp
  qed (auto simp: word_less_def)
qed

lemma str16_nonzero: "str16 m a cs \<Longrightarrow> 0 \<notin> set cs"
  by (induction cs arbitrary: a) auto

subsection \<open>Properties\<close>

text \<open>On terminated strings the comparison returns; it is zero exactly when the strings are equal
  and negative exactly when the first is the smaller one in the dictionary order of the characters.\<close>

theorem RtStrCmp_orders:
  assumes "str16 m s1 as" "str16 m s2 bs"
  shows "\<exists>d. RtStrCmp m s1 s2 = Some d \<and> (d = 0 \<longleftrightarrow> as = bs) \<and> (d < 0 \<longleftrightarrow> (as, bs) \<in> lexord {(a, b). a < b})"
  using RtStrCmp_diff [OF assms] str_diff_sign [OF assms [THEN str16_nonzero]] by simp

text \<open>Appending a string to another one, with room for both behind the first and no overlap with the
  second, leaves exactly their concatenation there, terminated, and touches no other memory.\<close>

theorem RtStrCat_appends:
  assumes "str16 m Dest ds" "str16 m Src cs" "2 * length (ds @ cs) + 2 < 2 ^ 64"
    and apart: "str_region Dest (ds @ cs) \<inter> str_region Src cs = {}"
  shows "\<exists>m'. RtStrCat Dest Src m = Some m' \<and> str16 m' Dest (ds @ cs) \<and>
    (\<forall>b. b \<notin> str_region Dest (ds @ cs) \<longrightarrow> m' b = m b)"
proof -
  let ?e = "Dest + 2 * of_nat (length ds)"
  note r = str_region_append [OF assms(3), of Dest]
  obtain m' where m': "RtStrCpy ?e Src m = Some m'" "copied ?e cs m m'"
    using RtStrCpy_copied [of m Src cs ?e] assms r(1) by auto
  have "read16 m' (Dest + 2 * of_nat k) = ds ! k \<and> ds ! k \<noteq> 0" if k: "k < length ds" for k
  proof -
    have "b \<in> region Dest (2 * length ds)" if "b \<in> region (Dest + of_nat (2 * k)) 2" for b
      by (rule region_sub [OF that]) (use k assms(3) in simp_all)
    then have "read16 m' (Dest + of_nat (2 * k)) = read16 m (Dest + of_nat (2 * k))"
      using m'(2) r(2) by (intro read16_cong) (auto simp: copied_def)
    then show ?thesis using assms(1) k str16_append [of m Dest ds "[]"] by simp
  qed
  then have "str16 m' Dest (ds @ cs)" using m'(2) by (simp add: str16_append copied_def)
  moreover have "\<forall>b. b \<notin> str_region Dest (ds @ cs) \<longrightarrow> m' b = m b" using m'(2) r(1) by (simp add: copied_def)
  moreover have "RtStrCat Dest Src m = Some m'"
    using m'(1) RtStrLen_str [OF assms(1)] by (simp add: RtStrCat_def mult.commute)
  ultimately show ?thesis by blast
qed

text \<open>The strings ``ab'' at 0x100 and ``c'' at 0x200.\<close>

definition small_strings :: memory where
  "small_strings = (\<lambda>_. 0)(0x100 := 97, 0x102 := 98, 0x200 := 99)"

lemma small_strings_str: "str16 small_strings 0x100 [97, 98]" "str16 small_strings 0x200 [99]"
  by (simp_all add: small_strings_def load_eval)

theorem RtStrCmp_orders_witness: "\<exists>d < 0. RtStrCmp small_strings 0x100 0x200 = Some d"
  using RtStrCmp_orders [OF small_strings_str] by auto

theorem RtStrCat_appends_witness:
  "\<exists>m'. RtStrCat 0x100 0x200 small_strings = Some m' \<and> str16 m' 0x100 [97, 98, 99]"
proof -
  have "str_region 0x100 ([97, 98] @ [99]) \<inter> str_region 0x200 [99] = {}"
    using regions_apart [where b = "0x100" and j = 0 and n = 8 and k = "0x100" and l = 4] by simp
  from RtStrCat_appends [OF small_strings_str _ this] show ?thesis by auto
qed

end
