(* ===== verification/EfiStr.thy ===== *)
theory EfiStr
  imports EfiRt
begin

text \<open>
  \<open>lib/str.c\<close> of gnu-efi: what it adds to the run-time routines (bounded comparison, strings of bytes,
  reading numbers) and the matching of a string against a pattern with \<open>*\<close>, \<open>?\<close> and \<open>[...]\<close>.
\<close>

subsection \<open>The functions that only call the run-time library\<close>

definition StrCmp :: "memory \<Rightarrow> u64 \<Rightarrow> u64 \<Rightarrow> int option" where
  "StrCmp m s1 s2 = RtStrCmp m s1 s2"

definition StrCpy :: "u64 \<Rightarrow> u64 \<Rightarrow> memory \<Rightarrow> memory option" where
  "StrCpy Dest Src m = RtStrCpy Dest Src m"

definition StrnCpy :: "u64 \<Rightarrow> u64 \<Rightarrow> u64 \<Rightarrow> memory \<Rightarrow> memory" where
  "StrnCpy Dest Src Len m = RtStrnCpy Dest Src Len m"

definition StpCpy :: "u64 \<Rightarrow> u64 \<Rightarrow> memory \<Rightarrow> (u64 \<times> memory) option" where
  "StpCpy Dest Src m = RtStpCpy Dest Src m"

definition StpnCpy :: "u64 \<Rightarrow> u64 \<Rightarrow> u64 \<Rightarrow> memory \<Rightarrow> u64 \<times> memory" where
  "StpnCpy Dest Src Len m = RtStpnCpy Dest Src Len m"

definition StrCat :: "u64 \<Rightarrow> u64 \<Rightarrow> memory \<Rightarrow> memory option" where
  "StrCat Dest Src m = RtStrCat Dest Src m"

definition StrnCat :: "u64 \<Rightarrow> u64 \<Rightarrow> u64 \<Rightarrow> memory \<Rightarrow> memory option" where
  "StrnCat Dest Src Len m = RtStrnCat Dest Src Len m"

definition StrnLen :: "memory \<Rightarrow> u64 \<Rightarrow> u64 \<Rightarrow> u64" where
  "StrnLen m s1 Len = RtStrnLen m s1 Len"

definition StrLen :: "memory \<Rightarrow> u64 \<Rightarrow> u64 option" where
  "StrLen m s1 = RtStrLen m s1"

definition StrSize :: "memory \<Rightarrow> u64 \<Rightarrow> u64 option" where
  "StrSize m s1 = RtStrSize m s1"

subsection \<open>Comparing and measuring\<close>

function StrnCmp :: "memory \<Rightarrow> u64 \<Rightarrow> u64 \<Rightarrow> u64 \<Rightarrow> int" where
  "StrnCmp m s1 s2 len =
     (if read16 m s1 \<noteq> 0 \<and> len \<noteq> 0 \<and> read16 m s1 = read16 m s2 then StrnCmp m (s1 + 2) (s2 + 2) (len - 1)
      else if len \<noteq> 0 then uint (read16 m s1) - uint (read16 m s2) else 0)"
  by pat_completeness auto
termination
  by (relation "measure (\<lambda>(m, s1, s2, len). unat len)") (simp_all add: unat_minus_one unat_gt_0)

declare StrnCmp.simps [simp del]

partial_function (option) strlena_loop :: "memory \<Rightarrow> u64 \<Rightarrow> u64 \<Rightarrow> u64 option" where
  "strlena_loop m s1 len = (if m s1 \<noteq> 0 then strlena_loop m (s1 + 1) (len + 1) else Some len)"

definition strlena :: "memory \<Rightarrow> u64 \<Rightarrow> u64 option" where
  "strlena m s1 = strlena_loop m s1 0"

partial_function (option) strcmpa :: "memory \<Rightarrow> u64 \<Rightarrow> u64 \<Rightarrow> u64 option" where
  "strcmpa m s1 s2 =
     (if m s1 \<noteq> 0 \<and> m s1 = m s2 then strcmpa m (s1 + 1) (s2 + 1) else Some (ucast (m s1) - ucast (m s2)))"

function strncmpa :: "memory \<Rightarrow> u64 \<Rightarrow> u64 \<Rightarrow> u64 \<Rightarrow> u64" where
  "strncmpa m s1 s2 len =
     (if m s1 \<noteq> 0 \<and> len \<noteq> 0 \<and> m s1 = m s2 then strncmpa m (s1 + 1) (s2 + 1) (len - 1)
      else if len \<noteq> 0 then ucast (m s1) - ucast (m s2) else 0)"
  by pat_completeness auto
termination
  by (relation "measure (\<lambda>(m, s1, s2, len). unat len)") (simp_all add: unat_minus_one unat_gt_0)

declare strncmpa.simps [simp del]

subsection \<open>Numbers\<close>

partial_function (option) skip_spaces :: "memory \<Rightarrow> u64 \<Rightarrow> u64 option" where
  "skip_spaces m str =
     (if read16 m str \<noteq> 0 \<and> read16 m str = 0x20 then skip_spaces m (str + 2) else Some str)"

definition hex_fold :: "u16 \<Rightarrow> u16" where
  "hex_fold c = (if c \<ge> 0x61 \<and> c \<le> 0x66 then c - (0x61 - 0x41) else c)"

partial_function (option) xtoi_loop :: "memory \<Rightarrow> u64 \<Rightarrow> u64 \<Rightarrow> u64 option" where
  "xtoi_loop m str u =
     (if read16 m str \<noteq> 0 then
        let c = hex_fold (read16 m str)
        in if (c \<ge> 0x30 \<and> c \<le> 0x39) \<or> (c \<ge> 0x41 \<and> c \<le> 0x46)
           then xtoi_loop m (str + 2) (push_bit 4 u OR (ucast c - (if c \<ge> 0x41 then 0x41 - 10 else 0x30)))
           else Some u
      else Some u)"

definition xtoi :: "memory \<Rightarrow> u64 \<Rightarrow> u64 option" where
  "xtoi m str = do { str \<leftarrow> skip_spaces m str; xtoi_loop m str 0 }"

partial_function (option) Atoi_loop :: "memory \<Rightarrow> u64 \<Rightarrow> u64 \<Rightarrow> u64 option" where
  "Atoi_loop m str u =
     (if read16 m str \<noteq> 0 then
        let c = read16 m str
        in if c \<ge> 0x30 \<and> c \<le> 0x39 then Atoi_loop m (str + 2) (u * 10 + ucast c - 0x30) else Some u
      else Some u)"

definition Atoi :: "memory \<Rightarrow> u64 \<Rightarrow> u64 option" where
  "Atoi m str = do { str \<leftarrow> skip_spaces m str; Atoi_loop m str 0 }"

subsection \<open>Patterns\<close>

text \<open>The loop over a character set gives the last character read and the place behind it, or \<open>Inl\<close> for
  its \<open>return FALSE\<close>. The high end of a range is read but not passed.\<close>

partial_function (option) set_match :: "memory \<Rightarrow> u16 \<Rightarrow> u16 \<Rightarrow> u64 \<Rightarrow> (unit + u16 \<times> u64) option" where
  "set_match m c l Pattern =
     (let p = read16 m Pattern; Pattern = Pattern + 2
      in if p = 0 then Some (Inr (p, Pattern))
         else if p = 0x5D then Some (Inl ())
         else if p = 0x2D then
           let p = read16 m Pattern
           in if p = 0 \<or> p = 0x5D then Some (Inl ())
              else if c \<ge> l \<and> c \<le> p then Some (Inr (p, Pattern))
              else if c = p then Some (Inr (p, Pattern))
              else set_match m c p Pattern
         else if c = p then Some (Inr (p, Pattern))
         else set_match m c p Pattern)"

partial_function (option) set_skip :: "memory \<Rightarrow> u16 \<Rightarrow> u64 \<Rightarrow> u64 option" where
  "set_skip m p Pattern =
     (if p \<noteq> 0 \<and> p \<noteq> 0x5D then set_skip m (read16 m Pattern) (Pattern + 2) else Some Pattern)"

text \<open>\<open>star\<close> is set inside the loop for a star, whose pattern begins behind it.\<close>

partial_function (option) meta_match :: "memory \<Rightarrow> bool \<Rightarrow> u64 \<Rightarrow> u64 \<Rightarrow> bool option" where
  "meta_match m star String Pattern =
     (if star then
        if read16 m String \<noteq> 0 then do {
          r \<leftarrow> meta_match m False String Pattern;
          if r then Some True else meta_match m True (String + 2) Pattern
        }
        else meta_match m False String Pattern
      else
        let p = read16 m Pattern; Pattern = Pattern + 2
        in if p = 0 then Some (read16 m String = 0)
           else if p = 0x2A then meta_match m True String Pattern
           else if p = 0x3F then
             if read16 m String = 0 then Some False else meta_match m False (String + 2) Pattern
           else if p = 0x5B then
             let c = read16 m String
             in if c = 0 then Some False
                else do {
                  r \<leftarrow> set_match m c 0 Pattern;
                  case r of
                    Inl _ \<Rightarrow> Some False
                  | Inr (p, Pattern) \<Rightarrow> do {
                      Pattern \<leftarrow> set_skip m p Pattern;
                      meta_match m False (String + 2) Pattern
                    }
                }
           else if read16 m String \<noteq> p then Some False
           else meta_match m False (String + 2) Pattern)"

definition MetaMatch :: "memory \<Rightarrow> u64 \<Rightarrow> u64 \<Rightarrow> bool option" where
  "MetaMatch m String Pattern = meta_match m False String Pattern"

subsection \<open>The language of a pattern without character sets\<close>

fun glob :: "u16 list \<Rightarrow> u16 list \<Rightarrow> bool" where
  "glob [] cs \<longleftrightarrow> cs = []"
| "glob (p # ps) cs \<longleftrightarrow>
     (if p = 0x2A then \<exists>n \<le> length cs. glob ps (drop n cs)
      else case cs of [] \<Rightarrow> False | c # cs \<Rightarrow> (p = 0x3F \<or> c = p) \<and> glob ps cs)"

lemma str16_first: "str16 m a cs \<Longrightarrow> read16 m a = (case cs of [] \<Rightarrow> 0 | c # _ \<Rightarrow> c)"
  by (cases cs) auto

lemma glob_star: "glob (0x2A # ps) (c # cs) \<longleftrightarrow> glob ps (c # cs) \<or> glob (0x2A # ps) cs"
proof -
  have "(\<exists>n \<le> Suc k. P n) \<longleftrightarrow> P 0 \<or> (\<exists>n \<le> k. P (Suc n))" for k and P :: "nat \<Rightarrow> bool"
    by (metis Suc_le_mono not0_implies_Suc zero_le)
  then show ?thesis by simp
qed

lemma meta_match_glob:
  "str16 m S cs \<Longrightarrow> str16 m P ps \<Longrightarrow> 0x5B \<notin> set ps \<Longrightarrow>
    meta_match m False S P = Some (glob ps cs) \<and> meta_match m True S P = Some (glob (0x2A # ps) cs)"
proof (induction ps arbitrary: P cs S)
  case Nil
  have f: "meta_match m False S P = Some (glob [] cs)" if "str16 m S cs" for S cs
    using Nil(2) str16_first [OF that] that by (subst meta_match.simps) (auto split: list.splits)
  have "meta_match m True S P = Some (glob [0x2A] cs)" using Nil(1)
  proof (induction cs arbitrary: S)
    case Nil
    then show ?case using f [of S "[]"] by (subst meta_match.simps) simp
  next
    case (Cons c cs)
    have "meta_match m True (S + 2) P = Some (glob [0x2A] cs)" using Cons by simp
    then show ?case using f [OF Cons.prems] Cons.prems glob_star [of "[]" c cs]
      by (subst meta_match.simps) simp
  qed
  with f [OF Nil(1)] show ?case by blast
next
  case (Cons p ps)
  have P: "read16 m P = p" "p \<noteq> 0" "str16 m (P + 2) ps" "p \<noteq> 0x5B" "0x5B \<notin> set ps" using Cons.prems by auto
  have IH: "meta_match m False S (P + 2) = Some (glob ps cs)" "meta_match m True S (P + 2) = Some (glob (0x2A # ps) cs)"
    if "str16 m S cs" for S cs
    using Cons.IH [OF that P(3,5)] by blast+
  have f: "meta_match m False S P = Some (glob (p # ps) cs)" if s: "str16 m S cs" for S cs
  proof (cases cs)
    case Nil
    then show ?thesis using s P IH [OF s] by (subst meta_match.simps) (simp add: Let_def)
  next
    case (Cons c cs')
    have s': "str16 m (S + 2) cs'" "read16 m S = c" "c \<noteq> 0" using s Cons by auto
    then show ?thesis using P IH [OF s] IH(1) [OF s'(1)] Cons
      by (subst meta_match.simps) (auto simp: Let_def)
  qed
  have "meta_match m True S P = Some (glob (0x2A # p # ps) cs)" using Cons.prems(1)
  proof (induction cs arbitrary: S)
    case Nil
    then show ?case using f [of S "[]"] by (subst meta_match.simps) (simp del: glob.simps(2) add: glob.simps(2) [of "0x2A"])
  next
    case (Cons c cs)
    have "meta_match m True (S + 2) P = Some (glob (0x2A # p # ps) cs)" using Cons by simp
    then show ?case using f [OF Cons.prems] Cons.prems glob_star [of "p # ps" c cs]
      by (subst meta_match.simps) (simp del: glob.simps)
  qed
  with f [OF Cons.prems(1)] show ?case by blast
qed

subsection \<open>Properties\<close>

text \<open>C25: Matching a string against a pattern of ordinary characters, \<open>?\<close> and \<open>*\<close> returns, and is true
  exactly when the string belongs to the language of the pattern: a star stands for any characters,
  a question mark for one, any other character for itself.\<close>

theorem MetaMatch_glob:
  assumes "str16 m S cs" "str16 m P ps" "0x5B \<notin> set ps"
  shows "MetaMatch m S P = Some (glob ps cs)"
  using meta_match_glob [OF assms] by (simp add: MetaMatch_def)

text \<open>A character set that is not closed is not an error: the search for its end steps over the
  terminator of the pattern, and whether the rest of the string matches is decided by what lies in
  memory behind the pattern, whether or not the character was in the set.\<close>

theorem MetaMatch_unclosed_set:
  assumes "str16 m S (c # cs)" "str16 m P [0x5B, x]" "x \<noteq> 0x5D" "x \<noteq> 0x2D"
  shows "MetaMatch m S P = MetaMatch m (S + 2) (P + 6)"
proof -
  have P: "read16 m P = 0x5B" "read16 m (P + 2) = x" "x \<noteq> 0" "read16 m (P + 4) = 0"
    using assms(2) by (auto simp: add.commute)
  have c: "read16 m S = c" "c \<noteq> 0" using assms(1) by auto
  note sums = add.commute [of "4 :: u64"] add.commute [of "6 :: u64"]
  have skip: "set_skip m x (P + 4) = Some (P + 6)"
    using P assms(3) by (subst set_skip.simps) (simp add: set_skip.simps sums)
  have "set_match m c x (P + 4) = Some (Inr (0, P + 6))"
    using P by (subst set_match.simps) (simp add: sums)
  then have "set_match m c 0 (P + 2) = Some (Inr (if c = x then (x, P + 4) else (0, P + 6)))"
    using P assms(3,4) by (subst set_match.simps) (simp add: Let_def sums)
  then show ?thesis using P(1) c skip unfolding MetaMatch_def
    by (subst meta_match.simps) (simp add: Let_def set_skip.simps [of m 0])
qed

text \<open>The string ``ab'' at 0x100, the pattern ``*b'' at 0x200 and the pattern ``[x'' at 0x300 with another
  character behind it.\<close>

definition small_patterns :: memory where
  "small_patterns = (\<lambda>_. 0)(0x100 := 97, 0x102 := 98, 0x200 := 0x2A, 0x202 := 98, 0x300 := 0x5B, 0x302 := 120, 0x306 := 98)"

lemma small_patterns_str:
  "str16 small_patterns 0x100 [97, 98]" "str16 small_patterns 0x200 [0x2A, 98]" "str16 small_patterns 0x300 [0x5B, 120]"
  "str16 small_patterns 0x102 [98]" "str16 small_patterns 0x306 [98]"
  by (simp_all add: small_patterns_def load_eval)

theorem MetaMatch_glob_witness: "MetaMatch small_patterns 0x100 0x200 = Some True"
proof -
  have "\<exists>n \<le> Suc (Suc 0). glob [98] (drop n [97, 98])" by (rule exI [of _ 1]) simp
  then show ?thesis using MetaMatch_glob [OF small_patterns_str(1,2)] by simp
qed

theorem MetaMatch_unclosed_set_witness: "MetaMatch small_patterns 0x100 0x300 = Some True"
proof -
  have "MetaMatch small_patterns 0x102 0x306 = Some True"
    using meta_match_glob [OF small_patterns_str(4,5)] by (simp add: MetaMatch_def)
  then show ?thesis using MetaMatch_unclosed_set [OF small_patterns_str(1,3)] by simp
qed

end
