(* ===== verification/EfiLib.thy ===== *)
theory EfiLib
  imports EfiStr
begin

text \<open>
  The gnu-efi library above the firmware's services: memory from the pool, variables, handles and the
  set-up of the library (\<open>lib/misc.c\<close>, \<open>lib/hand.c\<close>, \<open>lib/init.c\<close>, \<open>lib/data.c\<close>), locks
  (\<open>lib/lock.c\<close>, \<open>lib/runtime/rtlock.c\<close>) and GUIDs (\<open>lib/guid.c\<close>).

  The firmware is not part of the repository. Its services are the fields of \<open>uefi\<close>, functions on a
  state of the firmware of any type. A service that returns a result through a pointer gives the
  value it stores, or \<open>None\<close> when it stores nothing; reading a variable that nobody has set is \<open>None\<close>
  as a whole. A local variable whose address goes to the firmware has its address as an argument.
  Debug messages and assertions are compiled out.
\<close>

subsection \<open>Status codes\<close>

definition EFIERR :: "u64 \<Rightarrow> u64" where
  "EFIERR a = 0x8000000000000000 OR a"

definition EFI_ERROR :: "u64 \<Rightarrow> bool" where
  "EFI_ERROR a \<longleftrightarrow> sint a < 0"

definition EFI_SUCCESS :: u64 where "EFI_SUCCESS = 0"
definition EFI_UNSUPPORTED :: u64 where "EFI_UNSUPPORTED = EFIERR 3"
definition EFI_BUFFER_TOO_SMALL :: u64 where "EFI_BUFFER_TOO_SMALL = EFIERR 5"
definition EFI_OUT_OF_RESOURCES :: u64 where "EFI_OUT_OF_RESOURCES = EFIERR 9"
definition EFI_NOT_FOUND :: u64 where "EFI_NOT_FOUND = EFIERR 14"
definition EFI_NOT_STARTED :: u64 where "EFI_NOT_STARTED = EFIERR 19"

lemma EFI_ERROR_codes [simp]:
  "\<not> EFI_ERROR EFI_SUCCESS" "EFI_ERROR EFI_BUFFER_TOO_SMALL" "EFI_ERROR EFI_OUT_OF_RESOURCES"
  "EFI_ERROR EFI_NOT_FOUND" "EFI_ERROR EFI_NOT_STARTED" "EFI_ERROR EFI_UNSUPPORTED"
  "EFI_SUCCESS \<noteq> EFI_BUFFER_TOO_SMALL"
  by code_simp+

subsection \<open>The firmware's services and the library's state\<close>

datatype protocol =
    LoadedImageProtocol
  | SimpleFileSystemProtocol
  | GraphicsOutputProtocol
  | UnicodeCollationProtocol
  | UiProtocol
  | DevicePathProtocol
  | BlockIoProtocol
  | LoadFileProtocol
  | ShellParametersProtocol
  | ShellInterfaceProtocol
  | DeviceIoProtocol
  | OtherProtocol u64

datatype search = AllHandles | ByRegisterNotify u64 | ByProtocol protocol

record 'f uefi =
  sv_AllocatePool :: "u32 \<Rightarrow> u64 \<Rightarrow> 'f \<Rightarrow> u64 \<times> u64 option \<times> 'f"
  sv_FreePool :: "u64 \<Rightarrow> 'f \<Rightarrow> 'f"
  sv_GetMemoryMap :: "u64 \<Rightarrow> u64 \<Rightarrow> memory \<Rightarrow> 'f \<Rightarrow> u64 \<times> u64 \<times> (u64 \<times> u64 \<times> u32) option \<times> memory \<times> 'f"
  sv_HandleProtocol :: "u64 \<Rightarrow> protocol \<Rightarrow> 'f \<Rightarrow> u64 \<times> u64 option \<times> 'f"
  sv_LocateHandle :: "search \<Rightarrow> u64 \<Rightarrow> u64 \<Rightarrow> memory \<Rightarrow> 'f \<Rightarrow> u64 \<times> u64 \<times> memory \<times> 'f"
  sv_RaiseTPL :: "u64 \<Rightarrow> 'f \<Rightarrow> u64 \<times> 'f"
  sv_RestoreTPL :: "u64 \<Rightarrow> 'f \<Rightarrow> 'f"
  sv_GetVariable :: "u64 \<Rightarrow> u64 \<Rightarrow> u64 \<Rightarrow> u64 \<Rightarrow> memory \<Rightarrow> 'f \<Rightarrow> u64 \<times> u64 \<times> memory \<times> 'f"
  sv_SetVariable :: "u64 \<Rightarrow> u64 \<Rightarrow> u32 \<Rightarrow> u64 \<Rightarrow> u64 \<Rightarrow> memory \<Rightarrow> 'f \<Rightarrow> u64 \<times> 'f"
  sv_StriColl :: "u64 \<Rightarrow> u64 \<Rightarrow> u64 \<Rightarrow> memory \<Rightarrow> 'f \<Rightarrow> int \<times> 'f"
  sv_MetaiMatch :: "u64 \<Rightarrow> u64 \<Rightarrow> u64 \<Rightarrow> memory \<Rightarrow> 'f \<Rightarrow> bool \<times> 'f"
  sv_StrLwr :: "u64 \<Rightarrow> u64 \<Rightarrow> memory \<Rightarrow> 'f \<Rightarrow> memory \<times> 'f"
  sv_StrUpr :: "u64 \<Rightarrow> u64 \<Rightarrow> memory \<Rightarrow> 'f \<Rightarrow> memory \<times> 'f"

text \<open>\<open>UnicodeInterface\<close> is the library's own stub until a firmware interface is found. The addresses of
  the string literals and GUIDs that are passed to the firmware are fields that nothing changes.\<close>

record 'f efi_state = ram +
  firmware :: 'f
  LibInitialized :: bool
  LibFwInstance :: bool
  LibImageHandle :: u64
  ST :: u64
  PoolAllocationType :: u32
  UnicodeInterface :: "u64 option"
  EFIDebug :: u64
  L_EFIDebug :: u64
  VarLanguage :: u64
  VarBootOrder :: u64
  EfiGlobalVariable :: u64

subsection \<open>Memory\<close>

definition AllocatePool :: "('f, 'y) uefi_scheme \<Rightarrow> u64 \<Rightarrow> ('f, 'z) efi_state_scheme \<Rightarrow> (u64 \<times> ('f, 'z) efi_state_scheme) option" where
  "AllocatePool sv Size s =
     (let (Status, p, f) = sv_AllocatePool sv (PoolAllocationType s) Size (firmware s);
          s = s\<lparr>firmware := f\<rparr>
      in if EFI_ERROR Status then Some (0, s)
         else case p of None \<Rightarrow> None | Some p \<Rightarrow> Some (p, s))"

definition FreePool :: "('f, 'y) uefi_scheme \<Rightarrow> u64 \<Rightarrow> ('f, 'z) efi_state_scheme \<Rightarrow> ('f, 'z) efi_state_scheme" where
  "FreePool sv Buffer s = s\<lparr>firmware := sv_FreePool sv Buffer (firmware s)\<rparr>"

definition ZeroMem :: "u64 \<Rightarrow> u64 \<Rightarrow> ('f, 'z) efi_state_scheme \<Rightarrow> ('f, 'z) efi_state_scheme" where
  "ZeroMem Buffer Size s = s\<lparr>mem := RtZeroMem Buffer Size (mem s)\<rparr>"

definition SetMem :: "u64 \<Rightarrow> u64 \<Rightarrow> u8 \<Rightarrow> ('f, 'z) efi_state_scheme \<Rightarrow> ('f, 'z) efi_state_scheme" where
  "SetMem Buffer Size Value s = s\<lparr>mem := RtSetMem Buffer Size Value (mem s)\<rparr>"

definition CopyMem :: "u64 \<Rightarrow> u64 \<Rightarrow> u64 \<Rightarrow> ('f, 'z) efi_state_scheme \<Rightarrow> ('f, 'z) efi_state_scheme" where
  "CopyMem Dest Src len s = s\<lparr>mem := RtCopyMem Dest Src len (mem s)\<rparr>"

definition CompareMem :: "u64 \<Rightarrow> u64 \<Rightarrow> u64 \<Rightarrow> ('f, 'z) efi_state_scheme \<Rightarrow> int" where
  "CompareMem Dest Src len s = RtCompareMem (mem s) Dest Src len"

definition AllocateZeroPool :: "('f, 'y) uefi_scheme \<Rightarrow> u64 \<Rightarrow> ('f, 'z) efi_state_scheme \<Rightarrow> (u64 \<times> ('f, 'z) efi_state_scheme) option" where
  "AllocateZeroPool sv Size s = do {
     (p, s) \<leftarrow> AllocatePool sv Size s;
     Some (p, if p \<noteq> 0 then ZeroMem p Size s else s)
   }"

definition ReallocatePool ::
  "('f, 'y) uefi_scheme \<Rightarrow> u64 \<Rightarrow> u64 \<Rightarrow> u64 \<Rightarrow> ('f, 'z) efi_state_scheme \<Rightarrow> (u64 \<times> ('f, 'z) efi_state_scheme) option" where
  "ReallocatePool sv OldPool OldSize NewSize s = do {
     (NewPool, s) \<leftarrow> (if NewSize \<noteq> 0 then AllocatePool sv NewSize s else Some (0, s));
     let s = (if OldPool \<noteq> 0 then
                let s = (if NewPool \<noteq> 0 then CopyMem NewPool OldPool (if OldSize < NewSize then OldSize else NewSize) s else s)
                in FreePool sv OldPool s
              else s);
     Some (NewPool, s)
   }"

definition StrDuplicate :: "('f, 'y) uefi_scheme \<Rightarrow> u64 \<Rightarrow> ('f, 'z) efi_state_scheme \<Rightarrow> (u64 \<times> ('f, 'z) efi_state_scheme) option" where
  "StrDuplicate sv Src s = do {
     Size \<leftarrow> StrSize (mem s) Src;
     (Dest, s) \<leftarrow> AllocatePool sv Size s;
     Some (Dest, if Dest \<noteq> 0 then CopyMem Dest Src Size s else s)
   }"

subsection \<open>Buffers that grow until the firmware is content\<close>

text \<open>The result is whether to try again, then the status, the buffer and the state.\<close>

definition GrowBuffer ::
  "('f, 'y) uefi_scheme \<Rightarrow> u64 \<Rightarrow> u64 \<Rightarrow> u64 \<Rightarrow> ('f, 'z) efi_state_scheme \<Rightarrow> (bool \<times> u64 \<times> u64 \<times> ('f, 'z) efi_state_scheme) option" where
  "GrowBuffer sv Status Buffer BufferSize s = do {
     let Status = (if Buffer = 0 \<and> BufferSize \<noteq> 0 then EFI_BUFFER_TOO_SMALL else Status);
     (TryAgain, Status, Buffer, s) \<leftarrow>
       (if Status = EFI_BUFFER_TOO_SMALL then do {
          let s = (if Buffer \<noteq> 0 then FreePool sv Buffer s else s);
          (Buffer, s) \<leftarrow> AllocatePool sv BufferSize s;
          if Buffer \<noteq> 0 then Some (True, Status, Buffer, s) else Some (False, EFI_OUT_OF_RESOURCES, Buffer, s)
        }
        else Some (False, Status, Buffer, s));
     if \<not> TryAgain \<and> EFI_ERROR Status \<and> Buffer \<noteq> 0
     then Some (TryAgain, Status, 0, FreePool sv Buffer s)
     else Some (TryAgain, Status, Buffer, s)
   }"

text \<open>The loop of \<open>LibMemoryMap\<close> also carries the last descriptor data the firmware stored.\<close>

partial_function (option) memory_map_loop ::
  "('f, 'y) uefi_scheme \<Rightarrow> u64 \<Rightarrow> u64 \<Rightarrow> u64 \<Rightarrow> (u64 \<times> u64 \<times> u32) option \<Rightarrow> ('f, 'z) efi_state_scheme \<Rightarrow>
     (u64 \<times> u64 \<times> u64 \<times> (u64 \<times> u64 \<times> u32) option \<times> ('f, 'z) efi_state_scheme) option" where
  "memory_map_loop sv Status Buffer BufferSize out s = do {
     (TryAgain, Status, Buffer, s) \<leftarrow> GrowBuffer sv Status Buffer BufferSize s;
     if TryAgain then
       let (Status, BufferSize, out', m, f) = sv_GetMemoryMap sv BufferSize Buffer (mem s) (firmware s)
       in memory_map_loop sv Status Buffer BufferSize (if out' = None then out else out') (s\<lparr>mem := m, firmware := f\<rparr>)
     else Some (Status, Buffer, BufferSize, out, s)
   }"

definition sizeof_EFI_MEMORY_DESCRIPTOR :: u64 where
  "sizeof_EFI_MEMORY_DESCRIPTOR = 40"

text \<open>The buffer, the number of entries when there was no error, and key, descriptor size and version.\<close>

definition LibMemoryMap ::
  "('f, 'y) uefi_scheme \<Rightarrow> ('f, 'z) efi_state_scheme \<Rightarrow> (u64 \<times> u64 option \<times> (u64 \<times> u64 \<times> u32) option \<times> ('f, 'z) efi_state_scheme) option" where
  "LibMemoryMap sv s = do {
     (Status, Buffer, BufferSize, out, s) \<leftarrow> memory_map_loop sv EFI_SUCCESS 0 sizeof_EFI_MEMORY_DESCRIPTOR None s;
     if EFI_ERROR Status then Some (Buffer, None, out, s)
     else do {
       (key, DescriptorSize, version) \<leftarrow> out;
       if DescriptorSize = 0 then None else Some (Buffer, Some (BufferSize div DescriptorSize), out, s)
     }
   }"

partial_function (option) get_variable_loop ::
  "('f, 'y) uefi_scheme \<Rightarrow> u64 \<Rightarrow> u64 \<Rightarrow> u64 \<Rightarrow> u64 \<Rightarrow> u64 \<Rightarrow> ('f, 'z) efi_state_scheme \<Rightarrow> (u64 \<times> u64 \<times> ('f, 'z) efi_state_scheme) option" where
  "get_variable_loop sv Name VendorGuid Status Buffer BufferSize s = do {
     (TryAgain, Status, Buffer, s) \<leftarrow> GrowBuffer sv Status Buffer BufferSize s;
     if TryAgain then
       let (Status, BufferSize, m, f) = sv_GetVariable sv Name VendorGuid BufferSize Buffer (mem s) (firmware s)
       in get_variable_loop sv Name VendorGuid Status Buffer BufferSize (s\<lparr>mem := m, firmware := f\<rparr>)
     else Some (Buffer, BufferSize, s)
   }"

text \<open>\<open>Status\<close> is not initialised, but the first round sets it before it is read.\<close>

definition LibGetVariableAndSize ::
  "('f, 'y) uefi_scheme \<Rightarrow> u64 \<Rightarrow> u64 \<Rightarrow> ('f, 'z) efi_state_scheme \<Rightarrow> (u64 \<times> u64 \<times> ('f, 'z) efi_state_scheme) option" where
  "LibGetVariableAndSize sv Name VendorGuid s = do {
     (Buffer, BufferSize, s) \<leftarrow> get_variable_loop sv Name VendorGuid EFI_SUCCESS 0 100 s;
     Some (Buffer, if Buffer \<noteq> 0 then BufferSize else 0, s)
   }"

definition LibGetVariable ::
  "('f, 'y) uefi_scheme \<Rightarrow> u64 \<Rightarrow> u64 \<Rightarrow> ('f, 'z) efi_state_scheme \<Rightarrow> (u64 \<times> ('f, 'z) efi_state_scheme) option" where
  "LibGetVariable sv Name VendorGuid s = do {
     (Buffer, VarSize, s) \<leftarrow> LibGetVariableAndSize sv Name VendorGuid s;
     Some (Buffer, s)
   }"

subsection \<open>Variables\<close>

definition EFI_VARIABLE_NON_VOLATILE :: u32 where "EFI_VARIABLE_NON_VOLATILE = 1"
definition EFI_VARIABLE_BOOTSERVICE_ACCESS :: u32 where "EFI_VARIABLE_BOOTSERVICE_ACCESS = 2"
definition EFI_VARIABLE_RUNTIME_ACCESS :: u32 where "EFI_VARIABLE_RUNTIME_ACCESS = 4"

definition LibSetNVVariable ::
  "('f, 'y) uefi_scheme \<Rightarrow> u64 \<Rightarrow> u64 \<Rightarrow> u64 \<Rightarrow> u64 \<Rightarrow> ('f, 'z) efi_state_scheme \<Rightarrow> u64 \<times> ('f, 'z) efi_state_scheme" where
  "LibSetNVVariable sv VarName VarGuid DataSize Data s =
     (let (Status, f) = sv_SetVariable sv VarName VarGuid
            (EFI_VARIABLE_BOOTSERVICE_ACCESS OR EFI_VARIABLE_RUNTIME_ACCESS OR EFI_VARIABLE_NON_VOLATILE)
            DataSize Data (mem s) (firmware s)
      in (Status, s\<lparr>firmware := f\<rparr>))"

definition LibSetVariable ::
  "('f, 'y) uefi_scheme \<Rightarrow> u64 \<Rightarrow> u64 \<Rightarrow> u64 \<Rightarrow> u64 \<Rightarrow> ('f, 'z) efi_state_scheme \<Rightarrow> u64 \<times> ('f, 'z) efi_state_scheme" where
  "LibSetVariable sv VarName VarGuid DataSize Data s =
     (let (Status, f) = sv_SetVariable sv VarName VarGuid (EFI_VARIABLE_BOOTSERVICE_ACCESS OR EFI_VARIABLE_RUNTIME_ACCESS)
            DataSize Data (mem s) (firmware s)
      in (Status, s\<lparr>firmware := f\<rparr>))"

definition LibDeleteVariable ::
  "('f, 'y) uefi_scheme \<Rightarrow> u64 \<Rightarrow> u64 \<Rightarrow> ('f, 'z) efi_state_scheme \<Rightarrow> (u64 \<times> ('f, 'z) efi_state_scheme) option" where
  "LibDeleteVariable sv VarName VarGuid s = do {
     (VarBuf, s) \<leftarrow> LibGetVariable sv VarName VarGuid s;
     if VarBuf \<noteq> 0 then
       let (Status, s) = LibSetNVVariable sv VarName VarGuid 0 0 s
       in Some (Status, FreePool sv VarBuf s)
     else Some (EFI_NOT_FOUND, s)
   }"

text \<open>The loop copies the old boot order, word by word.\<close>

fun copy_order :: "nat \<Rightarrow> u64 \<Rightarrow> u64 \<Rightarrow> u64 \<Rightarrow> memory \<Rightarrow> memory" where
  "copy_order 0 Index New Old m = m"
| "copy_order (Suc n) Index New Old m =
     copy_order n (Index + 1) New Old (write16 m (New + Index * 2) (read16 m (Old + Index * 2)))"

definition LibInsertToTailOfBootOrder ::
  "('f, 'y) uefi_scheme \<Rightarrow> u16 \<Rightarrow> bool \<Rightarrow> ('f, 'z) efi_state_scheme \<Rightarrow> (u64 \<times> ('f, 'z) efi_state_scheme) option" where
  "LibInsertToTailOfBootOrder sv BootOption OnlyInsertIfEmpty s = do {
     (BootOptionArray, VarSize, s) \<leftarrow> LibGetVariableAndSize sv (VarBootOrder s) (EfiGlobalVariable s) s;
     if VarSize \<noteq> 0 \<and> OnlyInsertIfEmpty
     then Some (EFI_UNSUPPORTED, if BootOptionArray \<noteq> 0 then FreePool sv BootOptionArray s else s)
     else do {
       let VarSize = VarSize + 2;
       (NewBootOptionArray, s) \<leftarrow> AllocatePool sv VarSize s;
       let count = VarSize div 2 - 1;
       let m = copy_order (unat count) 0 NewBootOptionArray BootOptionArray (mem s);
       let s = s\<lparr>mem := write16 m (NewBootOptionArray + count * 2) BootOption\<rparr>;
       let (Status, s) = LibSetNVVariable sv (VarBootOrder s) (EfiGlobalVariable s) VarSize NewBootOptionArray s;
       let s = (if NewBootOptionArray \<noteq> 0 then FreePool sv NewBootOptionArray s else s);
       Some (Status, if BootOptionArray \<noteq> 0 then FreePool sv BootOptionArray s else s)
     }
   }"

subsection \<open>Handles\<close>

partial_function (option) locate_loop ::
  "('f, 'y) uefi_scheme \<Rightarrow> search \<Rightarrow> u64 \<Rightarrow> u64 \<Rightarrow> u64 \<Rightarrow> ('f, 'z) efi_state_scheme \<Rightarrow> (u64 \<times> u64 \<times> u64 \<times> ('f, 'z) efi_state_scheme) option" where
  "locate_loop sv p Status Buffer BufferSize s = do {
     (TryAgain, Status, Buffer, s) \<leftarrow> GrowBuffer sv Status Buffer BufferSize s;
     if TryAgain then
       let (Status, BufferSize, m, f) = sv_LocateHandle sv p BufferSize Buffer (mem s) (firmware s)
       in locate_loop sv p Status Buffer BufferSize (s\<lparr>mem := m, firmware := f\<rparr>)
     else Some (Status, Buffer, BufferSize, s)
   }"

text \<open>A search is its type with the argument, protocol or key, that its type looks at. The result is the
  status, the number of handles and the buffer.\<close>

definition LibLocateHandle ::
  "('f, 'y) uefi_scheme \<Rightarrow> search \<Rightarrow> ('f, 'z) efi_state_scheme \<Rightarrow> (u64 \<times> u64 \<times> u64 \<times> ('f, 'z) efi_state_scheme) option" where
  "LibLocateHandle sv p s = do {
     (Status, Buffer, BufferSize, s) \<leftarrow> locate_loop sv p EFI_SUCCESS 0 (50 * 8) s;
     Some (Status, if EFI_ERROR Status then 0 else BufferSize div 8, Buffer, s)
   }"

text \<open>The loop of \<open>LibLocateProtocol\<close>, with the rounds left.\<close>

fun interface_loop ::
  "('f, 'y) uefi_scheme \<Rightarrow> protocol \<Rightarrow> nat \<Rightarrow> u64 \<Rightarrow> u64 \<Rightarrow> u64 \<Rightarrow> u64 \<Rightarrow> ('f, 'z) efi_state_scheme \<Rightarrow> u64 \<times> u64 \<times> ('f, 'z) efi_state_scheme" where
  "interface_loop sv p 0 Index Handles Status Interface s = (Status, Interface, s)"
| "interface_loop sv p (Suc n) Index Handles Status Interface s =
     (let (Status, v, f) = sv_HandleProtocol sv (read64 (mem s) (Handles + Index * 8)) p (firmware s);
          Interface = (case v of None \<Rightarrow> Interface | Some i \<Rightarrow> i);
          s = s\<lparr>firmware := f\<rparr>
      in if \<not> EFI_ERROR Status then (Status, Interface, s)
         else interface_loop sv p n (Index + 1) Handles Status Interface s)"

definition LibLocateProtocol ::
  "('f, 'y) uefi_scheme \<Rightarrow> protocol \<Rightarrow> ('f, 'z) efi_state_scheme \<Rightarrow> (u64 \<times> u64 \<times> ('f, 'z) efi_state_scheme) option" where
  "LibLocateProtocol sv p s = do {
     (Status, NumberHandles, Handles, s) \<leftarrow> LibLocateHandle sv (ByProtocol p) s;
     if EFI_ERROR Status then Some (Status, 0, s)
     else
       let (Status, Interface, s) = interface_loop sv p (unat NumberHandles) 0 Handles Status 0 s
       in Some (Status, Interface, if Handles \<noteq> 0 then FreePool sv Handles s else s)
   }"

subsection \<open>Setting up the library\<close>

text \<open>\<open>NewEFIDebug\<close> and \<open>EFIDebug\<close> are words of 8 bytes.\<close>

definition EFIDebugVariable :: "('f, 'y) uefi_scheme \<Rightarrow> u64 \<Rightarrow> ('f, 'z) efi_state_scheme \<Rightarrow> ('f, 'z) efi_state_scheme" where
  "EFIDebugVariable sv NewEFIDebug s =
     (let (Status, DataSize, m, f) = sv_GetVariable sv (L_EFIDebug s) (EfiGlobalVariable s) 8 NewEFIDebug (mem s) (firmware s);
          s = s\<lparr>mem := m, firmware := f\<rparr>
      in if \<not> EFI_ERROR Status then s\<lparr>EFIDebug := read64 m NewEFIDebug\<rparr> else s)"

text \<open>\<open>SupportedLanguages\<close> is the last field of the collation interface, at offset 48. The inner loop
  gives whether the language was found; positions advance by the three bytes of a code.\<close>

partial_function (option) language_loop :: "memory \<Rightarrow> u64 \<Rightarrow> u64 \<Rightarrow> u64 \<Rightarrow> u64 \<Rightarrow> bool option" where
  "language_loop m Languages LangCode Length Position =
     (if Position < Length then
        if RtCompareMem m (Languages + Position) LangCode 3 = 0 then Some True
        else language_loop m Languages LangCode Length (Position + 3)
      else Some False)"

fun collation_loop ::
  "('f, 'y) uefi_scheme \<Rightarrow> nat \<Rightarrow> u64 \<Rightarrow> u64 \<Rightarrow> u64 \<Rightarrow> ('f, 'z) efi_state_scheme \<Rightarrow> ('f, 'z) efi_state_scheme option" where
  "collation_loop sv 0 Index Handles LangCode s = Some s"
| "collation_loop sv (Suc n) Index Handles LangCode s =
     (let (Status, v, f) = sv_HandleProtocol sv (read64 (mem s) (Handles + Index * 8)) UnicodeCollationProtocol (firmware s);
          s = s\<lparr>firmware := f\<rparr>
      in if EFI_ERROR Status then collation_loop sv n (Index + 1) Handles LangCode s
         else do {
           Ui \<leftarrow> v;
           let Languages = read64 (mem s) (Ui + 48);
           Length \<leftarrow> strlena (mem s) Languages;
           found \<leftarrow> language_loop (mem s) Languages LangCode Length 0;
           if found then Some (s\<lparr>UnicodeInterface := Some Ui\<rparr>)
           else collation_loop sv n (Index + 1) Handles LangCode s
         })"

definition InitializeUnicodeSupport ::
  "('f, 'y) uefi_scheme \<Rightarrow> u64 \<Rightarrow> ('f, 'z) efi_state_scheme \<Rightarrow> ('f, 'z) efi_state_scheme option" where
  "InitializeUnicodeSupport sv LangCode s = do {
     (Status, NoHandles, Handles, s) \<leftarrow> LibLocateHandle sv (ByProtocol UnicodeCollationProtocol) s;
     s \<leftarrow> (if LangCode = 0 \<or> NoHandles = 0 then Some s
           else collation_loop sv (unat NoHandles) 0 Handles LangCode s);
     Some (if Handles \<noteq> 0 then FreePool sv Handles s else s)
   }"

text \<open>\<open>ImageDataType\<close> is the field at offset 84 of the loaded image. \<open>BS\<close> and \<open>RT\<close> are the tables the
  system table points to; the model has their functions in \<open>uefi\<close>.\<close>

definition InitializeLib ::
  "('f, 'y) uefi_scheme \<Rightarrow> u64 \<Rightarrow> u64 \<Rightarrow> u64 \<Rightarrow> ('f, 'z) efi_state_scheme \<Rightarrow> ('f, 'z) efi_state_scheme option" where
  "InitializeLib sv ImageHandle SystemTable NewEFIDebug s = do {
     s \<leftarrow> (if \<not> LibInitialized s then do {
             let s = s\<lparr>LibInitialized := True, LibFwInstance := False, LibImageHandle := ImageHandle, ST := SystemTable\<rparr>;
             if ImageHandle \<noteq> 0 then do {
               let (Status, v, f) = sv_HandleProtocol sv ImageHandle LoadedImageProtocol (firmware s);
               let s = s\<lparr>firmware := f\<rparr>;
               s \<leftarrow> (if \<not> EFI_ERROR Status
                     then do { LoadedImage \<leftarrow> v; Some (s\<lparr>PoolAllocationType := read32 (mem s) (LoadedImage + 84)\<rparr>) }
                     else Some s);
               Some (EFIDebugVariable sv NewEFIDebug s)
             }
             else Some s
           }
           else Some s);
     if ImageHandle \<noteq> 0 \<and> UnicodeInterface s = None then do {
       (LangCode, s) \<leftarrow> LibGetVariable sv (VarLanguage s) (EfiGlobalVariable s) s;
       s \<leftarrow> InitializeUnicodeSupport sv LangCode s;
       Some (if LangCode \<noteq> 0 then FreePool sv LangCode s else s)
     }
     else Some s
   }"

subsection \<open>Strings in the firmware's language\<close>

text \<open>The stubs of the library compare case-sensitively and change nothing.\<close>

definition LibStubStriCmp :: "memory \<Rightarrow> u64 \<Rightarrow> u64 \<Rightarrow> int option" where
  "LibStubStriCmp m s1 s2 = StrCmp m s1 s2"

definition LibStubStrLwrUpr :: "u64 \<Rightarrow> memory \<Rightarrow> memory" where
  "LibStubStrLwrUpr Str m = m"

definition LibStubMetaiMatch :: "memory \<Rightarrow> u64 \<Rightarrow> u64 \<Rightarrow> bool option" where
  "LibStubMetaiMatch m String Pattern = MetaMatch m String Pattern"

definition StriCmp :: "('f, 'y) uefi_scheme \<Rightarrow> u64 \<Rightarrow> u64 \<Rightarrow> ('f, 'z) efi_state_scheme \<Rightarrow> (int \<times> ('f, 'z) efi_state_scheme) option" where
  "StriCmp sv s1 s2 s =
     (case UnicodeInterface s of
        None \<Rightarrow> do { r \<leftarrow> LibStubStriCmp (mem s) s1 s2; Some (r, s) }
      | Some i \<Rightarrow> let (r, f) = sv_StriColl sv i s1 s2 (mem s) (firmware s) in Some (r, s\<lparr>firmware := f\<rparr>))"

definition MetaiMatch ::
  "('f, 'y) uefi_scheme \<Rightarrow> u64 \<Rightarrow> u64 \<Rightarrow> ('f, 'z) efi_state_scheme \<Rightarrow> (bool \<times> ('f, 'z) efi_state_scheme) option" where
  "MetaiMatch sv String Pattern s =
     (case UnicodeInterface s of
        None \<Rightarrow> do { r \<leftarrow> LibStubMetaiMatch (mem s) String Pattern; Some (r, s) }
      | Some i \<Rightarrow> let (r, f) = sv_MetaiMatch sv i String Pattern (mem s) (firmware s) in Some (r, s\<lparr>firmware := f\<rparr>))"

definition StrLwr :: "('f, 'y) uefi_scheme \<Rightarrow> u64 \<Rightarrow> ('f, 'z) efi_state_scheme \<Rightarrow> ('f, 'z) efi_state_scheme" where
  "StrLwr sv Str s =
     (case UnicodeInterface s of
        None \<Rightarrow> s\<lparr>mem := LibStubStrLwrUpr Str (mem s)\<rparr>
      | Some i \<Rightarrow> let (m, f) = sv_StrLwr sv i Str (mem s) (firmware s) in s\<lparr>mem := m, firmware := f\<rparr>)"

definition StrUpr :: "('f, 'y) uefi_scheme \<Rightarrow> u64 \<Rightarrow> ('f, 'z) efi_state_scheme \<Rightarrow> ('f, 'z) efi_state_scheme" where
  "StrUpr sv Str s =
     (case UnicodeInterface s of
        None \<Rightarrow> s\<lparr>mem := LibStubStrLwrUpr Str (mem s)\<rparr>
      | Some i \<Rightarrow> let (m, f) = sv_StrUpr sv i Str (mem s) (firmware s) in s\<lparr>mem := m, firmware := f\<rparr>)"

subsection \<open>Locks\<close>

record FLOCK =
  Tpl :: u64
  OwnerTpl :: u64
  Lock :: u64

definition InitializeLock :: "u64 \<Rightarrow> FLOCK" where
  "InitializeLock Priority = \<lparr>Tpl = Priority, OwnerTpl = 0, Lock = 0\<rparr>"

text \<open>The boot services are there, and both functions are in their table.\<close>

definition RtAcquireLock :: "('f, 'y) uefi_scheme \<Rightarrow> FLOCK \<Rightarrow> 'f \<Rightarrow> FLOCK \<times> 'f" where
  "RtAcquireLock sv l f =
     (let (old, f) = sv_RaiseTPL sv (Tpl l) f; l = l\<lparr>OwnerTpl := old\<rparr> in (l\<lparr>Lock := Lock l + 1\<rparr>, f))"

definition RtReleaseLock :: "('f, 'y) uefi_scheme \<Rightarrow> FLOCK \<Rightarrow> 'f \<Rightarrow> FLOCK \<times> 'f" where
  "RtReleaseLock sv l f = (l\<lparr>Lock := Lock l - 1\<rparr>, sv_RestoreTPL sv (OwnerTpl l) f)"

definition AcquireLock :: "('f, 'y) uefi_scheme \<Rightarrow> FLOCK \<Rightarrow> 'f \<Rightarrow> FLOCK \<times> 'f" where
  "AcquireLock sv l f = RtAcquireLock sv l f"

definition ReleaseLock :: "('f, 'y) uefi_scheme \<Rightarrow> FLOCK \<Rightarrow> 'f \<Rightarrow> FLOCK \<times> 'f" where
  "ReleaseLock sv l f = RtReleaseLock sv l f"

subsection \<open>GUIDs\<close>

definition CompareGuid :: "memory \<Rightarrow> u64 \<Rightarrow> u64 \<Rightarrow> int" where
  "CompareGuid m Guid1 Guid2 = RtCompareGuid m Guid1 Guid2"

text \<open>The system table keeps the number of its configuration tables at offset 104 and their array at
  112; an entry is a GUID and a pointer.\<close>

definition NumberOfTableEntries :: "memory \<Rightarrow> u64 \<Rightarrow> u64" where
  "NumberOfTableEntries m SystemTable = read64 m (SystemTable + 104)"

definition ConfigurationTable :: "memory \<Rightarrow> u64 \<Rightarrow> u64" where
  "ConfigurationTable m SystemTable = read64 m (SystemTable + 112)"

definition VendorGuid_at :: "u64 \<Rightarrow> u64" where
  "VendorGuid_at entry = entry"

definition VendorTable :: "memory \<Rightarrow> u64 \<Rightarrow> u64" where
  "VendorTable m entry = read64 m (entry + 16)"

text \<open>The loop of \<open>LibGetSystemConfigurationTable\<close>, with the rounds left; \<open>None\<close> is not found.\<close>

fun config_loop :: "nat \<Rightarrow> u64 \<Rightarrow> memory \<Rightarrow> u64 \<Rightarrow> u64 \<Rightarrow> u64 option" where
  "config_loop 0 Index m TableGuid entries = None"
| "config_loop (Suc n) Index m TableGuid entries =
     (if CompareGuid m TableGuid (VendorGuid_at (entries + Index * 24)) = 0
      then Some (VendorTable m (entries + Index * 24))
      else config_loop n (Index + 1) m TableGuid entries)"

definition LibGetSystemConfigurationTable :: "u64 \<Rightarrow> ('f, 'z) efi_state_scheme \<Rightarrow> u64 \<times> u64 option" where
  "LibGetSystemConfigurationTable TableGuid s =
     (case config_loop (unat (NumberOfTableEntries (mem s) (ST s))) 0 (mem s) TableGuid (ConfigurationTable (mem s) (ST s)) of
        Some t \<Rightarrow> (EFI_SUCCESS, Some t)
      | None \<Rightarrow> (EFI_NOT_FOUND, None))"

text \<open>Two GUIDs compare as zero exactly when their sixteen bytes are equal.\<close>

lemma or_zero: "(a :: 'a::len word) OR b = 0 \<longleftrightarrow> a = 0 \<and> b = 0"
proof
  assume "a OR b = 0"
  then have "\<not> bit (a OR b) n" for n by simp
  then have "\<not> bit a n \<and> \<not> bit b n" for n unfolding bit_or_iff by blast
  then show "a = 0 \<and> b = 0" by (auto intro!: bit_word_eqI)
qed simp

definition guid_at :: "memory \<Rightarrow> u64 \<Rightarrow> u32 list" where
  "guid_at m a = [read32 m a, read32 m (a + 4), read32 m (a + 8), read32 m (a + 12)]"

lemma CompareGuid_zero: "CompareGuid m g1 g2 = 0 \<longleftrightarrow> guid_at m g1 = guid_at m g2"
proof -
  have z: "sint r = 0 \<longleftrightarrow> r = 0" for r :: u32 by (metis signed_0 signed_word_eqI)
  show ?thesis by (simp add: CompareGuid_def RtCompareGuid_def Let_def z or_zero guid_at_def)
qed

lemma config_loop_find:
  "config_loop n i m g e = map_option (VendorTable m)
     (find (\<lambda>x. guid_at m g = guid_at m x) (map (\<lambda>k. e + (i + of_nat k) * 24) [0..<n]))"
proof (induction n arbitrary: i)
  case (Suc n)
  have "map (\<lambda>k. e + (i + of_nat k) * 24) [0..<Suc n] = (e + i * 24) # map (\<lambda>k. e + (i + 1 + of_nat k) * 24) [0..<n]"
    by (simp add: upt_conv_Cons map_Suc_upt [symmetric] comp_def add.assoc del: upt_Suc)
  then show ?case using Suc by (simp add: CompareGuid_zero VendorGuid_at_def del: upt_Suc)
qed simp

subsection \<open>Reading a variable\<close>

definition store_bytes :: "u64 \<Rightarrow> u8 list \<Rightarrow> memory \<Rightarrow> memory" where
  "store_bytes a bs m = (\<lambda>b. if unat (b - a) < length bs then bs ! unat (b - a) else m b)"

lemma store_bytes_region: "b \<notin> region a (length bs) \<Longrightarrow> store_bytes a bs m b = m b"
  by (simp add: store_bytes_def region_def)

lemma store_bytes_nth:
  assumes "k < length bs" "length bs < 2 ^ 64"
  shows "store_bytes a bs m (a + of_nat k) = bs ! k"
proof -
  have "unat (of_nat k :: u64) = k" using assms by (intro unat_of_nat_lt) simp
  then show ?thesis using assms(1) by (simp add: store_bytes_def)
qed

text \<open>The documented behaviour of the pool, over any state of the firmware from which the blocks handed
  out, with their sizes, and whether a service has failed can be told. A block is new memory of the
  size requested, apart from all other blocks, or the request fails; a block freed is gone.\<close>

definition used_pool :: "(u64 \<Rightarrow> nat option) \<Rightarrow> u64 set" where
  "used_pool bl = {b. \<exists>a n. bl a = Some n \<and> b \<in> region a n}"

definition pool_laws :: "('f, 'y) uefi_scheme \<Rightarrow> ('f \<Rightarrow> u64 \<Rightarrow> nat option) \<Rightarrow> ('f \<Rightarrow> bool) \<Rightarrow> u64 set \<Rightarrow> bool" where
  "pool_laws sv blocks failed heap \<longleftrightarrow>
     (\<forall>t n f st p f'. sv_AllocatePool sv t n f = (st, p, f') \<longrightarrow>
        failed f' = (failed f \<or> EFI_ERROR st)
        \<and> (if EFI_ERROR st then blocks f' = blocks f
           else case p of None \<Rightarrow> False
                | Some a \<Rightarrow> a \<noteq> 0 \<and> blocks f a = None \<and> region a (unat n) \<subseteq> heap - used_pool (blocks f)
                    \<and> blocks f' = (blocks f)(a \<mapsto> unat n)))
     \<and> (\<forall>a f. failed (sv_FreePool sv a f) = failed f
        \<and> (blocks f a \<noteq> None \<longrightarrow> blocks (sv_FreePool sv a f) = (blocks f)(a := None)))"

text \<open>The documented behaviour of a variable with the given data: asked with a size that is that of the
  block at the buffer at most, the service stores the data if the size is enough for it and reports
  the size it needs otherwise, or it fails; it writes to the buffer at most.\<close>

definition variable_laws ::
  "('f, 'y) uefi_scheme \<Rightarrow> ('f \<Rightarrow> u64 \<Rightarrow> nat option) \<Rightarrow> ('f \<Rightarrow> bool) \<Rightarrow> u64 \<Rightarrow> u64 \<Rightarrow> u8 list \<Rightarrow> bool" where
  "variable_laws sv blocks failed name guid data \<longleftrightarrow>
     (\<forall>size buf m f n st sz m' f'. blocks f buf = Some n \<longrightarrow> unat size \<le> n \<longrightarrow>
        sv_GetVariable sv name guid size buf m f = (st, sz, m', f') \<longrightarrow>
          blocks f' = blocks f \<and> (\<forall>b. b \<notin> region buf (unat size) \<longrightarrow> m' b = m b)
          \<and> failed f' = (failed f \<or> EFI_ERROR st \<and> st \<noteq> EFI_BUFFER_TOO_SMALL)
          \<and> (if st = EFI_BUFFER_TOO_SMALL then unat size < length data \<and> sz = of_nat (length data)
             else EFI_ERROR st \<or> st = EFI_SUCCESS \<and> length data \<le> unat size \<and> sz = of_nat (length data)
               \<and> m' = store_bytes buf data m))"

text \<open>One call of \<open>GrowBuffer\<close> for a larger buffer: the old block is freed, and a new one of the size
  asked for is there, or the request has failed.\<close>

lemma GrowBuffer_again:
  fixes s :: "('f, 'z) efi_state_scheme"
  assumes laws: "pool_laws sv blocks failed heap" and old: "B0 = 0 \<or> blocks (firmware s) B0 \<noteq> None"
  defines "bl \<equiv> (if B0 = 0 then blocks (firmware s) else (blocks (firmware s))(B0 := None))"
  shows "\<exists>again st B s'. GrowBuffer sv EFI_BUFFER_TOO_SMALL B0 n s = Some (again, st, B, s') \<and> mem s' = mem s
    \<and> (if again then st = EFI_BUFFER_TOO_SMALL \<and> B \<noteq> 0 \<and> bl B = None \<and> region B (unat n) \<subseteq> heap - used_pool bl
           \<and> blocks (firmware s') = bl(B \<mapsto> unat n) \<and> failed (firmware s') = failed (firmware s)
       else B = 0 \<and> blocks (firmware s') = bl \<and> failed (firmware s'))"
proof -
  let ?s = "if B0 \<noteq> 0 then FreePool sv B0 s else s"
  have s: "blocks (firmware ?s) = bl" "failed (firmware ?s) = failed (firmware s)" "mem ?s = mem s"
    using laws old by (auto simp: pool_laws_def FreePool_def bl_def)
  obtain st p f' where a: "sv_AllocatePool sv (PoolAllocationType ?s) n (firmware ?s) = (st, p, f')"
    by (cases "sv_AllocatePool sv (PoolAllocationType ?s) n (firmware ?s)")
  have f: "failed f' = (failed (firmware ?s) \<or> EFI_ERROR st)"
    "if EFI_ERROR st then blocks f' = blocks (firmware ?s)
     else case p of None \<Rightarrow> False
        | Some a \<Rightarrow> a \<noteq> 0 \<and> blocks (firmware ?s) a = None \<and> region a (unat n) \<subseteq> heap - used_pool (blocks (firmware ?s))
            \<and> blocks f' = (blocks (firmware ?s))(a \<mapsto> unat n)"
    using laws a unfolding pool_laws_def by blast+
  show ?thesis
  proof (cases "EFI_ERROR st")
    case True
    then have "GrowBuffer sv EFI_BUFFER_TOO_SMALL B0 n s = Some (False, EFI_OUT_OF_RESOURCES, 0, ?s\<lparr>firmware := f'\<rparr>)"
      using a by (simp add: GrowBuffer_def AllocatePool_def Let_def)
    then show ?thesis using True f s
      by (intro exI [of _ False] exI [of _ EFI_OUT_OF_RESOURCES] exI [of _ 0] exI [of _ "?s\<lparr>firmware := f'\<rparr>"]) simp
  next
    case False
    then obtain b where b: "p = Some b" "b \<noteq> 0" "bl b = None" "region b (unat n) \<subseteq> heap - used_pool bl" "blocks f' = bl(b \<mapsto> unat n)"
      using f(2) s(1) by (auto split: option.splits)
    then have "GrowBuffer sv EFI_BUFFER_TOO_SMALL B0 n s = Some (True, EFI_BUFFER_TOO_SMALL, b, ?s\<lparr>firmware := f'\<rparr>)"
      using a False by (simp add: GrowBuffer_def AllocatePool_def Let_def)
    then show ?thesis using False f(1) b s
      by (intro exI [of _ True] exI [of _ EFI_BUFFER_TOO_SMALL] exI [of _ b] exI [of _ "?s\<lparr>firmware := f'\<rparr>"]) simp
  qed
qed

lemma GrowBuffer_first: "n \<noteq> 0 \<Longrightarrow> GrowBuffer sv st 0 n s = GrowBuffer sv EFI_BUFFER_TOO_SMALL 0 n s"
  by (simp add: GrowBuffer_def)

lemma GrowBuffer_done: "B \<noteq> 0 \<Longrightarrow> GrowBuffer sv EFI_SUCCESS B n s = Some (False, EFI_SUCCESS, B, s)"
  by (simp add: GrowBuffer_def)

lemma GrowBuffer_error:
  "B \<noteq> 0 \<Longrightarrow> EFI_ERROR st \<Longrightarrow> st \<noteq> EFI_BUFFER_TOO_SMALL \<Longrightarrow> GrowBuffer sv st B n s = Some (False, st, 0, FreePool sv B s)"
  by (simp add: GrowBuffer_def)

lemma get_variable_first:
  "get_variable_loop sv name guid EFI_SUCCESS 0 100 s = get_variable_loop sv name guid EFI_BUFFER_TOO_SMALL 0 100 s"
  by (subst (1 2) get_variable_loop.simps) (simp add: GrowBuffer_first [of 100 _ EFI_SUCCESS])

text \<open>What reading a variable achieves, from the blocks \<open>bl\<close>: the data in a new block, or nothing.\<close>

definition variable_read ::
  "('f \<Rightarrow> u64 \<Rightarrow> nat option) \<Rightarrow> ('f \<Rightarrow> bool) \<Rightarrow> u64 set \<Rightarrow> u8 list \<Rightarrow> (u64 \<Rightarrow> nat option) \<Rightarrow> bool \<Rightarrow> memory \<Rightarrow>
     u64 \<Rightarrow> u64 \<Rightarrow> ('f, 'z) efi_state_scheme \<Rightarrow> bool" where
  "variable_read blocks failed heap data bl bad m B sz s' \<longleftrightarrow>
     (\<forall>b. b \<notin> heap - used_pool bl \<longrightarrow> mem s' b = m b)
     \<and> (if B = 0 then blocks (firmware s') = bl \<and> failed (firmware s')
        else sz = of_nat (length data) \<and> failed (firmware s') = bad
          \<and> (\<exists>n. bl B = None \<and> blocks (firmware s') = bl(B \<mapsto> n) \<and> length data \<le> n \<and> region B n \<subseteq> heap - used_pool bl)
          \<and> (\<forall>k < length data. mem s' (B + of_nat k) = data ! k))"

lemma map_upd_del: "bl B = None \<Longrightarrow> (bl(B \<mapsto> n))(B := None) = bl"
  by (auto simp: fun_eq_iff)

text \<open>One round: the loop ends with the data or without it, or goes on with the size that is needed.\<close>

lemma get_variable_round:
  fixes s :: "('f, 'z) efi_state_scheme"
  assumes pool: "pool_laws sv blocks failed heap" and var: "variable_laws sv blocks failed name guid data"
    and old: "B0 = 0 \<or> blocks (firmware s) B0 \<noteq> None" and len: "length data < 2 ^ 64"
  defines "bl \<equiv> (if B0 = 0 then blocks (firmware s) else (blocks (firmware s))(B0 := None))"
  shows "(\<exists>B sz s'. get_variable_loop sv name guid EFI_BUFFER_TOO_SMALL B0 n s = Some (B, sz, s')
        \<and> variable_read blocks failed heap data bl (failed (firmware s)) (mem s) B sz s')
    \<or> unat n < length data \<and> (\<exists>B s1. B \<noteq> 0 \<and> bl B = None \<and> blocks (firmware s1) = bl(B \<mapsto> unat n)
        \<and> failed (firmware s1) = failed (firmware s)
        \<and> (\<forall>b. b \<notin> heap - used_pool bl \<longrightarrow> mem s1 b = mem s b)
        \<and> get_variable_loop sv name guid EFI_BUFFER_TOO_SMALL B0 n s
          = get_variable_loop sv name guid EFI_BUFFER_TOO_SMALL B (of_nat (length data)) s1)"
proof -
  obtain again st B s1 where g: "GrowBuffer sv EFI_BUFFER_TOO_SMALL B0 n s = Some (again, st, B, s1)" "mem s1 = mem s"
    "if again then st = EFI_BUFFER_TOO_SMALL \<and> B \<noteq> 0 \<and> bl B = None \<and> region B (unat n) \<subseteq> heap - used_pool bl
         \<and> blocks (firmware s1) = bl(B \<mapsto> unat n) \<and> failed (firmware s1) = failed (firmware s)
     else B = 0 \<and> blocks (firmware s1) = bl \<and> failed (firmware s1)"
    using GrowBuffer_again [OF pool old, where n = n] unfolding bl_def by blast
  show ?thesis
  proof (cases again)
    case False
    then have "get_variable_loop sv name guid EFI_BUFFER_TOO_SMALL B0 n s = Some (B, n, s1)"
      using g(1) by (subst get_variable_loop.simps) simp
    moreover have "variable_read blocks failed heap data bl (failed (firmware s)) (mem s) B n s1"
      using g(2,3) False by (simp add: variable_read_def)
    ultimately show ?thesis by blast
  next
    case True
    then have B: "B \<noteq> 0" "bl B = None" "region B (unat n) \<subseteq> heap - used_pool bl" "blocks (firmware s1) = bl(B \<mapsto> unat n)"
      "failed (firmware s1) = failed (firmware s)" using g(3) by simp_all
    obtain st2 sz m f where v: "sv_GetVariable sv name guid n B (mem s1) (firmware s1) = (st2, sz, m, f)"
      by (cases "sv_GetVariable sv name guid n B (mem s1) (firmware s1)")
    have bn: "blocks (firmware s1) B = Some (unat n)" using B(4) by simp
    have V: "blocks f = blocks (firmware s1)" "\<forall>b. b \<notin> region B (unat n) \<longrightarrow> m b = mem s1 b"
      "failed f = (failed (firmware s1) \<or> EFI_ERROR st2 \<and> st2 \<noteq> EFI_BUFFER_TOO_SMALL)"
      "if st2 = EFI_BUFFER_TOO_SMALL then unat n < length data \<and> sz = of_nat (length data)
       else EFI_ERROR st2 \<or> st2 = EFI_SUCCESS \<and> length data \<le> unat n \<and> sz = of_nat (length data)
         \<and> m = store_bytes B data (mem s1)"
      using var [unfolded variable_laws_def, rule_format, OF bn order_refl v] by blast+
    let ?s2 = "s1\<lparr>mem := m, firmware := f\<rparr>"
    have loop: "get_variable_loop sv name guid EFI_BUFFER_TOO_SMALL B0 n s = get_variable_loop sv name guid st2 B sz ?s2"
      using g(1) True by (subst get_variable_loop.simps) (simp add: v)
    have fr: "\<forall>b. b \<notin> heap - used_pool bl \<longrightarrow> m b = mem s b" using V(2) B(3) g(2) by auto
    consider "st2 = EFI_BUFFER_TOO_SMALL" | "EFI_ERROR st2" "st2 \<noteq> EFI_BUFFER_TOO_SMALL" | "st2 = EFI_SUCCESS" "st2 \<noteq> EFI_BUFFER_TOO_SMALL"
      using V(4) by (auto split: if_splits)
    then show ?thesis
    proof cases
      case 1
      then show ?thesis using V B fr loop by (intro disjI2) (auto intro!: exI [of _ B] exI [of _ ?s2])
    next
      case 2
      have "blocks (sv_FreePool sv B f) = (blocks f)(B := None)" "failed (sv_FreePool sv B f) = failed f"
        using pool bn V(1) unfolding pool_laws_def by auto
      then have "variable_read blocks failed heap data bl (failed (firmware s)) (mem s) 0 sz (FreePool sv B ?s2)"
        using V(1,3) B(2,4) fr 2 by (simp add: variable_read_def FreePool_def map_upd_del fun_upd_idem)
      moreover have "get_variable_loop sv name guid st2 B sz ?s2 = Some (0, sz, FreePool sv B ?s2)"
        by (subst get_variable_loop.simps) (simp add: GrowBuffer_error [OF B(1) 2])
      ultimately show ?thesis using loop by auto
    next
      case 3
      then have d: "length data \<le> unat n" "sz = of_nat (length data)" "m = store_bytes B data (mem s1)" using V(4) by auto
      have "variable_read blocks failed heap data bl (failed (firmware s)) (mem s) B sz ?s2"
        unfolding variable_read_def using V(1,3) B fr 3 d store_bytes_nth [OF _ len, of _ B] by auto
      moreover have "get_variable_loop sv name guid st2 B sz ?s2 = Some (B, sz, ?s2)"
        unfolding 3(1) by (subst get_variable_loop.simps) (simp add: GrowBuffer_done B(1))
      ultimately show ?thesis using loop by auto
    qed
  qed
qed

lemma get_variable_any:
  fixes s :: "('f, 'z) efi_state_scheme"
  assumes laws: "pool_laws sv blocks failed heap" "variable_laws sv blocks failed name guid data" and len: "length data < 2 ^ 64"
  shows "\<exists>B sz s'. get_variable_loop sv name guid EFI_BUFFER_TOO_SMALL 0 100 s = Some (B, sz, s')
    \<and> variable_read blocks failed heap data (blocks (firmware s)) (failed (firmware s)) (mem s) B sz s'"
proof -
  let ?bl = "blocks (firmware s)" and ?n = "of_nat (length data) :: u64"
  have un: "unat ?n = length data" using len by (intro unat_of_nat_lt) simp
  have "(\<exists>B sz s'. get_variable_loop sv name guid EFI_BUFFER_TOO_SMALL 0 100 s = Some (B, sz, s')
        \<and> variable_read blocks failed heap data ?bl (failed (firmware s)) (mem s) B sz s')
    \<or> (\<exists>B s1. B \<noteq> 0 \<and> ?bl B = None \<and> blocks (firmware s1) = ?bl(B \<mapsto> 100)
        \<and> failed (firmware s1) = failed (firmware s)
        \<and> (\<forall>b. b \<notin> heap - used_pool ?bl \<longrightarrow> mem s1 b = mem s b)
        \<and> get_variable_loop sv name guid EFI_BUFFER_TOO_SMALL 0 100 s
          = get_variable_loop sv name guid EFI_BUFFER_TOO_SMALL B ?n s1)"
    using get_variable_round [OF laws _ len, of 0 s 100] by auto
  then show ?thesis
  proof
    assume "\<exists>B s1. B \<noteq> 0 \<and> ?bl B = None \<and> blocks (firmware s1) = ?bl(B \<mapsto> 100)
        \<and> failed (firmware s1) = failed (firmware s)
        \<and> (\<forall>b. b \<notin> heap - used_pool ?bl \<longrightarrow> mem s1 b = mem s b)
        \<and> get_variable_loop sv name guid EFI_BUFFER_TOO_SMALL 0 100 s
          = get_variable_loop sv name guid EFI_BUFFER_TOO_SMALL B ?n s1"
    then obtain B s1 where B: "B \<noteq> 0" "?bl B = None" "blocks (firmware s1) = ?bl(B \<mapsto> 100)"
      "failed (firmware s1) = failed (firmware s)" "\<forall>b. b \<notin> heap - used_pool ?bl \<longrightarrow> mem s1 b = mem s b"
      "get_variable_loop sv name guid EFI_BUFFER_TOO_SMALL 0 100 s
          = get_variable_loop sv name guid EFI_BUFFER_TOO_SMALL B ?n s1" by blast
    have "(blocks (firmware s1))(B := None) = ?bl" unfolding B(3) using B(2) by (rule map_upd_del)
    then obtain B' sz s' where r: "get_variable_loop sv name guid EFI_BUFFER_TOO_SMALL B ?n s1 = Some (B', sz, s')"
      "variable_read blocks failed heap data ?bl (failed (firmware s1)) (mem s1) B' sz s'"
      using get_variable_round [OF laws _ len, of B s1 ?n] B(1,3) un by auto
    have "variable_read blocks failed heap data ?bl (failed (firmware s)) (mem s) B' sz s'"
      using r(2) B(4,5) unfolding variable_read_def by (cases "B' = 0") simp_all
    then show ?thesis using B(6) r(1) by auto
  qed
qed

subsection \<open>Properties\<close>

text \<open>C26: Reading a variable of any size, from firmware that keeps to its documentation, returns a
  buffer that holds it, with its size: a block of the pool that was not in use before and is large
  enough; the first buffer of 100 bytes, when it was too small, has been given back, so the buffer
  is the only new block. Null and size zero are returned only when a service has failed, and then
  no block is left behind. Memory that was in use, or is not the pool's, is not written.\<close>

theorem LibGetVariableAndSize_reads:
  fixes s :: "('f, 'z) efi_state_scheme"
  assumes "pool_laws sv blocks failed heap" "variable_laws sv blocks failed name guid data"
    and "length data < 2 ^ 64" "\<not> failed (firmware s)"
  defines "bl \<equiv> blocks (firmware s)"
  shows "\<exists>B sz s'. LibGetVariableAndSize sv name guid s = Some (B, sz, s')
    \<and> (\<forall>b. b \<notin> heap - used_pool bl \<longrightarrow> mem s' b = mem s b)
    \<and> (if failed (firmware s') then B = 0 \<and> sz = 0 \<and> blocks (firmware s') = bl
       else B \<noteq> 0 \<and> sz = of_nat (length data) \<and> (\<forall>k < length data. mem s' (B + of_nat k) = data ! k)
         \<and> (\<exists>n. bl B = None \<and> blocks (firmware s') = bl(B \<mapsto> n) \<and> length data \<le> n \<and> region B n \<subseteq> heap - used_pool bl))"
proof -
  obtain B sz s' where r: "get_variable_loop sv name guid EFI_BUFFER_TOO_SMALL 0 100 s = Some (B, sz, s')"
    "variable_read blocks failed heap data bl (failed (firmware s)) (mem s) B sz s'"
    using get_variable_any [OF assms(1-3), of s] unfolding bl_def by blast
  have "LibGetVariableAndSize sv name guid s = Some (B, if B \<noteq> 0 then sz else 0, s')"
    unfolding LibGetVariableAndSize_def get_variable_first r(1) by simp
  then show ?thesis using r(2) assms(4) unfolding variable_read_def by (cases "B = 0") auto
qed

text \<open>A firmware with the pool at 0x1000 and one variable of 200 bytes.\<close>

definition small_uefi :: "unit uefi" where
  "small_uefi = \<lparr>sv_AllocatePool = \<lambda>t n f. (EFI_SUCCESS, Some 0x1000, f), sv_FreePool = \<lambda>a f. f,
     sv_GetMemoryMap = \<lambda>n a m f. (EFI_SUCCESS, 0, None, m, f), sv_HandleProtocol = \<lambda>h p f. (EFI_UNSUPPORTED, None, f),
     sv_LocateHandle = \<lambda>p n a m f. (EFI_NOT_FOUND, 0, m, f), sv_RaiseTPL = \<lambda>t f. (t, f), sv_RestoreTPL = \<lambda>t f. f,
     sv_GetVariable = \<lambda>name guid size buf m f.
       (if unat size < 200 then (EFI_BUFFER_TOO_SMALL, 200, m, f)
        else (EFI_SUCCESS, 200, store_bytes buf (replicate 200 7) m, f)),
     sv_SetVariable = \<lambda>name guid attr size data m f. (EFI_SUCCESS, f),
     sv_StriColl = \<lambda>i a b m f. (0, f), sv_MetaiMatch = \<lambda>i a b m f. (False, f), sv_StrLwr = \<lambda>i a m f. (m, f),
     sv_StrUpr = \<lambda>i a m f. (m, f)\<rparr>"

definition small_efi :: "unit efi_state" where
  "small_efi = \<lparr>mem = \<lambda>_. 0, firmware = (), LibInitialized = False, LibFwInstance = False, LibImageHandle = 0, ST = 0,
     PoolAllocationType = 4, UnicodeInterface = None, EFIDebug = 0, L_EFIDebug = 0x100, VarLanguage = 0x200,
     VarBootOrder = 0x300, EfiGlobalVariable = 0x400\<rparr>"

text \<open>A firmware with a pool of one block at 0x1000, which keeps account of it, and the same variable.\<close>

type_synonym one_block = "(u64 \<Rightarrow> nat option) \<times> bool"

definition block_alloc :: "u32 \<Rightarrow> u64 \<Rightarrow> one_block \<Rightarrow> u64 \<times> u64 option \<times> one_block" where
  "block_alloc t n = (\<lambda>(bl, bad).
     if bl 0x1000 = None \<and> region 0x1000 (unat n) \<inter> used_pool bl = {}
     then (EFI_SUCCESS, Some 0x1000, bl(0x1000 \<mapsto> unat n), bad) else (EFI_OUT_OF_RESOURCES, None, bl, True))"

definition block_uefi :: "one_block uefi" where
  "block_uefi = \<lparr>sv_AllocatePool = block_alloc, sv_FreePool = \<lambda>a (bl, bad). (bl(a := None), bad),
     sv_GetMemoryMap = \<lambda>n a m f. (EFI_SUCCESS, 0, None, m, f), sv_HandleProtocol = \<lambda>h p f. (EFI_UNSUPPORTED, None, f),
     sv_LocateHandle = \<lambda>p n a m f. (EFI_NOT_FOUND, 0, m, f), sv_RaiseTPL = \<lambda>t f. (t, f), sv_RestoreTPL = \<lambda>t f. f,
     sv_GetVariable = \<lambda>name guid size buf m f.
       (if unat size < 200 then (EFI_BUFFER_TOO_SMALL, 200, m, f)
        else (EFI_SUCCESS, 200, store_bytes buf (replicate 200 7) m, f)),
     sv_SetVariable = \<lambda>name guid attr size data m f. (EFI_SUCCESS, f),
     sv_StriColl = \<lambda>i a b m f. (0, f), sv_MetaiMatch = \<lambda>i a b m f. (False, f), sv_StrLwr = \<lambda>i a m f. (m, f),
     sv_StrUpr = \<lambda>i a m f. (m, f)\<rparr>"

lemma block_uefi_laws:
  "pool_laws block_uefi fst snd UNIV" "variable_laws block_uefi fst snd name guid (replicate 200 7)"
proof -
  show "pool_laws block_uefi fst snd UNIV"
    unfolding pool_laws_def by (auto simp: block_uefi_def block_alloc_def split: if_splits)
  show "variable_laws block_uefi fst snd name guid (replicate 200 7)"
    unfolding variable_laws_def
    by (auto simp: block_uefi_def region_def store_bytes_def split: if_splits)
qed

definition block_efi :: "one_block efi_state" where
  "block_efi = \<lparr>mem = \<lambda>_. 0, firmware = (Map.empty, False), LibInitialized = False, LibFwInstance = False, LibImageHandle = 0,
     ST = 0, PoolAllocationType = 4, UnicodeInterface = None, EFIDebug = 0, L_EFIDebug = 0x100, VarLanguage = 0x200,
     VarBootOrder = 0x300, EfiGlobalVariable = 0x400\<rparr>"

lemma used_pool_empty [simp]: "used_pool Map.empty = {}"
  by (simp add: used_pool_def)

lemma block_efi_reads: "get_variable_loop block_uefi n g EFI_BUFFER_TOO_SMALL 0 100 block_efi
   = Some (0x1000, 200, block_efi\<lparr>mem := store_bytes 0x1000 (replicate 200 7) (\<lambda>_. 0), firmware := ([0x1000 \<mapsto> 200], False)\<rparr>)"
  by (subst get_variable_loop.simps, simp add: GrowBuffer_def AllocatePool_def block_uefi_def block_alloc_def block_efi_def Let_def,
      subst get_variable_loop.simps, simp add: GrowBuffer_def AllocatePool_def FreePool_def block_alloc_def Let_def map_upd_del,
      subst get_variable_loop.simps, simp add: GrowBuffer_def)

theorem LibGetVariableAndSize_reads_witness:
  "\<exists>s'. LibGetVariableAndSize block_uefi 0x200 0x400 block_efi = Some (0x1000, 200, s')
    \<and> \<not> snd (firmware s') \<and> mem s' (0x1000 + of_nat 150) = 7"
proof -
  let ?s = "block_efi\<lparr>mem := store_bytes 0x1000 (replicate 200 7) (\<lambda>_. 0), firmware := ([0x1000 \<mapsto> 200], False)\<rparr>"
  have r: "LibGetVariableAndSize block_uefi 0x200 0x400 block_efi = Some (0x1000, 200, ?s)"
    unfolding LibGetVariableAndSize_def get_variable_first block_efi_reads by simp
  have "\<forall>k < length (replicate 200 (7 :: u8)). mem ?s (0x1000 + of_nat k) = replicate 200 7 ! k"
    using LibGetVariableAndSize_reads [OF block_uefi_laws, of block_efi "0x200" "0x400"] r
    by (auto simp: block_efi_def split: if_splits)
  moreover have "150 < length (replicate 200 (7 :: u8))" by simp
  ultimately have "mem ?s (0x1000 + of_nat 150) = replicate 200 7 ! 150" by blast
  then show ?thesis using r by auto
qed

end
