(* ===== verification/Storage.thy ===== *)
theory Storage
  imports Ahci
begin

text \<open>
  The file store, \<open>kernel/src/system/storage/storage.cpp\<close>: a map of the used sectors, one byte each,
  kept in front of the disk, and a directory sector behind it. The structures are memory, laid out
  as \<open>storage.h\<close> says. An uninitialised pointer is an argument, as is the address of a string
  literal whose address the code stores. Running off the end of a function that returns a value is
  \<open>None\<close>.
\<close>

record storage = ahci +
  Sectors :: u64
  SectorCount :: u32
  MountedDrivePort :: u8

text \<open>\<open>DirectoryTableEntry\<close> and \<open>FileMetaData\<close>.\<close>

definition sizeof_DirectoryTableEntry :: u64 where
  "sizeof_DirectoryTableEntry = 520"

definition block_addr :: "u64 \<Rightarrow> nat \<Rightarrow> u64" where
  "block_addr e i = e + 8 + of_nat (4 * i)"

definition Blocks :: "memory \<Rightarrow> u64 \<Rightarrow> nat \<Rightarrow> u32" where
  "Blocks m e i = read32 m (block_addr e i)"

definition Name :: "memory \<Rightarrow> u64 \<Rightarrow> u64" where
  "Name m f = read64 m f"

definition FirstNode :: "memory \<Rightarrow> u64 \<Rightarrow> u32" where
  "FirstNode m f = read32 m (f + 8)"

text \<open>\<open>Read\<close> and \<open>Write\<close> on the mounted drive; the callers pass the sector shifted by 32 as high
  word, which is zero.\<close>

definition read_sectors :: "u32 \<Rightarrow> u32 \<Rightarrow> u64 \<Rightarrow> 'a storage_scheme \<Rightarrow> (bool \<times> 'a storage_scheme) option" where
  "read_sectors start count buf s =
     Read (uint (MountedDrivePort s)) start (ucast (drop_bit 32 (ucast start :: u64))) count buf s"

definition write_sectors :: "u32 \<Rightarrow> u32 \<Rightarrow> u64 \<Rightarrow> 'a storage_scheme \<Rightarrow> (bool \<times> 'a storage_scheme) option" where
  "write_sectors start count buf s =
     Write (uint (MountedDrivePort s)) start (ucast (drop_bit 32 (ucast start :: u64))) count buf s"

definition InitializeDrive :: "'a storage_scheme \<Rightarrow> 'a storage_scheme option" where
  "InitializeDrive s = do {
     (sz, s) \<leftarrow> ReadDiskSize (uint (MountedDrivePort s)) s;
     let s = s\<lparr>SectorCount := ucast sz\<rparr>;
     (p, s) \<leftarrow> kmalloc (ucast (SectorCount s)) s;
     let s = s\<lparr>Sectors := p\<rparr>;
     m \<leftarrow> memset (mem s) (Sectors s) 0 (ucast (SectorCount s));
     (ok, s) \<leftarrow> read_sectors 0 (SectorCount s div 512) (Sectors s) (s\<lparr>mem := m\<rparr>);
     Some (if ok then PrintNL_lit ''Initialized drive'' s else s)
   }"

text \<open>The search for a free sector: the entry it finds is stored back as free.\<close>

function free_sector :: "u32 \<Rightarrow> 'a storage_scheme \<Rightarrow> (u32 \<times> 'a storage_scheme) option" where
  "free_sector i s =
     (if i < SectorCount s then
        if mem s (Sectors s + ucast i) = 0
        then Some (i, s\<lparr>mem := (mem s)(Sectors s + ucast i := 0)\<rparr>)
        else free_sector (i + 1) s
      else None)"
  by pat_completeness auto
termination
proof (relation "measure (\<lambda>(i, s). unat (SectorCount s) - unat i)")
  fix i :: u32 and s :: "'a storage_scheme"
  assume lt: "i < SectorCount s"
  then have "unat (i + 1) = Suc (unat i)" by (rule unat_plus_one_less)
  with lt show "((i + 1, s), i, s) \<in> measure (\<lambda>(i, s). unat (SectorCount s) - unat i)"
    by (simp add: word_less_nat_alt diff_less_mono2)
qed simp

declare free_sector.simps [simp del]

definition GetFreeSector :: "'a storage_scheme \<Rightarrow> (u32 \<times> 'a storage_scheme) option" where
  "GetFreeSector s = free_sector (SectorCount s div 512 + 2) s"

text \<open>\<open>FormatDrive\<close> writes through \<open>systemFile\<close>, which it never initialises.\<close>

definition FormatDrive :: "u64 \<Rightarrow> u64 \<Rightarrow> 'a storage_scheme \<Rightarrow> (u8 \<times> 'a storage_scheme) option" where
  "FormatDrive systemFile system_lit s = do {
     m \<leftarrow> memset (mem s) (Sectors s) 0 (ucast (SectorCount s));
     (ok, s) \<leftarrow> write_sectors 0 (SectorCount s div 512) (Sectors s) (s\<lparr>mem := m\<rparr>);
     let s = (if ok then PrintNL_lit ''=> Cleared Existing Tree'' s else s);
     (Table, s) \<leftarrow> kmalloc sizeof_DirectoryTableEntry s;
     m \<leftarrow> memset (mem s) (block_addr Table 0) 0 128;
     (block0, s) \<leftarrow> GetFreeSector (s\<lparr>mem := m\<rparr>);
     let s = s\<lparr>mem := write32 (mem s) (block_addr Table 0) block0\<rparr>;
     let s = s\<lparr>mem := write64 (mem s) systemFile system_lit\<rparr>;
     (first, s) \<leftarrow> GetFreeSector s;
     let s = s\<lparr>mem := write32 (mem s) (systemFile + 8) first\<rparr>;
     (last, s) \<leftarrow> GetFreeSector s;
     let s = s\<lparr>mem := write32 (mem s) (systemFile + 12) last\<rparr>;
     (ok, s) \<leftarrow> write_sectors (SectorCount s div 512 + 1) 1 Table s;
     s \<leftarrow> (if ok then do {
            let s = PrintNL_lit ''=> Directory Table Created'' s;
            (ok, s) \<leftarrow> write_sectors (Blocks (mem s) Table 0) 1 systemFile s;
            Some (if ok then PrintNL_lit ''=> System File Created'' s else s)
          } else Some s);
     Some (1, kfree Table s)
   }"

subsection \<open>The operations of \<open>FS\<close>\<close>

text \<open>The loop of \<open>List\<close>: the directory and the files are read into the same buffer.\<close>

fun list_loop :: "nat \<Rightarrow> nat \<Rightarrow> u64 \<Rightarrow> u64 \<Rightarrow> 'a storage_scheme \<Rightarrow> 'a storage_scheme option" where
  "list_loop 0 i l buf s = Some s"
| "list_loop (Suc n) i l buf s =
     (if Blocks (mem s) buf i = 0 then Some s
      else do {
        (ok, s) \<leftarrow> read_sectors (Blocks (mem s) buf i) 1 buf s;
        list_loop n (i + 1) l buf
          (if ok then s\<lparr>mem := write64 (mem s) (l + of_nat (8 * i)) buf\<rparr> else s)
      })"

definition List :: "'a storage_scheme \<Rightarrow> (u64 \<times> 'a storage_scheme) option" where
  "List s = do {
     (l, s) \<leftarrow> kmalloc 512 s;
     (buf, s) \<leftarrow> kmalloc 512 s;
     (ok, s) \<leftarrow> read_sectors (SectorCount s div 512 + 1) 1 buf s;
     if ok then do {
       s \<leftarrow> list_loop 128 0 l buf s;
       Some (l, kfree buf s)
     } else Some (l, s)
   }"

text \<open>\<open>Open\<close> and \<open>WriteBuffer\<close> take the directory's block numbers for pointers and compare the
  addresses of the names.\<close>

fun open_loop :: "nat \<Rightarrow> nat \<Rightarrow> u64 \<Rightarrow> u64 \<Rightarrow> 'a storage_scheme \<Rightarrow> (bool \<times> 'a storage_scheme) option" where
  "open_loop 0 i name buf s = Some (False, s)"
| "open_loop (Suc n) i name buf s =
     (let f = ucast (Blocks (mem s) buf i)
      in if Name (mem s) f = name then do {
           (ok, s) \<leftarrow> read_sectors (FirstNode (mem s) f) 1 buf s;
           if ok then Some (True, s) else open_loop n (i + 1) name buf s
         } else open_loop n (i + 1) name buf s)"

definition Open :: "u64 \<Rightarrow> 'a storage_scheme \<Rightarrow> (u64 \<times> 'a storage_scheme) option" where
  "Open name s = do {
     (buf, s) \<leftarrow> kmalloc 512 s;
     (ok, s) \<leftarrow> read_sectors (SectorCount s div 512 + 1) 1 buf s;
     if ok then do {
       (found, s) \<leftarrow> open_loop 128 0 name buf s;
       Some (if found then (buf, s) else (0, kfree buf s))
     } else Some (0, s)
   }"

fun write_loop :: "nat \<Rightarrow> nat \<Rightarrow> u64 \<Rightarrow> u64 \<Rightarrow> u64 \<Rightarrow> 'a storage_scheme \<Rightarrow> (bool \<times> 'a storage_scheme) option" where
  "write_loop 0 i name wbuf buf s = Some (False, s)"
| "write_loop (Suc n) i name wbuf buf s =
     (let f = ucast (Blocks (mem s) buf i)
      in if Name (mem s) f = name then do {
           let s = PrintNL_lit ''here'' s;
           (ok, s) \<leftarrow> write_sectors (FirstNode (mem s) f) 1 wbuf s;
           if ok then Some (True, s) else write_loop n (i + 1) name wbuf buf s
         } else write_loop n (i + 1) name wbuf buf s)"

definition WriteBuffer :: "u64 \<Rightarrow> u64 \<Rightarrow> 'a storage_scheme \<Rightarrow> (bool \<times> 'a storage_scheme) option" where
  "WriteBuffer name wbuf s = do {
     (buf, s) \<leftarrow> kmalloc 512 s;
     (ok, s) \<leftarrow> read_sectors (SectorCount s div 512 + 1) 1 buf s;
     if ok then do {
       (found, s) \<leftarrow> write_loop 128 0 name wbuf buf s;
       Some (if found then (True, s) else (False, kfree buf s))
     } else Some (False, s)
   }"

subsection \<open>Searching\<close>

lemma free_sector_least:
  "i \<le> k \<Longrightarrow> k < SectorCount s \<Longrightarrow> mem s (Sectors s + ucast k) = 0 \<Longrightarrow>
   \<forall>j. i \<le> j \<longrightarrow> j < k \<longrightarrow> mem s (Sectors s + ucast j) \<noteq> 0 \<Longrightarrow> free_sector i s = Some (k, s)"
proof (induction i s rule: free_sector.induct)
  case (1 i s)
  show ?case
  proof (cases "i = k")
    case True
    have "(mem s)(Sectors s + ucast k := 0) = mem s" using "1.prems"(3) by auto
    then show ?thesis using True "1.prems" by (subst free_sector.simps) simp
  next
    case False
    then have lt: "i < k" using "1.prems"(1) by simp
    then have i: "i < SectorCount s" using "1.prems"(2) by simp
    have nz: "mem s (Sectors s + ucast i) \<noteq> 0" using "1.prems"(4) lt by simp
    have le: "i + 1 \<le> k" using lt by (rule plus_one_le)
    have "i \<le> i + 1" using unat_plus_one_less [OF i] by (simp add: word_le_nat_alt)
    then have "\<forall>j. i + 1 \<le> j \<longrightarrow> j < k \<longrightarrow> mem s (Sectors s + ucast j) \<noteq> 0"
      using "1.prems"(4) by (meson order_trans)
    then have "free_sector (i + 1) s = Some (k, s)" by (intro "1.IH" i nz le "1.prems"(2,3))
    then show ?thesis using i nz by (subst free_sector.simps) simp
  qed
qed

lemma free_sector_none:
  "\<forall>j. i \<le> j \<longrightarrow> j < SectorCount s \<longrightarrow> mem s (Sectors s + ucast j) \<noteq> 0 \<Longrightarrow> free_sector i s = None"
proof (induction i s rule: free_sector.induct)
  case (1 i s)
  show ?case
  proof (cases "i < SectorCount s")
    case True
    have "i \<le> i + 1" using unat_plus_one_less [OF True] by (simp add: word_le_nat_alt)
    then have "\<forall>j. i + 1 \<le> j \<longrightarrow> j < SectorCount s \<longrightarrow> mem s (Sectors s + ucast j) \<noteq> 0"
      using "1.prems" by (meson order_trans)
    moreover have nz: "mem s (Sectors s + ucast i) \<noteq> 0" using "1.prems" True by simp
    ultimately have "free_sector (i + 1) s = None" using True by (intro "1.IH")
    then show ?thesis using True nz by (subst free_sector.simps) simp
  qed (subst free_sector.simps, simp)
qed

subsection \<open>Properties\<close>

text \<open>The search returns the first free sector behind the sector map and the directory, but leaves
  the whole state as it was: the next call returns the same sector again, so the directory, the file
  data and the end of the file that \<open>FormatDrive\<close> lays out share one sector.\<close>

theorem GetFreeSector_repeats:
  assumes "SectorCount s div 512 + 2 \<le> k" "k < SectorCount s" "mem s (Sectors s + ucast k) = 0"
    and "\<forall>j. SectorCount s div 512 + 2 \<le> j \<longrightarrow> j < k \<longrightarrow> mem s (Sectors s + ucast j) \<noteq> 0"
  shows "GetFreeSector s = Some (k, s)"
  unfolding GetFreeSector_def by (rule free_sector_least [OF assms])


text \<open>A disk of 2048 sectors whose map is at 0x20000, with sector 6 in use.\<close>

definition small_store :: storage where
  "small_store = ahci.extend ((small_disk 0)\<lparr>mem := (\<lambda>a. if a = 0x20006 then 1 else 0)\<rparr>) (storage.fields 0x20000 2048 1)"

lemma small_store_fields:
  "mem small_store = (\<lambda>a. if a = 0x20006 then 1 else 0)" "Sectors small_store = 0x20000" "SectorCount small_store = 2048"
  by (simp_all add: small_store_def small_disk_def small_io_def small_screen_def gfx.defs io.defs ahci.defs storage.defs)

theorem GetFreeSector_repeats_witness:
  "GetFreeSector small_store = Some (7, small_store)"
proof (rule GetFreeSector_repeats)
  show "\<forall>j. SectorCount small_store div 512 + 2 \<le> j \<longrightarrow> j < 7 \<longrightarrow> mem small_store (Sectors small_store + ucast j) \<noteq> 0"
  proof (intro allI impI)
    fix j assume "SectorCount small_store div 512 + 2 \<le> j" "j < 7"
    then have "j = 6" by (simp add: small_store_fields word_nat)
    then show "mem small_store (Sectors small_store + ucast j) \<noteq> 0" by (simp add: small_store_fields)
  qed
qed (simp_all add: small_store_fields)

end
