(* ===== verification/Timer.thy ===== *)
theory Timer
  imports Storage
begin

text \<open>
  The tick counter, \<open>kernel/src/timer/pit.cpp\<close>. \<open>sleep\<close> polls the counter until it has reached a
  target; between two polls the timer interrupt may have run \<open>HandleTimer\<close>. When it does is not up to
  the code, so it is an argument: \<open>irq k\<close> says whether a tick came before the poll \<open>k\<close>.
\<close>

record timer = storage +
  ticks :: u64

definition HandleTimer :: "'a timer_scheme \<Rightarrow> 'a timer_scheme" where
  "HandleTimer s = s\<lparr>ticks := ticks s + 1\<rparr>"

partial_function (option) sleep_loop :: "u16 \<Rightarrow> (nat \<Rightarrow> bool) \<Rightarrow> nat \<Rightarrow> 'a timer_scheme \<Rightarrow> 'a timer_scheme option" where
  "sleep_loop target irq k s =
     (let s = (if irq k then HandleTimer s else s)
      in if ticks s < ucast target then sleep_loop target irq (k + 1) s else Some s)"

definition sleep :: "u16 \<Rightarrow> (nat \<Rightarrow> bool) \<Rightarrow> 'a timer_scheme \<Rightarrow> 'a timer_scheme option" where
  "sleep interval irq s = (let target = ucast (ticks s + ucast interval) in sleep_loop target irq 0 s)"

subsection \<open>Waiting for the target\<close>

lemma sleep_loop_late:
  "unat (ticks s) = t \<Longrightarrow> t < unat target \<Longrightarrow> (\<And>n. \<exists>k \<ge> n. irq k) \<Longrightarrow> \<exists>s'. sleep_loop target irq n s = Some s' \<and> unat (ticks s') = unat target"
proof (induction "unat target - t" arbitrary: t n s)
  case 0
  then show ?case by simp
next
  case (Suc d)
  note outer = Suc
  have ut: "unat (ucast target :: u64) = unat target"
  proof -
    have "unat (of_nat (unat target) :: u64) = unat target"
      by (rule unat_of_nat_lt) (rule less_trans [OF unat_lt_u16], simp)
    then show ?thesis by simp
  qed
  obtain k where k: "k \<ge> n" "irq k" using Suc.prems(3) by blast
  have "\<exists>s'. sleep_loop target irq n s = Some s' \<and> unat (ticks s') = unat target" if "j \<ge> n" "irq j" for j
    using that
  proof (induction "j - n" arbitrary: n rule: less_induct)
    case less
    show ?case
    proof (cases "irq n")
      case True
      let ?s = "HandleTimer s"
      have "t + 1 < 65536" using outer(4) unat_lt_u16 [of target] by linarith
      then have t: "unat (ticks ?s) = Suc t" unfolding HandleTimer_def
        using outer(3) by (simp add: unat_add_no_wrap)
      show ?thesis
      proof (cases "Suc t < unat target")
        case True
        have "\<exists>s'. sleep_loop target irq (n + 1) ?s = Some s' \<and> unat (ticks s') = unat target"
          by (rule outer(1) [OF _ t True outer(5)]) (use outer(2) in simp)
        then show ?thesis using \<open>irq n\<close> True t ut
          by (subst sleep_loop.simps) (simp add: word_less_nat_alt)
      next
        case False
        then show ?thesis using \<open>irq n\<close> t ut outer(4)
          by (subst sleep_loop.simps) (simp add: word_less_nat_alt)
      qed
    next
      case False
      then have "n < j" using less.prems by (metis le_neq_implies_less)
      then have "\<exists>s'. sleep_loop target irq (n + 1) s = Some s' \<and> unat (ticks s') = unat target"
        using less.prems by (intro less.hyps) simp_all
      then show ?thesis using False outer(3,4) ut
        by (subst sleep_loop.simps) (simp add: word_less_nat_alt)
    qed
  qed
  then show ?case using k by blast
qed


subsection \<open>Properties\<close>

text \<open>C40: As long as the target fits into 16 bits and ticks keep coming, \<open>sleep\<close> returns, and the
  counter is then exactly the given number of ticks further.\<close>

theorem sleep_waits:
  assumes "unat (ticks s) + unat interval < 2 ^ 16" "0 < interval" "\<And>n. \<exists>k \<ge> n. irq k"
  shows "\<exists>s'. sleep interval irq s = Some s' \<and> unat (ticks s') = unat (ticks s) + unat interval"
proof -
  have i: "unat (ucast interval :: u64) = unat interval"
  proof -
    have "unat (of_nat (unat interval) :: u64) = unat interval"
      by (rule unat_of_nat_lt) (rule less_trans [OF unat_lt_u16], simp)
    then show ?thesis by simp
  qed
  have u: "unat (ticks s + ucast interval) = unat (ticks s) + unat interval"
    using assms(1) i by (simp add: unat_add_no_wrap)
  have t: "unat (ucast (ticks s + ucast interval) :: u16) = unat (ticks s) + unat interval"
    using assms(1) u by (simp add: unsigned_ucast_eq take_bit_eq_mod)
  have "unat (ticks s) < unat (ucast (ticks s + ucast interval) :: u16)"
    using assms(2) t by (simp add: word_less_nat_alt)
  from sleep_loop_late [OF refl this assms(3), where n = 0] show ?thesis
    by (simp add: sleep_def Let_def t)
qed

text \<open>The target is cut to 16 bits: once the counter has reached 65535, and that is for good,
  \<open>sleep\<close> returns at its first poll whatever the interval.\<close>

theorem sleep_returns_at_once:
  assumes "65535 \<le> unat (ticks s)"
  shows "sleep interval (\<lambda>_. False) s = Some s"
proof -
  have "\<not> ticks s < ucast t" for t :: u16
  proof -
    have "unat (of_nat (unat t) :: u64) = unat t"
      by (rule unat_of_nat_lt) (rule less_trans [OF unat_lt_u16], simp)
    then have "unat (ucast t :: u64) = unat t" by simp
    moreover have "unat t \<le> 65535" using unat_lt_u16 [of t] by linarith
    ultimately show ?thesis using assms unfolding word_less_nat_alt by linarith
  qed
  then show ?thesis unfolding sleep_def Let_def by (subst sleep_loop.simps) simp
qed

definition small_timer :: timer where
  "small_timer = storage.extend small_store (timer.fields 7)"

lemma small_timer_ticks: "ticks small_timer = 7"
  by (simp add: small_timer_def small_store_def small_disk_def small_io_def small_screen_def gfx.defs io.defs ahci.defs storage.defs timer.defs)

theorem sleep_waits_witness: "\<exists>s'. sleep 5 (\<lambda>k. odd k) small_timer = Some s' \<and> unat (ticks s') = 12"
proof -
  have "\<exists>k \<ge> n. odd k" for n :: nat by (rule exI [of _ "2 * n + 1"]) simp
  from sleep_waits [of small_timer 5, OF _ _ this] show ?thesis by (simp add: small_timer_ticks)
qed

theorem sleep_returns_at_once_witness:
  "sleep 1000 (\<lambda>_. False) (small_timer\<lparr>ticks := 0x20000\<rparr>) = Some (small_timer\<lparr>ticks := 0x20000\<rparr>)"
  by (rule sleep_returns_at_once) simp

end
