(* ===== verification/Acpi.thy ===== *)
theory Acpi
  imports Timer
begin

text \<open>
  The search for a firmware table, \<open>kernel/src/system/acpi/acpi.cpp\<close>. The descriptors are packed
  structs in memory; the accessors below have their offsets.
\<close>

definition rsdp_Revision :: "memory \<Rightarrow> u64 \<Rightarrow> u8" where
  "rsdp_Revision m rsdp = m (rsdp + 15)"

definition rsdp_XsdtAddress :: "memory \<Rightarrow> u64 \<Rightarrow> u64" where
  "rsdp_XsdtAddress m rsdp = read64 m (rsdp + 24)"

definition sdt_Length :: "memory \<Rightarrow> u64 \<Rightarrow> u32" where
  "sdt_Length m h = read32 m (h + 4)"

definition sizeof_ACPISDTHeader :: u64 where
  "sizeof_ACPISDTHeader = 36"

definition doChecksum :: "memory \<Rightarrow> u64 \<Rightarrow> bool" where
  "doChecksum m tableHeader =
     (for_u32 0 (sdt_Length m tableHeader) (\<lambda>i sum. sum + m (tableHeader + ucast i)) (0 :: u8) = 0)"

text \<open>The comparison of a signature, with the rounds left, and the loop over the entries. The offset
  \<open>t * 8\<close> is a product of type \<open>int\<close>, which overflows at \<open>2 ^ 28\<close> (a table of 2 GB): no result from
  there on.\<close>

fun sig_loop :: "nat \<Rightarrow> nat \<Rightarrow> memory \<Rightarrow> u64 \<Rightarrow> u8 list \<Rightarrow> bool" where
  "sig_loop 0 i m h signature = False"
| "sig_loop (Suc n) i m h signature =
     (if m (h + of_nat i) \<noteq> signature ! i then False
      else if i = 3 then True
      else sig_loop n (i + 1) m h signature)"

fun entry_loop :: "nat \<Rightarrow> nat \<Rightarrow> memory \<Rightarrow> u64 \<Rightarrow> u8 list \<Rightarrow> u64 option" where
  "entry_loop 0 t m xsdt signature = Some 0"
| "entry_loop (Suc n) t m xsdt signature =
     (if 2147483647 < t * 8 then None
      else
        let newHeader = read64 m (xsdt + sizeof_ACPISDTHeader + of_nat (t * 8))
        in if sig_loop 4 0 m newHeader signature then Some newHeader
           else entry_loop n (t + 1) m xsdt signature)"

definition FindTable :: "memory \<Rightarrow> u64 \<Rightarrow> u8 list \<Rightarrow> u64 option" where
  "FindTable m rsdp signature =
     (if rsdp_Revision m rsdp = 2 \<and> rsdp_XsdtAddress m rsdp \<noteq> 0 then
        let xsdt = rsdp_XsdtAddress m rsdp
        in if (ucast (sdt_Length m xsdt) :: u64) < sizeof_ACPISDTHeader then Some 0
           else if \<not> doChecksum m xsdt then Some 0
           else
             let total = unat ((ucast (sdt_Length m xsdt) - sizeof_ACPISDTHeader) div 8)
             in entry_loop total 0 m xsdt signature
      else Some 0)"

subsection \<open>The loops\<close>

lemma for_u32_fold: "for_u32 i n f s = fold (\<lambda>k. f (of_nat k)) [unat i..<unat n] s"
proof (induction i n f s rule: for_u32.induct)
  case (1 i n f s)
  show ?case
  proof (cases "i < n")
    case True
    then have lt: "unat i < unat n" by (simp add: word_less_nat_alt)
    have "for_u32 i n f s = fold (\<lambda>k. f (of_nat k)) [Suc (unat i)..<unat n] (f i s)"
      using "1.IH" [OF True] True unat_plus_one_less [OF True] by (simp add: for_u32_step)
    then show ?thesis using lt by (simp add: upt_conv_Cons)
  next
    case False
    then show ?thesis by (simp add: word_less_nat_alt)
  qed
qed

lemma fold_sum: "fold (\<lambda>k sum. sum + f k) ks (a :: u8) = a + sum_list (map f ks)"
  by (induction ks arbitrary: a) (simp_all add: add.assoc)

text \<open>The bytes of a table add up to zero.\<close>

definition table_bytes :: "memory \<Rightarrow> u64 \<Rightarrow> u8 list" where
  "table_bytes m h = map (\<lambda>k. m (h + of_nat k)) [0..<unat (sdt_Length m h)]"

lemma doChecksum_sum: "doChecksum m h \<longleftrightarrow> sum_list (table_bytes m h) = 0"
proof -
  let ?n = "unat (sdt_Length m h)"
  have "m (h + ucast (of_nat k :: u32)) = m (h + of_nat k)" if "k < ?n" for k
  proof -
    have "k < 2 ^ 32" unfolding u32_limit by (rule less_trans [OF that unat_lt_u32])
    then have "unat (of_nat k :: u32) = k" by (intro unat_of_nat_lt) simp
    moreover have "(of_nat (unat (of_nat k :: u32)) :: u64) = ucast (of_nat k :: u32)" by (rule of_nat_unat)
    ultimately show ?thesis by simp
  qed
  then have "map (\<lambda>k. m (h + ucast (of_nat k :: u32))) [0..<?n] = table_bytes m h"
    unfolding table_bytes_def by (intro map_cong) simp_all
  then show ?thesis
    by (simp add: doChecksum_def for_u32_fold fold_sum [where f = "\<lambda>k. m (h + ucast (of_nat k :: u32))"])
qed

definition signed_by :: "memory \<Rightarrow> u64 \<Rightarrow> u8 list \<Rightarrow> bool" where
  "signed_by m h signature \<longleftrightarrow> map (\<lambda>i. m (h + of_nat i)) [0..<4] = signature"

lemma sig_loop_signed: "length signature = 4 \<Longrightarrow> sig_loop 4 0 m h signature \<longleftrightarrow> signed_by m h signature"
  by (auto simp: signed_by_def numeral_eq_Suc upt_rec nth_Cons length_Suc_conv)

definition table_entries :: "memory \<Rightarrow> u64 \<Rightarrow> u64 list" where
  "table_entries m xsdt = map (\<lambda>t. read64 m (xsdt + 36 + of_nat (t * 8))) [0..<(unat (sdt_Length m xsdt) - 36) div 8]"

lemma entry_loop_find:
  "length signature = 4 \<Longrightarrow> t \<le> 2 ^ 28 \<Longrightarrow> entry_loop n t m xsdt signature =
    (case find (\<lambda>h. signed_by m h signature)
        (map (\<lambda>t. read64 m (xsdt + 36 + of_nat (t * 8))) [t..<min (t + n) (2 ^ 28)]) of
       Some h \<Rightarrow> Some h | None \<Rightarrow> if t + n \<le> 2 ^ 28 then Some 0 else None)"
proof (induction n arbitrary: t)
  case (Suc n)
  show ?case
  proof (cases "t = 2 ^ 28")
    case False
    then have t: "t < 2 ^ 28" using Suc.prems by simp
    have "t < min (t + Suc n) (2 ^ 28)" using t by simp
    then have r: "[t..<min (t + Suc n) (2 ^ 28)] = t # [Suc t..<min (Suc t + n) (2 ^ 28)]"
      using upt_conv_Cons [of t "min (t + Suc n) (2 ^ 28)"] by (simp only: add_Suc_right add_Suc)
    have IH: "entry_loop n (t + 1) m xsdt signature =
        (case find (\<lambda>h. signed_by m h signature)
            (map (\<lambda>t. read64 m (xsdt + 36 + of_nat (t * 8))) [Suc t..<min (Suc t + n) (2 ^ 28)]) of
           Some h \<Rightarrow> Some h | None \<Rightarrow> if t + Suc n \<le> 2 ^ 28 then Some 0 else None)"
      using Suc t by (simp only: Suc_eq_plus1 [symmetric] Suc_le_eq add_Suc_right add_Suc)
    show ?thesis
      unfolding r entry_loop.simps IH using t Suc.prems(1)
      by (simp add: Let_def sig_loop_signed sizeof_ACPISDTHeader_def)
  qed simp
qed simp

subsection \<open>Properties\<close>

text \<open>C21: The search returns the first entry of the extended table with the given signature, and null
  when there is none, when the root pointer is not of revision 2 or names no extended table, when that
  table is shorter than its header, or when its bytes do not add up to zero. Only the first \<open>2 ^ 28\<close>
  entries can be reached: a longer table without the signature among them overflows the loop's
  arithmetic, and the search has no result.\<close>

theorem FindTable_first:
  assumes "length signature = 4"
  shows "FindTable m rsdp signature =
    (let xsdt = rsdp_XsdtAddress m rsdp
     in if rsdp_Revision m rsdp = 2 \<and> xsdt \<noteq> 0 \<and> 36 \<le> unat (sdt_Length m xsdt) \<and> sum_list (table_bytes m xsdt) = 0
        then case find (\<lambda>h. signed_by m h signature) (take (2 ^ 28) (table_entries m xsdt)) of
            Some h \<Rightarrow> Some h
          | None \<Rightarrow> if length (table_entries m xsdt) \<le> 2 ^ 28 then Some 0 else None
        else Some 0)"
proof -
  let ?x = "rsdp_XsdtAddress m rsdp"
  have u: "unat (ucast (sdt_Length m ?x) :: u64) = unat (sdt_Length m ?x)"
  proof -
    have "unat (of_nat (unat (sdt_Length m ?x)) :: u64) = unat (sdt_Length m ?x)"
      by (rule unat_of_nat_lt) (rule less_trans [OF unat_lt_u32], simp)
    then show ?thesis by simp
  qed
  have lt: "(ucast (sdt_Length m ?x) :: u64) < sizeof_ACPISDTHeader \<longleftrightarrow> unat (sdt_Length m ?x) < 36"
    unfolding word_less_nat_alt u sizeof_ACPISDTHeader_def by simp
  show ?thesis
  proof (cases "36 \<le> unat (sdt_Length m ?x)")
    case True
    then have "(36 :: u64) \<le> ucast (sdt_Length m ?x)" unfolding word_le_nat_alt u by simp
    then have "unat ((ucast (sdt_Length m ?x) - sizeof_ACPISDTHeader) div 8) = (unat (sdt_Length m ?x) - 36) div 8"
      unfolding sizeof_ACPISDTHeader_def unat_div by (subst unat_sub_le) (simp_all only: u, simp_all)
    moreover have "[0..<min (0 + n) (2 ^ 28)] = take (2 ^ 28) [0..<n]" for n
      by (cases "n \<le> 2 ^ 28") (simp_all add: take_upt)
    ultimately show ?thesis using True lt assms
      by (simp add: FindTable_def Let_def doChecksum_sum entry_loop_find table_entries_def take_map)
  next
    case False
    then show ?thesis using lt by (simp add: FindTable_def Let_def)
  qed
qed


text \<open>A root pointer at 0x100 and an extended table at 0x200 with one entry, the table MCFG at 0x300.\<close>

definition small_acpi :: memory where
  "small_acpi = (\<lambda>_. 0)(0x10F := 2, 0x119 := 2, 0x204 := 44, 0x209 := 209, 0x225 := 3,
     0x300 := 77, 0x301 := 67, 0x302 := 70, 0x303 := 71)"

lemma small_acpi_fields:
  "rsdp_Revision small_acpi 0x100 = 2" "rsdp_XsdtAddress small_acpi 0x100 = 0x200" "sdt_Length small_acpi 0x200 = 44"
  by (simp_all add: small_acpi_def rsdp_Revision_def rsdp_XsdtAddress_def sdt_Length_def load_eval)

lemma small_acpi_table:
  "sum_list (table_bytes small_acpi 0x200) = 0" "table_entries small_acpi 0x200 = [0x300]"
  "signed_by small_acpi 0x300 [77, 67, 70, 71]"
proof -
  have u: "[0..<44] = [0, 1, 2, 3, 4, 5, 6, 7, 8, 9, 10, 11, 12, 13, 14, 15, 16, 17, 18, 19, 20, 21, 22, 23, 24, 25,
      26, 27, 28, 29, 30, 31, 32, 33, 34, 35, 36, 37, 38, 39, 40, 41, 42, 43 :: nat]" by (simp add: upt_rec)
  show "sum_list (table_bytes small_acpi 0x200) = 0"
    unfolding table_bytes_def small_acpi_fields by (simp add: u small_acpi_def)
  show "table_entries small_acpi 0x200 = [0x300]"
    unfolding table_entries_def small_acpi_fields by (simp add: small_acpi_def load_eval)
  show "signed_by small_acpi 0x300 [77, 67, 70, 71]"
  proof -
    have "[0..<4] = [0, 1, 2, 3 :: nat]" by (simp add: upt_rec)
    then show ?thesis by (simp add: signed_by_def small_acpi_def)
  qed
qed

theorem FindTable_first_witness: "FindTable small_acpi 0x100 [77, 67, 70, 71] = Some 0x300"
  using FindTable_first [of "[77, 67, 70, 71]" small_acpi "0x100"]
  by (simp add: small_acpi_fields small_acpi_table)

end
