(* ===== verification/Pci.thy ===== *)
theory Pci
  imports Acpi
begin

text \<open>
  The PCI bus, \<open>kernel/src/system/pci/pci.cpp\<close>: configuration space behind the two ports 0xCF8 and
  0xCFC, and the enumeration that looks for an AHCI controller.
\<close>

definition pci_address :: "u32 \<Rightarrow> u32 \<Rightarrow> u32" where
  "pci_address fid reg = 0x80000000 OR fid OR (reg AND 0xfc)"

definition PciRead8 :: "u32 \<Rightarrow> u32 \<Rightarrow> 'a io_scheme \<Rightarrow> u8 \<times> 'a io_scheme" where
  "PciRead8 fid reg s = inb (0xcfc + ucast (reg AND 0x03)) (outl 0xcf8 (pci_address fid reg) s)"

definition PciRead16 :: "u32 \<Rightarrow> u32 \<Rightarrow> 'a io_scheme \<Rightarrow> u16 \<times> 'a io_scheme" where
  "PciRead16 fid reg s = inw (0xcfc + ucast (reg AND 0x02)) (outl 0xcf8 (pci_address fid reg) s)"

definition PciRead32 :: "u32 \<Rightarrow> u32 \<Rightarrow> 'a io_scheme \<Rightarrow> u32 \<times> 'a io_scheme" where
  "PciRead32 fid reg s = inl 0xcfc (outl 0xcf8 (pci_address fid reg) s)"

definition PciWrite8 :: "u32 \<Rightarrow> u32 \<Rightarrow> u8 \<Rightarrow> 'a io_scheme \<Rightarrow> 'a io_scheme" where
  "PciWrite8 fid reg data s = outb (0xcfc + ucast (reg AND 0x03)) data (outl 0xcf8 (pci_address fid reg) s)"

definition PciWrite16 :: "u32 \<Rightarrow> u32 \<Rightarrow> u16 \<Rightarrow> 'a io_scheme \<Rightarrow> 'a io_scheme" where
  "PciWrite16 fid reg data s = outw (0xcfc + ucast (reg AND 0x02)) data (outl 0xcf8 (pci_address fid reg) s)"

definition PciWrite32 :: "u32 \<Rightarrow> u32 \<Rightarrow> u32 \<Rightarrow> 'a io_scheme \<Rightarrow> 'a io_scheme" where
  "PciWrite32 fid reg data s = outl 0xcfc data (outl 0xcf8 (pci_address fid reg) s)"

definition PCI_MAKE_ID :: "u32 \<Rightarrow> u32 \<Rightarrow> u32 \<Rightarrow> u32" where
  "PCI_MAKE_ID bus dev func = push_bit 16 bus OR push_bit 11 dev OR push_bit 8 func"

text \<open>The configuration registers the code reads.\<close>

datatype pci_reg = VENDOR_ID | DEVICE_ID | PROG_INTF | SUBCLASS | CLASS_CODE | HEADER_TYPE | BAR5

primrec pci_reg_offset :: "pci_reg \<Rightarrow> u32" where
  "pci_reg_offset VENDOR_ID = 0x00"
| "pci_reg_offset DEVICE_ID = 0x02"
| "pci_reg_offset PROG_INTF = 0x09"
| "pci_reg_offset SUBCLASS = 0x0a"
| "pci_reg_offset CLASS_CODE = 0x0b"
| "pci_reg_offset HEADER_TYPE = 0x0e"
| "pci_reg_offset BAR5 = 0x24"

definition PciVisit :: "u32 \<Rightarrow> u32 \<Rightarrow> u32 \<Rightarrow> 'a ahci_scheme \<Rightarrow> 'a ahci_scheme option" where
  "PciVisit bus dev func s =
     (let fid = PCI_MAKE_ID bus dev func;
          (vendorId, s) = PciRead16 fid (pci_reg_offset VENDOR_ID) s
      in if vendorId = 0xffff then Some s
         else
           let (deviceId, s) = PciRead16 fid (pci_reg_offset DEVICE_ID) s;
               (progIntf, s) = PciRead8 fid (pci_reg_offset PROG_INTF) s;
               (subclass, s) = PciRead8 fid (pci_reg_offset SUBCLASS) s;
               (classCode, s) = PciRead8 fid (pci_reg_offset CLASS_CODE) s;
               (bar5, s) = PciRead32 fid (pci_reg_offset BAR5) s
           in if classCode = 0x01 \<and> subclass = 0x6 \<and> progIntf = 0x1 then ProbePort (ucast bar5) s
              else Some s)"

text \<open>The three nested loops, with the rounds left.\<close>

fun func_loop :: "nat \<Rightarrow> u32 \<Rightarrow> u32 \<Rightarrow> u32 \<Rightarrow> 'a ahci_scheme \<Rightarrow> 'a ahci_scheme option" where
  "func_loop 0 func bus dev s = Some s"
| "func_loop (Suc n) func bus dev s = do { s \<leftarrow> PciVisit bus dev func s; func_loop n (func + 1) bus dev s }"

fun dev_loop :: "nat \<Rightarrow> u32 \<Rightarrow> u32 \<Rightarrow> 'a ahci_scheme \<Rightarrow> 'a ahci_scheme option" where
  "dev_loop 0 dev bus s = Some s"
| "dev_loop (Suc n) dev bus s = do {
     let baseId = PCI_MAKE_ID bus dev 0;
     let (headerType, s) = PciRead8 baseId (pci_reg_offset HEADER_TYPE) s;
     let funcCount = (if headerType AND 0x80 \<noteq> 0 then 8 else 1);
     s \<leftarrow> func_loop funcCount 0 bus dev s;
     dev_loop n (dev + 1) bus s
   }"

fun bus_loop :: "nat \<Rightarrow> u32 \<Rightarrow> 'a ahci_scheme \<Rightarrow> 'a ahci_scheme option" where
  "bus_loop 0 bus s = Some s"
| "bus_loop (Suc n) bus s = do { s \<leftarrow> dev_loop 32 0 bus s; bus_loop n (bus + 1) s }"

definition EnumeratePIC :: "'a ahci_scheme \<Rightarrow> 'a ahci_scheme option" where
  "EnumeratePIC s = bus_loop 256 0 (NextLine s)"

subsection \<open>Configuration space\<close>

text \<open>The documented behaviour of configuration mechanism 1: after a write of an address to 0xCF8, a
  read of the data port at 0xCFC plus an offset returns the register's double word from that byte on.\<close>

definition config_space :: "(u32 \<Rightarrow> u32) \<Rightarrow> 'a io_scheme \<Rightarrow> bool" where
  "config_space cfg s \<longleftrightarrow>
     (\<forall>a l k. k < 4 \<longrightarrow> port_in s (OutL 0xcf8 a # l) (0xcfc + of_nat k) = drop_bit (8 * k) (cfg a))"

lemma config_at:
  assumes "config_space cfg s" "unat (r :: u32) < 4"
  shows "port_in s (OutL 0xcf8 a # l) (0xcfc + ucast r) = drop_bit (8 * unat r) (cfg a)"
proof -
  have "(of_nat (unat r) :: u16) = ucast r" by (rule of_nat_unat)
  moreover have "port_in s (OutL 0xcf8 a # l) (0xcfc + of_nat (unat r)) = drop_bit (8 * unat r) (cfg a)"
    using assms unfolding config_space_def by blast
  ultimately show ?thesis by (simp only:)
qed

lemma low_bits_less: "unat (reg AND 0x03 :: u32) < 4" "unat (reg AND 0x02 :: u32) < 4"
proof -
  have "reg AND 3 \<le> 3" "reg AND 2 \<le> 2" by (rule word_and_le1)+
  then show "unat (reg AND 0x03 :: u32) < 4" "unat (reg AND 0x02 :: u32) < 4" by (simp_all add: word_le_nat_alt)
qed

lemma config_read8:
  "config_space cfg s \<Longrightarrow> fst (PciRead8 fid reg s) = ucast (drop_bit (8 * unat (reg AND 0x03)) (cfg (pci_address fid reg)))"
  by (simp add: PciRead8_def inb_def outl_def event_def Let_def config_at low_bits_less)

lemma config_read16:
  "config_space cfg s \<Longrightarrow> fst (PciRead16 fid reg s) = ucast (drop_bit (8 * unat (reg AND 0x02)) (cfg (pci_address fid reg)))"
  by (simp add: PciRead16_def inw_def outl_def event_def Let_def config_at low_bits_less)

lemma config_read32: "config_space cfg s \<Longrightarrow> fst (PciRead32 fid reg s) = cfg (pci_address fid reg)"
  using config_at [of cfg s 0] by (simp add: PciRead32_def inl_def outl_def event_def Let_def)

lemma config_read_log:
  "\<exists>l. snd (PciRead8 fid reg s) = s\<lparr>io_log := l\<rparr>" "\<exists>l. snd (PciRead16 fid reg s) = s\<lparr>io_log := l\<rparr>"
  "\<exists>l. snd (PciRead32 fid reg s) = s\<lparr>io_log := l\<rparr>"
  by (auto simp: PciRead8_def PciRead16_def PciRead32_def io_simps Let_def)

lemma config_space_log [simp]: "config_space cfg (s\<lparr>io_log := l\<rparr>) = config_space cfg s"
  by (simp add: config_space_def)

text \<open>A read as an equation, for states that differ only in the log.\<close>

lemma config_read8_at:
  "config_space cfg s \<Longrightarrow>
   \<exists>l'. PciRead8 fid reg (s\<lparr>io_log := l\<rparr>)
     = (ucast (drop_bit (8 * unat (reg AND 0x03)) (cfg (pci_address fid reg))), s\<lparr>io_log := l'\<rparr>)"
  using config_read8 [of cfg "s\<lparr>io_log := l\<rparr>" fid reg] config_read_log(1) [of fid reg "s\<lparr>io_log := l\<rparr>"]
  by (cases "PciRead8 fid reg (s\<lparr>io_log := l\<rparr>)") auto

lemma config_read16_at:
  "config_space cfg s \<Longrightarrow>
   \<exists>l'. PciRead16 fid reg (s\<lparr>io_log := l\<rparr>)
     = (ucast (drop_bit (8 * unat (reg AND 0x02)) (cfg (pci_address fid reg))), s\<lparr>io_log := l'\<rparr>)"
  using config_read16 [of cfg "s\<lparr>io_log := l\<rparr>" fid reg] config_read_log(2) [of fid reg "s\<lparr>io_log := l\<rparr>"]
  by (cases "PciRead16 fid reg (s\<lparr>io_log := l\<rparr>)") auto

lemma config_read32_at:
  "config_space cfg s \<Longrightarrow>
   \<exists>l'. PciRead32 fid reg (s\<lparr>io_log := l\<rparr>) = (cfg (pci_address fid reg), s\<lparr>io_log := l'\<rparr>)"
  using config_read32 [of cfg "s\<lparr>io_log := l\<rparr>" fid reg] config_read_log(3) [of fid reg "s\<lparr>io_log := l\<rparr>"]
  by (cases "PciRead32 fid reg (s\<lparr>io_log := l\<rparr>)") auto

lemma class_bytes:
  "(ucast (drop_bit 24 c) :: u8) = 0x01 \<and> (ucast (drop_bit 16 c) :: u8) = 0x6 \<and> (ucast (drop_bit 8 c) :: u8) = 0x1
   \<longleftrightarrow> drop_bit 8 (c :: u32) = 0x010601" (is "?l \<longleftrightarrow> ?r")
proof
  have d: "drop_bit 24 c = drop_bit 16 (drop_bit 8 c)" "drop_bit 16 c = drop_bit 8 (drop_bit 8 c)" by simp_all
  show ?l if ?r unfolding d that by simp
  assume l: ?l
  have "take_bit 24 (ucast (drop_bit 8 c) :: u64) = ucast (drop_bit 8 c)"
    by (rule bit_word_eqI) (auto simp: bit_simps dest: bit_imp_le_length)
  moreover have "take_bit 24 (ucast (drop_bit 8 c) :: u64) = 0x010601"
    using three_bytes [of "drop_bit 8 c"] l unfolding d by simp
  ultimately have "(ucast (drop_bit 8 c) :: u64) = 0x010601" by simp
  then have "(ucast (ucast (drop_bit 8 c) :: u64) :: u32) = ucast (0x010601 :: u64)" by simp
  moreover have "(ucast (ucast x :: u64) :: u32) = x" for x :: u32 by (rule bit_word_eqI) (auto simp: bit_simps)
  ultimately show ?r by simp
qed

lemma PciVisit_class:
  fixes bus dev func :: u32
  assumes "config_space cfg s"
  shows "\<exists>l. PciVisit bus dev func s =
    (if (ucast (cfg (pci_address (PCI_MAKE_ID bus dev func) 0)) :: u16) \<noteq> 0xffff
        \<and> drop_bit 8 (cfg (pci_address (PCI_MAKE_ID bus dev func) 8)) = 0x010601
     then ProbePort (ucast (cfg (pci_address (PCI_MAKE_ID bus dev func) 0x24))) (s\<lparr>io_log := l\<rparr>)
     else Some (s\<lparr>io_log := l\<rparr>))"
proof -
  let ?id = "PCI_MAKE_ID bus dev func"
  have a: "pci_address ?id 9 = pci_address ?id 8" "pci_address ?id 10 = pci_address ?id 8" "pci_address ?id 11 = pci_address ?id 8"
    by (simp_all add: pci_address_def)
  obtain l1 where l1: "PciRead16 ?id 0 s = (ucast (cfg (pci_address ?id 0)), s\<lparr>io_log := l1\<rparr>)"
    using config_read16_at [OF assms, of ?id 0 "io_log s"] by force
  obtain x2 l2 where l2: "PciRead16 ?id 2 (s\<lparr>io_log := l1\<rparr>) = (x2, s\<lparr>io_log := l2\<rparr>)"
    using config_read16_at [OF assms, of ?id 2 l1] by blast
  obtain l3 where l3: "PciRead8 ?id 9 (s\<lparr>io_log := l2\<rparr>) = (ucast (drop_bit 8 (cfg (pci_address ?id 8))), s\<lparr>io_log := l3\<rparr>)"
    using config_read8_at [OF assms, of ?id 9 l2] unfolding a by force
  obtain l4 where l4: "PciRead8 ?id 10 (s\<lparr>io_log := l3\<rparr>) = (ucast (drop_bit 16 (cfg (pci_address ?id 8))), s\<lparr>io_log := l4\<rparr>)"
    using config_read8_at [OF assms, of ?id 10 l3] unfolding a by force
  obtain l5 where l5: "PciRead8 ?id 11 (s\<lparr>io_log := l4\<rparr>) = (ucast (drop_bit 24 (cfg (pci_address ?id 8))), s\<lparr>io_log := l5\<rparr>)"
    using config_read8_at [OF assms, of ?id 11 l4] unfolding a by force
  obtain l6 where l6: "PciRead32 ?id 0x24 (s\<lparr>io_log := l5\<rparr>) = (cfg (pci_address ?id 0x24), s\<lparr>io_log := l6\<rparr>)"
    using config_read32_at [OF assms, of ?id "0x24" l5] by blast
  show ?thesis
  proof (cases "(ucast (cfg (pci_address ?id 0)) :: u16) = 0xffff")
    case True
    then have "PciVisit bus dev func s = Some (s\<lparr>io_log := l1\<rparr>)"
      unfolding PciVisit_def Let_def pci_reg_offset.simps l1 prod.case by simp
    with True show ?thesis by (intro exI [of _ l1]) (simp only: simp_thms if_False)
  next
    case False
    then have "PciVisit bus dev func s = (if drop_bit 8 (cfg (pci_address ?id 8)) = 0x010601
        then ProbePort (ucast (cfg (pci_address ?id 0x24))) (s\<lparr>io_log := l6\<rparr>) else Some (s\<lparr>io_log := l6\<rparr>))"
      unfolding PciVisit_def Let_def pci_reg_offset.simps l1 l2 l3 l4 l5 l6 prod.case class_bytes by (simp only: if_False)
    with False show ?thesis by (intro exI [of _ l6]) (simp only: simp_thms)
  qed
qed

subsection \<open>Properties\<close>

text \<open>On a bus with configuration mechanism 1, visiting a function leaves everything but the log of
  accesses alone unless the function is there and its class is that of an AHCI controller; then, and
  only then, the controller is probed at the address in its last base address register.\<close>

theorem PciVisit_finds_ahci:
  fixes bus dev func :: u32
  assumes "config_space cfg s"
  defines "reg \<equiv> \<lambda>r. cfg (pci_address (PCI_MAKE_ID bus dev func) r)"
  shows "\<exists>l. PciVisit bus dev func s =
    (if (ucast (reg 0) :: u16) \<noteq> 0xffff \<and> drop_bit 8 (reg 8) = 0x010601
     then ProbePort (ucast (reg 0x24)) (s\<lparr>io_log := l\<rparr>) else Some (s\<lparr>io_log := l\<rparr>))"
  unfolding reg_def by (rule PciVisit_class [OF assms(1)])

text \<open>A bus whose only function is an AHCI controller with its registers at 0x40000.\<close>

definition small_bus :: "u32 \<Rightarrow> u32" where
  "small_bus a = (if a = 0x80000000 then 0x29228086 else if a = 0x80000008 then 0x01060100
     else if a = 0x80000024 then 0x40000 else 0xffffffff)"

definition small_machine_pci :: ahci where
  "small_machine_pci = (small_disk 0)\<lparr>port_in := (\<lambda>l p.
     case l of OutL q a # _ \<Rightarrow> drop_bit (8 * unat (p - 0xcfc)) (small_bus a) | _ \<Rightarrow> 0)\<rparr>"

lemma small_machine_config: "config_space small_bus small_machine_pci"
  by (simp add: config_space_def small_machine_pci_def unat_of_nat_lt)

theorem PciVisit_finds_ahci_witness:
  "\<exists>l l'. PciVisit 0 0 0 small_machine_pci = ProbePort 0x40000 (small_machine_pci\<lparr>io_log := l\<rparr>)
    \<and> PciVisit 0 1 0 small_machine_pci = Some (small_machine_pci\<lparr>io_log := l'\<rparr>)"
  using PciVisit_finds_ahci [OF small_machine_config, of 0 0 0] PciVisit_finds_ahci [OF small_machine_config, of 0 1 0]
  by (simp add: PCI_MAKE_ID_def pci_address_def small_bus_def)

end
