(* ===== verification/Keyboard.thy ===== *)
theory Keyboard
  imports Pci
begin

text \<open>
  The keyboard's translation table and line buffer, \<open>kernel/src/userinput/keyboard.cpp\<close>. The handler
  of the interrupt itself calls the terminal and stands in \<open>Terminal\<close>. Reading the table behind its
  last entry is \<open>None\<close>.
\<close>

record kbd = timer +
  isEnabled :: bool
  upperCase :: bool
  input :: u64
  inputLen :: u32

definition ASCIITable :: "u8 list" where
  "ASCIITable =
     [0, 0] @ lit ''1234567890-='' @ [0, 0] @ lit ''qwertyuiop[]'' @ [0, 0] @ lit ''asdfghjkl;'' @ [39, 96, 0, 92]
     @ lit ''zxcvbnm,./'' @ [0] @ lit ''*'' @ [0] @ lit '' ''"

definition EnableKeyboard :: "bool \<Rightarrow> 'a kbd_scheme \<Rightarrow> 'a kbd_scheme" where
  "EnableKeyboard willEnable s = s\<lparr>isEnabled := willEnable\<rparr>"

definition ReceiveInput :: "u64 \<Rightarrow> 'a kbd_scheme \<Rightarrow> 'a kbd_scheme" where
  "ReceiveInput c s = s\<lparr>inputLen := 0, input := c\<rparr>"

definition TranslateScancode :: "u8 \<Rightarrow> 'a kbd_scheme \<Rightarrow> 'a kbd_scheme option" where
  "TranslateScancode byte s =
     (if byte > 58 then Some s
      else if unat byte < length ASCIITable then
        let c = ASCIITable ! unat byte;
            c = (if upperCase s then ASCIITable ! unat byte - 32 else c);
            s = PutChar c s
        in Some (s\<lparr>mem := (mem s)(input s := c), input := input s + 1, inputLen := inputLen s + 1\<rparr>)
      else None)"

text \<open>The backspace key.\<close>

definition backspace :: "'a kbd_scheme \<Rightarrow> 'a kbd_scheme" where
  "backspace s =
     (if inputLen s = 0 then s
      else RemoveChar (s\<lparr>input := input s - 1, mem := (mem s)(input s - 1 := 0), inputLen := inputLen s - 1\<rparr>))"

lemma length_ASCIITable: "length ASCIITable = 58"
  by (simp add: ASCIITable_def lit_def)

lemma TranslateScancode_overrun: "TranslateScancode 58 s = None"
  by (simp add: TranslateScancode_def length_ASCIITable)

end
