(* ===== verification/Terminal.thy ===== *)
theory Terminal
  imports Keyboard
begin

text \<open>
  The command line, \<open>kernel/src/processes/terminal/interface.cpp\<close>, and the keyboard handler that
  drives it, \<open>keyboard.cpp\<close> and \<open>keyboardEvents.cpp\<close>. The address of the literal that \<open>fs write\<close>
  stores, that of the name of the system file and the uninitialised pointer of \<open>FormatDrive\<close> are
  fields of the state that nothing changes.
\<close>

record shell = kbd +
  commandPrompt :: u64
  hello_lit :: u64
  system_lit :: u64
  systemFile_junk :: u64

text \<open>\<open>strcmp\<close> with a literal, of the literal's length.\<close>

definition strcmp_lit :: "memory \<Rightarrow> u64 \<Rightarrow> string \<Rightarrow> bool" where
  "strcmp_lit m p cs \<longleftrightarrow> map (\<lambda>k. m (p + of_nat k)) [0..<length cs] = lit cs"

definition set_color :: "u32 \<Rightarrow> 'a gfx_scheme \<Rightarrow> 'a gfx_scheme" where
  "set_color c s = s\<lparr>color := c\<rparr>"

definition TakePrompt :: "'a shell_scheme \<Rightarrow> 'a shell_scheme" where
  "TakePrompt s = ReceiveInput (commandPrompt s) (EnableKeyboard True s)"

definition print_shell :: "'a gfx_scheme \<Rightarrow> 'a gfx_scheme" where
  "print_shell s = set_color 0xffffffff (Print_lit ''Shell:/ > '' (set_color 0xCECE5A s))"

definition InitializeTerminal :: "'a shell_scheme \<Rightarrow> 'a shell_scheme option" where
  "InitializeTerminal s = do {
     (p, s) \<leftarrow> kmalloc 0x100 s;
     let s = NextLine (s\<lparr>commandPrompt := p\<rparr>);
     Some (TakePrompt (print_shell s))
   }"

subsection \<open>The commands\<close>

definition memory_line :: "string \<Rightarrow> u64 \<Rightarrow> 'a gfx_scheme \<Rightarrow> 'a gfx_scheme option" where
  "memory_line title n s = do {
     s \<leftarrow> PrintMemorySize n (set_color 0xffffffff (Print_lit title (set_color 0x73BBC9 s)));
     Some (NextLine s)
   }"

definition memory_info :: "'a gfx_scheme \<Rightarrow> 'a gfx_scheme option" where
  "memory_info s = do {
     let s = PrintNL_lit ''--- Memory Information ---'' (set_color 0xFEC260 s);
     s \<leftarrow> memory_line ''Used RAM: '' (GetUsedRAM s) s;
     s \<leftarrow> memory_line ''Reserved RAM: '' (GetReservedRAM s) s;
     memory_line ''Free RAM: '' (GetFreeRAM s) s
   }"

definition drives_list :: "'a ahci_scheme \<Rightarrow> 'a ahci_scheme option" where
  "drives_list s = PrintDrives (PrintNL_lit ''--- Connected Hard Drives ---'' (set_color 0xFEC260 s))"

definition drives_mount :: "'a shell_scheme \<Rightarrow> 'a shell_scheme option" where
  "drives_mount s = do {
     n \<leftarrow> atoi (mem s) (commandPrompt s + 13);
     let s = s\<lparr>MountedDrivePort := ucast n\<rparr>;
     s \<leftarrow> print_number (ucast (MountedDrivePort s)) s;
     Some (NextLine (Print_lit '' - Drive Mounted'' s))
   }"

definition drives_format :: "'a shell_scheme \<Rightarrow> 'a shell_scheme option" where
  "drives_format s = do {
     (status, s) \<leftarrow> FormatDrive (systemFile_junk s) (system_lit s) s;
     Some (if status > 0 then PrintNL_lit ''Successfully Formatted Drive'' s else s)
   }"

definition drives_size :: "'a shell_scheme \<Rightarrow> 'a shell_scheme option" where
  "drives_size s = do {
     (n, s) \<leftarrow> ReadDiskSize (uint (MountedDrivePort s)) s;
     s \<leftarrow> PrintMemorySize (n * 512) s;
     Some (NextLine s)
   }"

partial_function (option) print_names :: "u64 \<Rightarrow> nat \<Rightarrow> 'a gfx_scheme \<Rightarrow> 'a gfx_scheme option" where
  "print_names l i s =
     (if read64 (mem s) (l + of_nat (8 * i)) \<noteq> 0 then do {
        s \<leftarrow> PrintNL (Name (mem s) (read64 (mem s) (l + of_nat (8 * i)))) s;
        print_names l (i + 1) s
      } else Some s)"

definition fs_list :: "'a shell_scheme \<Rightarrow> 'a shell_scheme option" where
  "fs_list s = do { (l, s) \<leftarrow> List s; print_names l 0 s }"

definition fs_open :: "'a shell_scheme \<Rightarrow> 'a shell_scheme option" where
  "fs_open s = do { (buf, s) \<leftarrow> Open (commandPrompt s + 8) s; PrintNL buf s }"

definition fs_write :: "'a shell_scheme \<Rightarrow> 'a shell_scheme option" where
  "fs_write s = do {
     (ok, s) \<leftarrow> WriteBuffer (commandPrompt s + 9) (hello_lit s) s;
     Some (if ok then PrintNL_lit ''Written successfully'' s else s)
   }"

text \<open>The mounted drive is an unsigned byte, so the tests for a mounted drive never fail.\<close>

definition ExecutePrompt :: "'a shell_scheme \<Rightarrow> 'a shell_scheme option" where
  "ExecutePrompt s = do {
     let s = EnableKeyboard False s;
     let p = commandPrompt s;
     s \<leftarrow> (if strcmp_lit (mem s) p ''memory'' then
            (if strcmp_lit (mem s) (p + 7) ''info'' then memory_info s else Some s)
          else if strcmp_lit (mem s) p ''drives'' then
            (if strcmp_lit (mem s) (p + 7) ''list'' then drives_list s
             else if strcmp_lit (mem s) (p + 7) ''mount'' then drives_mount s
             else if strcmp_lit (mem s) (p + 7) ''format'' then drives_format s
             else if strcmp_lit (mem s) (p + 7) ''size'' then
               (if uint (MountedDrivePort s) \<ge> 0 then drives_size s else Some (PrintNL_lit ''No Drive is Mounted'' s))
             else Some s)
          else if strcmp_lit (mem s) p ''fs'' then
            (if strcmp_lit (mem s) (p + 3) ''list'' then
               (if uint (MountedDrivePort s) \<ge> 0 then fs_list s else Some (PrintNL_lit ''No Drive is Mounted'' s))
             else if strcmp_lit (mem s) (p + 3) ''open'' then
               (if uint (MountedDrivePort s) \<ge> 0 then fs_open s else Some (PrintNL_lit ''No Drive is Mounted'' s))
             else if strcmp_lit (mem s) (p + 3) ''write'' then
               (if uint (MountedDrivePort s) \<ge> 0 then fs_write s else Some (PrintNL_lit ''No Drive is Mounted'' s))
             else Some s)
          else Some s);
     Some (TakePrompt (print_shell s))
   }"

subsection \<open>The keyboard interrupt\<close>

definition EnterHandler :: "'a shell_scheme \<Rightarrow> 'a shell_scheme option" where
  "EnterHandler s = ExecutePrompt s"

definition HandleKeyboard :: "'a shell_scheme \<Rightarrow> 'a shell_scheme option" where
  "HandleKeyboard s =
     (if \<not> isEnabled s then Some s
      else
        let (scancode, s) = inb 0x60 s
        in if scancode = 0xAA then Some (s\<lparr>upperCase := False\<rparr>)
           else if scancode = 0x2A then Some (s\<lparr>upperCase := True\<rparr>)
           else if scancode = 0xf then Some ((PutChar 32 ^^ 4) s)
           else if scancode = 0x0E then Some (backspace s)
           else if scancode = 0x1C then EnterHandler (NextLine s)
           else TranslateScancode scancode s)"


subsection \<open>What the commands do to the line buffer\<close>

lemma for_u32_keeps:
  assumes "P s" "\<And>k s. P s \<Longrightarrow> P (f k s)"
  shows "P (for_u32 i n f s)"
proof (cases "i \<le> n")
  case True
  then show ?thesis using for_u32_inv [where P = "\<lambda>_. P" and i = i and n = n and s = s and f = f] assms by blast
next
  case False
  then have "\<not> i < n" by simp
  then show ?thesis using assms(1) by simp
qed

text \<open>The renderer changes memory and its cursor and nothing else: everything but these is its frame.\<close>

definition gfx_frame :: "'a gfx_scheme \<Rightarrow> 'a gfx_scheme" where
  "gfx_frame s = s\<lparr>mem := \<lambda>_. 0, cursor_x := 0, cursor_y := 0\<rparr>"

lemma gfx_frame_update [simp]:
  "gfx_frame (s\<lparr>mem := m\<rparr>) = gfx_frame s" "gfx_frame (s\<lparr>cursor_x := x\<rparr>) = gfx_frame s"
  "gfx_frame (s\<lparr>cursor_y := y\<rparr>) = gfx_frame s"
  by (simp_all add: gfx_frame_def)

lemma gfx_frame_set_pixel [simp]: "gfx_frame (set_pixel c x y s) = gfx_frame s"
  by (simp add: set_pixel_def)

lemma gfx_frame_glyph_row [simp]: "gfx_frame (glyph_row p y s) = gfx_frame s"
  unfolding glyph_row_def by (rule for_u32_keeps [where P = "\<lambda>t. gfx_frame t = gfx_frame s"]) simp_all

lemma gfx_frame_PutChar [simp]: "gfx_frame (PutChar ch s) = gfx_frame s"
proof -
  let ?f = "\<lambda>y (s, fontPtr). (glyph_row fontPtr y s, fontPtr + 1)"
  have "gfx_frame (fst (for_u32 (cursor_y s) (cursor_y s + 16) ?f (s, p))) = gfx_frame s" for p
    by (rule for_u32_keeps [where P = "\<lambda>t. gfx_frame (fst t) = gfx_frame s"]) (auto split: prod.splits)
  then show ?thesis by (simp add: PutChar_def Let_def split_beta)
qed

lemma gfx_frame_erase_columns [simp]: "gfx_frame (erase_columns x stop y s) = gfx_frame s"
proof (induction x stop y s rule: erase_columns.induct)
  case (1 x stop y s)
  then show ?case by (subst erase_columns.simps) simp
qed

lemma gfx_frame_RemoveChar [simp]: "gfx_frame (RemoveChar s) = gfx_frame s"
proof -
  have "gfx_frame (for_u32 (cursor_y s) (cursor_y s + 16) (\<lambda>y s. erase_columns (cursor_x s) (cursor_x s - 8) y s) s) = gfx_frame s"
    by (rule for_u32_keeps [where P = "\<lambda>t. gfx_frame t = gfx_frame s"]) simp_all
  then show ?thesis by (simp add: RemoveChar_def Let_def)
qed

lemma gfx_frame_NextLine [simp]: "gfx_frame (NextLine s) = gfx_frame s"
  by (simp add: NextLine_def)

text \<open>What follows from equal frames for a field the renderer does not know.\<close>

lemma gfx_frame_kbd:
  assumes "gfx_frame s = gfx_frame (t :: 'a shell_scheme)"
  shows "input s = input t" "inputLen s = inputLen t" "commandPrompt s = commandPrompt t" "isEnabled s = isEnabled t"
proof -
  have e: "input (gfx_frame u) = input u" "inputLen (gfx_frame u) = inputLen u" "commandPrompt (gfx_frame u) = commandPrompt u"
    "isEnabled (gfx_frame u) = isEnabled u" for u :: "'a shell_scheme" by (simp_all add: gfx_frame_def)
  show "input s = input t" "inputLen s = inputLen t" "commandPrompt s = commandPrompt t" "isEnabled s = isEnabled t"
    using assms e [of s] e [of t] by simp_all
qed

text \<open>The line buffer: \<open>input\<close> points behind the \<open>inputLen\<close> characters of the current line, which
  are at most \<open>k\<close>.\<close>

definition line_ok :: "nat \<Rightarrow> 'a shell_scheme \<Rightarrow> bool" where
  "line_ok k s \<longleftrightarrow> input s = commandPrompt s + ucast (inputLen s) \<and> unat (inputLen s) \<le> k"

lemma line_ok_mono: "line_ok k s \<Longrightarrow> k \<le> l \<Longrightarrow> line_ok l s"
  by (simp add: line_ok_def)

lemma line_ok_in_buffer:
  assumes "line_ok k s" "k < n"
  shows "input s \<in> region (commandPrompt s) n"
proof -
  have "unat (ucast (inputLen s) :: u64) = unat (inputLen s)"
  proof -
    have "unat (of_nat (unat (inputLen s)) :: u64) = unat (inputLen s)"
      by (rule unat_of_nat_lt) (rule less_trans [OF unat_lt_u32], simp)
    then show ?thesis by simp
  qed
  then show ?thesis using assms by (simp add: line_ok_def region_def)
qed

lemma line_ok_TakePrompt: "line_ok k (TakePrompt s)"
  by (simp add: line_ok_def TakePrompt_def ReceiveInput_def EnableKeyboard_def)

lemma line_ok_frame: "gfx_frame s = gfx_frame t \<Longrightarrow> line_ok k s = line_ok k t"
  using gfx_frame_kbd [of s t] by (simp add: line_ok_def)

lemma ucast_u32_plus_one: "unat (n :: u32) + 1 < 2 ^ 32 \<Longrightarrow> (ucast (n + 1) :: u64) = ucast n + 1"
proof -
  assume n: "unat n + 1 < 2 ^ 32"
  then have "unat (n + 1) = unat n + 1" by (simp add: unat_add_no_wrap)
  then have "of_nat (unat (n + 1)) = (of_nat (unat n) + 1 :: u64)" by simp
  then show ?thesis by simp
qed

lemma line_ok_backspace: "line_ok k s \<Longrightarrow> line_ok k (backspace s)"
proof (cases "inputLen s = 0")
  case False
  assume l: "line_ok k s"
  let ?t = "s\<lparr>input := input s - 1, mem := (mem s)(input s - 1 := 0), inputLen := inputLen s - 1\<rparr>"
  have n: "unat (inputLen s - 1) + 1 = unat (inputLen s)" using False by (simp add: unat_gt_0 unat_minus_one)
  then have "(ucast (inputLen s - 1 + 1) :: u64) = ucast (inputLen s - 1) + 1"
    using unat_lt_u32 [of "inputLen s"] by (intro ucast_u32_plus_one) simp
  then have "line_ok k ?t" using l n by (simp add: line_ok_def)
  moreover have "gfx_frame (RemoveChar ?t) = gfx_frame ?t" by simp
  ultimately show ?thesis using False line_ok_frame [of "RemoveChar ?t" ?t] by (simp add: backspace_def)
qed (simp add: backspace_def)

lemma line_ok_TranslateScancode:
  assumes "line_ok k s" "k + 1 < 2 ^ 32" "TranslateScancode byte s = Some t"
  shows "line_ok (k + 1) t"
proof (cases "byte > 58")
  case True
  then show ?thesis using assms by (simp add: TranslateScancode_def line_ok_def)
next
  case False
  then obtain c where t: "t = (PutChar c s)\<lparr>mem := (mem (PutChar c s))(input (PutChar c s) := c),
      input := input (PutChar c s) + 1, inputLen := inputLen (PutChar c s) + 1\<rparr>"
    using assms(3) by (auto simp: TranslateScancode_def Let_def split: if_splits)
  have f: "input (PutChar c s) = input s" "inputLen (PutChar c s) = inputLen s" "commandPrompt (PutChar c s) = commandPrompt s"
    using gfx_frame_kbd [of "PutChar c s" s] by simp_all
  have n: "unat (inputLen s) + 1 < 2 ^ 32" using assms(1,2) by (simp add: line_ok_def)
  then have "unat (inputLen s + 1) = unat (inputLen s) + 1" by (simp add: unat_add_no_wrap)
  then show ?thesis using assms(1) f ucast_u32_plus_one [OF n] unfolding t line_ok_def by simp
qed

lemma gfx_frame_spaces: "gfx_frame ((PutChar ch ^^ n) s) = gfx_frame s"
  by (induction n) simp_all

lemma line_ok_HandleKeyboard:
  assumes "line_ok k s" "k + 1 < 2 ^ 32" "HandleKeyboard s = Some t"
  shows "line_ok (k + 1) t"
proof (cases "isEnabled s")
  case False
  then show ?thesis using assms by (simp add: HandleKeyboard_def line_ok_def)
next
  case True
  obtain scancode s1 where i: "inb 0x60 s = (scancode, s1)" by (cases "inb 0x60 s")
  then have "input s1 = input s" "inputLen s1 = inputLen s" "commandPrompt s1 = commandPrompt s"
    by (auto simp: io_simps Let_def)
  then have s1: "line_ok k s1" using assms(1) by (simp add: line_ok_def)
  have t: "Some t = (if scancode = 0xAA then Some (s1\<lparr>upperCase := False\<rparr>)
      else if scancode = 0x2A then Some (s1\<lparr>upperCase := True\<rparr>)
      else if scancode = 0xf then Some ((PutChar 32 ^^ 4) s1)
      else if scancode = 0x0E then Some (backspace s1)
      else if scancode = 0x1C then EnterHandler (NextLine s1)
      else TranslateScancode scancode s1)"
    using assms(3) True by (simp add: HandleKeyboard_def i)
  have up: "line_ok (k + 1) w" if "line_ok k w" for w :: "'a shell_scheme" using that by (rule line_ok_mono) simp
  have u: "line_ok (k + 1) (s1\<lparr>upperCase := b\<rparr>)" for b using s1 by (simp add: line_ok_def)
  have sp: "line_ok (k + 1) ((PutChar 32 ^^ 4) s1)" using up [OF s1] line_ok_frame [OF gfx_frame_spaces] by blast
  have bs: "line_ok (k + 1) (backspace s1)" using s1 by (intro up line_ok_backspace)
  have en: "line_ok (k + 1) v" if "EnterHandler w = Some v" for v w :: "'a shell_scheme"
    using that by (auto simp: EnterHandler_def ExecutePrompt_def Let_def bind_eq_Some_conv line_ok_TakePrompt)
  show ?thesis
    using t u sp bs en [of "NextLine s1" t] line_ok_TranslateScancode [OF s1 assms(2), of scancode t]
    by (auto split: if_splits)
qed

text \<open>The handler returns for every scancode but that of caps lock and, perhaps, enter.\<close>

lemma HandleKeyboard_returns:
  "\<not> isEnabled s \<or> ucast (port_in s (io_log s) 0x60) \<notin> {58, 0x1C :: u8} \<Longrightarrow> HandleKeyboard s \<noteq> None"
proof -
  assume a: "\<not> isEnabled s \<or> ucast (port_in s (io_log s) 0x60) \<notin> {58, 0x1C :: u8}"
  have "TranslateScancode sc u \<noteq> None" if "sc \<noteq> 58" for sc and u :: "'b kbd_scheme"
  proof -
    have "sc > 58 \<or> unat sc < 58" using that by (auto simp: word_less_nat_alt word_unat_eq_iff)
    then show ?thesis by (auto simp: TranslateScancode_def length_ASCIITable Let_def)
  qed
  then show ?thesis using a by (auto simp: HandleKeyboard_def inb_def Let_def)
qed

text \<open>The state after a character key.\<close>

lemma HandleKeyboard_char:
  fixes s :: "'a shell_scheme"
  defines "sc \<equiv> ucast (port_in s (io_log s) 0x60) :: u8"
  defines "c \<equiv> (if upperCase s then ASCIITable ! unat sc - 32 else ASCIITable ! unat sc)"
  assumes "isEnabled s" "sc < 58" "sc \<notin> {0x0E, 0x0F, 0x1C, 0x2A}"
    and "cell_ok s" "glyph_outside s c" "input s \<notin> screen (TargetFrameBuffer s)"
  shows "\<exists>m'. painted (TargetFrameBuffer s) (color s)
        (glyph_pixels (mem s) (glyph_at (Font s) c) (cursor_x s) (cursor_y s) (cursor_y s + 16)) (mem s) m'
    \<and> HandleKeyboard s = Some (if cursor_x s + 8 + 8 > Width (TargetFrameBuffer s)
        then s\<lparr>io_log := InB 0x60 sc # io_log s, mem := m'(input s := c), cursor_x := 0, cursor_y := cursor_y s + 16,
               input := input s + 1, inputLen := inputLen s + 1\<rparr>
        else s\<lparr>io_log := InB 0x60 sc # io_log s, mem := m'(input s := c), cursor_x := cursor_x s + 8,
               input := input s + 1, inputLen := inputLen s + 1\<rparr>)"
proof -
  let ?s = "s\<lparr>io_log := InB 0x60 sc # io_log s\<rparr>"
  have i: "inb 0x60 s = (sc, ?s)" by (simp add: inb_def event_def sc_def Let_def)
  have "cell_ok ?s" "glyph_outside ?s c" using assms(6,7) by (simp_all add: cell_ok_def glyph_outside_def)
  then obtain m' where m': "painted (TargetFrameBuffer s) (color s)
      (glyph_pixels (mem s) (glyph_at (Font s) c) (cursor_x s) (cursor_y s) (cursor_y s + 16)) (mem s) m'"
    "PutChar c ?s = (if cursor_x s + 8 + 8 > Width (TargetFrameBuffer s)
      then ?s\<lparr>mem := m', cursor_x := 0, cursor_y := cursor_y s + 16\<rparr> else ?s\<lparr>mem := m', cursor_x := cursor_x s + 8\<rparr>)"
    using PutChar_painted [of ?s c] by auto
  have len: "unat sc < length ASCIITable" and le: "\<not> sc > 58"
    using assms(4) by (simp_all add: length_ASCIITable word_less_nat_alt)
  have ne: "sc \<noteq> 0xAA" using assms(4) by auto
  have "HandleKeyboard s = TranslateScancode sc ?s"
    using assms(3,5) ne by (simp add: HandleKeyboard_def i)
  also have "\<dots> = (let u = PutChar c ?s in Some (u\<lparr>mem := (mem u)(input u := c), input := input u + 1, inputLen := inputLen u + 1\<rparr>))"
    using len le by (simp add: TranslateScancode_def Let_def c_def)
  finally show ?thesis
    unfolding m'(2) Let_def using m'(1) by auto
qed

subsection \<open>Properties\<close>

text \<open>A terminal on the small screen whose line starts at 0x6000, with the key A pressed.\<close>

definition small_shell :: shell where
  "small_shell = kbd.extend
     (timer.extend (small_timer\<lparr>port_in := (\<lambda>_ _. 0x1E)\<rparr>) (kbd.fields True False 0x6000 0))
     (shell.fields 0x6000 0x7000 0x7010 0x7020)"

lemma small_shell_fields:
  "isEnabled small_shell" "\<not> upperCase small_shell" "input small_shell = 0x6000" "inputLen small_shell = 0"
  "commandPrompt small_shell = 0x6000" "port_in small_shell = (\<lambda>_ _. 0x1E)" "io_log small_shell = []"
  "TargetFrameBuffer small_shell = TargetFrameBuffer small_screen" "Font small_shell = Font small_screen"
  "cursor_x small_shell = 0" "cursor_y small_shell = 0" "color small_shell = 0xffffffff"
  by (simp_all add: small_shell_def small_timer_def small_store_def small_disk_def small_io_def small_screen_def
      gfx.defs io.defs ahci.defs storage.defs timer.defs kbd.defs shell.defs)

text \<open>A character key pressed while the keyboard is enabled draws its character at the cursor,
  appends it to the line buffer and advances cursor, buffer pointer and length; with shift held the
  character is the table's minus 32, whatever it is.\<close>

theorem HandleKeyboard_types:
  fixes s :: "'a shell_scheme"
  defines "sc \<equiv> ucast (port_in s (io_log s) 0x60) :: u8"
  defines "c \<equiv> (if upperCase s then ASCIITable ! unat sc - 32 else ASCIITable ! unat sc)"
  assumes "isEnabled s" "sc < 58" "sc \<notin> {0x0E, 0x0F, 0x1C, 0x2A}"
    and "cell_ok s" "glyph_outside s c" "input s \<notin> screen (TargetFrameBuffer s)"
  shows "\<exists>m' t. HandleKeyboard s = Some t \<and> mem t = m'(input s := c)
    \<and> painted (TargetFrameBuffer s) (color s)
        (glyph_pixels (mem s) (glyph_at (Font s) c) (cursor_x s) (cursor_y s) (cursor_y s + 16)) (mem s) m'
    \<and> input t = input s + 1 \<and> inputLen t = inputLen s + 1
    \<and> cursor_x t = (if cursor_x s + 8 + 8 > Width (TargetFrameBuffer s) then 0 else cursor_x s + 8)"
  using HandleKeyboard_char [OF assms(3-8) [unfolded assms(1,2)]] unfolding assms(1,2) by auto

theorem HandleKeyboard_types_witness:
  "\<exists>m' t. HandleKeyboard small_shell = Some t \<and> mem t = m'(0x6000 := 97) \<and> inputLen t = 1 \<and> cursor_x t = 8"
proof -
  have c: "ASCIITable ! 30 = 97" by (simp add: ASCIITable_def lit_def)
  have cell: "cell_ok small_shell" using small_screen_ok(1)
    by (simp add: cell_ok_def small_shell_fields small_screen_fields)
  have "unat (0x1610 + of_nat k :: u64) = 0x1610 + k" if "k < 16" for k
    using that by (subst unat_add_of_nat) simp_all
  then have g: "glyph_outside small_shell 97"
    by (auto simp: glyph_outside_def small_shell_fields glyph_at_def intro!: low_not_on_small_screen)
      (simp add: small_screen_def)
  have o: "input small_shell \<notin> screen (TargetFrameBuffer small_shell)"
    unfolding small_shell_fields by (rule low_not_on_small_screen) simp
  show ?thesis
    using HandleKeyboard_types [of small_shell] cell g o
    by (auto simp: small_shell_fields c small_screen_fields(1))
qed

text \<open>The translation accepts one scancode too many: the key 58, caps lock, is looked up behind
  the last entry of the table.\<close>

theorem caps_lock_overruns:
  assumes "isEnabled s" "ucast (port_in s (io_log s) 0x60) = (58 :: u8)"
  shows "HandleKeyboard s = None"
  using assms by (simp add: HandleKeyboard_def inb_def event_def Let_def TranslateScancode_overrun)

theorem caps_lock_overruns_witness: "HandleKeyboard (small_shell\<lparr>port_in := \<lambda>_ _. 58\<rparr>) = None"
  by (rule caps_lock_overruns) (simp_all add: small_shell_fields)

end
