(* ===== verification/Interrupts.thy ===== *)
theory Interrupts
  imports Terminal
begin

text \<open>
  Segments and interrupts: \<open>GDT/GDT.cpp\<close>, \<open>GDT/GDT.asm\<close>, \<open>interrupts/IDT.cpp\<close>, \<open>interrupts/IST.cpp\<close>,
  the entry stubs of \<open>interrupts/IDT.asm\<close>, \<open>interrupts/pic.asm\<close> and the set-up functions of
  \<open>kernelUtil.cpp\<close>. The addresses the linker gives to the tables and to the stubs are fields of the
  state that nothing changes. The stack is a list of 64-bit words, the top first.
\<close>

record cpu = shell +
  DefaultGDT_addr :: u64
  idt_addr :: u64
  isr_stub :: "nat \<Rightarrow> u64"
  errorIsr_stub :: "nat \<Rightarrow> u64"

subsection \<open>Segments\<close>

record GDTEntry =
  LimitLow :: u16
  BaseLow :: u16
  BaseMiddle :: u8
  Access :: u8
  Granularity :: u8
  BaseHigh :: u8

definition gdt_entry :: "u8 \<Rightarrow> u8 \<Rightarrow> GDTEntry" where
  "gdt_entry access granularity =
     \<lparr>LimitLow = 0, BaseLow = 0, BaseMiddle = 0, Access = access, Granularity = granularity, BaseHigh = 0\<rparr>"

definition DefaultGDT :: "GDTEntry list" where
  "DefaultGDT = [gdt_entry 0x00 0x00, gdt_entry 0x9a 0xa0, gdt_entry 0x92 0xa0, gdt_entry 0xfa 0xa0, gdt_entry 0xf2 0xa0]"

text \<open>The struct is aligned to a page, which makes its size a page.\<close>

definition sizeof_GDT :: u16 where
  "sizeof_GDT = 0x1000"

definition SetupGDT :: "'a cpu_scheme \<Rightarrow> 'a cpu_scheme" where
  "SetupGDT s = event (Lgdt (sizeof_GDT - 1) (DefaultGDT_addr s)) s"

subsection \<open>The interrupt table\<close>

definition IdtSetEntry :: "nat \<Rightarrow> u64 \<Rightarrow> 'a cpu_scheme \<Rightarrow> 'a cpu_scheme" where
  "IdtSetEntry n handler s =
     (let e = idt_addr s + of_nat (16 * n);
          m = write16 (mem s) e (ucast handler);
          m = write16 m (e + 2) 0x08;
          m = m(e + 4 := 0);
          m = m(e + 5 := 0x8e);
          m = write16 m (e + 6) (ucast (drop_bit 16 handler));
          m = write32 m (e + 8) (ucast (drop_bit 32 handler));
          m = write32 m (e + 12) 0
      in s\<lparr>mem := m\<rparr>)"

definition RemapPIC :: "'a io_scheme \<Rightarrow> 'a io_scheme" where
  "RemapPIC s =
     fold (\<lambda>(port, v). outb port v)
       [(0x20, 0x11), (0xA0, 0x11), (0x21, 0x20), (0xA1, 0x28), (0x21, 0x04), (0xA1, 0x02),
        (0x21, 0x01), (0xA1, 0x01), (0x21, 0x00), (0xA1, 0x00)] s"

text \<open>The vectors that get the stub for an error code.\<close>

definition error_vectors :: "nat list" where
  "error_vectors = [8, 10, 11, 12, 13, 14]"

definition stub :: "'a cpu_scheme \<Rightarrow> nat \<Rightarrow> u64" where
  "stub s n = (if n \<in> set error_vectors then errorIsr_stub s n else isr_stub s n)"

definition install_exceptions :: "'a cpu_scheme \<Rightarrow> 'a cpu_scheme" where
  "install_exceptions s = fold (\<lambda>n s. IdtSetEntry n (stub s n) s) [0..<32] s"

definition install_irqs :: "'a cpu_scheme \<Rightarrow> 'a cpu_scheme" where
  "install_irqs s = fold (\<lambda>n s. IdtSetEntry n (isr_stub s n) s) [32..<145] s"

definition install_rest :: "'a cpu_scheme \<Rightarrow> 'a cpu_scheme" where
  "install_rest s = fold (\<lambda>n s. IdtSetEntry n (isr_stub s n) s) [145..<256] s"

definition InstallISR :: "'a cpu_scheme \<Rightarrow> 'a cpu_scheme" where
  "InstallISR s = install_rest (install_irqs (RemapPIC (install_exceptions s)))"

definition InitializeIDT :: "'a cpu_scheme \<Rightarrow> 'a cpu_scheme" where
  "InitializeIDT s = (let s = InstallISR s in event (Lidt (256 * 16 - 1) (idt_addr s)) s)"

definition SetupInterrupts :: "'a cpu_scheme \<Rightarrow> 'a cpu_scheme" where
  "SetupInterrupts s = event Sti (InitializeIDT s)"

subsection \<open>The handler\<close>

record registers_t =
  r15 :: u64
  r14 :: u64
  r13 :: u64
  r12 :: u64
  r11 :: u64
  r10 :: u64
  r9 :: u64
  r8 :: u64
  rsi :: u64
  rdi :: u64
  rbp :: u64
  rdx :: u64
  rcx :: u64
  rbx :: u64
  rax :: u64
  core :: u64
  isrNumber :: u64
  errorCode :: u64
  rip :: u64
  cs :: u64
  rflags :: u64
  rsp :: u64
  ss :: u64

definition dash :: "u8 list" where
  "dash = [0xE2, 0x80, 0x94]"

definition intel_reserved :: "u8 list" where
  "intel_reserved = dash @ lit '' : Intel reserved. Do not use.''"

definition s_exceptionDesc :: "u8 list list" where
  "s_exceptionDesc =
     [lit ''#DE: Divide Error'',
      lit ''#DB: Debug Exception'',
      lit '' '' @ dash @ lit '' : NMI Interrupt'',
      lit ''#BP: Breakpoint'',
      lit ''#OF: Overflow'',
      lit ''#BR: BOUND Range Exceeded'',
      lit ''#UD: Invalid Opcode (Undefined Opcode)'',
      lit ''#NM: Device Not Available (No Math Coprocessor)'',
      lit ''#DF: Double Fault'',
      dash @ lit '' : Coprocessor Segment Overrun (reserved)'',
      lit ''#TS: Invalid TSS'',
      lit ''#NP: Segment Not Present'',
      lit ''#SS: Stack-Segment Fault'',
      lit ''#GP: General Protection'',
      lit ''#PF: Page Fault'',
      dash @ lit '' : (Intel reserved. Do not use.)'',
      lit ''#MF: x87 FPU Floating-Point Error (Math Fault)'',
      lit ''#AC: Alignment Check'',
      lit ''#MC: Machine Check'',
      lit ''#XM: SIMD Floating-Point Exception'',
      lit ''#VE: Virtualization Exception'',
      lit ''#CP: Control Protection Exception'',
      intel_reserved, intel_reserved, intel_reserved, intel_reserved, intel_reserved,
      intel_reserved, intel_reserved, intel_reserved, intel_reserved, intel_reserved,
      lit ''Security Exception'',
      lit ''Reserved'',
      lit ''Triple Fault'',
      lit ''FPU error'']"

definition print_register :: "string \<Rightarrow> u64 \<Rightarrow> 'a gfx_scheme \<Rightarrow> 'a gfx_scheme option" where
  "print_register name v s = do { s \<leftarrow> print_number v (Print_lit name s); Some (NextLine s) }"

definition isr_exception :: "registers_t \<Rightarrow> 'a cpu_scheme \<Rightarrow> 'a cpu_scheme option" where
  "isr_exception r s = do {
     let desc = s_exceptionDesc ! unat (isrNumber r);
     let s = Print_lit ''Exception: '' (NextLine (s\<lparr>color := 0xff00ffff\<rparr>));
     let s = NextLine (fold PutChar desc s);
     s \<leftarrow> print_register ''  rax='' (rax r) s;
     s \<leftarrow> print_register ''  rbx='' (rbx r) s;
     s \<leftarrow> print_register ''  rcx='' (rcx r) s;
     s \<leftarrow> print_register ''  rdx='' (rdx r) s;
     s \<leftarrow> print_register ''  rsi='' (rsi r) s;
     s \<leftarrow> print_register ''  rdi='' (rdi r) s;
     s \<leftarrow> print_register ''  rip='' (rip r) s;
     s \<leftarrow> print_register ''  rsp='' (rsp r) s;
     s \<leftarrow> print_register ''  cs='' (cs r) s;
     s \<leftarrow> print_register ''  ss='' (ss r) s;
     Some (event Hlt s)
   }"

definition isr_handler :: "registers_t \<Rightarrow> 'a cpu_scheme \<Rightarrow> 'a cpu_scheme option" where
  "isr_handler r s =
     (if isrNumber r < 32 then isr_exception r s
      else do {
        let s = (if isrNumber r = 32 then HandleTimer s else s);
        s \<leftarrow> (if isrNumber r = 33 then HandleKeyboard s else Some s);
        let s = outb 0xA0 0x20 s;
        Some (outb 0x20 0x20 s)
      })"


subsection \<open>Entry and return\<close>

text \<open>What the processor pushes: the return frame, and an error code for some vectors.\<close>

definition hw_error_vectors :: "nat list" where
  "hw_error_vectors = [8, 10, 11, 12, 13, 14, 17, 21, 29, 30]"

definition cpu_pushes :: "nat \<Rightarrow> u64 \<Rightarrow> u64 list \<Rightarrow> u64 list" where
  "cpu_pushes n err frame = (if n \<in> set hw_error_vectors then err # frame else frame)"

text \<open>The stubs and the common part up to the call. The general registers are given in the order they
  are pushed, so they lie reversed on the stack.\<close>

definition isr_entry :: "nat \<Rightarrow> u64 \<Rightarrow> u64 list \<Rightarrow> u64 list" where
  "isr_entry n fs st = fs # of_nat n # 0 # st"

definition errorIsr_entry :: "nat \<Rightarrow> u64 \<Rightarrow> u64 list \<Rightarrow> u64 list" where
  "errorIsr_entry n fs st = fs # of_nat n # st"

definition stub_entry :: "nat \<Rightarrow> u64 \<Rightarrow> u64 list \<Rightarrow> u64 list" where
  "stub_entry n fs st = (if n \<in> set error_vectors then errorIsr_entry n fs st else isr_entry n fs st)"

definition pushall :: "u64 list \<Rightarrow> u64 list \<Rightarrow> u64 list" where
  "pushall regs st = fold (\<lambda>r st. r # st) regs st"

definition registers_at :: "u64 list \<Rightarrow> registers_t" where
  "registers_at st =
     \<lparr>r15 = st ! 0, r14 = st ! 1, r13 = st ! 2, r12 = st ! 3, r11 = st ! 4, r10 = st ! 5, r9 = st ! 6, r8 = st ! 7,
      rsi = st ! 8, rdi = st ! 9, rbp = st ! 10, rdx = st ! 11, rcx = st ! 12, rbx = st ! 13, rax = st ! 14,
      core = st ! 15, isrNumber = st ! 16, errorCode = st ! 17, rip = st ! 18, cs = st ! 19, rflags = st ! 20,
      rsp = st ! 21, ss = st ! 22\<rparr>"

text \<open>\<open>popall\<close>, the adjustment of the stack by 24 bytes and the frame \<open>iretq\<close> takes.\<close>

definition popall :: "u64 list \<Rightarrow> u64 list \<times> u64 list" where
  "popall st = (rev (take 15 st), drop 15 st)"

definition isr_return :: "u64 list \<Rightarrow> u64 list \<times> u64 list" where
  "isr_return st = (let (regs, st) = popall st; st = drop 3 st in (regs, take 5 st))"

definition interrupt_stack :: "nat \<Rightarrow> u64 \<Rightarrow> u64 \<Rightarrow> u64 list \<Rightarrow> u64 list \<Rightarrow> u64 list" where
  "interrupt_stack n err fs regs frame = pushall regs (stub_entry n fs (cpu_pushes n err frame))"

text \<open>The vectors whose error code the stub does not expect.\<close>

definition mismatched :: "nat list" where
  "mismatched = [17, 21, 29, 30]"

lemma pushall_rev: "pushall regs st = rev regs @ st"
  by (induction regs arbitrary: st) (simp_all add: pushall_def)

subsection \<open>Gates\<close>

definition gate_handler :: "memory \<Rightarrow> u64 \<Rightarrow> u64" where
  "gate_handler m e = ucast (read16 m e) OR push_bit 16 (ucast (read16 m (e + 6))) OR push_bit 32 (ucast (read32 m (e + 8)))"

definition gate_ok :: "memory \<Rightarrow> u64 \<Rightarrow> u64 \<Rightarrow> bool" where
  "gate_ok m e h \<longleftrightarrow> gate_handler m e = h \<and> read16 m (e + 2) = 0x08 \<and> m (e + 4) = 0 \<and> m (e + 5) = 0x8e"

lemma handler_parts:
  "ucast (ucast h :: u16) OR push_bit 16 (ucast (ucast (drop_bit 16 h) :: u16)) OR push_bit 32 (ucast (ucast (drop_bit 32 h) :: u32))
   = (h :: u64)"
proof (rule bit_word_eqI)
  fix n assume "n < LENGTH(64)"
  moreover have "32 + (n - 32) = n" if "\<not> n < 32" using that by simp
  moreover have "16 + (n - 16) = n" if "\<not> n < 16" using that by simp
  ultimately show "bit (ucast (ucast h :: u16) OR push_bit 16 (ucast (ucast (drop_bit 16 h) :: u16))
      OR push_bit 32 (ucast (ucast (drop_bit 32 h) :: u32)) :: u64) n \<longleftrightarrow> bit h n"
    by (cases "n < 16"; cases "n < 32") (auto simp: bit_simps)
qed

lemma read16_disjoint:
  "region a 2 \<inter> region b 2 = {} \<Longrightarrow> read16 (write16 m a v) b = read16 m b"
  "region a 4 \<inter> region b 2 = {} \<Longrightarrow> read16 (write32 m a w) b = read16 m b"
  "a \<notin> region b 2 \<Longrightarrow> read16 (m(a := x)) b = read16 m b"
  by (simp_all add: read16_def write16_def write32_def load_store_disjoint upd_outside)

lemma read32_disjoint:
  "region a 4 \<inter> region b 4 = {} \<Longrightarrow> read32 (write32 m a w) b = read32 m b"
  by (simp add: read32_def write32_def load_store_disjoint)

lemma gate_regions:
  "region (e + 2) 2 \<inter> region e 2 = {}" "region (e + 6) 2 \<inter> region e 2 = {}" "region (e + 8) 4 \<inter> region e 2 = {}"
  "region (e + 12) 4 \<inter> region e 2 = {}" "region (e + 6) 2 \<inter> region (e + 2) 2 = {}" "region (e + 8) 4 \<inter> region (e + 2) 2 = {}"
  "region (e + 12) 4 \<inter> region (e + 2) 2 = {}" "region (e + 8) 4 \<inter> region (e + 6) 2 = {}" "region (e + 12) 4 \<inter> region (e + 6) 2 = {}"
  "region (e + 12) 4 \<inter> region (e + 8) 4 = {}"
  using regions_apart [of 0 2 2 2 e] regions_apart [of 0 2 6 2 e] regions_apart [of 0 2 8 4 e] regions_apart [of 0 2 12 4 e]
    regions_apart [of 2 2 6 2 e] regions_apart [of 2 2 8 4 e] regions_apart [of 2 2 12 4 e] regions_apart [of 6 2 8 4 e]
    regions_apart [of 6 2 12 4 e] regions_apart [of 8 4 12 4 e]
  by (simp_all add: Int_commute)

lemma gate_bytes:
  "e + 4 \<notin> region e 2" "e + 5 \<notin> region e 2" "e + 4 \<notin> region (e + 2) 2" "e + 5 \<notin> region (e + 2) 2"
  "e + 4 \<notin> region (e + 6) 2" "e + 5 \<notin> region (e + 6) 2" "e + 4 \<notin> region (e + 8) 4" "e + 5 \<notin> region (e + 8) 4"
  "e + 4 \<notin> region (e + 12) 4" "e + 5 \<notin> region (e + 12) 4"
  using in_region_off [of 0 2 _ e] in_region_off [of 2 2 _ e] in_region_off [of 6 2 _ e] in_region_off [of 8 4 _ e]
    in_region_off [of 12 4 _ e]
  by simp_all

lemma IdtSetEntry_gate: "gate_ok (mem (IdtSetEntry n h s)) (idt_addr s + of_nat (16 * n)) h"
  unfolding gate_ok_def gate_handler_def IdtSetEntry_def Let_def
  by (simp add: read16_disjoint read32_disjoint gate_regions gate_bytes write16_outside write32_outside handler_parts
      del: of_nat_mult)


lemma gate_cong:
  assumes "\<And>x. x \<in> region e 16 \<Longrightarrow> m x = m' x"
  shows "gate_ok m e h = gate_ok m' e h"
proof -
  have sub: "x \<in> region e 16" if "x \<in> region (e + of_nat k) n" "k + n \<le> 16" for x k n
    using region_sub [OF that(1)] that(2) by simp
  have "load_le 2 m e = load_le 2 m' e" using sub [of _ 0 2] by (intro load_le_region_cong assms) simp_all
  moreover have "load_le 2 m (e + 2) = load_le 2 m' (e + 2)" using sub [of _ 2 2] by (intro load_le_region_cong assms) simp_all
  moreover have "load_le 2 m (e + 6) = load_le 2 m' (e + 6)" using sub [of _ 6 2] by (intro load_le_region_cong assms) simp_all
  moreover have "load_le 4 m (e + 8) = load_le 4 m' (e + 8)" using sub [of _ 8 4] by (intro load_le_region_cong assms) simp_all
  moreover have "m (e + 4) = m' (e + 4)" "m (e + 5) = m' (e + 5)"
    by (intro assms, simp add: region_def)+
  ultimately show ?thesis by (simp add: gate_ok_def gate_handler_def read16_def read32_def)
qed

lemma IdtSetEntry_outside:
  assumes "x \<notin> region (idt_addr s + of_nat (16 * n)) 16"
  shows "mem (IdtSetEntry n h s) x = mem s x"
proof -
  let ?e = "idt_addr s + of_nat (16 * n)"
  have sub: "x \<notin> region (?e + of_nat k) l" if "k + l \<le> 16" for k l
    using region_sub [of x ?e k l 16] that assms by auto
  have "x \<noteq> ?e + 4" "x \<noteq> ?e + 5" using sub [of 4 1] sub [of 5 1] by (auto simp: region_def)
  then show ?thesis
    using sub [of 0 2] sub [of 2 2] sub [of 6 2] sub [of 8 4] sub [of 12 4]
    by (simp add: IdtSetEntry_def Let_def write16_outside write32_outside del: of_nat_mult)
qed

definition gates_ok :: "nat set \<Rightarrow> 'a cpu_scheme \<Rightarrow> bool" where
  "gates_ok G s \<longleftrightarrow> (\<forall>n \<in> G. gate_ok (mem s) (idt_addr s + of_nat (16 * n)) (stub s n))"

lemma IdtSetEntry_frame [simp]:
  "idt_addr (IdtSetEntry n h s) = idt_addr s" "isr_stub (IdtSetEntry n h s) = isr_stub s"
  "errorIsr_stub (IdtSetEntry n h s) = errorIsr_stub s" "stub (IdtSetEntry n h s) = stub s"
  "io_log (IdtSetEntry n h s) = io_log s"
  by (simp_all add: IdtSetEntry_def Let_def stub_def fun_eq_iff)

lemma gates_ok_entry:
  assumes "gates_ok G s" "G \<subseteq> {..<256}" "n < 256"
  shows "gates_ok (insert n G) (IdtSetEntry n (stub s n) s)"
  unfolding gates_ok_def
proof
  fix k assume k: "k \<in> insert n G"
  show "gate_ok (mem (IdtSetEntry n (stub s n) s)) (idt_addr (IdtSetEntry n (stub s n) s) + of_nat (16 * k))
      (stub (IdtSetEntry n (stub s n) s) k)"
  proof (cases "k = n")
    case True
    then show ?thesis using IdtSetEntry_gate [of n "stub s n" s] by (simp del: of_nat_mult)
  next
    case False
    then have kG: "k \<in> G" "k < 256" using k assms(2) by auto
    have "region (idt_addr s + of_nat (16 * n)) 16 \<inter> region (idt_addr s + of_nat (16 * k)) 16 = {}"
      using False kG(2) assms(3) regions_apart [of "16 * n" 16 "16 * k" 16 "idt_addr s"]
        regions_apart [of "16 * k" 16 "16 * n" 16 "idt_addr s"]
      by (cases "n < k") (auto simp del: of_nat_mult)
    then have "mem (IdtSetEntry n (stub s n) s) x = mem s x" if "x \<in> region (idt_addr s + of_nat (16 * k)) 16" for x
      using that by (intro IdtSetEntry_outside) blast
    then have "gate_ok (mem (IdtSetEntry n (stub s n) s)) (idt_addr s + of_nat (16 * k)) (stub s k)
        = gate_ok (mem s) (idt_addr s + of_nat (16 * k)) (stub s k)" by (rule gate_cong)
    then show ?thesis using assms(1) kG(1) by (simp add: gates_ok_def del: of_nat_mult)
  qed
qed

lemma gates_ok_fold:
  "gates_ok G s \<Longrightarrow> G \<subseteq> {..<256} \<Longrightarrow> set ns \<subseteq> {..<256} \<Longrightarrow>
   let t = fold (\<lambda>n s. IdtSetEntry n (stub s n) s) ns s
   in gates_ok (G \<union> set ns) t \<and> idt_addr t = idt_addr s \<and> stub t = stub s \<and> io_log t = io_log s"
proof (induction ns arbitrary: G s)
  case (Cons n ns)
  then have "gates_ok (insert n G) (IdtSetEntry n (stub s n) s)" by (intro gates_ok_entry) simp_all
  from Cons.IH [OF this] Cons.prems show ?case by (simp add: Let_def)
qed simp

lemma isr_stub_high: "32 \<le> n \<Longrightarrow> isr_stub s n = stub s n"
  by (auto simp: stub_def error_vectors_def)

lemma fold_high:
  "\<forall>n \<in> set ns. 32 \<le> n \<Longrightarrow>
   fold (\<lambda>n s. IdtSetEntry n (isr_stub s n) s) ns s = fold (\<lambda>n s. IdtSetEntry n (stub s n) s) ns s"
  by (induction ns arbitrary: s) (simp_all add: isr_stub_high)

lemma RemapPIC_frame [simp]:
  "mem (RemapPIC s) = mem s" "gates_ok G (RemapPIC s) = gates_ok G s" "idt_addr (RemapPIC s) = idt_addr s" "stub (RemapPIC s) = stub s"
  by (simp_all add: RemapPIC_def io_simps gates_ok_def stub_def fun_eq_iff)

lemma gates_ok_range:
  assumes "gates_ok {..<a} s" "a \<le> b" "b \<le> 256"
  defines "t \<equiv> fold (\<lambda>n s. IdtSetEntry n (stub s n) s) [a..<b] s"
  shows "gates_ok {..<b} t" "idt_addr t = idt_addr s" "stub t = stub s"
proof -
  have "{..<a} \<subseteq> {..<256}" "set [a..<b] \<subseteq> {..<256}" using assms(2,3) by auto
  note f = gates_ok_fold [OF assms(1) this]
  have "{..<a} \<union> set [a..<b] = {..<b}" using assms(2) by auto
  then show "gates_ok {..<b} t" "idt_addr t = idt_addr s" "stub t = stub s"
    using f by (simp_all add: Let_def t_def)
qed

lemma InstallISR_gates:
  "gates_ok {..<256} (InstallISR s) \<and> idt_addr (InstallISR s) = idt_addr s \<and> stub (InstallISR s) = stub s"
proof -
  have g: "gates_ok {..<0} s" by (simp add: gates_ok_def)
  have n: "(0 :: nat) \<le> 32" "32 \<le> (256 :: nat)" "(32 :: nat) \<le> 145" "145 \<le> (256 :: nat)" "(256 :: nat) \<le> 256" by simp_all
  note 1 = gates_ok_range [OF g n(1,2), folded install_exceptions_def]
  have 2: "gates_ok {..<32} (RemapPIC (install_exceptions s))" "idt_addr (RemapPIC (install_exceptions s)) = idt_addr s"
    "stub (RemapPIC (install_exceptions s)) = stub s" unfolding RemapPIC_frame by (rule 1)+
  have h: "\<forall>n \<in> set [a..<b]. 32 \<le> n" if "32 \<le> a" for a b :: nat using that by auto
  have i: "install_irqs t = fold (\<lambda>n s. IdtSetEntry n (stub s n) s) [32..<145] t" for t :: "'a cpu_scheme"
    unfolding install_irqs_def by (rule fold_high [OF h]) (rule order_refl)
  have r: "install_rest t = fold (\<lambda>n s. IdtSetEntry n (stub s n) s) [145..<256] t" for t :: "'a cpu_scheme"
    unfolding install_rest_def by (rule fold_high [OF h]) (rule n(3))
  note 3 = gates_ok_range [OF 2(1) n(3,4), folded i]
  note 4 = gates_ok_range [OF 3(1) n(4,5), folded r]
  show ?thesis unfolding InstallISR_def using 4 3(2,3) 2(2,3) by metis
qed

subsection \<open>The running kernel\<close>

text \<open>After start-up the kernel only runs in its interrupt handlers: a step is one hardware interrupt.\<close>

inductive kernel_step :: "'a cpu_scheme \<Rightarrow> 'a cpu_scheme \<Rightarrow> bool" where
  irq: "32 \<le> isrNumber r \<Longrightarrow> isr_handler r s = Some t \<Longrightarrow> kernel_step s t"

inductive_cases kernel_stepE: "kernel_step s t"

inductive kernel_runs :: "'a cpu_scheme \<Rightarrow> 'a cpu_scheme \<Rightarrow> bool" where
  start: "kernel_runs s s"
| step: "kernel_runs s t \<Longrightarrow> kernel_step t u \<Longrightarrow> kernel_runs s u"

lemma line_ok_tick: "line_ok k (HandleTimer s) = line_ok k s"
  by (simp add: line_ok_def HandleTimer_def)

lemma line_ok_step: "kernel_step s t \<Longrightarrow> line_ok k s \<Longrightarrow> k + 1 < 2 ^ 32 \<Longrightarrow> line_ok (k + 1) t"
proof (elim kernel_stepE)
  fix r assume r: "32 \<le> isrNumber r" "isr_handler r s = Some t" and l: "line_ok k s" and k: "k + 1 < 2 ^ 32"
  let ?s = "if isrNumber r = 32 then HandleTimer s else s"
  have ls: "line_ok k ?s" using l by (simp add: line_ok_tick)
  obtain u where u: "(if isrNumber r = 33 then HandleKeyboard ?s else Some ?s) = Some u" "t = outb 0x20 0x20 (outb 0xA0 0x20 u)"
    using r by (auto simp: isr_handler_def Let_def bind_eq_Some_conv split: if_splits)
  then have "line_ok (k + 1) u"
    using line_ok_HandleKeyboard [OF ls k, of u] line_ok_mono [OF ls, of "k + 1"] by (auto split: if_splits)
  then show "line_ok (k + 1) t" unfolding u(2) by (simp add: line_ok_def io_simps)
qed

lemma line_ok_steps: "(kernel_step ^^ n) s t \<Longrightarrow> line_ok k s \<Longrightarrow> k + n < 2 ^ 32 \<Longrightarrow> line_ok (k + n) t"
proof (induction n arbitrary: t)
  case (Suc n)
  then obtain u where "(kernel_step ^^ n) s u" "kernel_step u t" by (auto elim: relpowp_Suc_E)
  then show ?case using Suc line_ok_step [of u t "k + n"] by simp
qed simp

lemma eoi_step: "kernel_step s t \<Longrightarrow> \<exists>l. io_log t = OutB 0x20 0x20 # OutB 0xA0 0x20 # l"
  by (elim kernel_stepE) (auto simp: isr_handler_def Let_def bind_eq_Some_conv io_simps split: if_splits)

lemma eoi_steps: "(kernel_step ^^ n) s t \<Longrightarrow> 0 < n \<Longrightarrow> \<exists>l. io_log t = OutB 0x20 0x20 # OutB 0xA0 0x20 # l"
  by (cases n) (auto elim!: relpowp_Suc_E dest: eoi_step)

text \<open>A hardware interrupt is handled, unless it is that of a keyboard key whose handling has no
  result: caps lock, or enter with a command that does not return.\<close>

lemma isr_handler_returns:
  "32 \<le> isrNumber r \<Longrightarrow> isrNumber r \<noteq> 33 \<or> \<not> isEnabled s \<or> ucast (port_in s (io_log s) 0x60) \<notin> {58, 0x1C :: u8}
   \<Longrightarrow> isr_handler r s \<noteq> None"
  using HandleKeyboard_returns [of s] by (auto simp: isr_handler_def Let_def not_less [symmetric])


subsection \<open>Properties\<close>

text \<open>The small terminal with the interrupt table at 0x8000 and stubs at 0x9000 and 0xA000.\<close>

definition small_cpu :: cpu where
  "small_cpu = shell.extend small_shell
     (cpu.fields 0x7000 0x8000 (\<lambda>n. 0x9000 + of_nat n) (\<lambda>n. 0xA000 + of_nat n))"

lemma small_cpu_fields:
  "idt_addr small_cpu = 0x8000" "errorIsr_stub small_cpu 13 = 0xA00D" "input small_cpu = 0x6000"
  "commandPrompt small_cpu = 0x6000" "inputLen small_cpu = 0"
  by (simp_all add: small_cpu_def small_shell_def small_timer_def small_store_def small_disk_def small_io_def small_screen_def
      gfx.defs io.defs ahci.defs storage.defs timer.defs kbd.defs shell.defs cpu.defs)

text \<open>C16: After the set-up of interrupts the table the processor is pointed at has, for every vector,
  a present interrupt gate in the kernel's code segment that leads to the stub of that vector.\<close>

theorem SetupInterrupts_gates:
  "(\<forall>n < 256. gate_ok (mem (SetupInterrupts s)) (idt_addr s + of_nat (16 * n))
       (if n \<in> {8, 10, 11, 12, 13, 14} then errorIsr_stub s n else isr_stub s n))
   \<and> (\<exists>l. io_log (SetupInterrupts s) = Sti # Lidt 4095 (idt_addr s) # l)"
proof
  have g: "gates_ok {..<256} (InstallISR s)" "idt_addr (InstallISR s) = idt_addr s" "stub (InstallISR s) = stub s"
    using InstallISR_gates [of s] by blast+
  have m: "mem (SetupInterrupts s) = mem (InstallISR s)"
    by (simp add: SetupInterrupts_def InitializeIDT_def Let_def event_def)
  show "\<forall>n < 256. gate_ok (mem (SetupInterrupts s)) (idt_addr s + of_nat (16 * n))
       (if n \<in> {8, 10, 11, 12, 13, 14} then errorIsr_stub s n else isr_stub s n)"
    using g unfolding m gates_ok_def by (simp add: stub_def error_vectors_def del: of_nat_mult)
  show "\<exists>l. io_log (SetupInterrupts s) = Sti # Lidt 4095 (idt_addr s) # l"
    using g(2) by (simp add: SetupInterrupts_def InitializeIDT_def Let_def event_def)
qed

theorem SetupInterrupts_gates_witness: "gate_ok (mem (SetupInterrupts small_cpu)) 0x80D0 0xA00D"
proof -
  have "gate_ok (mem (SetupInterrupts small_cpu)) (idt_addr small_cpu + of_nat (16 * 13))
      (if (13 :: nat) \<in> {8, 10, 11, 12, 13, 14} then errorIsr_stub small_cpu 13 else isr_stub small_cpu 13)"
    by (rule conjunct1 [OF SetupInterrupts_gates, rule_format]) simp
  then show ?thesis by (simp add: small_cpu_fields)
qed

text \<open>C15: The stubs hand the handler the number of the vector and restore the general registers in any
  case. The processor also pushes an error code for the vectors 17, 21, 29 and 30, whose stubs push
  another: for these the return frame starts one word early, at the error code, and the handler sees
  the error code as the instruction pointer; all other interrupts return to where they came from.\<close>

theorem interrupt_returns:
  assumes "length regs = 15" "length frame = 5"
  shows "isr_return (interrupt_stack n err fs regs frame)
      = (regs, if n \<in> {17, 21, 29, 30} then err # take 4 frame else frame)
    \<and> isrNumber (registers_at (interrupt_stack n err fs regs frame)) = of_nat n
    \<and> rip (registers_at (interrupt_stack n err fs regs frame)) = (if n \<in> {17, 21, 29, 30} then err else hd frame)"
proof -
  obtain r15 r14 r13 r12 r11 r10 r9 r8 rsi rdi rbp rdx rcx rbx rax where r:
    "regs = [rax, rbx, rcx, rdx, rbp, rdi, rsi, r8, r9, r10, r11, r12, r13, r14, r15]"
    using assms(1) by (auto simp: numeral_eq_Suc length_Suc_conv)
  obtain ip sg fl sp st where f: "frame = [ip, sg, fl, sp, st]"
    using assms(2) by (auto simp: numeral_eq_Suc length_Suc_conv)
  show ?thesis
    by (auto simp: r f isr_return_def interrupt_stack_def stub_entry_def isr_entry_def errorIsr_entry_def cpu_pushes_def
        error_vectors_def hw_error_vectors_def popall_def pushall_rev registers_at_def Let_def)
qed

theorem interrupt_returns_witness:
  "snd (isr_return (interrupt_stack 14 7 0 (replicate 15 1) [0x1000, 8, 2, 0x5000, 16])) = [0x1000, 8, 2, 0x5000, 16]
   \<and> snd (isr_return (interrupt_stack 17 7 0 (replicate 15 1) [0x1000, 8, 2, 0x5000, 16])) = [7, 0x1000, 8, 2, 0x5000]"
  using interrupt_returns [of "replicate 15 1" "[0x1000, 8, 2, 0x5000, 16]"] by simp

text \<open>C14: After any \<open>n\<close> hardware interrupts whose handlers return, in any order and with whatever
  commands run, starting from a line of at most \<open>k\<close> characters, the pointer into the line buffer is
  exactly as many bytes behind its start as the length says, and these are at most \<open>k + n\<close>; so it
  stays inside the 256 bytes of the buffer for \<open>k + n < 256\<close>, which is all that keeps it there, since
  the code does not check. Every interrupt is acknowledged to both controllers. The next interrupt's
  handler returns in its turn, unless it is the keyboard's with caps lock or enter.\<close>

theorem kernel_keeps_line:
  assumes "(kernel_step ^^ n) s t" "line_ok k s" "k + n < 2 ^ 32"
  shows "input t = commandPrompt t + ucast (inputLen t) \<and> unat (inputLen t) \<le> k + n
    \<and> (k + n < 0x100 \<longrightarrow> input t \<in> region (commandPrompt t) 0x100)
    \<and> (0 < n \<longrightarrow> (\<exists>l. io_log t = OutB 0x20 0x20 # OutB 0xA0 0x20 # l))
    \<and> (\<forall>r. 32 \<le> isrNumber r \<longrightarrow> isrNumber r \<noteq> 33 \<or> \<not> isEnabled t
          \<or> ucast (port_in t (io_log t) 0x60) \<notin> {58, 0x1C :: u8} \<longrightarrow> isr_handler r t \<noteq> None)"
proof -
  have l: "line_ok (k + n) t" using assms by (rule line_ok_steps)
  then have "input t = commandPrompt t + ucast (inputLen t)" "unat (inputLen t) \<le> k + n"
    by (simp_all add: line_ok_def)
  then show ?thesis
    using line_ok_in_buffer [OF l] eoi_steps [OF assms(1)] isr_handler_returns [of _ t] by blast
qed

theorem kernel_keeps_line_witness:
  "\<exists>t. kernel_step small_cpu t \<and> input t = commandPrompt t + ucast (inputLen t)
    \<and> input t \<in> region (commandPrompt t) 0x100"
proof -
  let ?r = "registers_at (interrupt_stack 32 0 0 (replicate 15 0) [0, 8, 2, 0, 16])"
  have n: "isrNumber ?r = 32"
    by (simp add: interrupt_stack_def stub_entry_def isr_entry_def cpu_pushes_def error_vectors_def hw_error_vectors_def
        pushall_rev registers_at_def numeral_eq_Suc)
  let ?t = "outb 0x20 0x20 (outb 0xA0 0x20 (HandleTimer small_cpu))"
  have "isr_handler ?r small_cpu = Some ?t" by (simp add: isr_handler_def n Let_def)
  then have r: "kernel_step small_cpu ?t" using n by (intro kernel_step.irq [of ?r]) simp_all
  moreover have "(kernel_step ^^ 1) small_cpu ?t" using r by (simp add: eq_OO)
  moreover have "line_ok 0 small_cpu" by (simp add: line_ok_def small_cpu_fields)
  ultimately show ?thesis using kernel_keeps_line [of 1 small_cpu ?t 0] by fastforce
qed

end
