(* ===== verification/PciNames.thy ===== *)
theory PciNames
  imports Prelude
begin

text \<open>
  The names of PCI devices, \<open>kernel/src/system/pci/pciDevicesInfo.cpp\<close>. A name is a literal or the
  hexadecimal number that \<open>to_hstring\<close> prints. A case without \<open>break\<close> falls into the next one.
\<close>

datatype pci_name = Literal string | Hstring u16

definition getVendorName :: "u16 \<Rightarrow> pci_name" where
  "getVendorName vendorId =
     Literal (if vendorId = 0x8086 then ''Intel''
       else if vendorId = 0x1028 then ''Dell''
       else if vendorId = 0x1043 then ''Asus''
       else if vendorId = 0x1022 then ''AMD''
       else if vendorId = 0x1025 then ''Acer''
       else ''Unknown'')"

definition getFunction :: "u16 \<Rightarrow> u16 \<Rightarrow> pci_name" where
  "getFunction classCode subClass =
     (if classCode = 0x1 then
        (if subClass = 0x6 then Literal ''Serial ATA Controller''
         else if subClass = 0x8 then Literal ''Storage Controller''
         else Hstring subClass)
      else if classCode = 0x2 then
        (if subClass = 0x0 then Literal ''Ethernet Controller''
         else if subClass = 0x1 then Literal ''Token Ring Controller''
         else if subClass = 0x2 then Literal ''FDDI Controller''
         else if subClass = 0x3 then Literal ''ATM Controller''
         else if subClass = 0x4 then Literal ''ISDN Controller''
         else Hstring subClass)
      else if classCode = 0x3 then
        (if subClass = 0x0 then Literal ''VGA Controller'' else Literal ''Display Controller'')
      else if classCode = 0x6 then
        (if subClass = 0x0 then Literal ''Host Bridge''
         else if subClass = 0x1 then Literal ''ISA Bridge''
         else if subClass = 0x4 then Literal ''PCI-to-PCI Bridge''
         else if subClass = 0x9 then Literal ''PCI-to-PCI Bridge''
         else Hstring subClass)
      else if classCode = 0xc then
        (if subClass = 0x3 then Literal ''USB Controller'' else Literal ''Serial Bus Cotroller'')
      else Hstring classCode)"

definition getDeviceName :: "u16 \<Rightarrow> u16 \<Rightarrow> pci_name" where
  "getDeviceName vendorID deviceID =
     (if vendorID = 0x8086 \<and> deviceID = 0x29C0 then Literal ''Express DRAM Controller''
      else if vendorID = 0x8086 \<and> deviceID = 0x2918 then Literal ''LPC Interface Controller''
      else if vendorID = 0x8086 \<and> deviceID = 0x2922 then Literal ''6 port SATA Controller [AHCI mode]''
      else if vendorID = 0x8086 \<and> deviceID = 0x2930 then Literal ''SMBus Controller''
      else Hstring deviceID)"

text \<open>The case of the serial buses, into which the bridges fall when they are not PCI to PCI.\<close>

definition bus_interface :: "u16 \<Rightarrow> u16 \<Rightarrow> u16 \<Rightarrow> pci_name" where
  "bus_interface classCode subClass progIf =
     (if subClass = 0x3 then
        (if progIf = 0x0 then Literal ''UHCI Controller''
         else if progIf = 0x10 then Literal ''OHCI Controller''
         else if progIf = 0x20 then Literal ''EHCI (USB2) Controller''
         else if progIf = 0x30 then Literal ''XHCI (USB3) Controller''
         else if progIf = 0x80 then Literal ''Unspecified''
         else if progIf = 0xFE then Literal ''USB Device (Not a host controller)''
         else Hstring classCode)
      else Hstring classCode)"

definition getInterface :: "u16 \<Rightarrow> u16 \<Rightarrow> u16 \<Rightarrow> pci_name" where
  "getInterface classCode subClass progIf =
     (if classCode = 0x1 then
        (if subClass = 0x6 \<and> progIf = 0x0 then Literal ''Vendor Specific Interface''
         else if subClass = 0x6 \<and> progIf = 0x1 then Literal ''AHCI 1.0''
         else if subClass = 0x6 \<and> progIf = 0x2 then Literal ''Serial Storage Bus''
         else Hstring progIf)
      else if classCode = 0x6 then
        (if subClass = 0x4
         then (if progIf = 0x0 then Literal ''Normal Decode'' else Literal ''Subtractive Decode'')
         else bus_interface classCode subClass progIf)
      else if classCode = 0xc then bus_interface classCode subClass progIf
      else Hstring classCode)"

text \<open>A bridge of class 6 and subclass 3 gets the name of a USB controller.\<close>

lemma getInterface_falls_through: "getInterface 0x6 0x3 p = getInterface 0xc 0x3 p \<or> getInterface 0x6 0x3 p = Hstring 0x6"
  by (simp add: getInterface_def bus_interface_def)

end
