(* ===== verification/KernelInit.thy ===== *)
theory KernelInit
  imports Interrupts PciNames
begin

text \<open>
  Start-up: \<open>InitializeKernel\<close> and \<open>SetupACPI\<close> of \<open>kernel/src/kernelUtil.cpp\<close> and the entry point in
  \<open>kernel.cpp\<close>, up to the loop that halts between interrupts; what happens from there on are the
  steps of \<open>kernel_step\<close>. The argument \<open>strict\<close> says whether the processor checks the reserved bits of CR0.
\<close>

text \<open>The font the boot loader left in memory.\<close>

definition font_at :: "memory \<Rightarrow> u64 \<Rightarrow> PSF1_FONT" where
  "font_at m p =
     (let h = read64 m p
      in \<lparr>font_magic0 = m h, font_magic1 = m (h + 1), fontMode = m (h + 2), characterSize = m (h + 3),
          glyphBuffer = read64 m (p + 8)\<rparr>)"

definition SetupACPI :: "u64 \<Rightarrow> 'a cpu_scheme \<Rightarrow> 'a cpu_scheme option" where
  "SetupACPI rsdp s = do {
     mcfg \<leftarrow> FindTable (mem s) rsdp (lit ''MCFG'');
     EnumeratePIC s
   }"

definition InitializeKernel :: "bool \<Rightarrow> BootInfo \<Rightarrow> u64 \<Rightarrow> u64 \<Rightarrow> 'a cpu_scheme \<Rightarrow> 'a cpu_scheme option" where
  "InitializeKernel strict bootInfo kernelStart kernelEnd s = do {
     let s = BasicRenderer (bi_frameBuffer bootInfo) (font_at (mem s) (bi_font bootInfo)) s;
     s \<leftarrow> PrepareMemory strict bootInfo kernelStart kernelEnd s;
     let s = SetupInterrupts (SetupGDT s);
     s \<leftarrow> SetupACPI (bi_rsdp bootInfo) s;
     let s = InitializeHeap s;
     InitializeDrive s
   }"

definition kernel_start :: "bool \<Rightarrow> BootInfo \<Rightarrow> u64 \<Rightarrow> u64 \<Rightarrow> 'a cpu_scheme \<Rightarrow> 'a cpu_scheme option" where
  "kernel_start strict bootInfo kernelStart kernelEnd s = do {
     s \<leftarrow> InitializeKernel strict bootInfo kernelStart kernelEnd s;
     let s = PrintNL_lit ''--- MadOS ---'' s;
     let s = NextLine (NextLine s);
     InitializeTerminal s
   }"

text \<open>The kernel enters its loop with a consistent, empty line.\<close>

lemma kernel_start_line:
  "kernel_start strict bootInfo kernelStart kernelEnd s = Some t \<Longrightarrow>
   line_ok 0 t \<and> isEnabled t \<and> inputLen t = 0 \<and> input t = commandPrompt t"
  by (auto simp: kernel_start_def InitializeTerminal_def bind_eq_Some_conv Let_def line_ok_TakePrompt
      TakePrompt_def ReceiveInput_def EnableKeyboard_def line_ok_def)

end
