(* ===== verification/Bootloader.thy ===== *)
theory Bootloader
  imports EfiLib KernelInit
begin

text \<open>
  The boot loader, \<open>gnu-efi/bootloader/main.c\<close>: it loads the segments of the kernel, finds the frame
  buffer, the font, the memory map and the ACPI root pointer and jumps to the kernel. Protocol
  interfaces and files of the firmware are addresses; the variables on the stack whose address goes
  to the firmware or that are read before they are set have their address or value in \<open>locals\<close>.
  \<open>Print\<close> adds its format, without the line end, and its arguments to a log.
\<close>

record 'f loader_uefi = "'f uefi" +
  sv_LocateProtocol :: "protocol \<Rightarrow> 'f \<Rightarrow> u64 \<times> u64 option \<times> 'f"
  sv_QueryMode :: "u64 \<Rightarrow> u32 \<Rightarrow> 'f \<Rightarrow> u64 \<times> 'f"
  sv_SetMode :: "u64 \<Rightarrow> u32 \<Rightarrow> memory \<Rightarrow> 'f \<Rightarrow> u64 \<times> memory \<times> 'f"
  sv_OpenVolume :: "u64 \<Rightarrow> 'f \<Rightarrow> u64 option \<times> 'f"
  sv_Open :: "u64 \<Rightarrow> string \<Rightarrow> 'f \<Rightarrow> u64 \<times> u64 option \<times> 'f"
  sv_Read :: "u64 \<Rightarrow> u64 \<Rightarrow> u64 \<Rightarrow> memory \<Rightarrow> 'f \<Rightarrow> u64 \<times> memory \<times> 'f"
  sv_SetPosition :: "u64 \<Rightarrow> u64 \<Rightarrow> 'f \<Rightarrow> 'f"
  sv_GetInfo :: "u64 \<Rightarrow> u64 \<Rightarrow> u64 \<Rightarrow> memory \<Rightarrow> 'f \<Rightarrow> u64 \<times> memory \<times> 'f"
  sv_AllocatePages :: "u64 \<Rightarrow> u64 \<Rightarrow> 'f \<Rightarrow> u64 \<times> 'f"
  sv_ExitBootServices :: "u64 \<Rightarrow> u64 \<Rightarrow> 'f \<Rightarrow> 'f"

record 'f loader = "'f efi_state" +
  console :: "(string \<times> u64 list) list"
  frameBuffer :: FrameBuffer

record locals =
  header_addr :: u64
  FileInfo_addr :: u64
  acpiGuid_addr :: u64
  NewEFIDebug_addr :: u64
  FileInfoSize_init :: u64
  MapSize_init :: u64

definition Print_msg :: "string \<Rightarrow> u64 list \<Rightarrow> ('f, 'z) loader_scheme \<Rightarrow> ('f, 'z) loader_scheme" where
  "Print_msg fmt args s = s\<lparr>console := (fmt, args) # console s\<rparr>"

text \<open>The firmware's own \<open>AllocatePool\<close>, with memory of type \<open>EfiLoaderData\<close>; its status is ignored.\<close>

definition bs_AllocatePool :: "'f loader_uefi \<Rightarrow> u64 \<Rightarrow> ('f, 'z) loader_scheme \<Rightarrow> u64 option \<times> ('f, 'z) loader_scheme" where
  "bs_AllocatePool sv n s =
     (let (Status, p, f) = sv_AllocatePool sv 2 n (firmware s) in (p, s\<lparr>firmware := f\<rparr>))"

definition file_read :: "'f loader_uefi \<Rightarrow> u64 \<Rightarrow> u64 \<Rightarrow> u64 \<Rightarrow> ('f, 'z) loader_scheme \<Rightarrow> u64 \<times> ('f, 'z) loader_scheme" where
  "file_read sv file sz buf s =
     (let (sz, m, f) = sv_Read sv file sz buf (mem s) (firmware s) in (sz, s\<lparr>mem := m, firmware := f\<rparr>))"

definition file_seek :: "'f loader_uefi \<Rightarrow> u64 \<Rightarrow> u64 \<Rightarrow> ('f, 'z) loader_scheme \<Rightarrow> ('f, 'z) loader_scheme" where
  "file_seek sv file p s = s\<lparr>firmware := sv_SetPosition sv file p (firmware s)\<rparr>"

subsection \<open>The frame buffer\<close>

text \<open>The interface points to its mode at offset 24; the mode holds the numbers of modes, the pointer
  to the information and the frame buffer.\<close>

definition gop_Mode :: "memory \<Rightarrow> u64 \<Rightarrow> u64" where "gop_Mode m gop = read64 m (gop + 24)"
definition MaxMode :: "memory \<Rightarrow> u64 \<Rightarrow> u32" where "MaxMode m mode = read32 m mode"
definition Mode_number :: "memory \<Rightarrow> u64 \<Rightarrow> u32" where "Mode_number m mode = read32 m (mode + 4)"
definition gop_Info :: "memory \<Rightarrow> u64 \<Rightarrow> u64" where "gop_Info m mode = read64 m (mode + 8)"

definition gop_FrameBuffer :: "memory \<Rightarrow> u64 \<Rightarrow> FrameBuffer" where
  "gop_FrameBuffer m mode =
     \<lparr>BaseAddress = read64 m (mode + 24), BufferSize = read64 m (mode + 32),
      Width = read32 m (gop_Info m mode + 4), Height = read32 m (gop_Info m mode + 8),
      PixelsPerScanline = read32 m (gop_Info m mode + 32)\<rparr>"

text \<open>The result is whether the pointer to the frame buffer is returned, not null. A null mode is used
  without a test after it was tested.\<close>

definition InitializeGOP :: "'f loader_uefi \<Rightarrow> ('f, 'z) loader_scheme \<Rightarrow> (bool \<times> ('f, 'z) loader_scheme) option" where
  "InitializeGOP sv s = do {
     let (status, v, f) = sv_LocateProtocol sv GraphicsOutputProtocol (firmware s);
     let s = s\<lparr>firmware := f\<rparr>;
     if EFI_ERROR status then Some (False, Print_msg ''Unable to locate GOP'' [] s)
     else do {
       gop \<leftarrow> v;
       let (status, f) = sv_QueryMode sv gop
             (if gop_Mode (mem s) gop = 0 then 0 else Mode_number (mem s) (gop_Mode (mem s) gop)) (firmware s);
       let s = s\<lparr>firmware := f\<rparr>;
       let (status, s) = (if status = EFI_NOT_STARTED then
                            let (status, m, f) = sv_SetMode sv gop 0 (mem s) (firmware s)
                            in (status, s\<lparr>mem := m, firmware := f\<rparr>)
                          else (status, s));
       if EFI_ERROR status then Some (False, Print_msg ''Unable to get GOP Native mode'' [] s)
       else
         let mode = gop_Mode (mem s) gop
         in if mode = 0 then None
            else
              let s = Print_msg ''Native Mode: %d, Max Modes: %d''
                        [ucast (Mode_number (mem s) mode), ucast (MaxMode (mem s) mode)] s
              in Some (True, s\<lparr>frameBuffer := gop_FrameBuffer (mem s) mode\<rparr>)
     }
   }"

subsection \<open>Files\<close>

text \<open>The device handle of a loaded image is its field at offset 24. A null pointer is 0.\<close>

definition LoadFile :: "'f loader_uefi \<Rightarrow> u64 \<Rightarrow> string \<Rightarrow> u64 \<Rightarrow> ('f, 'z) loader_scheme \<Rightarrow> (u64 \<times> ('f, 'z) loader_scheme) option" where
  "LoadFile sv Directory Path ImageHandle s = do {
     let (st, v, f) = sv_HandleProtocol sv ImageHandle LoadedImageProtocol (firmware s);
     LoadedImage \<leftarrow> v;
     let (st, v, f) = sv_HandleProtocol sv (read64 (mem s) (LoadedImage + 24)) SimpleFileSystemProtocol f;
     FileSystem \<leftarrow> v;
     let (d, f) = (if Directory = 0 then
                     let (r, f) = sv_OpenVolume sv FileSystem f in (case r of None \<Rightarrow> Directory | Some d \<Rightarrow> d, f)
                   else (Directory, f));
     let (status, v, f) = sv_Open sv d Path f;
     let s = s\<lparr>firmware := f\<rparr>;
     if status \<noteq> EFI_SUCCESS then Some (0, s)
     else do { LoadedFile \<leftarrow> v; Some (LoadedFile, s) }
   }"

definition LoadFont :: "'f loader_uefi \<Rightarrow> u64 \<Rightarrow> string \<Rightarrow> u64 \<Rightarrow> ('f, 'z) loader_scheme \<Rightarrow> (u64 \<times> ('f, 'z) loader_scheme) option" where
  "LoadFont sv Directory Path ImageHandle s = do {
     (font, s) \<leftarrow> LoadFile sv Directory Path ImageHandle s;
     if font = 0 then Some (0, Print_msg ''Could not load Font'' [] s)
     else do {
       let (p, s) = bs_AllocatePool sv 4 s;
       fontHeader \<leftarrow> p;
       let (sz, s) = file_read sv font 4 fontHeader s;
       if mem s fontHeader \<noteq> 0x36 \<and> mem s (fontHeader + 1) \<noteq> 0x04
       then Some (0, Print_msg ''Magic Number did not match %d'' [ucast (mem s fontHeader)] s)
       else do {
         let characterSize = (ucast (mem s (fontHeader + 3)) :: u64);
         let glyphBufferSize = (if mem s (fontHeader + 2) = 1 then characterSize * 512 else characterSize * 256);
         let s = file_seek sv font 4 s;
         let (p, s) = bs_AllocatePool sv glyphBufferSize s;
         glyphBuffer \<leftarrow> p;
         let (sz, s) = file_read sv font glyphBufferSize glyphBuffer s;
         let (p, s) = bs_AllocatePool sv 16 s;
         finalFont \<leftarrow> p;
         let m = write64 (write64 (mem s) finalFont fontHeader) (finalFont + 8) glyphBuffer;
         Some (finalFont, s\<lparr>mem := m\<rparr>)
       }
     }
   }"

text \<open>The two comparisons take their pointers as functions of the offset. \<open>strcmp\<close> never moves on.\<close>

fun memcmp_loop :: "nat \<Rightarrow> u64 \<Rightarrow> (u64 \<Rightarrow> u8) \<Rightarrow> (u64 \<Rightarrow> u8) \<Rightarrow> int" where
  "memcmp_loop 0 i a b = 0"
| "memcmp_loop (Suc n) i a b = (if a i < b i then - 1 else if a i > b i then 1 else memcmp_loop n (i + 1) a b)"

definition memcmp :: "(u64 \<Rightarrow> u8) \<Rightarrow> (u64 \<Rightarrow> u8) \<Rightarrow> u64 \<Rightarrow> int" where
  "memcmp a b n = memcmp_loop (unat n) 0 a b"

fun strcmp_rounds :: "nat \<Rightarrow> (u64 \<Rightarrow> u8) \<Rightarrow> (u64 \<Rightarrow> u8) \<Rightarrow> bool" where
  "strcmp_rounds 0 a b = True"
| "strcmp_rounds (Suc n) a b = (if a 0 \<noteq> b 0 then False else strcmp_rounds n a b)"

definition loader_strcmp :: "(u64 \<Rightarrow> u8) \<Rightarrow> (u64 \<Rightarrow> u8) \<Rightarrow> u64 \<Rightarrow> bool" where
  "loader_strcmp a b len = strcmp_rounds (unat len) a b"

text \<open>A string literal and the bytes at an address.\<close>

definition literal :: "u8 list \<Rightarrow> u64 \<Rightarrow> u8" where
  "literal bs i = (if unat i < length bs then bs ! unat i else 0)"

definition bytes_of :: "memory \<Rightarrow> u64 \<Rightarrow> u64 \<Rightarrow> u8" where
  "bytes_of m p i = m (p + i)"

subsection \<open>The kernel image\<close>

definition e_type :: "memory \<Rightarrow> u64 \<Rightarrow> u16" where "e_type m h = read16 m (h + 16)"
definition e_machine :: "memory \<Rightarrow> u64 \<Rightarrow> u16" where "e_machine m h = read16 m (h + 18)"
definition e_version :: "memory \<Rightarrow> u64 \<Rightarrow> u32" where "e_version m h = read32 m (h + 20)"
definition e_entry :: "memory \<Rightarrow> u64 \<Rightarrow> u64" where "e_entry m h = read64 m (h + 24)"
definition e_phoff :: "memory \<Rightarrow> u64 \<Rightarrow> u64" where "e_phoff m h = read64 m (h + 32)"
definition e_phentsize :: "memory \<Rightarrow> u64 \<Rightarrow> u16" where "e_phentsize m h = read16 m (h + 54)"
definition e_phnum :: "memory \<Rightarrow> u64 \<Rightarrow> u16" where "e_phnum m h = read16 m (h + 56)"

definition p_type :: "memory \<Rightarrow> u64 \<Rightarrow> u32" where "p_type m p = read32 m p"
definition p_offset :: "memory \<Rightarrow> u64 \<Rightarrow> u64" where "p_offset m p = read64 m (p + 8)"
definition p_paddr :: "memory \<Rightarrow> u64 \<Rightarrow> u64" where "p_paddr m p = read64 m (p + 24)"
definition p_filesz :: "memory \<Rightarrow> u64 \<Rightarrow> u64" where "p_filesz m p = read64 m (p + 32)"
definition p_memsz :: "memory \<Rightarrow> u64 \<Rightarrow> u64" where "p_memsz m p = read64 m (p + 40)"

definition header_ok :: "memory \<Rightarrow> u64 \<Rightarrow> bool" where
  "header_ok m h \<longleftrightarrow>
     \<not> (memcmp (bytes_of m h) (literal [0x7f, 0x45, 0x4c, 0x46]) 4 \<noteq> 0 \<or> m (h + 4) \<noteq> 2 \<or> m (h + 5) \<noteq> 1
        \<or> e_type m h \<noteq> 2 \<or> e_machine m h \<noteq> 62 \<or> e_version m h \<noteq> 1)"

text \<open>A loadable segment: the number of pages is an \<open>int\<close>, which the call widens with its sign.\<close>

definition load_segment :: "'f loader_uefi \<Rightarrow> u64 \<Rightarrow> u64 \<Rightarrow> ('f, 'z) loader_scheme \<Rightarrow> ('f, 'z) loader_scheme" where
  "load_segment sv Kernel phdr s =
     (let pages = (ucast ((p_memsz (mem s) phdr + 0x1000 - 1) div 0x1000) :: u32);
          segment = p_paddr (mem s) phdr;
          (segment, f) = sv_AllocatePages sv (scast pages) segment (firmware s);
          s = file_seek sv Kernel (p_offset (mem s) phdr) (s\<lparr>firmware := f\<rparr>);
          (sz, s) = file_read sv Kernel (p_filesz (mem s) phdr) segment s
      in s)"

definition PT_LOAD :: u32 where "PT_LOAD = 1"

text \<open>The bytes of the program headers, an \<open>int\<close> that may overflow, which is undefined.\<close>

definition ph_bytes :: "memory \<Rightarrow> u64 \<Rightarrow> u64 option" where
  "ph_bytes m h =
     (let n = unat (e_phnum m h) * unat (e_phentsize m h) in if n < 2 ^ 31 then Some (of_nat n) else None)"

partial_function (option) load_segments ::
  "'f loader_uefi \<Rightarrow> u64 \<Rightarrow> u64 \<Rightarrow> u64 \<Rightarrow> u64 \<Rightarrow> ('f, 'z) loader_scheme \<Rightarrow> ('f, 'z) loader_scheme option" where
  "load_segments sv Kernel hdr phdrs phdr s = do {
     n \<leftarrow> ph_bytes (mem s) hdr;
     if phdr < phdrs + n then
       let s = (if p_type (mem s) phdr = PT_LOAD then load_segment sv Kernel phdr s else s)
       in load_segments sv Kernel hdr phdrs (phdr + ucast (e_phentsize (mem s) hdr)) s
     else Some s
   }"

definition load_kernel ::
  "'f loader_uefi \<Rightarrow> locals \<Rightarrow> u64 \<Rightarrow> ('f, 'z) loader_scheme \<Rightarrow> ('f, 'z) loader_scheme option" where
  "load_kernel sv lo Kernel s = do {
     let (FileInfoSize, m, f) = sv_GetInfo sv Kernel (FileInfoSize_init lo) 0 (mem s) (firmware s);
     let (FileInfo, s) = bs_AllocatePool sv FileInfoSize (s\<lparr>mem := m, firmware := f\<rparr>);
     let (FileInfoSize, m, f) = sv_GetInfo sv Kernel FileInfoSize (FileInfo_addr lo) (mem s) (firmware s);
     let h = header_addr lo;
     let (sz, s) = file_read sv Kernel 64 h (s\<lparr>mem := m, firmware := f\<rparr>);
     let s = Print_msg (if header_ok (mem s) h then ''Kernel header verified '' else ''Bad Kernel Format '') [] s;
     let s = file_seek sv Kernel (e_phoff (mem s) h) s;
     n \<leftarrow> ph_bytes (mem s) h;
     let (p, s) = bs_AllocatePool sv n s;
     phdrs \<leftarrow> p;
     let (sz, s) = file_read sv Kernel n phdrs s;
     load_segments sv Kernel h phdrs phdrs s
   }"

subsection \<open>The ACPI root pointer\<close>

definition rsd_ptr :: "u8 list" where
  "rsd_ptr = [0x52, 0x53, 0x44, 0x20, 0x50, 0x54, 0x52, 0x20]"

definition ACPI_20_TABLE_GUID :: "u8 list" where
  "ACPI_20_TABLE_GUID = [0x71, 0xe8, 0x68, 0x88, 0xf1, 0xe4, 0xd3, 0x11, 0xbc, 0x22, 0x00, 0x80, 0xc7, 0x3c, 0x88, 0x81]"

text \<open>The loop over the configuration tables with the rounds left: \<open>configTable\<close> is advanced in every
  round and indexed as well.\<close>

fun rsdp_loop :: "nat \<Rightarrow> u64 \<Rightarrow> memory \<Rightarrow> u64 \<Rightarrow> u64 \<Rightarrow> u64 \<Rightarrow> u64" where
  "rsdp_loop 0 i m configTable acpiGuid rsdp = rsdp"
| "rsdp_loop (Suc n) i m configTable acpiGuid rsdp =
     (let rsdp = (if CompareGuid m (VendorGuid_at (configTable + i * 24)) acpiGuid \<noteq> 0 then
                    if loader_strcmp (literal rsd_ptr) (bytes_of m (VendorTable m configTable)) 8
                    then VendorTable m configTable else rsdp
                  else rsdp)
      in rsdp_loop n (i + 1) m (configTable + 24) acpiGuid rsdp)"

definition find_rsdp :: "memory \<Rightarrow> u64 \<Rightarrow> u64 \<Rightarrow> u64" where
  "find_rsdp m SystemTable acpiGuid =
     rsdp_loop (unat (NumberOfTableEntries m SystemTable)) 0 m (ConfigurationTable m SystemTable) acpiGuid 0"

subsection \<open>The entry point\<close>

text \<open>What the loader hands over: the address of the kernel's entry point, and the boot information, with
  no frame buffer when its pointer is null.\<close>

record handoff =
  KernelStart :: u64
  ho_frameBuffer :: "FrameBuffer option"
  ho_font :: u64
  ho_memoryMap :: u64
  ho_mapSize :: u64
  ho_descriptorSize :: u64
  ho_rsdp :: u64

definition get_memory_map ::
  "'f loader_uefi \<Rightarrow> u64 \<Rightarrow> u64 \<Rightarrow> ('f, 'z) loader_scheme \<Rightarrow> u64 \<times> u64 \<times> (u64 \<times> u64 \<times> u32) option \<times> ('f, 'z) loader_scheme" where
  "get_memory_map sv MapSize buf s =
     (let (status, MapSize, out, m, f) = sv_GetMemoryMap sv MapSize buf (mem s) (firmware s)
      in (status, MapSize, out, s\<lparr>mem := m, firmware := f\<rparr>))"

definition efi_main ::
  "'f loader_uefi \<Rightarrow> locals \<Rightarrow> u64 \<Rightarrow> u64 \<Rightarrow> ('f, 'z) loader_scheme \<Rightarrow> (handoff \<times> ('f, 'z) loader_scheme) option" where
  "efi_main sv lo ImageHandle SystemTable s = do {
     s \<leftarrow> InitializeLib (sv) ImageHandle SystemTable (NewEFIDebug_addr lo) s;
     (Kernel, s) \<leftarrow> LoadFile sv 0 ''kernel.elf'' ImageHandle s;
     let s = Print_msg (if Kernel = 0 then ''Not loaded yet '' else ''Kernel File Successfully Loaded '') [] s;
     if Kernel = 0 then None
     else do {
       s \<leftarrow> load_kernel sv lo Kernel s;
       let entry = e_entry (mem s) (header_addr lo);
       let s = Print_msg ''Kernel Info Loaded successfully'' [] s;
       (newBuffer, s) \<leftarrow> InitializeGOP sv s;
       (font, s) \<leftarrow> LoadFont sv 0 ''font16.psf'' ImageHandle s;
       let s = (if font = 0 then Print_msg ''Failed to Load Font'' [] s
                else Print_msg ''Font Loaded with size %d'' [ucast (mem s (read64 (mem s) font + 3))] s);
       let (status, MapSize, out1, s) = get_memory_map sv (MapSize_init lo) 0 s;
       let (p, s) = bs_AllocatePool sv MapSize s;
       let EfiMemoryMap = (case p of None \<Rightarrow> 0 | Some a \<Rightarrow> a);
       let (status, MapSize, out2, s) = get_memory_map sv MapSize EfiMemoryMap s;
       let s = (if EFI_ERROR status then Print_msg ''Failed to get memory map'' [] s else s);
       (MapKey, DescriptorSize, version) \<leftarrow> (if out2 = None then out1 else out2);
       let s = s\<lparr>mem := store_bytes (acpiGuid_addr lo) ACPI_20_TABLE_GUID (mem s)\<rparr>;
       let rsdp = find_rsdp (mem s) SystemTable (acpiGuid_addr lo);
       let s = s\<lparr>firmware := sv_ExitBootServices sv ImageHandle MapKey (firmware s)\<rparr>;
       Some (\<lparr>KernelStart = entry, ho_frameBuffer = (if newBuffer then Some (frameBuffer s) else None), ho_font = font,
              ho_memoryMap = EfiMemoryMap, ho_mapSize = MapSize, ho_descriptorSize = DescriptorSize, ho_rsdp = rsdp\<rparr>, s)
     }
   }"

subsection \<open>Which root pointer is found\<close>

text \<open>The place of the \<open>k\<close>-th configuration table.\<close>

definition config_entry :: "memory \<Rightarrow> u64 \<Rightarrow> nat \<Rightarrow> u64" where
  "config_entry m SystemTable k = ConfigurationTable m SystemTable + of_nat (24 * k)"

lemma strcmp_rounds_first: "strcmp_rounds n a b \<longleftrightarrow> n = 0 \<or> a 0 = b 0"
  by (induction n) auto

lemma loader_strcmp_first: "loader_strcmp (literal rsd_ptr) (bytes_of m p) 8 \<longleftrightarrow> m p = 0x52"
  by (auto simp: loader_strcmp_def strcmp_rounds_first literal_def rsd_ptr_def bytes_of_def)

text \<open>Round \<open>k\<close> takes the table of entry \<open>k\<close> when the GUID of entry \<open>2 * k\<close> is a different one.\<close>

definition taken :: "memory \<Rightarrow> u64 \<Rightarrow> u64 \<Rightarrow> nat \<Rightarrow> bool" where
  "taken m SystemTable g k \<longleftrightarrow>
     guid_at m (config_entry m SystemTable (2 * k)) \<noteq> guid_at m g
     \<and> m (VendorTable m (config_entry m SystemTable k)) = 0x52"

lemma rsdp_loop_fold:
  "rsdp_loop n (of_nat i) m (config_entry m SystemTable i) g r =
     fold (\<lambda>k r. if taken m SystemTable g k then VendorTable m (config_entry m SystemTable k) else r) [i..<i + n] r"
proof (induction n arbitrary: i r)
  case (Suc n)
  have e: "config_entry m SystemTable i + of_nat i * 24 = config_entry m SystemTable (2 * i)"
    "config_entry m SystemTable i + 24 = config_entry m SystemTable (Suc i)" "of_nat i + 1 = (of_nat (Suc i) :: u64)"
    by (simp_all add: config_entry_def algebra_simps)
  have "[i..<i + Suc n] = i # [Suc i..<Suc i + n]" by (simp add: upt_conv_Cons)
  then show ?case unfolding rsdp_loop.simps Let_def e Suc
    by (simp add: taken_def CompareGuid_zero VendorGuid_at_def loader_strcmp_first del: upt_Suc)
qed simp

lemma fold_last:
  "fold (\<lambda>k r. if P k then f k else r) [0..<n] r =
     (if \<exists>k < n. P k then f (Max {k. k < n \<and> P k}) else r)"
proof (induction n)
  case (Suc n)
  have fin: "finite {k. k < n \<and> P k}" by simp
  show ?case
  proof (cases "P n")
    case True
    have "{k. k < Suc n \<and> P k} = insert n {k. k < n \<and> P k}" using True by (auto simp: less_Suc_eq)
    moreover have "Max (insert n {k. k < n \<and> P k}) = n" by (rule Max_eqI) auto
    ultimately show ?thesis using True by auto
  next
    case False
    have "{k. k < Suc n \<and> P k} = {k. k < n \<and> P k}" using False by (auto simp: less_Suc_eq)
    then show ?thesis using Suc False by (simp add: less_Suc_eq) metis
  qed
qed simp

lemma find_rsdp_last:
  "find_rsdp m SystemTable g =
     (if \<exists>k < unat (NumberOfTableEntries m SystemTable). taken m SystemTable g k
      then VendorTable m (config_entry m SystemTable
             (Max {k. k < unat (NumberOfTableEntries m SystemTable) \<and> taken m SystemTable g k}))
      else 0)"
  using rsdp_loop_fold [of "unat (NumberOfTableEntries m SystemTable)" 0 m SystemTable g 0]
  by (simp add: find_rsdp_def config_entry_def fold_last)

subsection \<open>Loading the segments\<close>

text \<open>What the loader relies on: setting the position of the kernel's file, reading from there, and pages
  at the address that was asked for. \<open>pos\<close> is the position in the state of the firmware.\<close>

definition serves_file :: "'f loader_uefi \<Rightarrow> u64 \<Rightarrow> u8 list \<Rightarrow> ('f \<Rightarrow> u64) \<Rightarrow> bool" where
  "serves_file sv file bytes pos \<longleftrightarrow>
     (\<forall>p f. pos (sv_SetPosition sv file p f) = p)
     \<and> (\<forall>n buf m f. fst (snd (sv_Read sv file n buf m f)) = store_bytes buf (take (unat n) (drop (unat (pos f)) bytes)) m)
     \<and> (\<forall>pages a f. fst (sv_AllocatePages sv pages a f) = a)"

definition phdr_at :: "memory \<Rightarrow> u64 \<Rightarrow> u64 \<Rightarrow> nat \<Rightarrow> u64" where
  "phdr_at m h phdrs k = phdrs + of_nat (k * unat (e_phentsize m h))"

definition loadable :: "memory \<Rightarrow> u64 \<Rightarrow> bool" where
  "loadable m p \<longleftrightarrow> p_type m p = PT_LOAD"

text \<open>The bytes of memory a segment is read into, and those of the file.\<close>

definition segment :: "memory \<Rightarrow> u64 \<Rightarrow> u64 set" where
  "segment m p = region (p_paddr m p) (unat (p_filesz m p))"

definition segment_bytes :: "memory \<Rightarrow> u64 \<Rightarrow> u8 list \<Rightarrow> u8 list" where
  "segment_bytes m p bytes = take (unat (p_filesz m p)) (drop (unat (p_offset m p)) bytes)"

text \<open>An image that can be loaded: the program headers lie in memory, the segments in the file, and what
  is loaded overlaps neither the headers nor another segment.\<close>

definition image_ok :: "memory \<Rightarrow> u64 \<Rightarrow> u64 \<Rightarrow> u8 list \<Rightarrow> bool" where
  "image_ok m h phdrs bytes \<longleftrightarrow>
     56 \<le> unat (e_phentsize m h) \<and> unat (e_phnum m h) * unat (e_phentsize m h) < 2 ^ 31
     \<and> unat phdrs + unat (e_phnum m h) * unat (e_phentsize m h) < 2 ^ 64
     \<and> (\<forall>k < unat (e_phnum m h). loadable m (phdr_at m h phdrs k) \<longrightarrow>
          unat (p_offset m (phdr_at m h phdrs k)) + unat (p_filesz m (phdr_at m h phdrs k)) \<le> length bytes
          \<and> segment m (phdr_at m h phdrs k) \<inter> region h 64 = {}
          \<and> segment m (phdr_at m h phdrs k) \<inter> region phdrs (unat (e_phnum m h) * unat (e_phentsize m h)) = {}
          \<and> (\<forall>j < k. loadable m (phdr_at m h phdrs j) \<longrightarrow>
               segment m (phdr_at m h phdrs k) \<inter> segment m (phdr_at m h phdrs j) = {}))"

lemma load_segment_mem:
  assumes "serves_file sv K bytes pos"
  shows "mem (load_segment sv K p s) = store_bytes (p_paddr (mem s) p) (segment_bytes (mem s) p bytes) (mem s)"
proof -
  obtain f where f: "sv_AllocatePages sv (scast (ucast ((p_memsz (mem s) p + 0x1000 - 1) div 0x1000) :: u32)) (p_paddr (mem s) p) (firmware s)
      = (p_paddr (mem s) p, f)"
    using assms unfolding serves_file_def by (metis prod.collapse)
  let ?f = "sv_SetPosition sv K (p_offset (mem s) p) f"
  obtain n f' where "sv_Read sv K (p_filesz (mem s) p) (p_paddr (mem s) p) (mem s) ?f
      = (n, store_bytes (p_paddr (mem s) p) (segment_bytes (mem s) p bytes) (mem s), f')"
    using assms unfolding serves_file_def segment_bytes_def by (metis prod.collapse)
  then show ?thesis using f by (simp add: load_segment_def file_seek_def file_read_def Let_def)
qed

lemma phdr_cong:
  assumes "\<And>b. b \<in> region p 56 \<Longrightarrow> m b = m' b"
  shows "p_type m p = p_type m' p" "p_offset m p = p_offset m' p" "p_paddr m p = p_paddr m' p" "p_filesz m p = p_filesz m' p"
proof -
  have r: "m b = m' b" if "b \<in> region (p + of_nat k) n" "k + n \<le> 56" for b k n
    using region_sub [OF that] assms by simp
  show "p_type m p = p_type m' p" unfolding p_type_def using r [of _ 0 4] by (intro read32_cong) simp
  show "p_offset m p = p_offset m' p" unfolding p_offset_def using r [of _ 8 8] by (intro read64_cong) simp
  show "p_paddr m p = p_paddr m' p" unfolding p_paddr_def using r [of _ 24 8] by (intro read64_cong) simp
  show "p_filesz m p = p_filesz m' p" unfolding p_filesz_def using r [of _ 32 8] by (intro read64_cong) simp
qed

lemma header_cong:
  assumes "\<And>b. b \<in> region h 64 \<Longrightarrow> m b = m' b"
  shows "e_phentsize m h = e_phentsize m' h" "e_phnum m h = e_phnum m' h" "ph_bytes m h = ph_bytes m' h"
proof -
  have r: "m b = m' b" if "b \<in> region (h + of_nat k) n" "k + n \<le> 64" for b k n
    using region_sub [OF that] assms by simp
  show e: "e_phentsize m h = e_phentsize m' h" unfolding e_phentsize_def using r [of _ 54 2] by (intro read16_cong) simp
  show n: "e_phnum m h = e_phnum m' h" unfolding e_phnum_def using r [of _ 56 2] by (intro read16_cong) simp
  show "ph_bytes m h = ph_bytes m' h" by (simp add: ph_bytes_def e n)
qed

text \<open>The memory after the first \<open>i\<close> program headers.\<close>

definition loaded_to :: "memory \<Rightarrow> u64 \<Rightarrow> u64 \<Rightarrow> u8 list \<Rightarrow> nat \<Rightarrow> memory \<Rightarrow> bool" where
  "loaded_to m0 h phdrs bytes i m \<longleftrightarrow>
     (\<forall>b. (\<forall>k < i. loadable m0 (phdr_at m0 h phdrs k) \<longrightarrow> b \<notin> segment m0 (phdr_at m0 h phdrs k)) \<longrightarrow> m b = m0 b)
     \<and> (\<forall>k < i. loadable m0 (phdr_at m0 h phdrs k) \<longrightarrow>
          (\<forall>j < unat (p_filesz m0 (phdr_at m0 h phdrs k)).
             m (p_paddr m0 (phdr_at m0 h phdrs k) + of_nat j) = bytes ! (unat (p_offset m0 (phdr_at m0 h phdrs k)) + j)))"

lemma loaded_to_start: "loaded_to m0 h phdrs bytes 0 m0"
  by (simp add: loaded_to_def)

lemma loaded_to_skip:
  "loaded_to m0 h phdrs bytes i m \<Longrightarrow> \<not> loadable m0 (phdr_at m0 h phdrs i) \<Longrightarrow> loaded_to m0 h phdrs bytes (Suc i) m"
  by (simp add: loaded_to_def less_Suc_eq)

lemma loaded_to_step:
  assumes "loaded_to m0 h phdrs bytes i m" "image_ok m0 h phdrs bytes" "i < unat (e_phnum m0 h)"
    and "loadable m0 (phdr_at m0 h phdrs i)"
  shows "loaded_to m0 h phdrs bytes (Suc i)
     (store_bytes (p_paddr m0 (phdr_at m0 h phdrs i)) (segment_bytes m0 (phdr_at m0 h phdrs i) bytes) m)"
    (is "loaded_to _ _ _ _ _ ?m")
proof -
  let ?p = "phdr_at m0 h phdrs i"
  have inf: "unat (p_offset m0 ?p) + unat (p_filesz m0 ?p) \<le> length bytes"
    and apart: "\<forall>j < i. loadable m0 (phdr_at m0 h phdrs j) \<longrightarrow> segment m0 ?p \<inter> segment m0 (phdr_at m0 h phdrs j) = {}"
    using assms(2-4) unfolding image_ok_def by blast+
  have len: "length (segment_bytes m0 ?p bytes) = unat (p_filesz m0 ?p)" using inf by (simp add: segment_bytes_def)
  have out: "?m b = m b" if "b \<notin> segment m0 ?p" for b
    using that by (intro store_bytes_region) (simp add: len segment_def)
  have here: "?m (p_paddr m0 ?p + of_nat j) = bytes ! (unat (p_offset m0 ?p) + j)" if "j < unat (p_filesz m0 ?p)" for j
  proof -
    have "?m (p_paddr m0 ?p + of_nat j) = segment_bytes m0 ?p bytes ! j"
      by (rule store_bytes_nth) (simp_all add: len that)
    then show ?thesis using that inf by (simp add: segment_bytes_def)
  qed
  have before: "?m (p_paddr m0 (phdr_at m0 h phdrs k) + of_nat j) = m (p_paddr m0 (phdr_at m0 h phdrs k) + of_nat j)"
    if "k < i" "loadable m0 (phdr_at m0 h phdrs k)" "j < unat (p_filesz m0 (phdr_at m0 h phdrs k))" for k j
  proof (rule out)
    have "p_paddr m0 (phdr_at m0 h phdrs k) + of_nat j \<in> segment m0 (phdr_at m0 h phdrs k)"
      unfolding segment_def by (rule in_region_of_nat) (simp_all add: that(3))
    then show "p_paddr m0 (phdr_at m0 h phdrs k) + of_nat j \<notin> segment m0 ?p" using apart that(1,2) by blast
  qed
  show ?thesis unfolding loaded_to_def
  proof (intro conjI allI impI)
    fix b assume "\<forall>k < Suc i. loadable m0 (phdr_at m0 h phdrs k) \<longrightarrow> b \<notin> segment m0 (phdr_at m0 h phdrs k)"
    then show "?m b = m0 b" using out [of b] assms(1,4) unfolding loaded_to_def by (simp add: less_Suc_eq)
  next
    fix k j assume k: "k < Suc i" "loadable m0 (phdr_at m0 h phdrs k)" "j < unat (p_filesz m0 (phdr_at m0 h phdrs k))"
    show "?m (p_paddr m0 (phdr_at m0 h phdrs k) + of_nat j) = bytes ! (unat (p_offset m0 (phdr_at m0 h phdrs k)) + j)"
    proof (cases "k = i")
      case True
      then show ?thesis using here k(3) by simp
    next
      case False
      then have "k < i" using k(1) by simp
      then show ?thesis using before [OF _ k(2,3)] assms(1) k(2,3) unfolding loaded_to_def by simp
    qed
  qed
qed

text \<open>The headers are not overwritten, so every round reads them as they were.\<close>

lemma loaded_to_headers:
  assumes l: "loaded_to m0 h phdrs bytes i m" and ok: "image_ok m0 h phdrs bytes" and i: "i \<le> unat (e_phnum m0 h)"
  shows "\<And>b. b \<in> region h 64 \<Longrightarrow> m b = m0 b"
    and "\<And>b. b \<in> region phdrs (unat (e_phnum m0 h) * unat (e_phentsize m0 h)) \<Longrightarrow> m b = m0 b"
proof -
  let ?hs = "region h 64 \<union> region phdrs (unat (e_phnum m0 h) * unat (e_phentsize m0 h))"
  have "b \<notin> segment m0 (phdr_at m0 h phdrs k)" if "b \<in> ?hs" "k < i" "loadable m0 (phdr_at m0 h phdrs k)" for b k
  proof -
    have "k < unat (e_phnum m0 h)" using that(2) i by simp
    then show ?thesis using ok that(1,3) unfolding image_ok_def by blast
  qed
  then have "m b = m0 b" if "b \<in> ?hs" for b using l that unfolding loaded_to_def by blast
  then show "\<And>b. b \<in> region h 64 \<Longrightarrow> m b = m0 b"
    and "\<And>b. b \<in> region phdrs (unat (e_phnum m0 h) * unat (e_phentsize m0 h)) \<Longrightarrow> m b = m0 b" by blast+
qed

lemma ph_bytes_ok:
  "image_ok m h phdrs bytes \<Longrightarrow> ph_bytes m h = Some (of_nat (unat (e_phnum m h) * unat (e_phentsize m h)))"
  by (auto simp: ph_bytes_def image_ok_def Let_def)

lemma phdr_inside:
  assumes "image_ok m0 h phdrs bytes" "i < unat (e_phnum m0 h)" "b \<in> region (phdr_at m0 h phdrs i) 56"
  shows "b \<in> region phdrs (unat (e_phnum m0 h) * unat (e_phentsize m0 h))"
proof -
  let ?es = "unat (e_phentsize m0 h)"
  have "i * ?es + ?es \<le> unat (e_phnum m0 h) * ?es"
    using mult_le_mono1 [of "Suc i" "unat (e_phnum m0 h)" ?es] assms(2) by simp
  moreover have "56 \<le> ?es" "unat (e_phnum m0 h) * ?es < 2 ^ 31" using assms(1) unfolding image_ok_def by blast+
  ultimately have "i * ?es + 56 \<le> unat (e_phnum m0 h) * ?es" "unat (e_phnum m0 h) * ?es < 2 ^ 64" by simp_all
  then show ?thesis by (rule region_sub [OF assms(3) [unfolded phdr_at_def]])
qed

lemma phdr_before_end:
  assumes "image_ok m h phdrs bytes" "i \<le> unat (e_phnum m h)"
  shows "phdr_at m h phdrs i < phdrs + of_nat (unat (e_phnum m h) * unat (e_phentsize m h)) \<longleftrightarrow> i < unat (e_phnum m h)"
proof -
  let ?es = "unat (e_phentsize m h)" and ?n = "unat (e_phnum m h)"
  have le: "i * ?es \<le> ?n * ?es" using assms(2) by (rule mult_le_mono1)
  have b: "unat phdrs + ?n * ?es < 2 ^ 64" "0 < ?es" using assms(1) by (auto simp: image_ok_def)
  have "unat (phdrs + of_nat (i * ?es)) = unat phdrs + i * ?es"
    by (rule unat_add_of_nat, rule le_less_trans [of _ "unat phdrs + ?n * ?es"]) (use b(1) le in simp_all)
  moreover have "unat (phdrs + of_nat (?n * ?es)) = unat phdrs + ?n * ?es"
    by (rule unat_add_of_nat) (use b(1) in simp)
  ultimately show ?thesis using b(2) unfolding phdr_at_def word_less_nat_alt by simp
qed

lemma load_segments_to:
  assumes sv: "serves_file sv K bytes pos" and ok: "image_ok m0 h phdrs bytes"
  shows "i \<le> unat (e_phnum m0 h) \<Longrightarrow> loaded_to m0 h phdrs bytes i (mem s) \<Longrightarrow>
    \<exists>t. load_segments sv K h phdrs (phdr_at m0 h phdrs i) s = Some t \<and> loaded_to m0 h phdrs bytes (unat (e_phnum m0 h)) (mem t)"
proof (induction "unat (e_phnum m0 h) - i" arbitrary: i s)
  case 0
  then have i: "i = unat (e_phnum m0 h)" by simp
  have "ph_bytes (mem s) h = ph_bytes m0 h"
    by (rule header_cong(3), rule loaded_to_headers(1) [OF 0(3) ok 0(2)])
  then have "ph_bytes (mem s) h = Some (of_nat (unat (e_phnum m0 h) * unat (e_phentsize m0 h)))"
    unfolding ph_bytes_ok [OF ok] .
  then show ?case using phdr_before_end [OF ok, of i] 0 i by (subst load_segments.simps) simp
next
  case (Suc d)
  let ?p = "phdr_at m0 h phdrs i"
  have i: "i < unat (e_phnum m0 h)" using Suc(2) by simp
  note hd = loaded_to_headers [OF Suc(4) ok less_imp_le [OF i]]
  note hc = header_cong [of h "mem s" m0, OF hd(1)]
  have n: "ph_bytes (mem s) h = Some (of_nat (unat (e_phnum m0 h) * unat (e_phentsize m0 h)))"
    using hc(3) unfolding ph_bytes_ok [OF ok] .
  have pc: "p_type (mem s) ?p = p_type m0 ?p" "p_offset (mem s) ?p = p_offset m0 ?p" "p_paddr (mem s) ?p = p_paddr m0 ?p"
      "p_filesz (mem s) ?p = p_filesz m0 ?p"
    by (rule phdr_cong; use hd(2) phdr_inside [OF ok i] in blast)+
  let ?s = "if p_type (mem s) ?p = PT_LOAD then load_segment sv K ?p s else s"
  have l: "loaded_to m0 h phdrs bytes (Suc i) (mem ?s)"
  proof (cases "loadable m0 ?p")
    case True
    then have "mem ?s = store_bytes (p_paddr m0 ?p) (segment_bytes m0 ?p bytes) (mem s)"
      using load_segment_mem [OF sv, of ?p s] pc by (simp add: loadable_def segment_bytes_def)
    then show ?thesis using loaded_to_step [OF Suc(4) ok i True] by simp
  next
    case False
    then show ?thesis using loaded_to_skip [OF Suc(4) False] pc(1) by (simp add: loadable_def)
  qed
  have es: "e_phentsize (mem ?s) h = e_phentsize m0 h"
    by (rule header_cong(1), rule loaded_to_headers(1) [OF l ok Suc_leI [OF i]])
  have next_p: "?p + ucast (e_phentsize m0 h) = phdr_at m0 h phdrs (Suc i)"
    by (simp add: phdr_at_def algebra_simps)
  have "load_segments sv K h phdrs ?p s = load_segments sv K h phdrs (phdr_at m0 h phdrs (Suc i)) ?s"
    using phdr_before_end [OF ok, of i] i n es next_p by (subst load_segments.simps) (simp add: Let_def)
  moreover have "\<exists>t. load_segments sv K h phdrs (phdr_at m0 h phdrs (Suc i)) ?s = Some t
      \<and> loaded_to m0 h phdrs bytes (unat (e_phnum m0 h)) (mem t)"
    using Suc(2) i l by (intro Suc(1)) simp_all
  ultimately show ?case by simp
qed

subsection \<open>The font\<close>

text \<open>A pool that has memory left for every request.\<close>

definition pool_serves :: "('f, 'y) uefi_scheme \<Rightarrow> bool" where
  "pool_serves sv \<longleftrightarrow> (\<forall>t n f. \<exists>a f'. sv_AllocatePool sv t n f = (EFI_SUCCESS, Some a, f') \<and> a \<noteq> 0)"

lemma bs_AllocatePool_serves:
  assumes "pool_serves (sv)"
  shows "\<exists>a s'. bs_AllocatePool sv n s = (Some a, s') \<and> a \<noteq> 0 \<and> mem s' = mem s"
proof -
  obtain a f' where "sv_AllocatePool sv 2 n (firmware s) = (EFI_SUCCESS, Some a, f')" "a \<noteq> 0"
    using assms unfolding pool_serves_def by blast
  then show ?thesis by (simp add: bs_AllocatePool_def)
qed

subsection \<open>Properties\<close>

text \<open>C2: From a kernel image whose segments lie in the file and overlap neither each other nor the headers,
  loading returns; the bytes every loadable segment has in the file are then at its physical address,
  and no other byte of memory has changed. So the part of a segment that is in memory only, behind its
  bytes in the file, keeps what was there before.\<close>

theorem load_segments_copies:
  assumes "serves_file sv K bytes pos" "image_ok (mem s) h phdrs bytes"
  shows "\<exists>t. load_segments sv K h phdrs phdrs s = Some t
    \<and> (\<forall>k < unat (e_phnum (mem s) h). loadable (mem s) (phdr_at (mem s) h phdrs k) \<longrightarrow>
         (\<forall>j < unat (p_filesz (mem s) (phdr_at (mem s) h phdrs k)).
            mem t (p_paddr (mem s) (phdr_at (mem s) h phdrs k) + of_nat j)
              = bytes ! (unat (p_offset (mem s) (phdr_at (mem s) h phdrs k)) + j)))
    \<and> (\<forall>b. (\<forall>k < unat (e_phnum (mem s) h). loadable (mem s) (phdr_at (mem s) h phdrs k) \<longrightarrow>
           b \<notin> segment (mem s) (phdr_at (mem s) h phdrs k)) \<longrightarrow> mem t b = mem s b)"
  using load_segments_to [OF assms, of 0 s] loaded_to_start [of "mem s" h phdrs bytes]
  by (auto simp: loaded_to_def phdr_at_def)

text \<open>The root pointer handed over is the table of the last entry whose first byte is R and for which
  the entry with twice its index has another GUID than that of ACPI 2.0, and null when there is none.
  So the comparison of GUIDs is inverted, runs ahead of the tables and past their end, and of the
  signature only the first character counts.\<close>

theorem find_rsdp_takes:
  assumes "N = unat (NumberOfTableEntries m SystemTable)"
    and "\<And>k. good k \<longleftrightarrow> k < N \<and> guid_at m (config_entry m SystemTable (2 * k)) \<noteq> guid_at m g
          \<and> m (VendorTable m (config_entry m SystemTable k)) = 0x52"
  shows "find_rsdp m SystemTable g =
    (if \<exists>k. good k then VendorTable m (config_entry m SystemTable (Max (Collect good))) else 0)"
proof -
  have g: "good = (\<lambda>k. k < N \<and> taken m SystemTable g k)" using assms(2) by (auto simp: taken_def)
  show ?thesis unfolding find_rsdp_last g assms(1) by simp
qed

text \<open>A font file is accepted as soon as one of the two magic bytes is right: the result is then not
  null, and the kernel gets the header and the glyphs read from the file.\<close>

theorem LoadFont_accepts:
  assumes "LoadFile sv d fn ih s = Some (font, s1)" "font \<noteq> 0" "pool_serves (sv)"
    and "bs_AllocatePool sv 4 s1 = (Some hdr, s2)" "file_read sv font 4 hdr s2 = (n, s3)"
    and "mem s3 hdr = 0x36 \<or> mem s3 (hdr + 1) = 0x04"
  shows "\<exists>p t. LoadFont sv d fn ih s = Some (p, t) \<and> p \<noteq> 0"
proof -
  have go: "\<not> (mem s3 hdr \<noteq> 0x36 \<and> mem s3 (hdr + 1) \<noteq> 0x04)" using assms(6) by blast
  let ?n = "if mem s3 (hdr + 2) = 1 then (ucast (mem s3 (hdr + 3)) :: u64) * 512 else ucast (mem s3 (hdr + 3)) * 256"
  obtain g s4 where g: "bs_AllocatePool sv ?n (file_seek sv font 4 s3) = (Some g, s4)"
    using bs_AllocatePool_serves [OF assms(3)] by blast
  obtain k s5 where k: "file_read sv font ?n g s4 = (k, s5)" by fastforce
  obtain p s6 where p: "bs_AllocatePool sv 16 s5 = (Some p, s6)" "p \<noteq> 0"
    using bs_AllocatePool_serves [OF assms(3)] by blast
  show ?thesis unfolding LoadFont_def assms(1) using assms(2,4,5) go g k p by (simp add: Let_def)
qed

subsection \<open>A small firmware\<close>

text \<open>A firmware whose only file has ten bytes, the first of them wrong for a font; its state is the
  position in the file. The ELF header is at 0x2000, one program header at 0x3000, and three bytes are
  loaded to 0x5000.\<close>

definition small_file :: "u8 list" where
  "small_file = [0, 4, 0, 1, 10, 20, 30, 40, 50, 60]"

definition small_loader :: "u64 loader_uefi" where
  "small_loader = \<lparr>sv_AllocatePool = \<lambda>t n f. (EFI_SUCCESS, Some 0x1000, f), sv_FreePool = \<lambda>a f. f,
     sv_GetMemoryMap = \<lambda>n a m f. (EFI_SUCCESS, 0, Some (1, 48, 1), m, f),
     sv_HandleProtocol = \<lambda>h p f. (EFI_SUCCESS, Some 0x7000, f),
     sv_LocateHandle = \<lambda>p n a m f. (EFI_NOT_FOUND, 0, m, f), sv_RaiseTPL = \<lambda>t f. (t, f), sv_RestoreTPL = \<lambda>t f. f,
     sv_GetVariable = \<lambda>name guid n buf m f. (EFI_NOT_FOUND, 0, m, f),
     sv_SetVariable = \<lambda>name guid attr n data m f. (EFI_SUCCESS, f),
     sv_StriColl = \<lambda>i a b m f. (0, f), sv_MetaiMatch = \<lambda>i a b m f. (False, f), sv_StrLwr = \<lambda>i a m f. (m, f),
     sv_StrUpr = \<lambda>i a m f. (m, f),
     sv_LocateProtocol = \<lambda>p f. (EFI_NOT_FOUND, None, f), sv_QueryMode = \<lambda>g n f. (EFI_SUCCESS, f),
     sv_SetMode = \<lambda>g n m f. (EFI_SUCCESS, m, f), sv_OpenVolume = \<lambda>v f. (Some 0x8000, f),
     sv_Open = \<lambda>d fn f. (EFI_SUCCESS, Some 0x9000, 0),
     sv_Read = \<lambda>file n buf m f. (n, store_bytes buf (take (unat n) (drop (unat f) small_file)) m, f + n),
     sv_SetPosition = \<lambda>file p f. p, sv_GetInfo = \<lambda>file n buf m f. (n, m, f),
     sv_AllocatePages = \<lambda>pages a f. (a, f), sv_ExitBootServices = \<lambda>h key f. f\<rparr>"

definition small_image :: memory where
  "small_image = (\<lambda>_. 9)(0x2036 := 56, 0x2037 := 0, 0x2038 := 1, 0x2039 := 0,
     0x3000 := 1, 0x3001 := 0, 0x3002 := 0, 0x3003 := 0,
     0x3008 := 4, 0x3009 := 0, 0x300a := 0, 0x300b := 0, 0x300c := 0, 0x300d := 0, 0x300e := 0, 0x300f := 0,
     0x3018 := 0, 0x3019 := 0x50, 0x301a := 0, 0x301b := 0, 0x301c := 0, 0x301d := 0, 0x301e := 0, 0x301f := 0,
     0x3020 := 3, 0x3021 := 0, 0x3022 := 0, 0x3023 := 0, 0x3024 := 0, 0x3025 := 0, 0x3026 := 0, 0x3027 := 0)"

definition small_load :: "u64 loader" where
  "small_load = \<lparr>mem = small_image, firmware = 0, LibInitialized = False, LibFwInstance = False, LibImageHandle = 0, ST = 0,
     PoolAllocationType = 4, UnicodeInterface = None, EFIDebug = 0, L_EFIDebug = 0x100, VarLanguage = 0x200,
     VarBootOrder = 0x300, EfiGlobalVariable = 0x400, console = [],
     frameBuffer = \<lparr>BaseAddress = 0, BufferSize = 0, Width = 0, Height = 0, PixelsPerScanline = 0\<rparr>\<rparr>"

lemma small_serves: "serves_file small_loader K small_file (\<lambda>f. f)" "pool_serves (small_loader)"
  by (simp_all add: serves_file_def pool_serves_def small_loader_def)

lemma small_image_fields:
  "e_phentsize small_image 0x2000 = 56" "e_phnum small_image 0x2000 = 1" "p_type small_image 0x3000 = 1"
  "p_offset small_image 0x3000 = 4" "p_paddr small_image 0x3000 = 0x5000" "p_filesz small_image 0x3000 = 3"
  by (simp_all add: e_phentsize_def e_phnum_def p_type_def p_offset_def p_paddr_def p_filesz_def small_image_def load_eval)

theorem load_segments_copies_witness:
  "\<exists>t. load_segments small_loader 0x9000 0x2000 0x3000 0x3000 small_load = Some t
    \<and> mem t 0x5002 = 30 \<and> mem t 0x5003 = 9"
proof -
  let ?m = "mem small_load"
  have m: "?m = small_image" by (simp add: small_load_def)
  have p: "phdr_at ?m 0x2000 0x3000 0 = 0x3000" by (simp add: phdr_at_def)
  have ok: "image_ok ?m 0x2000 0x3000 small_file"
    unfolding image_ok_def m using p regions_apart [where b = 0 and j = "0x2000" and n = 64 and k = "0x5000" and l = 3]
      regions_apart [where b = 0 and j = "0x3000" and n = 56 and k = "0x5000" and l = 3]
    by (simp add: small_image_fields m segment_def small_file_def Int_commute)
  obtain t where t: "load_segments small_loader 0x9000 0x2000 0x3000 0x3000 small_load = Some t"
    "\<forall>k < unat (e_phnum ?m 0x2000). loadable ?m (phdr_at ?m 0x2000 0x3000 k) \<longrightarrow>
       (\<forall>j < unat (p_filesz ?m (phdr_at ?m 0x2000 0x3000 k)). mem t (p_paddr ?m (phdr_at ?m 0x2000 0x3000 k) + of_nat j)
         = small_file ! (unat (p_offset ?m (phdr_at ?m 0x2000 0x3000 k)) + j))"
    "\<forall>b. (\<forall>k < unat (e_phnum ?m 0x2000). loadable ?m (phdr_at ?m 0x2000 0x3000 k) \<longrightarrow>
       b \<notin> segment ?m (phdr_at ?m 0x2000 0x3000 k)) \<longrightarrow> mem t b = ?m b"
    using load_segments_copies [OF small_serves(1) ok] by blast
  have "mem t (0x5000 + of_nat 2) = small_file ! (4 + 2)"
    using t(2) [rule_format, of 0 2] p by (simp add: m small_image_fields loadable_def PT_LOAD_def)
  moreover have "mem t 0x5003 = 9"
    using t(3) [rule_format, of "0x5003"] p
    by (simp add: m small_image_fields segment_def region_def) (simp add: small_image_def)
  ultimately show ?thesis using t(1) by (simp add: small_file_def)
qed

text \<open>One configuration table, the one of ACPI 2.0, with the right signature: it is not found.\<close>

definition small_tables :: memory where
  "small_tables = (\<lambda>_. 0)(0x168 := 1, 0x171 := 2, 0x211 := 4, 0x400 := 0x52)"

theorem find_rsdp_takes_witness: "find_rsdp small_tables 0x100 0x300 = 0"
proof -
  let ?good = "\<lambda>k :: nat. k < 1 \<and> guid_at small_tables (config_entry small_tables 0x100 (2 * k)) \<noteq> guid_at small_tables 0x300
     \<and> small_tables (VendorTable small_tables (config_entry small_tables 0x100 k)) = 0x52"
  have n: "unat (NumberOfTableEntries small_tables 0x100) = 1"
    by (simp add: NumberOfTableEntries_def small_tables_def load_eval)
  have "guid_at small_tables (config_entry small_tables 0x100 0) = guid_at small_tables 0x300"
    by (simp add: guid_at_def config_entry_def ConfigurationTable_def small_tables_def load_eval)
  then have none: "\<not> (\<exists>k. ?good k)" by simp
  have "find_rsdp small_tables 0x100 0x300 =
      (if \<exists>k. ?good k then VendorTable small_tables (config_entry small_tables 0x100 (Max (Collect ?good))) else 0)"
    by (rule find_rsdp_takes [OF n [symmetric]]) simp
  then show ?thesis unfolding if_not_P [OF none] .
qed

theorem LoadFont_accepts_witness:
  "\<exists>p t. LoadFont small_loader 0 ''font16.psf'' 0x10 small_load = Some (p, t) \<and> p \<noteq> 0"
proof -
  have l: "LoadFile small_loader 0 ''font16.psf'' 0x10 small_load = Some (0x9000, small_load)"
    by (simp add: LoadFile_def small_loader_def Let_def) (simp add: small_load_def)
  have a: "bs_AllocatePool small_loader 4 small_load = (Some 0x1000, small_load)"
    by (simp add: bs_AllocatePool_def small_loader_def)
  obtain n s where r: "file_read small_loader 0x9000 4 0x1000 small_load = (n, s)" by fastforce
  then have "mem s = store_bytes 0x1000 [0, 4, 0, 1] small_image"
    by (auto simp: file_read_def small_loader_def small_load_def small_file_def)
  then have "mem s (0x1000 + 1) = 0x04" by (simp add: store_bytes_def)
  then show ?thesis using LoadFont_accepts [OF l _ small_serves(2) a r] by simp
qed

end
