(* ===== verification/EfiCrc.thy ===== *)
theory EfiCrc
  imports EfiRt
begin

text \<open>
  \<open>lib/crc.c\<close> of gnu-efi: the checksum of the firmware's tables, computed byte by byte with a table of
  256 words. The reference is the division by the CRC-32 polynomial, one bit at a time. The debug
  messages of the checks are compiled out.
\<close>

subsection \<open>The checksum\<close>

definition CRCTable :: "u32 list" where
  "CRCTable =
     [0x00000000, 0x77073096, 0xEE0E612C, 0x990951BA, 0x076DC419, 0x706AF48F, 0xE963A535, 0x9E6495A3,
      0x0EDB8832, 0x79DCB8A4, 0xE0D5E91E, 0x97D2D988, 0x09B64C2B, 0x7EB17CBD, 0xE7B82D07, 0x90BF1D91,
      0x1DB71064, 0x6AB020F2, 0xF3B97148, 0x84BE41DE, 0x1ADAD47D, 0x6DDDE4EB, 0xF4D4B551, 0x83D385C7,
      0x136C9856, 0x646BA8C0, 0xFD62F97A, 0x8A65C9EC, 0x14015C4F, 0x63066CD9, 0xFA0F3D63, 0x8D080DF5,
      0x3B6E20C8, 0x4C69105E, 0xD56041E4, 0xA2677172, 0x3C03E4D1, 0x4B04D447, 0xD20D85FD, 0xA50AB56B,
      0x35B5A8FA, 0x42B2986C, 0xDBBBC9D6, 0xACBCF940, 0x32D86CE3, 0x45DF5C75, 0xDCD60DCF, 0xABD13D59,
      0x26D930AC, 0x51DE003A, 0xC8D75180, 0xBFD06116, 0x21B4F4B5, 0x56B3C423, 0xCFBA9599, 0xB8BDA50F,
      0x2802B89E, 0x5F058808, 0xC60CD9B2, 0xB10BE924, 0x2F6F7C87, 0x58684C11, 0xC1611DAB, 0xB6662D3D,
      0x76DC4190, 0x01DB7106, 0x98D220BC, 0xEFD5102A, 0x71B18589, 0x06B6B51F, 0x9FBFE4A5, 0xE8B8D433,
      0x7807C9A2, 0x0F00F934, 0x9609A88E, 0xE10E9818, 0x7F6A0DBB, 0x086D3D2D, 0x91646C97, 0xE6635C01,
      0x6B6B51F4, 0x1C6C6162, 0x856530D8, 0xF262004E, 0x6C0695ED, 0x1B01A57B, 0x8208F4C1, 0xF50FC457,
      0x65B0D9C6, 0x12B7E950, 0x8BBEB8EA, 0xFCB9887C, 0x62DD1DDF, 0x15DA2D49, 0x8CD37CF3, 0xFBD44C65,
      0x4DB26158, 0x3AB551CE, 0xA3BC0074, 0xD4BB30E2, 0x4ADFA541, 0x3DD895D7, 0xA4D1C46D, 0xD3D6F4FB,
      0x4369E96A, 0x346ED9FC, 0xAD678846, 0xDA60B8D0, 0x44042D73, 0x33031DE5, 0xAA0A4C5F, 0xDD0D7CC9,
      0x5005713C, 0x270241AA, 0xBE0B1010, 0xC90C2086, 0x5768B525, 0x206F85B3, 0xB966D409, 0xCE61E49F,
      0x5EDEF90E, 0x29D9C998, 0xB0D09822, 0xC7D7A8B4, 0x59B33D17, 0x2EB40D81, 0xB7BD5C3B, 0xC0BA6CAD,
      0xEDB88320, 0x9ABFB3B6, 0x03B6E20C, 0x74B1D29A, 0xEAD54739, 0x9DD277AF, 0x04DB2615, 0x73DC1683,
      0xE3630B12, 0x94643B84, 0x0D6D6A3E, 0x7A6A5AA8, 0xE40ECF0B, 0x9309FF9D, 0x0A00AE27, 0x7D079EB1,
      0xF00F9344, 0x8708A3D2, 0x1E01F268, 0x6906C2FE, 0xF762575D, 0x806567CB, 0x196C3671, 0x6E6B06E7,
      0xFED41B76, 0x89D32BE0, 0x10DA7A5A, 0x67DD4ACC, 0xF9B9DF6F, 0x8EBEEFF9, 0x17B7BE43, 0x60B08ED5,
      0xD6D6A3E8, 0xA1D1937E, 0x38D8C2C4, 0x4FDFF252, 0xD1BB67F1, 0xA6BC5767, 0x3FB506DD, 0x48B2364B,
      0xD80D2BDA, 0xAF0A1B4C, 0x36034AF6, 0x41047A60, 0xDF60EFC3, 0xA867DF55, 0x316E8EEF, 0x4669BE79,
      0xCB61B38C, 0xBC66831A, 0x256FD2A0, 0x5268E236, 0xCC0C7795, 0xBB0B4703, 0x220216B9, 0x5505262F,
      0xC5BA3BBE, 0xB2BD0B28, 0x2BB45A92, 0x5CB36A04, 0xC2D7FFA7, 0xB5D0CF31, 0x2CD99E8B, 0x5BDEAE1D,
      0x9B64C2B0, 0xEC63F226, 0x756AA39C, 0x026D930A, 0x9C0906A9, 0xEB0E363F, 0x72076785, 0x05005713,
      0x95BF4A82, 0xE2B87A14, 0x7BB12BAE, 0x0CB61B38, 0x92D28E9B, 0xE5D5BE0D, 0x7CDCEFB7, 0x0BDBDF21,
      0x86D3D2D4, 0xF1D4E242, 0x68DDB3F8, 0x1FDA836E, 0x81BE16CD, 0xF6B9265B, 0x6FB077E1, 0x18B74777,
      0x88085AE6, 0xFF0F6A70, 0x66063BCA, 0x11010B5C, 0x8F659EFF, 0xF862AE69, 0x616BFFD3, 0x166CCF45,
      0xA00AE278, 0xD70DD2EE, 0x4E048354, 0x3903B3C2, 0xA7672661, 0xD06016F7, 0x4969474D, 0x3E6E77DB,
      0xAED16A4A, 0xD9D65ADC, 0x40DF0B66, 0x37D83BF0, 0xA9BCAE53, 0xDEBB9EC5, 0x47B2CF7F, 0x30B5FFE9,
      0xBDBDF21C, 0xCABAC28A, 0x53B39330, 0x24B4A3A6, 0xBAD03605, 0xCDD70693, 0x54DE5729, 0x23D967BF,
      0xB3667A2E, 0xC4614AB8, 0x5D681B02, 0x2A6F2B94, 0xB40BBE37, 0xC30C8EA1, 0x5A05DF1B, 0x2D02EF8D]"

primrec crc_loop :: "nat \<Rightarrow> memory \<Rightarrow> u64 \<Rightarrow> u64 \<Rightarrow> u64" where
  "crc_loop 0 m pt Crc = Crc"
| "crc_loop (Suc n) m pt Crc =
     crc_loop n m (pt + 1) (drop_bit 8 Crc XOR ucast (CRCTable ! unat ((ucast Crc :: u8) XOR m pt)))"

definition CalculateCrc :: "memory \<Rightarrow> u64 \<Rightarrow> u64 \<Rightarrow> u32" where
  "CalculateCrc m pt Size = ucast (crc_loop (unat Size) m pt 0xffffffff XOR 0xffffffff)"

subsection \<open>Tables\<close>

text \<open>\<open>EFI_TABLE_HEADER\<close>: the size of the header at offset 12, its checksum at 16.\<close>

definition HeaderSize :: "memory \<Rightarrow> u64 \<Rightarrow> u32" where
  "HeaderSize m Hdr = read32 m (Hdr + 12)"

definition CRC32 :: "memory \<Rightarrow> u64 \<Rightarrow> u32" where
  "CRC32 m Hdr = read32 m (Hdr + 16)"

definition set_CRC32 :: "u64 \<Rightarrow> u32 \<Rightarrow> memory \<Rightarrow> memory" where
  "set_CRC32 Hdr v m = write32 m (Hdr + 16) v"

definition SetCrcAltSize :: "u64 \<Rightarrow> u64 \<Rightarrow> memory \<Rightarrow> memory" where
  "SetCrcAltSize Size Hdr m = (let m = set_CRC32 Hdr 0 m in set_CRC32 Hdr (CalculateCrc m Hdr Size) m)"

definition SetCrc :: "u64 \<Rightarrow> memory \<Rightarrow> memory" where
  "SetCrc Hdr m = SetCrcAltSize (ucast (HeaderSize m Hdr)) Hdr m"

definition CheckCrcAltSize :: "u64 \<Rightarrow> u64 \<Rightarrow> u64 \<Rightarrow> memory \<Rightarrow> bool \<times> memory" where
  "CheckCrcAltSize MaxSize Size Hdr m =
     (if Size = 0 then (False, m)
      else if MaxSize \<noteq> 0 \<and> Size > MaxSize then (False, m)
      else
        let OrgCrc = CRC32 m Hdr;
            m = set_CRC32 Hdr 0 m;
            Crc = CalculateCrc m Hdr Size;
            m = set_CRC32 Hdr OrgCrc m
        in (OrgCrc = Crc, m))"

definition CheckCrc :: "u64 \<Rightarrow> u64 \<Rightarrow> memory \<Rightarrow> bool \<times> memory" where
  "CheckCrc MaxSize Hdr m = CheckCrcAltSize MaxSize (ucast (HeaderSize m Hdr)) Hdr m"

subsection \<open>The division by the polynomial\<close>

definition crc_bit :: "u32 \<Rightarrow> u32" where
  "crc_bit c = drop_bit 1 c XOR (if bit c 0 then 0xEDB88320 else 0)"

definition crc_byte :: "u8 \<Rightarrow> u32 \<Rightarrow> u32" where
  "crc_byte b c = (crc_bit ^^ 8) (c XOR ucast b)"

definition crc32 :: "u8 list \<Rightarrow> u32" where
  "crc32 bs = NOT (fold crc_byte bs (- 1))"

lemma crc_bit_xor: "crc_bit (a XOR b) = crc_bit a XOR crc_bit b"
  by (simp add: crc_bit_def bit_xor_iff drop_bit_xor ac_simps)

lemma crc_bits_xor: "(crc_bit ^^ n) (a XOR b) = (crc_bit ^^ n) a XOR (crc_bit ^^ n) b"
  by (induction n) (simp_all add: crc_bit_xor)

lemma crc_bits_low_zero: "(\<And>i. i < n \<Longrightarrow> \<not> bit c i) \<Longrightarrow> (crc_bit ^^ n) c = drop_bit n c"
proof (induction n arbitrary: c)
  case (Suc n)
  have z: "\<not> bit c 0" using Suc.prems [of 0] by simp
  then have "crc_bit c = drop_bit 1 c" unfolding crc_bit_def by (simp only: if_False xor.right_neutral)
  moreover have "(crc_bit ^^ n) (drop_bit 1 c) = drop_bit n (drop_bit 1 c)"
    by (rule Suc.IH) (use Suc.prems in \<open>simp add: bit_drop_bit_eq\<close>)
  ultimately show ?case by (simp only: funpow_Suc_right comp_apply drop_bit_drop_bit) simp
qed simp

lemma split_low_byte: "(c :: u32) = push_bit 8 (drop_bit 8 c) XOR ucast (ucast c :: u8)"
  by (rule bit_word_eqI) (auto simp: bit_simps)

text \<open>The table is linear: it doubles by one entry for every bit of the index.\<close>

definition crc_powers :: "u32 list" where
  "crc_powers = [0x77073096, 0xEE0E612C, 0x076DC419, 0x0EDB8832, 0x1DB71064, 0x3B6E20C8, 0x76DC4190, 0xEDB88320]"

definition double_table :: "u32 list \<Rightarrow> u32 \<Rightarrow> u32 list" where
  "double_table xs t = xs @ map (\<lambda>x. x XOR t) xs"

lemma CRCTable_doubled: "CRCTable = foldl double_table [0] crc_powers"
  by (simp add: CRCTable_def crc_powers_def double_table_def)

lemma crc_powers_bits: "crc_powers = map (\<lambda>k. (crc_bit ^^ 8) (push_bit k 1)) [0..<8]"
  by code_simp

lemma of_nat_add_bit:
  assumes "i < 2 ^ k" "k < 32"
  shows "of_nat (2 ^ k + i) = (of_nat i :: u32) XOR push_bit k 1"
proof -
  have "\<not> (bit (of_nat i :: u32) n \<and> bit (push_bit k 1 :: u32) n)" for n
  proof -
    have "bit i k \<longleftrightarrow> False" using assms(1) by (simp add: bit_iff_odd)
    then show ?thesis by (auto simp: bit_simps)
  qed
  then have "(of_nat i :: u32) AND push_bit k 1 = 0" by (intro bit_word_eqI) (auto simp: bit_and_iff)
  then have "(of_nat i :: u32) + push_bit k 1 = of_nat i XOR push_bit k 1"
    by (metis disjunctive_xor_eq_or disjunctive_add_eq_or)
  then show ?thesis by (simp add: add.commute push_bit_eq_mult)
qed

lemma double_table_linear:
  "k \<le> 8 \<Longrightarrow> foldl double_table [0] (map (\<lambda>k. (crc_bit ^^ 8) (push_bit k 1)) [0..<k])
     = map (\<lambda>i. (crc_bit ^^ 8) (of_nat i)) [0..<2 ^ k]"
proof (induction k)
  case 0
  have "(crc_bit ^^ 8) 0 = drop_bit 8 0" by (rule crc_bits_low_zero) simp
  then show ?case by simp
next
  case (Suc k)
  let ?L = "\<lambda>i. (crc_bit ^^ 8) (of_nat i)" and ?t = "(crc_bit ^^ 8) (push_bit k 1)"
  have "foldl double_table [0] (map (\<lambda>k. (crc_bit ^^ 8) (push_bit k 1)) [0..<Suc k])
      = map ?L [0..<2 ^ k] @ map (\<lambda>x. x XOR ?t) (map ?L [0..<2 ^ k])"
  proof -
    have IH: "foldl double_table [0] (map (\<lambda>k. (crc_bit ^^ 8) (push_bit k 1)) [0..<k]) = map ?L [0..<2 ^ k]"
      using Suc by (intro Suc.IH) simp
    show ?thesis by (simp only: upt_Suc_append le0 map_append foldl_append list.map foldl.simps IH double_table_def)
  qed
  also have "map (\<lambda>x. x XOR ?t) (map ?L [0..<2 ^ k]) = map (\<lambda>i. ?L (2 ^ k + i)) [0..<2 ^ k]"
    using Suc.prems of_nat_add_bit [of _ k] by (simp add: crc_bits_xor)
  also have "map (\<lambda>i. ?L (2 ^ k + i)) [0..<2 ^ k] = map ?L [2 ^ k..<2 ^ k + 2 ^ k]"
    by (rule nth_equalityI) simp_all
  also have "map ?L [0..<2 ^ k] @ map ?L [2 ^ k..<2 ^ k + 2 ^ k] = map ?L [0..<2 ^ Suc k]"
    using upt_add_eq_append [of 0 "2 ^ k" "2 ^ k"] by (simp add: mult_2 flip: map_append)
  finally show ?case .
qed

lemma CRCTable_bits: "CRCTable ! unat b = (crc_bit ^^ 8) (ucast (b :: u8))"
proof -
  have t: "CRCTable = map (\<lambda>i. (crc_bit ^^ 8) (of_nat i)) [0..<256]"
    using double_table_linear [of 8] unfolding CRCTable_doubled crc_powers_bits by simp
  have "unat b < 256" by (rule unat_lt_u8)
  then have "CRCTable ! unat b = (crc_bit ^^ 8) (of_nat (unat b))" unfolding t by simp
  then show ?thesis by simp
qed

lemma crc_step: "drop_bit 8 (ucast c :: u64) XOR ucast (CRCTable ! unat ((ucast (ucast c :: u64) :: u8) XOR b)) = ucast (crc_byte b c)"
proof -
  let ?l = "(ucast c :: u8) XOR b"
  have l: "(ucast (ucast c :: u64) :: u8) = ucast c" by (rule bit_word_eqI) (auto simp: bit_simps)
  have "(c XOR ucast b) = push_bit 8 (drop_bit 8 c) XOR ucast ?l"
    by (rule bit_word_eqI) (auto simp: bit_simps)
  then have "crc_byte b c = (crc_bit ^^ 8) (push_bit 8 (drop_bit 8 c)) XOR (crc_bit ^^ 8) (ucast ?l)"
    unfolding crc_byte_def by (simp only: crc_bits_xor)
  also have "(crc_bit ^^ 8) (push_bit 8 (drop_bit 8 c)) = drop_bit 8 (push_bit 8 (drop_bit 8 c))"
    by (rule crc_bits_low_zero) (auto simp: bit_simps)
  also have "\<dots> = drop_bit 8 c" by (rule bit_word_eqI) (auto simp: bit_simps dest: bit_imp_le_length)
  finally have "crc_byte b c = drop_bit 8 c XOR CRCTable ! unat ?l" by (simp only: CRCTable_bits)
  moreover have "(ucast (x XOR y :: u32) :: u64) = ucast x XOR ucast y" for x y
    by (rule bit_word_eqI) (auto simp: bit_simps)
  moreover have "drop_bit 8 (ucast c :: u64) = ucast (drop_bit 8 c)"
    by (rule bit_word_eqI) (auto simp: bit_simps dest: bit_imp_le_length)
  ultimately show ?thesis by (simp only: l)
qed

definition bytes_at :: "memory \<Rightarrow> u64 \<Rightarrow> nat \<Rightarrow> u8 list" where
  "bytes_at m a n = map (\<lambda>k. m (a + of_nat k)) [0..<n]"

lemma bytes_at_Suc: "bytes_at m a (Suc n) = m a # bytes_at m (a + 1) n"
  by (simp add: bytes_at_def upt_conv_Cons map_Suc_upt [symmetric] comp_def add.assoc del: upt_Suc)

lemma crc_loop_bytes: "crc_loop n m pt (ucast c) = ucast (fold crc_byte (bytes_at m pt n) c)"
proof (induction n arbitrary: pt c)
  case (Suc n)
  show ?case unfolding crc_loop.simps crc_step Suc bytes_at_Suc by simp
qed (simp add: bytes_at_def)

lemma crc_init: "(0xffffffff :: u64) = ucast (- 1 :: u32)"
  by (simp add: unsigned_minus_1_eq_mask mask_eq_exp_minus_1)

lemma CalculateCrc_bytes: "CalculateCrc m pt Size = crc32 (bytes_at m pt (unat Size))"
  unfolding CalculateCrc_def crc_init crc_loop_bytes crc32_def
  by (rule bit_word_eqI) (auto simp: bit_simps)

subsection \<open>One changed byte changes the checksum\<close>

lemma crc_bit_top: "bit (crc_bit c) 31 \<longleftrightarrow> bit c 0"
proof -
  have "\<not> bit (drop_bit 1 c) 31" by (auto simp: bit_simps dest: bit_imp_le_length)
  moreover have "bit (0xEDB88320 :: u32) 31" by code_simp
  ultimately show ?thesis by (simp add: crc_bit_def bit_xor_iff)
qed

lemma xor_cancel: "(a :: 'a::len word) XOR c = b XOR c \<longleftrightarrow> a = b"
proof
  assume "a XOR c = b XOR c"
  then have "(a XOR c) XOR c = (b XOR c) XOR c" by simp
  then show "a = b" by (simp add: xor.assoc)
qed simp

lemma xor_cancel_left: "(c :: 'a::len word) XOR a = c XOR b \<longleftrightarrow> a = b"
  using xor_cancel [of a c b] by (simp add: xor.commute)

lemma inj_crc_bit: "inj crc_bit"
proof (rule injI)
  fix a b assume e: "crc_bit a = crc_bit b"
  then have z: "bit a 0 \<longleftrightarrow> bit b 0" using crc_bit_top by metis
  then have "drop_bit 1 a = drop_bit 1 b" using e by (auto simp: crc_bit_def xor_cancel split: if_splits)
  then have "bit a (Suc n) \<longleftrightarrow> bit b (Suc n)" for n
    by (metis bit_drop_bit_eq comp_apply plus_1_eq_Suc)
  with z show "a = b" by (intro bit_word_eqI) (metis not0_implies_Suc)
qed

lemma inj_crc_bits: "inj (crc_bit ^^ n)"
proof (induction n)
  case (Suc n)
  then show ?case using inj_compose [OF inj_crc_bit Suc] by (simp add: comp_def)
qed (simp add: inj_def)

lemma crc_byte_inj: "crc_byte b c = crc_byte b c' \<longleftrightarrow> c = c'"
  unfolding crc_byte_def by (simp add: inj_eq [OF inj_crc_bits] xor_cancel del: funpow.simps)

lemma crc_byte_inj_byte: "crc_byte b c = crc_byte b' c \<longleftrightarrow> b = b'"
proof -
  have "(ucast b :: u32) = ucast b' \<longleftrightarrow> b = b'"
  proof
    assume "(ucast b :: u32) = ucast b'"
    then have e: "bit (ucast b :: u32) n \<longleftrightarrow> bit (ucast b' :: u32) n" for n by (simp only:)
    have "bit b n \<longleftrightarrow> bit b' n" if "n < 8" for n using e [of n] that by (simp add: bit_simps)
    then show "b = b'" by (intro bit_word_eqI) simp
  qed simp
  then show ?thesis unfolding crc_byte_def by (simp only: inj_eq [OF inj_crc_bits] xor_cancel_left)
qed

lemma fold_crc_inj: "fold crc_byte bs c = fold crc_byte bs c' \<longleftrightarrow> c = c'"
  by (induction bs arbitrary: c c') (auto simp: crc_byte_inj)

lemma crc32_one_byte: "b \<noteq> b' \<Longrightarrow> crc32 (xs @ b # ys) \<noteq> crc32 (xs @ b' # ys)"
  by (simp add: crc32_def fold_crc_inj crc_byte_inj_byte)

lemma bytes_at_update:
  assumes "a \<in> region p n" "n < 2 ^ 64"
  shows "\<exists>xs ys. bytes_at m p n = xs @ m a # ys \<and> (\<forall>v. bytes_at (m(a := v)) p n = xs @ v # ys)"
proof -
  let ?k = "unat (a - p)"
  have k: "?k < n" using assms(1) by (simp add: region_def)
  have "[0..<n] = [0..<?k] @ ?k # [Suc ?k..<n]"
    using k upt_add_eq_append [of 0 ?k "n - ?k"] by (simp add: upt_conv_Cons)
  moreover have "p + of_nat j \<noteq> a" if "j < n" "j \<noteq> ?k" for j
    using that assms(2) by (auto simp: unat_of_nat_lt)
  then have e: "map (\<lambda>j. (m(a := v)) (p + of_nat j)) js = map (\<lambda>j. m (p + of_nat j)) js" if "set js \<subseteq> {..<n} - {?k}" for js v
    using that by (intro map_cong) auto
  let ?xs = "map (\<lambda>j. m (p + of_nat j)) [0..<?k]" and ?ys = "map (\<lambda>j. m (p + of_nat j)) [Suc ?k..<n]"
  have "set [0..<?k] \<subseteq> {..<n} - {?k}" "set [Suc ?k..<n] \<subseteq> {..<n} - {?k}" using k by auto
  ultimately have "bytes_at m p n = ?xs @ m a # ?ys" "bytes_at (m(a := v)) p n = ?xs @ v # ?ys" for v
    unfolding bytes_at_def by (simp_all only: map_append list.map e) simp_all
  then show ?thesis by blast
qed

subsection \<open>The checksum field\<close>

lemma write32_twice: "write32 (write32 m a v) a w = write32 m a w"
  unfolding write32_def by (rule ext) (simp add: store_le_apply)

lemma load_le_byte:
  assumes "k < n" "n \<le> 8"
  shows "ucast (drop_bit (8 * k) (load_le n m a)) = m (a + of_nat k)"
proof (rule bit_word_eqI)
  fix i assume "i < LENGTH(8)"
  then show "bit (ucast (drop_bit (8 * k) (load_le n m a)) :: u8) i \<longleftrightarrow> bit (m (a + of_nat k)) i"
    using assms by (simp add: bit_simps bit_load_le div_add1_eq)
qed

lemma read32_byte: "k < 4 \<Longrightarrow> ucast (drop_bit (8 * k) (read32 m a)) = m (a + of_nat k)"
proof -
  assume k: "k < 4"
  have "(ucast (drop_bit (8 * k) (read32 m a)) :: u8) = ucast (drop_bit (8 * k) (load_le 4 m a))"
    unfolding read32_def by (rule bit_word_eqI) (use k in \<open>auto simp: bit_simps\<close>)
  then show ?thesis using k by (simp add: load_le_byte)
qed

lemma write32_back: "write32 m a (read32 m a) = m"
proof (rule ext)
  fix b
  show "write32 m a (read32 m a) b = m b"
  proof (cases "b \<in> region a 4")
    case True
    let ?k = "unat (b - a)"
    have k: "?k < 4" using True by (simp add: region_def)
    have "ucast (drop_bit (8 * ?k) (ucast (read32 m a) :: u64)) = (ucast (drop_bit (8 * ?k) (read32 m a)) :: u8)"
      by (rule bit_word_eqI) (use k in \<open>auto simp: bit_simps\<close>)
    then show ?thesis using k read32_byte [OF k, of m a] by (simp add: write32_def store_le_apply)
  next
    case False
    then show ?thesis by (rule write32_outside)
  qed
qed

lemma write32_upd_inside: "b \<in> region a 4 \<Longrightarrow> write32 (m(b := v)) a w = write32 m a w"
  unfolding write32_def by (rule ext) (simp add: store_le_apply region_def)

lemma write32_upd_outside: "b \<notin> region a 4 \<Longrightarrow> write32 (m(b := v)) a w = (write32 m a w)(b := v)"
  unfolding write32_def by (rule ext) (simp add: store_le_apply region_def)

lemma read32_upd_inside: "b \<in> region a 4 \<Longrightarrow> v \<noteq> m b \<Longrightarrow> read32 (m(b := v)) a \<noteq> read32 m a"
proof
  assume b: "b \<in> region a 4" "v \<noteq> m b" and e: "read32 (m(b := v)) a = read32 m a"
  let ?k = "unat (b - a)"
  have "?k < 4" using b(1) by (simp add: region_def)
  from read32_byte [OF this, of "m(b := v)" a] read32_byte [OF this, of m a] e b(2) show False by simp
qed

subsection \<open>Properties\<close>

text \<open>C23: The checksum computed with the table is the CRC-32 of the bytes: the remainder of the division
  by the polynomial, one bit at a time.\<close>

theorem CalculateCrc_crc32: "CalculateCrc m pt Size = crc32 (bytes_at m pt (unat Size))"
  by (rule CalculateCrc_bytes)

text \<open>C24: A table whose checksum was set passes the check with the same size, unless it is empty or
  exceeds the maximum, and the check leaves memory as it was.\<close>

theorem CheckCrc_SetCrc:
  assumes "0 < Size" "MaxSize = 0 \<or> Size \<le> MaxSize"
  shows "CheckCrcAltSize MaxSize Size Hdr (SetCrcAltSize Size Hdr m) = (True, SetCrcAltSize Size Hdr m)"
  using assms by (auto simp: CheckCrcAltSize_def SetCrcAltSize_def set_CRC32_def CRC32_def Let_def write32_twice)

text \<open>C22: A table that passes the check does not pass it any more when one of its bytes is changed.\<close>

theorem CheckCrc_detects:
  assumes "fst (CheckCrcAltSize MaxSize Size Hdr m)" "a \<in> region Hdr (unat Size)" "v \<noteq> m a"
  shows "\<not> fst (CheckCrcAltSize MaxSize Size Hdr (m(a := v)))"
proof -
  let ?z = "\<lambda>m. set_CRC32 Hdr 0 m"
  have ok: "Size \<noteq> 0" "\<not> (MaxSize \<noteq> 0 \<and> Size > MaxSize)" "CRC32 m Hdr = CalculateCrc (?z m) Hdr Size"
    using assms(1) by (auto simp: CheckCrcAltSize_def Let_def split: if_splits)
  have "CRC32 (m(a := v)) Hdr \<noteq> CalculateCrc (?z (m(a := v))) Hdr Size"
  proof (cases "a \<in> region (Hdr + 16) 4")
    case True
    then show ?thesis using ok(3) read32_upd_inside [of a "Hdr + 16" v m] assms(3)
      by (simp add: CRC32_def set_CRC32_def write32_upd_inside)
  next
    case False
    have z: "?z (m(a := v)) = (?z m)(a := v)" "?z m a = m a"
      using False by (simp_all add: set_CRC32_def write32_upd_outside write32_outside)
    have "read32 (m(a := v)) (Hdr + 16) = read32 m (Hdr + 16)"
      by (rule read32_cong) (use False in auto)
    then have "CRC32 (m(a := v)) Hdr = CRC32 m Hdr" by (simp add: CRC32_def)
    moreover obtain xs ys where "bytes_at (?z m) Hdr (unat Size) = xs @ m a # ys"
      "bytes_at ((?z m)(a := v)) Hdr (unat Size) = xs @ v # ys"
      using bytes_at_update [OF assms(2), of "?z m"] z(2) by auto
    ultimately show ?thesis using ok(3) crc32_one_byte [OF assms(3), of xs ys]
      by (simp add: CalculateCrc_bytes z(1))
  qed
  then show ?thesis using ok(1,2) by (simp add: CheckCrcAltSize_def Let_def)
qed

theorem CheckCrc_SetCrc_witness: "fst (CheckCrcAltSize 0 24 0x1000 (SetCrcAltSize 24 0x1000 (\<lambda>_. 7)))"
  using CheckCrc_SetCrc [of 24 0 "0x1000" "\<lambda>_. 7"] by simp

theorem CheckCrc_detects_witness:
  "\<not> fst (CheckCrcAltSize 0 24 0x1000 ((SetCrcAltSize 24 0x1000 (\<lambda>_. 7))(0x1005 := 8)))"
proof -
  let ?m = "SetCrcAltSize 24 0x1000 (\<lambda>_. 7)"
  have "CheckCrcAltSize 0 24 0x1000 ?m = (True, ?m)"
    by (simp add: CheckCrcAltSize_def SetCrcAltSize_def set_CRC32_def CRC32_def Let_def write32_twice)
  moreover have "?m 0x1005 = 7"
    by (simp add: SetCrcAltSize_def set_CRC32_def Let_def write32_outside region_def)
  ultimately show ?thesis by (intro CheckCrc_detects) (simp_all add: region_def)
qed

end
