(* ===== verification/EfiPath.thy ===== *)
theory EfiPath
  imports EfiLib
begin

text \<open>
  Device paths, \<open>lib/dpath.c\<close> up to the conversion to text: a path is a sequence of nodes in memory,
  each with a header of a type, a subtype and a length of two bytes; an end node closes an instance
  or the whole path. Assertions and debug messages are compiled out; the dump of a path of more than
  512 nodes to the console is left out. A loop over a path that has no end is \<open>None\<close>.
\<close>

subsection \<open>Nodes in memory\<close>

definition DevicePathType :: "memory \<Rightarrow> u64 \<Rightarrow> u8" where
  "DevicePathType m a = m a AND 0x7F"

definition DevicePathSubType :: "memory \<Rightarrow> u64 \<Rightarrow> u8" where
  "DevicePathSubType m a = m (a + 1)"

definition DevicePathNodeLength :: "memory \<Rightarrow> u64 \<Rightarrow> u64" where
  "DevicePathNodeLength m a = ucast (m (a + 2)) OR push_bit 8 (ucast (m (a + 3)))"

definition NextDevicePathNode :: "memory \<Rightarrow> u64 \<Rightarrow> u64" where
  "NextDevicePathNode m a = a + DevicePathNodeLength m a"

definition IsDevicePathEndType :: "memory \<Rightarrow> u64 \<Rightarrow> bool" where
  "IsDevicePathEndType m a \<longleftrightarrow> DevicePathType m a = 0x7F"

definition IsDevicePathEndSubType :: "memory \<Rightarrow> u64 \<Rightarrow> bool" where
  "IsDevicePathEndSubType m a \<longleftrightarrow> m (a + 1) = 0xFF"

definition IsDevicePathEnd :: "memory \<Rightarrow> u64 \<Rightarrow> bool" where
  "IsDevicePathEnd m a \<longleftrightarrow> IsDevicePathEndType m a \<and> IsDevicePathEndSubType m a"

definition SetDevicePathNodeLength :: "u64 \<Rightarrow> u64 \<Rightarrow> memory \<Rightarrow> memory" where
  "SetDevicePathNodeLength a l m = m(a + 2 := ucast l, a + 3 := ucast (drop_bit 8 l))"

definition SetDevicePathEndNode :: "u64 \<Rightarrow> memory \<Rightarrow> memory" where
  "SetDevicePathEndNode a m = m(a := 0x7F, a + 1 := 0xFF, a + 2 := 4, a + 3 := 0)"

definition EndDevicePath :: "u8 list" where
  "EndDevicePath = [0x7F, 0xFF, 4, 0]"

definition EndInstanceDevicePath :: "u8 list" where
  "EndInstanceDevicePath = [0x7F, 0x01, 4, 0]"

definition sizeof_EFI_DEVICE_PATH :: u64 where
  "sizeof_EFI_DEVICE_PATH = 4"

subsection \<open>Instances\<close>

definition DevicePathFromHandle ::
  "('f, 'y) uefi_scheme \<Rightarrow> u64 \<Rightarrow> ('f, 'z) efi_state_scheme \<Rightarrow> (u64 \<times> ('f, 'z) efi_state_scheme) option" where
  "DevicePathFromHandle sv Handle s =
     (let (Status, v, f) = sv_HandleProtocol sv Handle DevicePathProtocol (firmware s);
          s = s\<lparr>firmware := f\<rparr>
      in if EFI_ERROR Status then Some (0, s) else do { DevicePath \<leftarrow> v; Some (DevicePath, s) })"

text \<open>The first loop of \<open>DevicePathInstance\<close>, from node number \<open>Count\<close> on: the node it stops at.\<close>

function instance_loop :: "memory \<Rightarrow> nat \<Rightarrow> u64 \<Rightarrow> u64" where
  "instance_loop m Count DevPath =
     (if IsDevicePathEndType m DevPath then DevPath
      else if Count > 512 then DevPath
      else instance_loop m (Count + 1) (NextDevicePathNode m DevPath))"
  by pat_completeness auto
termination by (relation "measure (\<lambda>(m, Count, DevPath). 513 - Count)") auto

declare instance_loop.simps [simp del]

text \<open>The start of the instance, the position of the next one and the size; for a null pointer the
  function returns null and stores nothing.\<close>

definition DevicePathInstance :: "memory \<Rightarrow> u64 \<Rightarrow> (u64 \<times> u64 \<times> u64) option" where
  "DevicePathInstance m DevicePath =
     (if DevicePath = 0 then None
      else
        let DevPath = instance_loop m 0 DevicePath;
            Next = (if DevicePathSubType m DevPath = 0xFF then 0 else NextDevicePathNode m DevPath)
        in Some (DevicePath, Next, DevPath - DevicePath))"

partial_function (option) count_loop :: "memory \<Rightarrow> u64 \<Rightarrow> u64 \<Rightarrow> u64 option" where
  "count_loop m DevicePath Count =
     (case DevicePathInstance m DevicePath of
        None \<Rightarrow> Some Count
      | Some (Inst, Next, Size) \<Rightarrow> count_loop m Next (Count + 1))"

definition DevicePathInstanceCount :: "memory \<Rightarrow> u64 \<Rightarrow> u64 option" where
  "DevicePathInstanceCount m DevicePath = count_loop m DevicePath 0"

partial_function (option) end_loop :: "memory \<Rightarrow> u64 \<Rightarrow> u64 option" where
  "end_loop m DevPath =
     (if \<not> IsDevicePathEnd m DevPath then end_loop m (NextDevicePathNode m DevPath) else Some DevPath)"

definition DevicePathSize :: "memory \<Rightarrow> u64 \<Rightarrow> u64 option" where
  "DevicePathSize m DevPath = do { e \<leftarrow> end_loop m DevPath; Some (e - DevPath + sizeof_EFI_DEVICE_PATH) }"

definition DuplicateDevicePath ::
  "('f, 'y) uefi_scheme \<Rightarrow> u64 \<Rightarrow> ('f, 'z) efi_state_scheme \<Rightarrow> (u64 \<times> ('f, 'z) efi_state_scheme) option" where
  "DuplicateDevicePath sv DevPath s = do {
     Size \<leftarrow> DevicePathSize (mem s) DevPath;
     (NewDevPath, s) \<leftarrow> AllocatePool sv Size s;
     Some (NewDevPath, if NewDevPath \<noteq> 0 then CopyMem NewDevPath DevPath Size s else s)
   }"

subsection \<open>Joining paths\<close>

text \<open>The end nodes that are copied are constants of the library.\<close>

definition CopyConst :: "u64 \<Rightarrow> u8 list \<Rightarrow> ('f, 'z) efi_state_scheme \<Rightarrow> ('f, 'z) efi_state_scheme" where
  "CopyConst Dest bs s = s\<lparr>mem := store_bytes Dest bs (mem s)\<rparr>"

partial_function (option) append_loop ::
  "u64 \<Rightarrow> u64 \<Rightarrow> u64 \<Rightarrow> u64 \<Rightarrow> ('f, 'z) efi_state_scheme \<Rightarrow> (u64 \<times> ('f, 'z) efi_state_scheme) option" where
  "append_loop Src1 Src2 Src2Size DstPos s =
     (case DevicePathInstance (mem s) Src1 of
        None \<Rightarrow> Some (DstPos, s)
      | Some (Inst, Src1, Size) \<Rightarrow>
          let s = CopyMem DstPos Inst Size s;
              DstPos = DstPos + Size;
              s = CopyMem DstPos Src2 Src2Size s;
              DstPos = DstPos + Src2Size;
              s = CopyConst DstPos EndInstanceDevicePath s
          in append_loop Src1 Src2 Src2Size (DstPos + sizeof_EFI_DEVICE_PATH) s)"

definition AppendDevicePath ::
  "('f, 'y) uefi_scheme \<Rightarrow> u64 \<Rightarrow> u64 \<Rightarrow> ('f, 'z) efi_state_scheme \<Rightarrow> (u64 \<times> ('f, 'z) efi_state_scheme) option" where
  "AppendDevicePath sv Src1 Src2 s =
     (if Src1 = 0 then DuplicateDevicePath sv Src2 s
      else if Src2 = 0 then DuplicateDevicePath sv Src1 s
      else do {
        Src1Size \<leftarrow> DevicePathSize (mem s) Src1;
        Src1Inst \<leftarrow> DevicePathInstanceCount (mem s) Src1;
        Src2Size \<leftarrow> DevicePathSize (mem s) Src2;
        let Size = Src1Size * Src1Inst + Src2Size;
        (Dst, s) \<leftarrow> AllocatePool sv Size s;
        if Dst \<noteq> 0 then do {
          (DstPos, s) \<leftarrow> append_loop Src1 Src2 Src2Size Dst s;
          let DstPos = DstPos - sizeof_EFI_DEVICE_PATH;
          Some (Dst, CopyConst DstPos EndDevicePath s)
        }
        else Some (Dst, s)
      })"

definition AppendDevicePathNode ::
  "('f, 'y) uefi_scheme \<Rightarrow> u64 \<Rightarrow> u64 \<Rightarrow> ('f, 'z) efi_state_scheme \<Rightarrow> (u64 \<times> ('f, 'z) efi_state_scheme) option" where
  "AppendDevicePathNode sv Src1 Src2 s = do {
     let Length = DevicePathNodeLength (mem s) Src2;
     (Temp, s) \<leftarrow> AllocatePool sv (Length + sizeof_EFI_DEVICE_PATH) s;
     if Temp = 0 then Some (0, s)
     else do {
       let s = CopyMem Temp Src2 Length s;
       let Eop = NextDevicePathNode (mem s) Temp;
       let s = s\<lparr>mem := SetDevicePathEndNode Eop (mem s)\<rparr>;
       (Src1, s) \<leftarrow> AppendDevicePath sv Src1 Temp s;
       Some (Src1, FreePool sv Temp s)
     }
   }"

text \<open>The name of a file path node follows its header of 4 bytes.\<close>

definition FileDevicePath ::
  "('f, 'y) uefi_scheme \<Rightarrow> u64 \<Rightarrow> u64 \<Rightarrow> ('f, 'z) efi_state_scheme \<Rightarrow> (u64 \<times> ('f, 'z) efi_state_scheme) option" where
  "FileDevicePath sv Device FileName s = do {
     Size \<leftarrow> StrSize (mem s) FileName;
     (FilePath, s) \<leftarrow> AllocateZeroPool sv (Size + 4 + sizeof_EFI_DEVICE_PATH) s;
     if FilePath = 0 then Some (0, s)
     else do {
       let m = (mem s)(FilePath := 4, FilePath + 1 := 4);
       let s = s\<lparr>mem := SetDevicePathNodeLength FilePath (Size + 4) m\<rparr>;
       let s = CopyMem (FilePath + 4) FileName Size s;
       let Eop = NextDevicePathNode (mem s) FilePath;
       let s = s\<lparr>mem := SetDevicePathEndNode Eop (mem s)\<rparr>;
       if Device \<noteq> 0 then do {
         (p, s) \<leftarrow> DevicePathFromHandle sv Device s;
         (DevicePath, s) \<leftarrow> AppendDevicePath sv p FilePath s;
         Some (DevicePath, FreePool sv FilePath s)
       }
       else Some (FilePath, s)
     }
   }"

definition AppendDevicePathInstance ::
  "('f, 'y) uefi_scheme \<Rightarrow> u64 \<Rightarrow> u64 \<Rightarrow> ('f, 'z) efi_state_scheme \<Rightarrow> (u64 \<times> ('f, 'z) efi_state_scheme) option" where
  "AppendDevicePathInstance sv Src Instance s =
     (if Src = 0 then DuplicateDevicePath sv Instance s
      else do {
        SrcSize \<leftarrow> DevicePathSize (mem s) Src;
        InstanceSize \<leftarrow> DevicePathSize (mem s) Instance;
        (Ptr, s) \<leftarrow> AllocatePool sv (SrcSize + InstanceSize) s;
        let s = CopyMem Ptr Src SrcSize s;
        DevPath \<leftarrow> end_loop (mem s) Ptr;
        let s = s\<lparr>mem := (mem s)(DevPath + 1 := 0x01)\<rparr>;
        let DevPath = NextDevicePathNode (mem s) DevPath;
        Some (Ptr, CopyMem DevPath Instance InstanceSize s)
      })"

subsection \<open>Aligned nodes\<close>

definition ALIGN_SIZE :: "u64 \<Rightarrow> u64" where
  "ALIGN_SIZE a = (if a mod 8 \<noteq> 0 then 8 - a mod 8 else 0)"

partial_function (option) unpacked_size :: "memory \<Rightarrow> u64 \<Rightarrow> u64 \<Rightarrow> u64 option" where
  "unpacked_size m Src Size =
     (let Size = Size + DevicePathNodeLength m Src;
          Size = Size + ALIGN_SIZE Size
      in if IsDevicePathEnd m Src then Some Size else unpacked_size m (NextDevicePathNode m Src) Size)"

partial_function (option) unpack_loop :: "u64 \<Rightarrow> u64 \<Rightarrow> ('f, 'z) efi_state_scheme \<Rightarrow> ('f, 'z) efi_state_scheme option" where
  "unpack_loop Src Dest s =
     (let Size = DevicePathNodeLength (mem s) Src;
          s = CopyMem Dest Src Size s;
          Size = Size + ALIGN_SIZE Size;
          m = SetDevicePathNodeLength Dest Size (mem s);
          s = s\<lparr>mem := m(Dest := m Dest OR 0x80)\<rparr>;
          Dest = Dest + Size
      in if IsDevicePathEnd (mem s) Src then Some s else unpack_loop (NextDevicePathNode (mem s) Src) Dest s)"

definition UnpackDevicePath ::
  "('f, 'y) uefi_scheme \<Rightarrow> u64 \<Rightarrow> ('f, 'z) efi_state_scheme \<Rightarrow> (u64 \<times> ('f, 'z) efi_state_scheme) option" where
  "UnpackDevicePath sv DevPath s = do {
     Size \<leftarrow> unpacked_size (mem s) DevPath 0;
     (NewPath, s) \<leftarrow> AllocateZeroPool sv Size s;
     if NewPath \<noteq> 0 then do { s \<leftarrow> unpack_loop DevPath NewPath s; Some (NewPath, s) } else Some (NewPath, s)
   }"

subsection \<open>Looking up paths\<close>

text \<open>The service that locates a device gives the rest of the path and the device.\<close>

record 'f path_uefi = "'f uefi" +
  sv_LocateDevicePath :: "protocol \<Rightarrow> u64 \<Rightarrow> memory \<Rightarrow> 'f \<Rightarrow> u64 \<times> (u64 \<times> u64) option \<times> 'f"

definition LibDevicePathToInterface ::
  "('f, 'y) path_uefi_scheme \<Rightarrow> protocol \<Rightarrow> u64 \<Rightarrow> ('f, 'z) efi_state_scheme \<Rightarrow> (u64 \<times> u64 \<times> ('f, 'z) efi_state_scheme) option" where
  "LibDevicePathToInterface sv Protocol FilePath s = do {
     let (Status, out, f) = sv_LocateDevicePath sv Protocol FilePath (mem s) (firmware s);
     let s = s\<lparr>firmware := f\<rparr>;
     if EFI_ERROR Status then Some (Status, 0, s)
     else do {
       (FilePath, Device) \<leftarrow> out;
       if IsDevicePathEnd (mem s) FilePath then do {
         let (Status, v, f) = sv_HandleProtocol sv Device Protocol (firmware s);
         let s = s\<lparr>firmware := f\<rparr>;
         if EFI_ERROR Status then Some (Status, 0, s) else do { i \<leftarrow> v; Some (Status, i, s) }
       }
       else Some (EFI_NOT_FOUND, 0, s)
     }
   }"

partial_function (option) match_loop :: "memory \<Rightarrow> u64 \<Rightarrow> u64 \<Rightarrow> bool option" where
  "match_loop m DevicePath Single =
     (case DevicePathInstance m DevicePath of
        None \<Rightarrow> Some False
      | Some (Inst, Next, Size) \<Rightarrow>
          if RtCompareMem m Single Inst Size = 0 then Some True else match_loop m Next Single)"

definition LibMatchDevicePaths :: "memory \<Rightarrow> u64 \<Rightarrow> u64 \<Rightarrow> bool option" where
  "LibMatchDevicePaths m Multi Single =
     (if Multi = 0 \<or> Single = 0 then Some False else match_loop m Multi Single)"

definition LibDuplicateDevicePathInstance ::
  "('f, 'y) uefi_scheme \<Rightarrow> u64 \<Rightarrow> ('f, 'z) efi_state_scheme \<Rightarrow> (u64 \<times> ('f, 'z) efi_state_scheme) option" where
  "LibDuplicateDevicePathInstance sv DevPath s =
     (let (DevicePathInst, Size) = (case DevicePathInstance (mem s) DevPath of None \<Rightarrow> (0, 0) | Some (Inst, Next, Size) \<Rightarrow> (Inst, Size))
      in do {
        (NewDevPath, s) \<leftarrow> (if Size \<noteq> 0 then AllocatePool sv (Size + sizeof_EFI_DEVICE_PATH) s else Some (0, s));
        if NewDevPath \<noteq> 0 then
          let s = CopyMem NewDevPath DevicePathInst Size s;
              Temp = NextDevicePathNode (mem s) NewDevPath
          in Some (NewDevPath, s\<lparr>mem := SetDevicePathEndNode Temp (mem s)\<rparr>)
        else Some (NewDevPath, s)
      })"

subsection \<open>Paths as lists of nodes\<close>

text \<open>A node is its type, its subtype and the bytes behind its header.\<close>

type_synonym dp_node = "u8 \<times> u8 \<times> u8 list"

definition node_len :: "dp_node \<Rightarrow> nat" where
  "node_len n = length (snd (snd n)) + 4"

definition node_bytes :: "dp_node \<Rightarrow> u8 list" where
  "node_bytes n =
     [fst n, fst (snd n), ucast (of_nat (node_len n) :: u64), ucast (drop_bit 8 (of_nat (node_len n) :: u64))] @ snd (snd n)"

definition plain :: "dp_node \<Rightarrow> bool" where
  "plain n \<longleftrightarrow> fst n AND 0x7F \<noteq> 0x7F \<and> node_len n < 65536"

definition nodes_bytes :: "dp_node list \<Rightarrow> u8 list" where
  "nodes_bytes ns = concat (map node_bytes ns)"

text \<open>A path is a list of instances, each a list of nodes.\<close>

fun path_bytes :: "dp_node list list \<Rightarrow> u8 list" where
  "path_bytes [] = []"
| "path_bytes [i] = nodes_bytes i @ EndDevicePath"
| "path_bytes (i # is) = nodes_bytes i @ EndInstanceDevicePath @ path_bytes is"

definition bytes_at :: "memory \<Rightarrow> u64 \<Rightarrow> u8 list \<Rightarrow> bool" where
  "bytes_at m a bs \<longleftrightarrow> (\<forall>k < length bs. m (a + of_nat k) = bs ! k)"

definition path_at :: "memory \<Rightarrow> u64 \<Rightarrow> dp_node list list \<Rightarrow> bool" where
  "path_at m a is \<longleftrightarrow> bytes_at m a (path_bytes is) \<and> is \<noteq> [] \<and> a \<noteq> 0 \<and> unat a + length (path_bytes is) < 2 ^ 64
     \<and> (\<forall>i \<in> set is. length i \<le> 512 \<and> (\<forall>n \<in> set i. plain n))"

lemma bytes_at_Nil [simp]: "bytes_at m a []"
  by (simp add: bytes_at_def)

lemma bytes_at_Cons: "bytes_at m a (b # bs) \<longleftrightarrow> m a = b \<and> bytes_at m (a + 1) bs"
proof
  assume "bytes_at m a (b # bs)"
  then have "m (a + of_nat k) = (b # bs) ! k" if "k < Suc (length bs)" for k using that by (simp add: bytes_at_def)
  from this [of 0] this [of "Suc _"] show "m a = b \<and> bytes_at m (a + 1) bs" by (simp add: bytes_at_def add.assoc)
next
  assume "m a = b \<and> bytes_at m (a + 1) bs"
  then show "bytes_at m a (b # bs)" by (auto simp: bytes_at_def nth_Cons add.assoc split: nat.splits)
qed

lemma bytes_at_append: "bytes_at m a (xs @ ys) \<longleftrightarrow> bytes_at m a xs \<and> bytes_at m (a + of_nat (length xs)) ys"
  by (induction xs arbitrary: a) (auto simp: bytes_at_Cons add.assoc)

lemma bytes_at_cong:
  assumes "bytes_at m a bs" "length bs < 2 ^ 64" "\<And>b. b \<in> region a (length bs) \<Longrightarrow> m' b = m b"
  shows "bytes_at m' a bs"
  using assms by (simp add: bytes_at_def in_region_of_nat)

lemma length_node_bytes [simp]: "length (node_bytes n) = node_len n"
  by (simp add: node_bytes_def node_len_def)

lemma nodes_bytes_simps [simp]:
  "nodes_bytes [] = []" "nodes_bytes (n # ns) = node_bytes n @ nodes_bytes ns" "nodes_bytes (ns @ ns') = nodes_bytes ns @ nodes_bytes ns'"
  by (simp_all add: nodes_bytes_def)

lemma path_bytes_Cons: "path_bytes (i # is) = nodes_bytes i @ (if is = [] then EndDevicePath else EndInstanceDevicePath @ path_bytes is)"
  by (cases "is") simp_all

lemma path_bytes_join: "path_bytes ((i @ j) # js) = nodes_bytes i @ path_bytes (j # js)"
  by (simp add: path_bytes_Cons)

lemma length_End [simp]: "length EndDevicePath = 4" "length EndInstanceDevicePath = 4"
  by (simp_all add: EndDevicePath_def EndInstanceDevicePath_def)

text \<open>The length is read back from its two bytes.\<close>

lemma two_bytes: "(ucast (ucast (x :: u64) :: u8) :: u64) OR push_bit 8 (ucast (ucast (drop_bit 8 x) :: u8)) = take_bit 16 x"
  by (rule bit_word_eqI) (auto simp: bit_simps)

lemma node_at:
  assumes "bytes_at m a (node_bytes n)" "node_len n < 65536"
  shows "m a = fst n" "m (a + 1) = fst (snd n)" "DevicePathNodeLength m a = of_nat (node_len n)"
    "NextDevicePathNode m a = a + of_nat (node_len n)"
proof -
  have b: "m a = fst n" "m (a + 1) = fst (snd n)" "m (a + 2) = ucast (of_nat (node_len n) :: u64)"
    "m (a + 3) = ucast (drop_bit 8 (of_nat (node_len n) :: u64))"
    using assms(1) by (simp_all add: node_bytes_def bytes_at_Cons add.assoc)
  show "m a = fst n" "m (a + 1) = fst (snd n)" by (rule b)+
  have u: "unat (of_nat (node_len n) :: u64) = node_len n" using assms(2) by (intro unat_of_nat_lt) simp
  have "take_bit 16 (node_len n) = node_len n" using assms(2) by (intro take_bit_nat_eq_self) simp
  then have "take_bit 16 (of_nat (node_len n) :: u64) = of_nat (node_len n)"
    unfolding word_unat_eq_iff unsigned_take_bit_eq u .
  then show l: "DevicePathNodeLength m a = of_nat (node_len n)"
    by (simp add: DevicePathNodeLength_def b two_bytes)
  then show "NextDevicePathNode m a = a + of_nat (node_len n)" by (simp add: NextDevicePathNode_def)
qed

lemma end_bytes: "EndDevicePath = node_bytes (0x7F, 0xFF, [])" "EndInstanceDevicePath = node_bytes (0x7F, 1, [])"
  by (simp_all add: EndDevicePath_def EndInstanceDevicePath_def node_bytes_def node_len_def)

lemma end_at:
  "bytes_at m a EndDevicePath \<Longrightarrow> IsDevicePathEnd m a \<and> DevicePathSubType m a = 0xFF \<and> NextDevicePathNode m a = a + 4
     \<and> DevicePathNodeLength m a = 4"
  "bytes_at m a EndInstanceDevicePath \<Longrightarrow> IsDevicePathEndType m a \<and> DevicePathSubType m a = 1 \<and> NextDevicePathNode m a = a + 4
     \<and> DevicePathNodeLength m a = 4"
  unfolding end_bytes using node_at [of m a "(0x7F, 0xFF, [])"] node_at [of m a "(0x7F, 1, [])"]
  by (simp_all add: node_len_def IsDevicePathEnd_def IsDevicePathEndType_def IsDevicePathEndSubType_def DevicePathType_def
      DevicePathSubType_def)

lemma plain_at:
  assumes "bytes_at m a (node_bytes n)" "plain n"
  shows "\<not> IsDevicePathEndType m a" "NextDevicePathNode m a = a + of_nat (node_len n)"
  using node_at [OF assms(1)] assms(2) by (simp_all add: plain_def IsDevicePathEndType_def DevicePathType_def)

lemma instance_loop_nodes:
  "bytes_at m a (nodes_bytes ns) \<Longrightarrow> \<forall>n \<in> set ns. plain n \<Longrightarrow> c + length ns \<le> 513
    \<Longrightarrow> IsDevicePathEndType m (a + of_nat (length (nodes_bytes ns)))
    \<Longrightarrow> instance_loop m c a = a + of_nat (length (nodes_bytes ns))"
proof (induction ns arbitrary: a c)
  case Nil
  then show ?case by (subst instance_loop.simps) simp
next
  case (Cons n ns)
  then have p: "\<not> IsDevicePathEndType m a" "NextDevicePathNode m a = a + of_nat (node_len n)"
    using plain_at [of m a n] by (simp_all add: bytes_at_append)
  have "instance_loop m (Suc c) (a + of_nat (node_len n)) = a + of_nat (node_len n) + of_nat (length (nodes_bytes ns))"
    using Cons by (intro Cons.IH) (simp_all add: bytes_at_append add.assoc)
  then show ?case using p Cons.prems(3) by (subst instance_loop.simps) (simp add: add.assoc)
qed

lemma path_at_Cons:
  assumes "path_at m a (i # is)"
  shows "bytes_at m a (nodes_bytes i)" "\<forall>n \<in> set i. plain n" "length i \<le> 512" "a \<noteq> 0"
    "is = [] \<Longrightarrow> bytes_at m (a + of_nat (length (nodes_bytes i))) EndDevicePath"
    "is \<noteq> [] \<Longrightarrow> bytes_at m (a + of_nat (length (nodes_bytes i))) EndInstanceDevicePath"
    "is \<noteq> [] \<Longrightarrow> path_at m (a + of_nat (length (nodes_bytes i) + 4)) is"
proof -
  have l: "unat a + length (path_bytes (i # is)) < 2 ^ 64" using assms by (simp add: path_at_def)
  show "bytes_at m a (nodes_bytes i)" "\<forall>n \<in> set i. plain n" "length i \<le> 512" "a \<noteq> 0"
    using assms by (auto simp: path_at_def path_bytes_Cons bytes_at_append)
  show "is = [] \<Longrightarrow> bytes_at m (a + of_nat (length (nodes_bytes i))) EndDevicePath"
    "is \<noteq> [] \<Longrightarrow> bytes_at m (a + of_nat (length (nodes_bytes i))) EndInstanceDevicePath"
    using assms by (auto simp: path_at_def path_bytes_Cons bytes_at_append)
  show "path_at m (a + of_nat (length (nodes_bytes i) + 4)) is" if "is \<noteq> []"
  proof -
    have u: "unat (a + of_nat (length (nodes_bytes i) + 4)) = unat a + (length (nodes_bytes i) + 4)"
      using l by (intro unat_add_of_nat) (simp add: path_bytes_Cons that)
    then have "unat (a + of_nat (length (nodes_bytes i) + 4)) \<noteq> 0" by simp
    then have "a + of_nat (length (nodes_bytes i) + 4) \<noteq> 0" by (metis unat_0)
    then show ?thesis using assms u l that by (auto simp: path_at_def path_bytes_Cons bytes_at_append add.assoc)
  qed
qed

lemma DevicePathInstance_path:
  assumes "path_at m a (i # is)"
  shows "DevicePathInstance m a =
    Some (a, if is = [] then 0 else a + of_nat (length (nodes_bytes i) + 4), of_nat (length (nodes_bytes i)))"
proof -
  note p = path_at_Cons [OF assms]
  let ?e = "a + of_nat (length (nodes_bytes i))"
  have e: "IsDevicePathEndType m ?e \<and> DevicePathSubType m ?e = (if is = [] then 0xFF else 1) \<and> NextDevicePathNode m ?e = ?e + 4"
    using p(5,6) end_at [of m ?e] by (auto simp: IsDevicePathEnd_def)
  then have "instance_loop m 0 a = ?e" using p by (intro instance_loop_nodes) simp_all
  then show ?thesis using e p(4) by (simp add: DevicePathInstance_def add.assoc)
qed

lemma DevicePathInstance_null [simp]: "DevicePathInstance m 0 = None"
  by (simp add: DevicePathInstance_def)

lemma count_loop_path: "path_at m a is \<Longrightarrow> count_loop m a c = Some (c + of_nat (length is))"
proof (induction "is" arbitrary: a c)
  case (Cons i "is")
  show ?case
    using Cons.IH [OF path_at_Cons(7) [OF Cons.prems], of "c + 1"]
    by (subst count_loop.simps) (auto simp: DevicePathInstance_path [OF Cons.prems] count_loop.simps [of m 0] add.assoc)
qed (simp add: path_at_def)

lemma end_loop_nodes:
  "bytes_at m a (nodes_bytes ns) \<Longrightarrow> \<forall>n \<in> set ns. plain n \<Longrightarrow> end_loop m a = end_loop m (a + of_nat (length (nodes_bytes ns)))"
proof (induction ns arbitrary: a)
  case (Cons n ns)
  then have p: "\<not> IsDevicePathEndType m a" "NextDevicePathNode m a = a + of_nat (node_len n)"
    using plain_at [of m a n] by (simp_all add: bytes_at_append)
  have "end_loop m (a + of_nat (node_len n)) = end_loop m (a + of_nat (node_len n) + of_nat (length (nodes_bytes ns)))"
    using Cons.prems by (intro Cons.IH) (simp_all add: bytes_at_append)
  then show ?case using p by (subst end_loop.simps) (simp add: IsDevicePathEnd_def add.assoc)
qed simp

lemma end_loop_path: "path_at m a is \<Longrightarrow> end_loop m a = Some (a + of_nat (length (path_bytes is) - 4))"
proof (induction "is" arbitrary: a)
  case (Cons i "is")
  note p = path_at_Cons [OF Cons.prems]
  let ?e = "a + of_nat (length (nodes_bytes i))"
  have n: "end_loop m a = end_loop m ?e" by (rule end_loop_nodes [OF p(1,2)])
  show ?case
  proof (cases "is = []")
    case True
    then show ?thesis using end_at(1) [OF p(5)] unfolding n by (subst end_loop.simps) (simp add: path_bytes_Cons)
  next
    case False
    have l: "length (path_bytes is) \<ge> 4" using False by (cases "is") (simp_all add: path_bytes_Cons)
    have "\<not> IsDevicePathEnd m ?e" "NextDevicePathNode m ?e = a + of_nat (length (nodes_bytes i) + 4)"
      using end_at(2) [OF p(6)] False by (simp_all add: IsDevicePathEnd_def IsDevicePathEndSubType_def DevicePathSubType_def add.assoc)
    then have "end_loop m ?e = end_loop m (a + of_nat (length (nodes_bytes i) + 4))" by (subst end_loop.simps) simp
    also have "\<dots> = Some (a + of_nat (length (nodes_bytes i) + 4) + of_nat (length (path_bytes is) - 4))"
      by (rule Cons.IH [OF p(7) [OF False]])
    finally show ?thesis using l False unfolding n by (simp add: path_bytes_Cons add.assoc of_nat_diff)
  qed
qed (simp add: path_at_def)

lemma DevicePathSize_path:
  assumes "path_at m a is"
  shows "DevicePathSize m a = Some (of_nat (length (path_bytes is)))"
proof -
  have "length (path_bytes is) \<ge> 4" using assms by (cases "is") (simp_all add: path_at_def path_bytes_Cons)
  then have "of_nat (length (path_bytes is) - 4) + 4 = (of_nat (length (path_bytes is)) :: u64)"
    by (metis le_add_diff_inverse2 of_nat_add of_nat_numeral)
  then show ?thesis by (simp add: DevicePathSize_def end_loop_path [OF assms] sizeof_EFI_DEVICE_PATH_def)
qed

subsection \<open>Writing paths\<close>

definition wrote :: "memory \<Rightarrow> u64 \<Rightarrow> u8 list \<Rightarrow> memory \<Rightarrow> bool" where
  "wrote m d bs m' \<longleftrightarrow> bytes_at m' d bs \<and> (\<forall>x. x \<notin> region d (length bs) \<longrightarrow> m' x = m x)"

lemma region_mono: "n \<le> l \<Longrightarrow> region a n \<subseteq> region a l"
  by (auto simp: region_def)

lemma region_off_sub: "k + n \<le> l \<Longrightarrow> l < 2 ^ 64 \<Longrightarrow> region (a + of_nat k) n \<subseteq> region a l"
  by (blast intro: region_sub)

lemma wrote_outside:
  assumes "wrote m d xs m'" "region d (length xs) \<inter> A = {}" "x \<in> A"
  shows "m' x = m x"
proof -
  have "x \<notin> region d (length xs)" using assms(2,3) by blast
  then show ?thesis using assms(1) by (simp add: wrote_def)
qed

lemma wrote_keeps:
  assumes "wrote m d xs m'" "bytes_at m a bs" "length bs < 2 ^ 64" "region d (length xs) \<inter> region a (length bs) = {}"
  shows "bytes_at m' a bs"
  using assms(2,3) by (rule bytes_at_cong) (rule wrote_outside [OF assms(1,4)])

lemma wrote_append:
  assumes "wrote m d xs m1" "wrote m1 (d + of_nat (length xs)) ys m2" "length (xs @ ys) < 2 ^ 64"
  shows "wrote m d (xs @ ys) m2"
proof -
  have "region d (length xs) \<inter> region (d + of_nat (length xs)) (length ys) = {}"
    using regions_apart [of 0 "length xs" "length xs" "length ys" d] assms(3) by simp
  then have apart: "region (d + of_nat (length xs)) (length ys) \<inter> region d (length xs) = {}" by blast
  have "bytes_at m1 d xs" using assms(1) by (simp add: wrote_def)
  then have xs: "bytes_at m2 d xs" using wrote_keeps [OF assms(2) _ _ apart] assms(3) by simp
  have sub: "region d (length xs) \<subseteq> region d (length (xs @ ys))"
    "region (d + of_nat (length xs)) (length ys) \<subseteq> region d (length (xs @ ys))"
    by (rule region_mono, simp) (rule region_off_sub, use assms(3) in simp_all)
  have "m2 x = m x" if "x \<notin> region d (length (xs @ ys))" for x
  proof -
    have "x \<notin> region d (length xs)" "x \<notin> region (d + of_nat (length xs)) (length ys)" using sub that by blast+
    then show ?thesis using assms(1,2) by (simp add: wrote_def)
  qed
  then show ?thesis using xs assms(2) by (simp add: wrote_def bytes_at_append)
qed

lemma CopyMem_wrote:
  assumes "bytes_at (mem s) a bs" "length bs < 2 ^ 64" "region d (length bs) \<inter> region a (length bs) = {}"
  shows "wrote (mem s) d bs (mem (CopyMem d a (of_nat (length bs)) s))"
proof -
  have u: "unat (of_nat (length bs) :: u64) = length bs" using assms(2) by (intro unat_of_nat_lt) simp
  have "copy_loop (length bs) (mem s) d a (d + of_nat k) = bs ! k" if "k < length bs" for k
    using that assms copy_loop_region [OF assms(2,3), of "mem s" "d + of_nat k"]
    by (simp add: in_region_of_nat bytes_at_def)
  then show ?thesis using assms by (simp add: wrote_def CopyMem_def RtCopyMem_def u bytes_at_def copy_loop_region)
qed

lemma CopyConst_wrote: "length bs < 2 ^ 64 \<Longrightarrow> wrote (mem s) d bs (mem (CopyConst d bs s))"
  by (simp add: wrote_def CopyConst_def bytes_at_def store_bytes_nth store_bytes_region)

lemma Copy_rest: "s\<lparr>mem := mem (CopyMem d a n s)\<rparr> = CopyMem d a n s" "s\<lparr>mem := mem (CopyConst d bs s)\<rparr> = CopyConst d bs s"
  by (simp_all add: CopyMem_def CopyConst_def)

text \<open>What the loop of \<open>AppendDevicePath\<close> writes: every instance is followed by the whole second path,
  with its end node, and by an end of instance.\<close>

definition joined :: "u8 list \<Rightarrow> dp_node list list \<Rightarrow> u8 list" where
  "joined bs is = concat (map (\<lambda>i. nodes_bytes i @ bs @ EndInstanceDevicePath) is)"

lemma joined_simps [simp]: "joined bs [] = []" "joined bs (i # is) = nodes_bytes i @ bs @ EndInstanceDevicePath @ joined bs is"
  by (simp_all add: joined_def)

lemma append_round:
  assumes p: "path_at (mem s) a (i # is)" and b: "bytes_at (mem s) b bs" "length bs < 2 ^ 64"
    and W: "length (nodes_bytes i @ bs @ EndInstanceDevicePath) < 2 ^ 64"
    and apart: "region d (length (nodes_bytes i @ bs @ EndInstanceDevicePath)) \<inter> region a (length (nodes_bytes i)) = {}"
      "region d (length (nodes_bytes i @ bs @ EndInstanceDevicePath)) \<inter> region b (length bs) = {}"
  defines "s1 \<equiv> CopyMem d a (of_nat (length (nodes_bytes i))) s"
  defines "s2 \<equiv> CopyMem (d + of_nat (length (nodes_bytes i))) b (of_nat (length bs)) s1"
  defines "s3 \<equiv> CopyConst (d + of_nat (length (nodes_bytes i)) + of_nat (length bs)) EndInstanceDevicePath s2"
  shows "wrote (mem s) d (nodes_bytes i @ bs @ EndInstanceDevicePath) (mem s3)"
proof -
  let ?n = "nodes_bytes i" and ?d = "d + of_nat (length (nodes_bytes i))"
  let ?W = "length (nodes_bytes i @ bs @ EndInstanceDevicePath)"
  have sub: "region d (length ?n) \<subseteq> region d ?W" "region ?d (length bs) \<subseteq> region d ?W"
    by (rule region_mono, simp) (rule region_off_sub, use W in simp_all)
  have w1: "wrote (mem s) d ?n (mem s1)"
    unfolding s1_def using path_at_Cons(1) [OF p] W apart(1) sub(1) by (intro CopyMem_wrote) auto
  have "bytes_at (mem s1) b bs" using wrote_keeps [OF w1 b] sub(1) apart(2) by blast
  then have w2: "wrote (mem s1) ?d bs (mem s2)"
    unfolding s2_def using b(2) sub(2) apart(2) by (intro CopyMem_wrote) auto
  have w3: "wrote (mem s2) (d + of_nat (length (?n @ bs))) EndInstanceDevicePath (mem s3)"
    using CopyConst_wrote [of EndInstanceDevicePath s2] by (simp add: s3_def add.assoc)
  have "wrote (mem s) d (?n @ bs) (mem s2)" using wrote_append [OF w1 w2] W by simp
  then have "wrote (mem s) d ((?n @ bs) @ EndInstanceDevicePath) (mem s3)" using wrote_append [OF _ w3] W by simp
  then show ?thesis by simp
qed

lemma append_loop_path:
  assumes "path_at (mem s) a is" "bytes_at (mem s) b bs" "length (joined bs is) < 2 ^ 64"
    and "region d (length (joined bs is)) \<inter> region a (length (path_bytes is)) = {}"
      "region d (length (joined bs is)) \<inter> region b (length bs) = {}"
  shows "\<exists>m'. append_loop a b (of_nat (length bs)) d s = Some (d + of_nat (length (joined bs is)), s\<lparr>mem := m'\<rparr>)
    \<and> wrote (mem s) d (joined bs is) m'"
  using assms
proof (induction "is" arbitrary: a d s)
  case (Cons i "is")
  let ?n = "nodes_bytes i" and ?x = "nodes_bytes i @ bs @ EndInstanceDevicePath"
  let ?J = "length (joined bs (i # is))"
  define s1 where "s1 = CopyMem d a (of_nat (length ?n)) s"
  define s2 where "s2 = CopyMem (d + of_nat (length ?n)) b (of_nat (length bs)) s1"
  define s3 where "s3 = CopyConst (d + of_nat (length ?n) + of_nat (length bs)) EndInstanceDevicePath s2"
  have J: "?J = length ?x + length (joined bs is)" by simp
  have lb: "length bs < 2 ^ 64" using Cons.prems(3) by simp
  have sub: "region d (length ?x) \<subseteq> region d ?J" "region (d + of_nat (length ?x)) (length (joined bs is)) \<subseteq> region d ?J"
    unfolding J by (rule region_mono, simp) (rule region_off_sub, use Cons.prems(3) in simp_all)
  have pa: "length (path_bytes (i # is)) < 2 ^ 64" using Cons.prems(1) by (simp add: path_at_def)
  have suba: "region a (length ?n) \<subseteq> region a (length (path_bytes (i # is)))"
    by (rule region_mono) (simp add: path_bytes_Cons)
  have w: "wrote (mem s) d ?x (mem s3)"
    unfolding s3_def s2_def s1_def
  proof (rule append_round [OF Cons.prems(1,2) lb])
    show "length ?x < 2 ^ 64" using Cons.prems(3) by simp
    show "region d (length ?x) \<inter> region a (length ?n) = {}" using sub(1) suba Cons.prems(4) by blast
    show "region d (length ?x) \<inter> region b (length bs) = {}" using sub(1) Cons.prems(5) by blast
  qed
  have rest: "s3 = s\<lparr>mem := mem s3\<rparr>" by (simp add: s3_def s2_def s1_def CopyMem_def CopyConst_def)
  have step: "append_loop a b (of_nat (length bs)) d s =
      append_loop (if is = [] then 0 else a + of_nat (length ?n + 4)) b (of_nat (length bs)) (d + of_nat (length ?x)) s3"
    by (subst append_loop.simps)
      (simp add: DevicePathInstance_path [OF Cons.prems(1)] Let_def s1_def s2_def s3_def sizeof_EFI_DEVICE_PATH_def add.assoc)
  show ?case
  proof (cases "is = []")
    case True
    then have "append_loop a b (of_nat (length bs)) d s = Some (d + of_nat ?J, s3)"
      unfolding step by (subst append_loop.simps) simp
    then show ?thesis using w True rest by auto
  next
    case False
    let ?a = "a + of_nat (length ?n + 4)"
    have sa: "region ?a (length (path_bytes is)) \<subseteq> region a (length (path_bytes (i # is)))"
      using pa False by (intro region_off_sub) (simp_all add: path_bytes_Cons)
    have "bytes_at (mem s) ?a (path_bytes is)" "length (path_bytes is) < 2 ^ 64"
      using path_at_Cons(7) [OF Cons.prems(1) False] by (simp_all add: path_at_def)
    then have "bytes_at (mem s3) ?a (path_bytes is)"
      using sub(1) sa Cons.prems(4) by (intro wrote_keeps [OF w]) blast+
    then have p3: "path_at (mem s3) ?a is"
      using path_at_Cons(7) [OF Cons.prems(1) False] by (simp add: path_at_def)
    have b3: "bytes_at (mem s3) b bs"
      using Cons.prems(2,5) lb sub(1) by (intro wrote_keeps [OF w]) blast+
    have d1: "region (d + of_nat (length ?x)) (length (joined bs is)) \<inter> region ?a (length (path_bytes is)) = {}"
      using sub(2) sa Cons.prems(4) by blast
    have d2: "region (d + of_nat (length ?x)) (length (joined bs is)) \<inter> region b (length bs) = {}"
      using sub(2) Cons.prems(5) by blast
    obtain m' where m': "append_loop ?a b (of_nat (length bs)) (d + of_nat (length ?x)) s3
        = Some (d + of_nat (length ?x) + of_nat (length (joined bs is)), s3\<lparr>mem := m'\<rparr>)"
      "wrote (mem s3) (d + of_nat (length ?x)) (joined bs is) m'"
      using Cons.IH [OF p3 b3 _ d1 d2] Cons.prems(3) by auto
    have "wrote (mem s) d (?x @ joined bs is) m'" using wrote_append [OF w m'(2)] Cons.prems(3) by simp
    moreover have "append_loop a b (of_nat (length bs)) d s = Some (d + of_nat ?J, s\<lparr>mem := m'\<rparr>)"
    proof -
      have "s3\<lparr>mem := m'\<rparr> = s\<lparr>mem := m'\<rparr>" by (subst rest) simp
      then show ?thesis unfolding step using m'(1) False by (simp add: J add.assoc)
    qed
    ultimately show ?thesis by auto
  qed
qed (simp add: path_at_def)

lemma wrote_overwrite:
  assumes "wrote m d (ys @ es) m1" "wrote m1 (d + of_nat (length ys)) fs m2" "length fs = length es" "length (ys @ es) < 2 ^ 64"
  shows "wrote m d (ys @ fs) m2"
proof -
  have ap: "region (d + of_nat (length ys)) (length fs) \<inter> region d (length ys) = {}"
    using regions_apart [of 0 "length ys" "length ys" "length fs" d] assms(3,4) by auto
  have "bytes_at m1 d ys" using assms(1) by (simp add: wrote_def bytes_at_append)
  then have ys: "bytes_at m2 d ys" using wrote_keeps [OF assms(2) _ _ ap] assms(4) by simp
  have sub: "region (d + of_nat (length ys)) (length fs) \<subseteq> region d (length (ys @ es))"
    by (rule region_off_sub) (use assms(3,4) in simp_all)
  have "m2 x = m x" if "x \<notin> region d (length (ys @ fs))" for x
  proof -
    have "x \<notin> region d (length (ys @ es))" using that assms(3) by simp
    then have "x \<notin> region (d + of_nat (length ys)) (length fs)" "m1 x = m x" using sub assms(1) by (blast, simp add: wrote_def)
    then show ?thesis using assms(2) by (simp add: wrote_def)
  qed
  then show ?thesis using ys assms(2) by (simp add: wrote_def bytes_at_append)
qed

lemma joined_last:
  "is \<noteq> [] \<Longrightarrow> joined bs is = (joined bs (butlast is) @ nodes_bytes (last is) @ bs) @ EndInstanceDevicePath"
  by (induction "is") auto

lemma length_joined: "is \<noteq> [] \<Longrightarrow> length (joined bs is) = length (path_bytes is) + length is * length bs"
proof (induction "is")
  case (Cons i "is")
  then show ?case by (cases "is = []") (simp_all add: path_bytes_Cons)
qed simp

subsection \<open>Aligned copies\<close>

definition aligned :: "nat \<Rightarrow> nat" where
  "aligned k = k + (if k mod 8 \<noteq> 0 then 8 - k mod 8 else 0)"

lemma aligned_bounds: "k \<le> aligned k" "aligned k < k + 8" "8 dvd aligned k"
proof -
  show "k \<le> aligned k" "aligned k < k + 8" by (simp_all add: aligned_def)
  show "8 dvd aligned k" unfolding aligned_def by presburger
qed

lemma ALIGN_SIZE_of_nat:
  assumes "k < 2 ^ 64"
  shows "of_nat k + ALIGN_SIZE (of_nat k) = of_nat (aligned k)"
proof -
  have u: "unat (of_nat k :: u64) = k" using assms by (intro unat_of_nat_lt) simp
  have v: "unat (of_nat (k mod 8) :: u64) = k mod 8" by (intro unat_of_nat_lt) (simp add: less_trans [of _ 8])
  have m: "(of_nat k mod 8 :: u64) = of_nat (k mod 8)" unfolding word_unat_eq_iff unat_mod u v by simp
  have z: "(of_nat (k mod 8) :: u64) = 0 \<longleftrightarrow> k mod 8 = 0" unfolding word_unat_eq_iff v by simp
  have "of_nat (8 - k mod 8) = (8 - of_nat (k mod 8) :: u64)" by (simp add: of_nat_diff)
  then show ?thesis unfolding ALIGN_SIZE_def m z aligned_def by simp
qed

text \<open>The node of an unpacked path: marked, and filled up with zeros.\<close>

definition pad_node :: "dp_node \<Rightarrow> dp_node" where
  "pad_node n = (fst n OR 0x80, fst (snd n), snd (snd n) @ replicate (aligned (node_len n) - node_len n) 0)"

definition end_node :: dp_node where
  "end_node = (0x7F, 0xFF, [])"

definition inner :: "dp_node \<Rightarrow> bool" where
  "inner n \<longleftrightarrow> \<not> (fst n AND 0x7F = 0x7F \<and> fst (snd n) = 0xFF) \<and> node_len n \<le> 65528"

lemma node_len_pad: "node_len (pad_node n) = aligned (node_len n)"
  using aligned_bounds(1) [of "node_len n"] by (simp add: pad_node_def node_len_def)

lemma end_node_facts: "node_bytes end_node = EndDevicePath" "node_len end_node = 4" "aligned 4 = 8"
  by (simp_all add: end_node_def node_bytes_def node_len_def EndDevicePath_def aligned_def)

lemma inner_at:
  assumes "bytes_at m a (node_bytes n)" "inner n"
  shows "\<not> IsDevicePathEnd m a" "NextDevicePathNode m a = a + of_nat (node_len n)" "DevicePathNodeLength m a = of_nat (node_len n)"
  using node_at [OF assms(1)] assms(2)
  by (simp_all add: inner_def IsDevicePathEnd_def IsDevicePathEndType_def IsDevicePathEndSubType_def DevicePathType_def)

lemma align_sum:
  assumes "8 dvd c" "c + k < 2 ^ 64"
  shows "of_nat c + of_nat k + ALIGN_SIZE (of_nat c + of_nat k) = of_nat (c + aligned k)"
proof -
  have "(c + k) mod 8 = k mod 8" using assms(1) by presburger
  then have "aligned (c + k) = c + aligned k" by (simp add: aligned_def)
  then show ?thesis using ALIGN_SIZE_of_nat [OF assms(2)] by simp
qed

lemma unpacked_size_path:
  "bytes_at m a (nodes_bytes (ns @ [end_node])) \<Longrightarrow> \<forall>n \<in> set ns. inner n \<Longrightarrow> 8 dvd c
    \<Longrightarrow> c + length (nodes_bytes (map pad_node (ns @ [end_node]))) < 2 ^ 64
    \<Longrightarrow> unpacked_size m a (of_nat c) = Some (of_nat (c + length (nodes_bytes (map pad_node (ns @ [end_node])))))"
proof (induction ns arbitrary: a c)
  case Nil
  then have "IsDevicePathEnd m a" "DevicePathNodeLength m a = 4" using end_at(1) [of m a] by (simp_all add: end_node_facts)
  then show ?case
    using align_sum [of c 4] Nil.prems(3,4) by (subst unpacked_size.simps) (simp add: node_len_pad end_node_facts Let_def)
next
  case (Cons n ns)
  have n: "\<not> IsDevicePathEnd m a" "NextDevicePathNode m a = a + of_nat (node_len n)" "DevicePathNodeLength m a = of_nat (node_len n)"
    using inner_at [of m a n] Cons.prems(1,2) by (simp_all add: bytes_at_append)
  have al: "node_len n \<le> aligned (node_len n)" "8 dvd aligned (node_len n)" by (rule aligned_bounds)+
  have "of_nat c + of_nat (node_len n) + ALIGN_SIZE (of_nat c + of_nat (node_len n)) = (of_nat (c + aligned (node_len n)) :: u64)"
    using Cons.prems(3,4) al by (intro align_sum) (simp_all add: node_len_pad)
  moreover have "unpacked_size m (a + of_nat (node_len n)) (of_nat (c + aligned (node_len n)))
      = Some (of_nat (c + aligned (node_len n) + length (nodes_bytes (map pad_node (ns @ [end_node])))))"
    using Cons.prems al by (intro Cons.IH) (simp_all add: bytes_at_append node_len_pad)
  ultimately show ?case
    using n by (subst unpacked_size.simps) (simp add: node_len_pad Let_def add.assoc del: of_nat_add)
qed

lemma wrote_mem: "wrote m d bs m' \<Longrightarrow> b \<notin> region d (length bs) \<Longrightarrow> m' b = m b"
  by (simp add: wrote_def)

lemma unpack_round:
  assumes src: "bytes_at (mem s) Src (node_bytes n)" and len: "node_len n \<le> 65528"
    and zero: "bytes_at (mem s) Dest (replicate (aligned (node_len n)) 0)"
    and apart: "region Dest (node_len n) \<inter> region Src (node_len n) = {}"
  defines "s1 \<equiv> CopyMem Dest Src (of_nat (node_len n)) s"
  defines "m2 \<equiv> SetDevicePathNodeLength Dest (of_nat (aligned (node_len n))) (mem s1)"
  shows "wrote (mem s) Dest (node_bytes (pad_node n)) (m2(Dest := m2 Dest OR 0x80))"
proof -
  let ?k = "node_len n" and ?z = "replicate (aligned (node_len n) - node_len n) 0 :: u8 list"
  let ?m = "m2(Dest := m2 Dest OR 0x80)"
  have k: "4 \<le> ?k" "?k \<le> aligned ?k" "aligned ?k < ?k + 8" using aligned_bounds [of ?k] by (simp_all add: node_len_def)
  have w: "wrote (mem s) Dest (node_bytes n) (mem s1)"
    unfolding s1_def using CopyMem_wrote [OF src] apart len by simp
  have "replicate (aligned ?k) (0 :: u8) = replicate ?k 0 @ ?z" using k(2) by (simp flip: replicate_add)
  then have "bytes_at (mem s) (Dest + of_nat ?k) ?z" using zero by (simp add: bytes_at_append)
  moreover have "region Dest ?k \<inter> region (Dest + of_nat ?k) (length ?z) = {}"
    using regions_apart [of 0 ?k ?k "length ?z" Dest] k len by simp
  ultimately have z: "bytes_at (mem s1) (Dest + of_nat ?k) ?z"
    using k len by (intro wrote_keeps [OF w]) simp_all
  have b: "bytes_at (mem s1) Dest (node_bytes n)" using w by (simp add: wrote_def)
  then have b1: "mem s1 Dest = fst n" "mem s1 (Dest + 1) = fst (snd n)" "bytes_at (mem s1) (Dest + 4) (snd (snd n))"
    by (simp_all add: node_bytes_def bytes_at_Cons add.assoc)
  have "?k = 4 + length (snd (snd n))" by (simp add: node_len_def)
  then have "bytes_at (mem s1) (Dest + 4) (snd (snd n) @ ?z)" using b1(3) z by (simp add: bytes_at_append add.assoc)
  moreover have hd: "Dest \<notin> region (Dest + of_nat 4) l" "Dest + 2 \<notin> region (Dest + of_nat 4) l" "Dest + 3 \<notin> region (Dest + of_nat 4) l"
    if "4 + l < 2 ^ 64" for l using in_region_off [OF that, of _ Dest] by simp_all
  have l4: "length (snd (snd n) @ ?z) < 65536" using k len by (simp add: node_len_def)
  ultimately have "bytes_at ?m (Dest + 4) (snd (snd n) @ ?z)"
  proof (elim bytes_at_cong)
    fix x assume "x \<in> region (Dest + 4) (length (snd (snd n) @ ?z))"
    then have "x \<noteq> Dest" "x \<noteq> Dest + 2" "x \<noteq> Dest + 3" using hd [of "length (snd (snd n) @ ?z)"] l4 by auto
    then show "?m x = mem s1 x" by (simp add: m2_def SetDevicePathNodeLength_def)
  qed simp
  then have "bytes_at ?m Dest (node_bytes (pad_node n))"
    unfolding node_bytes_def node_len_pad
    by (simp add: bytes_at_Cons pad_node_def m2_def SetDevicePathNodeLength_def b1 add.assoc)
  moreover have "?m x = mem s x" if "x \<notin> region Dest (aligned ?k)" for x
  proof -
    have o: "x \<notin> region Dest ?k" using that region_mono [OF k(2), of Dest] by blast
    then have "x \<noteq> Dest" "x \<noteq> Dest + 2" "x \<noteq> Dest + 3" using k(1) by (auto simp: region_def)
    then show ?thesis using wrote_mem [OF w] o by (simp add: m2_def SetDevicePathNodeLength_def)
  qed
  ultimately show ?thesis by (simp add: wrote_def node_len_pad)
qed

lemma unpack_step:
  fixes Dest :: u64
  assumes "bytes_at (mem s) Src (node_bytes n)" "node_len n \<le> 65528"
  defines "s1 \<equiv> CopyMem Dest Src (of_nat (node_len n)) s"
  defines "m2 \<equiv> SetDevicePathNodeLength Dest (of_nat (aligned (node_len n))) (mem s1)"
  defines "s' \<equiv> s\<lparr>mem := m2(Dest := m2 Dest OR 0x80)\<rparr>"
  shows "unpack_loop Src Dest s = (if IsDevicePathEnd (mem s') Src then Some s'
    else unpack_loop (NextDevicePathNode (mem s') Src) (Dest + of_nat (aligned (node_len n))) s')"
proof -
  have l: "DevicePathNodeLength (mem s) Src = of_nat (node_len n)" using node_at(3) [OF assms(1)] assms(2) by simp
  have a: "of_nat (node_len n) + ALIGN_SIZE (of_nat (node_len n)) = of_nat (aligned (node_len n))"
    using assms(2) by (intro ALIGN_SIZE_of_nat) simp
  have "s1\<lparr>mem := m2(Dest := m2 Dest OR 0x80)\<rparr> = s'" by (simp add: s'_def s1_def CopyMem_def)
  moreover have "mem s' = m2(Dest := m2 Dest OR 0x80)" by (simp add: s'_def)
  ultimately show ?thesis by (subst unpack_loop.simps) (simp add: l a Let_def s1_def [symmetric] m2_def [symmetric])
qed

lemma unpack_loop_path:
  assumes "bytes_at (mem s) Src (nodes_bytes (ns @ [end_node]))" "\<forall>n \<in> set ns. inner n"
    and "bytes_at (mem s) Dest (replicate (length (nodes_bytes (map pad_node (ns @ [end_node])))) 0)"
    and "length (nodes_bytes (map pad_node (ns @ [end_node]))) < 2 ^ 64" "length (nodes_bytes (ns @ [end_node])) < 2 ^ 64"
    and "region Dest (length (nodes_bytes (map pad_node (ns @ [end_node])))) \<inter> region Src (length (nodes_bytes (ns @ [end_node]))) = {}"
  shows "\<exists>m'. unpack_loop Src Dest s = Some (s\<lparr>mem := m'\<rparr>)
    \<and> wrote (mem s) Dest (nodes_bytes (map pad_node (ns @ [end_node]))) m'"
  using assms
proof (induction ns arbitrary: s Src Dest)
  case Nil
  define s1 where "s1 = CopyMem Dest Src (of_nat (node_len end_node)) s"
  define m2 where "m2 = SetDevicePathNodeLength Dest (of_nat (aligned (node_len end_node))) (mem s1)"
  let ?m = "m2(Dest := m2 Dest OR 0x80)"
  have r: "region Dest 8 \<inter> region Src 4 = {}" using Nil.prems(6) by (simp add: node_len_pad end_node_facts)
  have "region Dest (node_len end_node) \<inter> region Src (node_len end_node) = {}"
    using r region_mono [of 4 8 Dest] by (auto simp: end_node_facts)
  then have w: "wrote (mem s) Dest (node_bytes (pad_node end_node)) ?m"
    unfolding m2_def s1_def using Nil.prems(1,3) by (intro unpack_round) (simp_all add: node_len_pad end_node_facts)
  have "bytes_at ?m Src (node_bytes end_node)"
    using Nil.prems(1) r by (intro wrote_keeps [OF w]) (simp_all add: end_node_facts node_len_pad)
  then have "IsDevicePathEnd ?m Src" using end_at(1) by (simp add: end_node_facts)
  then have "unpack_loop Src Dest s = Some (s\<lparr>mem := ?m\<rparr>)"
    using unpack_step [of s Src end_node Dest] Nil.prems(1)
    by (simp add: end_node_facts node_len_pad m2_def s1_def Let_def)
  then show ?case using w by auto
next
  case (Cons n ns)
  let ?k = "node_len n" and ?a = "aligned (node_len n)"
  let ?S = "nodes_bytes (ns @ [end_node])" and ?D = "nodes_bytes (map pad_node (ns @ [end_node]))"
  define s1 where "s1 = CopyMem Dest Src (of_nat ?k) s"
  define m2 where "m2 = SetDevicePathNodeLength Dest (of_nat ?a) (mem s1)"
  let ?m = "m2(Dest := m2 Dest OR 0x80)"
  let ?s = "s\<lparr>mem := ?m\<rparr>"
  have al: "?k \<le> ?a" by (rule aligned_bounds)
  have i: "inner n" "?k \<le> 65528" using Cons.prems(2) by (simp_all add: inner_def)
  have src: "bytes_at (mem s) Src (node_bytes n)" "bytes_at (mem s) (Src + of_nat ?k) ?S"
    using Cons.prems(1) by (simp_all add: bytes_at_append)
  have zero: "bytes_at (mem s) Dest (replicate ?a 0)" "bytes_at (mem s) (Dest + of_nat ?a) (replicate (length ?D) 0)"
    using Cons.prems(3) by (simp_all add: node_len_pad replicate_add bytes_at_append)
  have L: "length (nodes_bytes (map pad_node ((n # ns) @ [end_node]))) = ?a + length ?D"
    "length (nodes_bytes ((n # ns) @ [end_node])) = ?k + length ?S" by (simp_all add: node_len_pad)
  note lim = Cons.prems(4,5) [unfolded L] and ap = Cons.prems(6) [unfolded L]
  have subs: "region Dest ?k \<subseteq> region Dest (?a + length ?D)" "region Dest ?a \<subseteq> region Dest (?a + length ?D)"
    "region Src ?k \<subseteq> region Src (?k + length ?S)"
    using al by (intro region_mono; simp)+
  have sub2: "region (Dest + of_nat ?a) (length ?D) \<subseteq> region Dest (?a + length ?D)"
    "region (Src + of_nat ?k) (length ?S) \<subseteq> region Src (?k + length ?S)"
    using lim by (intro region_off_sub; simp)+
  have w: "wrote (mem s) Dest (node_bytes (pad_node n)) ?m"
    unfolding m2_def s1_def using src(1) i(2) zero(1) subs ap by (intro unpack_round) blast+
  have keep: "bytes_at ?m Src (node_bytes n)" "bytes_at ?m (Src + of_nat ?k) ?S"
    by (rule wrote_keeps [OF w src(1)], use i(2) in simp, use subs ap in \<open>simp add: node_len_pad, blast\<close>)
      (rule wrote_keeps [OF w src(2)], use lim in simp, use subs sub2 ap in \<open>simp only: node_len_pad length_node_bytes, blast\<close>)
  have "region Dest ?a \<inter> region (Dest + of_nat ?a) (length ?D) = {}"
    using regions_apart [of 0 ?a ?a "length ?D" Dest] lim by simp
  then have z: "bytes_at ?m (Dest + of_nat ?a) (replicate (length ?D) 0)"
    using lim by (intro wrote_keeps [OF w zero(2)]) (simp_all add: node_len_pad)
  have "region (Dest + of_nat ?a) (length ?D) \<inter> region (Src + of_nat ?k) (length ?S) = {}" using sub2 ap by blast
  moreover have ms: "mem ?s = ?m" by simp
  moreover have "\<forall>n \<in> set ns. inner n" "length ?D < 2 ^ 64" "length ?S < 2 ^ 64" using Cons.prems(2) lim by simp_all
  ultimately obtain m' where m': "unpack_loop (Src + of_nat ?k) (Dest + of_nat ?a) ?s = Some (?s\<lparr>mem := m'\<rparr>)"
      "wrote ?m (Dest + of_nat ?a) ?D m'"
    using Cons.IH [of ?s "Src + of_nat ?k" "Dest + of_nat ?a", unfolded ms, OF keep(2) _ z] by blast
  have "wrote (mem s) Dest (node_bytes (pad_node n) @ ?D) m'"
    using m'(2) lim by (intro wrote_append [OF w]) (simp_all add: node_len_pad)
  moreover have "unpack_loop Src Dest s = Some (s\<lparr>mem := m'\<rparr>)"
    using unpack_step [OF src(1) i(2), of Dest] inner_at(1,2) [OF keep(1) i(1)] m'(1)
    by (simp add: m2_def s1_def)
  ultimately show ?case by auto
qed

subsection \<open>A small example\<close>

text \<open>A path of two instances at 0x2000 and one of two nodes at 0x3000; the pool is at 0x1000.\<close>

definition pci_node :: dp_node where
  "pci_node = (1, 1, [0, 0x1F])"

definition cd_node :: dp_node where
  "cd_node = (4, 2, [1])"

definition small_paths :: "unit efi_state" where
  "small_paths = small_efi\<lparr>mem := store_bytes 0x2000 (path_bytes [[pci_node], [cd_node]])
     (store_bytes 0x3000 (path_bytes [[pci_node, cd_node]]) (\<lambda>_. 0))\<rparr>"

lemma small_nodes:
  "node_bytes pci_node = [1, 1, 6, 0, 0, 0x1F]" "node_bytes cd_node = [4, 2, 5, 0, 1]"
  "node_len pci_node = 6" "node_len cd_node = 5" "plain pci_node" "plain cd_node" "inner pci_node" "inner cd_node"
  by (simp_all add: pci_node_def cd_node_def node_bytes_def node_len_def plain_def inner_def)

lemma small_paths_at:
  "path_at (mem small_paths) 0x2000 [[pci_node], [cd_node]]" "path_at (mem small_paths) 0x3000 [[pci_node, cd_node]]"
  by (simp_all add: path_at_def small_nodes EndDevicePath_def EndInstanceDevicePath_def bytes_at_Cons small_paths_def store_bytes_def)

lemma small_pool:
  "sv_AllocatePool small_uefi t n f = (EFI_SUCCESS, Some 0x1000, f)"
  by (simp add: small_uefi_def)

lemma small_apart:
  "n \<le> 100 \<Longrightarrow> k \<le> 100 \<Longrightarrow> region 0x1000 n \<inter> region 0x2000 k = {}"
  "n \<le> 100 \<Longrightarrow> k \<le> 100 \<Longrightarrow> region 0x1000 n \<inter> region 0x3000 k = {}"
  using regions_apart [of 0 n "0x1000" k "0x1000"] regions_apart [of 0 n "0x2000" k "0x1000"] by simp_all

subsection \<open>Properties\<close>

text \<open>C27: Appending the path at \<open>Src2\<close> to a path with any number of instances writes, from the start
  of the new buffer on, every instance followed by the whole second path with its end node and an
  end of instance, the last of which is turned into an end of path; nothing else is written. Read as
  a path, that is the first instance followed by the second path, whose end node ends the result:
  the other instances are lost behind it, although the comment promises them. The bytes written are
  more than those allocated exactly when there are several instances and the second path is longer
  than the first.\<close>

theorem AppendDevicePath_first:
  assumes "path_at (mem s) Src1 (i # is)" "path_at (mem s) Src2 (j # js)"
    and pool: "sv_AllocatePool sv (PoolAllocationType s)
        (of_nat (length (path_bytes (i # is)) * Suc (length is) + length (path_bytes (j # js)))) (firmware s)
      = (EFI_SUCCESS, Some Dst, f)" "Dst \<noteq> 0"
    and size: "length (path_bytes (i # is)) + Suc (length is) * length (path_bytes (j # js)) < 2 ^ 64"
    and apart: "region Dst (length (path_bytes (i # is)) + Suc (length is) * length (path_bytes (j # js)))
        \<inter> region Src1 (length (path_bytes (i # is))) = {}"
      "region Dst (length (path_bytes (i # is)) + Suc (length is) * length (path_bytes (j # js)))
        \<inter> region Src2 (length (path_bytes (j # js))) = {}"
  defines "bytes \<equiv> joined (path_bytes (j # js)) (butlast (i # is)) @ nodes_bytes (last (i # is)) @ path_bytes (j # js) @ EndDevicePath"
  shows "\<exists>m'. AppendDevicePath sv Src1 Src2 s = Some (Dst, s\<lparr>firmware := f, mem := m'\<rparr>)
    \<and> wrote (mem s) Dst bytes m' \<and> bytes_at m' Dst (path_bytes ((i @ j) # js))
    \<and> (length (path_bytes (i # is)) * Suc (length is) + length (path_bytes (j # js)) < length bytes
       \<longleftrightarrow> is \<noteq> [] \<and> length (path_bytes (i # is)) < length (path_bytes (j # js)))"
proof -
  let ?P1 = "path_bytes (i # is)" and ?P2 = "path_bytes (j # js)"
  let ?J = "joined ?P2 (i # is)"
  have J: "length ?J = length ?P1 + Suc (length is) * length ?P2" using length_joined [of "i # is" ?P2] by simp
  let ?s = "s\<lparr>firmware := f\<rparr>"
  have p: "path_at (mem ?s) Src1 (i # is)" "bytes_at (mem ?s) Src2 ?P2" "Src1 \<noteq> 0" "Src2 \<noteq> 0"
    using assms(1,2) by (auto simp: path_at_def)
  obtain m1 where m1: "append_loop Src1 Src2 (of_nat (length ?P2)) Dst ?s = Some (Dst + of_nat (length ?J), s\<lparr>firmware := f, mem := m1\<rparr>)"
      "wrote (mem s) Dst ?J m1"
    using append_loop_path [OF p(1,2), of Dst, unfolded J, OF size apart] unfolding J by auto
  let ?ys = "joined ?P2 (butlast (i # is)) @ nodes_bytes (last (i # is)) @ ?P2"
  have zs: "?J = ?ys @ EndInstanceDevicePath" by (rule joined_last) simp
  have len: "length ?J = length ?ys + 4" unfolding zs by simp
  define s2 where "s2 = CopyConst (Dst + of_nat (length ?ys)) EndDevicePath (s\<lparr>firmware := f, mem := m1\<rparr>)"
  have w: "wrote (mem s) Dst (?ys @ EndDevicePath) (mem s2)"
  proof (rule wrote_overwrite)
    show "wrote (mem s) Dst (?ys @ EndInstanceDevicePath) m1" using m1(2) unfolding zs .
    show "wrote m1 (Dst + of_nat (length ?ys)) EndDevicePath (mem s2)"
      unfolding s2_def using CopyConst_wrote [of EndDevicePath "s\<lparr>firmware := f, mem := m1\<rparr>"] by simp
    show "length (?ys @ EndInstanceDevicePath) < 2 ^ 64" using size unfolding J [symmetric] zs .
  qed simp
  have size_eq: "of_nat (length ?P1) * (0 + of_nat (length (i # is))) + of_nat (length ?P2)
      = (of_nat (length ?P1 * Suc (length is) + length ?P2) :: u64)" by (simp add: algebra_simps)
  have alloc: "AllocatePool sv (of_nat (length ?P1) * (0 + of_nat (length (i # is))) + of_nat (length ?P2)) s = Some (Dst, ?s)"
    unfolding size_eq AllocatePool_def pool(1) Let_def prod.case by simp
  have pos: "Dst + of_nat (length ?J) - sizeof_EFI_DEVICE_PATH = Dst + of_nat (length ?ys)"
    unfolding len sizeof_EFI_DEVICE_PATH_def by simp
  have "AppendDevicePath sv Src1 Src2 s = Some (Dst, s2)"
    unfolding AppendDevicePath_def DevicePathSize_path [OF assms(1)] DevicePathSize_path [OF assms(2)]
      DevicePathInstanceCount_def count_loop_path [OF assms(1)] bind.bind_lunit Let_def alloc prod.case m1(1) pos s2_def
    using p(3,4) pool(2) m1(1) pos unfolding s2_def by simp
  moreover have "s2 = s\<lparr>firmware := f, mem := mem s2\<rparr>" by (simp add: s2_def CopyConst_def)
  moreover have bytes: "bytes = ?ys @ EndDevicePath" by (simp add: bytes_def)
  moreover have "bytes_at (mem s2) Dst (path_bytes ((i @ j) # js))"
  proof -
    obtain zs where "?ys @ EndDevicePath = path_bytes ((i @ j) # js) @ zs"
      by (cases "is") (auto simp: path_bytes_join)
    then show ?thesis using w by (auto simp: wrote_def bytes_at_append)
  qed
  moreover have "length ?P1 * Suc (length is) + length ?P2 < length bytes \<longleftrightarrow> is \<noteq> [] \<and> length ?P1 < length ?P2"
  proof -
    have l: "length bytes = length ?P1 + Suc (length is) * length ?P2" using len J by (simp add: bytes)
    have "length ?P1 * Suc (length is) + length ?P2 < length bytes \<longleftrightarrow> length is * length ?P1 < length is * length ?P2"
      unfolding l by (simp add: algebra_simps)
    then show ?thesis by simp
  qed
  ultimately show ?thesis using w by auto
qed

theorem AppendDevicePath_first_witness:
  "\<exists>s'. AppendDevicePath small_uefi 0x2000 0x3000 small_paths = Some (0x1000, s')
    \<and> bytes_at (mem s') 0x1000 (path_bytes [[pci_node, pci_node, cd_node]])"
proof -
  have l: "length (path_bytes [[pci_node], [cd_node]]) = 19" "length (path_bytes [[pci_node, cd_node]]) = 15"
    "Suc (length [[cd_node]]) = 2" by (simp_all add: small_nodes)
  obtain m' where r: "AppendDevicePath small_uefi 0x2000 0x3000 small_paths = Some (0x1000, small_paths\<lparr>firmware := firmware small_paths, mem := m'\<rparr>)"
      "bytes_at m' 0x1000 (path_bytes [[pci_node] @ [pci_node, cd_node]])"
    using AppendDevicePath_first [OF small_paths_at(1) small_paths_at(2) small_pool, unfolded l]
      small_apart(1) [of 49 19] small_apart(2) [of 49 15] by auto
  then have "bytes_at m' 0x1000 (path_bytes [[pci_node, pci_node, cd_node]])" by simp
  then show ?thesis using r(1) by auto
qed

text \<open>Copying an instance out of a path keeps only its first node: the end node is written behind the
  first node of the copy instead of behind its last, so an instance of several nodes is cut off
  and only one of a single node is copied as it is.\<close>

theorem LibDuplicateDevicePathInstance_truncates:
  assumes "path_at (mem s) DevPath ((n # ns) # is)"
    and pool: "sv_AllocatePool sv (PoolAllocationType s) (of_nat (length (nodes_bytes (n # ns)) + 4)) (firmware s)
      = (EFI_SUCCESS, Some New, f)" "New \<noteq> 0"
    and apart: "region New (length (nodes_bytes (n # ns)) + 4) \<inter> region DevPath (length (nodes_bytes (n # ns))) = {}"
  shows "\<exists>m'. LibDuplicateDevicePathInstance sv DevPath s = Some (New, s\<lparr>firmware := f, mem := m'\<rparr>)
    \<and> bytes_at m' New (path_bytes [[n]])
    \<and> (\<forall>x. x \<notin> region New (length (nodes_bytes (n # ns)) + 4) \<longrightarrow> m' x = mem s x)"
proof -
  let ?N = "nodes_bytes (n # ns)"
  note p = path_at_Cons [OF assms(1)]
  have l: "length ?N + 4 < 2 ^ 64" using assms(1) by (auto simp: path_at_def path_bytes_Cons split: if_splits)
  have n: "node_len n < 65536" "4 \<le> node_len n" using p(2) by (simp_all add: plain_def node_len_def)
  have nz: "of_nat (length ?N) \<noteq> (0 :: u64)"
  proof -
    have "unat (of_nat (length ?N) :: u64) = length ?N" using l by (intro unat_of_nat_lt) simp
    then show ?thesis using n(2) by auto
  qed
  define s1 where "s1 = CopyMem New DevPath (of_nat (length ?N)) (s\<lparr>firmware := f\<rparr>)"
  have w1: "wrote (mem s) New ?N (mem s1)"
    using CopyMem_wrote [of "s\<lparr>firmware := f\<rparr>" DevPath ?N New] p(1) l apart region_mono [of "length ?N" "length ?N + 4" New]
    unfolding s1_def by auto
  then have "bytes_at (mem s1) New (node_bytes n)" by (simp add: wrote_def bytes_at_append)
  then have nx: "NextDevicePathNode (mem s1) New = New + of_nat (node_len n)" using node_at(4) n(1) by blast
  define T where "T = New + of_nat (node_len n)"
  define m' where "m' = SetDevicePathEndNode T (mem s1)"
  have w2: "wrote (mem s1) T EndDevicePath m'"
    by (auto simp: wrote_def m'_def SetDevicePathEndNode_def EndDevicePath_def bytes_at_Cons region_def add.assoc)
  have sub: "region T (length EndDevicePath) \<subseteq> region New (length ?N + 4)"
    unfolding T_def by (rule region_off_sub) (use l in simp_all)
  have ap: "region T (length EndDevicePath) \<inter> region New (node_len n) = {}"
    using regions_apart [of 0 "node_len n" "node_len n" 4 New] n by (auto simp: T_def)
  have "bytes_at m' New (node_bytes n)"
    using wrote_keeps [OF w2 \<open>bytes_at (mem s1) New (node_bytes n)\<close>] ap n(1) by simp
  then have b: "bytes_at m' New (path_bytes [[n]])" using w2 by (simp add: bytes_at_append wrote_def T_def)
  have o: "m' x = mem s x" if "x \<notin> region New (length ?N + 4)" for x
  proof -
    have "x \<notin> region New (length ?N)" "x \<notin> region T (length EndDevicePath)"
      using that sub region_mono [of "length ?N" "length ?N + 4" New] by auto
    then show ?thesis using w1 w2 by (simp add: wrote_def)
  qed
  have size_eq: "of_nat (length ?N) + sizeof_EFI_DEVICE_PATH = of_nat (length ?N + 4)" by (simp add: sizeof_EFI_DEVICE_PATH_def)
  have alloc: "AllocatePool sv (of_nat (length ?N) + sizeof_EFI_DEVICE_PATH) s = Some (New, s\<lparr>firmware := f\<rparr>)"
    unfolding size_eq AllocatePool_def pool(1) Let_def prod.case by simp
  have "s1\<lparr>mem := m'\<rparr> = s\<lparr>firmware := f, mem := m'\<rparr>" by (simp add: s1_def CopyMem_def)
  moreover have "LibDuplicateDevicePathInstance sv DevPath s = Some (New, s1\<lparr>mem := m'\<rparr>)"
    unfolding LibDuplicateDevicePathInstance_def DevicePathInstance_path [OF assms(1)] option.case prod.case Let_def
    using nz alloc pool(2) nx by (simp add: s1_def [symmetric] m'_def T_def del: nodes_bytes_simps)
  ultimately show ?thesis using b o by auto
qed

theorem LibDuplicateDevicePathInstance_truncates_witness:
  "\<exists>s'. LibDuplicateDevicePathInstance small_uefi 0x3000 small_paths = Some (0x1000, s')
    \<and> bytes_at (mem s') 0x1000 (path_bytes [[pci_node]])"
proof -
  have l: "length (nodes_bytes [pci_node, cd_node]) = 11" by (simp add: small_nodes)
  obtain m' where r: "LibDuplicateDevicePathInstance small_uefi 0x3000 small_paths = Some (0x1000, small_paths\<lparr>firmware := firmware small_paths, mem := m'\<rparr>)"
      "bytes_at m' 0x1000 (path_bytes [[pci_node]])"
    using LibDuplicateDevicePathInstance_truncates [OF small_paths_at(2) small_pool, unfolded l] small_apart(2) [of 15 11] by auto
  then show ?thesis by auto
qed

text \<open>A single path matches a path of several instances exactly if one of the instances is the start
  of it: the end of the single path is not compared, so a longer path matches, too.\<close>

theorem LibMatchDevicePaths_prefix:
  assumes "path_at m Multi is" "Single \<noteq> 0"
  shows "LibMatchDevicePaths m Multi Single = Some (\<exists>i \<in> set is. bytes_at m Single (nodes_bytes i))"
proof -
  have cmp: "RtCompareMem m Single a (of_nat (length bs)) = 0 \<longleftrightarrow> bytes_at m Single bs"
    if "bytes_at m a bs" "length bs < 2 ^ 64" for a bs
  proof -
    have "unat (of_nat (length bs) :: u64) = length bs" using that(2) by (intro unat_of_nat_lt) simp
    then show ?thesis using that(1) by (simp add: RtCompareMem_def compare_loop_zero bytes_at_def)
  qed
  have "match_loop m a Single = Some (\<exists>i \<in> set is. bytes_at m Single (nodes_bytes i))" if "path_at m a is" for a
    using that
  proof (induction "is" arbitrary: a)
    case (Cons i "is")
    note p = path_at_Cons [OF Cons.prems]
    have "length (nodes_bytes i) < 2 ^ 64" using Cons.prems by (simp add: path_at_def path_bytes_Cons split: if_splits)
    note c = cmp [OF p(1) this]
    show ?case
      using Cons.IH [OF p(7)]
      by (subst match_loop.simps) (auto simp: DevicePathInstance_path [OF Cons.prems] c match_loop.simps [of m 0])
  qed (simp add: path_at_def)
  then show ?thesis using assms by (auto simp: LibMatchDevicePaths_def path_at_def)
qed

theorem LibMatchDevicePaths_prefix_witness:
  "LibMatchDevicePaths (mem small_paths) 0x2000 0x3000 = Some True"
proof -
  have "bytes_at (mem small_paths) 0x3000 (nodes_bytes [pci_node])"
    using path_at_Cons(1) [OF small_paths_at(2)] by (simp add: bytes_at_append)
  then have "\<exists>i \<in> set [[pci_node], [cd_node]]. bytes_at (mem small_paths) 0x3000 (nodes_bytes i)" by (intro bexI [of _ "[pci_node]"]) simp_all
  moreover have "(0x3000 :: u64) \<noteq> 0" by simp
  note LibMatchDevicePaths_prefix [OF small_paths_at(1) this]
  ultimately show ?thesis by (simp only:)
qed

text \<open>C28: Unpacking a path gives a copy in which every node, the end included, is marked, filled up with
  zeros to a multiple of eight bytes and followed by the next; nothing else changes, and the buffer
  that was asked for is exactly filled.\<close>

theorem UnpackDevicePath_aligns:
  fixes s :: "('f, 'z) efi_state_scheme"
  defines "P ns \<equiv> nodes_bytes (ns @ [end_node])"
  assumes "bytes_at (mem s) Src (P ns)" "\<forall>n \<in> set ns. inner n"
    and size: "length (P (map pad_node ns)) < 2 ^ 64 - 8"
    and pool: "sv_AllocatePool sv (PoolAllocationType s) (of_nat (length (P (map pad_node ns)) + 4)) (firmware s)
      = (EFI_SUCCESS, Some New, f)" "New \<noteq> 0"
    and apart: "region New (length (P (map pad_node ns)) + 4) \<inter> region Src (length (P ns)) = {}"
  shows "\<exists>m'. UnpackDevicePath sv Src s = Some (New, s\<lparr>firmware := f, mem := m'\<rparr>)
    \<and> wrote (mem s) New (nodes_bytes (map pad_node (ns @ [end_node]))) m'
    \<and> (\<forall>n. 8 dvd node_len (pad_node n))"
proof -
  let ?D = "nodes_bytes (map pad_node (ns @ [end_node]))"
  have D: "length (P (map pad_node ns)) + 4 = length ?D" by (simp add: P_def node_len_pad end_node_facts)
  have P: "P ns = nodes_bytes (ns @ [end_node])" by (simp add: P_def)
  have lS: "length (P ns) \<le> length ?D"
  proof -
    have "length (nodes_bytes ms) \<le> length (nodes_bytes (map pad_node ms))" for ms
      using aligned_bounds(1) by (induction ms) (simp_all add: node_len_pad add_mono)
    then show ?thesis unfolding P by blast
  qed
  have lim: "length ?D < 2 ^ 64" "length (nodes_bytes (ns @ [end_node])) < 2 ^ 64" using size D lS unfolding P by simp_all
  have usz: "unpacked_size (mem s) Src 0 = Some (of_nat (length ?D))"
    using unpacked_size_path [of "mem s" Src ns 0] assms(2,3) lim by (simp add: P)
  let ?s = "ZeroMem New (of_nat (length ?D)) (s\<lparr>firmware := f\<rparr>)"
  have u: "unat (of_nat (length ?D) :: u64) = length ?D" using lim by (intro unat_of_nat_lt) simp
  have w0: "wrote (mem s) New (replicate (length ?D) 0) (mem ?s)"
    unfolding ZeroMem_def RtZeroMem_def u
    using lim(1) by (simp add: wrote_def set_loop_region bytes_at_def in_region_of_nat)
  have ap: "region New (length ?D) \<inter> region Src (length (nodes_bytes (ns @ [end_node]))) = {}" using apart D unfolding P by simp
  have src: "bytes_at (mem ?s) Src (nodes_bytes (ns @ [end_node]))"
    by (rule wrote_keeps [OF w0]) (use assms(2) lim ap in \<open>simp_all add: P del: nodes_bytes_simps\<close>)
  have "bytes_at (mem ?s) New (replicate (length ?D) 0)" using w0 by (simp add: wrote_def)
  then obtain m' where m': "unpack_loop Src New ?s = Some (?s\<lparr>mem := m'\<rparr>)" "wrote (mem ?s) New ?D m'"
    using unpack_loop_path [OF src assms(3) _ lim ap] by blast
  have "wrote (mem s) New ?D m'" using m'(2) w0 by (simp add: wrote_def)
  moreover have "AllocateZeroPool sv (of_nat (length ?D)) s = Some (New, ?s)"
    unfolding AllocateZeroPool_def AllocatePool_def pool(1) [unfolded D] Let_def prod.case using pool(2) by simp
  then have "UnpackDevicePath sv Src s = Some (New, s\<lparr>firmware := f, mem := m'\<rparr>)"
    unfolding UnpackDevicePath_def usz using m'(1) pool(2) by (simp add: ZeroMem_def)
  ultimately show ?thesis by (auto simp: node_len_pad aligned_bounds(3))
qed

theorem UnpackDevicePath_aligns_witness:
  "\<exists>s'. UnpackDevicePath small_uefi 0x3000 small_paths = Some (0x1000, s')
    \<and> bytes_at (mem s') 0x1000 [0x81, 1, 8, 0, 0, 0x1F, 0, 0, 0x84, 2, 8, 0, 1, 0, 0, 0, 0xFF, 0xFF, 8, 0, 0, 0, 0, 0]"
proof -
  let ?ns = "[pci_node, cd_node]"
  have src: "bytes_at (mem small_paths) 0x3000 (nodes_bytes (?ns @ [end_node]))"
    using small_paths_at(2) by (simp add: path_at_def end_node_facts)
  have zeros: "replicate 2 (0 :: u8) = [0, 0]" "replicate 3 (0 :: u8) = [0, 0, 0]" "replicate 4 (0 :: u8) = [0, 0, 0, 0]"
    by (simp_all add: numeral_eq_Suc)
  have pad: "node_bytes (pad_node pci_node) = [0x81, 1, 8, 0, 0, 0x1F, 0, 0]" "node_bytes (pad_node cd_node) = [0x84, 2, 8, 0, 1, 0, 0, 0]"
    "node_bytes (pad_node end_node) = [0xFF, 0xFF, 8, 0, 0, 0, 0, 0]"
    by (simp_all add: pci_node_def cd_node_def end_node_def pad_node_def node_bytes_def node_len_def aligned_def zeros)
  have l: "length (nodes_bytes (map pad_node ?ns @ [end_node])) = 20" "length (nodes_bytes (?ns @ [end_node])) = 15"
    by (simp_all add: node_len_pad small_nodes end_node_facts aligned_def)
  have inn: "\<forall>n \<in> set ?ns. inner n" by (simp add: small_nodes(7,8))
  have ap: "region 0x1000 (20 + 4) \<inter> region 0x3000 15 = {}" using small_apart(2) [of 24 15] by simp
  obtain m' where r: "UnpackDevicePath small_uefi 0x3000 small_paths = Some (0x1000, small_paths\<lparr>firmware := firmware small_paths, mem := m'\<rparr>)"
      "wrote (mem small_paths) 0x1000 (nodes_bytes (map pad_node (?ns @ [end_node]))) m'"
    using UnpackDevicePath_aligns [OF src inn _ small_pool, unfolded l, OF _ _ ap] by auto
  have "bytes_at m' 0x1000 (nodes_bytes (map pad_node (?ns @ [end_node])))" using r(2) by (simp add: wrote_def)
  then show ?thesis using r(1) by (simp add: pad)
qed

end

