(* ===== verification/EfiMisc.thy ===== *)
theory EfiMisc
  imports EfiLib
begin

text \<open>
  The rest of the gnu-efi library that is modelled: the check of a master boot record and the search
  in the strings of a user interface (\<open>lib/misc.c\<close>), the names of the status codes (\<open>lib/error.c\<close>), the characters for
  boxes (\<open>lib/boxdraw.c\<close>), 64-bit arithmetic (\<open>lib/x86_64/math.c\<close>) and the two fill and copy
  functions of \<open>lib/init.c\<close> that a compiler may call.
\<close>

subsection \<open>Partition tables\<close>

text \<open>Four records of 16 bytes from offset 446 on, then the signature.\<close>

definition Partition :: "u64 \<Rightarrow> nat \<Rightarrow> u64" where
  "Partition Mbr i = Mbr + 446 + of_nat (16 * i)"

definition EXTRACT_UINT32 :: "memory \<Rightarrow> u64 \<Rightarrow> u32" where
  "EXTRACT_UINT32 m D =
     ucast (m D) OR push_bit 8 (ucast (m (D + 1))) OR push_bit 16 (ucast (m (D + 2))) OR push_bit 24 (ucast (m (D + 3)))"

definition OSIndicator :: "memory \<Rightarrow> u64 \<Rightarrow> u8" where "OSIndicator m p = m (p + 4)"
definition StartingLBA :: "memory \<Rightarrow> u64 \<Rightarrow> u32" where "StartingLBA m p = EXTRACT_UINT32 m (p + 8)"
definition SizeInLBA :: "memory \<Rightarrow> u64 \<Rightarrow> u32" where "SizeInLBA m p = EXTRACT_UINT32 m (p + 12)"

definition unused :: "memory \<Rightarrow> u64 \<Rightarrow> bool" where
  "unused m p \<longleftrightarrow> OSIndicator m p = 0 \<or> SizeInLBA m p = 0"

text \<open>The inner loop, over the indices left, is false when it returns.\<close>

fun overlap_loop :: "memory \<Rightarrow> u64 \<Rightarrow> u32 \<Rightarrow> u32 \<Rightarrow> nat list \<Rightarrow> bool" where
  "overlap_loop m Mbr Start End [] = True"
| "overlap_loop m Mbr Start End (j # js) =
     (let p = Partition Mbr j
      in if unused m p then overlap_loop m Mbr Start End js
         else if StartingLBA m p \<ge> Start \<and> StartingLBA m p \<le> End then False
         else let NewEndingLBA = StartingLBA m p + SizeInLBA m p - 1
              in if NewEndingLBA \<ge> Start \<and> NewEndingLBA \<le> End then False
                 else overlap_loop m Mbr Start End js)"

fun mbr_loop :: "memory \<Rightarrow> u64 \<Rightarrow> u64 \<Rightarrow> bool \<Rightarrow> nat list \<Rightarrow> bool" where
  "mbr_loop m Mbr LastBlock ValidMbr [] = ValidMbr"
| "mbr_loop m Mbr LastBlock ValidMbr (i # is) =
     (let p = Partition Mbr i
      in if unused m p then mbr_loop m Mbr LastBlock ValidMbr is
         else
           let Start = StartingLBA m p; End = Start + SizeInLBA m p - 1
           in if (ucast End :: u64) > LastBlock \<and> (LastBlock < 0x80000 \<or> (ucast End :: u64) > LastBlock + 0x40000) then False
              else if \<not> overlap_loop m Mbr Start End [i + 1..<4] then False
              else mbr_loop m Mbr LastBlock True is)"

text \<open>\<open>LastBlock\<close> is that of the medium of the block device.\<close>

definition ValidMBR :: "memory \<Rightarrow> u64 \<Rightarrow> u64 \<Rightarrow> bool" where
  "ValidMBR m Mbr LastBlock =
     (if read16 m (Mbr + 510) \<noteq> 0xaa55 then False else mbr_loop m Mbr LastBlock False [0..<4])"

subsection \<open>Strings of a user interface\<close>

text \<open>An entry is a language code and a string; an array ends with a null code.\<close>

definition LangCode :: "memory \<Rightarrow> u64 \<Rightarrow> u64" where "LangCode m e = read64 m e"
definition UiString :: "memory \<Rightarrow> u64 \<Rightarrow> u64" where "UiString m e = read64 m (e + 8)"

partial_function (option) skip_entries :: "memory \<Rightarrow> u64 \<Rightarrow> u64 option" where
  "skip_entries m e = (if LangCode m e \<noteq> 0 then skip_entries m (e + 16) else Some e)"

primrec skip_arrays :: "nat \<Rightarrow> memory \<Rightarrow> u64 \<Rightarrow> u64 option" where
  "skip_arrays 0 m e = Some e"
| "skip_arrays (Suc n) m e = do { e \<leftarrow> skip_entries m e; skip_arrays n m (e + 16) }"

text \<open>The search does not move on. The result is the string, or nothing when the array has none.\<close>

partial_function (option) search_entries :: "memory \<Rightarrow> u64 \<Rightarrow> u64 \<Rightarrow> u64 option option" where
  "search_entries m Lang e =
     (if LangCode m e \<noteq> 0 then do {
        r \<leftarrow> strcmpa m (LangCode m e) Lang;
        if r = 0 then Some (Some (UiString m e)) else search_entries m Lang e
      }
      else Some None)"

subsection \<open>Names of the status codes\<close>

definition ErrorCodeTable :: "(u64 \<times> string) list" where
  "ErrorCodeTable =
     [(0, ''Success''), (EFIERR 1, ''Load Error''),
      (EFIERR 2, ''Invalid Parameter''), (EFIERR 3, ''Unsupported''),
      (EFIERR 4, ''Bad Buffer Size''), (EFIERR 5, ''Buffer Too Small''),
      (EFIERR 6, ''Not Ready''), (EFIERR 7, ''Device Error''),
      (EFIERR 8, ''Write Protected''), (EFIERR 9, ''Out of Resources''),
      (EFIERR 10, ''Volume Corrupt''), (EFIERR 11, ''Volume Full''),
      (EFIERR 12, ''No Media''), (EFIERR 13, ''Media changed''),
      (EFIERR 14, ''Not Found''), (EFIERR 15, ''Access Denied''),
      (EFIERR 16, ''No Response''), (EFIERR 17, ''No mapping''),
      (EFIERR 18, ''Time out''), (EFIERR 19, ''Not started''),
      (EFIERR 20, ''Already started''), (EFIERR 21, ''Aborted''),
      (EFIERR 22, ''ICMP Error''), (EFIERR 23, ''TFTP Error''),
      (EFIERR 24, ''Protocol Error''), (EFIERR 25, ''Incompatible Version''),
      (EFIERR 26, ''Security Policy Violation''), (EFIERR 27, ''CRC Error''),
      (EFIERR 28, ''End of Media''), (EFIERR 31, ''End of File''),
      (EFIERR 32, ''Invalid Languages''), (EFIERR 33, ''Compromised Data''),
      (1, ''Warning Unknown Glyph''), (2, ''Warning Delete Failure''),
      (3, ''Warning Write Failure''), (4, ''Warning Buffer Too Small'')]"

text \<open>The name of a status, or the status that is printed in hexadecimal.\<close>

definition StatusToString :: "u64 \<Rightarrow> string + u64" where
  "StatusToString Status =
     (case find (\<lambda>e. fst e = Status) ErrorCodeTable of Some e \<Rightarrow> Inl (snd e) | None \<Rightarrow> Inr Status)"

subsection \<open>Characters\<close>

text \<open>Character, its code on a PC ANSI terminal and an ASCII character that looks similar.\<close>

definition UnicodeToPcAnsiOrAscii :: "(u16 \<times> u8 \<times> u8) list" where
  "UnicodeToPcAnsiOrAscii =
     [(0x2500, 0xc4, 0x2d), (0x2502, 0xb3, 0x7c), (0x250c, 0xda, 0x2f), (0x2510, 0xbf, 0x5c),
      (0x2514, 0xc0, 0x5c), (0x2518, 0xd9, 0x2f), (0x251c, 0xc3, 0x7c), (0x2524, 0xb4, 0x7c),
      (0x252c, 0xc2, 0x2b), (0x2534, 0xc1, 0x2b), (0x253c, 0xc5, 0x2b), (0x2550, 0xcd, 0x2d),
      (0x2551, 0xba, 0x7c), (0x2552, 0xd5, 0x2f), (0x2553, 0xd6, 0x2f), (0x2554, 0xc9, 0x2f),
      (0x2555, 0xb8, 0x5c), (0x2556, 0xb7, 0x5c), (0x2557, 0xbb, 0x5c), (0x2558, 0xd4, 0x5c),
      (0x2559, 0xd3, 0x5c), (0x255a, 0xc8, 0x5c), (0x255b, 0xbe, 0x2f), (0x255c, 0xbd, 0x2f),
      (0x255d, 0xbc, 0x2f), (0x255e, 0xc6, 0x7c), (0x255f, 0xc7, 0x7c), (0x2560, 0xcc, 0x7c),
      (0x2561, 0xb5, 0x7c), (0x2562, 0xb6, 0x7c), (0x2563, 0xb9, 0x7c), (0x2564, 0xd1, 0x2b),
      (0x2565, 0xd2, 0x2b), (0x2566, 0xcb, 0x2b), (0x2567, 0xcf, 0x2b), (0x2568, 0xd0, 0x2b),
      (0x2569, 0xca, 0x2b), (0x256a, 0xd8, 0x2b), (0x256b, 0xd7, 0x2b), (0x256c, 0xce, 0x2b),
      (0x2588, 0xdb, 0x2a), (0x2591, 0xb0, 0x2b), (0x25b2, 0x1e, 0x5e), (0x25ba, 0x10, 0x3e),
      (0x25bc, 0x1f, 0x76), (0x25c4, 0x11, 0x3c), (0x2191, 0x18, 0x5e), (0x2193, 0x19, 0x76)]"

definition LibIsValidTextGraphics :: "u16 \<Rightarrow> (u8 \<times> u8) option" where
  "LibIsValidTextGraphics Graphic =
     (if Graphic AND 0xff00 \<noteq> 0x2500 \<and> Graphic AND 0xff00 \<noteq> 0x2100 then None
      else map_option snd (find (\<lambda>e. fst e = Graphic) UnicodeToPcAnsiOrAscii))"

definition IsValidAscii :: "u16 \<Rightarrow> bool" where
  "IsValidAscii Ascii \<longleftrightarrow> Ascii \<ge> 0x20 \<and> Ascii \<le> 0x7f"

definition IsValidEfiCntlChar :: "u16 \<Rightarrow> bool" where
  "IsValidEfiCntlChar c \<longleftrightarrow> c = 0 \<or> c = 0x08 \<or> c = 0x0A \<or> c = 0x0D"

subsection \<open>Arithmetic and implicit calls\<close>

text \<open>A shift by 64 or more is undefined, as is a division by zero.\<close>

definition LShiftU64 :: "u64 \<Rightarrow> u64 \<Rightarrow> u64 option" where
  "LShiftU64 Operand Count = (if Count < 64 then Some (push_bit (unat Count) Operand) else None)"

definition RShiftU64 :: "u64 \<Rightarrow> u64 \<Rightarrow> u64 option" where
  "RShiftU64 Operand Count = (if Count < 64 then Some (drop_bit (unat Count) Operand) else None)"

definition MultU64x32 :: "u64 \<Rightarrow> u64 \<Rightarrow> u64" where
  "MultU64x32 Multiplicand Multiplier = Multiplicand * Multiplier"

definition DivU64x32 :: "u64 \<Rightarrow> u64 \<Rightarrow> (u64 \<times> u64) option" where
  "DivU64x32 Dividend Divisor = (if Divisor = 0 then None else Some (Dividend div Divisor, Dividend mod Divisor))"

definition DecimaltoBCD :: "u8 \<Rightarrow> u8" where
  "DecimaltoBCD DecValue = RtDecimaltoBCD DecValue"

definition BCDtoDecimal :: "u8 \<Rightarrow> u8" where
  "BCDtoDecimal BcdValue = RtBCDtoDecimal BcdValue"

definition efi_memset :: "u64 \<Rightarrow> u8 \<Rightarrow> u64 \<Rightarrow> memory \<Rightarrow> memory" where
  "efi_memset p c n m = set_loop (unat n) m p c"

definition efi_memcpy :: "u64 \<Rightarrow> u64 \<Rightarrow> u64 \<Rightarrow> memory \<Rightarrow> memory" where
  "efi_memcpy dest src n m = copy_loop (unat n) m dest src"

subsection \<open>What the loops decide\<close>

definition last_lba :: "memory \<Rightarrow> u64 \<Rightarrow> u32" where
  "last_lba m p = StartingLBA m p + SizeInLBA m p - 1"

definition on_disk :: "memory \<Rightarrow> u64 \<Rightarrow> u64 \<Rightarrow> bool" where
  "on_disk m LastBlock p \<longleftrightarrow>
     (ucast (last_lba m p) :: u64) \<le> LastBlock
     \<or> LastBlock \<ge> 0x80000 \<and> (ucast (last_lba m p) :: u64) \<le> LastBlock + 0x40000"

text \<open>A partition starts or ends inside another one.\<close>

definition touches :: "memory \<Rightarrow> u64 \<Rightarrow> u64 \<Rightarrow> bool" where
  "touches m p q \<longleftrightarrow>
     StartingLBA m q \<in> {StartingLBA m p..last_lba m p} \<or> last_lba m q \<in> {StartingLBA m p..last_lba m p}"

lemma overlap_loop_all:
  "overlap_loop m Mbr (StartingLBA m p) (last_lba m p) js \<longleftrightarrow>
     (\<forall>j \<in> set js. unused m (Partition Mbr j) \<or> \<not> touches m p (Partition Mbr j))"
  by (induction js) (auto simp: Let_def touches_def last_lba_def)

lemma mbr_loop_all:
  "mbr_loop m Mbr LastBlock v is \<longleftrightarrow>
     (v \<or> (\<exists>i \<in> set is. \<not> unused m (Partition Mbr i)))
     \<and> (\<forall>i \<in> set is. unused m (Partition Mbr i) \<or> on_disk m LastBlock (Partition Mbr i)
          \<and> (\<forall>j \<in> {i + 1..<4}. unused m (Partition Mbr j) \<or> \<not> touches m (Partition Mbr i) (Partition Mbr j)))"
proof (induction "is" arbitrary: v)
  case (Cons i "is")
  let ?p = "Partition Mbr i"
  have o: "overlap_loop m Mbr (StartingLBA m ?p) (StartingLBA m ?p + SizeInLBA m ?p - 1) [i + 1..<4] \<longleftrightarrow>
      (\<forall>j \<in> {i + 1..<4}. unused m (Partition Mbr j) \<or> \<not> touches m ?p (Partition Mbr j))"
    using overlap_loop_all [of m Mbr ?p "[i + 1..<4]"] by (simp add: last_lba_def)
  have d: "(ucast (StartingLBA m ?p + SizeInLBA m ?p - 1) > LastBlock
      \<and> (LastBlock < 0x80000 \<or> (ucast (StartingLBA m ?p + SizeInLBA m ?p - 1) :: u64) > LastBlock + 0x40000))
      \<longleftrightarrow> \<not> on_disk m LastBlock ?p"
    by (auto simp: on_disk_def last_lba_def not_le not_less)
  show ?case unfolding mbr_loop.simps Let_def o d Cons by auto
qed simp

lemma pair_order:
  "(\<forall>i \<in> set [0..<n]. U i \<or> D i \<and> (\<forall>j \<in> {i + 1..<n}. U j \<or> \<not> T i j)) \<longleftrightarrow>
     (\<forall>i < n. \<not> U i \<longrightarrow> D i) \<and> (\<forall>j < n. \<forall>i < j. \<not> U i \<longrightarrow> \<not> U j \<longrightarrow> \<not> T i j)"
  (is "?l \<longleftrightarrow> ?r")
proof
  assume l: ?l
  show ?r
  proof (intro conjI allI impI)
    fix i assume "i < n" "\<not> U i"
    then show "D i" using l by auto
  next
    fix j i assume j: "j < n" "i < j" "\<not> U i" "\<not> U j"
    then have "i \<in> set [0..<n]" "j \<in> {i + 1..<n}" by auto
    then show "\<not> T i j" using l j(3,4) by blast
  qed
next
  assume r: ?r
  show ?l by (intro ballI) (use r in auto)
qed

lemma search_entries_stuck:
  assumes "LangCode m e \<noteq> 0" "strcmpa m (LangCode m e) Lang = Some r" "r \<noteq> 0"
  shows "search_entries m Lang e = None"
proof (rule ccontr)
  assume "search_entries m Lang e \<noteq> None"
  then obtain y where "search_entries m Lang e = Some y" by blast
  then have "m = m \<and> Lang = Lang \<and> e = e \<longrightarrow> False"
  proof (rule search_entries.raw_induct [where P = "\<lambda>m' l x y. m' = m \<and> l = Lang \<and> x = e \<longrightarrow> False", rotated])
    fix search m' l x y
    assume IH: "\<And>m' l x y. search m' l x = Some y \<Longrightarrow> m' = m \<and> l = Lang \<and> x = e \<longrightarrow> False"
      and eq: "(if LangCode m' x \<noteq> 0 then do { r \<leftarrow> strcmpa m' (LangCode m' x) l;
          if r = 0 then Some (Some (UiString m' x)) else search m' l x } else Some None) = Some y"
    show "m' = m \<and> l = Lang \<and> x = e \<longrightarrow> False"
    proof (intro impI)
      assume "m' = m \<and> l = Lang \<and> x = e"
      then show False using eq IH [of m' l x y] assms by simp
    qed
  qed
  then show False by simp
qed

subsection \<open>Properties\<close>

text \<open>A master boot record is valid exactly when it has the signature and a used partition, every used
  partition ends on the disk, or at most 128 MB behind a disk that is not very small, and no later used
  partition starts or ends inside an earlier one. A later partition that contains an earlier one is not
  found.\<close>

theorem ValidMBR_decides:
  "ValidMBR m Mbr LastBlock \<longleftrightarrow>
     read16 m (Mbr + 510) = 0xaa55
     \<and> (\<exists>i < 4. \<not> unused m (Partition Mbr i))
     \<and> (\<forall>i < 4. \<not> unused m (Partition Mbr i) \<longrightarrow> on_disk m LastBlock (Partition Mbr i))
     \<and> (\<forall>j < 4. \<forall>i < j. \<not> unused m (Partition Mbr i) \<longrightarrow> \<not> unused m (Partition Mbr j) \<longrightarrow>
          \<not> touches m (Partition Mbr i) (Partition Mbr j))"
proof -
  have "set [0..<4] = {i. i < (4 :: nat)}" by auto
  then show ?thesis unfolding ValidMBR_def mbr_loop_all pair_order by simp
qed

text \<open>A record whose second partition contains the first one.\<close>

definition small_mbr :: memory where
  "small_mbr = (\<lambda>_. 0)(510 := 0x55, 511 := 0xaa, 450 := 1, 454 := 10, 458 := 5, 466 := 1, 470 := 5, 474 := 20)"

theorem ValidMBR_decides_witness: "ValidMBR small_mbr 0 1000"
proof -
  have p: "Partition 0 0 = 446" "Partition 0 1 = 462" "Partition 0 2 = 478" "Partition 0 3 = 494"
    by (simp_all add: Partition_def)
  have c: "\<not> unused small_mbr 446" "\<not> unused small_mbr 462" "unused small_mbr 478" "unused small_mbr 494"
    by (simp_all add: unused_def OSIndicator_def SizeInLBA_def EXTRACT_UINT32_def small_mbr_def)
  have u: "unused small_mbr (Partition 0 i) \<longleftrightarrow> 2 \<le> i" if "i < 4" for i
  proof -
    have "i = 0 \<or> i = 1 \<or> i = 2 \<or> i = 3" using that by linarith
    then show ?thesis using p c by (elim disjE) simp_all
  qed
  have l: "StartingLBA small_mbr 446 = 10" "last_lba small_mbr 446 = 14" "StartingLBA small_mbr 462 = 5" "last_lba small_mbr 462 = 24"
    by (simp_all add: StartingLBA_def last_lba_def SizeInLBA_def EXTRACT_UINT32_def small_mbr_def)
  have d: "on_disk small_mbr 1000 (Partition 0 i)" if "i < 2" for i
  proof -
    have "i = 0 \<or> i = 1" using that by linarith
    then show ?thesis using p l by (elim disjE) (simp_all add: on_disk_def)
  qed
  have t: "\<not> touches small_mbr (Partition 0 i) (Partition 0 j)" if "j < 2" "i < j" for i j
  proof -
    have "i = 0" "j = 1" using that by linarith+
    then show ?thesis using p l by (simp add: touches_def)
  qed
  have "read16 small_mbr (0 + 510) = 0xaa55" by (simp add: small_mbr_def load_eval)
  moreover have "\<exists>i < 4. \<not> unused small_mbr (Partition 0 i)" using u [of 0] by force
  moreover have "\<forall>i < 4. \<not> unused small_mbr (Partition 0 i) \<longrightarrow> on_disk small_mbr 1000 (Partition 0 i)"
    using u d by auto
  moreover have "\<forall>j < 4. \<forall>i < j. \<not> unused small_mbr (Partition 0 i) \<longrightarrow> \<not> unused small_mbr (Partition 0 j) \<longrightarrow>
      \<not> touches small_mbr (Partition 0 i) (Partition 0 j)"
    using u t by auto
  ultimately show ?thesis unfolding ValidMBR_decides by blast
qed

end
