(* ===== verification/EfiFloat.thy ===== *)
theory EfiFloat
  imports EfiMisc "HOL-Library.Log_Nat"
begin

text \<open>
  Decimal texts of numbers, \<open>ValueToString\<close> and \<open>FloatToString\<close> of \<open>lib/print.c\<close>. A finite floating point number
  is its sign and its magnitude, a natural number of the smallest units of its format, so that every operation
  of the code is exact arithmetic followed by a rounding. The evaluation is that of x86-64, in the precision of
  the operands' type. The two loops over a float end, and on fractions of at most seven bits they are exact.
\<close>

subsection \<open>Integers\<close>

function dec_loop :: "u64 \<Rightarrow> u16 list \<Rightarrow> u16 list" where
  "dec_loop v str = (if v = 0 then str else dec_loop (v div 10) ((ucast (ucast (v mod 10) :: u8) + 48) # str))"
  by pat_completeness auto
termination
proof (relation "measure (\<lambda>(v, str). unat v)")
  fix v :: u64 and str :: "u16 list"
  assume "v \<noteq> 0"
  then have "0 < unat v" by (simp add: unat_gt_0)
  then show "((v div 10, (ucast (ucast (v mod 10) :: u8) + 48) # str), v, str) \<in> measure (\<lambda>(v, str). unat v)"
    by (simp add: unat_div)
qed simp

declare dec_loop.simps [simp del]

fun comma_loop :: "nat \<Rightarrow> u16 list \<Rightarrow> u16 list" where
  "comma_loop c [] = []"
| "comma_loop c (d # ds) = (let c = c - 1 in if c = 0 then 44 # d # comma_loop 3 ds else d # comma_loop c ds)"

text \<open>The value is signed. Negating the least one is undefined in C; here it wraps, as it does on the processor, and the
  digits are those of \<open>2 ^ 63\<close>, because the loop divides it without a sign.\<close>

definition ValueToString :: "bool \<Rightarrow> u64 \<Rightarrow> u16 list" where
  "ValueToString comma v =
     (if v = 0 then [48]
      else
        let (sign, v) = (if sint v < 0 then ([45], - v) else ([], v));
            str = dec_loop v [];
            c = (if comma then [3, 1, 2] ! (length str mod 3) else 999) + 1
        in sign @ comma_loop c str)"

lemma sint_of_nat64: "k < 2 ^ 63 \<Longrightarrow> sint (of_nat k :: u64) = int k"
  by (simp add: signed_of_nat signed_take_bit_int_eq_self)

subsection \<open>Floating point numbers\<close>

text \<open>The magnitude of a finite double is a natural number in units of \<open>2 ^ -1074\<close>, that of a float in units of
  \<open>2 ^ -149\<close>. Rounding is to the nearest multiple, and to the even one of two.\<close>

definition double_magnitude :: "u64 \<Rightarrow> nat" where
  "double_magnitude v =
     (let e = unat (drop_bit 52 v AND 0x7FF); m = unat (v AND 0xFFFFFFFFFFFFF)
      in if e = 0 then m else (2 ^ 52 + m) * 2 ^ (e - 1))"

definition one_double :: nat where "one_double = 2 ^ 1074"

text \<open>The conversion to a 64-bit integer drops the fraction; numbers out of range, infinities and those that are
  no number are undefined behaviour.\<close>

definition double_to_INTN :: "u64 \<Rightarrow> u64 option" where
  "double_to_INTN v =
     (let i = double_magnitude v div one_double
      in if drop_bit 52 v AND 0x7FF = 0x7FF then None
         else if bit v 63 then (if i \<le> 2 ^ 63 then Some (- of_nat i) else None)
         else if i < 2 ^ 63 then Some (of_nat i) else None)"

definition round_even :: "nat \<Rightarrow> nat \<Rightarrow> nat" where
  "round_even k n =
     (let q = n div 2 ^ k; r = n mod 2 ^ k in if 2 * r > 2 ^ k \<or> 2 * r = 2 ^ k \<and> odd q then q + 1 else q)"

text \<open>A float has 24 bits; the product with 10 is exact in a double and then rounded.\<close>

definition float_of_double :: "nat \<Rightarrow> nat" where
  "float_of_double n = (let k = max 925 (floorlog 2 n - 24) in round_even k n * 2 ^ (k - 925))"

definition times10 :: "nat \<Rightarrow> nat" where
  "times10 f = (let k = floorlog 2 (f * 10) - 24 in round_even k (f * 10) * 2 ^ k)"

definition one_float :: nat where "one_float = 2 ^ 149"

partial_function (option) zero_loop :: "u16 list \<Rightarrow> nat \<Rightarrow> (u16 list \<times> nat) option" where
  "zero_loop Buffer f =
     (if f \<noteq> 0 \<and> f div one_float = 0 then zero_loop (Buffer @ [48]) (times10 f) else Some (Buffer, f))"

text \<open>The integer part of a float is a float.\<close>

partial_function (option) digit_loop :: "nat \<Rightarrow> nat option" where
  "digit_loop f = (if f mod one_float \<noteq> 0 then digit_loop (times10 f) else Some f)"

text \<open>The difference of a double and its integer part is exact, and its sign is dropped.\<close>

definition FloatToString :: "bool \<Rightarrow> u64 \<Rightarrow> u16 list option" where
  "FloatToString comma v = do {
     i \<leftarrow> double_to_INTN v;
     let Buffer = ValueToString comma i @ [46];
     let f = float_of_double (double_magnitude v mod one_double);
     (Buffer, f) \<leftarrow> zero_loop Buffer (times10 f);
     f \<leftarrow> digit_loop f;
     Some (Buffer @ ValueToString False (of_nat (f div one_float)))
   }"

subsection \<open>Rounding\<close>

text \<open>A number with at most 24 significant bits.\<close>

definition is_float :: "nat \<Rightarrow> bool" where
  "is_float f \<longleftrightarrow> (\<exists>m \<le> 2 ^ 24. \<exists>k. f = m * 2 ^ k)"

lemma round_even_bounds: "n div 2 ^ k \<le> round_even k n" "round_even k n \<le> n div 2 ^ k + 1"
  by (simp_all add: round_even_def Let_def)

lemma round_even_less: "n < 2 ^ (k + l) \<Longrightarrow> round_even k n \<le> 2 ^ l"
proof -
  assume "n < 2 ^ (k + l)"
  then have "n div 2 ^ k < 2 ^ l" by (simp add: less_mult_imp_div_less power_add mult.commute)
  then show ?thesis using round_even_bounds(2) [of k n] by linarith
qed

lemma round_even_exact: "2 ^ k dvd n \<Longrightarrow> round_even k n * 2 ^ k = n"
  by (auto simp: round_even_def Let_def)

lemma below_floorlog: "n < 2 ^ floorlog 2 n"
  by (cases "n = 0") (simp_all add: floorlog_bounds)

lemma times10_float: "is_float (times10 f)"
proof -
  let ?n = "f * 10" and ?k = "floorlog 2 (f * 10) - 24"
  have "?n < 2 ^ (?k + 24)" by (rule order_less_le_trans [OF below_floorlog]) (rule power_increasing, simp_all)
  then show ?thesis using round_even_less unfolding is_float_def times10_def Let_def by blast
qed

lemma times10_bounds: "9 * f \<le> times10 f" "times10 f \<le> 11 * f"
proof -
  let ?n = "f * 10" and ?k = "floorlog 2 (f * 10) - 24"
  have k: "2 ^ ?k \<le> f \<or> ?k = 0"
  proof (cases "?k = 0")
    case False
    then have "f > 0" by (cases "f = 0") (simp_all add: floorlog_def)
    have "2 ^ (?k + 23) \<le> ?n" using floorlog_bounds [of ?n 2] \<open>f > 0\<close> False by (simp add: Suc_diff_le)
    then have "2 ^ ?k * 2 ^ 23 \<le> f * 10" by (simp add: power_add)
    then show ?thesis by simp
  qed simp
  have lo: "?n div 2 ^ ?k * 2 ^ ?k \<le> times10 f" unfolding times10_def Let_def by (intro mult_le_mono1 round_even_bounds)
  have "times10 f \<le> (?n div 2 ^ ?k + 1) * 2 ^ ?k" unfolding times10_def Let_def by (intro mult_le_mono1 round_even_bounds)
  then have hi: "times10 f \<le> ?n div 2 ^ ?k * 2 ^ ?k + 2 ^ ?k" by (simp only: add_mult_distrib mult_1)
  have n: "?n div 2 ^ ?k * 2 ^ ?k + ?n mod 2 ^ ?k = ?n" "?n mod 2 ^ ?k < 2 ^ ?k" by (rule div_mult_mod_eq) simp
  have z: "times10 f = ?n" if "?k = 0" unfolding times10_def Let_def that by (simp add: round_even_def)
  show "9 * f \<le> times10 f" using k
  proof
    assume "2 ^ ?k \<le> f"
    then show ?thesis using lo n by linarith
  qed (simp add: z)
  show "times10 f \<le> 11 * f" using k
  proof
    assume "2 ^ ?k \<le> f"
    then show ?thesis using hi n by linarith
  qed (simp add: z)
qed

lemma times10_exact: "f * 10 = m * 2 ^ k \<Longrightarrow> m < 2 ^ 24 \<Longrightarrow> times10 f = f * 10"
proof -
  assume e: "f * 10 = m * 2 ^ k" and m: "m < 2 ^ 24"
  let ?k = "floorlog 2 (f * 10) - 24"
  have "f * 10 < 2 ^ (k + 24)" unfolding e using m by (simp add: power_add)
  then have "floorlog 2 (f * 10) \<le> k + 24" by (rule floorlog_leI) simp_all
  then have "?k \<le> k" by linarith
  then have "2 ^ ?k dvd f * 10" unfolding e by (simp add: le_imp_power_dvd)
  then show ?thesis by (simp add: times10_def Let_def round_even_exact)
qed

lemma float_of_double_less:
  assumes "n < 2 ^ 1074"
  shows "float_of_double n \<le> one_float"
proof -
  let ?k = "max 925 (floorlog 2 n - 24)"
  have k: "925 \<le> ?k" "?k \<le> 1074" using floorlog_leI [OF assms] by simp_all
  have "n < 2 ^ (?k + (1074 - ?k))" using assms k by simp
  then have "round_even ?k n * 2 ^ (?k - 925) \<le> 2 ^ (1074 - ?k) * 2 ^ (?k - 925)" by (intro mult_le_mono1 round_even_less)
  also have "\<dots> = 2 ^ (1074 - ?k + (?k - 925))" by (rule power_add [symmetric])
  also have "1074 - ?k + (?k - 925) = 149" using k by linarith
  finally show ?thesis by (simp only: float_of_double_def one_float_def Let_def)
qed

subsection \<open>The loops\<close>

lemma one_float_pos [simp]: "0 < one_float" "one_float \<noteq> 0"
  by (simp_all add: one_float_def)

lemma zero_loop_stop: "f = 0 \<or> one_float \<le> f \<Longrightarrow> zero_loop B f = Some (B, f)"
  by (subst zero_loop.simps) (auto simp: div_eq_0_iff)

lemma zero_loop_go: "f \<noteq> 0 \<Longrightarrow> f < one_float \<Longrightarrow> zero_loop B f = zero_loop (B @ [48]) (times10 f)"
  by (subst zero_loop.simps) simp

lemma digit_loop_stop: "one_float dvd f \<Longrightarrow> digit_loop f = Some f"
  by (subst digit_loop.simps) simp

lemma digit_loop_go: "\<not> one_float dvd f \<Longrightarrow> digit_loop f = digit_loop (times10 f)"
  by (subst digit_loop.simps) (simp add: dvd_eq_mod_eq_0)

lemma times10_grows:
  assumes "T \<le> f * 8 ^ Suc n"
  shows "T \<le> times10 f * 8 ^ n"
proof -
  have "f * 8 \<le> times10 f" using times10_bounds(1) [of f] by linarith
  then have "f * 8 * 8 ^ n \<le> times10 f * 8 ^ n" by (rule mult_le_mono1)
  moreover have "f * 8 ^ Suc n = f * 8 * 8 ^ n" by (simp only: power_Suc mult.assoc)
  ultimately show ?thesis using assms by linarith
qed

lemma times10_0 [simp]: "times10 f = 0 \<longleftrightarrow> f = 0"
  using times10_bounds [of f] by auto

lemma zero_loop_ends:
  "is_float f \<Longrightarrow> f \<le> 11 * one_float \<Longrightarrow> f = 0 \<or> one_float \<le> f * 8 ^ n \<Longrightarrow>
    \<exists>z \<le> n. \<exists>f'. zero_loop B f = Some (B @ replicate z 48, f') \<and> is_float f' \<and> f' \<le> 11 * one_float
      \<and> (f' = 0 \<or> one_float \<le> f')"
proof (induction n arbitrary: f B)
  case 0
  then have "zero_loop B f = Some (B, f)" by (intro zero_loop_stop) simp
  then show ?case using 0 by simp
next
  case (Suc n)
  show ?case
  proof (cases "f = 0 \<or> one_float \<le> f")
    case True
    then have "zero_loop B f = Some (B @ replicate 0 48, f)" by (simp add: zero_loop_stop)
    then show ?thesis using Suc.prems(1,2) True by blast
  next
    case False
    then have f: "f \<noteq> 0" "f < one_float" by simp_all
    have g: "one_float \<le> times10 f * 8 ^ n" using Suc.prems(3) f(1) by (intro times10_grows) blast
    have "times10 f \<le> 11 * one_float" using times10_bounds(2) [of f] f(2) by linarith
    then obtain z f' where z: "z \<le> n" "zero_loop (B @ [48]) (times10 f) = Some ((B @ [48]) @ replicate z 48, f')" "is_float f'"
        "f' \<le> 11 * one_float" "f' = 0 \<or> one_float \<le> f'"
      using Suc.IH [OF times10_float, of f "B @ [48]"] g by blast
    have "zero_loop B f = Some (B @ replicate (Suc z) 48, f')" using z(2) by (simp add: zero_loop_go [OF f])
    moreover have "Suc z \<le> Suc n" using z(1) by simp
    ultimately show ?thesis using z(3-5) by blast
  qed
qed

lemma big_float_whole:
  assumes "is_float f" "one_float * 2 ^ 24 \<le> f"
  shows "one_float dvd f"
proof -
  obtain m k where f: "f = m * 2 ^ k" "m \<le> 2 ^ 24" using assms(1) by (auto simp: is_float_def)
  have "2 ^ 24 * one_float \<le> m * 2 ^ k" using assms(2) f(1) by (simp only: mult.commute)
  also have "\<dots> \<le> 2 ^ 24 * 2 ^ k" using f(2) by (rule mult_le_mono1)
  finally have "one_float \<le> 2 ^ k" by simp
  then have "149 \<le> k" unfolding one_float_def by (rule power_le_imp_le_exp [rotated]) simp
  then have "one_float dvd 2 ^ k" unfolding one_float_def by (rule le_imp_power_dvd)
  then show ?thesis unfolding f(1) by (rule dvd_mult)
qed

lemma digit_loop_ends:
  "is_float f \<Longrightarrow> f \<le> 11 * T \<Longrightarrow> f = 0 \<or> T \<le> f * 8 ^ n \<Longrightarrow> T = one_float * 2 ^ 24 \<Longrightarrow>
    \<exists>f' \<le> 11 * T. digit_loop f = Some f' \<and> one_float dvd f'"
proof (induction n arbitrary: f)
  case 0
  then have "one_float dvd f" using big_float_whole [of f] by auto
  then show ?case using 0(2) digit_loop_stop [of f] by blast
next
  case (Suc n)
  show ?case
  proof (cases "one_float dvd f")
    case True
    then show ?thesis using Suc.prems(2) digit_loop_stop [of f] by blast
  next
    case False
    have f: "f \<noteq> 0" "f < T" using False big_float_whole [OF Suc.prems(1)] Suc.prems(4) by (auto simp only: not_le [symmetric] dvd_0_right)
    have "T \<le> times10 f * 8 ^ n" using Suc.prems(3) f(1) by (intro times10_grows) blast
    moreover have "times10 f \<le> 11 * T" using times10_bounds(2) [of f] f(2) by linarith
    ultimately show ?thesis using Suc.IH [OF times10_float _ _ Suc.prems(4)] unfolding digit_loop_go [OF False] by blast
  qed
qed

subsection \<open>Fractions of seven bits\<close>

text \<open>The fraction with \<open>m\<close> in its first seven bits, after \<open>j\<close> multiplications.\<close>

definition seven :: "nat \<Rightarrow> nat \<Rightarrow> nat" where
  "seven m j = m * 10 ^ j * 2 ^ 142"

lemma seven_Suc: "seven m (Suc j) = seven m j * 10"
  by (simp add: seven_def)

lemma seven_0: "seven m j = 0 \<longleftrightarrow> m = 0"
  by (simp add: seven_def)

lemma times10_seven:
  assumes "m < 128" "j < 7"
  shows "times10 (seven m j) = seven m (Suc j)"
proof -
  have "seven m j * 10 = m * 10 ^ Suc j * 2 ^ 142" unfolding seven_def power_Suc by (simp only: ac_simps)
  also have "(10 :: nat) ^ Suc j = 5 ^ Suc j * 2 ^ Suc j" by (simp only: power_mult_distrib [symmetric]) simp
  also have "m * (5 ^ Suc j * 2 ^ Suc j) * 2 ^ 142 = (m * 5 ^ Suc j) * 2 ^ (Suc j + 142)" by (simp only: power_add ac_simps)
  finally have e: "seven m j * 10 = (m * 5 ^ Suc j) * 2 ^ (Suc j + 142)" .
  have "(5 :: nat) ^ Suc j \<le> 5 ^ 7" using assms(2) by (intro power_increasing) simp_all
  then have "m * 5 ^ Suc j \<le> 127 * 5 ^ 7" using assms(1) by (intro mult_le_mono) simp_all
  then have "m * 5 ^ Suc j < 2 ^ 24" by (rule order_le_less_trans) simp
  then show ?thesis using times10_exact [OF e] by (simp only: seven_Suc)
qed

lemma seven_last: "one_float dvd seven m 7"
proof -
  have "seven m 7 = m * 5 ^ 7 * one_float" by (simp add: seven_def one_float_def)
  then show ?thesis by simp
qed

lemma zero_loop_seven:
  assumes "m < 128"
  shows "j + l = 7 \<Longrightarrow> seven m j < 10 * one_float \<Longrightarrow> \<exists>z \<le> l. zero_loop B (seven m j) = Some (B @ replicate z 48, seven m (j + z))
    \<and> (m = 0 \<or> one_float \<le> seven m (j + z)) \<and> seven m (j + z) < 10 * one_float"
proof (induction l arbitrary: j B)
  case 0
  then have "m = 0 \<or> one_float \<le> seven m j" using dvd_imp_le [OF seven_last [of m]] seven_0 [of m 7] by auto
  then show ?case using 0 by (auto simp: zero_loop_stop seven_0)
next
  case (Suc l)
  show ?case
  proof (cases "m = 0 \<or> one_float \<le> seven m j")
    case True
    then show ?thesis using Suc.prems(2) by (intro exI [of _ 0]) (auto simp: zero_loop_stop seven_0)
  next
    case False
    then have f: "seven m j \<noteq> 0" "seven m j < one_float" by (simp_all add: seven_0)
    have t: "times10 (seven m j) = seven m (Suc j)" using Suc.prems(1) by (intro times10_seven assms) simp
    have "seven m (Suc j) < 10 * one_float" using f(2) by (simp add: seven_Suc)
    then obtain z where z: "z \<le> l" "zero_loop (B @ [48]) (seven m (Suc j)) = Some ((B @ [48]) @ replicate z 48, seven m (Suc j + z))"
        "m = 0 \<or> one_float \<le> seven m (Suc j + z)" "seven m (Suc j + z) < 10 * one_float"
      using Suc.IH [of "Suc j" "B @ [48]"] Suc.prems(1) by auto
    then show ?thesis by (intro exI [of _ "Suc z"]) (simp add: zero_loop_go [OF f] t)
  qed
qed

lemma digit_loop_seven:
  assumes "m < 128"
  shows "j + l = 7 \<Longrightarrow> \<exists>n \<le> l. digit_loop (seven m j) = Some (seven m (j + n)) \<and> one_float dvd seven m (j + n)"
proof (induction l arbitrary: j)
  case 0
  then show ?case using seven_last [of m] by (auto simp: digit_loop_stop)
next
  case (Suc l)
  show ?case
  proof (cases "one_float dvd seven m j")
    case True
    then show ?thesis by (intro exI [of _ 0]) (simp add: digit_loop_stop)
  next
    case False
    have "times10 (seven m j) = seven m (Suc j)" using Suc.prems(1) by (intro times10_seven assms) simp
    moreover obtain n where "n \<le> l" "digit_loop (seven m (Suc j)) = Some (seven m (Suc j + n))" "one_float dvd seven m (Suc j + n)"
      using Suc.IH [of "Suc j"] Suc.prems by auto
    ultimately show ?thesis by (intro exI [of _ "Suc n"]) (simp add: digit_loop_go [OF False])
  qed
qed

lemma float_of_double_seven:
  assumes "m < 128"
  shows "float_of_double (m * 2 ^ 1067) = seven m 0"
proof -
  let ?n = "m * 2 ^ 1067" and ?k = "max 925 (floorlog 2 (m * 2 ^ 1067) - 24)"
  have "?n < 2 ^ 7 * 2 ^ 1067" using assms by (intro mult_less_mono1) simp_all
  then have "?n < 2 ^ 1074" by (simp only: power_add [symmetric]) simp
  then have k: "925 \<le> ?k" "?k \<le> 1067" using floorlog_leI [of ?n 2 1074] by simp_all
  have "2 ^ ?k dvd ?n" using k(2) by (intro dvd_mult le_imp_power_dvd)
  then have "round_even ?k ?n * 2 ^ ?k = ?n" by (rule round_even_exact)
  moreover have "(2 :: nat) ^ ?k = 2 ^ (?k - 925) * 2 ^ 925" "(2 :: nat) ^ 1067 = 2 ^ 142 * 2 ^ 925"
    using k(1) by (simp_all only: power_add [symmetric]) simp_all
  ultimately have "round_even ?k ?n * 2 ^ (?k - 925) * 2 ^ 925 = m * 2 ^ 142 * 2 ^ 925" by (simp only: mult.assoc)
  then have "round_even ?k ?n * 2 ^ (?k - 925) = m * 2 ^ 142" by (rule iffD1 [OF mult_right_cancel, rotated]) simp
  then show ?thesis by (simp only: float_of_double_def Let_def seven_def power_0 mult_1_right)
qed

end
