(* ===== verification/EfiPrint.thy ===== *)
theory EfiPrint
  imports EfiPath EfiFloat
begin

text \<open>
  Formatted output, \<open>lib/print.c\<close> with \<open>GuidToString\<close> of \<open>lib/guid.c\<close> and \<open>StatusToString\<close> of
  \<open>lib/error.c\<close>. The characters a \<open>PRINT_STATE\<close> has gathered in its buffer are a list, and so is
  the scratch buffer of an item; an item that is a string points into memory. The arguments are the
  64-bit slots of the variable argument list, and running out of them is \<open>None\<close>, as are reading a
  literal behind its terminator and filling a scratch buffer of 100 characters. The texts of decimal
  and floating point numbers are in \<open>EfiFloat\<close>.
\<close>

subsection \<open>State\<close>

definition wlit :: "string \<Rightarrow> u16 list" where
  "wlit cs = map (\<lambda>c. of_nat (of_char c)) cs"

text \<open>A string: a literal or the scratch buffer of an item, or wide or narrow characters in memory.\<close>

datatype POINTER = Lit "u16 list" | Wide u64 | Ascii u64

fun char_at :: "memory \<Rightarrow> POINTER \<Rightarrow> u64 \<Rightarrow> u16 option" where
  "char_at m (Lit cs) i = (if unat i < length cs then Some (cs ! unat i) else if unat i = length cs then Some 0 else None)"
| "char_at m (Wide a) i = Some (read16 m (a + 2 * i))"
| "char_at m (Ascii a) i = Some (ucast (m (a + i)))"

record PRINT_ITEM =
  it_pw :: "POINTER option"
  it_Width :: u64
  it_FieldWidth :: u64
  WidthParse :: bool
  Pad :: u16
  PadBefore :: bool
  Comma :: bool
  Long :: bool

record POOL_PRINT =
  pp_str :: u64
  pp_len :: u64
  pp_maxlen :: u64

text \<open>Where the text goes: to a buffer, to a pool buffer that grows, to a console, or to the scratch buffer
  of an item, or to the debug console of \<open>_DbgOut\<close>, which may be missing; \<open>SetAttr\<close> is there for a console
  only.\<close>

datatype sink = ToString | ToPool | ToConsole u64 | ToScratch | ToDebug u64

record PRINT_STATE =
  fmt :: POINTER
  fmt_Index :: u64
  args :: "u64 list"
  Pos :: "u16 list"
  Len :: u64
  Attr :: u64
  RestoreAttr :: u64
  AttrNorm :: u64
  AttrHighlight :: u64
  AttrError :: u64
  Output :: sink
  Context :: POOL_PRINT
  Scratch :: "u16 list"

record 'f print_uefi = "'f path_uefi" +
  sv_OutputString :: "u64 \<Rightarrow> u16 list \<Rightarrow> 'f \<Rightarrow> 'f"
  sv_SetAttribute :: "u64 \<Rightarrow> u64 \<Rightarrow> 'f \<Rightarrow> 'f"
  sv_SetCursorPosition :: "u64 \<Rightarrow> u64 \<Rightarrow> u64 \<Rightarrow> 'f \<Rightarrow> 'f"

subsection \<open>Where the text goes\<close>

definition strlen_w :: "u16 list \<Rightarrow> u64" where
  "strlen_w cs = of_nat (length (takeWhile (\<lambda>c. c \<noteq> 0) cs))"

primrec write_chars :: "u64 \<Rightarrow> u16 list \<Rightarrow> memory \<Rightarrow> memory" where
  "write_chars a [] m = m"
| "write_chars a (c # cs) m = write_chars (a + 2) cs (write16 m a c)"

text \<open>\<open>_SPrint\<close> cuts the text off at the maximal length. A length beyond the buffer's own reads on
  behind it.\<close>

definition sprint_out :: "POOL_PRINT \<Rightarrow> u16 list \<Rightarrow> memory \<Rightarrow> (POOL_PRINT \<times> memory) option" where
  "sprint_out spc Buffer m =
     (let len = strlen_w Buffer;
          len = (if pp_len spc + len > pp_maxlen spc then pp_maxlen spc - pp_len spc else len)
      in if unat len > length Buffer then None
         else
           let m = write_chars (pp_str spc + 2 * pp_len spc) (take (unat len) Buffer) m;
               spc = spc\<lparr>pp_len := pp_len spc + len\<rparr>;
               m = (if pp_len spc < pp_maxlen spc then write16 m (pp_str spc + 2 * pp_len spc) 0
                    else if pp_maxlen spc \<noteq> 0 then write16 m (pp_str spc + 2 * pp_maxlen spc) 0 else m)
           in Some (spc, m))"

definition PRINT_STRING_LEN :: nat where "PRINT_STRING_LEN = 200"
definition PRINT_ITEM_BUFFER_LEN :: nat where "PRINT_ITEM_BUFFER_LEN = 100"

definition poolprint_out ::
  "('f, 'y) uefi_scheme \<Rightarrow> POOL_PRINT \<Rightarrow> u16 list \<Rightarrow> ('f, 'z) efi_state_scheme \<Rightarrow> (POOL_PRINT \<times> ('f, 'z) efi_state_scheme) option" where
  "poolprint_out sv spc Buffer s = do {
     let newlen = pp_len spc + strlen_w Buffer + 1;
     (spc, s) \<leftarrow> (if newlen > pp_maxlen spc then do {
          let newlen = newlen + of_nat PRINT_STRING_LEN;
          let spc = spc\<lparr>pp_maxlen := newlen\<rparr>;
          (p, s) \<leftarrow> ReallocatePool sv (pp_str spc) (pp_len spc * 2) (pp_maxlen spc * 2) s;
          let spc = spc\<lparr>pp_str := p\<rparr>;
          Some (if p = 0 then spc\<lparr>pp_len := 0, pp_maxlen := 0\<rparr> else spc, s)
        }
        else Some (spc, s));
     (spc, m) \<leftarrow> sprint_out spc Buffer (mem s);
     Some (spc, s\<lparr>mem := m\<rparr>)
   }"

definition PFLUSH ::
  "('f, 'y) print_uefi_scheme \<Rightarrow> PRINT_STATE \<Rightarrow> ('f, 'z) efi_state_scheme \<Rightarrow> (PRINT_STATE \<times> ('f, 'z) efi_state_scheme) option" where
  "PFLUSH sv ps s = do {
     (ps, s) \<leftarrow> (case Output ps of
         ToString \<Rightarrow> do { (spc, m) \<leftarrow> sprint_out (Context ps) (Pos ps) (mem s); Some (ps\<lparr>Context := spc\<rparr>, s\<lparr>mem := m\<rparr>) }
       | ToPool \<Rightarrow> do { (spc, s) \<leftarrow> poolprint_out sv (Context ps) (Pos ps) s; Some (ps\<lparr>Context := spc\<rparr>, s) }
       | ToConsole Out \<Rightarrow> Some (ps, s\<lparr>firmware := sv_OutputString sv Out (takeWhile (\<lambda>c. c \<noteq> 0) (Pos ps)) (firmware s)\<rparr>)
       | ToScratch \<Rightarrow>
           let t = Scratch ps @ takeWhile (\<lambda>c. c \<noteq> 0) (Pos ps)
           in if length t < PRINT_ITEM_BUFFER_LEN then Some (ps\<lparr>Scratch := t\<rparr>, s) else None
       | ToDebug Out \<Rightarrow> Some (ps,
           if Out \<noteq> 0 then s\<lparr>firmware := sv_OutputString sv Out (takeWhile (\<lambda>c. c \<noteq> 0) (Pos ps)) (firmware s)\<rparr> else s));
     Some (ps\<lparr>Pos := []\<rparr>, s)
   }"

definition PSETATTR ::
  "('f, 'y) print_uefi_scheme \<Rightarrow> u64 \<Rightarrow> PRINT_STATE \<Rightarrow> ('f, 'z) efi_state_scheme \<Rightarrow> (PRINT_STATE \<times> ('f, 'z) efi_state_scheme) option" where
  "PSETATTR sv attr ps s = do {
     (ps, s) \<leftarrow> PFLUSH sv ps s;
     let ps = ps\<lparr>RestoreAttr := Attr ps\<rparr>;
     let s = (case Output ps of ToConsole Out \<Rightarrow> s\<lparr>firmware := sv_SetAttribute sv Out attr (firmware s)\<rparr>
       | ToDebug Out \<Rightarrow> if Out \<noteq> 0 then s\<lparr>firmware := sv_SetAttribute sv Out attr (firmware s)\<rparr> else s
       | _ \<Rightarrow> s);
     Some (ps\<lparr>Attr := attr\<rparr>, s)
   }"

text \<open>One character; a newline goes out with a carriage return before it.\<close>

definition put_char ::
  "('f, 'y) print_uefi_scheme \<Rightarrow> u16 \<Rightarrow> PRINT_STATE \<Rightarrow> ('f, 'z) efi_state_scheme \<Rightarrow> (PRINT_STATE \<times> ('f, 'z) efi_state_scheme) option" where
  "put_char sv c ps s =
     (let ps = ps\<lparr>Pos := Pos ps @ [c], Len := Len ps + 1\<rparr>
      in if length (Pos ps) \<ge> PRINT_STRING_LEN - 1 then PFLUSH sv ps s else Some (ps, s))"

definition PPUTC ::
  "('f, 'y) print_uefi_scheme \<Rightarrow> u16 \<Rightarrow> PRINT_STATE \<Rightarrow> ('f, 'z) efi_state_scheme \<Rightarrow> (PRINT_STATE \<times> ('f, 'z) efi_state_scheme) option" where
  "PPUTC sv c ps s = do {
     (ps, s) \<leftarrow> (if c = 10 then put_char sv 13 ps s else Some (ps, s));
     put_char sv c ps s
   }"

definition PGETC :: "memory \<Rightarrow> PRINT_STATE \<Rightarrow> (u16 \<times> PRINT_STATE) option" where
  "PGETC m ps = do { c \<leftarrow> char_at m (fmt ps) (fmt_Index ps); Some (c, ps\<lparr>fmt_Index := fmt_Index ps + 1\<rparr>) }"

subsection \<open>Items\<close>

text \<open>The length of an item, at most the width of its field.\<close>

function item_len :: "memory \<Rightarrow> POINTER \<Rightarrow> u64 \<Rightarrow> u64 \<Rightarrow> u64 option" where
  "item_len m p FieldWidth Index =
     (if Index < FieldWidth then
        case char_at m p Index of
          None \<Rightarrow> None
        | Some c \<Rightarrow> if c = 0 then Some Index else item_len m p FieldWidth (Index + 1)
      else Some Index)"
  by pat_completeness auto
termination
proof (relation "measure (\<lambda>(m, p, w, i). unat w - unat i)")
  fix m :: memory and p :: POINTER and w i :: u64
  assume lt: "i < w"
  from lt have "unat (i + 1) = Suc (unat i)" by (rule unat_plus_one_less)
  with lt show "((m, p, w, i + 1), m, p, w, i) \<in> measure (\<lambda>(m, p, w, i). unat w - unat i)"
    by (simp add: word_less_nat_alt diff_less_mono2)
qed simp

declare item_len.simps [simp del]

fun put_pad ::
  "('f, 'y) print_uefi_scheme \<Rightarrow> nat \<Rightarrow> u16 \<Rightarrow> PRINT_STATE \<Rightarrow> ('f, 'z) efi_state_scheme \<Rightarrow> (PRINT_STATE \<times> ('f, 'z) efi_state_scheme) option" where
  "put_pad sv 0 c ps s = Some (ps, s)"
| "put_pad sv (Suc n) c ps s = do { (ps, s) \<leftarrow> PPUTC sv c ps s; put_pad sv n c ps s }"

fun put_item ::
  "('f, 'y) print_uefi_scheme \<Rightarrow> nat \<Rightarrow> POINTER \<Rightarrow> u64 \<Rightarrow> PRINT_STATE \<Rightarrow> ('f, 'z) efi_state_scheme \<Rightarrow> (PRINT_STATE \<times> ('f, 'z) efi_state_scheme) option" where
  "put_item sv 0 p Index ps s = Some (ps, s)"
| "put_item sv (Suc n) p Index ps s = do {
     c \<leftarrow> char_at (mem s) p Index;
     (ps, s) \<leftarrow> PPUTC sv c ps s;
     put_item sv n p (Index + 1) ps s
   }"

definition PITEM ::
  "('f, 'y) print_uefi_scheme \<Rightarrow> POINTER \<Rightarrow> PRINT_ITEM \<Rightarrow> PRINT_STATE \<Rightarrow> ('f, 'z) efi_state_scheme \<Rightarrow> (PRINT_STATE \<times> ('f, 'z) efi_state_scheme) option" where
  "PITEM sv p Item ps s = do {
     len \<leftarrow> item_len (mem s) p (it_FieldWidth Item) 0;
     let FieldWidth = (if it_FieldWidth Item = - 1 then len else it_FieldWidth Item);
     let Width = (if len > it_Width Item then len else it_Width Item);
     (ps, s) \<leftarrow> (if PadBefore Item then put_pad sv (unat FieldWidth - unat Width) 32 ps s else Some (ps, s));
     (ps, s) \<leftarrow> put_pad sv (unat Width - unat len) (Pad Item) ps s;
     (ps, s) \<leftarrow> put_item sv (unat len) p 0 ps s;
     if \<not> PadBefore Item then put_pad sv (unat FieldWidth - unat Width) 32 ps s else Some (ps, s)
   }"

subsection \<open>Numbers\<close>

definition Hex :: "u16 list" where
  "Hex = wlit ''0123456789ABCDEF''"

text \<open>The loops gather the digits from the last to the first.\<close>

function hex_loop :: "u64 \<Rightarrow> u16 list \<Rightarrow> u16 list" where
  "hex_loop v str = (if v = 0 then str else hex_loop (drop_bit 4 v) (Hex ! unat (v AND 0xf) # str))"
  by pat_completeness auto
termination
proof (relation "measure (\<lambda>(v, str). unat v)")
  fix v :: u64 and str :: "u16 list"
  assume "v \<noteq> 0"
  then have "0 < unat v" by (simp add: unat_gt_0)
  then show "((drop_bit 4 v, Hex ! unat (v AND 0xf) # str), v, str) \<in> measure (\<lambda>(v, str). unat v)"
    by (simp add: unsigned_drop_bit_eq drop_bit_eq_div unat_div)
qed simp

declare hex_loop.simps [simp del]

definition ValueToHex :: "u64 \<Rightarrow> u16 list" where
  "ValueToHex v = (if v = 0 then [48] else hex_loop v [])"

subsection \<open>Conversions\<close>

definition va_arg :: "PRINT_STATE \<Rightarrow> (u64 \<times> PRINT_STATE) option" where
  "va_arg ps = (case args ps of [] \<Rightarrow> None | a # va \<Rightarrow> Some (a, ps\<lparr>args := va\<rparr>))"

definition set_width :: "u64 \<Rightarrow> PRINT_ITEM \<Rightarrow> PRINT_ITEM" where
  "set_width w Item = (if WidthParse Item then Item\<lparr>it_FieldWidth := w\<rparr> else Item\<lparr>it_Width := w\<rparr>)"

definition parsed_width :: "PRINT_ITEM \<Rightarrow> u64" where
  "parsed_width Item = (if WidthParse Item then it_FieldWidth Item else it_Width Item)"

text \<open>The loop over the digits of a width; the position goes back by the character that ended it.\<close>

partial_function (option) width_loop :: "memory \<Rightarrow> u16 \<Rightarrow> PRINT_ITEM \<Rightarrow> PRINT_STATE \<Rightarrow> (PRINT_ITEM \<times> PRINT_STATE) option" where
  "width_loop m c Item ps = do {
     let Item = set_width (parsed_width Item * 10 + ucast c - 48) Item;
     (c, ps) \<leftarrow> PGETC m ps;
     if 48 \<le> c \<and> c \<le> 57 then width_loop m c Item ps
     else Some (Item, ps\<lparr>fmt_Index := fmt_Index ps - 1\<rparr>)
   }"

definition set_text :: "u16 list \<Rightarrow> PRINT_ITEM \<Rightarrow> PRINT_ITEM" where
  "set_text cs Item = Item\<lparr>it_pw := Some (Lit cs)\<rparr>"

definition null_or :: "(u64 \<Rightarrow> POINTER) \<Rightarrow> u64 \<Rightarrow> POINTER" where
  "null_or P a = (if a = 0 then Lit (wlit ''(null)'') else P a)"

text \<open>The unsigned and the signed 32-bit argument, widened to 64 bits.\<close>

definition arg_u :: "bool \<Rightarrow> u64 \<Rightarrow> u64" where
  "arg_u long a = (if long then a else ucast (ucast a :: u32))"

definition arg_d :: "bool \<Rightarrow> u64 \<Rightarrow> u64" where
  "arg_d long a = (if long then a else scast (ucast a :: u32))"

text \<open>What the conversions \<open>g\<close>, \<open>t\<close>, \<open>r\<close> and \<open>D\<close> put into the scratch buffer.\<close>

type_synonym ('f, 'z) texts = "u16 \<Rightarrow> u64 \<Rightarrow> ('f, 'z) efi_state_scheme \<Rightarrow> (u16 list \<times> ('f, 'z) efi_state_scheme) option"

text \<open>The \<open>switch\<close> on one character of a directive; the third component is the attribute for the rest of
  the text.\<close>

definition directive ::
  "('f, 'y) print_uefi_scheme \<Rightarrow> ('f, 'z) texts \<Rightarrow> u16 \<Rightarrow> PRINT_ITEM \<Rightarrow> u64 \<Rightarrow> PRINT_STATE \<Rightarrow> ('f, 'z) efi_state_scheme
     \<Rightarrow> (PRINT_ITEM \<times> u64 \<times> PRINT_STATE \<times> ('f, 'z) efi_state_scheme) option" where
  "directive sv tx c Item attr ps s =
     (if c = 37 then Some (set_text [37] Item, attr, ps, s)
      else if c = 48 then Some (Item\<lparr>Pad := 48\<rparr>, attr, ps, s)
      else if c = 45 then Some (Item\<lparr>PadBefore := False\<rparr>, attr, ps, s)
      else if c = 44 then Some (Item\<lparr>Comma := True\<rparr>, attr, ps, s)
      else if c = 46 then Some (Item\<lparr>WidthParse := True\<rparr>, attr, ps, s)
      else if c = 42 then do { (a, ps) \<leftarrow> va_arg ps; Some (set_width a Item, attr, ps, s) }
      else if 49 \<le> c \<and> c \<le> 57 then do { (Item, ps) \<leftarrow> width_loop (mem s) c (set_width 0 Item) ps; Some (Item, attr, ps, s) }
      else if c = 97 then do { (a, ps) \<leftarrow> va_arg ps; Some (Item\<lparr>it_pw := Some (null_or Ascii a)\<rparr>, attr, ps, s) }
      else if c = 115 then do { (a, ps) \<leftarrow> va_arg ps; Some (Item\<lparr>it_pw := Some (null_or Wide a)\<rparr>, attr, ps, s) }
      else if c = 99 then do { (a, ps) \<leftarrow> va_arg ps; Some (set_text (if ucast a = (0 :: u16) then [] else [ucast a]) Item, attr, ps, s) }
      else if c = 108 then Some (Item\<lparr>Long := True\<rparr>, attr, ps, s)
      else if c = 88 then do {
        (a, ps) \<leftarrow> va_arg ps;
        let Item = Item\<lparr>it_Width := (if Long Item then 16 else 8), Pad := 48\<rparr>;
        Some (set_text (ValueToHex (arg_u (Long Item) a)) Item, attr, ps, s)
      }
      else if c = 120 then do { (a, ps) \<leftarrow> va_arg ps; Some (set_text (ValueToHex (arg_u (Long Item) a)) Item, attr, ps, s) }
      else if c = 117 then do { (a, ps) \<leftarrow> va_arg ps; Some (set_text (ValueToString (Comma Item) (arg_u (Long Item) a)) Item, attr, ps, s) }
      else if c = 100 then do { (a, ps) \<leftarrow> va_arg ps; Some (set_text (ValueToString (Comma Item) (arg_d (Long Item) a)) Item, attr, ps, s) }
      else if c = 102 then do { (a, ps) \<leftarrow> va_arg ps; t \<leftarrow> FloatToString (Comma Item) a; Some (set_text t Item, attr, ps, s) }
      else if c \<in> {103, 116, 114, 68} then do { (a, ps) \<leftarrow> va_arg ps; (t, s) \<leftarrow> tx c a s; Some (set_text t Item, attr, ps, s) }
      else if c = 110 then do { (ps, s) \<leftarrow> PSETATTR sv (AttrNorm ps) ps s; Some (Item, attr, ps, s) }
      else if c = 104 then do { (ps, s) \<leftarrow> PSETATTR sv (AttrHighlight ps) ps s; Some (Item, attr, ps, s) }
      else if c = 101 then do { (ps, s) \<leftarrow> PSETATTR sv (AttrError ps) ps s; Some (Item, attr, ps, s) }
      else if c = 78 then Some (Item, AttrNorm ps, ps, s)
      else if c = 72 then Some (Item, AttrHighlight ps, ps, s)
      else if c = 69 then Some (Item, AttrError ps, ps, s)
      else Some (set_text [63] Item, attr, ps, s))"

text \<open>The inner loop of \<open>_Print\<close> over the characters of a directive, the first loop over the text, and the
  whole.\<close>

partial_function (option) directive_loop ::
  "('f, 'y) print_uefi_scheme \<Rightarrow> ('f, 'z) texts \<Rightarrow> PRINT_ITEM \<Rightarrow> u64 \<Rightarrow> PRINT_STATE \<Rightarrow> ('f, 'z) efi_state_scheme
     \<Rightarrow> (PRINT_STATE \<times> ('f, 'z) efi_state_scheme) option" where
  "directive_loop sv tx Item attr ps s = do {
     (c, ps) \<leftarrow> PGETC (mem s) ps;
     if c = 0 then Some (ps, s)
     else do {
       (Item, attr, ps, s) \<leftarrow> directive sv tx c Item attr ps s;
       case it_pw Item of
         Some p \<Rightarrow> PITEM sv p Item ps s
       | None \<Rightarrow>
           if attr \<noteq> 0 then do { (ps, s) \<leftarrow> PSETATTR sv attr ps s; Some (ps\<lparr>RestoreAttr := 0\<rparr>, s) }
           else directive_loop sv tx Item attr ps s
     }
   }"

definition new_item :: PRINT_ITEM where
  "new_item = \<lparr>it_pw = None, it_Width = 0, it_FieldWidth = - 1, WidthParse = False, Pad = 32, PadBefore = True, Comma = False,
     Long = False\<rparr>"

partial_function (option) print_loop ::
  "('f, 'y) print_uefi_scheme \<Rightarrow> ('f, 'z) texts \<Rightarrow> PRINT_STATE \<Rightarrow> ('f, 'z) efi_state_scheme \<Rightarrow> (PRINT_STATE \<times> ('f, 'z) efi_state_scheme) option" where
  "print_loop sv tx ps s = do {
     (c, ps) \<leftarrow> PGETC (mem s) ps;
     if c = 0 then Some (ps, s)
     else if c \<noteq> 37 then do { (ps, s) \<leftarrow> PPUTC sv c ps s; print_loop sv tx ps s }
     else do {
       (ps, s) \<leftarrow> directive_loop sv tx new_item 0 (ps\<lparr>RestoreAttr := 0\<rparr>) s;
       (ps, s) \<leftarrow> (if RestoreAttr ps \<noteq> 0 then PSETATTR sv (RestoreAttr ps) ps s else Some (ps, s));
       print_loop sv tx ps s
     }
   }"

definition Print_with ::
  "('f, 'y) print_uefi_scheme \<Rightarrow> ('f, 'z) texts \<Rightarrow> PRINT_STATE \<Rightarrow> ('f, 'z) efi_state_scheme \<Rightarrow> (PRINT_STATE \<times> ('f, 'z) efi_state_scheme) option" where
  "Print_with sv tx ps s = do {
     (ps, s) \<leftarrow> print_loop sv tx (ps\<lparr>Len := 0, Pos := [], fmt_Index := 0\<rparr>) s;
     PFLUSH sv ps s
   }"

subsection \<open>GUIDs, times and status codes\<close>

datatype GUID = Guid u32 u16 u16 "u8 list"

definition guid_value :: "memory \<Rightarrow> u64 \<Rightarrow> GUID" where
  "guid_value m a = Guid (read32 m a) (read16 m (a + 4)) (read16 m (a + 6)) (map (\<lambda>k. m (a + 8 + of_nat k)) [0..<8])"

text \<open>The known GUIDs with their values.\<close>

definition KnownGuids :: "(GUID \<times> string) list" where
  "KnownGuids =
     [(Guid 0x00000000 0x0000 0x0000 [0x00, 0x00, 0x00, 0x00, 0x00, 0x00, 0x00, 0x00], ''G0''),
      (Guid 0x8BE4DF61 0x93CA 0x11D2 [0xAA, 0x0D, 0x00, 0xE0, 0x98, 0x03, 0x2B, 0x8C], ''EfiVar''),
      (Guid 0xF088CD91 0xA046 0x11D2 [0x8E, 0x42, 0x00, 0xA0, 0xC9, 0x69, 0x72, 0x3B], ''VarStore''),
      (Guid 0x09576E91 0x6D3F 0x11D2 [0x8E, 0x39, 0x00, 0xA0, 0xC9, 0x69, 0x72, 0x3B], ''DevPath''),
      (Guid 0x5B1B31A1 0x9562 0x11D2 [0x8E, 0x3F, 0x00, 0xA0, 0xC9, 0x69, 0x72, 0x3B], ''LdImg''),
      (Guid 0x387477C1 0x69C7 0x11D2 [0x8E, 0x39, 0x00, 0xA0, 0xC9, 0x69, 0x72, 0x3B], ''TxtIn''),
      (Guid 0x387477C2 0x69C7 0x11D2 [0x8E, 0x39, 0x00, 0xA0, 0xC9, 0x69, 0x72, 0x3B], ''TxtOut''),
      (Guid 0x964E5B21 0x6459 0x11D2 [0x8E, 0x39, 0x00, 0xA0, 0xC9, 0x69, 0x72, 0x3B], ''BlkIo''),
      (Guid 0xA77B2472 0xE282 0x4E9F [0xA2, 0x45, 0xC2, 0xC0, 0xE2, 0x7B, 0xBC, 0xC1], ''BlkIo2''),
      (Guid 0xCE345171 0xBA0B 0x11D2 [0x8E, 0x4F, 0x00, 0xA0, 0xC9, 0x69, 0x72, 0x3B], ''DskIo''),
      (Guid 0x151C8EAE 0x7F2C 0x472C [0x9E, 0x54, 0x98, 0x28, 0x19, 0x4F, 0x6A, 0x88], ''DskIo2''),
      (Guid 0x964E5B22 0x6459 0x11D2 [0x8E, 0x39, 0x00, 0xA0, 0xC9, 0x69, 0x72, 0x3B], ''Fs''),
      (Guid 0x56EC3091 0x954C 0x11D2 [0x8E, 0x3F, 0x00, 0xA0, 0xC9, 0x69, 0x72, 0x3B], ''LdFile''),
      (Guid 0xAF6AC311 0x84C3 0x11D2 [0x8E, 0x3C, 0x00, 0xA0, 0xC9, 0x69, 0x72, 0x3B], ''DevIo''),
      (Guid 0x107A772C 0xD5E1 0x11D4 [0x9A, 0x46, 0x00, 0x90, 0x27, 0x3F, 0xC1, 0x4D], ''CName''),
      (Guid 0x6A7A5CFF 0xE8D9 0x4F70 [0xBA, 0xDA, 0x75, 0xAB, 0x30, 0x25, 0xCE, 0x14], ''CName2''),
      (Guid 0x09576E92 0x6D3F 0x11D2 [0x8E, 0x39, 0x00, 0xA0, 0xC9, 0x69, 0x72, 0x3B], ''FileInfo''),
      (Guid 0x09576E93 0x6D3F 0x11D2 [0x8E, 0x39, 0x00, 0xA0, 0xC9, 0x69, 0x72, 0x3B], ''FsInfo''),
      (Guid 0xDB47D7D3 0xFE81 0x11D3 [0x9A, 0x35, 0x00, 0x90, 0x27, 0x3F, 0xC1, 0x4D], ''FsVolInfo''),
      (Guid 0x1D85CD7F 0xF43D 0x11D2 [0x9A, 0x0C, 0x00, 0x90, 0x27, 0x3F, 0xC1, 0x4D], ''Unicode''),
      (Guid 0x376E5EB2 0x30E4 0x11D3 [0xBA, 0xE5, 0x00, 0x80, 0xC7, 0x3C, 0x88, 0x81], ''LegacyBoot''),
      (Guid 0xBB25CF6F 0xF1D4 0x11D2 [0x9A, 0x0C, 0x00, 0x90, 0x27, 0x3F, 0xC1, 0xFD], ''SerIo''),
      (Guid 0x0E3D6310 0x6FE4 0x11D3 [0xBB, 0x81, 0x00, 0x80, 0xC7, 0x3C, 0x88, 0x81], ''VgaClass''),
      (Guid 0xA19832B9 0xAC25 0x11D3 [0x9A, 0x2D, 0x00, 0x90, 0x27, 0x3F, 0xC1, 0x4D], ''Net''),
      (Guid 0xE18541CD 0xF755 0x4F73 [0x92, 0x8D, 0x64, 0x3C, 0x8A, 0x79, 0xB2, 0x29], ''Nii''),
      (Guid 0x03C4E603 0xAC28 0x11D3 [0x9A, 0x2D, 0x00, 0x90, 0x27, 0x3F, 0xC1, 0x4D], ''Pxe''),
      (Guid 0x245DCA21 0xFB7B 0x11D3 [0x8F, 0x01, 0x00, 0xA0, 0xC9, 0x69, 0x72, 0x3B], ''PxeCb''),
      (Guid 0x56D830A0 0x7E7A 0x11D3 [0xBB, 0xA0, 0x00, 0xA0, 0xC9, 0x69, 0x72, 0x3B], ''TxtOutSplit''),
      (Guid 0xF0BA9039 0x68F1 0x425E [0xAA, 0x7F, 0xD9, 0xAA, 0xF9, 0x1B, 0x82, 0xA1], ''ErrOutSplit''),
      (Guid 0xF9A3C550 0x7FB5 0x11D3 [0xBB, 0xA0, 0x00, 0xA0, 0xC9, 0x69, 0x72, 0x3B], ''TxtInSplit''),
      (Guid 0xE0C14753 0xF9BE 0x11D2 [0x9A, 0x0C, 0x00, 0x90, 0x27, 0x3F, 0xC1, 0x4D], ''PcAnsi''),
      (Guid 0xDFA66065 0xB419 0x11D3 [0x9A, 0x2D, 0x00, 0x90, 0x27, 0x3F, 0xC1, 0x4D], ''Vt100''),
      (Guid 0x7BAEC70B 0x57E0 0x4C76 [0x8E, 0x87, 0x2F, 0x9E, 0x28, 0x08, 0x83, 0x43], ''Vt100Plus''),
      (Guid 0xAD15A0D6 0x8BEC 0x4ACF [0xA0, 0x73, 0xD0, 0x1D, 0xE7, 0x7E, 0x2D, 0x88], ''VtUtf8''),
      (Guid 0xCF31FAC5 0xC24E 0x11D2 [0x85, 0xF3, 0x00, 0xA0, 0xC9, 0x3E, 0xC9, 0x3B], ''UnknownDev''),
      (Guid 0xC12A7328 0xF81F 0x11D2 [0xBA, 0x4B, 0x00, 0xA0, 0xC9, 0x3E, 0xC9, 0x3B], ''ESP''),
      (Guid 0x024DEE41 0x33E7 0x11D3 [0x9D, 0x69, 0x00, 0x08, 0xC7, 0x81, 0xF3, 0x9F], ''GPT MBR''),
      (Guid 0x47C7B223 0xC42A 0x11D2 [0x8E, 0x57, 0x00, 0xA0, 0xC9, 0x69, 0x72, 0x3B], ''ShellInt''),
      (Guid 0x47C7B224 0xC42A 0x11D2 [0x8E, 0x57, 0x00, 0xA0, 0xC9, 0x69, 0x72, 0x3B], ''SEnv''),
      (Guid 0x47C7B226 0xC42A 0x11D2 [0x8E, 0x57, 0x00, 0xA0, 0xC9, 0x69, 0x72, 0x3B], ''ShellProtId''),
      (Guid 0x47C7B225 0xC42A 0x11D2 [0x8E, 0x57, 0x00, 0xA0, 0xC9, 0x69, 0x72, 0x3B], ''ShellDevPathMap''),
      (Guid 0x47C7B227 0xC42A 0x11D2 [0x8E, 0x57, 0x00, 0xA0, 0xC9, 0x69, 0x72, 0x3B], ''ShellAlias'')]"

text \<open>\<open>SPrint\<close> into a scratch buffer; the formats used there have none of the four conversions.\<close>

definition no_texts :: "('f, 'z) texts" where
  "no_texts c a s = None"

definition no_pool :: POOL_PRINT where
  "no_pool = \<lparr>pp_str = 0, pp_len = 0, pp_maxlen = 0\<rparr>"

definition new_state :: "POINTER \<Rightarrow> u64 list \<Rightarrow> sink \<Rightarrow> POOL_PRINT \<Rightarrow> PRINT_STATE" where
  "new_state f va out spc = \<lparr>fmt = f, fmt_Index = 0, args = va, Pos = [], Len = 0, Attr = 0, RestoreAttr = 0, AttrNorm = 0,
     AttrHighlight = 0, AttrError = 0, Output = out, Context = spc, Scratch = []\<rparr>"

definition scratch_print ::
  "('f, 'y) print_uefi_scheme \<Rightarrow> u16 list \<Rightarrow> u64 list \<Rightarrow> ('f, 'z) efi_state_scheme \<Rightarrow> (u16 list \<times> ('f, 'z) efi_state_scheme) option" where
  "scratch_print sv f va s = do {
     (ps, s) \<leftarrow> Print_with sv no_texts (new_state (Lit f) va ToScratch no_pool) s;
     Some (Scratch ps, s)
   }"

definition GuidToString ::
  "('f, 'y) print_uefi_scheme \<Rightarrow> u64 \<Rightarrow> ('f, 'z) efi_state_scheme \<Rightarrow> (u16 list \<times> ('f, 'z) efi_state_scheme) option" where
  "GuidToString sv g s =
     (let m = mem s
      in case find (\<lambda>e. guid_value m g = fst e) KnownGuids of
           Some e \<Rightarrow> scratch_print sv (wlit (snd e)) [] s
         | None \<Rightarrow> scratch_print sv (wlit ''%08x-%04x-%04x-%02x%02x-%02x%02x%02x%02x%02x%02x'')
             ([ucast (read32 m g), ucast (read16 m (g + 4)), ucast (read16 m (g + 6))]
               @ map (\<lambda>k. ucast (m (g + 8 + of_nat k))) [0..<8]) s)"

text \<open>\<open>EFI_TIME\<close> has the year in two bytes, then month, day, hour and minute.\<close>

definition TimeToString ::
  "('f, 'y) print_uefi_scheme \<Rightarrow> u64 \<Rightarrow> ('f, 'z) efi_state_scheme \<Rightarrow> (u16 list \<times> ('f, 'z) efi_state_scheme) option" where
  "TimeToString sv Time s =
     (let m = mem s;
          hour24 = ucast (m (Time + 4)) :: u64;
          Hour = (if hour24 = 0 then 12 else if hour24 \<ge> 13 then hour24 - 12 else hour24);
          AmPm = (if hour24 \<ge> 12 then 112 else 97);
          Year = ucast (read16 m Time) mod 100
      in scratch_print sv (wlit ''%02d/%02d/%02d  %02d:%02d%c'')
           [ucast (m (Time + 2)), ucast (m (Time + 3)), Year, Hour, ucast (m (Time + 5)), AmPm] s)"

definition status_text ::
  "('f, 'y) print_uefi_scheme \<Rightarrow> u64 \<Rightarrow> ('f, 'z) efi_state_scheme \<Rightarrow> (u16 list \<times> ('f, 'z) efi_state_scheme) option" where
  "status_text sv Status s =
     (case StatusToString Status of Inl name \<Rightarrow> Some (wlit name, s) | Inr st \<Rightarrow> scratch_print sv (wlit ''%X'') [st] s)"

definition scratch_texts :: "('f, 'y) print_uefi_scheme \<Rightarrow> ('f, 'z) texts" where
  "scratch_texts sv c a s =
     (if c = 103 then GuidToString sv a s else if c = 116 then TimeToString sv a s else if c = 114 then status_text sv a s else None)"

text \<open>\<open>_PoolCatPrint\<close>: the tracked buffer after the text is added to it.\<close>

definition PoolCatPrint ::
  "('f, 'y) print_uefi_scheme \<Rightarrow> ('f, 'z) texts \<Rightarrow> POINTER \<Rightarrow> u64 list \<Rightarrow> POOL_PRINT \<Rightarrow> sink \<Rightarrow> ('f, 'z) efi_state_scheme
     \<Rightarrow> (POOL_PRINT \<times> ('f, 'z) efi_state_scheme) option" where
  "PoolCatPrint sv tx f va spc out s = do {
     (ps, s) \<leftarrow> Print_with sv tx (new_state f va out spc) s;
     Some (Context ps, s)
   }"

subsection \<open>What printing keeps\<close>

text \<open>An invariant of buffer and memory that holds over a flush, over one more character in the buffer and
  over the conversions holds over all printing. The buffer never has more than 199 characters.\<close>

lemma PFLUSH_Pos: "PFLUSH sv ps s = Some (ps', s') \<Longrightarrow> Pos ps' = []"
  by (auto simp: PFLUSH_def bind_eq_Some_conv split: prod.splits)

locale print_keeps =
  fixes sv :: "('f, 'y) print_uefi_scheme" and tx :: "('f, 'z) texts"
    and I :: "PRINT_STATE \<Rightarrow> ('f, 'z) efi_state_scheme \<Rightarrow> bool"
  assumes frame: "I ps s \<Longrightarrow> Pos ps' = Pos ps \<Longrightarrow> Output ps' = Output ps \<Longrightarrow> Context ps' = Context ps
      \<Longrightarrow> Scratch ps' = Scratch ps \<Longrightarrow> mem s' = mem s \<Longrightarrow> I ps' s'"
    and push: "I ps s \<Longrightarrow> I (ps\<lparr>Pos := Pos ps @ [c]\<rparr>) s"
    and flush: "I ps s \<Longrightarrow> length (Pos ps) \<le> 199 \<Longrightarrow> PFLUSH sv ps s = Some (ps', s') \<Longrightarrow> I ps' s'"
    and conversion: "tx c a s = Some (t, s') \<Longrightarrow> I ps s \<Longrightarrow> I ps s'"
begin

definition J :: "PRINT_STATE \<Rightarrow> ('f, 'z) efi_state_scheme \<Rightarrow> bool" where
  "J ps s \<longleftrightarrow> I ps s \<and> length (Pos ps) < 199"

lemma J_frame: "J ps s \<Longrightarrow> Pos ps' = Pos ps \<Longrightarrow> Output ps' = Output ps \<Longrightarrow> Context ps' = Context ps
    \<Longrightarrow> Scratch ps' = Scratch ps \<Longrightarrow> mem s' = mem s \<Longrightarrow> J ps' s'"
  unfolding J_def using frame by metis

lemma J_flush: "J ps s \<Longrightarrow> PFLUSH sv ps s = Some (ps', s') \<Longrightarrow> J ps' s'"
  unfolding J_def using flush PFLUSH_Pos by fastforce

lemma J_put_char:
  assumes "J ps s" "put_char sv c ps s = Some (ps', s')"
  shows "J ps' s'"
proof -
  let ?p = "ps\<lparr>Pos := Pos ps @ [c], Len := Len ps + 1\<rparr>"
  have "I (ps\<lparr>Pos := Pos ps @ [c]\<rparr>) s" using assms(1) by (auto simp: J_def intro: push)
  then have i: "I ?p s" by (rule frame) simp_all
  have l: "length (Pos ?p) \<le> 199" using assms(1) by (simp add: J_def)
  show ?thesis
  proof (cases "length (Pos ?p) \<ge> 199")
    case True
    then have "PFLUSH sv ?p s = Some (ps', s')" using assms(2) by (simp add: put_char_def PRINT_STRING_LEN_def Let_def)
    then show ?thesis using flush [OF i l] PFLUSH_Pos by (fastforce simp: J_def)
  next
    case False
    then have "ps' = ?p" "s' = s" using assms(2) by (simp_all add: put_char_def PRINT_STRING_LEN_def Let_def)
    then show ?thesis using i False by (simp add: J_def)
  qed
qed

lemma J_PPUTC: "J ps s \<Longrightarrow> PPUTC sv c ps s = Some (ps', s') \<Longrightarrow> J ps' s'"
  by (auto simp: PPUTC_def bind_eq_Some_conv split: if_splits intro: J_put_char)

lemma J_put_pad: "J ps s \<Longrightarrow> put_pad sv n c ps s = Some (ps', s') \<Longrightarrow> J ps' s'"
  by (induction n arbitrary: ps s) (auto simp: bind_eq_Some_conv intro: J_PPUTC)

lemma J_put_item: "J ps s \<Longrightarrow> put_item sv n p i ps s = Some (ps', s') \<Longrightarrow> J ps' s'"
proof (induction n arbitrary: i ps s)
  case (Suc n)
  then obtain c ps1 s1 where "PPUTC sv c ps s = Some (ps1, s1)" "put_item sv n p (i + 1) ps1 s1 = Some (ps', s')"
    by (auto simp: bind_eq_Some_conv)
  then show ?case using Suc.IH J_PPUTC [OF Suc.prems(1)] by blast
qed simp

lemma J_padded:
  "J ps s \<Longrightarrow> (if b then put_pad sv n c ps s else Some (ps, s)) = Some (ps', s') \<Longrightarrow> J ps' s'"
  by (auto split: if_splits intro: J_put_pad)

lemma J_PITEM:
  assumes "J ps s" "PITEM sv p Item ps s = Some (ps', s')"
  shows "J ps' s'"
proof -
  obtain len where l: "item_len (mem s) p (it_FieldWidth Item) 0 = Some len"
    using assms(2) by (auto simp: PITEM_def bind_eq_Some_conv)
  define n where "n = unat (if it_FieldWidth Item = - 1 then len else it_FieldWidth Item)
    - unat (if len > it_Width Item then len else it_Width Item)"
  define k where "k = unat (if len > it_Width Item then len else it_Width Item) - unat len"
  have e: "PITEM sv p Item ps s = do {
      (ps, s) \<leftarrow> (if PadBefore Item then put_pad sv n 32 ps s else Some (ps, s));
      (ps, s) \<leftarrow> put_pad sv k (Pad Item) ps s;
      (ps, s) \<leftarrow> put_item sv (unat len) p 0 ps s;
      if \<not> PadBefore Item then put_pad sv n 32 ps s else Some (ps, s)
    }" by (simp only: PITEM_def l Let_def bind.bind_lunit n_def k_def)
  obtain ps1 s1 where 1: "(if PadBefore Item then put_pad sv n 32 ps s else Some (ps, s)) = Some (ps1, s1)"
    using assms(2) unfolding e by (cases "if PadBefore Item then put_pad sv n 32 ps s else Some (ps, s)") auto
  obtain ps2 s2 where 2: "put_pad sv k (Pad Item) ps1 s1 = Some (ps2, s2)"
    using assms(2) unfolding e 1 by (cases "put_pad sv k (Pad Item) ps1 s1") auto
  obtain ps3 s3 where 3: "put_item sv (unat len) p 0 ps2 s2 = Some (ps3, s3)"
    using assms(2) unfolding e 1 using 2 by (cases "put_item sv (unat len) p 0 ps2 s2") auto
  have 4: "(if \<not> PadBefore Item then put_pad sv n 32 ps3 s3 else Some (ps3, s3)) = Some (ps', s')"
    using assms(2) unfolding e 1 using 2 3 by simp
  show ?thesis by (rule J_padded [OF J_put_item [OF J_put_pad [OF J_padded [OF assms(1) 1] 2] 3] 4])
qed

lemma J_PSETATTR:
  assumes "J ps s" "PSETATTR sv a ps s = Some (ps', s')"
  shows "J ps' s'"
proof -
  obtain ps1 s1 where f: "PFLUSH sv ps s = Some (ps1, s1)" "ps' = ps1\<lparr>RestoreAttr := Attr ps1, Attr := a\<rparr>" "mem s' = mem s1"
  proof -
    obtain ps1 s1 where "PFLUSH sv ps s = Some (ps1, s1)" using assms(2) by (cases "PFLUSH sv ps s") (auto simp: PSETATTR_def)
    then show ?thesis using assms(2) that by (cases "Output ps1") (auto simp: PSETATTR_def Let_def)
  qed
  show ?thesis by (rule J_frame [OF J_flush [OF assms(1) f(1)]]) (simp_all add: f)
qed

lemma J_PGETC: "J ps s \<Longrightarrow> PGETC m ps = Some (c, ps') \<Longrightarrow> J ps' s"
  by (rule J_frame [of ps s]) (auto simp: PGETC_def bind_eq_Some_conv)

lemma J_va_arg: "J ps s \<Longrightarrow> va_arg ps = Some (a, ps') \<Longrightarrow> J ps' s"
  by (rule J_frame [of ps s]) (auto simp: va_arg_def split: list.splits)

lemma J_conversion: "J ps s \<Longrightarrow> tx c a s = Some (t, s') \<Longrightarrow> J ps s'"
  using conversion by (auto simp: J_def)

lemma J_width_loop:
  assumes "width_loop m c Item ps = Some (Item', ps')" "J ps s"
  shows "J ps' s"
proof -
  have "\<forall>Item' ps'. r = (Item', ps') \<longrightarrow> J ps s \<longrightarrow> J ps' s" if "width_loop m c Item ps = Some r" for r
    using that
  proof (induction rule: width_loop.raw_induct [rotated, consumes 1, case_names step])
    case (step wl m c Item ps r)
    let ?Item = "set_width (parsed_width Item * 10 + ucast c - 48) Item"
    from step.hyps obtain c1 ps1 where g: "PGETC m ps = Some (c1, ps1)" by (auto simp: bind_eq_Some_conv Let_def)
    show ?case
    proof (cases "48 \<le> c1 \<and> c1 \<le> 57")
      case True
      then have "wl m c1 ?Item ps1 = Some r" using step.hyps g by (simp add: Let_def)
      then show ?thesis using step.IH J_PGETC [OF _ g] by blast
    next
      case False
      then have "r = (?Item, ps1\<lparr>fmt_Index := fmt_Index ps1 - 1\<rparr>)" using step.hyps g by (auto simp: Let_def)
      moreover have "J ps1 s \<Longrightarrow> J (ps1\<lparr>fmt_Index := fmt_Index ps1 - 1\<rparr>) s" by (erule J_frame) simp_all
      ultimately show ?thesis using J_PGETC [OF _ g] by auto
    qed
  qed
  then show ?thesis using assms by blast
qed

lemma J_directive:
  "directive sv tx c Item a ps s = Some (Item', a', ps', s') \<Longrightarrow> J ps s \<Longrightarrow> J ps' s'"
  unfolding directive_def
  by (auto simp: bind_eq_Some_conv Let_def split: if_splits
      dest: J_va_arg J_PSETATTR J_conversion J_width_loop)

lemma J_directive_loop:
  assumes "directive_loop sv tx Item a ps s = Some (ps', s')" "J ps s"
  shows "J ps' s'"
proof -
  have "sv0 = sv \<longrightarrow> tx0 = tx \<longrightarrow> J ps s \<longrightarrow> J (fst r) (snd r)" if "directive_loop sv0 tx0 Item a ps s = Some r" for sv0 tx0 r
    using that
  proof (induction rule: directive_loop.raw_induct [rotated, consumes 1, case_names step])
    case (step dl sv0 tx0 Item a ps s r)
    show ?case
    proof (intro impI)
      assume e: "sv0 = sv" "tx0 = tx" and j: "J ps s"
      from step.hyps obtain c ps1 where g: "PGETC (mem s) ps = Some (c, ps1)" by (auto simp: bind_eq_Some_conv)
      have j1: "J ps1 s" by (rule J_PGETC [OF j g])
      show "J (fst r) (snd r)"
      proof (cases "c = 0")
        case True
        then show ?thesis using step.hyps g j1 by auto
      next
        case False
        then obtain Item1 a1 ps2 s2 where d: "directive sv tx c Item a ps1 s = Some (Item1, a1, ps2, s2)"
          using step.hyps g e by (auto simp: bind_eq_Some_conv)
        have j2: "J ps2 s2" by (rule J_directive [OF d j1])
        note r = step.hyps [unfolded e g, simplified, simplified False d, simplified]
        show ?thesis
        proof (cases "it_pw Item1")
          case (Some p)
          then show ?thesis using r J_PITEM [OF j2] by (cases r) simp
        next
          case None
          note n = this
          show ?thesis
          proof (cases "a1 = 0")
            case True
            then have "dl sv tx Item1 a1 ps2 s2 = Some r" using r n by simp
            then show ?thesis using step.IH j2 by blast
          next
            case False
            then obtain ps3 s3 where "PSETATTR sv a1 ps2 s2 = Some (ps3, s3)" "r = (ps3\<lparr>RestoreAttr := 0\<rparr>, s3)"
              using r n by (auto simp: bind_eq_Some_conv)
            then show ?thesis using J_frame [OF J_PSETATTR [OF j2]] by auto
          qed
        qed
      qed
    qed
  qed
  then show ?thesis using assms by fastforce
qed

lemma J_print_loop:
  assumes "print_loop sv tx ps s = Some (ps', s')" "J ps s"
  shows "J ps' s'"
proof -
  have "sv0 = sv \<longrightarrow> tx0 = tx \<longrightarrow> J ps s \<longrightarrow> J (fst r) (snd r)" if "print_loop sv0 tx0 ps s = Some r" for sv0 tx0 r
    using that
  proof (induction rule: print_loop.raw_induct [rotated, consumes 1, case_names step])
    case (step pl sv0 tx0 ps s r)
    show ?case
    proof (intro impI)
      assume e: "sv0 = sv" "tx0 = tx" and j: "J ps s"
      from step.hyps obtain c ps1 where g: "PGETC (mem s) ps = Some (c, ps1)" by (auto simp: bind_eq_Some_conv)
      have j1: "J ps1 s" by (rule J_PGETC [OF j g])
      consider "c = 0" | "c \<noteq> 0" "c \<noteq> 37" | "c = 37" by blast
      then show "J (fst r) (snd r)"
      proof cases
        case 1
        then show ?thesis using step.hyps g j1 by auto
      next
        case 2
        then obtain ps2 s2 where "PPUTC sv c ps1 s = Some (ps2, s2)" "pl sv tx ps2 s2 = Some r"
          using step.hyps g e by (auto simp: bind_eq_Some_conv)
        then show ?thesis using step.IH J_PPUTC [OF j1] by blast
      next
        case 3
        then obtain ps2 s2 ps3 s3 where d: "directive_loop sv tx new_item 0 (ps1\<lparr>RestoreAttr := 0\<rparr>) s = Some (ps2, s2)"
            "(if RestoreAttr ps2 \<noteq> 0 then PSETATTR sv (RestoreAttr ps2) ps2 s2 else Some (ps2, s2)) = Some (ps3, s3)"
            "pl sv tx ps3 s3 = Some r"
        proof -
          obtain ps2 s2 where "directive_loop sv tx new_item 0 (ps1\<lparr>RestoreAttr := 0\<rparr>) s = Some (ps2, s2)"
            using step.hyps g e 3 by (auto simp: bind_eq_Some_conv)
          then show ?thesis using step.hyps g e 3 that
            by (cases "if RestoreAttr ps2 \<noteq> 0 then PSETATTR sv (RestoreAttr ps2) ps2 s2 else Some (ps2, s2)") auto
        qed
        have "J (ps1\<lparr>RestoreAttr := 0\<rparr>) s" by (rule J_frame [OF j1]) simp_all
        then have "J ps2 s2" by (rule J_directive_loop [OF d(1)])
        then have "J ps3 s3" using d(2) J_PSETATTR by (auto split: if_splits)
        then show ?thesis using step.IH d(3) by blast
      qed
    qed
  qed
  then show ?thesis using assms by fastforce
qed

lemma Print_keeps:
  assumes "I (ps\<lparr>Len := 0, Pos := [], fmt_Index := 0\<rparr>) s" "Print_with sv tx ps s = Some (ps', s')"
  shows "I ps' s'"
proof -
  have j: "J (ps\<lparr>Len := 0, Pos := [], fmt_Index := 0\<rparr>) s" using assms(1) by (simp add: J_def)
  obtain ps1 s1 where p: "print_loop sv tx (ps\<lparr>Len := 0, Pos := [], fmt_Index := 0\<rparr>) s = Some (ps1, s1)"
      "PFLUSH sv ps1 s1 = Some (ps', s')"
    using assms(2) by (auto simp: Print_with_def bind_eq_Some_conv)
  show ?thesis using J_flush [OF J_print_loop [OF p(1) j] p(2)] by (simp add: J_def)
qed

end

lemma write_chars_outside:
  "2 * length cs < 2 ^ 64 \<Longrightarrow> b \<notin> region a (2 * length cs) \<Longrightarrow> write_chars a cs m b = m b"
proof (induction cs arbitrary: a m)
  case (Cons c cs)
  have r: "region a (2 * length cs + 2) = region a 2 \<union> region (a + 2) (2 * length cs)"
    by (rule region_Suc2) (use Cons.prems(1) in simp)
  have "b \<notin> region a 2" "b \<notin> region (a + 2) (2 * length cs)" using Cons.prems(2) r by auto
  then show ?case using Cons by (simp add: write16_outside)
qed simp

lemma sprint_out_within:
  assumes "sprint_out spc Buf m = Some (spc', m')" "length Buf \<le> 199"
    and "unat (pp_len spc) \<le> unat (pp_maxlen spc)" "unat (pp_maxlen spc) < 2 ^ 62"
  shows "pp_str spc' = pp_str spc \<and> pp_maxlen spc' = pp_maxlen spc \<and> unat (pp_len spc') \<le> unat (pp_maxlen spc)
    \<and> (\<forall>b. b \<notin> region (pp_str spc) (2 * unat (pp_maxlen spc) + 2) \<longrightarrow> m' b = m b)"
proof -
  let ?n = "unat (pp_maxlen spc)" and ?k = "unat (pp_len spc)" and ?a = "pp_str spc"
  let ?R = "region ?a (2 * ?n + 2)"
  let ?l0 = "strlen_w Buf"
  have l0: "unat ?l0 \<le> 199"
  proof -
    have "length (takeWhile (\<lambda>c. c \<noteq> 0) Buf) \<le> 199" using assms(2) length_takeWhile_le order_trans by blast
    moreover from this have "unat ?l0 = length (takeWhile (\<lambda>c. c \<noteq> 0) Buf)" unfolding strlen_w_def by (intro unat_of_nat_lt) simp
    ultimately show ?thesis by simp
  qed
  have sum: "unat (pp_len spc + ?l0) = ?k + unat ?l0"
    using assms(3,4) l0 by (intro unat_add_no_wrap) simp
  define len where "len = (if pp_len spc + ?l0 > pp_maxlen spc then pp_maxlen spc - pp_len spc else ?l0)"
  have len: "?k + unat len \<le> ?n"
    using assms(3) sum by (auto simp: len_def word_less_nat_alt word_le_nat_alt unat_sub_le)
  define m1 where "m1 = write_chars (?a + 2 * pp_len spc) (take (unat len) Buf) m"
  define spc1 where "spc1 = spc\<lparr>pp_len := pp_len spc + len\<rparr>"
  have r: "unat len \<le> length Buf" "spc' = spc1" "m' = (if pp_len spc1 < pp_maxlen spc1 then write16 m1 (?a + 2 * pp_len spc1) 0
      else if pp_maxlen spc1 \<noteq> 0 then write16 m1 (?a + 2 * pp_maxlen spc1) 0 else m1)"
    using assms(1) by (auto simp: sprint_out_def Let_def len_def [symmetric] m1_def spc1_def split: if_splits)
  have k1: "unat (pp_len spc1) = ?k + unat len"
    unfolding spc1_def using len assms(4) by (simp add: unat_add_no_wrap)
  have at: "?a + 2 * w = ?a + of_nat (2 * unat w)" for w :: u64 by simp
  have m1: "m1 b = m b" if "b \<notin> ?R" for b
  proof -
    have "region (?a + of_nat (2 * ?k)) (2 * length (take (unat len) Buf)) \<subseteq> ?R"
      using len r(1) assms(4) by (intro region_off_sub) simp_all
    then show ?thesis unfolding m1_def at using that r(1) assms(2) by (intro write_chars_outside) auto
  qed
  have sub: "region (?a + of_nat (2 * j)) 2 \<subseteq> ?R" if "j \<le> ?n" for j
    using that assms(4) by (intro region_off_sub) simp_all
  have "m' b = m b" if b: "b \<notin> ?R" for b
  proof -
    have "b \<notin> region (?a + 2 * pp_len spc1) 2" "b \<notin> region (?a + 2 * pp_maxlen spc1) 2"
      unfolding at using sub [of "unat (pp_len spc1)"] sub [of ?n] k1 len b by (auto simp: spc1_def)
    then show ?thesis using m1 [OF b] r(3) by (auto simp: write16_outside)
  qed
  then show ?thesis using r(2) k1 len by (simp add: spc1_def)
qed

text \<open>Printing into a scratch buffer leaves memory alone.\<close>

definition in_scratch :: "memory \<Rightarrow> PRINT_STATE \<Rightarrow> ('f, 'z) efi_state_scheme \<Rightarrow> bool" where
  "in_scratch m ps s \<longleftrightarrow> Output ps = ToScratch \<and> mem s = m"

lemma PFLUSH_scratch:
  assumes "Output ps = ToScratch"
  shows "PFLUSH sv ps s = (let t = Scratch ps @ takeWhile (\<lambda>c. c \<noteq> 0) (Pos ps)
    in if length t < PRINT_ITEM_BUFFER_LEN then Some (ps\<lparr>Scratch := t, Pos := []\<rparr>, s) else None)"
  by (simp add: PFLUSH_def assms Let_def)

interpretation scratch_sink: print_keeps sv no_texts "in_scratch m"
  for sv :: "('f, 'y) print_uefi_scheme" and m
proof unfold_locales
  show "in_scratch m ps s \<Longrightarrow> length (Pos ps) \<le> 199 \<Longrightarrow> PFLUSH sv ps s = Some (ps', s') \<Longrightarrow> in_scratch m ps' s'"
    for ps ps' :: PRINT_STATE and s s' :: "('f, 'b) efi_state_scheme"
    by (auto simp: in_scratch_def PFLUSH_scratch Let_def split: if_splits)
qed (simp_all add: in_scratch_def no_texts_def)

lemma scratch_print_mem: "scratch_print sv f va s = Some (t, s') \<Longrightarrow> mem s' = mem s"
  using scratch_sink.Print_keeps [of "mem s" "new_state (Lit f) va ToScratch no_pool" s sv]
  by (auto simp: scratch_print_def bind_eq_Some_conv new_state_def in_scratch_def)

lemma scratch_texts_mem: "scratch_texts sv c a s = Some (t, s') \<Longrightarrow> mem s' = mem s"
  by (auto simp: scratch_texts_def GuidToString_def TimeToString_def status_text_def Let_def
      split: if_splits option.splits sum.splits dest: scratch_print_mem)

text \<open>Printing into a buffer stays in the buffer; what conversions may write to is \<open>P\<close>.\<close>

definition writes_within :: "u64 set \<Rightarrow> ('f, 'z) texts \<Rightarrow> bool" where
  "writes_within P tx \<longleftrightarrow> (\<forall>c a s t s'. tx c a s = Some (t, s') \<longrightarrow> (\<forall>b. b \<notin> P \<longrightarrow> mem s' b = mem s b))"

definition in_buffer :: "u64 set \<Rightarrow> u64 \<Rightarrow> u64 \<Rightarrow> memory \<Rightarrow> PRINT_STATE \<Rightarrow> ('f, 'z) efi_state_scheme \<Rightarrow> bool" where
  "in_buffer P str n m ps s \<longleftrightarrow> Output ps = ToString \<and> pp_str (Context ps) = str \<and> pp_maxlen (Context ps) = n
     \<and> unat (pp_len (Context ps)) \<le> unat n \<and> unat n < 2 ^ 62
     \<and> (\<forall>b. b \<notin> region str (2 * unat n + 2) \<union> P \<longrightarrow> mem s b = m b)"

lemma in_buffer_flush:
  assumes "in_buffer P str n m ps s" "length (Pos ps) \<le> 199" "PFLUSH sv ps s = Some (ps', s')"
  shows "in_buffer P str n m ps' s'"
proof -
  obtain spc m' where o: "sprint_out (Context ps) (Pos ps) (mem s) = Some (spc, m')"
      "ps' = ps\<lparr>Context := spc, Pos := []\<rparr>" "s' = s\<lparr>mem := m'\<rparr>"
    using assms(1,3) by (auto simp: PFLUSH_def in_buffer_def bind_eq_Some_conv)
  show ?thesis using sprint_out_within [OF o(1) assms(2)] assms(1) by (auto simp: in_buffer_def o(2,3))
qed

lemma print_keeps_buffer:
  assumes "writes_within P tx"
  shows "print_keeps sv tx (in_buffer P str n m)"
proof unfold_locales
  show "tx c a s = Some (t, s') \<Longrightarrow> in_buffer P str n m ps s \<Longrightarrow> in_buffer P str n m ps s'" for c a s t s' ps
    using assms by (simp add: in_buffer_def writes_within_def)
qed (rule in_buffer_flush; assumption | simp add: in_buffer_def)+

lemma scratch_texts_within: "writes_within {} (scratch_texts sv)"
  by (simp add: writes_within_def scratch_texts_mem)

interpretation buffer_sink: print_keeps sv "scratch_texts sv" "in_buffer {} str n m"
  for sv :: "('f, 'y) print_uefi_scheme" and str n m
  by (rule print_keeps_buffer [OF scratch_texts_within])

text \<open>The size is in bytes; a size of 0 or 1 is no limit.\<close>

definition VSPrint_with ::
  "('f, 'y) print_uefi_scheme \<Rightarrow> ('f, 'z) texts \<Rightarrow> u64 \<Rightarrow> u64 \<Rightarrow> POINTER \<Rightarrow> u64 list \<Rightarrow> ('f, 'z) efi_state_scheme
     \<Rightarrow> (u64 \<times> ('f, 'z) efi_state_scheme) option" where
  "VSPrint_with sv tx Str bufSize f va s = do {
     (spc, s) \<leftarrow> PoolCatPrint sv tx f va \<lparr>pp_str = Str, pp_len = 0, pp_maxlen = bufSize div 2 - 1\<rparr> ToString s;
     Some (pp_len spc, s)
   }"

subsection \<open>What is printed\<close>

text \<open>While the buffer has room, characters are only gathered.\<close>

definition emit :: "u16 list \<Rightarrow> PRINT_STATE \<Rightarrow> PRINT_STATE" where
  "emit cs ps = ps\<lparr>Pos := Pos ps @ cs, Len := Len ps + of_nat (length cs)\<rparr>"

lemma emit_simps [simp]:
  "emit [] ps = ps" "emit ds (emit cs ps) = emit (cs @ ds) ps" "Pos (emit cs ps) = Pos ps @ cs"
  "fmt (emit cs ps) = fmt ps" "fmt_Index (emit cs ps) = fmt_Index ps" "args (emit cs ps) = args ps"
  "RestoreAttr (emit cs ps) = RestoreAttr ps"
  by (simp_all add: emit_def add.assoc)

definition crlf :: "u16 \<Rightarrow> u16 list" where
  "crlf c = (if c = 10 then [13, 10] else [c])"

lemma put_char_room: "length (Pos ps) < 198 \<Longrightarrow> put_char sv c ps s = Some (emit [c] ps, s)"
  by (simp add: put_char_def PRINT_STRING_LEN_def emit_def Let_def)

lemma PPUTC_room: "length (Pos ps) + length (crlf c) < 199 \<Longrightarrow> PPUTC sv c ps s = Some (emit (crlf c) ps, s)"
  by (auto simp: PPUTC_def crlf_def put_char_room split: if_splits)

lemma put_pad_room:
  "c \<noteq> 10 \<Longrightarrow> length (Pos ps) + n < 199 \<Longrightarrow> put_pad sv n c ps s = Some (emit (replicate n c) ps, s)"
  by (induction n arbitrary: ps) (simp_all add: PPUTC_room crlf_def)

lemma put_item_room:
  "unat i + n \<le> length cs \<Longrightarrow> 10 \<notin> set cs \<Longrightarrow> length cs < 2 ^ 63 \<Longrightarrow> length (Pos ps) + n < 199 \<Longrightarrow>
     put_item sv n (Lit cs) i ps s = Some (emit (take n (drop (unat i) cs)) ps, s)"
proof (induction n arbitrary: i ps)
  case (Suc n)
  have i: "unat i < length cs" using Suc.prems(1) by simp
  have n: "cs ! unat i \<noteq> 10" using i Suc.prems(2) nth_mem by metis
  have s: "unat (i + 1) = Suc (unat i)" using unat_add_of_nat [of i 1] i Suc.prems(3) by simp
  have "drop (unat i) cs = cs ! unat i # drop (Suc (unat i)) cs" using i by (simp add: Cons_nth_drop_Suc)
  then show ?case using Suc.IH [of "i + 1" "emit [cs ! unat i] ps"] Suc.prems i n by (simp add: PPUTC_room crlf_def s)
qed simp

lemma item_len_lit:
  "0 \<notin> set cs \<Longrightarrow> length cs < 2 ^ 63 \<Longrightarrow> unat i \<le> min (length cs) (unat w) \<Longrightarrow>
     item_len m (Lit cs) w i = Some (of_nat (min (length cs) (unat w)))"
proof (induction "min (length cs) (unat w) - unat i" arbitrary: i)
  case 0
  then have e: "unat i = min (length cs) (unat w)" by simp
  then have i: "i = of_nat (min (length cs) (unat w))" by (metis of_nat_unat ucast_id)
  show ?case
  proof (cases "unat i < unat w")
    case True
    then have "unat i = length cs" using e by simp
    then show ?thesis using True i by (subst item_len.simps) (simp add: word_less_nat_alt)
  next
    case False
    then show ?thesis using i by (subst item_len.simps) (simp add: word_less_nat_alt)
  qed
next
  case (Suc k)
  then have l: "unat i < length cs" "unat i < unat w" by simp_all
  have s: "unat (i + 1) = Suc (unat i)" using unat_add_of_nat [of i 1] l(1) Suc.prems(2) by simp
  have "cs ! unat i \<noteq> 0" using l(1) Suc.prems(1) nth_mem by metis
  then show ?case using Suc.hyps(1) [of "i + 1"] Suc.prems Suc.hyps(2) l s
    by (subst item_len.simps) (simp add: word_less_nat_alt)
qed

text \<open>An item without a field width: filled up to its width.\<close>

definition filled :: "nat \<Rightarrow> u16 \<Rightarrow> u16 list \<Rightarrow> u16 list" where
  "filled w c cs = replicate (w - length cs) c @ cs"

lemma PITEM_room:
  assumes "0 \<notin> set cs" "10 \<notin> set cs" "Pad Item \<noteq> 10" "length cs < 199" "it_FieldWidth Item = - 1"
    and "length (Pos ps) + length (filled (unat (it_Width Item)) (Pad Item) cs) < 199"
  shows "PITEM sv (Lit cs) Item ps s = Some (emit (filled (unat (it_Width Item)) (Pad Item) cs) ps, s)"
proof -
  have "unat (- 1 :: u64) = 2 ^ 64 - 1" by (simp add: unsigned_minus_1_eq_mask mask_eq_exp_minus_1)
  then have l: "item_len (mem s) (Lit cs) (- 1) 0 = Some (of_nat (length cs))"
    using item_len_lit [of cs 0 "- 1"] assms(1,4) by (simp add: min_def)
  have u: "unat (of_nat (length cs) :: u64) = length cs" using assms(4) by (intro unat_of_nat_lt) simp
  let ?W = "if of_nat (length cs) > it_Width Item then of_nat (length cs) else it_Width Item"
  have W: "unat ?W = max (length cs) (unat (it_Width Item))" by (auto simp: u word_less_nat_alt)
  have z: "unat (of_nat (length cs) :: u64) - unat ?W = 0" "unat ?W - unat (of_nat (length cs) :: u64) = unat (it_Width Item) - length cs"
    unfolding W u by simp_all
  have f: "length (filled (unat (it_Width Item)) (Pad Item) cs) = (unat (it_Width Item) - length cs) + length cs"
    by (simp add: filled_def)
  define k where "k = unat (it_Width Item) - length cs"
  have "PITEM sv (Lit cs) Item ps s = do {
      (ps, s) \<leftarrow> (if PadBefore Item then put_pad sv 0 32 ps s else Some (ps, s));
      (ps, s) \<leftarrow> put_pad sv k (Pad Item) ps s;
      (ps, s) \<leftarrow> put_item sv (length cs) (Lit cs) 0 ps s;
      if \<not> PadBefore Item then put_pad sv 0 32 ps s else Some (ps, s)
    }" by (simp only: PITEM_def assms(5) l Let_def bind.bind_lunit simp_thms if_True u z [unfolded u] k_def)
  then show ?thesis
    using assms by (simp add: put_pad_room put_item_room filled_def k_def)
qed

text \<open>The pieces of a format: a character, or a directive with its flags, its width and a conversion.\<close>

datatype piece = Chr u16 | Dir (zero_flag: bool) (comma_flag: bool) (digits: "u16 list") (long_flag: bool) (conv: u16)

fun enc :: "piece \<Rightarrow> u16 list" where
  "enc (Chr c) = [c]"
| "enc (Dir z k ds l v) = [37] @ (if z then [48] else []) @ (if k then [44] else []) @ ds @ (if l then [108] else []) @ [v]"

definition width_of :: "u16 list \<Rightarrow> u64" where
  "width_of ds = fold (\<lambda>c w. w * 10 + ucast c - 48) ds 0"

definition conv_text :: "u16 \<Rightarrow> bool \<Rightarrow> bool \<Rightarrow> u64 \<Rightarrow> u16 list" where
  "conv_text v k l a =
     (if v = 120 then ValueToHex (arg_u l a)
      else if v = 117 then ValueToString k (arg_u l a)
      else if v = 100 then ValueToString k (arg_d l a)
      else [ucast a])"

fun piece_ok :: "piece \<Rightarrow> bool" where
  "piece_ok (Chr c) \<longleftrightarrow> c \<noteq> 0 \<and> c \<noteq> 37"
| "piece_ok (Dir z k ds l v) \<longleftrightarrow> v \<in> {120, 117, 100, 99} \<and> (\<forall>d \<in> set ds. 48 \<le> d \<and> d \<le> 57) \<and> (ds \<noteq> [] \<longrightarrow> hd ds \<noteq> 48)"

text \<open>The text of the pieces: a directive takes an argument, whose text must be free of zeros and newlines.\<close>

fun render :: "piece list \<Rightarrow> u64 list \<Rightarrow> u16 list option" where
  "render [] va = Some []"
| "render (Chr c # ps) va = map_option ((@) (crlf c)) (render ps va)"
| "render (Dir z k ds l v # ps) [] = None"
| "render (Dir z k ds l v # ps) (a # va) =
     (let t = conv_text v k l a
      in if 0 \<in> set t \<or> 10 \<in> set t then None
         else map_option ((@) (filled (unat (width_of ds)) (if z then 48 else 32) t)) (render ps va))"

definition reads :: "PRINT_STATE \<Rightarrow> u16 list \<Rightarrow> u16 list \<Rightarrow> bool" where
  "reads ps f r \<longleftrightarrow> fmt ps = Lit f \<and> length f < 2 ^ 63 \<and> unat (fmt_Index ps) \<le> length f \<and> drop (unat (fmt_Index ps)) f = r"

lemma PGETC_reads:
  assumes "reads ps f (c # r)"
  shows "PGETC m ps = Some (c, ps\<lparr>fmt_Index := fmt_Index ps + 1\<rparr>)" "reads (ps\<lparr>fmt_Index := fmt_Index ps + 1\<rparr>) f r"
proof -
  let ?n = "unat (fmt_Index ps)"
  have d: "drop ?n f = c # r" and f: "fmt ps = Lit f" "length f < 2 ^ 63" using assms by (simp_all add: reads_def)
  have l: "?n < length f" by (rule ccontr) (use d in simp)
  have "f ! ?n = c" by (rule nth_via_drop [OF d])
  then show "PGETC m ps = Some (c, ps\<lparr>fmt_Index := fmt_Index ps + 1\<rparr>)" using l f by (simp add: PGETC_def)
  have "unat (fmt_Index ps + 1) = Suc ?n" using unat_add_of_nat [of "fmt_Index ps" 1] l f by simp
  moreover have "drop (Suc ?n) f = r" using d by (simp add: drop_Suc flip: tl_drop)
  ultimately show "reads (ps\<lparr>fmt_Index := fmt_Index ps + 1\<rparr>) f r" using f l by (simp add: reads_def)
qed

lemma PGETC_end: "reads ps f [] \<Longrightarrow> PGETC m ps = Some (0, ps\<lparr>fmt_Index := fmt_Index ps + 1\<rparr>)"
  by (simp add: PGETC_def reads_def)

abbreviation at_index :: "u64 \<Rightarrow> PRINT_STATE \<Rightarrow> PRINT_STATE" where
  "at_index i ps \<equiv> ps\<lparr>fmt_Index := i\<rparr>"

text \<open>Characters of a directive that only change the item.\<close>

lemma directive_flag:
  assumes "reads ps f (c # r)" "c \<noteq> 0" "it_pw Item' = None"
    and "\<And>ps s. directive sv tx c Item 0 ps s = Some (Item', 0, ps, s)"
  shows "\<exists>i. directive_loop sv tx Item 0 ps s = directive_loop sv tx Item' 0 (at_index i ps) s \<and> reads (at_index i ps) f r"
  using PGETC_reads [OF assms(1)] assms(2-4) by (subst directive_loop.simps) auto

lemma directive_option:
  assumes "reads ps f ((if b then [c] else []) @ r)" "c \<noteq> 0" "it_pw Item' = None" "\<not> b \<Longrightarrow> Item' = Item"
    and "\<And>ps s. b \<Longrightarrow> directive sv tx c Item 0 ps s = Some (Item', 0, ps, s)"
  shows "\<exists>i. directive_loop sv tx Item 0 ps s = directive_loop sv tx Item' 0 (at_index i ps) s \<and> reads (at_index i ps) f r"
proof (cases b)
  case True
  then show ?thesis using assms by (intro directive_flag [of ps f c]) simp_all
next
  case False
  then show ?thesis using assms(1,4) by (intro exI [of _ "fmt_Index ps"]) simp
qed

lemma width_loop_reads:
  assumes "reads ps f (ds @ c # r)" "\<forall>d \<in> set ds. 48 \<le> d \<and> d \<le> 57" "\<not> (48 \<le> c \<and> c \<le> 57)" "\<not> WidthParse Item"
  shows "\<exists>i. width_loop m d Item ps
      = Some (Item\<lparr>it_Width := fold (\<lambda>c w. w * 10 + ucast c - 48) (d # ds) (it_Width Item)\<rparr>, at_index i ps)
    \<and> reads (at_index i ps) f (c # r)"
  using assms
proof (induction ds arbitrary: d Item ps)
  case Nil
  then show ?case using PGETC_reads(1) [of ps f c r m] PGETC_reads(2) [of ps f c r]
    by (subst width_loop.simps) (auto simp: set_width_def parsed_width_def intro!: exI [of _ "fmt_Index ps"])
next
  case (Cons d' ds)
  let ?Item = "Item\<lparr>it_Width := it_Width Item * 10 + ucast d - 48\<rparr>"
  have d': "48 \<le> d' \<and> d' \<le> 57" using Cons.prems(2) by simp
  have rd: "reads ps f (d' # ds @ c # r)" using Cons.prems(1) by simp
  obtain i where "width_loop m d' ?Item (at_index (fmt_Index ps + 1) ps)
      = Some (?Item\<lparr>it_Width := fold (\<lambda>c w. w * 10 + ucast c - 48) (d' # ds) (it_Width ?Item)\<rparr>, at_index i (at_index (fmt_Index ps + 1) ps))
    \<and> reads (at_index i (at_index (fmt_Index ps + 1) ps)) f (c # r)"
    using Cons.IH [where d = d' and Item = ?Item, OF PGETC_reads(2) [OF rd]] Cons.prems by auto
  then show ?case using PGETC_reads(1) [OF rd, of m] d' Cons.prems(4)
    by (subst width_loop.simps) (auto simp: set_width_def parsed_width_def)
qed

lemma directive_width:
  assumes "reads ps f (ds @ c # r)" "\<forall>d \<in> set ds. 48 \<le> d \<and> d \<le> 57" "ds \<noteq> [] \<longrightarrow> hd ds \<noteq> 48" "\<not> (48 \<le> c \<and> c \<le> 57)"
    and "\<not> WidthParse Item" "it_pw Item = None" "it_Width Item = 0"
  shows "\<exists>i. directive_loop sv tx Item 0 ps s = directive_loop sv tx (Item\<lparr>it_Width := width_of ds\<rparr>) 0 (at_index i ps) s
    \<and> reads (at_index i ps) f (c # r)"
proof (cases ds)
  case Nil
  moreover have "Item\<lparr>it_Width := 0\<rparr> = Item" using assms(7) by (cases Item) simp
  ultimately show ?thesis using assms(1) by (intro exI [of _ "fmt_Index ps"]) (simp add: width_of_def)
next
  case (Cons d ds')
  have d: "49 \<le> d \<and> d \<le> 57" using assms(2,3) Cons by (auto simp: word_le_nat_alt word_unat_eq_iff)
  then have ne: "d \<noteq> 0" "d \<notin> {37, 48, 45, 44, 46, 42}" by auto
  have rd: "reads ps f (d # ds' @ c # r)" using assms(1) Cons by simp
  note g = PGETC_reads [OF rd]
  let ?ps = "at_index (fmt_Index ps + 1) ps" and ?Item = "set_width 0 Item"
  have it: "?Item = Item\<lparr>it_Width := 0\<rparr>" "\<not> WidthParse ?Item" using assms(5) by (simp_all add: set_width_def)
  obtain i where i: "width_loop (mem s) d ?Item ?ps
      = Some (?Item\<lparr>it_Width := fold (\<lambda>c w. w * 10 + ucast c - 48) (d # ds') (it_Width ?Item)\<rparr>, at_index i ?ps)"
      "reads (at_index i ?ps) f (c # r)"
    using width_loop_reads [OF g(2) _ assms(4) it(2)] assms(2) Cons by (metis list.set_intros(2))
  have "directive sv tx d Item 0 ?ps s = Some (Item\<lparr>it_Width := width_of ds\<rparr>, 0, at_index i ps, s)"
    using d ne i(1) by (simp add: directive_def it Cons width_of_def)
  then show ?thesis using g(1) ne(1) i(2) assms(6) by (subst directive_loop.simps) auto
qed

lemma directive_conv_text:
  assumes "v \<in> {120, 117, 100, 99}" "args ps = a # va" "t = conv_text v (Comma Item) (Long Item) a" "0 \<notin> set t"
  shows "directive sv tx v Item 0 ps s = Some (set_text t Item, 0, ps\<lparr>args := va\<rparr>, s)"
proof -
  have a: "va_arg ps = Some (a, ps\<lparr>args := va\<rparr>)" using assms(2) by (simp add: va_arg_def)
  consider "v = 120" | "v = 117" | "v = 100" | "v = 99" using assms(1) by blast
  then show ?thesis
  proof cases
    case 4
    then have "t = [ucast a]" using assms(3) by (simp add: conv_text_def)
    then show ?thesis using 4 assms(4) by (simp add: directive_def a)
  qed (simp_all add: directive_def a assms(3) conv_text_def)
qed

lemma directive_conv:
  assumes "reads ps f (v # r)" "v \<in> {120, 117, 100, 99}" "args ps = a # va" "t = conv_text v (Comma Item) (Long Item) a"
    and "0 \<notin> set t" "10 \<notin> set t" "Pad Item \<noteq> 10" "it_FieldWidth Item = - 1"
    and "length (Pos ps) + length (filled (unat (it_Width Item)) (Pad Item) t) < 199"
  shows "\<exists>i. directive_loop sv tx Item 0 ps s
      = Some (emit (filled (unat (it_Width Item)) (Pad Item) t) (at_index i ps\<lparr>args := va\<rparr>), s)
    \<and> reads (at_index i ps) f r"
proof -
  note g = PGETC_reads [OF assms(1)]
  let ?ps = "at_index (fmt_Index ps + 1) ps" and ?w = "filled (unat (it_Width Item)) (Pad Item) t"
  have d: "directive sv tx v Item 0 ?ps s = Some (set_text t Item, 0, ?ps\<lparr>args := va\<rparr>, s)"
    by (rule directive_conv_text) (use assms(2-5) in simp_all)
  have l: "length t < 199" using assms(9) by (simp add: filled_def)
  have e: "it_Width (set_text t Item) = it_Width Item" "Pad (set_text t Item) = Pad Item"
      "it_FieldWidth (set_text t Item) = - 1" "it_pw (set_text t Item) = Some (Lit t)" "Pos (?ps\<lparr>args := va\<rparr>) = Pos ps"
    using assms(8) by (simp_all add: set_text_def)
  have p: "PITEM sv (Lit t) (set_text t Item) (?ps\<lparr>args := va\<rparr>) s = Some (emit ?w (?ps\<lparr>args := va\<rparr>), s)"
    using PITEM_room [of t "set_text t Item" "?ps\<lparr>args := va\<rparr>" sv s] assms(5-7,9) l unfolding e by simp
  have v: "v \<noteq> 0" using assms(2) by auto
  have "directive_loop sv tx Item 0 ps s = Some (emit ?w (?ps\<lparr>args := va\<rparr>), s)"
    by (subst directive_loop.simps) (simp only: g(1) d v e(4) p bind.bind_lunit prod.case if_False option.case)
  then show ?thesis using g(2) by blast
qed

lemma directive_piece:
  assumes "reads ps f (enc (Dir z k ds l v) @ r)" "piece_ok (Dir z k ds l v)" "args ps = a # va" "t = conv_text v k l a"
    and "0 \<notin> set t" "10 \<notin> set t" "RestoreAttr ps = 0"
    and "length (Pos ps) + length (filled (unat (width_of ds)) (if z then 48 else 32) t) < 199"
  shows "\<exists>i. print_loop sv tx ps s
      = print_loop sv tx (emit (filled (unat (width_of ds)) (if z then 48 else 32) t) (at_index i ps\<lparr>args := va\<rparr>)) s
    \<and> reads (at_index i ps) f r"
proof -
  let ?I1 = "new_item\<lparr>Pad := (if z then 48 else 32)\<rparr>"
  let ?I2 = "?I1\<lparr>Comma := k\<rparr>"
  let ?I3 = "?I2\<lparr>it_Width := width_of ds\<rparr>"
  let ?I4 = "?I3\<lparr>Long := l\<rparr>"
  have rd: "reads ps f (37 # (if z then [48] else []) @ (if k then [44] else []) @ ds @ (if l then [108] else []) @ v # r)"
    using assms(1) by simp
  have v: "v \<in> {120, 117, 100, 99}" and ds: "\<forall>d \<in> set ds. 48 \<le> d \<and> d \<le> 57" "ds \<noteq> [] \<longrightarrow> hd ds \<noteq> 48" using assms(2) by auto
  note g = PGETC_reads [OF rd]
  let ?p0 = "at_index (fmt_Index ps + 1) ps"
  obtain i1 where 1: "directive_loop sv tx new_item 0 ?p0 s = directive_loop sv tx ?I1 0 (at_index i1 ps) s"
      "reads (at_index i1 ps) f ((if k then [44] else []) @ ds @ (if l then [108] else []) @ v # r)"
    using directive_option [OF g(2), of ?I1 new_item sv tx s] by (auto simp: new_item_def directive_def)
  obtain i2 where 2: "directive_loop sv tx ?I1 0 (at_index i1 ps) s = directive_loop sv tx ?I2 0 (at_index i2 ps) s"
      "reads (at_index i2 ps) f (ds @ (if l then [108] else []) @ v # r)"
    using directive_option [OF 1(2), of ?I2 ?I1 sv tx s] by (auto simp: new_item_def directive_def)
  obtain c r' where c: "(if l then [108] else []) @ v # r = c # r'" "\<not> (48 \<le> c \<and> c \<le> 57)" using v by (cases l) auto
  have nw: "\<not> WidthParse ?I2" "it_pw ?I2 = None" "it_Width ?I2 = 0" by (simp_all add: new_item_def)
  obtain i3 where 3: "directive_loop sv tx ?I2 0 (at_index i2 ps) s = directive_loop sv tx ?I3 0 (at_index i3 ps) s"
      "reads (at_index i3 ps) f ((if l then [108] else []) @ v # r)"
    using directive_width [OF 2(2) [unfolded c(1)] ds c(2) nw, of sv tx s] unfolding c(1) by auto
  obtain i4 where 4: "directive_loop sv tx ?I3 0 (at_index i3 ps) s = directive_loop sv tx ?I4 0 (at_index i4 ps) s"
      "reads (at_index i4 ps) f (v # r)"
    using directive_option [OF 3(2), of ?I4 ?I3 sv tx s] by (auto simp: new_item_def directive_def)
  have I4: "Comma ?I4 = k" "Long ?I4 = l" "Pad ?I4 = (if z then 48 else 32)" "it_FieldWidth ?I4 = - 1" "it_Width ?I4 = width_of ds"
    by (simp_all add: new_item_def)
  obtain i5 where 5: "directive_loop sv tx ?I4 0 (at_index i4 ps) s
      = Some (emit (filled (unat (width_of ds)) (if z then 48 else 32) t) (at_index i5 ps\<lparr>args := va\<rparr>), s)"
      "reads (at_index i5 ps) f r"
    using directive_conv [OF 4(2) v, of a va t ?I4 sv tx s] assms(3-6,8) unfolding I4 by (auto split: if_splits)
  have p0: "?p0\<lparr>RestoreAttr := 0\<rparr> = ?p0" using assms(7) by (cases ps) simp
  define qs where "qs = emit (filled (unat (width_of ds)) (if z then 48 else 32) t) (at_index i5 ps\<lparr>args := va\<rparr>)"
  have "directive_loop sv tx new_item 0 (?p0\<lparr>RestoreAttr := 0\<rparr>) s = Some (qs, s)"
    unfolding p0 qs_def by (rule trans [OF 1(1) trans [OF 2(1) trans [OF 3(1) trans [OF 4(1) 5(1)]]]])
  moreover have "RestoreAttr qs = 0" using assms(7) by (simp add: qs_def)
  ultimately have "print_loop sv tx ps s = print_loop sv tx qs s"
    using g(1) by (subst print_loop.simps) simp
  then show ?thesis using 5(2) unfolding qs_def by blast
qed

lemma print_pieces:
  assumes "reads ps f (concat (map enc pcs))" "\<forall>p \<in> set pcs. piece_ok p" "render pcs (args ps) = Some t" "RestoreAttr ps = 0"
    and "length (Pos ps) + length t < 199"
  shows "\<exists>i va. print_loop sv tx ps s = Some (emit t (at_index i ps\<lparr>args := va\<rparr>), s)"
  using assms
proof (induction pcs arbitrary: ps t)
  case Nil
  then show ?case using PGETC_end [of ps f "mem s"] by (subst print_loop.simps) (auto intro!: exI [of _ "args ps"])
next
  case (Cons p pcs)
  show ?case
  proof (cases p)
    case (Chr c)
    obtain t' where t: "t = crlf c @ t'" "render pcs (args ps) = Some t'" using Cons.prems(3) Chr by auto
    have rd: "reads ps f (c # concat (map enc pcs))" using Cons.prems(1) Chr by simp
    have c: "c \<noteq> 0" "c \<noteq> 37" using Cons.prems(2) Chr by simp_all
    let ?p = "emit (crlf c) (at_index (fmt_Index ps + 1) ps)"
    have "print_loop sv tx ps s = print_loop sv tx ?p s"
      using PGETC_reads(1) [OF rd] c Cons.prems(5) t(1) by (subst print_loop.simps) (simp add: PPUTC_room crlf_def)
    moreover have "reads ?p f (concat (map enc pcs))" using PGETC_reads(2) [OF rd] by (simp add: reads_def)
    then obtain i va where "print_loop sv tx ?p s = Some (emit t' (at_index i ?p\<lparr>args := va\<rparr>), s)"
      using Cons.IH [of ?p t'] Cons.prems(2,4,5) t by auto
    ultimately have "print_loop sv tx ps s = Some (emit t (at_index i ps\<lparr>args := va\<rparr>), s)"
      by (simp add: emit_def t(1) add.assoc)
    then show ?thesis by blast
  next
    case (Dir z k ds l v)
    obtain a va where va: "args ps = a # va" using Cons.prems(3) Dir by (cases "args ps") auto
    let ?t = "conv_text v k l a" and ?w = "filled (unat (width_of ds)) (if z then 48 else 32) (conv_text v k l a)"
    have ok: "0 \<notin> set ?t" "10 \<notin> set ?t" using Cons.prems(3) Dir va by (auto simp: Let_def split: if_splits)
    obtain t' where t: "t = ?w @ t'" "render pcs va = Some t'" using Cons.prems(3) Dir va ok by (auto simp: Let_def)
    have room: "length (Pos ps) + length ?w < 199" using Cons.prems(5) t(1) by simp
    have rd: "reads ps f (enc (Dir z k ds l v) @ concat (map enc pcs))" and pok: "piece_ok (Dir z k ds l v)"
      using Cons.prems(1,2) Dir by simp_all
    obtain i where i: "print_loop sv tx ps s = print_loop sv tx (emit ?w (at_index i ps\<lparr>args := va\<rparr>)) s"
        "reads (at_index i ps) f (concat (map enc pcs))"
      using directive_piece [OF rd pok va refl ok Cons.prems(4) room] by blast
    let ?p = "emit ?w (at_index i ps\<lparr>args := va\<rparr>)"
    have "reads ?p f (concat (map enc pcs))" using i(2) by (simp add: reads_def)
    then obtain i' va' where "print_loop sv tx ?p s = Some (emit t' (at_index i' ?p\<lparr>args := va'\<rparr>), s)"
      using Cons.IH [of ?p t'] Cons.prems(2,4,5) t by auto
    then have "print_loop sv tx ps s = Some (emit t (at_index i' ps\<lparr>args := va'\<rparr>), s)"
      using i(1) by (simp add: emit_def t(1) add.assoc)
    then show ?thesis by blast
  qed
qed

lemma Print_pieces:
  assumes "fmt ps = Lit (concat (map enc pcs))" "length (concat (map enc pcs)) < 2 ^ 63" "\<forall>p \<in> set pcs. piece_ok p"
    and "render pcs (args ps) = Some u" "length u < 199" "RestoreAttr ps = 0"
  shows "\<exists>i va. Print_with sv tx ps s = PFLUSH sv (emit u (ps\<lparr>Len := 0, Pos := [], fmt_Index := i, args := va\<rparr>)) s"
proof -
  let ?ps = "ps\<lparr>Len := 0, Pos := [], fmt_Index := 0\<rparr>"
  have "reads ?ps (concat (map enc pcs)) (concat (map enc pcs))" using assms(1,2) by (simp add: reads_def)
  then obtain i va where "print_loop sv tx ?ps s = Some (emit u (at_index i ?ps\<lparr>args := va\<rparr>), s)"
    using print_pieces [of ?ps "concat (map enc pcs)" pcs u sv tx s] assms(3-6) by auto
  then have "Print_with sv tx ps s = PFLUSH sv (emit u (ps\<lparr>Len := 0, Pos := [], fmt_Index := i, args := va\<rparr>)) s"
    by (simp add: Print_with_def)
  then show ?thesis by blast
qed

lemma scratch_print_pieces:
  assumes "\<forall>p \<in> set pcs. piece_ok p" "render pcs va = Some t" "length t < 100" "length (concat (map enc pcs)) < 2 ^ 63" "0 \<notin> set t"
  shows "scratch_print sv (concat (map enc pcs)) va s = Some (t, s)"
proof -
  let ?f = "concat (map enc pcs)"
  define ps where "ps = (new_state (Lit ?f) va ToScratch no_pool)\<lparr>Len := 0, Pos := [], fmt_Index := 0\<rparr>"
  have ps: "reads ps ?f ?f" "args ps = va" "RestoreAttr ps = 0" "Pos ps = []" "Output ps = ToScratch" "Scratch ps = []"
    using assms(4) by (simp_all add: ps_def reads_def new_state_def)
  obtain i va' where p: "print_loop sv no_texts ps s = Some (emit t (at_index i ps\<lparr>args := va'\<rparr>), s)"
    using print_pieces [OF ps(1) assms(1) _ ps(3), of t sv no_texts s] assms(2,3) ps(2,4) by auto
  define qs where "qs = emit t (at_index i ps\<lparr>args := va'\<rparr>)"
  have qs: "Output qs = ToScratch" "Scratch qs = []" "Pos qs = t" using ps by (simp_all add: qs_def emit_def)
  have tw: "takeWhile (\<lambda>c. c \<noteq> 0) t = t" using assms(5) by (intro takeWhile_eq_all_conv [THEN iffD2]) auto
  have "PFLUSH sv qs s = Some (qs\<lparr>Scratch := t, Pos := []\<rparr>, s)"
    using assms(3) qs by (simp add: PFLUSH_scratch PRINT_ITEM_BUFFER_LEN_def Let_def tw)
  then show ?thesis
    using p by (simp add: scratch_print_def Print_with_def ps_def [symmetric] qs_def [symmetric] del: emit_simps)
qed

subsection \<open>Properties\<close>

text \<open>C30: Whatever the format and the arguments, printing into a buffer of at least two bytes writes nothing
  outside it but what the conversions write themselves, and the length it returns fits.\<close>

theorem VSPrint_bounded:
  assumes "VSPrint_with sv tx Str bufSize f va s = Some (len, s')" "writes_within P tx" "2 \<le> unat bufSize" "unat bufSize < 2 ^ 62"
  shows "2 * (unat len + 1) \<le> unat bufSize \<and> (\<forall>b. b \<notin> region Str (unat bufSize) \<union> P \<longrightarrow> mem s' b = mem s b)"
proof -
  let ?n = "bufSize div 2 - 1"
  have "1 \<le> bufSize div 2" using assms(3) by (simp add: word_le_nat_alt unat_div)
  then have n: "unat ?n = unat bufSize div 2 - 1" by (simp add: unat_sub_le unat_div)
  let ?ps = "new_state f va ToString \<lparr>pp_str = Str, pp_len = 0, pp_maxlen = ?n\<rparr>"
  obtain ps where p: "Print_with sv tx ?ps s = Some (ps, s')" "len = pp_len (Context ps)"
    using assms(1) by (auto simp: VSPrint_with_def PoolCatPrint_def bind_eq_Some_conv)
  have "in_buffer P Str ?n (mem s) (?ps\<lparr>Len := 0, Pos := [], fmt_Index := 0\<rparr>) s"
    using n assms(4) by (simp add: in_buffer_def new_state_def)
  then have i: "in_buffer P Str ?n (mem s) ps s'"
    by (rule print_keeps.Print_keeps [OF print_keeps_buffer [OF assms(2)] _ p(1)])
  have "2 * unat ?n + 2 \<le> unat bufSize" using n assms(3) by linarith
  moreover from this have "region Str (2 * unat ?n + 2) \<subseteq> region Str (unat bufSize)" by (rule region_mono)
  ultimately show ?thesis using i p(2) by (auto simp: in_buffer_def)
qed

text \<open>``ab'' into a buffer for one character and its end.\<close>

definition small_printer :: "unit print_uefi" where
  "small_printer = path_uefi.extend (uefi.extend small_uefi (path_uefi.fields (\<lambda>p a m f. (EFI_NOT_FOUND, None, f))))
     (print_uefi.fields (\<lambda>Out t f. f) (\<lambda>Out a f. f) (\<lambda>Out c r f. f))"

theorem VSPrint_bounded_witness:
  "\<exists>len s'. VSPrint_with small_printer (scratch_texts small_printer) 0x1000 4 (Lit (wlit ''ab'')) [] small_efi = Some (len, s')
    \<and> unat len \<le> 1 \<and> mem s' 0x1004 = 0"
proof -
  let ?ps = "new_state (Lit (wlit ''ab'')) [] ToString \<lparr>pp_str = 0x1000, pp_len = 0, pp_maxlen = 1\<rparr>"
  obtain i va where p: "Print_with small_printer (scratch_texts small_printer) ?ps small_efi
      = PFLUSH small_printer (emit (wlit ''ab'') (?ps\<lparr>Len := 0, Pos := [], fmt_Index := i, args := va\<rparr>)) small_efi"
    using Print_pieces [of ?ps "map Chr (wlit ''ab'')" "wlit ''ab''" small_printer "scratch_texts small_printer" small_efi] by (auto simp: new_state_def wlit_def crlf_def)
  then obtain len s' where r: "VSPrint_with small_printer (scratch_texts small_printer) 0x1000 4 (Lit (wlit ''ab'')) [] small_efi = Some (len, s')"
    by (auto simp: VSPrint_with_def PoolCatPrint_def PFLUSH_def emit_def new_state_def sprint_out_def strlen_w_def wlit_def Let_def)
  have "0x1004 \<notin> region 0x1000 (unat (4 :: u64)) \<union> {}" by (simp add: region_def)
  moreover have "mem small_efi 0x1004 = 0" by (simp add: small_efi_def)
  ultimately show ?thesis using VSPrint_bounded [OF r scratch_texts_within] r by fastforce
qed

end
