(* ===== verification/EfiText.thy ===== *)
theory EfiText
  imports EfiPrint
begin

text \<open>
  What the conversions of \<open>lib/print.c\<close> print: floating point numbers, numbers in hexadecimal and in decimal, which \<open>xtoi\<close> and
  \<open>Atoi\<close> read back, and GUIDs, which their texts tell apart.
\<close>

subsection \<open>Hexadecimal numbers\<close>

fun hexd :: "nat \<Rightarrow> nat \<Rightarrow> u16 list" where
  "hexd 0 n = []"
| "hexd (Suc w) n = hexd w (n div 16) @ [Hex ! (n mod 16)]"

lemma hexd_numeral: "hexd (numeral k) n = hexd (pred_numeral k) (n div 16) @ [Hex ! (n mod 16)]"
  by (subst numeral_eq_Suc) simp

lemma length_hexd [simp]: "length (hexd w n) = w"
  by (induction w arbitrary: n) simp_all

lemma length_Hex: "length Hex = 16"
  by (simp add: Hex_def wlit_def)

lemma distinct_Hex: "distinct Hex"
  by (simp add: Hex_def wlit_def)

lemma hexd_inj: "hexd w a = hexd w b \<Longrightarrow> a < 16 ^ w \<Longrightarrow> b < 16 ^ w \<Longrightarrow> a = b"
proof (induction w arbitrary: a b)
  case (Suc w)
  have "a div 16 = b div 16" using Suc.prems by (intro Suc.IH) (simp_all add: less_mult_imp_div_less mult.commute)
  moreover have "a mod 16 = b mod 16"
    using Suc.prems(1) nth_eq_iff_index_eq [OF distinct_Hex, of "a mod 16" "b mod 16"] by (simp add: length_Hex)
  ultimately show ?case by (metis div_mult_mod_eq)
qed simp

lemma hex_loop_0 [simp]: "hex_loop 0 str = str"
  by (simp add: hex_loop.simps)

lemma hex_loop_acc: "hex_loop v (str @ rest) = hex_loop v str @ rest"
proof (induction v str rule: hex_loop.induct)
  case (1 v str)
  then show ?case by (cases "v = 0") (simp_all add: hex_loop.simps [of v])
qed

lemma hex_loop_step: "v \<noteq> 0 \<Longrightarrow> hex_loop v [] = hex_loop (drop_bit 4 v) [] @ [Hex ! unat (v AND 0xf)]"
  using hex_loop_acc [of "drop_bit 4 v" "[]" "[Hex ! unat (v AND 0xf)]"] by (simp add: hex_loop.simps [of v])

lemma hex_induct [case_names 0 step]:
  assumes "P 0" "\<And>v. v \<noteq> 0 \<Longrightarrow> P (drop_bit 4 v) \<Longrightarrow> P v"
  shows "P (v :: u64)"
proof (rule hex_loop.induct [of "\<lambda>v _. P v" v "[]"])
  fix v :: u64
  assume "v \<noteq> 0 \<Longrightarrow> P (drop_bit 4 v)"
  then show "P v" using assms by (cases "v = 0") simp_all
qed

lemma unat_low_nibble: "unat (v AND 0xf :: u64) = unat v mod 16"
proof -
  have "v AND mask 4 = take_bit 4 v" by (simp add: take_bit_eq_mask)
  then show ?thesis by (simp add: unsigned_take_bit_eq take_bit_eq_mod mask_eq_exp_minus_1 unat_mod)
qed

lemma hex_loop_hexd:
  "unat v < 16 ^ w \<Longrightarrow> length (hex_loop v []) \<le> w \<and> replicate (w - length (hex_loop v [])) 48 @ hex_loop v [] = hexd w (unat v)"
proof (induction w arbitrary: v)
  case 0
  then show ?case by (simp add: unat_eq_0 hex_loop.simps)
next
  case (Suc w)
  have d: "unat (drop_bit 4 v) = unat v div 16" by (simp add: drop_bit_eq_div unat_div)
  then have "unat (drop_bit 4 v) < 16 ^ w" using Suc.prems by (simp add: less_mult_imp_div_less mult.commute)
  note IH = Suc.IH [OF this, unfolded d]
  show ?case
  proof (cases "v = 0")
    case True
    have "Hex ! 0 = 48" by (simp add: Hex_def wlit_def)
    moreover have "hexd w 0 = replicate w 48" using IH True by simp
    ultimately show ?thesis using True by (simp add: replicate_append_same)
  next
    case False
    show ?thesis using IH unfolding hex_loop_step [OF False] by (simp add: unat_low_nibble)
  qed
qed

lemma filled_hex:
  assumes "unat v < 16 ^ w" "0 < w"
  shows "filled w 48 (ValueToHex v) = hexd w (unat v)"
proof (cases "v = 0")
  case True
  have "replicate (w - 1) (48 :: u16) @ [48] = replicate w 48" using assms(2) by (cases w) (simp_all add: replicate_append_same)
  then show ?thesis using True hex_loop_hexd [OF assms(1)] by (simp add: filled_def ValueToHex_def hex_loop.simps)
next
  case False
  then show ?thesis using hex_loop_hexd [OF assms(1)] by (simp add: filled_def ValueToHex_def)
qed

lemma hex_loop_set: "set str \<subseteq> set Hex \<Longrightarrow> set (hex_loop v str) \<subseteq> set Hex"
proof (induction v str rule: hex_loop.induct)
  case (1 v str)
  have "unat (v AND 0xf) < length Hex" by (simp add: unat_low_nibble length_Hex)
  then have "Hex ! unat (v AND 0xf) \<in> set Hex" by (rule nth_mem)
  then show ?case using 1 by (subst hex_loop.simps) auto
qed

lemma ValueToHex_set: "set (ValueToHex v) \<subseteq> set Hex"
  using hex_loop_set [of "[]" v] by (auto simp: ValueToHex_def) (simp add: Hex_def wlit_def)

lemma ValueToHex_plain: "0 \<notin> set (ValueToHex v)" "10 \<notin> set (ValueToHex v)"
  using ValueToHex_set [of v] by (auto simp: Hex_def wlit_def)

text \<open>Hexadecimal digits read back.\<close>

definition hex_read :: "u16 \<Rightarrow> u64 \<Rightarrow> u64" where
  "hex_read c u = push_bit 4 u OR (ucast c - (if c \<ge> 0x41 then 0x41 - 10 else 0x30))"

lemma hex_digit_cases: "c \<in> set Hex \<Longrightarrow> hex_fold c = c \<and> (c \<ge> 0x30 \<and> c \<le> 0x39 \<or> c \<ge> 0x41 \<and> c \<le> 0x46)"
  by (auto simp: Hex_def wlit_def hex_fold_def)

lemma hex_read_digit: "i < 16 \<Longrightarrow> hex_read (Hex ! i) u = push_bit 4 u OR of_nat i"
proof -
  assume "i < 16"
  moreover have "\<forall>i \<in> set [0..<16]. ucast (Hex ! i) - (if Hex ! i \<ge> 0x41 then 0x41 - 10 else 0x30) = (of_nat i :: u64)"
    by (simp add: upt_rec Hex_def wlit_def)
  ultimately show ?thesis by (simp add: hex_read_def)
qed

lemma xtoi_loop_hex: "str16 m a cs \<Longrightarrow> set cs \<subseteq> set Hex \<Longrightarrow> xtoi_loop m a u = Some (fold hex_read cs u)"
proof (induction cs arbitrary: a u)
  case Nil
  then show ?case by (subst xtoi_loop.simps) simp
next
  case (Cons c cs)
  have "xtoi_loop m a u = xtoi_loop m (a + 2) (hex_read c u)"
    using Cons.prems hex_digit_cases [of c] by (subst xtoi_loop.simps) (auto simp: hex_read_def Let_def)
  then show ?case using Cons by simp
qed

lemma hex_loop_reads_back: "fold hex_read (hex_loop v []) 0 = v"
proof (induction v rule: hex_induct)
  case (step v)
  have "push_bit 4 (drop_bit 4 v) OR take_bit 4 v = v" by (rule bit_word_eqI) (auto simp: bit_simps)
  then have "push_bit 4 (drop_bit 4 v) OR (v AND 0xf) = v" by (simp add: take_bit_eq_mask mask_eq_exp_minus_1)
  moreover have "of_nat (unat v mod 16) = v AND 0xf" using unat_low_nibble [of v] by (metis of_nat_unat ucast_id)
  ultimately show ?case using step by (simp add: hex_loop_step hex_read_digit unat_low_nibble)
qed simp

lemma xtoi_ValueToHex:
  assumes "str16 m a (ValueToHex v)"
  shows "xtoi m a = Some v"
proof -
  have "ValueToHex v \<noteq> []" "\<forall>c \<in> set (ValueToHex v). c \<noteq> 0x20"
    using ValueToHex_set [of v] hex_loop_step [of v] by (auto simp: ValueToHex_def Hex_def wlit_def)
  then have "read16 m a \<noteq> 0x20" using str16_first [OF assms] by (cases "ValueToHex v") auto
  then have s: "skip_spaces m a = Some a" by (subst skip_spaces.simps) simp
  have "fold hex_read (ValueToHex v) 0 = v"
    using hex_read_digit [of 0 0] by (simp add: ValueToHex_def hex_loop_reads_back) (simp add: Hex_def wlit_def)
  then show ?thesis using s xtoi_loop_hex [OF assms ValueToHex_set] by (simp add: xtoi_def)
qed

subsection \<open>Decimal numbers\<close>

definition dec_digit :: "u64 \<Rightarrow> u16" where
  "dec_digit v = ucast (ucast (v mod 10) :: u8) + 48"

lemma dec_loop_0 [simp]: "dec_loop 0 str = str"
  by (simp add: dec_loop.simps)

lemma dec_loop_acc: "dec_loop v (str @ rest) = dec_loop v str @ rest"
proof (induction v str rule: dec_loop.induct)
  case (1 v str)
  then show ?case by (cases "v = 0") (simp_all add: dec_loop.simps [of v])
qed

lemma dec_loop_step: "v \<noteq> 0 \<Longrightarrow> dec_loop v [] = dec_loop (v div 10) [] @ [dec_digit v]"
  using dec_loop_acc [of "v div 10" "[]" "[dec_digit v]"] by (simp add: dec_loop.simps [of v] dec_digit_def)

lemma dec_induct [case_names 0 step]:
  assumes "P 0" "\<And>v. v \<noteq> 0 \<Longrightarrow> P (v div 10) \<Longrightarrow> P v"
  shows "P (v :: u64)"
proof (rule dec_loop.induct [of "\<lambda>v _. P v" v "[]"])
  fix v :: u64
  assume "v \<noteq> 0 \<Longrightarrow> P (v div 10)"
  then show "P v" using assms by (cases "v = 0") simp_all
qed

lemma dec_digit: "48 \<le> dec_digit v \<and> dec_digit v \<le> 57" "ucast (dec_digit v) = v mod 10 + (48 :: u64)"
proof -
  define k where "k = unat (v mod 10)"
  have "k < 10" by (simp add: k_def unat_mod)
  then have k: "k \<in> {0, 1, 2, 3, 4, 5, 6, 7, 8, 9}" by auto
  have v: "v mod 10 = of_nat k" by (simp add: k_def)
  show "48 \<le> dec_digit v \<and> dec_digit v \<le> 57" "ucast (dec_digit v) = v mod 10 + (48 :: u64)"
    using k by (auto simp: dec_digit_def v)
qed

definition dec_read :: "u16 \<Rightarrow> u64 \<Rightarrow> u64" where
  "dec_read c u = u * 10 + ucast c - 0x30"

lemma Atoi_loop_dec: "str16 m a cs \<Longrightarrow> \<forall>c \<in> set cs. 48 \<le> c \<and> c \<le> 57 \<Longrightarrow> Atoi_loop m a u = Some (fold dec_read cs u)"
proof (induction cs arbitrary: a u)
  case Nil
  then show ?case by (subst Atoi_loop.simps) simp
next
  case (Cons c cs)
  have "Atoi_loop m a u = Atoi_loop m (a + 2) (dec_read c u)"
    using Cons.prems by (subst Atoi_loop.simps) (auto simp: dec_read_def Let_def)
  then show ?case using Cons by simp
qed

lemma dec_loop_reads_back: "fold dec_read (dec_loop v []) 0 = v"
proof (induction v rule: dec_induct)
  case (step v)
  have "v div 10 * 10 + v mod 10 = v" by (rule div_mult_mod_eq)
  then show ?case using step by (simp add: dec_loop_step dec_read_def dec_digit(2))
qed simp

lemma dec_loop_digits: "\<forall>c \<in> set (dec_loop v []). 48 \<le> c \<and> c \<le> 57"
proof (induction v rule: dec_induct)
  case (step v)
  then show ?case using dec_digit(1) [of v] by (auto simp: dec_loop_step)
qed simp

lemma dec_loop_length: "unat v < 10 ^ w \<Longrightarrow> length (dec_loop v []) \<le> w"
proof (induction w arbitrary: v)
  case (Suc w)
  have "unat (v div 10) < 10 ^ w" using Suc.prems by (simp add: unat_div less_mult_imp_div_less mult.commute)
  then show ?case using Suc.IH by (cases "v = 0") (simp_all add: dec_loop_step)
qed (simp add: unat_eq_0)

lemma dec_loop_20: "length (dec_loop v []) \<le> 20"
  by (rule dec_loop_length) (rule order_less_le_trans [OF unsigned_less], simp)

lemma dec_loop_nil: "dec_loop v [] = [] \<longleftrightarrow> v = 0"
  by (cases "v = 0") (simp_all add: dec_loop_step)

lemma comma_loop_none: "length ds < c \<Longrightarrow> comma_loop c ds = ds"
  by (induction c ds rule: comma_loop.induct) (simp_all add: Let_def)

lemma ValueToString_plain: "ValueToString False v = (if v = 0 then [48] else if sint v < 0 then 45 # dec_loop (- v) [] else dec_loop v [])"
  using dec_loop_20 [of v] dec_loop_20 [of "- v"] by (simp add: ValueToString_def comma_loop_none Let_def)

lemma Atoi_ValueToString:
  assumes "str16 m a (ValueToString False v)" "0 \<le> sint v"
  shows "Atoi m a = Some v"
proof -
  let ?t = "ValueToString False v"
  have d: "\<forall>c \<in> set ?t. 48 \<le> c \<and> c \<le> 57" using assms(2) dec_loop_digits [of v] by (simp add: ValueToString_plain)
  have "?t \<noteq> []" using assms(2) dec_loop_step [of v] by (simp add: ValueToString_plain)
  then have "read16 m a \<noteq> 0x20" using str16_first [OF assms(1)] d by (cases ?t) auto
  then have s: "skip_spaces m a = Some a" by (subst skip_spaces.simps) simp
  have "fold dec_read ?t 0 = v" using assms(2) dec_loop_reads_back [of v] by (simp add: ValueToString_plain dec_read_def)
  then show ?thesis using s Atoi_loop_dec [OF assms(1) d] by (simp add: Atoi_def)
qed

text \<open>With commas: one after every three digits, counted from the last.\<close>

fun commas :: "u16 list \<Rightarrow> u16 list" where
  "commas (a # b # c # d # ds) = a # b # c # 44 # commas (d # ds)"
| "commas ds = ds"

lemma comma_loop_skip: "comma_loop (Suc (length xs)) (xs @ ys) = xs @ (if ys = [] then [] else comma_loop (Suc 0) ys)"
  by (induction xs) (cases ys; simp)+

lemma comma_loop_1: "ds \<noteq> [] \<Longrightarrow> comma_loop (Suc 0) ds = 44 # comma_loop 4 ds"
  by (cases ds) simp_all

lemma commas_append:
  "length ys = 3 * n \<Longrightarrow> xs \<noteq> [] \<Longrightarrow> length xs \<le> 3 \<Longrightarrow> commas (ys @ xs) = commas ys @ (if ys = [] then [] else [44]) @ xs"
proof (induction n arbitrary: ys)
  case 0
  then show ?case by (cases xs rule: commas.cases) simp_all
next
  case (Suc n)
  then obtain a b c ys' where ys: "ys = a # b # c # ys'" "length ys' = 3 * n"
    by (cases ys rule: commas.cases) auto
  then show ?case
  proof (cases ys')
    case Nil
    then show ?thesis using ys(1) Suc.prems by (cases xs) (use Suc.IH [of "[]"] in \<open>simp_all add: ys\<close>)
  next
    case (Cons d ds)
    then show ?thesis using ys Suc.IH [OF ys(2) Suc.prems(2,3)] by simp
  qed
qed

lemma commas_short: "length xs \<le> 3 \<Longrightarrow> commas xs = xs"
  by (cases xs rule: commas.cases) simp_all

lemma comma_loop_groups:
  "length ys = 3 * n \<Longrightarrow> xs \<noteq> [] \<Longrightarrow> length xs \<le> 3 \<Longrightarrow> comma_loop (Suc (length xs)) (xs @ ys) = rev (commas (rev ys @ rev xs))"
proof (induction n arbitrary: xs ys)
  case 0
  then show ?case using comma_loop_skip [of xs "[]"] by (simp add: commas_short)
next
  case (Suc n)
  have ne: "ys \<noteq> []" and l: "length (take 3 ys) = 3" "length (drop 3 ys) = 3 * n" using Suc.prems(1) by auto
  have "comma_loop 4 ys = rev (commas (rev ys))"
    using Suc.IH [of "drop 3 ys" "take 3 ys"] l ne by (simp flip: rev_append)
  then have "comma_loop (Suc (length xs)) (xs @ ys) = xs @ 44 # rev (commas (rev ys))"
    using ne by (simp add: comma_loop_skip comma_loop_1)
  also have "\<dots> = rev (commas (rev ys @ rev xs))"
    using commas_append [of "rev ys" "Suc n" "rev xs"] Suc.prems ne by simp
  finally show ?case .
qed

lemma comma_loop_commas:
  assumes "ds \<noteq> []"
  shows "comma_loop ([3, 1, 2] ! (length ds mod 3) + 1) ds = rev (commas (rev ds))"
proof -
  define k where "k = ([3, 1, 2] :: nat list) ! (length ds mod 3)"
  have m: "length ds mod 3 \<in> {0, 1, 2}" by auto
  have "0 < length ds" using assms by simp
  then have k: "0 < k" "k \<le> 3" "k \<le> length ds" "(length ds - k) mod 3 = 0"
    using m unfolding k_def by (auto, presburger+)
  then obtain n where n: "length (drop k ds) = 3 * n" by (auto simp: mod_0_imp_dvd elim!: dvdE)
  show ?thesis
    using comma_loop_groups [OF n, of "take k ds"] k(1-3) assms unfolding k_def [symmetric] by (simp add: min_absorb2 flip: rev_append)
qed

lemma ValueToString_commas:
  "ValueToString True v = (if v = 0 then [48] else if sint v < 0 then 45 # rev (commas (rev (dec_loop (- v) []))) else rev (commas (rev (dec_loop v []))))"
  using comma_loop_commas [of "dec_loop v []"] comma_loop_commas [of "dec_loop (- v) []"] dec_loop_nil [of v] dec_loop_nil [of "- v"]
  by (simp add: ValueToString_def Let_def)

subsection \<open>GUIDs\<close>

definition guid_format :: "piece list" where
  "guid_format =
     (let x = (\<lambda>w. Dir True False [w] False 120)
      in [x 56, Chr 45, x 52, Chr 45, x 52, Chr 45, x 50, x 50, Chr 45, x 50, x 50, x 50, x 50, x 50, x 50])"

text \<open>The text of a GUID that has no name.\<close>

fun guid_text :: "GUID \<Rightarrow> u16 list" where
  "guid_text (Guid a b c ds) = hexd 8 (unat a) @ [45] @ hexd 4 (unat b) @ [45] @ hexd 4 (unat c) @ [45]
     @ concat (map (\<lambda>d. hexd 2 (unat d)) (take 2 ds)) @ [45] @ concat (map (\<lambda>d. hexd 2 (unat d)) (drop 2 ds))"

lemma guid_format_text: "concat (map enc guid_format) = wlit ''%08x-%04x-%04x-%02x%02x-%02x%02x%02x%02x%02x%02x''"
  by (simp add: guid_format_def wlit_def Let_def)

lemma guid_format_ok: "\<forall>p \<in> set guid_format. piece_ok p"
  by (simp add: guid_format_def Let_def)

lemma unat_ucast_up: "LENGTH('a) \<le> LENGTH('b) \<Longrightarrow> unat (ucast (x :: 'a :: len word) :: 'b :: len word) = unat x"
  by (simp add: unsigned_ucast_eq take_bit_nat_eq_self order_less_le_trans [OF unsigned_less])

lemma ucast_widths:
  "ucast (ucast (a :: u32) :: u64) = a" "(ucast (ucast (b :: u16) :: u64) :: u32) = ucast b" "(ucast (ucast (c :: u8) :: u64) :: u32) = ucast c"
  by (auto intro!: bit_word_eqI simp: bit_simps)

lemma render_hex:
  assumes "unat (ucast a :: u32) < 16 ^ w" "0 < w" "unat (width_of [d]) = w"
  shows "render (Dir True False [d] False 120 # ps) (a # va) = map_option ((@) (hexd w (unat (ucast a :: u32)))) (render ps va)"
proof -
  have u: "unat (arg_u False a) = unat (ucast a :: u32)" by (simp add: arg_u_def unat_ucast_up)
  then show ?thesis
    using filled_hex [of "arg_u False a" w] assms ValueToHex_plain [of "arg_u False a"] by (simp add: conv_text_def)
qed

lemma render_hex_widths:
  "render (Dir True False [56] False 120 # ps) (ucast (a :: u32) # va) = map_option ((@) (hexd 8 (unat a))) (render ps va)"
  "render (Dir True False [52] False 120 # ps) (ucast (b :: u16) # va) = map_option ((@) (hexd 4 (unat b))) (render ps va)"
  "render (Dir True False [50] False 120 # ps) (ucast (c :: u8) # va) = map_option ((@) (hexd 2 (unat c))) (render ps va)"
  by (subst render_hex; simp add: width_of_def ucast_widths unat_ucast_up order_less_le_trans [OF unsigned_less])+

lemma hexd_plain: "0 \<notin> set (hexd w n)"
proof -
  have "set (hexd w n) \<subseteq> set Hex" by (induction w arbitrary: n) (auto simp: length_Hex)
  moreover have "0 \<notin> set Hex" by (simp add: Hex_def wlit_def)
  ultimately show ?thesis by blast
qed

lemma scratch_print_guid:
  assumes "length ds = 8"
  shows "scratch_print sv (wlit ''%08x-%04x-%04x-%02x%02x-%02x%02x%02x%02x%02x%02x'')
      ([ucast a, ucast b, ucast c] @ map ucast ds) s = Some (guid_text (Guid a b c ds), s)"
proof -
  obtain d0 d1 d2 d3 d4 d5 d6 d7 where ds: "ds = [d0, d1, d2, d3, d4, d5, d6, d7]"
    using assms by (auto simp: length_Suc_conv numeral_eq_Suc)
  have r: "render guid_format ([ucast a, ucast b, ucast c] @ map ucast ds) = Some (guid_text (Guid a b c ds))"
    by (simp add: guid_format_def Let_def ds render_hex_widths crlf_def del: hexd.simps render.simps(4))
  show ?thesis
    using scratch_print_pieces [OF guid_format_ok r, of sv s]
    by (simp add: guid_format_text ds hexd_plain wlit_def del: hexd.simps)
qed

text \<open>Names are printed as they are.\<close>

lemma scratch_print_plain:
  assumes "\<forall>c \<in> set cs. c \<notin> {0, 10, 37}" "length cs < 100"
  shows "scratch_print sv cs va s = Some (cs, s)"
proof -
  have e: "concat (map enc (map Chr cs)) = cs" for cs by (induction cs) simp_all
  have r: "render (map Chr cs) va = Some cs" using assms(1) by (induction cs) (simp_all add: crlf_def)
  show ?thesis using scratch_print_pieces [OF _ r, of sv s] assms unfolding e by auto
qed

lemma KnownGuids_names: "\<forall>e \<in> set KnownGuids. (\<forall>c \<in> set (wlit (snd e)). c \<notin> {0, 10, 37}) \<and> length (snd e) < 36"
  by (simp add: KnownGuids_def wlit_def)

lemma KnownGuids_distinct: "distinct (map snd KnownGuids)"
  by code_simp

lemma map_of_find: "map_of xs k = map_option snd (find (\<lambda>e. k = fst e) xs)"
  by (induction xs) auto

definition GuidText :: "GUID \<Rightarrow> u16 list" where
  "GuidText G = (case map_of KnownGuids G of Some name \<Rightarrow> wlit name | None \<Rightarrow> guid_text G)"

lemma guid_text_inj:
  assumes "guid_text (Guid a b c ds) = guid_text (Guid a' b' c' es)" "length ds = 8" "length es = 8"
  shows "Guid a b c ds = Guid a' b' c' es"
proof -
  obtain d0 d1 d2 d3 d4 d5 d6 d7 where ds: "ds = [d0, d1, d2, d3, d4, d5, d6, d7]"
    using assms(2) by (auto simp: length_Suc_conv numeral_eq_Suc)
  obtain e0 e1 e2 e3 e4 e5 e6 e7 where es: "es = [e0, e1, e2, e3, e4, e5, e6, e7]"
    using assms(3) by (auto simp: length_Suc_conv numeral_eq_Suc)
  have w: "hexd 8 (unat x) = hexd 8 (unat y) \<Longrightarrow> x = y" for x y :: u32
    using hexd_inj [of 8 "unat x" "unat y"] by (simp add: order_less_le_trans [OF unsigned_less] word_unat_eq_iff)
  have h: "hexd 4 (unat x) = hexd 4 (unat y) \<Longrightarrow> x = y" for x y :: u16
    using hexd_inj [of 4 "unat x" "unat y"] by (simp add: order_less_le_trans [OF unsigned_less] word_unat_eq_iff)
  have b: "hexd 2 (unat x) = hexd 2 (unat y) \<Longrightarrow> x = y" for x y :: u8
    using hexd_inj [of 2 "unat x" "unat y"] by (simp add: order_less_le_trans [OF unsigned_less] word_unat_eq_iff)
  show ?thesis
    using assms(1) unfolding ds es by (simp del: hexd.simps) (blast dest: w h b)
qed

lemma wlit_inj: "wlit as = wlit bs \<Longrightarrow> as = bs"
proof -
  have "inj (\<lambda>c. of_nat (of_char c) :: u16)"
  proof (rule injI)
    fix c d :: char
    assume "(of_nat (of_char c) :: u16) = of_nat (of_char d)"
    moreover have "of_char c < (65536 :: nat)" "of_char d < (65536 :: nat)"
      using nat_of_char_less_256 [of c] nat_of_char_less_256 [of d] by linarith+
    ultimately show "c = d" by (simp add: word_of_nat_eq_iff take_bit_eq_mod)
  qed
  then show "wlit as = wlit bs \<Longrightarrow> as = bs" by (simp add: wlit_def inj_map_eq_map)
qed

lemma length_guid_text: "length ds = 8 \<Longrightarrow> length (guid_text (Guid a b c ds)) = 36"
  by (auto simp: length_Suc_conv eval_nat_numeral simp del: hexd.simps)

lemma GuidText_inj:
  assumes "GuidText G = GuidText H" "G = Guid a b c ds" "H = Guid a' b' c' es" "length ds = 8" "length es = 8"
  shows "G = H"
proof -
  have short: "length (wlit n) < 36" if "map_of KnownGuids K = Some n" for K n
    using map_of_SomeD [OF that] KnownGuids_names by (fastforce simp: wlit_def)
  have long: "length (guid_text G) = 36" "length (guid_text H) = 36" using assms(2-5) length_guid_text by simp_all
  show ?thesis
  proof (cases "map_of KnownGuids G"; cases "map_of KnownGuids H")
    fix n n'
    assume "map_of KnownGuids G = Some n" "map_of KnownGuids H = Some n'"
    moreover from this have "n = n'" using assms(1) wlit_inj by (simp add: GuidText_def)
    ultimately have "(G, n) \<in> set KnownGuids" "(H, n) \<in> set KnownGuids" by (simp_all add: map_of_SomeD)
    then show "G = H" using KnownGuids_distinct inj_onD [of snd "set KnownGuids" "(G, n)" "(H, n)"] by (simp add: distinct_map)
  next
    assume "map_of KnownGuids G = None" "map_of KnownGuids H = None"
    then show "G = H" using assms guid_text_inj by (simp add: GuidText_def)
  qed (use assms(1) short long in \<open>fastforce simp: GuidText_def\<close>)+
qed

lemma GuidToString_GuidText: "GuidToString sv g s = Some (GuidText (guid_value (mem s) g), s)"
proof (cases "find (\<lambda>e. guid_value (mem s) g = fst e) KnownGuids")
  case None
  then show ?thesis
    using scratch_print_guid [of "map (\<lambda>k. mem s (g + 8 + of_nat k)) [0..<8]" sv "read32 (mem s) g" "read16 (mem s) (g + 4)" "read16 (mem s) (g + 6)" s]
    by (simp add: GuidToString_def GuidText_def map_of_find guid_value_def Let_def comp_def del: guid_text.simps upt_rec_numeral)
next
  case (Some e)
  then have e: "e \<in> set KnownGuids" by (auto simp: find_Some_iff)
  then have "length (wlit (snd e)) < 100" using KnownGuids_names by (fastforce simp: wlit_def)
  then show ?thesis
    using Some KnownGuids_names e scratch_print_plain [of "wlit (snd e)" sv "[]" s] by (simp add: GuidToString_def GuidText_def map_of_find)
qed

subsection \<open>Texts of floating point numbers\<close>

lemma comma_loop_length: "1 \<le> c \<Longrightarrow> length (comma_loop c ds) \<le> length ds + (length ds + 3 - c) div 3"
proof (induction c ds rule: comma_loop.induct)
  case (2 c d ds)
  show ?case
  proof (cases "c = 1")
    case True
    then show ?thesis using 2(1) [of 0] by simp
  next
    case False
    then show ?thesis using 2(2) [of "c - 1"] "2.prems" by simp
  qed
qed simp

lemma ValueToString_length: "length (ValueToString comma v) \<le> 28"
proof -
  have l: "length (comma_loop c (dec_loop w [])) \<le> 27" if "2 \<le> c" for c w
  proof -
    have "length (dec_loop w []) \<le> 20" by (rule dec_loop_20)
    moreover have "length (comma_loop c (dec_loop w [])) \<le> length (dec_loop w []) + (length (dec_loop w []) + 3 - c) div 3"
      using that by (intro comma_loop_length) simp
    ultimately show ?thesis using that by linarith
  qed
  have c: "2 \<le> (if comma then [3, 1, 2] ! (n mod 3) else 999) + (1 :: nat)" for n :: nat
  proof -
    have "n mod 3 = 0 \<or> n mod 3 = 1 \<or> n mod 3 = 2" by presburger
    then show ?thesis by (elim disjE) simp_all
  qed
  show ?thesis
  proof (cases "v = 0")
    case False
    let ?c = "\<lambda>w. (if comma then [3, 1, 2] ! (length (dec_loop w []) mod 3) else 999) + (1 :: nat)"
    have "ValueToString comma v = (if sint v < 0 then 45 # comma_loop (?c (- v)) (dec_loop (- v) []) else comma_loop (?c v) (dec_loop v []))"
      using False by (simp only: ValueToString_def Let_def split: prod.split) simp
    moreover have "length (comma_loop (?c w) (dec_loop w [])) \<le> 27" for w by (rule l [OF c])
    ultimately show ?thesis using le_SucI by (cases "sint v < 0") (simp_all only: if_True if_False list.size, fastforce+)
  qed (simp add: ValueToString_def)
qed

lemma dec_loop_length_ge: "10 ^ w \<le> unat v \<Longrightarrow> w < length (dec_loop v [])"
proof (induction w arbitrary: v)
  case 0
  then have "v \<noteq> 0" by (auto simp: unat_eq_0)
  then show ?case by (simp add: dec_loop_step)
next
  case (Suc w)
  then have "v \<noteq> 0" by (auto simp: unat_eq_0)
  have "10 ^ w \<le> unat (v div 10)" using Suc.prems by (simp add: unat_div div_le_mono less_eq_div_iff_mult_less_eq)
  then show ?case using Suc.IH \<open>v \<noteq> 0\<close> by (simp add: dec_loop_step)
qed

lemma whole_text:
  assumes "D < 10 ^ 9"
  shows "length (ValueToString False (of_nat D)) \<le> 9" "10 ^ n \<le> D \<Longrightarrow> D < 10 ^ Suc n \<Longrightarrow> length (ValueToString False (of_nat D)) = Suc n"
proof -
  have u: "unat (of_nat D :: u64) = D" using assms by (intro unat_of_nat_lt) simp
  have s: "\<not> sint (of_nat D :: u64) < 0" using assms by (simp add: sint_of_nat64)
  show "length (ValueToString False (of_nat D)) \<le> 9"
    using dec_loop_length [of "of_nat D" 9] assms s by (simp add: ValueToString_plain u)
  assume n: "10 ^ n \<le> D" "D < 10 ^ Suc n"
  then have "0 < D" by (intro order_less_le_trans [OF _ n(1)]) simp
  then have "(of_nat D :: u64) \<noteq> 0" using u by (metis unat_0 less_irrefl)
  then show "length (ValueToString False (of_nat D)) = Suc n"
    using dec_loop_length [of "of_nat D" "Suc n"] dec_loop_length_ge [of n "of_nat D"] n s by (simp add: ValueToString_plain u)
qed

definition fraction :: "u64 \<Rightarrow> nat" where
  "fraction v = double_magnitude v mod one_double"

lemma FloatToString_loops:
  assumes "double_to_INTN v = Some i"
    and "zero_loop (ValueToString comma i @ [46]) (times10 (float_of_double (fraction v))) = Some ((ValueToString comma i @ [46]) @ replicate z 48, f)"
    and "digit_loop f = Some f'"
  shows "FloatToString comma v = Some (ValueToString comma i @ [46] @ replicate z 48 @ ValueToString False (of_nat (f' div one_float)))"
  using assms by (simp only: FloatToString_def fraction_def [symmetric] Let_def bind.bind_lunit prod.case append_assoc)

lemma FloatToString_returns:
  assumes "double_to_INTN v = Some i"
  shows "\<exists>z \<le> 49. \<exists>D < 10 ^ 9. FloatToString comma v = Some (ValueToString comma i @ [46] @ replicate z 48 @ ValueToString False (of_nat D))"
proof -
  let ?f0 = "float_of_double (fraction v)" and ?T = "one_float * 2 ^ 24"
  have "?f0 \<le> one_float" unfolding fraction_def one_double_def by (intro float_of_double_less mod_less_divisor) simp
  then have f1: "times10 ?f0 \<le> 11 * one_float" using times10_bounds(2) [of ?f0] by linarith
  have "one_float \<le> times10 ?f0 * 8 ^ 49" if "times10 ?f0 \<noteq> 0"
  proof -
    have "?f0 \<noteq> 0" using that by simp
    then have "9 \<le> times10 ?f0" using times10_bounds(1) [of ?f0] by linarith
    then have "9 * 8 ^ 49 \<le> times10 ?f0 * 8 ^ 49" by (rule mult_le_mono1)
    moreover have "one_float \<le> 9 * 8 ^ 49" by (simp add: one_float_def)
    ultimately show ?thesis by linarith
  qed
  then have "times10 ?f0 = 0 \<or> one_float \<le> times10 ?f0 * 8 ^ 49" by blast
  from zero_loop_ends [OF times10_float f1 this, of "ValueToString comma i @ [46]"]
  obtain z f where z: "z \<le> 49" "zero_loop (ValueToString comma i @ [46]) (times10 ?f0) = Some ((ValueToString comma i @ [46]) @ replicate z 48, f)"
      "is_float f" "f \<le> 11 * one_float" "f = 0 \<or> one_float \<le> f"
    by (elim exE conjE) (rule that)
  have "f = 0 \<or> ?T \<le> f * 8 ^ 8" using z(5) by auto
  moreover have "f \<le> 11 * ?T" using z(4) by simp
  ultimately obtain f' where f': "f' \<le> 11 * ?T" "digit_loop f = Some f'" using digit_loop_ends [OF z(3) _ _ refl] by blast
  have "f' div one_float \<le> 11 * ?T div one_float" using f'(1) by (rule div_le_mono)
  then have "f' div one_float < 10 ^ 9" by simp
  then show ?thesis using FloatToString_loops [OF assms z(2) f'(2)] z(1) by blast
qed

lemma FloatToString_seven:
  assumes "double_to_INTN v = Some i" "2 ^ 1067 dvd fraction v"
  shows "\<exists>z \<le> 49. \<exists>D < 10 ^ 9. FloatToString comma v = Some (ValueToString comma i @ [46] @ replicate z 48 @ ValueToString False (of_nat D))
    \<and> fraction v * 10 ^ (z + length (ValueToString False (of_nat D))) = D * one_double"
proof -
  obtain m where m: "fraction v = m * 2 ^ 1067" using assms(2) by (metis dvd_def mult.commute)
  have "fraction v < 2 ^ 1074" unfolding fraction_def one_double_def by (rule mod_less_divisor) simp
  then have "m < 128" unfolding m by simp
  have f0: "float_of_double (fraction v) = seven m 0" unfolding m by (rule float_of_double_seven [OF \<open>m < 128\<close>])
  have s0: "seven m 0 < one_float" using \<open>m < 128\<close> by (simp add: seven_def one_float_def)
  have f1: "times10 (float_of_double (fraction v)) = seven m 1"
    unfolding f0 using times10_seven [OF \<open>m < 128\<close>, of 0] by simp
  have "seven m 1 < 10 * one_float" using s0 seven_Suc [of m 0] by simp
  then obtain z where z: "z \<le> 6" "zero_loop (ValueToString comma i @ [46]) (seven m 1) = Some ((ValueToString comma i @ [46]) @ replicate z 48, seven m (1 + z))"
      "m = 0 \<or> one_float \<le> seven m (1 + z)" "seven m (1 + z) < 10 * one_float"
    using zero_loop_seven [OF \<open>m < 128\<close>, of 1 6] by fastforce
  obtain n where n: "n \<le> 6 - z" "digit_loop (seven m (1 + z)) = Some (seven m (1 + z + n))" "one_float dvd seven m (1 + z + n)"
    using digit_loop_seven [OF \<open>m < 128\<close>, of "1 + z" "6 - z"] z(1) by fastforce
  define D where "D = seven m (1 + z + n) div one_float"
  have D: "seven m (1 + z + n) = D * one_float" using n(3) by (simp add: D_def)
  have sv: "seven m (1 + z + n) = seven m (1 + z) * 10 ^ n" by (simp add: seven_def power_add)
  have "D * one_float < 10 * one_float * 10 ^ n" unfolding D [symmetric] sv using z(4) by (intro mult_less_mono1) simp_all
  then have "D * one_float < 10 ^ Suc n * one_float" by (simp only: power_Suc ac_simps)
  then have hi: "D < 10 ^ Suc n" by simp
  have "(10 :: nat) ^ Suc n \<le> 10 ^ 7" using n(1) by (intro power_increasing) simp_all
  then have small: "D < 10 ^ 9" using hi by simp
  have len: "m = 0 \<or> length (ValueToString False (of_nat D)) = Suc n"
  proof (cases "m = 0")
    case False
    then have "one_float * 10 ^ n \<le> D * one_float" unfolding D [symmetric] sv using z(3) by (intro mult_le_mono1) simp
    then have "10 ^ n \<le> D" by simp
    then show ?thesis using whole_text(2) [OF small _ hi] by simp
  qed simp
  have "fraction v * 10 ^ (z + Suc n) = D * one_double"
  proof -
    have p: "(2 :: nat) ^ 1067 = 2 ^ 142 * 2 ^ 925" "one_double = one_float * 2 ^ 925"
      unfolding one_float_def one_double_def by (simp_all only: power_add [symmetric]) simp_all
    have "fraction v * 10 ^ (z + Suc n) = m * 10 ^ (z + Suc n) * 2 ^ 142 * 2 ^ 925" unfolding m p(1) by (simp only: ac_simps)
    also have "m * 10 ^ (z + Suc n) * 2 ^ 142 = D * one_float" using D by (simp add: seven_def)
    finally show ?thesis by (simp only: p(2) mult.assoc)
  qed
  moreover have "D = 0" if "m = 0" using D that by (simp add: seven_def)
  ultimately have "fraction v * 10 ^ (z + length (ValueToString False (of_nat D))) = D * one_double"
    using len m by (cases "m = 0") simp_all
  then show ?thesis using FloatToString_loops [OF assms(1) _ n(2)] f1 z(1,2) small unfolding D_def [symmetric] by (intro exI [of _ z] exI [of _ D] conjI) auto
qed

subsection \<open>Properties\<close>

text \<open>A GUID is printed as its name in the table of known GUIDs, and otherwise as the
  8-4-4-4-12 hexadecimal digits of its fields; these texts tell GUIDs apart.\<close>

theorem GuidToString_text:
  "GuidToString sv g s = Some (GuidText (guid_value (mem s) g), s)
    \<and> (GuidText (guid_value m a) = GuidText (guid_value m' b)) = (guid_value m a = guid_value m' b)"
proof -
  have "GuidText (guid_value m a) = GuidText (guid_value m' b) \<Longrightarrow> guid_value m a = guid_value m' b"
    by (erule GuidText_inj [OF _ guid_value_def guid_value_def]) simp_all
  then show ?thesis using GuidToString_GuidText [of sv g s] by auto
qed

text \<open>C32: Printed numbers read back: \<open>xtoi\<close> returns the value of what \<open>x\<close> prints, and \<open>Atoi\<close> that of
  what \<open>d\<close> prints without commas when the value is not negative.\<close>

theorem printed_numbers_read_back:
  "(str16 m a (ValueToHex v) \<longrightarrow> xtoi m a = Some v) \<and> (str16 m a (ValueToString False v) \<longrightarrow> 0 \<le> sint v \<longrightarrow> Atoi m a = Some v)"
  using xtoi_ValueToHex Atoi_ValueToString by blast

text \<open>The text ``10'' at 0x100 is read as 16 and as 10.\<close>

theorem printed_numbers_read_back_witness:
  "let m = (\<lambda>_. 0)(0x100 := 49, 0x102 := 48) in xtoi m 0x100 = Some 16 \<and> Atoi m 0x100 = Some 10"
proof -
  let ?m = "(\<lambda>_. 0)(0x100 := 49, 0x102 := 48) :: memory"
  have "str16 ?m 0x100 (ValueToHex 16)" "str16 ?m 0x100 (ValueToString False 10)"
    by (simp_all add: ValueToHex_def hex_loop.simps ValueToString_plain dec_loop.simps Hex_def wlit_def load_eval)
  then show ?thesis using printed_numbers_read_back [of ?m "0x100" 16] printed_numbers_read_back [of ?m "0x100" 10] by simp
qed

text \<open>C33: Every double whose integer part fits 64 bits is printed: the integer part, a point, at most 49 zeros
  and a number of at most nine digits, which fits the scratch buffer. When the fraction needs no more
  than seven bits, the digits behind the point are the fraction exactly.\<close>

theorem FloatToString_prints:
  assumes "double_to_INTN v = Some i"
  shows "\<exists>z \<le> 49. \<exists>D < 10 ^ 9. FloatToString comma v = Some (ValueToString comma i @ [46] @ replicate z 48 @ ValueToString False (of_nat D))
    \<and> length (ValueToString comma i @ [46] @ replicate z 48 @ ValueToString False (of_nat D)) < PRINT_ITEM_BUFFER_LEN
    \<and> (2 ^ 1067 dvd fraction v \<longrightarrow> fraction v * 10 ^ (z + length (ValueToString False (of_nat D))) = D * one_double)"
proof -
  have fits: "length (ValueToString comma i @ [46] @ replicate z 48 @ ValueToString False (of_nat D)) < PRINT_ITEM_BUFFER_LEN"
    if "z \<le> 49" "D < 10 ^ 9" for z D
    using that ValueToString_length [of comma i] whole_text(1) [of D] by (simp add: PRINT_ITEM_BUFFER_LEN_def)
  show ?thesis
  proof (cases "2 ^ 1067 dvd fraction v")
    case True
    then show ?thesis using FloatToString_seven [OF assms] fits by blast
  next
    case False
    then show ?thesis using FloatToString_returns [OF assms] fits by blast
  qed
qed

text \<open>1.5 is printed as it is. The sign of -0.5 is lost, and the fraction of the largest double below 2 becomes a
  float of 1, whose digits are 10.\<close>

lemma double_eval:
  assumes "unat (drop_bit 52 v AND 0x7FF) = Suc e" "unat (v AND 0xFFFFFFFFFFFFF) = m" "e + l = 1074" "M = 2 ^ 52 + m"
  shows "double_magnitude v div one_double = M div 2 ^ l" "fraction v = M mod 2 ^ l * 2 ^ e"
proof -
  have v: "double_magnitude v = M * 2 ^ e" unfolding double_magnitude_def Let_def assms(1,2,4) by (simp only: diff_Suc_1 nat.distinct if_False)
  have p: "one_double = 2 ^ l * 2 ^ e" by (simp only: one_double_def assms(3) [symmetric] power_add mult.commute)
  show "double_magnitude v div one_double = M div 2 ^ l" unfolding v p by simp
  show "fraction v = M mod 2 ^ l * 2 ^ e" unfolding fraction_def v p by (rule mult_mod_left [symmetric])
qed

lemma half_fraction: "(2 :: nat) ^ 52 * 2 ^ 1021 = 64 * 2 ^ 1067"
proof -
  have "(64 :: nat) = 2 ^ 6" by simp
  then show ?thesis by (simp only: power_add [symmetric]) simp
qed

lemma minus_half_text: "FloatToString False 0xBFE0000000000000 = Some (wlit ''0.5'')"
proof -
  let ?v = "0xBFE0000000000000 :: u64"
  have e: "unat (drop_bit 52 ?v AND 0x7FF) = Suc 1021" "unat (?v AND 0xFFFFFFFFFFFFF) = 0" by simp_all
  note v = double_eval [OF e, of 53 "2 ^ 52"]
  have i: "double_to_INTN ?v = Some 0" unfolding double_to_INTN_def using v(1) by simp
  have "fraction ?v = 64 * 2 ^ 1067" using v(2) half_fraction by simp
  then have t: "times10 (float_of_double (fraction ?v)) = seven 64 1"
    using float_of_double_seven [of 64] times10_seven [of 64 0] by (simp only:) simp
  have s: "seven 64 1 = 5 * one_float" by (simp add: seven_def one_float_def)
  have "FloatToString False ?v = Some (ValueToString False 0 @ [46] @ replicate 0 48 @ ValueToString False (of_nat (5 * one_float div one_float)))"
    using zero_loop_stop [of "5 * one_float"] digit_loop_stop [of "5 * one_float"]
    by (intro FloatToString_loops [OF i, where f = "5 * one_float"]) (simp_all only: t s replicate_0 append_Nil2 dvd_triv_right, simp)
  then show ?thesis by (simp add: ValueToString_plain dec_loop.simps wlit_def)
qed

text \<open>52 ones do not fit a float and are rounded up.\<close>

lemma ones_round_up:
  assumes "e = 1022"
  shows "float_of_double ((2 ^ 52 - 1) * 2 ^ e) = one_float"
proof -
  let ?n = "(2 ^ 52 - 1) * 2 ^ e :: nat"
  have "?n < 2 ^ 52 * 2 ^ e" by (rule mult_less_mono1) simp_all
  then have "?n < 2 ^ (52 + e)" by (simp only: power_add)
  then have "floorlog 2 ?n \<le> 52 + e" by (rule floorlog_leI) simp_all
  moreover have "Suc (51 + e) \<le> floorlog 2 ?n"
  proof (rule floorlog_ge_SucI)
    show "2 ^ (51 + e) \<le> ?n" unfolding power_add by (rule mult_le_mono1) simp
  qed simp
  ultimately have k: "max 925 (floorlog 2 ?n - 24) = 28 + e" using assms by linarith
  have q: "?n div 2 ^ (28 + e) = (2 ^ 52 - 1) div 2 ^ 28" "?n mod 2 ^ (28 + e) = ((2 ^ 52 - 1) mod 2 ^ 28) * 2 ^ e"
    unfolding power_add mult_mod_left by (rule div_mult_mult2, simp) (rule refl)
  have "(2 ^ 52 - 1) div 2 ^ 28 = (2 ^ 24 - 1 :: nat)" "(2 ^ 52 - 1) mod 2 ^ 28 = (2 ^ 28 - 1 :: nat)" by simp_all
  note q = q [unfolded this]
  have "2 ^ 28 * 2 ^ e < 2 * (2 ^ 28 - 1) * (2 ^ e :: nat)" by (rule mult_less_mono1) simp_all
  then have r: "round_even (28 + e) ?n = 2 ^ 24" unfolding round_even_def Let_def q by (simp add: power_add mult.assoc)
  have "28 + e - 925 = 125" using assms by linarith
  then show ?thesis unfolding float_of_double_def Let_def k r one_float_def by (simp only: power_add [symmetric]) simp
qed

lemma below_two_text: "FloatToString False 0x3FFFFFFFFFFFFFFF = Some (wlit ''1.10'')"
proof -
  let ?v = "0x3FFFFFFFFFFFFFFF :: u64"
  have e: "unat (drop_bit 52 ?v AND 0x7FF) = Suc 1022" "unat (?v AND 0xFFFFFFFFFFFFF) = 2 ^ 52 - 1" by simp_all
  have v: "double_magnitude ?v div one_double = (2 ^ 53 - 1) div 2 ^ 52" "fraction ?v = (2 ^ 53 - 1) mod 2 ^ 52 * 2 ^ 1022"
    by (rule double_eval [OF e], simp_all only:, simp)+
  have i: "double_to_INTN ?v = Some 1" unfolding double_to_INTN_def v(1) by simp
  have "(2 ^ 53 - 1) mod 2 ^ 52 = (2 ^ 52 - 1 :: nat)" by simp
  then have "times10 (float_of_double (fraction ?v)) = times10 one_float" unfolding v(2) using ones_round_up [OF refl] by (simp only:)
  also have "\<dots> = 10 * one_float" using times10_exact [of one_float 10 149] by (simp add: one_float_def)
  finally have t: "times10 (float_of_double (fraction ?v)) = 10 * one_float" .
  have "FloatToString False ?v = Some (ValueToString False 1 @ [46] @ replicate 0 48 @ ValueToString False (of_nat (10 * one_float div one_float)))"
    using zero_loop_stop [of "10 * one_float"] digit_loop_stop [of "10 * one_float"]
    by (intro FloatToString_loops [OF i, where f = "10 * one_float"]) (simp_all only: t replicate_0 append_Nil2 dvd_triv_right, simp)
  then show ?thesis by (simp add: ValueToString_plain dec_loop.simps wlit_def)
qed

theorem FloatToString_prints_witness:
  "\<exists>z \<le> 49. \<exists>D < 10 ^ 9. FloatToString True 0xC0934A0000000000 = Some (wlit ''-1,234.'' @ replicate z 48 @ ValueToString False (of_nat D))
    \<and> 10 ^ (z + length (ValueToString False (of_nat D))) = 2 * D"
proof -
  let ?v = "0xC0934A0000000000 :: u64"
  have e: "unat (drop_bit 52 ?v AND 0x7FF) = Suc 1032" "unat (?v AND 0xFFFFFFFFFFFFF) = 925788790587392" by simp_all
  have v: "double_magnitude ?v div one_double = 5429388417957888 div 2 ^ 42" "fraction ?v = 5429388417957888 mod 2 ^ 42 * 2 ^ 1032"
    by (rule double_eval [OF e], simp_all only:, simp)+
  have i: "double_to_INTN ?v = Some (- 1234)" unfolding double_to_INTN_def v(1) by simp
  have "5429388417957888 mod 2 ^ 42 = (2 ^ 41 :: nat)" by simp
  then have f: "fraction ?v = 2 ^ 1073" unfolding v(2) by (simp only: power_add [symmetric]) simp
  have w: "ValueToString True (- 1234) @ [46] = wlit ''-1,234.''"
  proof -
    have "sint (- 1234 :: u64) = - 1234" "dec_loop 1234 [] = [49, 50, 51, 52]" by (simp_all add: dec_loop.simps)
    then show ?thesis by (simp add: ValueToString_def wlit_def)
  qed
  have d: "(2 :: nat) ^ 1067 dvd 2 ^ 1073" by (rule le_imp_power_dvd) simp
  have p: "one_double = 2 ^ 1073 * 2" unfolding one_double_def by (simp only: power_Suc [symmetric] mult.commute)  simp
  have h: "10 ^ n = 2 * D" if "2 ^ 1073 * 10 ^ n = D * one_double" for n D
  proof -
    have "2 ^ 1073 * 10 ^ n = 2 ^ 1073 * (2 * D)" unfolding that p by (simp only: ac_simps)
    then show ?thesis by (rule iffD1 [OF mult_left_cancel, rotated]) simp
  qed
  obtain z D where r: "z \<le> 49" "D < 10 ^ 9"
      "FloatToString True ?v = Some ((ValueToString True (- 1234) @ [46]) @ replicate z 48 @ ValueToString False (of_nat D))"
      "2 ^ 1073 * 10 ^ (z + length (ValueToString False (of_nat D))) = D * one_double"
    using FloatToString_prints [OF i, of True] d unfolding f append_assoc by blast
  then show ?thesis using h [OF r(4)] unfolding w by blast
qed

end
