(* ===== verification/EfiPathText.thy ===== *)
theory EfiPathText
  imports EfiText
begin

text \<open>
  Device paths as text, \<open>DevicePathToStr\<close> with the functions of \<open>DevPathTable\<close> in \<open>lib/dpath.c\<close>, and the
  printing functions of \<open>lib/print.c\<close> that are built on \<open>_Print\<close>. A node function appends to the string
  that a \<open>POOL_PRINT\<close> tracks. Structures have the layout of \<open>inc/efidevp.h\<close> with natural alignment. A
  string literal that is an argument of a format is written into the format, none has a \<open>%\<close>.
\<close>

subsection \<open>Appending to a string\<close>

type_synonym ('f, 'z) cat_result = "(POOL_PRINT \<times> ('f, 'z) efi_state_scheme) option"

text \<open>The formats of the node functions do not use \<open>D\<close>.\<close>

definition CatPrint ::
  "('f, 'y) print_uefi_scheme \<Rightarrow> POOL_PRINT \<Rightarrow> string \<Rightarrow> u64 list \<Rightarrow> ('f, 'z) efi_state_scheme \<Rightarrow> ('f, 'z) cat_result" where
  "CatPrint sv Str f va s = PoolCatPrint sv (scratch_texts sv) (Lit (wlit f)) va Str ToPool s"

subsection \<open>Hardware and ACPI nodes\<close>

definition DevPathPci :: "('f, 'y) print_uefi_scheme \<Rightarrow> POOL_PRINT \<Rightarrow> u64 \<Rightarrow> ('f, 'z) efi_state_scheme \<Rightarrow> ('f, 'z) cat_result" where
  "DevPathPci sv Str p s = CatPrint sv Str ''Pci(0x%x,0x%x)'' [ucast (mem s (p + 5)), ucast (mem s (p + 4))] s"

definition DevPathPccard :: "('f, 'y) print_uefi_scheme \<Rightarrow> POOL_PRINT \<Rightarrow> u64 \<Rightarrow> ('f, 'z) efi_state_scheme \<Rightarrow> ('f, 'z) cat_result" where
  "DevPathPccard sv Str p s = CatPrint sv Str ''Pccard(0x%x)'' [ucast (mem s (p + 4))] s"

definition DevPathMemMap :: "('f, 'y) print_uefi_scheme \<Rightarrow> POOL_PRINT \<Rightarrow> u64 \<Rightarrow> ('f, 'z) efi_state_scheme \<Rightarrow> ('f, 'z) cat_result" where
  "DevPathMemMap sv Str p s =
     CatPrint sv Str ''MemMap(%d,0x%x,0x%x)'' [ucast (read32 (mem s) (p + 4)), read64 (mem s) (p + 8), read64 (mem s) (p + 16)] s"

definition DevPathController :: "('f, 'y) print_uefi_scheme \<Rightarrow> POOL_PRINT \<Rightarrow> u64 \<Rightarrow> ('f, 'z) efi_state_scheme \<Rightarrow> ('f, 'z) cat_result" where
  "DevPathController sv Str p s = CatPrint sv Str ''Ctrl(%d)'' [ucast (read32 (mem s) (p + 4))] s"

definition UnknownDevice :: GUID where
  "UnknownDevice = Guid 0xCF31FAC5 0xC24E 0x11D2 [0x85, 0xF3, 0x00, 0xA0, 0xC9, 0x3E, 0xC9, 0x3B]"

definition DevPathVendor :: "('f, 'y) print_uefi_scheme \<Rightarrow> POOL_PRINT \<Rightarrow> u64 \<Rightarrow> ('f, 'z) efi_state_scheme \<Rightarrow> ('f, 'z) cat_result" where
  "DevPathVendor sv Str p s = do {
     let t = DevicePathType (mem s) p;
     let Type = (if t = 1 then ''Hw'' else if t = 3 then ''Msg'' else if t = 4 then ''Media'' else ''?'');
     (Str, s) \<leftarrow> CatPrint sv Str (''Ven'' @ Type @ ''(%g'') [p + 4] s;
     if guid_value (mem s) (p + 4) = UnknownDevice then CatPrint sv Str '':%02x)'' [ucast (mem s (p + 20))] s
     else CatPrint sv Str '')'' [] s
   }"

text \<open>The compressed EISA identifier has the vendor in its low half and the number in its high half.\<close>

definition EISA_ID_TO_NUM :: "u32 \<Rightarrow> u32" where
  "EISA_ID_TO_NUM n = drop_bit 16 n"

definition acpi_devices :: "(u32 \<times> string) list" where
  "acpi_devices = [(0x301, ''Keyboard(%d)''), (0x401, ''ParallelPort(%d)''), (0x501, ''Serial(%d)''), (0x604, ''Floppy(%d)''),
     (0xa03, ''PciRoot(%d)''), (0xa08, ''PcieRoot(%d)'')]"

definition DevPathAcpi :: "('f, 'y) print_uefi_scheme \<Rightarrow> POOL_PRINT \<Rightarrow> u64 \<Rightarrow> ('f, 'z) efi_state_scheme \<Rightarrow> ('f, 'z) cat_result" where
  "DevPathAcpi sv Str p s = do {
     let HID = read32 (mem s) (p + 4);
     let UID = read32 (mem s) (p + 8);
     if HID AND 0xffff = 0x41d0 then
       (case map_of acpi_devices (EISA_ID_TO_NUM HID) of
          Some f \<Rightarrow> CatPrint sv Str f [ucast UID] s
        | None \<Rightarrow> do {
            (Str, s) \<leftarrow> CatPrint sv Str ''Acpi(PNP%04x'' [ucast (EISA_ID_TO_NUM HID)] s;
            let UID = read32 (mem s) (p + 8);
            (Str, s) \<leftarrow> (if UID \<noteq> 0 then CatPrint sv Str '',%d'' [ucast UID] s else Some (Str, s));
            CatPrint sv Str '')'' [] s
          })
     else do {
       (Str, s) \<leftarrow> CatPrint sv Str ''Acpi(0x%X'' [ucast HID] s;
       let UID = read32 (mem s) (p + 8);
       (Str, s) \<leftarrow> (if UID \<noteq> 0 then CatPrint sv Str '',%d'' [ucast UID] s else Some (Str, s));
       CatPrint sv Str '')'' [ucast (read32 (mem s) (p + 4)), ucast (read32 (mem s) (p + 8))] s
     }
   }"

subsection \<open>Messaging nodes\<close>

definition DevPathAtapi :: "('f, 'y) print_uefi_scheme \<Rightarrow> POOL_PRINT \<Rightarrow> u64 \<Rightarrow> ('f, 'z) efi_state_scheme \<Rightarrow> ('f, 'z) cat_result" where
  "DevPathAtapi sv Str p s =
     CatPrint sv Str (''Ata('' @ (if mem s (p + 4) \<noteq> 0 then ''Secondary'' else ''Primary'') @ '',''
       @ (if mem s (p + 5) \<noteq> 0 then ''Slave'' else ''Master'') @ '')'') [] s"

definition DevPathScsi :: "('f, 'y) print_uefi_scheme \<Rightarrow> POOL_PRINT \<Rightarrow> u64 \<Rightarrow> ('f, 'z) efi_state_scheme \<Rightarrow> ('f, 'z) cat_result" where
  "DevPathScsi sv Str p s =
     CatPrint sv Str ''Scsi(%d,%d)'' [ucast (read16 (mem s) (p + 4)), ucast (read16 (mem s) (p + 6))] s"

text \<open>The type is compared with the subtype of a fibre channel node; both are 3.\<close>

definition DevPathFibre :: "('f, 'y) print_uefi_scheme \<Rightarrow> POOL_PRINT \<Rightarrow> u64 \<Rightarrow> ('f, 'z) efi_state_scheme \<Rightarrow> ('f, 'z) cat_result" where
  "DevPathFibre sv Str p s =
     CatPrint sv Str (''Fibre'' @ (if DevicePathType (mem s) p = 3 then '''' else ''Ex'') @ ''(0x%016lx,0x%016lx)'')
       [read64 (mem s) (p + 8), read64 (mem s) (p + 16)] s"

definition DevPath1394 :: "('f, 'y) print_uefi_scheme \<Rightarrow> POOL_PRINT \<Rightarrow> u64 \<Rightarrow> ('f, 'z) efi_state_scheme \<Rightarrow> ('f, 'z) cat_result" where
  "DevPath1394 sv Str p s = CatPrint sv Str ''I1394(%016lx)'' [read64 (mem s) (p + 8)] s"

definition DevPathUsb :: "('f, 'y) print_uefi_scheme \<Rightarrow> POOL_PRINT \<Rightarrow> u64 \<Rightarrow> ('f, 'z) efi_state_scheme \<Rightarrow> ('f, 'z) cat_result" where
  "DevPathUsb sv Str p s = CatPrint sv Str ''Usb(0x%x,0x%x)'' [ucast (mem s (p + 4)), ucast (mem s (p + 5))] s"

definition DevPathI2O :: "('f, 'y) print_uefi_scheme \<Rightarrow> POOL_PRINT \<Rightarrow> u64 \<Rightarrow> ('f, 'z) efi_state_scheme \<Rightarrow> ('f, 'z) cat_result" where
  "DevPathI2O sv Str p s = CatPrint sv Str ''I2O(0x%X)'' [ucast (read32 (mem s) (p + 4))] s"

text \<open>The bytes at an address, two digits each.\<close>

fun cat_bytes :: "('f, 'y) print_uefi_scheme \<Rightarrow> nat \<Rightarrow> POOL_PRINT \<Rightarrow> u64 \<Rightarrow> ('f, 'z) efi_state_scheme \<Rightarrow> ('f, 'z) cat_result" where
  "cat_bytes sv 0 Str a s = Some (Str, s)"
| "cat_bytes sv (Suc n) Str a s = do {
     (Str, s) \<leftarrow> CatPrint sv Str ''%02x'' [ucast (mem s a)] s;
     cat_bytes sv n Str (a + 1) s
   }"

definition DevPathMacAddr :: "('f, 'y) print_uefi_scheme \<Rightarrow> POOL_PRINT \<Rightarrow> u64 \<Rightarrow> ('f, 'z) efi_state_scheme \<Rightarrow> ('f, 'z) cat_result" where
  "DevPathMacAddr sv Str p s = do {
     let IfType = mem s (p + 36);
     let HwAddressSize = (if IfType = 1 \<or> IfType = 0 then 6 else DevicePathNodeLength (mem s) p - 4 - 1);
     (Str, s) \<leftarrow> CatPrint sv Str ''Mac('' [] s;
     (Str, s) \<leftarrow> cat_bytes sv (unat HwAddressSize) Str (p + 4) s;
     (Str, s) \<leftarrow> (if mem s (p + 36) \<noteq> 0 then CatPrint sv Str '',%d'' [ucast (mem s (p + 36))] s else Some (Str, s));
     CatPrint sv Str '')'' [] s
   }"

definition CatPrintIPv4 :: "('f, 'y) print_uefi_scheme \<Rightarrow> POOL_PRINT \<Rightarrow> u64 \<Rightarrow> ('f, 'z) efi_state_scheme \<Rightarrow> ('f, 'z) cat_result" where
  "CatPrintIPv4 sv Str a s =
     CatPrint sv Str ''%d.%d.%d.%d'' [ucast (mem s a), ucast (mem s (a + 1)), ucast (mem s (a + 2)), ucast (mem s (a + 3))] s"

definition IsNotNullIPv4 :: "memory \<Rightarrow> u64 \<Rightarrow> bool" where
  "IsNotNullIPv4 m a \<longleftrightarrow> m a OR m (a + 1) OR (m (a + 2) OR m (a + 3)) \<noteq> 0"

definition CatPrintNetworkProtocol :: "('f, 'y) print_uefi_scheme \<Rightarrow> POOL_PRINT \<Rightarrow> u16 \<Rightarrow> ('f, 'z) efi_state_scheme \<Rightarrow> ('f, 'z) cat_result" where
  "CatPrintNetworkProtocol sv Str Proto s =
     (if Proto = 6 then CatPrint sv Str ''TCP'' [] s
      else if Proto = 17 then CatPrint sv Str ''UDP'' [] s
      else CatPrint sv Str ''%d'' [ucast Proto] s)"

definition sizeof_IPv4_DEVICE_PATH :: u64 where "sizeof_IPv4_DEVICE_PATH = 28"
definition sizeof_IPv6_DEVICE_PATH :: u64 where "sizeof_IPv6_DEVICE_PATH = 60"

text \<open>The local address is at 4, the remote one at 8, the protocol at 16, the kind of address at 18, the
  gateway at 19 and the mask at 23.\<close>

definition DevPathIPv4 :: "('f, 'y) print_uefi_scheme \<Rightarrow> POOL_PRINT \<Rightarrow> u64 \<Rightarrow> ('f, 'z) efi_state_scheme \<Rightarrow> ('f, 'z) cat_result" where
  "DevPathIPv4 sv Str p s = do {
     (Str, s) \<leftarrow> CatPrint sv Str ''IPv4('' [] s;
     (Str, s) \<leftarrow> CatPrintIPv4 sv Str (p + 8) s;
     (Str, s) \<leftarrow> CatPrint sv Str '','' [] s;
     (Str, s) \<leftarrow> CatPrintNetworkProtocol sv Str (read16 (mem s) (p + 16)) s;
     (Str, s) \<leftarrow> CatPrint sv Str ('','' @ (if mem s (p + 18) \<noteq> 0 then ''Static'' else ''DHCP'')) [] s;
     let show1 = IsNotNullIPv4 (mem s) (p + 4);
     let show2 = (if \<not> show1 \<and> DevicePathNodeLength (mem s) p = sizeof_IPv4_DEVICE_PATH
                  then IsNotNullIPv4 (mem s) (p + 19) \<or> IsNotNullIPv4 (mem s) (p + 23) else show1);
     (Str, s) \<leftarrow> (if show2 then do {
          (Str, s) \<leftarrow> CatPrint sv Str '','' [] s;
          (Str, s) \<leftarrow> CatPrintIPv4 sv Str (p + 4) s;
          if DevicePathNodeLength (mem s) p = sizeof_IPv4_DEVICE_PATH \<and> (IsNotNullIPv4 (mem s) (p + 19) \<or> IsNotNullIPv4 (mem s) (p + 23))
          then do {
            (Str, s) \<leftarrow> CatPrint sv Str '','' [] s;
            (Str, s) \<leftarrow> CatPrintIPv4 sv Str (p + 19) s;
            if IsNotNullIPv4 (mem s) (p + 23) then do {
              (Str, s) \<leftarrow> CatPrint sv Str '','' [] s;
              CatPrintIPv4 sv Str (p + 23) s
            }
            else Some (Str, s)
          }
          else Some (Str, s)
        }
        else Some (Str, s));
     CatPrint sv Str '')'' [] s
   }"

definition CatPrintIPv6_ADD :: "u8 \<Rightarrow> u8 \<Rightarrow> u64" where
  "CatPrintIPv6_ADD x y = push_bit 8 (ucast x) OR ucast y"

definition CatPrintIPv6 :: "('f, 'y) print_uefi_scheme \<Rightarrow> POOL_PRINT \<Rightarrow> u64 \<Rightarrow> ('f, 'z) efi_state_scheme \<Rightarrow> ('f, 'z) cat_result" where
  "CatPrintIPv6 sv Str a s =
     CatPrint sv Str ''%x:%x:%x:%x:%x:%x:%x:%x''
       (map (\<lambda>k. CatPrintIPv6_ADD (mem s (a + of_nat (2 * k))) (mem s (a + of_nat (2 * k + 1)))) [0..<8]) s"

text \<open>The origin of the address is at 42, the length of the prefix at 43 and the gateway at 44. The address of
  the length is printed, not the length.\<close>

definition DevPathIPv6 :: "('f, 'y) print_uefi_scheme \<Rightarrow> POOL_PRINT \<Rightarrow> u64 \<Rightarrow> ('f, 'z) efi_state_scheme \<Rightarrow> ('f, 'z) cat_result" where
  "DevPathIPv6 sv Str p s = do {
     (Str, s) \<leftarrow> CatPrint sv Str ''IPv6('' [] s;
     (Str, s) \<leftarrow> CatPrintIPv6 sv Str (p + 20) s;
     (Str, s) \<leftarrow> CatPrint sv Str '','' [] s;
     (Str, s) \<leftarrow> CatPrintNetworkProtocol sv Str (read16 (mem s) (p + 40)) s;
     (Str, s) \<leftarrow> CatPrint sv Str ('','' @ (if mem s (p + 42) \<noteq> 0 then
          if mem s (p + 42) = 1 then ''StatelessAutoConfigure'' else ''StatefulAutoConfigure'' else ''Static'') @ '','') [] s;
     (Str, s) \<leftarrow> CatPrintIPv6 sv Str (p + 4) s;
     (Str, s) \<leftarrow> (if DevicePathNodeLength (mem s) p = sizeof_IPv6_DEVICE_PATH then do {
          (Str, s) \<leftarrow> CatPrint sv Str '','' [] s;
          (Str, s) \<leftarrow> CatPrintIPv6 sv Str (p + 44) s;
          (Str, s) \<leftarrow> CatPrint sv Str '','' [] s;
          CatPrint sv Str ''%d'' [p + 43] s
        }
        else Some (Str, s));
     CatPrint sv Str '')'' [] s
   }"

definition DevPathUri :: "('f, 'y) print_uefi_scheme \<Rightarrow> POOL_PRINT \<Rightarrow> u64 \<Rightarrow> ('f, 'z) efi_state_scheme \<Rightarrow> ('f, 'z) cat_result" where
  "DevPathUri sv Str p s = CatPrint sv Str ''Uri(%a)'' [p + 4] s"

definition DevPathInfiniBand :: "('f, 'y) print_uefi_scheme \<Rightarrow> POOL_PRINT \<Rightarrow> u64 \<Rightarrow> ('f, 'z) efi_state_scheme \<Rightarrow> ('f, 'z) cat_result" where
  "DevPathInfiniBand sv Str p s =
     CatPrint sv Str ''Infiniband(0x%x,%g,0x%lx,0x%lx,0x%lx)''
       [ucast (read32 (mem s) (p + 4)), p + 8, read64 (mem s) (p + 24), read64 (mem s) (p + 32), read64 (mem s) (p + 40)] s"

definition DevPathUart :: "('f, 'y) print_uefi_scheme \<Rightarrow> POOL_PRINT \<Rightarrow> u64 \<Rightarrow> ('f, 'z) efi_state_scheme \<Rightarrow> ('f, 'z) cat_result" where
  "DevPathUart sv Str p s = do {
     let Par = mem s (p + 17);
     let Parity = (if unat Par < 6 then ''DNEOMS'' ! unat Par else CHR ''x'');
     (Str, s) \<leftarrow> (if read64 (mem s) (p + 8) = 0 then CatPrint sv Str ''Uart(DEFAULT,'' [] s
        else CatPrint sv Str ''Uart(%ld,'' [read64 (mem s) (p + 8)] s);
     (Str, s) \<leftarrow> (if mem s (p + 16) = 0 then CatPrint sv Str ''DEFAULT,'' [] s
        else CatPrint sv Str ''%d,'' [ucast (mem s (p + 16))] s);
     (Str, s) \<leftarrow> CatPrint sv Str ''%c,'' [of_char Parity] s;
     let Stop = mem s (p + 18);
     CatPrint sv Str (if unat Stop < 4 then [''D)'', ''1)'', ''1.5)'', ''2)''] ! unat Stop else ''x)'') [] s
   }"

definition DevPathSata :: "('f, 'y) print_uefi_scheme \<Rightarrow> POOL_PRINT \<Rightarrow> u64 \<Rightarrow> ('f, 'z) efi_state_scheme \<Rightarrow> ('f, 'z) cat_result" where
  "DevPathSata sv Str p s =
     CatPrint sv Str ''Sata(0x%x,0x%x,0x%x)''
       [ucast (read16 (mem s) (p + 4)), ucast (read16 (mem s) (p + 6)), ucast (read16 (mem s) (p + 8))] s"

subsection \<open>Media and BIOS nodes\<close>

text \<open>The number of the partition is at 4, the signature at 24 and its type at 41.\<close>

definition DevPathHardDrive :: "('f, 'y) print_uefi_scheme \<Rightarrow> POOL_PRINT \<Rightarrow> u64 \<Rightarrow> ('f, 'z) efi_state_scheme \<Rightarrow> ('f, 'z) cat_result" where
  "DevPathHardDrive sv Str p s =
     (let n = ucast (read32 (mem s) (p + 4)); t = mem s (p + 41)
      in if t = 1 then CatPrint sv Str ''HD(%d,MBR,0x%08x)'' [n, ucast (read32 (mem s) (p + 24))] s
         else if t = 2 then CatPrint sv Str ''HD(%d,GPT,%g)'' [n, p + 24] s
         else CatPrint sv Str ''HD(%d,%d,0)'' [n, ucast t] s)"

definition DevPathCDROM :: "('f, 'y) print_uefi_scheme \<Rightarrow> POOL_PRINT \<Rightarrow> u64 \<Rightarrow> ('f, 'z) efi_state_scheme \<Rightarrow> ('f, 'z) cat_result" where
  "DevPathCDROM sv Str p s = CatPrint sv Str ''CDROM(0x%x)'' [ucast (read32 (mem s) (p + 4))] s"

definition DevPathFilePath :: "('f, 'y) print_uefi_scheme \<Rightarrow> POOL_PRINT \<Rightarrow> u64 \<Rightarrow> ('f, 'z) efi_state_scheme \<Rightarrow> ('f, 'z) cat_result" where
  "DevPathFilePath sv Str p s = CatPrint sv Str ''%s'' [p + 4] s"

definition DevPathMediaProtocol :: "('f, 'y) print_uefi_scheme \<Rightarrow> POOL_PRINT \<Rightarrow> u64 \<Rightarrow> ('f, 'z) efi_state_scheme \<Rightarrow> ('f, 'z) cat_result" where
  "DevPathMediaProtocol sv Str p s = CatPrint sv Str ''%g'' [p + 4] s"

definition bbs_types :: "(u16 \<times> string) list" where
  "bbs_types = [(1, ''Floppy''), (2, ''Harddrive''), (3, ''CDROM''), (4, ''PCMCIA''), (5, ''Usb''), (6, ''Net'')]"

definition DevPathBssBss :: "('f, 'y) print_uefi_scheme \<Rightarrow> POOL_PRINT \<Rightarrow> u64 \<Rightarrow> ('f, 'z) efi_state_scheme \<Rightarrow> ('f, 'z) cat_result" where
  "DevPathBssBss sv Str p s =
     (let Type = (case map_of bbs_types (read16 (mem s) (p + 4)) of Some t \<Rightarrow> t | None \<Rightarrow> ''?'')
      in CatPrint sv Str (''Bss-'' @ Type @ ''(%a)'') [p + 8] s)"

definition DevPathEndInstance :: "('f, 'y) print_uefi_scheme \<Rightarrow> POOL_PRINT \<Rightarrow> u64 \<Rightarrow> ('f, 'z) efi_state_scheme \<Rightarrow> ('f, 'z) cat_result" where
  "DevPathEndInstance sv Str p s = CatPrint sv Str '','' [] s"

text \<open>A node that is not in the table. Its type is read with the bit that marks it as unpacked, and as many
  bytes are printed from behind its header as it has with its header.\<close>

definition unknown_types :: "(u8 \<times> string) list" where
  "unknown_types = [(1, ''HardwarePath(%d''), (2, ''AcpiPath(%d''), (3, ''Msg(%d''), (4, ''MediaPath(%d''), (5, ''BbsPath(%d'')]"

definition DevPathNodeUnknown :: "('f, 'y) print_uefi_scheme \<Rightarrow> POOL_PRINT \<Rightarrow> u64 \<Rightarrow> ('f, 'z) efi_state_scheme \<Rightarrow> ('f, 'z) cat_result" where
  "DevPathNodeUnknown sv Str p s = do {
     let Type = mem s p;
     let SubType = mem s (p + 1);
     (Str, s) \<leftarrow> (case map_of unknown_types Type of
          Some f \<Rightarrow> CatPrint sv Str f [ucast SubType] s
        | None \<Rightarrow> CatPrint sv Str ''Path(%d,%d'' [ucast Type, ucast SubType] s);
     let len = unat (DevicePathNodeLength (mem s) p);
     (Str, s) \<leftarrow> (if len \<noteq> 0 then CatPrint sv Str '',0x'' [] s else Some (Str, s));
     (Str, s) \<leftarrow> cat_bytes sv len Str (p + 4) s;
     CatPrint sv Str '')'' [] s
   }"

subsection \<open>The table and the text of a path\<close>

datatype DumpNode = Dump_Pci | Dump_Pccard | Dump_MemMap | Dump_Vendor | Dump_Controller | Dump_Acpi | Dump_Atapi | Dump_Scsi
  | Dump_Fibre | Dump_1394 | Dump_Usb | Dump_I2O | Dump_MacAddr | Dump_IPv4 | Dump_IPv6 | Dump_Uri | Dump_InfiniBand | Dump_Uart
  | Dump_Sata | Dump_HardDrive | Dump_CDROM | Dump_FilePath | Dump_MediaProtocol | Dump_BssBss | Dump_EndInstance | Dump_Unknown

fun dump :: "DumpNode \<Rightarrow> ('f, 'y) print_uefi_scheme \<Rightarrow> POOL_PRINT \<Rightarrow> u64 \<Rightarrow> ('f, 'z) efi_state_scheme \<Rightarrow> ('f, 'z) cat_result" where
  "dump Dump_Pci = DevPathPci"
| "dump Dump_Pccard = DevPathPccard"
| "dump Dump_MemMap = DevPathMemMap"
| "dump Dump_Vendor = DevPathVendor"
| "dump Dump_Controller = DevPathController"
| "dump Dump_Acpi = DevPathAcpi"
| "dump Dump_Atapi = DevPathAtapi"
| "dump Dump_Scsi = DevPathScsi"
| "dump Dump_Fibre = DevPathFibre"
| "dump Dump_1394 = DevPath1394"
| "dump Dump_Usb = DevPathUsb"
| "dump Dump_I2O = DevPathI2O"
| "dump Dump_MacAddr = DevPathMacAddr"
| "dump Dump_IPv4 = DevPathIPv4"
| "dump Dump_IPv6 = DevPathIPv6"
| "dump Dump_Uri = DevPathUri"
| "dump Dump_InfiniBand = DevPathInfiniBand"
| "dump Dump_Uart = DevPathUart"
| "dump Dump_Sata = DevPathSata"
| "dump Dump_HardDrive = DevPathHardDrive"
| "dump Dump_CDROM = DevPathCDROM"
| "dump Dump_FilePath = DevPathFilePath"
| "dump Dump_MediaProtocol = DevPathMediaProtocol"
| "dump Dump_BssBss = DevPathBssBss"
| "dump Dump_EndInstance = DevPathEndInstance"
| "dump Dump_Unknown = DevPathNodeUnknown"

definition DevPathTable :: "((u8 \<times> u8) \<times> DumpNode) list" where
  "DevPathTable =
     [((1, 1), Dump_Pci), ((1, 2), Dump_Pccard), ((1, 3), Dump_MemMap), ((1, 4), Dump_Vendor), ((1, 5), Dump_Controller),
      ((2, 1), Dump_Acpi),
      ((3, 1), Dump_Atapi), ((3, 2), Dump_Scsi), ((3, 3), Dump_Fibre), ((3, 4), Dump_1394), ((3, 5), Dump_Usb), ((3, 6), Dump_I2O),
      ((3, 11), Dump_MacAddr), ((3, 12), Dump_IPv4), ((3, 13), Dump_IPv6), ((3, 24), Dump_Uri), ((3, 9), Dump_InfiniBand),
      ((3, 14), Dump_Uart), ((3, 18), Dump_Sata), ((3, 10), Dump_Vendor),
      ((4, 1), Dump_HardDrive), ((4, 2), Dump_CDROM), ((4, 3), Dump_Vendor), ((4, 4), Dump_FilePath), ((4, 5), Dump_MediaProtocol),
      ((5, 1), Dump_BssBss), ((0x7F, 1), Dump_EndInstance)]"

definition find_dump :: "memory \<Rightarrow> u64 \<Rightarrow> DumpNode" where
  "find_dump m p = (case map_of DevPathTable (DevicePathType m p, DevicePathSubType m p) of Some d \<Rightarrow> d | None \<Rightarrow> Dump_Unknown)"

partial_function (option) path_text_loop ::
  "('f, 'y) print_uefi_scheme \<Rightarrow> POOL_PRINT \<Rightarrow> u64 \<Rightarrow> ('f, 'z) efi_state_scheme \<Rightarrow> ('f, 'z) cat_result" where
  "path_text_loop sv Str p s =
     (if IsDevicePathEnd (mem s) p then Some (Str, s)
      else do {
        let d = find_dump (mem s) p;
        (Str, s) \<leftarrow> (if pp_len Str \<noteq> 0 \<and> d \<noteq> Dump_EndInstance then CatPrint sv Str ''/'' [] s else Some (Str, s));
        (Str, s) \<leftarrow> dump d sv Str p s;
        path_text_loop sv Str (NextDevicePathNode (mem s) p) s
      })"

definition DevicePathToStr ::
  "('f, 'y) print_uefi_scheme \<Rightarrow> u64 \<Rightarrow> ('f, 'z) efi_state_scheme \<Rightarrow> (u64 \<times> ('f, 'z) efi_state_scheme) option" where
  "DevicePathToStr sv DevPath s = do {
     (DevPath, s) \<leftarrow> UnpackDevicePath sv DevPath s;
     (Str, s) \<leftarrow> path_text_loop sv no_pool DevPath s;
     let s = FreePool sv DevPath s;
     let NewSize = (pp_len Str + 1) * 2;
     (str, s) \<leftarrow> ReallocatePool sv (pp_str Str) NewSize NewSize s;
     Some (str, s\<lparr>mem := write16 (mem s) (str + 2 * pp_len Str) 0\<rparr>)
   }"

subsection \<open>What is appended\<close>

lemma write_chars_str:
  "0 \<notin> set u \<Longrightarrow> 2 * length u + 2 < 2 ^ 64 \<Longrightarrow> copied a u m (write16 (write_chars a u m) (a + 2 * of_nat (length u)) 0)"
proof (induction u arbitrary: a m)
  case Nil
  then show ?case by (simp add: copied_def write16_outside numeral_2_eq_2 [symmetric])
next
  case (Cons c u)
  have b: "2 * length u + 4 < 2 ^ 64" using Cons.prems(2) by simp
  note r = str_region_Cons(1) [OF b, of a c] str_region_Cons(2) [OF b, of a]
  let ?m = "write16 m a c" and ?m' = "write16 (write_chars (a + 2) u (write16 m a c)) (a + 2 + 2 * of_nat (length u)) 0"
  have k: "copied (a + 2) u ?m ?m'" using Cons.IH [of "a + 2" ?m] Cons.prems by simp
  then have "read16 ?m' a = read16 ?m a" by (intro read16_cong) (use r(2) in \<open>auto simp: copied_def\<close>)
  then have "copied a (c # u) m ?m'" using k Cons.prems(1) r(1) unfolding copied_def by (auto simp: write16_outside)
  moreover have "?m' = write16 (write_chars a (c # u) m) (a + 2 * of_nat (length (c # u))) 0" by (simp add: algebra_simps)
  ultimately show ?case by simp
qed

lemma str16_extend:
  assumes "str16 m a t" "copied (a + 2 * of_nat (length t)) u m m'" "2 * length (t @ u) + 2 < 2 ^ 64"
  shows "str16 m' a (t @ u)"
proof -
  have t: "\<forall>k < length t. t ! k \<noteq> 0 \<and> read16 m (a + 2 * of_nat k) = t ! k" using assms(1) str16_append [of m a t "[]"] by simp
  have "read16 m' (a + 2 * of_nat k) = read16 m (a + 2 * of_nat k)" if k: "k < length t" for k
  proof (rule read16_cong)
    fix b
    assume "b \<in> region (a + 2 * of_nat k) 2"
    moreover have "region (a + of_nat (2 * k)) 2 \<subseteq> region a (2 * length t)"
      using k assms(3) by (intro region_off_sub) simp_all
    ultimately have "b \<notin> str_region (a + 2 * of_nat (length t)) u" using str_region_append(2) [OF assms(3), of a] by auto
    then show "m' b = m b" using assms(2) by (simp add: copied_def)
  qed
  then show ?thesis using t assms(2) by (simp add: str16_append copied_def)
qed

text \<open>A pool string with room for more, and what is appended to it.\<close>

definition holds :: "POOL_PRINT \<Rightarrow> memory \<Rightarrow> u16 list \<Rightarrow> bool" where
  "holds Str m t \<longleftrightarrow> str16 m (pp_str Str) t \<and> pp_len Str = of_nat (length t) \<and> length t < unat (pp_maxlen Str)
     \<and> unat (pp_maxlen Str) < 2 ^ 62"

abbreviation str_space :: "POOL_PRINT \<Rightarrow> u64 set" where
  "str_space Str \<equiv> region (pp_str Str) (2 * unat (pp_maxlen Str))"

definition appended ::
  "('f, 'z) cat_result \<Rightarrow> POOL_PRINT \<Rightarrow> u16 list \<Rightarrow> ('f, 'z) efi_state_scheme \<Rightarrow> bool" where
  "appended r Str t s \<longleftrightarrow> (\<exists>Str' m'. r = Some (Str', s\<lparr>mem := m'\<rparr>) \<and> holds Str' m' t
     \<and> pp_str Str' = pp_str Str \<and> pp_maxlen Str' = pp_maxlen Str \<and> (\<forall>b. b \<notin> str_space Str \<longrightarrow> m' b = mem s b))"

lemma poolprint_out_appends:
  assumes "holds Str (mem s) t" "0 \<notin> set u" "length (t @ u) < unat (pp_maxlen Str)"
  shows "\<exists>m'. poolprint_out sv Str u s = Some (Str\<lparr>pp_len := of_nat (length (t @ u))\<rparr>, s\<lparr>mem := m'\<rparr>)
    \<and> holds (Str\<lparr>pp_len := of_nat (length (t @ u))\<rparr>) m' (t @ u) \<and> (\<forall>b. b \<notin> str_space Str \<longrightarrow> m' b = mem s b)"
proof -
  have h: "str16 (mem s) (pp_str Str) t" "pp_len Str = of_nat (length t)" "unat (pp_maxlen Str) < 2 ^ 62"
    using assms(1) by (simp_all add: holds_def)
  have tw: "takeWhile (\<lambda>c. c \<noteq> 0) u = u" using assms(2) by (intro takeWhile_eq_all_conv [THEN iffD2]) auto
  have l: "strlen_w u = of_nat (length u)" by (simp add: strlen_w_def tw)
  have n: "unat (of_nat k :: u64) = k" if "k \<le> length (t @ u) + 1" for k
    using that assms(3) h(3) by (intro unat_of_nat_lt) simp
  have sum: "pp_len Str + strlen_w u = of_nat (length (t @ u))" by (simp add: h(2) l)
  have lt: "of_nat (length (t @ u)) < pp_maxlen Str" "\<not> pp_maxlen Str < of_nat (length (t @ u))" "\<not> pp_maxlen Str < of_nat (length (t @ u) + 1)"
    unfolding word_less_nat_alt using n [of "length (t @ u)"] n [of "length (t @ u) + 1"] assms(3) by simp_all
  let ?a = "pp_str Str + 2 * of_nat (length t)"
  let ?m = "write16 (write_chars ?a u (mem s)) (?a + 2 * of_nat (length u)) 0"
  have c: "copied ?a u (mem s) ?m" by (rule write_chars_str) (use assms(2,3) h(3) in simp_all)
  have "str16 ?m (pp_str Str) (t @ u)" by (rule str16_extend [OF h(1) c]) (use assms(3) h(3) in simp)
  then have "holds (Str\<lparr>pp_len := of_nat (length (t @ u))\<rparr>) ?m (t @ u)" using assms(3) h(3) by (simp add: holds_def)
  moreover have "str_region (pp_str Str + of_nat (2 * length t)) u \<subseteq> str_space Str"
    using assms(3) h(3) by (intro region_off_sub) simp_all
  then have "\<forall>b. b \<notin> str_space Str \<longrightarrow> ?m b = mem s b" using c by (auto simp: copied_def)
  moreover have "unat (strlen_w u) = length u" using n [of "length u"] by (simp add: l)
  then have sp: "sprint_out Str u (mem s) = Some (Str\<lparr>pp_len := of_nat (length (t @ u))\<rparr>, ?m)"
    using lt(1,2) sum h(2) by (simp add: sprint_out_def Let_def l algebra_simps)
  have nl: "(pp_len Str + strlen_w u + 1 > pp_maxlen Str) = False" unfolding sum using lt(3) by (simp add: add.commute)
  have "poolprint_out sv Str u s = Some (Str\<lparr>pp_len := of_nat (length (t @ u))\<rparr>, s\<lparr>mem := ?m\<rparr>)"
    by (simp only: poolprint_out_def Let_def nl if_False bind.bind_lunit prod.case sp)
  ultimately show ?thesis by blast
qed

lemma CatPrint_appends:
  assumes "concat (map enc pcs) = wlit f" "length f < 2 ^ 63" "\<forall>p \<in> set pcs. piece_ok p" "render pcs va = Some u"
    and "holds Str (mem s) t" "0 \<notin> set u" "length u < 199" "length (t @ u) < unat (pp_maxlen Str)"
  shows "appended (CatPrint sv Str f va s) Str (t @ u) s"
proof -
  let ?ps = "new_state (Lit (wlit f)) va ToPool Str"
  obtain i va' where p: "Print_with sv (scratch_texts sv) ?ps s
      = PFLUSH sv (emit u (?ps\<lparr>Len := 0, Pos := [], fmt_Index := i, args := va'\<rparr>)) s"
    using Print_pieces [of ?ps pcs u sv "scratch_texts sv" s] assms(1-4,7) by (auto simp: new_state_def wlit_def)
  obtain m' where o: "poolprint_out sv Str u s = Some (Str\<lparr>pp_len := of_nat (length (t @ u))\<rparr>, s\<lparr>mem := m'\<rparr>)"
      "holds (Str\<lparr>pp_len := of_nat (length (t @ u))\<rparr>) m' (t @ u)" "\<forall>b. b \<notin> str_space Str \<longrightarrow> m' b = mem s b"
    using poolprint_out_appends [OF assms(5,6,8), of sv] by blast
  have "CatPrint sv Str f va s = Some (Str\<lparr>pp_len := of_nat (length (t @ u))\<rparr>, s\<lparr>mem := m'\<rparr>)"
    unfolding CatPrint_def PoolCatPrint_def p using o(1) by (simp add: PFLUSH_def emit_def new_state_def)
  then show ?thesis using o(2,3) unfolding appended_def by auto
qed

lemma appended_bind:
  assumes "appended r Str t s"
    and "\<And>Str' s'. holds Str' (mem s') t \<Longrightarrow> pp_str Str' = pp_str Str \<Longrightarrow> pp_maxlen Str' = pp_maxlen Str
      \<Longrightarrow> \<forall>b. b \<notin> str_space Str \<longrightarrow> mem s' b = mem s b \<Longrightarrow> appended (f Str' s') Str' t' s'"
  shows "appended (do { (Str, s) \<leftarrow> r; f Str s }) Str t' s"
proof -
  obtain Str' m' where r: "r = Some (Str', s\<lparr>mem := m'\<rparr>)" "holds Str' m' t" "pp_str Str' = pp_str Str" "pp_maxlen Str' = pp_maxlen Str"
      "\<forall>b. b \<notin> str_space Str \<longrightarrow> m' b = mem s b"
    using assms(1) by (auto simp: appended_def)
  have "appended (f Str' (s\<lparr>mem := m'\<rparr>)) Str' t' (s\<lparr>mem := m'\<rparr>)" using r by (intro assms(2)) simp_all
  then show ?thesis using r by (auto simp: appended_def)
qed

lemma appended_none: "holds Str (mem s) t \<Longrightarrow> appended (Some (Str, s)) Str t s"
  unfolding appended_def by (rule exI [of _ Str], rule exI [of _ "mem s"]) simp

text \<open>Two digits for a byte, and a byte in decimal.\<close>

definition hex2 :: "u8 \<Rightarrow> u16 list" where
  "hex2 b = hexd 2 (unat b)"

definition dec :: "u8 \<Rightarrow> u16 list" where
  "dec b = ValueToString False (ucast b)"

lemma length_hex2 [simp]: "length (hex2 b) = 2"
  by (simp add: hex2_def del: hexd.simps)

lemma byte_sint: "sint (ucast (b :: u8) :: u64) = uint b" "sint (ucast (b :: u8) :: u32) = uint b"
proof -
  have b: "0 \<le> uint b" "uint b < 2 ^ 8" using unsigned_less [of b, where 'a = int] by simp_all
  then have "take_bit k (uint b) = uint b" if "8 \<le> k" for k
    using that by (intro take_bit_int_eq_self) (auto intro: less_le_trans [OF _ power_increasing [of 8 k 2]])
  moreover have "\<not> bit (uint b) 63" "\<not> bit (uint b) 31" by (auto simp: bit_uint_iff dest: bit_imp_le_length)
  ultimately show "sint (ucast (b :: u8) :: u64) = uint b" "sint (ucast (b :: u8) :: u32) = uint b"
    by (simp_all add: sint_uint unsigned_ucast_eq signed_take_bit_eq_if_positive)
qed

lemma hex2_digits: "hex2 b = [Hex ! (unat b div 16 mod 16), Hex ! (unat b mod 16)]"
  by (simp add: hex2_def numeral_2_eq_2)

lemma dec_text: "0 \<notin> set (dec b)" "10 \<notin> set (dec b)" "length (dec b) \<le> 3" "\<not> sint (ucast b :: u64) < 0"
proof -
  have n: "\<not> sint (ucast b :: u64) < 0" using byte_sint(1) [of b] by simp
  show "\<not> sint (ucast b :: u64) < 0" by (rule n)
  have "unat (ucast b :: u64) < 10 ^ 3" by (simp add: unat_ucast_up order_less_le_trans [OF unsigned_less])
  then have "length (dec_loop (ucast b) []) \<le> 3" by (rule dec_loop_length)
  then show "length (dec b) \<le> 3" using n by (simp add: dec_def ValueToString_plain)
  show "0 \<notin> set (dec b)" "10 \<notin> set (dec b)" using n dec_loop_digits [of "ucast b"] by (auto simp: dec_def ValueToString_plain)
qed

lemma render_byte:
  "render (Dir False False [] False 100 # ps) (ucast (b :: u8) # va) = map_option ((@) (dec b)) (render ps va)"
proof -
  have "arg_d False (ucast b) = ucast b" by (simp add: arg_d_def ucast_widths scast_eq byte_sint)
  then show ?thesis using dec_text [of b] by (simp add: conv_text_def dec_def filled_def width_of_def)
qed

lemma bytes_at_keep:
  assumes "bytes_at m a bs" "\<forall>b. b \<notin> A \<longrightarrow> m' b = m b" "region a (length bs) \<inter> A = {}" "length bs < 2 ^ 64"
  shows "bytes_at m' a bs"
  unfolding bytes_at_def
proof (intro allI impI)
  fix j
  assume j: "j < length bs"
  then have "a + of_nat j \<in> region a (length bs)" using assms(4) by (simp add: in_region_of_nat)
  then have "a + of_nat j \<notin> A" using assms(3) by blast
  then show "m' (a + of_nat j) = bs ! j" using assms(1,2) j by (simp add: bytes_at_def)
qed

lemma cat_bytes_appends:
  fixes s :: "('f, 'z) efi_state_scheme"
  shows "holds Str (mem s) t \<Longrightarrow> bytes_at (mem s) a bs \<Longrightarrow> length bs < 2 ^ 64 \<Longrightarrow> region a (length bs) \<inter> str_space Str = {} \<Longrightarrow>
     length t + 2 * length bs < unat (pp_maxlen Str) \<Longrightarrow>
     appended (cat_bytes sv (length bs) Str a s) Str (t @ concat (map hex2 bs)) s"
proof (induction bs arbitrary: Str s t a)
  case Nil
  then show ?case by (simp add: appended_none)
next
  case (Cons b bs)
  have m: "mem s a = b" "bytes_at (mem s) (a + 1) bs" using Cons.prems(2) by (simp_all add: bytes_at_Cons)
  have f: "appended (CatPrint sv Str ''%02x'' [ucast (mem s a)] s) Str (t @ hex2 b) s"
    using Cons.prems(1,5)
    by (intro CatPrint_appends [of "[Dir True False [50] False 120]"])
      (simp_all add: m(1) wlit_def render_hex_widths hex2_def hexd_plain del: hexd.simps render.simps(4))
  show ?case unfolding list.size cat_bytes.simps add_Suc_right add_0_right
  proof (rule appended_bind [OF f])
    fix Str' and s' :: "('f, 'z) efi_state_scheme"
    assume h: "holds Str' (mem s') (t @ hex2 b)" "pp_str Str' = pp_str Str" "pp_maxlen Str' = pp_maxlen Str"
      and k: "\<forall>b. b \<notin> str_space Str \<longrightarrow> mem s' b = mem s b"
    have r: "region (a + 1) (length bs) \<inter> str_space Str = {}"
      using region_off_sub [of 1 "length bs" "length (b # bs)" a] Cons.prems(3,4) by auto
    have "bytes_at (mem s') (a + 1) bs" using bytes_at_keep [OF m(2) k r] Cons.prems(3) by simp
    then show "appended (cat_bytes sv (length bs) Str' (a + 1) s') Str' (t @ concat (map hex2 (b # bs))) s'"
      using Cons.IH [of Str' s' "t @ hex2 b" "a + 1"] h r Cons.prems(3,5) by simp
  qed
qed

lemma unknown_types_marked: "map_of unknown_types (x OR 0x80) = None"
proof -
  have "bit (x OR 0x80) 7" by (simp add: bit_simps)
  then have "x OR 0x80 \<noteq> 1" "x OR 0x80 \<noteq> 2" "x OR 0x80 \<noteq> 3" "x OR 0x80 \<noteq> 4" "x OR 0x80 \<noteq> 5" by auto
  then show ?thesis by (simp add: unknown_types_def)
qed

text \<open>A literal is printed as it is.\<close>

lemma CatPrint_literal:
  assumes "\<forall>c \<in> set (wlit f). c \<notin> {0, 10, 37}" "length f < 199" "holds Str (mem s) t" "length t + length f < unat (pp_maxlen Str)"
  shows "appended (CatPrint sv Str f [] s) Str (t @ wlit f) s"
proof -
  have e: "concat (map enc (map Chr cs)) = cs" for cs by (induction cs) simp_all
  have r: "render (map Chr (wlit f)) [] = Some (wlit f)" using assms(1) by (induction f) (simp_all add: wlit_def crlf_def)
  have l: "length (wlit f) = length f" by (simp add: wlit_def)
  show ?thesis by (rule CatPrint_appends [OF e _ _ r assms(3)]) (use assms l in auto)
qed

lemma CatPrint_unknown:
  assumes "holds Str (mem s) t" "length t + 12 < unat (pp_maxlen Str)"
  shows "appended (CatPrint sv Str ''Path(%d,%d'' [ucast (a :: u8), ucast (b :: u8)] s) Str (t @ wlit ''Path('' @ dec a @ wlit '','' @ dec b) s"
proof (rule CatPrint_appends [of "map Chr (wlit ''Path('') @ [Dir False False [] False 100, Chr 44, Dir False False [] False 100]"])
  show "length (t @ wlit ''Path('' @ dec a @ wlit '','' @ dec b) < unat (pp_maxlen Str)"
    "length (wlit ''Path('' @ dec a @ wlit '','' @ dec b) < 199"
    using assms(2) dec_text(3) [of a] dec_text(3) [of b] by (simp_all add: wlit_def)
  show "0 \<notin> set (wlit ''Path('' @ dec a @ wlit '','' @ dec b)" using dec_text(1) by (simp add: wlit_def)
  show "render (map Chr (wlit ''Path('') @ [Dir False False [] False 100, Chr 44, Dir False False [] False 100]) [ucast a, ucast b]
      = Some (wlit ''Path('' @ dec a @ wlit '','' @ dec b)"
    by (simp add: wlit_def crlf_def render_byte del: render.simps(4))
qed (use assms(1) in \<open>simp_all add: wlit_def\<close>)

subsection \<open>Properties\<close>

text \<open>C29: A node that is not in the table is printed, once its path is unpacked, with its type as a number
  that has the mark of unpacked nodes in it, whatever the type: the names of the known types are
  never used. Behind its bytes and their padding the four bytes that follow the node are printed,
  as its header is counted among the bytes behind the header.\<close>

theorem unknown_node_text:
  fixes n :: dp_node and s :: "('f, 'z) efi_state_scheme"
  assumes "bytes_at (mem s) p (node_bytes (pad_node n) @ behind)" "length behind = 4" "node_len n \<le> 65528"
    and unlisted: "map_of DevPathTable (fst n AND 0x7F, fst (snd n)) = None"
    and room: "holds Str (mem s) t" "length t + 2 * node_len (pad_node n) + 20 < unat (pp_maxlen Str)"
    and apart: "region p (node_len (pad_node n) + 4) \<inter> str_space Str = {}"
  shows "appended (dump (find_dump (mem s) p) sv Str p s) Str
     (t @ wlit ''Path('' @ dec (fst n OR 0x80) @ wlit '','' @ dec (fst (snd n)) @ wlit '',0x''
        @ concat (map hex2 (snd (snd (pad_node n)) @ behind)) @ wlit '')'') s"
proof -
  let ?n = "pad_node n" and ?ty = "fst n OR 0x80" and ?sub = "fst (snd n)" and ?bs = "snd (snd (pad_node n)) @ behind"
  let ?W = "node_bytes (pad_node n) @ behind"
  have len: "node_len ?n < 65536" using assms(3) aligned_bounds [of "node_len n"] by (simp add: node_len_pad)
  have W: "length ?W = node_len ?n + 4" "length ?bs = node_len ?n" using assms(2) by (simp_all add: node_bytes_def node_len_def)
  have node: "m p = ?ty" "m (p + 1) = ?sub" "unat (DevicePathNodeLength m p) = node_len ?n" "bytes_at m (p + 4) ?bs" if "bytes_at m p ?W" for m
  proof -
    have u: "unat (of_nat (node_len ?n) :: u64) = node_len ?n" using len by (intro unat_of_nat_lt) simp
    have a: "bytes_at m p (node_bytes ?n)" using that by (simp add: bytes_at_append)
    show "m p = ?ty" "m (p + 1) = ?sub" "unat (DevicePathNodeLength m p) = node_len ?n"
      using node_at [OF a len] u by (simp_all add: pad_node_def)
    show "bytes_at m (p + 4) ?bs"
      using that unfolding node_bytes_def append.assoc by (simp add: bytes_at_Cons add.assoc)
  qed
  have d: "find_dump (mem s) p = Dump_Unknown"
  proof -
    have "?ty AND 0x7F = fst n AND 0x7F" by (simp add: bit.conj_disj_distrib2)
    then show ?thesis
      using unlisted node(1,2) [OF assms(1)] by (simp add: find_dump_def DevicePathType_def DevicePathSubType_def)
  qed
  have keep: "bytes_at m' p ?W" if "bytes_at m p ?W" "\<forall>b. b \<notin> str_space Str \<longrightarrow> m' b = m b" for m m'
    by (rule bytes_at_keep [OF that]) (use apart W len in simp_all)
  have sub: "region (p + 4) (length ?bs) \<inter> str_space Str = {}"
    using region_off_sub [of 4 "length ?bs" "node_len ?n + 4" p] W len apart by auto
  let ?t1 = "t @ wlit ''Path('' @ dec ?ty @ wlit '','' @ dec ?sub"
  let ?t2 = "?t1 @ wlit '',0x''" let ?t3 = "?t2 @ concat (map hex2 ?bs)" let ?t4 = "?t3 @ wlit '')''"
  have l: "length ?t1 \<le> length t + 12" "length (concat (map hex2 ?bs)) = 2 * node_len ?n"
    using dec_text(3) [of ?ty] dec_text(3) [of ?sub] W(2) by (simp_all add: wlit_def length_concat comp_def sum_list_triv)
  have "appended (DevPathNodeUnknown sv Str p s) Str ?t4 s"
    unfolding DevPathNodeUnknown_def Let_def node(1,2) [OF assms(1)] unknown_types_marked option.case
  proof (rule appended_bind [OF CatPrint_unknown [OF room(1)]])
    show "length t + 12 < unat (pp_maxlen Str)" using room(2) by simp
    fix Str1 and s1 :: "('f, 'z) efi_state_scheme"
    assume 1: "holds Str1 (mem s1) ?t1" "pp_str Str1 = pp_str Str" "pp_maxlen Str1 = pp_maxlen Str"
      "\<forall>b. b \<notin> str_space Str \<longrightarrow> mem s1 b = mem s b"
    note w1 = keep [OF assms(1) 1(4)]
    have n: "unat (DevicePathNodeLength (mem s1) p) = length ?bs" "length ?bs \<noteq> 0" using node(3) [OF w1] W(2) by (simp_all add: node_len_def)
    have c2: "appended (CatPrint sv Str1 '',0x'' [] s1) Str1 ?t2 s1"
      using CatPrint_literal [of "'',0x''" Str1 s1 ?t1 sv] 1 l(1) room(2) by (simp add: wlit_def)
    show "appended (do {
        (Str, s) \<leftarrow> (if unat (DevicePathNodeLength (mem s1) p) \<noteq> 0 then CatPrint sv Str1 '',0x'' [] s1 else Some (Str1, s1));
        (Str, s) \<leftarrow> cat_bytes sv (unat (DevicePathNodeLength (mem s1) p)) Str (p + 4) s;
        CatPrint sv Str '')'' [] s
      }) Str1 ?t4 s1"
      unfolding n(1) if_P [OF n(2)]
    proof (rule appended_bind [OF c2])
      fix Str2 and s2 :: "('f, 'z) efi_state_scheme"
      assume 2: "holds Str2 (mem s2) ?t2" "pp_str Str2 = pp_str Str1" "pp_maxlen Str2 = pp_maxlen Str1"
        "\<forall>b. b \<notin> str_space Str1 \<longrightarrow> mem s2 b = mem s1 b"
      have w2: "bytes_at (mem s2) p ?W" using keep [OF w1] 1 2 by simp
      have "appended (cat_bytes sv (length ?bs) Str2 (p + 4) s2) Str2 ?t3 s2"
        using cat_bytes_appends [OF 2(1) node(4) [OF w2]] sub 1 2 l(1) room(2) W(2) len by (simp add: wlit_def)
      then show "appended (do { (Str, s) \<leftarrow> cat_bytes sv (length ?bs) Str2 (p + 4) s2; CatPrint sv Str '')'' [] s }) Str2 ?t4 s2"
      proof (rule appended_bind)
        fix Str3 and s3 :: "('f, 'z) efi_state_scheme"
        assume "holds Str3 (mem s3) ?t3" "pp_maxlen Str3 = pp_maxlen Str2"
        then show "appended (CatPrint sv Str3 '')'' [] s3) Str3 ?t4 s3"
          using CatPrint_literal [of "'')''" Str3 s3 ?t3 sv] 1(3) 2(3) l room(2) W(2) by (simp add: wlit_def)
      qed
    qed
  qed
  then show ?thesis by (simp add: d)
qed

text \<open>An unpacked node of type 1 and subtype 9 at 0x2000 and an empty string at 0x8000.\<close>

definition small_node :: "unit efi_state" where
  "small_node = small_efi\<lparr>mem := store_bytes 0x2000 [0x81, 9, 8, 0, 7, 0, 0, 0, 5, 5, 5, 5] (\<lambda>_. 0)\<rparr>"

lemma small_node_facts:
  "pad_node (1, 9, [7]) = (0x81, 9, [7, 0, 0, 0])" "node_len (1, 9, [7]) = 5"
  "bytes_at (mem small_node) 0x2000 (node_bytes (0x81, 9, [7, 0, 0, 0]) @ [5, 5, 5, 5])"
  "holds \<lparr>pp_str = 0x8000, pp_len = 0, pp_maxlen = 100\<rparr> (mem small_node) []"
  "region 0x2000 12 \<inter> region 0x8000 200 = {}"
proof -
  have z: "replicate 3 0 = [0, 0, 0 :: u8]" by (simp add: numeral_3_eq_3)
  show "pad_node (1, 9, [7]) = (0x81, 9, [7, 0, 0, 0])" "node_len (1, 9, [7]) = 5"
    by (simp_all add: pad_node_def node_len_def aligned_def z)
  show "bytes_at (mem small_node) 0x2000 (node_bytes (0x81, 9, [7, 0, 0, 0]) @ [5, 5, 5, 5])"
    by (simp add: node_bytes_def node_len_def small_node_def store_bytes_def bytes_at_Cons)
  show "holds \<lparr>pp_str = 0x8000, pp_len = 0, pp_maxlen = 100\<rparr> (mem small_node) []"
    by (simp add: holds_def small_node_def store_bytes_def load_eval)
  show "region 0x2000 12 \<inter> region 0x8000 200 = {}"
    using regions_apart [of 0 12 "0x6000" 200 "0x2000"] by simp
qed

lemma small_node_text:
  "dec 0x81 = wlit ''129''" "dec 9 = wlit ''9''"
  by (simp_all add: dec_def ValueToString_plain dec_loop.simps wlit_def byte_sint)

theorem unknown_node_text_witness:
  "\<exists>Str s. dump (find_dump (mem small_node) 0x2000) small_printer \<lparr>pp_str = 0x8000, pp_len = 0, pp_maxlen = 100\<rparr> 0x2000 small_node = Some (Str, s)
    \<and> str16 (mem s) 0x8000 (wlit ''Path(129,9,0x0700000005050505)'')"
proof -
  let ?Str = "\<lparr>pp_str = 0x8000, pp_len = 0, pp_maxlen = 100\<rparr>" and ?n = "(1, 9, [7]) :: dp_node"
  note f = small_node_facts
  have len: "node_len (pad_node ?n) = 8" by (simp add: f(1) node_len_def)
  have "appended (dump (find_dump (mem small_node) 0x2000) small_printer ?Str 0x2000 small_node) ?Str
      ([] @ wlit ''Path('' @ dec (fst ?n OR 0x80) @ wlit '','' @ dec (fst (snd ?n)) @ wlit '',0x''
        @ concat (map hex2 (snd (snd (pad_node ?n)) @ [5, 5, 5, 5])) @ wlit '')'') small_node"
  proof (rule unknown_node_text)
    show "bytes_at (mem small_node) 0x2000 (node_bytes (pad_node ?n) @ [5, 5, 5, 5])" using f(1,3) by simp
    show "map_of DevPathTable (fst ?n AND 0x7F, fst (snd ?n)) = None" by (simp add: DevPathTable_def)
    show "region 0x2000 (node_len (pad_node ?n) + 4) \<inter> str_space ?Str = {}" using f(5) by (simp add: len)
  qed (use f(2,4) in \<open>simp_all add: len\<close>)
  then have "appended (dump (find_dump (mem small_node) 0x2000) small_printer ?Str 0x2000 small_node) ?Str
      (wlit ''Path('' @ wlit ''129'' @ wlit '','' @ wlit ''9'' @ wlit '',0x'' @ wlit ''0700000005050505'' @ wlit '')'') small_node"
    by (simp add: f(1) small_node_text hex2_digits Hex_def wlit_def)
  also have "wlit ''Path('' @ wlit ''129'' @ wlit '','' @ wlit ''9'' @ wlit '',0x'' @ wlit ''0700000005050505'' @ wlit '')''
      = wlit ''Path(129,9,0x0700000005050505)''" by (simp add: wlit_def)
  finally show ?thesis by (auto simp: appended_def holds_def)
qed

end
