(* ===== verification/EfiConsole.thy ===== *)
theory EfiConsole
  imports EfiPathText
begin

text \<open>
  The functions of \<open>lib/print.c\<close> that programs call: printing to a buffer, to a pool string, to a
  console and to the debug console. The console's mode is read from memory: a console has the pointer to
  it at 72, and it has the attribute at 8. The system table has the console at 64 and the console for
  errors at 80.
\<close>

subsection \<open>All conversions\<close>

fun read_chars :: "nat \<Rightarrow> memory \<Rightarrow> u64 \<Rightarrow> u16 list" where
  "read_chars 0 m a = []"
| "read_chars (Suc n) m a = (if read16 m a = 0 then [] else read16 m a # read_chars n m (a + 2))"

text \<open>With \<open>D\<close>, which copies at most 99 characters of the text of a path.\<close>

definition all_texts :: "('f, 'y) print_uefi_scheme \<Rightarrow> ('f, 'z) texts" where
  "all_texts sv c a s =
     (if c = 68 then do {
        (dpstr, s) \<leftarrow> DevicePathToStr sv a s;
        Some (read_chars (PRINT_ITEM_BUFFER_LEN - 1) (mem s) dpstr, FreePool sv dpstr s)
      }
      else scratch_texts sv c a s)"

subsection \<open>Buffers and pool strings\<close>

definition VSPrint ::
  "('f, 'y) print_uefi_scheme \<Rightarrow> u64 \<Rightarrow> u64 \<Rightarrow> POINTER \<Rightarrow> u64 list \<Rightarrow> ('f, 'z) efi_state_scheme \<Rightarrow> (u64 \<times> ('f, 'z) efi_state_scheme) option" where
  "VSPrint sv Str bufSize f va s = VSPrint_with sv (all_texts sv) Str bufSize f va s"

definition SPrint ::
  "('f, 'y) print_uefi_scheme \<Rightarrow> u64 \<Rightarrow> u64 \<Rightarrow> POINTER \<Rightarrow> u64 list \<Rightarrow> ('f, 'z) efi_state_scheme \<Rightarrow> (u64 \<times> ('f, 'z) efi_state_scheme) option" where
  "SPrint sv Str bufSize f va s = VSPrint sv Str bufSize f va s"

definition VPoolPrint ::
  "('f, 'y) print_uefi_scheme \<Rightarrow> POINTER \<Rightarrow> u64 list \<Rightarrow> ('f, 'z) efi_state_scheme \<Rightarrow> (u64 \<times> ('f, 'z) efi_state_scheme) option" where
  "VPoolPrint sv f va s = do {
     (spc, s) \<leftarrow> PoolCatPrint sv (all_texts sv) f va no_pool ToPool s;
     Some (pp_str spc, s)
   }"

definition PoolPrint ::
  "('f, 'y) print_uefi_scheme \<Rightarrow> POINTER \<Rightarrow> u64 list \<Rightarrow> ('f, 'z) efi_state_scheme \<Rightarrow> (u64 \<times> ('f, 'z) efi_state_scheme) option" where
  "PoolPrint sv f va s = VPoolPrint sv f va s"

subsection \<open>Consoles\<close>

definition EFI_TEXT_ATTR :: "u64 \<Rightarrow> u64 \<Rightarrow> u64" where
  "EFI_TEXT_ATTR f b = f OR push_bit 4 b"

definition console_attr :: "memory \<Rightarrow> u64 \<Rightarrow> u64" where
  "console_attr m Out = scast (read32 m (read64 m (Out + 72) + 8))"

text \<open>The normal, the highlighting and the error attribute keep the background.\<close>

definition set_attrs :: "u64 \<Rightarrow> PRINT_STATE \<Rightarrow> PRINT_STATE" where
  "set_attrs attr ps =
     (let back = drop_bit 4 attr AND 0xF
      in ps\<lparr>Attr := attr, AttrNorm := EFI_TEXT_ATTR 7 back, AttrHighlight := EFI_TEXT_ATTR 15 back, AttrError := EFI_TEXT_ATTR 14 back\<rparr>)"

text \<open>\<open>_IPrint\<close>; the length that is returned counts the carriage returns.\<close>

definition IPrint_out ::
  "('f, 'y) print_uefi_scheme \<Rightarrow> u64 \<Rightarrow> u64 \<Rightarrow> u64 \<Rightarrow> POINTER \<Rightarrow> u64 list \<Rightarrow> ('f, 'z) efi_state_scheme \<Rightarrow> (u64 \<times> ('f, 'z) efi_state_scheme) option" where
  "IPrint_out sv Column Row Out f va s = do {
     let ps = set_attrs (console_attr (mem s) Out) (new_state f va (ToConsole Out) no_pool);
     let s = (if Column \<noteq> - 1 then s\<lparr>firmware := sv_SetCursorPosition sv Out Column Row (firmware s)\<rparr> else s);
     (ps, s) \<leftarrow> Print_with sv (all_texts sv) ps s;
     Some (Len ps, s)
   }"

definition ConOut :: "('f, 'z) efi_state_scheme \<Rightarrow> u64" where
  "ConOut s = read64 (mem s) (ST s + 64)"

definition Print_efi :: "('f, 'y) print_uefi_scheme \<Rightarrow> POINTER \<Rightarrow> u64 list \<Rightarrow> ('f, 'z) efi_state_scheme \<Rightarrow> (u64 \<times> ('f, 'z) efi_state_scheme) option" where
  "Print_efi sv f va s = IPrint_out sv (- 1) (- 1) (ConOut s) f va s"

definition VPrint :: "('f, 'y) print_uefi_scheme \<Rightarrow> POINTER \<Rightarrow> u64 list \<Rightarrow> ('f, 'z) efi_state_scheme \<Rightarrow> (u64 \<times> ('f, 'z) efi_state_scheme) option" where
  "VPrint sv f va s = IPrint_out sv (- 1) (- 1) (ConOut s) f va s"

definition PrintAt ::
  "('f, 'y) print_uefi_scheme \<Rightarrow> u64 \<Rightarrow> u64 \<Rightarrow> POINTER \<Rightarrow> u64 list \<Rightarrow> ('f, 'z) efi_state_scheme \<Rightarrow> (u64 \<times> ('f, 'z) efi_state_scheme) option" where
  "PrintAt sv Column Row f va s = IPrint_out sv Column Row (ConOut s) f va s"

definition IPrint ::
  "('f, 'y) print_uefi_scheme \<Rightarrow> u64 \<Rightarrow> POINTER \<Rightarrow> u64 list \<Rightarrow> ('f, 'z) efi_state_scheme \<Rightarrow> (u64 \<times> ('f, 'z) efi_state_scheme) option" where
  "IPrint sv Out f va s = IPrint_out sv (- 1) (- 1) Out f va s"

definition IPrintAt ::
  "('f, 'y) print_uefi_scheme \<Rightarrow> u64 \<Rightarrow> u64 \<Rightarrow> u64 \<Rightarrow> POINTER \<Rightarrow> u64 list \<Rightarrow> ('f, 'z) efi_state_scheme \<Rightarrow> (u64 \<times> ('f, 'z) efi_state_scheme) option" where
  "IPrintAt sv Out Column Row f va s = IPrint_out sv Column Row Out f va s"

text \<open>The format of \<open>APrint\<close> and of \<open>DbgPrint\<close> is a narrow string.\<close>

definition APrint :: "('f, 'y) print_uefi_scheme \<Rightarrow> u64 \<Rightarrow> u64 list \<Rightarrow> ('f, 'z) efi_state_scheme \<Rightarrow> (u64 \<times> ('f, 'z) efi_state_scheme) option" where
  "APrint sv f va s = IPrint_out sv (- 1) (- 1) (ConOut s) (Ascii f) va s"

text \<open>The debug console is that of the runtime library, \<open>dbg\<close>, or else the console for errors.\<close>

definition DbgPrint ::
  "('f, 'y) print_uefi_scheme \<Rightarrow> u64 \<Rightarrow> u64 \<Rightarrow> u64 \<Rightarrow> u64 list \<Rightarrow> ('f, 'z) efi_state_scheme \<Rightarrow> (u64 \<times> ('f, 'z) efi_state_scheme) option" where
  "DbgPrint sv dbg bits f va s =
     (if EFIDebug s AND bits = 0 then Some (0, s)
      else do {
        let DbgOut = (if dbg = 0 then read64 (mem s) (ST s + 80) else dbg);
        let SavedAttribute = (if DbgOut \<noteq> 0 then console_attr (mem s) DbgOut else EFI_TEXT_ATTR 7 4);
        let ps = set_attrs SavedAttribute (new_state (Ascii f) va (ToDebug DbgOut) no_pool);
        let attr = (if bits AND 0x80000000 \<noteq> 0 then AttrError ps else if bits AND 2 \<noteq> 0 then AttrHighlight ps else AttrNorm ps);
        let (ps, s) = (if DbgOut \<noteq> 0 then (ps\<lparr>Attr := attr\<rparr>, s\<lparr>firmware := sv_SetAttribute sv DbgOut attr (firmware s)\<rparr>) else (ps, s));
        (ps, s) \<leftarrow> Print_with sv (all_texts sv) ps s;
        Some (0, if DbgOut \<noteq> 0 then s\<lparr>firmware := sv_SetAttribute sv DbgOut SavedAttribute (firmware s)\<rparr> else s)
      })"

subsection \<open>What a number looks like\<close>

text \<open>The digits of a number, from the first to the last, in a base of at least two.\<close>

fun radix_digits :: "nat \<Rightarrow> nat \<Rightarrow> nat list" where
  "radix_digits b n = (if b < 2 \<or> n < b then [n] else radix_digits b (n div b) @ [n mod b])"

declare radix_digits.simps [simp del]

definition digit_char :: "nat \<Rightarrow> u16" where
  "digit_char d = of_nat (if d < 10 then 48 + d else 55 + d)"

text \<open>In decimal a minus sign goes before the digits of a negative number, and a comma between groups of three.\<close>

definition decimal_text :: "bool \<Rightarrow> int \<Rightarrow> u16 list" where
  "decimal_text k i =
     (let ds = map digit_char (radix_digits 10 (nat \<bar>i\<bar>))
      in (if i < 0 then [45] else []) @ (if k then rev (commas (rev ds)) else ds))"

definition hex_text :: "nat \<Rightarrow> u16 list" where
  "hex_text n = map digit_char (radix_digits 16 n)"

text \<open>The number an argument stands for: \<open>x\<close> and \<open>u\<close> read 32 bits without a sign and \<open>d\<close> reads them with one.
  With \<open>l\<close>, \<open>u\<close> reads the 64 bits with a sign too.\<close>

definition argument_number :: "u16 \<Rightarrow> bool \<Rightarrow> u64 \<Rightarrow> int" where
  "argument_number v l a =
     (if l then (if v = 120 then uint a else sint a)
      else if v = 100 then sint (ucast a :: u32) else uint (ucast a :: u32))"

definition argument_text :: "u16 \<Rightarrow> bool \<Rightarrow> bool \<Rightarrow> u64 \<Rightarrow> u16 list" where
  "argument_text v k l a =
     (if v = 99 then [ucast a]
      else if v = 120 then hex_text (nat (argument_number v l a))
      else decimal_text k (argument_number v l a))"

text \<open>The text of a format: a newline is preceded by a carriage return, and an argument is filled up to its width. There
  is none when the arguments run out or a character is printed that is zero or a newline.\<close>

fun format_text :: "piece list \<Rightarrow> u64 list \<Rightarrow> u16 list option" where
  "format_text [] va = Some []"
| "format_text (Chr c # ps) va = map_option ((@) (if c = 10 then [13, 10] else [c])) (format_text ps va)"
| "format_text (Dir z k ds l v # ps) [] = None"
| "format_text (Dir z k ds l v # ps) (a # va) =
     (let t = argument_text v k l a; w = unat (width_of ds)
      in if t = [0] \<or> t = [10] then None
         else map_option ((@) (replicate (w - length t) (if z then 48 else 32) @ t)) (format_text ps va))"

lemma digit_char_Hex: "d < 16 \<Longrightarrow> digit_char d = Hex ! d"
proof -
  assume "d < 16"
  moreover have "\<forall>d \<in> set [0..<16]. digit_char d = Hex ! d" by (simp add: upt_rec digit_char_def Hex_def wlit_def)
  ultimately show ?thesis by simp
qed

lemma radix_digits_bound: "2 \<le> b \<Longrightarrow> \<forall>d \<in> set (radix_digits b n). d < b"
  by (induction b n rule: radix_digits.induct) (subst radix_digits.simps, auto)

lemma hex_loop_text: "v \<noteq> 0 \<Longrightarrow> hex_loop v [] = hex_text (unat v)"
proof (induction v rule: hex_induct)
  case (step v)
  have d: "unat (drop_bit 4 v) = unat v div 16" by (simp add: drop_bit_eq_div unat_div)
  have n: "Hex ! unat (v AND 0xf) = digit_char (unat v mod 16)" by (simp add: unat_low_nibble digit_char_Hex)
  show ?case
  proof (cases "drop_bit 4 v = 0")
    case True
    then have "unat v < 16" using d by simp
    then show ?thesis using step.prems n True by (simp add: hex_loop_step hex_text_def radix_digits.simps)
  next
    case False
    then have "unat v div 16 \<noteq> 0" using d unat_eq_0 by metis
    then have "\<not> unat v < 16" by simp
    then show ?thesis
      using step n False d by (simp add: hex_loop_step hex_text_def radix_digits.simps [of 16 "unat v"])
  qed
qed simp

lemma ValueToHex_text: "ValueToHex v = hex_text (unat v)"
  by (simp add: ValueToHex_def hex_loop_text) (simp add: hex_text_def radix_digits.simps digit_char_def)

lemma dec_digit_char: "dec_digit v = digit_char (unat v mod 10)"
proof -
  have "unat v mod 10 < 10" by simp
  moreover have "v mod 10 = of_nat (unat v mod 10)" by (rule word_unat_eq_iff [THEN iffD2]) (simp add: unat_mod unat_of_nat_lt)
  moreover have "\<forall>d \<in> set [0..<10]. ucast (ucast (of_nat d :: u64) :: u8) + 48 = digit_char d"
    by (simp add: upt_rec digit_char_def)
  ultimately show ?thesis by (simp add: dec_digit_def)
qed

lemma dec_loop_text: "v \<noteq> 0 \<Longrightarrow> dec_loop v [] = map digit_char (radix_digits 10 (unat v))"
proof (induction v rule: dec_induct)
  case (step v)
  have d: "unat (v div 10) = unat v div 10" by (simp add: unat_div)
  show ?case
  proof (cases "v div 10 = 0")
    case True
    then have "unat v < 10" using d by simp
    then show ?thesis using step.prems True by (simp add: dec_loop_step radix_digits.simps dec_digit_char)
  next
    case False
    then have "unat v div 10 \<noteq> 0" using d unat_eq_0 by metis
    then have "\<not> unat v < 10" by simp
    then show ?thesis
      using step False d by (simp add: dec_loop_step radix_digits.simps [of 10 "unat v"] dec_digit_char)
  qed
qed simp

lemma sint_bounds: "- (2 ^ 63) \<le> sint (v :: u64)" "sint v < 2 ^ 63"
  using sint_greater_eq [of v] sint_less [of v] by simp_all

lemma unat_of_sint: "0 \<le> i \<Longrightarrow> i \<le> 2 ^ 63 \<Longrightarrow> unat (word_of_int i :: u64) = nat i"
  by (simp add: unat_eq_nat_uint uint_word_of_int take_bit_int_eq_self)

lemma unat_sint: "0 \<le> sint v \<Longrightarrow> unat (v :: u64) = nat (sint v)"
  using unat_of_sint [of "sint v"] sint_bounds [of v] by simp

lemma unat_neg_sint: "sint v < 0 \<Longrightarrow> unat (- v :: u64) = nat (- sint v)"
  using unat_of_sint [of "- sint v"] sint_bounds [of v] by (simp add: wi_hom_neg [symmetric])

lemma ValueToString_text: "ValueToString k v = decimal_text k (sint v)"
proof (cases "v = 0")
  case True
  then show ?thesis by (cases k) (simp_all add: ValueToString_plain ValueToString_commas decimal_text_def radix_digits.simps digit_char_def)
next
  case False
  then have "- v \<noteq> 0" by simp
  note t = dec_loop_text [OF False] dec_loop_text [OF this]
  show ?thesis
  proof (cases "sint v < 0")
    case True
    then show ?thesis using False t(2) unat_neg_sint [OF True]
      by (cases k) (simp_all add: ValueToString_plain ValueToString_commas decimal_text_def)
  next
    case nn: False
    then show ?thesis using False t(1) unat_sint [of v]
      by (cases k) (simp_all add: ValueToString_plain ValueToString_commas decimal_text_def)
  qed
qed

lemma sint_arg_u: "sint (arg_u False a) = uint (ucast a :: u32)"
proof -
  have u: "uint (ucast (ucast a :: u32) :: u64) = uint (ucast a :: u32)" by (rule uint_up_ucast) (simp add: is_up)
  have "uint (ucast a :: u32) < 2 ^ 63" "- (2 ^ 63) \<le> uint (ucast a :: u32)"
    using uint_lt2p [of "ucast a :: u32"] by simp (rule order_trans [of _ 0], simp_all)
  then have "signed_take_bit 63 (uint (ucast a :: u32)) = uint (ucast a :: u32)" by (rule signed_take_bit_int_eq_self [rotated])
  then show ?thesis using u by (simp add: arg_u_def sint_uint)
qed

lemma sint_arg_d: "sint (arg_d False a) = sint (ucast a :: u32)"
  by (simp add: arg_d_def sint_up_scast is_up)

lemma conv_text_argument:
  assumes "v \<in> {120, 117, 100, 99}"
  shows "conv_text v k l a = argument_text v k l a"
proof -
  have "unat (arg_u l a) = nat (argument_number 120 l a)"
    by (cases l) (simp_all add: arg_u_def argument_number_def unat_ucast_up)
  moreover have "sint (arg_u l a) = argument_number 117 l a"
    using sint_arg_u by (cases l) (simp_all add: argument_number_def arg_u_def)
  moreover have "sint (arg_d l a) = argument_number 100 l a"
    using sint_arg_d by (cases l) (simp_all add: argument_number_def arg_d_def)
  ultimately show ?thesis
    using assms by (auto simp: conv_text_def argument_text_def ValueToHex_text ValueToString_text)
qed

text \<open>The text of a number has no zero and no newline.\<close>

lemma hex_text_plain: "0 \<notin> set (hex_text n)" "10 \<notin> set (hex_text n)"
proof -
  have "\<forall>d \<in> set [0..<16]. digit_char d \<noteq> 0 \<and> digit_char d \<noteq> 10" by (simp add: upt_rec digit_char_def)
  then show "0 \<notin> set (hex_text n)" "10 \<notin> set (hex_text n)"
    using radix_digits_bound [of 16 n] by (auto simp: hex_text_def)
qed

lemma set_commas: "set (commas ds) \<subseteq> insert 44 (set ds)"
  by (induction ds rule: commas.induct) auto

lemma decimal_text_plain: "0 \<notin> set (decimal_text k i)" "10 \<notin> set (decimal_text k i)"
proof -
  define ds where "ds = map digit_char (radix_digits 10 (nat \<bar>i\<bar>))"
  have "\<forall>d \<in> set [0..<10]. digit_char d \<noteq> 0 \<and> digit_char d \<noteq> 10" by (simp add: upt_rec digit_char_def)
  then have d: "0 \<notin> set ds" "10 \<notin> set ds" using radix_digits_bound [of 10 "nat \<bar>i\<bar>"] by (auto simp: ds_def)
  then have "0 \<notin> set (commas (rev ds))" "10 \<notin> set (commas (rev ds))" using set_commas [of "rev ds"] by auto
  then show "0 \<notin> set (decimal_text k i)" "10 \<notin> set (decimal_text k i)"
    using d by (simp_all add: decimal_text_def flip: ds_def)
qed

lemma render_format_text: "\<forall>p \<in> set pcs. piece_ok p \<Longrightarrow> render pcs va = format_text pcs va"
proof (induction pcs va rule: format_text.induct)
  case (4 z k ds l v ps a va)
  have "(0 \<in> set (argument_text v k l a) \<or> 10 \<in> set (argument_text v k l a)) = (argument_text v k l a = [0] \<or> argument_text v k l a = [10])"
    using hex_text_plain decimal_text_plain by (auto simp: argument_text_def) (metis list.set_intros(1))+
  then show ?case using 4 by (simp add: conv_text_argument filled_def Let_def)
qed (simp_all add: crlf_def)

lemma format_text_plain:
  "\<forall>p \<in> set pcs. piece_ok p \<Longrightarrow> format_text pcs va = Some t \<Longrightarrow> 0 \<notin> set t"
proof (induction pcs va arbitrary: t rule: format_text.induct)
  case (4 z k ds l v ps a va)
  have "0 \<notin> set (argument_text v k l a)" if "argument_text v k l a \<noteq> [0]"
    using that hex_text_plain decimal_text_plain by (auto simp: argument_text_def split: if_splits)
  then show ?case using 4 by (auto simp: Let_def split: if_splits)
qed (auto split: if_splits)

subsection \<open>Properties\<close>

text \<open>C31: A format of characters and of the conversions \<open>x\<close>, \<open>u\<close>, \<open>d\<close> and \<open>c\<close>, with \<open>l\<close>, commas, widths and
  leading zeros, whose text has fewer than 199 characters, so that it is not flushed on the way, is printed to the console
  in one piece and as its text, whatever is on the console; the length of the text is returned, and memory does not change.
  The text has the digits of the numbers: a number is printed in hexadecimal without a sign, and in decimal with the sign
  it has in 32 or 64 bits, where \<open>%lu\<close> takes its argument for signed as well.\<close>

theorem IPrint_text:
  assumes "\<forall>p \<in> set pcs. piece_ok p" "format_text pcs va = Some t" "length t < 199" "length (concat (map enc pcs)) < 2 ^ 63"
  shows "IPrint sv Out (Lit (concat (map enc pcs))) va s
    = Some (of_nat (length t), s\<lparr>firmware := sv_OutputString sv Out t (firmware s)\<rparr>)"
proof -
  have r: "render pcs va = Some t" and z: "0 \<notin> set t"
    using assms(1,2) render_format_text format_text_plain by auto
  define ps where "ps = set_attrs (console_attr (mem s) Out) (new_state (Lit (concat (map enc pcs))) va (ToConsole Out) no_pool)"
  have ps: "fmt ps = Lit (concat (map enc pcs))" "args ps = va" "RestoreAttr ps = 0" "Output ps = ToConsole Out"
    by (simp_all add: ps_def set_attrs_def new_state_def Let_def)
  obtain i va' where p: "Print_with sv (all_texts sv) ps s
      = PFLUSH sv (emit t (ps\<lparr>Len := 0, Pos := [], fmt_Index := i, args := va'\<rparr>)) s"
    using Print_pieces [OF ps(1) assms(4,1) _ assms(3) ps(3), of sv "all_texts sv" s] r ps(2) by auto
  have tw: "takeWhile (\<lambda>c. c \<noteq> 0) t = t" using z by (intro takeWhile_eq_all_conv [THEN iffD2]) auto
  show ?thesis
    unfolding IPrint_def IPrint_out_def Let_def ps_def [symmetric] using p ps(4) tw by (simp add: PFLUSH_def emit_def)
qed

text \<open>Two numbers are printed on the console at 0x100.\<close>

definition small_console :: "u16 list print_uefi" where
  "small_console = path_uefi.extend (uefi.extend
     \<lparr>sv_AllocatePool = \<lambda>t n f. (EFI_SUCCESS, Some 0x1000, f), sv_FreePool = \<lambda>a f. f,
      sv_GetMemoryMap = \<lambda>n a m f. (EFI_SUCCESS, 0, None, m, f), sv_HandleProtocol = \<lambda>h p f. (EFI_UNSUPPORTED, None, f),
      sv_LocateHandle = \<lambda>p n a m f. (EFI_NOT_FOUND, 0, m, f), sv_RaiseTPL = \<lambda>t f. (t, f), sv_RestoreTPL = \<lambda>t f. f,
      sv_GetVariable = \<lambda>name guid size buf m f. (EFI_NOT_FOUND, 0, m, f),
      sv_SetVariable = \<lambda>name guid attr size data m f. (EFI_SUCCESS, f),
      sv_StriColl = \<lambda>i a b m f. (0, f), sv_MetaiMatch = \<lambda>i a b m f. (False, f), sv_StrLwr = \<lambda>i a m f. (m, f),
      sv_StrUpr = \<lambda>i a m f. (m, f)\<rparr>
     (path_uefi.fields (\<lambda>p a m f. (EFI_NOT_FOUND, None, f))))
     (print_uefi.fields (\<lambda>Out t f. f @ t) (\<lambda>Out a f. f) (\<lambda>Out c r f. f))"

definition small_screen :: "u16 list efi_state" where
  "small_screen = \<lparr>mem = \<lambda>_. 0, firmware = [], LibInitialized = False, LibFwInstance = False, LibImageHandle = 0, ST = 0,
     PoolAllocationType = 4, UnicodeInterface = None, EFIDebug = 0, L_EFIDebug = 0x100, VarLanguage = 0x200,
     VarBootOrder = 0x300, EfiGlobalVariable = 0x400\<rparr>"

theorem IPrint_text_witness:
  "\<exists>s'. IPrint small_console 0x100 (Lit (wlit ''n=%04x %,d'')) [0x2A, 0xFFFFFB2E] small_screen = Some (13, s')
    \<and> firmware s' = wlit ''n=002A -1,234''"
proof -
  let ?pcs = "[Chr 110, Chr 61, Dir True False [52] False 120, Chr 32, Dir False True [] False 100]"
  let ?va = "[0x2A, 0xFFFFFB2E] :: u64 list"
  have w: "unat (width_of [52]) = 4" "unat (width_of []) = 0" by (simp_all add: width_of_def)
  have t: "argument_text 120 False False 0x2A = wlit ''2A''" "argument_text 100 True False 0xFFFFFB2E = wlit ''-1,234''"
    by (simp_all add: argument_text_def argument_number_def hex_text_def decimal_text_def radix_digits.simps digit_char_def wlit_def)
  have r: "format_text ?pcs ?va = Some (wlit ''n=002A -1,234'')" by (simp add: t w Let_def) (simp add: wlit_def numeral_2_eq_2)
  have f: "concat (map enc ?pcs) = wlit ''n=%04x %,d''" by (simp add: wlit_def)
  have "IPrint small_console 0x100 (Lit (concat (map enc ?pcs))) ?va small_screen
      = Some (of_nat (length (wlit ''n=002A -1,234'')),
          small_screen\<lparr>firmware := sv_OutputString small_console 0x100 (wlit ''n=002A -1,234'') (firmware small_screen)\<rparr>)"
    by (rule IPrint_text [OF _ r]) (simp_all add: wlit_def)
  then show ?thesis unfolding f
    by (simp add: small_console_def path_uefi.defs print_uefi.defs small_screen_def uefi.defs wlit_def)
qed

end
