(* ===== verification/EfiHand.thy ===== *)
theory EfiHand
  imports EfiConsole
begin

text \<open>
  \<open>LibGetUiString\<close> of \<open>lib/misc.c\<close>, the rest of \<open>lib/hand.c\<close>, handles by disk signature, files and the installation of protocols, and
  \<open>lib/sread.c\<close>, which reads a file from memory, a file system or a load file interface. A list of
  variable arguments is the list of its pairs or triples, without the null pointer at its end. Which
  information \<open>GetInfo\<close> is asked for is a value of \<open>file_info\<close>. A handle for simple reading is a structure in
  pool memory: its signature is at 0, \<open>FreeBuffer\<close> at 8, \<open>Source\<close> at 16, \<open>SourceSize\<close> at 24 and
  \<open>FileHandle\<close> at 32.
\<close>

subsection \<open>Services\<close>

datatype file_info = GenericFileInfo | FileSystemInfo | FileSystemVolumeLabelInfo

text \<open>A service that opens a file gives a null handle if it does not store one, as the callers clear it before,
  but for \<open>OpenVolume\<close>.\<close>

record 'f file_uefi = "'f print_uefi" +
  fs_OpenVolume :: "u64 \<Rightarrow> 'f \<Rightarrow> u64 \<times> u64 option \<times> 'f"
  fs_Open :: "u64 \<Rightarrow> u64 \<Rightarrow> memory \<Rightarrow> 'f \<Rightarrow> u64 \<times> u64 \<times> 'f"
  fs_Close :: "u64 \<Rightarrow> 'f \<Rightarrow> 'f"
  fs_SetPosition :: "u64 \<Rightarrow> u64 \<Rightarrow> 'f \<Rightarrow> u64 \<times> 'f"
  fs_Read :: "u64 \<Rightarrow> u64 \<Rightarrow> u64 \<Rightarrow> memory \<Rightarrow> 'f \<Rightarrow> u64 \<times> u64 \<times> memory \<times> 'f"
  fs_GetInfo :: "u64 \<Rightarrow> file_info \<Rightarrow> u64 \<Rightarrow> u64 \<Rightarrow> memory \<Rightarrow> 'f \<Rightarrow> u64 \<times> u64 \<times> memory \<times> 'f"
  ld_LoadFile :: "u64 \<Rightarrow> u64 \<Rightarrow> bool \<Rightarrow> u64 \<Rightarrow> u64 \<Rightarrow> memory \<Rightarrow> 'f \<Rightarrow> u64 \<times> u64 \<times> memory \<times> 'f"
  sv_InstallProtocol :: "u64 \<Rightarrow> protocol \<Rightarrow> u64 \<Rightarrow> 'f \<Rightarrow> u64 \<times> u64 \<times> 'f"
  sv_UninstallProtocol :: "u64 \<Rightarrow> protocol \<Rightarrow> u64 \<Rightarrow> 'f \<Rightarrow> u64 \<times> 'f"
  sv_ReinstallProtocol :: "u64 \<Rightarrow> protocol \<Rightarrow> u64 \<Rightarrow> u64 \<Rightarrow> 'f \<Rightarrow> u64 \<times> 'f"

definition EFI_LOAD_ERROR :: u64 where "EFI_LOAD_ERROR = EFIERR 1"
definition EFI_ALREADY_STARTED :: u64 where "EFI_ALREADY_STARTED = EFIERR 20"
definition TPL_NOTIFY :: u64 where "TPL_NOTIFY = 16"

subsection \<open>Strings of a user interface\<close>

text \<open>What is returned when no string is found: the text of the handle's device path, or null.\<close>

definition mismatch_text ::
  "('f, 'y) print_uefi_scheme \<Rightarrow> u64 \<Rightarrow> bool \<Rightarrow> ('f, 'z) efi_state_scheme \<Rightarrow> (u64 \<times> ('f, 'z) efi_state_scheme) option" where
  "mismatch_text sv Handle ReturnDevicePathStrOnMismatch s =
     (if ReturnDevicePathStrOnMismatch then do { (DevPath, s) \<leftarrow> DevicePathFromHandle sv Handle s; DevicePathToStr sv DevPath s }
      else Some (0, s))"

text \<open>The interface points to its entries at offset 8.\<close>

definition LibGetUiString ::
  "('f, 'y) print_uefi_scheme \<Rightarrow> u64 \<Rightarrow> nat \<Rightarrow> u64 \<Rightarrow> bool \<Rightarrow> ('f, 'z) efi_state_scheme \<Rightarrow> (u64 \<times> ('f, 'z) efi_state_scheme) option" where
  "LibGetUiString sv Handle StringType Lang ReturnDevicePathStrOnMismatch s = do {
     let (Status, v, f) = sv_HandleProtocol sv Handle UiProtocol (firmware s);
     let s = s\<lparr>firmware := f\<rparr>;
     if EFI_ERROR Status then mismatch_text sv Handle ReturnDevicePathStrOnMismatch s
     else do {
       Ui \<leftarrow> v;
       e \<leftarrow> skip_arrays StringType (mem s) (read64 (mem s) (Ui + 8));
       r \<leftarrow> search_entries (mem s) Lang e;
       case r of None \<Rightarrow> mismatch_text sv Handle ReturnDevicePathStrOnMismatch s | Some str \<Rightarrow> Some (str, s)
     }
   }"

subsection \<open>Handles by disk signature\<close>

text \<open>The signature of a hard drive node is at 24, its kind at 41 and the kind of the partition table at 40.\<close>

definition signature_matches :: "memory \<Rightarrow> u8 \<Rightarrow> u8 \<Rightarrow> u64 \<Rightarrow> u64 \<Rightarrow> bool" where
  "signature_matches m MBRType SignatureType Signature p \<longleftrightarrow>
     m (p + 40) = MBRType \<and> m (p + 41) = SignatureType
     \<and> (SignatureType = 1 \<and> read32 m Signature = read32 m (p + 24) \<or> SignatureType = 2 \<and> RtCompareGuid m Signature (p + 24) = 0)"

partial_function (option) signature_loop :: "memory \<Rightarrow> u8 \<Rightarrow> u8 \<Rightarrow> u64 \<Rightarrow> u64 \<Rightarrow> bool \<Rightarrow> bool \<Rightarrow> bool option" where
  "signature_loop m MBRType SignatureType Signature DevPath prev Match =
     (let hd = (DevicePathType m DevPath = 4 \<and> DevicePathSubType m DevPath = 1);
          Match = (Match \<or> hd \<and> \<not> prev \<and> IsDevicePathEndType m (NextDevicePathNode m DevPath)
            \<and> signature_matches m MBRType SignatureType Signature DevPath)
      in if IsDevicePathEnd m DevPath then Some Match
         else signature_loop m MBRType SignatureType Signature (NextDevicePathNode m DevPath) hd Match)"

text \<open>The loop over the handles: those that do not match are cleared. \<open>DevicePath\<close> is not set before the
  first path is found, and keeps its value when a handle has no path.\<close>

fun disk_loop ::
  "('f, 'y) uefi_scheme \<Rightarrow> u8 \<Rightarrow> u8 \<Rightarrow> u64 \<Rightarrow> nat \<Rightarrow> u64 \<Rightarrow> u64 \<Rightarrow> u64 option \<Rightarrow> u64 \<Rightarrow> ('f, 'z) efi_state_scheme
     \<Rightarrow> (u64 \<times> ('f, 'z) efi_state_scheme) option" where
  "disk_loop sv MBRType SignatureType Signature 0 Handles Index DevicePath NoHandles s = Some (NoHandles, s)"
| "disk_loop sv MBRType SignatureType Signature (Suc n) Handles Index DevicePath NoHandles s = do {
     let (Status, v, f) = sv_HandleProtocol sv (read64 (mem s) (Handles + Index * 8)) DevicePathProtocol (firmware s);
     let s = s\<lparr>firmware := f\<rparr>;
     p \<leftarrow> (case v of None \<Rightarrow> DevicePath | Some p \<Rightarrow> Some p);
     Match \<leftarrow> (if p \<noteq> 0 then signature_loop (mem s) MBRType SignatureType Signature p False False else Some False);
     let s = (if Match then s else s\<lparr>mem := write64 (mem s) (Handles + Index * 8) 0\<rparr>);
     disk_loop sv MBRType SignatureType Signature n Handles (Index + 1) (Some p) (if Match then NoHandles + 1 else NoHandles) s
   }"

fun compact_handles :: "nat \<Rightarrow> u64 \<Rightarrow> u64 \<Rightarrow> u64 \<Rightarrow> u64 \<Rightarrow> memory \<Rightarrow> u64 \<times> memory" where
  "compact_handles 0 Handles Index Buffer NoHandles m = (NoHandles, m)"
| "compact_handles (Suc n) Handles Index Buffer NoHandles m =
     (let h = read64 m (Handles + Index * 8)
      in if h \<noteq> 0 then compact_handles n Handles (Index + 1) Buffer (NoHandles + 1) (write64 m (Buffer + NoHandles * 8) h)
         else compact_handles n Handles (Index + 1) Buffer NoHandles m)"

text \<open>Status, number of handles, buffer.\<close>

definition LibLocateHandleByDiskSignature ::
  "('f, 'y) uefi_scheme \<Rightarrow> u8 \<Rightarrow> u8 \<Rightarrow> u64 \<Rightarrow> ('f, 'z) efi_state_scheme \<Rightarrow> (u64 \<times> u64 \<times> u64 \<times> ('f, 'z) efi_state_scheme) option" where
  "LibLocateHandleByDiskSignature sv MBRType SignatureType Signature s = do {
     (Status, BlockIoBuffer, BufferSize, s) \<leftarrow> locate_loop sv (ByProtocol BlockIoProtocol) EFI_SUCCESS 0 (50 * 8) s;
     let NoBlockIoHandles = (if EFI_ERROR Status then 0 else BufferSize div 8);
     if NoBlockIoHandles = 0 then Some (Status, 0, 0, FreePool sv BlockIoBuffer s)
     else do {
       (NoHandles, s) \<leftarrow> disk_loop sv MBRType SignatureType Signature (unat NoBlockIoHandles) BlockIoBuffer 0 None 0 s;
       if NoHandles = 0 then Some (EFI_SUCCESS, 0, 0, FreePool sv BlockIoBuffer s)
       else do {
         (Buffer, s) \<leftarrow> AllocatePool sv (NoHandles * 8) s;
         if Buffer = 0 then Some (EFI_OUT_OF_RESOURCES, 0, 0, FreePool sv BlockIoBuffer s)
         else
           let (NoHandles, m) = compact_handles (unat NoBlockIoHandles) BlockIoBuffer 0 Buffer 0 (mem s)
           in Some (EFI_SUCCESS, NoHandles, Buffer, FreePool sv BlockIoBuffer (s\<lparr>mem := m\<rparr>))
       }
     }
   }"

subsection \<open>Files\<close>

definition LibOpenRoot :: "('f, 'y) file_uefi_scheme \<Rightarrow> u64 \<Rightarrow> ('f, 'z) efi_state_scheme \<Rightarrow> (u64 \<times> ('f, 'z) efi_state_scheme) option" where
  "LibOpenRoot sv DeviceHandle s = do {
     let (Status, v, f) = sv_HandleProtocol sv DeviceHandle SimpleFileSystemProtocol (firmware s);
     let s = s\<lparr>firmware := f\<rparr>;
     if EFI_ERROR Status then Some (0, s)
     else do {
       Volume \<leftarrow> v;
       let (Status, File, f) = fs_OpenVolume sv Volume (firmware s);
       let s = s\<lparr>firmware := f\<rparr>;
       if EFI_ERROR Status then Some (0, s) else do { File \<leftarrow> File; Some (File, s) }
     }
   }"

partial_function (option) get_info_loop ::
  "('f, 'y) file_uefi_scheme \<Rightarrow> u64 \<Rightarrow> file_info \<Rightarrow> u64 \<Rightarrow> u64 \<Rightarrow> u64 \<Rightarrow> ('f, 'z) efi_state_scheme \<Rightarrow> (u64 \<times> ('f, 'z) efi_state_scheme) option" where
  "get_info_loop sv FHand info Status Buffer BufferSize s = do {
     (TryAgain, Status, Buffer, s) \<leftarrow> GrowBuffer sv Status Buffer BufferSize s;
     if TryAgain then
       let (Status, BufferSize, m, f) = fs_GetInfo sv FHand info BufferSize Buffer (mem s) (firmware s)
       in get_info_loop sv FHand info Status Buffer BufferSize (s\<lparr>mem := m, firmware := f\<rparr>)
     else Some (Buffer, s)
   }"

definition LibFileInfo :: "('f, 'y) file_uefi_scheme \<Rightarrow> u64 \<Rightarrow> ('f, 'z) efi_state_scheme \<Rightarrow> (u64 \<times> ('f, 'z) efi_state_scheme) option" where
  "LibFileInfo sv FHand s = get_info_loop sv FHand GenericFileInfo EFI_SUCCESS 0 (80 + 200) s"

definition LibFileSystemInfo :: "('f, 'y) file_uefi_scheme \<Rightarrow> u64 \<Rightarrow> ('f, 'z) efi_state_scheme \<Rightarrow> (u64 \<times> ('f, 'z) efi_state_scheme) option" where
  "LibFileSystemInfo sv FHand s = get_info_loop sv FHand FileSystemInfo EFI_SUCCESS 0 (36 + 200) s"

definition LibFileSystemVolumeLabelInfo ::
  "('f, 'y) file_uefi_scheme \<Rightarrow> u64 \<Rightarrow> ('f, 'z) efi_state_scheme \<Rightarrow> (u64 \<times> ('f, 'z) efi_state_scheme) option" where
  "LibFileSystemVolumeLabelInfo sv FHand s = get_info_loop sv FHand FileSystemVolumeLabelInfo EFI_SUCCESS 0 (0 + 200) s"

subsection \<open>Installing protocols\<close>

text \<open>The loop gives the status, the handle and how many interfaces it installed.\<close>

fun install_loop ::
  "('f, 'y) file_uefi_scheme \<Rightarrow> u64 \<Rightarrow> (protocol \<times> u64) list \<Rightarrow> nat \<Rightarrow> 'f \<Rightarrow> u64 \<times> u64 \<times> nat \<times> 'f" where
  "install_loop sv Handle [] Index f = (EFI_SUCCESS, Handle, Index, f)"
| "install_loop sv Handle ((p, i) # va) Index f =
     (let (Status, Handle, f) = sv_InstallProtocol sv Handle p i f
      in if EFI_ERROR Status then (Status, Handle, Index, f) else install_loop sv Handle va (Index + 1) f)"

fun uninstall_loop :: "('f, 'y) file_uefi_scheme \<Rightarrow> u64 \<Rightarrow> (protocol \<times> u64) list \<Rightarrow> 'f \<Rightarrow> 'f" where
  "uninstall_loop sv Handle [] f = f"
| "uninstall_loop sv Handle ((p, i) # va) f = uninstall_loop sv Handle va (snd (sv_UninstallProtocol sv Handle p i f))"

definition LibInstallProtocolInterfaces ::
  "('f, 'y) file_uefi_scheme \<Rightarrow> u64 \<Rightarrow> (protocol \<times> u64) list \<Rightarrow> ('f, 'z) efi_state_scheme \<Rightarrow> u64 \<times> u64 \<times> ('f, 'z) efi_state_scheme" where
  "LibInstallProtocolInterfaces sv Handle va s =
     (let (OldTpl, f) = sv_RaiseTPL sv TPL_NOTIFY (firmware s);
          (Status, New, Index, f) = install_loop sv Handle va 0 f;
          (New, f) = (if EFI_ERROR Status then (Handle, uninstall_loop sv New (take Index va) f) else (New, f))
      in (Status, New, s\<lparr>firmware := sv_RestoreTPL sv OldTpl f\<rparr>))"

definition LibUninstallProtocolInterfaces ::
  "('f, 'y) file_uefi_scheme \<Rightarrow> u64 \<Rightarrow> (protocol \<times> u64) list \<Rightarrow> ('f, 'z) efi_state_scheme \<Rightarrow> ('f, 'z) efi_state_scheme" where
  "LibUninstallProtocolInterfaces sv Handle va s = s\<lparr>firmware := uninstall_loop sv Handle va (firmware s)\<rparr>"

text \<open>\<open>Handle\<close> is the address of the caller's handle here, and it is passed to the service as the handle.\<close>

fun reinstall_loop ::
  "('f, 'y) file_uefi_scheme \<Rightarrow> u64 \<Rightarrow> (protocol \<times> u64 \<times> u64) list \<Rightarrow> nat \<Rightarrow> 'f \<Rightarrow> u64 \<times> nat \<times> 'f" where
  "reinstall_loop sv Handle [] Index f = (EFI_SUCCESS, Index, f)"
| "reinstall_loop sv Handle ((p, old, new) # va) Index f =
     (let (Status, f) = sv_ReinstallProtocol sv Handle p old new f
      in if EFI_ERROR Status then (Status, Index, f) else reinstall_loop sv Handle va (Index + 1) f)"

fun undo_loop :: "('f, 'y) file_uefi_scheme \<Rightarrow> u64 \<Rightarrow> (protocol \<times> u64 \<times> u64) list \<Rightarrow> 'f \<Rightarrow> 'f" where
  "undo_loop sv Handle [] f = f"
| "undo_loop sv Handle ((p, old, new) # va) f = undo_loop sv Handle va (snd (sv_ReinstallProtocol sv Handle p new old f))"

definition LibReinstallProtocolInterfaces ::
  "('f, 'y) file_uefi_scheme \<Rightarrow> u64 \<Rightarrow> (protocol \<times> u64 \<times> u64) list \<Rightarrow> ('f, 'z) efi_state_scheme \<Rightarrow> u64 \<times> ('f, 'z) efi_state_scheme" where
  "LibReinstallProtocolInterfaces sv Handle va s =
     (let (OldTpl, f) = sv_RaiseTPL sv TPL_NOTIFY (firmware s);
          (Status, Index, f) = reinstall_loop sv Handle va 0 f;
          f = (if EFI_ERROR Status then undo_loop sv Handle (take Index va) f else f)
      in (Status, s\<lparr>firmware := sv_RestoreTPL sv OldTpl f\<rparr>))"

subsection \<open>Simple reading\<close>

definition EFI_SIGNATURE_16 :: "u8 \<Rightarrow> u8 \<Rightarrow> u64" where
  "EFI_SIGNATURE_16 A B = ucast A OR push_bit 8 (ucast B)"

definition EFI_SIGNATURE_32 :: "u8 \<Rightarrow> u8 \<Rightarrow> u8 \<Rightarrow> u8 \<Rightarrow> u64" where
  "EFI_SIGNATURE_32 A B C D = EFI_SIGNATURE_16 A B OR push_bit 16 (EFI_SIGNATURE_16 C D)"

text \<open>The letters s, r, d, r.\<close>

definition SIMPLE_READ_SIGNATURE :: u64 where
  "SIMPLE_READ_SIGNATURE = EFI_SIGNATURE_32 0x73 0x72 0x64 0x72"

lemma SIMPLE_READ_SIGNATURE_value: "SIMPLE_READ_SIGNATURE = 0x72647273"
  by (simp add: SIMPLE_READ_SIGNATURE_def EFI_SIGNATURE_32_def EFI_SIGNATURE_16_def)

definition sizeof_SIMPLE_READ_HANDLE :: u64 where
  "sizeof_SIMPLE_READ_HANDLE = 40"

text \<open>The loop over the nodes of a file path: status, file and state.\<close>

partial_function (option) open_loop ::
  "('f, 'y) file_uefi_scheme \<Rightarrow> u64 \<Rightarrow> u64 \<Rightarrow> u64 \<Rightarrow> ('f, 'z) efi_state_scheme \<Rightarrow> (u64 \<times> u64 \<times> ('f, 'z) efi_state_scheme) option" where
  "open_loop sv Node FileHandle Status s =
     (if IsDevicePathEnd (mem s) Node then Some (Status, FileHandle, s)
      else
        let Status = (if DevicePathType (mem s) Node \<noteq> 4 \<or> DevicePathSubType (mem s) Node \<noteq> 4 then EFI_UNSUPPORTED else Status)
        in if EFI_ERROR Status then Some (Status, FileHandle, s)
           else
             let (Status, New, f) = fs_Open sv FileHandle (Node + 4) (mem s) (firmware s);
                 s = s\<lparr>firmware := fs_Close sv FileHandle f\<rparr>
             in open_loop sv (NextDevicePathNode (mem s) Node) New Status s)"

text \<open>The part of \<open>OpenSimpleReadFile\<close> that goes through the load file interface: status, device and state.\<close>

definition open_load_file ::
  "('f, 'y) file_uefi_scheme \<Rightarrow> bool \<Rightarrow> u64 \<Rightarrow> u64 \<Rightarrow> u64 option \<Rightarrow> ('f, 'z) efi_state_scheme \<Rightarrow> (u64 \<times> u64 option \<times> ('f, 'z) efi_state_scheme) option" where
  "open_load_file sv BootPolicy FHand FilePath Device s = do {
     (Status, LoadFile, s) \<leftarrow> LibDevicePathToInterface sv LoadFileProtocol FilePath s;
     if EFI_ERROR Status then Some (EFI_UNSUPPORTED, Device, s)
     else do {
       (Temp, s) \<leftarrow> DuplicateDevicePath sv FilePath s;
       let (Status, out, f) = sv_LocateDevicePath sv LoadFileProtocol Temp (mem s) (firmware s);
       let Device = (case out of None \<Rightarrow> Device | Some (rest, device) \<Rightarrow> Some device);
       let s = FreePool sv Temp (s\<lparr>firmware := f\<rparr>);
       let (Status, SourceSize, m, f) = ld_LoadFile sv LoadFile FilePath BootPolicy 0 0 (mem s) (firmware s);
       let s = s\<lparr>mem := m, firmware := f\<rparr>;
       (Status, s) \<leftarrow> (if Status = EFI_BUFFER_TOO_SMALL then do {
            (SourceBuffer, s) \<leftarrow> AllocatePool sv SourceSize s;
            if SourceBuffer \<noteq> 0 then
              let m = write64 (write64 ((mem s)(FHand + 8 := 1)) (FHand + 16) SourceBuffer) (FHand + 24) SourceSize;
                  (Status, n, m, f) = ld_LoadFile sv LoadFile FilePath BootPolicy SourceSize SourceBuffer m (firmware s)
              in Some (Status, s\<lparr>mem := m, firmware := f\<rparr>)
            else Some (Status, s)
          }
          else Some (Status, s));
       Some (if \<not> EFI_ERROR Status \<or> Status = EFI_ALREADY_STARTED then Status else EFI_UNSUPPORTED, Device, s)
     }
   }"

text \<open>Status, file path, device (if it was stored) and handle; the handle is not cleared when it is freed.\<close>

definition OpenSimpleReadFile ::
  "('f, 'y) file_uefi_scheme \<Rightarrow> bool \<Rightarrow> u64 \<Rightarrow> u64 \<Rightarrow> u64 \<Rightarrow> ('f, 'z) efi_state_scheme
     \<Rightarrow> (u64 \<times> u64 \<times> u64 option \<times> u64 option \<times> ('f, 'z) efi_state_scheme) option" where
  "OpenSimpleReadFile sv BootPolicy SourceBuffer SourceSize UserFilePath s = do {
     (FHand, s) \<leftarrow> AllocateZeroPool sv sizeof_SIMPLE_READ_HANDLE s;
     if FHand = 0 then Some (EFI_OUT_OF_RESOURCES, UserFilePath, None, None, s)
     else do {
       let s = s\<lparr>mem := write64 (mem s) FHand SIMPLE_READ_SIGNATURE\<rparr>;
       (Status, FilePath, Device, s) \<leftarrow>
         (if SourceBuffer \<noteq> 0 then
            Some (EFI_SUCCESS, UserFilePath, Some 0, s\<lparr>mem := write64 (write64 (mem s) (FHand + 16) SourceBuffer) (FHand + 24) SourceSize\<rparr>)
          else do {
            let (Status, out, f) = sv_LocateDevicePath sv SimpleFileSystemProtocol UserFilePath (mem s) (firmware s);
            let s = s\<lparr>firmware := f\<rparr>;
            let FilePath = (case out of None \<Rightarrow> UserFilePath | Some (rest, device) \<Rightarrow> rest);
            let Device = map_option snd out;
            (FileHandle, s) \<leftarrow> (if \<not> EFI_ERROR Status then do { d \<leftarrow> Device; LibOpenRoot sv d s } else Some (0, s));
            (Status, FileHandle, s) \<leftarrow> open_loop sv FilePath FileHandle (if FileHandle \<noteq> 0 then EFI_SUCCESS else EFI_UNSUPPORTED) s;
            if \<not> EFI_ERROR Status then Some (Status, FilePath, Device, s\<lparr>mem := write64 (mem s) (FHand + 32) FileHandle\<rparr>)
            else do {
              let (FilePath, s) = (if FileHandle \<noteq> 0 then (UserFilePath, s\<lparr>firmware := fs_Close sv FileHandle (firmware s)\<rparr>) else (FilePath, s));
              if Status \<noteq> EFI_UNSUPPORTED then Some (Status, FilePath, Device, s)
              else do {
                (Status, Device, s) \<leftarrow> open_load_file sv BootPolicy FHand FilePath Device s;
                Some (Status, FilePath, Device, s)
              }
            }
          });
       let s = (if EFI_ERROR Status \<and> Status \<noteq> EFI_ALREADY_STARTED then
                  let s = (if mem s (FHand + 8) \<noteq> 0 then FreePool sv (read64 (mem s) (FHand + 16)) s else s)
                  in FreePool sv FHand s
                else s);
       Some (Status, FilePath, Device, Some FHand, s)
     }
   }"

text \<open>Status and number of bytes read.\<close>

definition ReadSimpleReadFile ::
  "('f, 'y) file_uefi_scheme \<Rightarrow> u64 \<Rightarrow> u64 \<Rightarrow> u64 \<Rightarrow> u64 \<Rightarrow> ('f, 'z) efi_state_scheme \<Rightarrow> u64 \<times> u64 \<times> ('f, 'z) efi_state_scheme" where
  "ReadSimpleReadFile sv FHand Offset ReadSize Buffer s =
     (let Source = read64 (mem s) (FHand + 16); SourceSize = read64 (mem s) (FHand + 24)
      in if Source \<noteq> 0 then
           let EndPos = Offset + ReadSize;
               ReadSize = (if EndPos > SourceSize then if Offset \<ge> SourceSize then 0 else SourceSize - Offset else ReadSize)
           in (EFI_SUCCESS, ReadSize, CopyMem Buffer (Source + Offset) ReadSize s)
         else
           let (Status, f) = fs_SetPosition sv (read64 (mem s) (FHand + 32)) Offset (firmware s);
               s = s\<lparr>firmware := f\<rparr>
           in if \<not> EFI_ERROR Status then
                let (Status, ReadSize, m, f) = fs_Read sv (read64 (mem s) (FHand + 32)) ReadSize Buffer (mem s) (firmware s)
                in (Status, ReadSize, s\<lparr>mem := m, firmware := f\<rparr>)
              else (Status, ReadSize, s))"

definition CloseSimpleReadFile :: "('f, 'y) file_uefi_scheme \<Rightarrow> u64 \<Rightarrow> ('f, 'z) efi_state_scheme \<Rightarrow> ('f, 'z) efi_state_scheme" where
  "CloseSimpleReadFile sv FHand s =
     (let File = read64 (mem s) (FHand + 32);
          s = (if File \<noteq> 0 then s\<lparr>firmware := fs_Close sv File (firmware s)\<rparr> else s);
          s = (if mem s (FHand + 8) \<noteq> 0 then FreePool sv (read64 (mem s) (FHand + 16)) s else s)
      in FreePool sv FHand s)"


subsection \<open>Installing protocols: all or nothing\<close>

text \<open>What the firmware promises of installing and removing an interface, where \<open>installed\<close> is the set of what
  is installed: an error leaves it and the handle alone, success adds the interface, which was not there, to
  the handle or to a new one; no driver keeps an interface that is being removed.\<close>

definition protocol_laws :: "('f, 'y) file_uefi_scheme \<Rightarrow> ('f \<Rightarrow> (u64 \<times> protocol \<times> u64) set) \<Rightarrow> bool" where
  "protocol_laws sv installed \<longleftrightarrow>
     (\<forall>h p i f. case sv_InstallProtocol sv h p i f of (st, h', f') \<Rightarrow>
        (if EFI_ERROR st then h' = h \<and> installed f' = installed f
         else (h', p, i) \<notin> installed f \<and> installed f' = insert (h', p, i) (installed f) \<and> h' \<noteq> 0 \<and> (h \<noteq> 0 \<longrightarrow> h' = h)))
     \<and> (\<forall>h p i f. installed (snd (sv_UninstallProtocol sv h p i f)) = installed f - {(h, p, i)})
     \<and> (\<forall>t f. installed (snd (sv_RaiseTPL sv t f)) = installed f \<and> installed (sv_RestoreTPL sv t f) = installed f)"

lemma protocol_laws_simps:
  assumes "protocol_laws sv installed"
  shows "sv_InstallProtocol sv h p i f = (st, h', f') \<Longrightarrow> EFI_ERROR st \<Longrightarrow> h' = h \<and> installed f' = installed f"
    and "sv_InstallProtocol sv h p i f = (st, h', f') \<Longrightarrow> \<not> EFI_ERROR st
      \<Longrightarrow> (h', p, i) \<notin> installed f \<and> installed f' = insert (h', p, i) (installed f) \<and> h' \<noteq> 0 \<and> (h \<noteq> 0 \<longrightarrow> h' = h)"
    and "installed (snd (sv_UninstallProtocol sv h p i f)) = installed f - {(h, p, i)}"
    and "installed (snd (sv_RaiseTPL sv t f)) = installed f" "installed (sv_RestoreTPL sv t f) = installed f"
proof -
  note L = assms [unfolded protocol_laws_def]
  note a = L [THEN conjunct1, THEN spec [of _ h], THEN spec [of _ p], THEN spec [of _ i], THEN spec [of _ f]]
  show "sv_InstallProtocol sv h p i f = (st, h', f') \<Longrightarrow> EFI_ERROR st \<Longrightarrow> h' = h \<and> installed f' = installed f"
    "sv_InstallProtocol sv h p i f = (st, h', f') \<Longrightarrow> \<not> EFI_ERROR st
      \<Longrightarrow> (h', p, i) \<notin> installed f \<and> installed f' = insert (h', p, i) (installed f) \<and> h' \<noteq> 0 \<and> (h \<noteq> 0 \<longrightarrow> h' = h)"
    using a by simp_all
  show "installed (snd (sv_UninstallProtocol sv h p i f)) = installed f - {(h, p, i)}" using L by simp
  show "installed (snd (sv_RaiseTPL sv t f)) = installed f" "installed (sv_RestoreTPL sv t f) = installed f" using L by simp_all
qed

text \<open>The interfaces of an argument list on a handle.\<close>

definition pairs_on :: "u64 \<Rightarrow> (protocol \<times> u64) list \<Rightarrow> (u64 \<times> protocol \<times> u64) set" where
  "pairs_on h va = (\<lambda>(p, i). (h, p, i)) ` set va"

lemma uninstall_loop_removes:
  assumes "protocol_laws sv installed"
  shows "installed (uninstall_loop sv h va f) = installed f - pairs_on h va"
proof (induction va arbitrary: f)
  case (Cons a va)
  then show ?case using protocol_laws_simps(3) [OF assms] by (cases a) (auto simp: pairs_on_def)
qed (simp add: pairs_on_def)

text \<open>After the loop, the first arguments are installed and nothing else; they were not before.\<close>

lemma install_loop_installs:
  assumes "protocol_laws sv installed" "install_loop sv h va n f = (st, h', k, f')"
  shows "\<exists>j \<le> length va. k = n + j \<and> installed f' = installed f \<union> pairs_on h' (take j va)
    \<and> installed f \<inter> pairs_on h' (take j va) = {} \<and> (h \<noteq> 0 \<longrightarrow> h' = h) \<and> (\<not> EFI_ERROR st \<longrightarrow> j = length va)"
  using assms(2)
proof (induction va arbitrary: h n f)
  case Nil
  then show ?case by (auto simp: pairs_on_def)
next
  case (Cons a va)
  obtain p i where a: "a = (p, i)" by (cases a)
  obtain st1 h1 f1 where i: "sv_InstallProtocol sv h p i f = (st1, h1, f1)" by (cases "sv_InstallProtocol sv h p i f") auto
  show ?case
  proof (cases "EFI_ERROR st1")
    case True
    then show ?thesis using Cons.prems protocol_laws_simps(1) [OF assms(1) i]
      by (intro exI [of _ 0]) (auto simp: a i pairs_on_def)
  next
    case False
    note 1 = protocol_laws_simps(2) [OF assms(1) i False]
    have "install_loop sv h1 va (n + 1) f1 = (st, h', k, f')" using Cons.prems False by (simp add: a i)
    then obtain j where "j \<le> length va" "k = n + 1 + j" "installed f' = installed f1 \<union> pairs_on h' (take j va)"
        "installed f1 \<inter> pairs_on h' (take j va) = {}" "h1 \<noteq> 0 \<longrightarrow> h' = h1" "\<not> EFI_ERROR st \<longrightarrow> j = length va"
      using Cons.IH by blast
    then show ?thesis using 1 by (intro exI [of _ "Suc j"]) (auto simp: a pairs_on_def)
  qed
qed

text \<open>C34: Installing a list of interfaces either succeeds, and then exactly these are new on the handle, the
  given one unless it was null; or it fails, and then the handle is the given one and what is installed is
  what was installed before, whichever of the interfaces was refused. Memory does not change.\<close>

theorem LibInstallProtocolInterfaces_all_or_nothing:
  assumes "protocol_laws sv installed" "LibInstallProtocolInterfaces sv Handle va s = (Status, New, s')"
  shows "s' = s\<lparr>firmware := firmware s'\<rparr> \<and>
    (if EFI_ERROR Status then New = Handle \<and> installed (firmware s') = installed (firmware s)
     else installed (firmware s') = installed (firmware s) \<union> pairs_on New va
       \<and> installed (firmware s) \<inter> pairs_on New va = {} \<and> (Handle \<noteq> 0 \<longrightarrow> New = Handle))"
proof -
  obtain tpl f0 where t: "sv_RaiseTPL sv TPL_NOTIFY (firmware s) = (tpl, f0)" by fastforce
  obtain st h' k f' where l: "install_loop sv Handle va 0 f0 = (st, h', k, f')" by (metis prod_cases4)
  obtain j where j: "k = j" "installed f' = installed f0 \<union> pairs_on h' (take j va)"
      "installed f0 \<inter> pairs_on h' (take j va) = {}" "Handle \<noteq> 0 \<longrightarrow> h' = Handle" "\<not> EFI_ERROR st \<longrightarrow> j = length va"
    using install_loop_installs [OF assms(1) l] by auto
  have f0: "installed f0 = installed (firmware s)" using protocol_laws_simps(4) [OF assms(1), of TPL_NOTIFY "firmware s"] t by simp
  have u: "installed (uninstall_loop sv h' (take j va) f') = installed (firmware s)"
    using uninstall_loop_removes [OF assms(1)] j f0 by blast
  show ?thesis
    using assms(2) j f0 u protocol_laws_simps(5) [OF assms(1)]
    by (cases "EFI_ERROR st") (auto simp: LibInstallProtocolInterfaces_def t l)
qed


text \<open>A firmware that does nothing but serve memory at 0x1000, and files and protocols on it: protocols are kept
  in a set, and the interface 0 is refused.\<close>

definition idle_uefi :: "'f print_uefi" where
  "idle_uefi = path_uefi.extend (uefi.extend
     \<lparr>sv_AllocatePool = \<lambda>t n f. (EFI_SUCCESS, Some 0x1000, f), sv_FreePool = \<lambda>a f. f,
      sv_GetMemoryMap = \<lambda>n a m f. (EFI_SUCCESS, 0, None, m, f), sv_HandleProtocol = \<lambda>h p f. (EFI_UNSUPPORTED, None, f),
      sv_LocateHandle = \<lambda>p n a m f. (EFI_NOT_FOUND, 0, m, f), sv_RaiseTPL = \<lambda>t f. (t, f), sv_RestoreTPL = \<lambda>t f. f,
      sv_GetVariable = \<lambda>name guid size buf m f. (EFI_NOT_FOUND, 0, m, f),
      sv_SetVariable = \<lambda>name guid attr size data m f. (EFI_SUCCESS, f),
      sv_StriColl = \<lambda>i a b m f. (0, f), sv_MetaiMatch = \<lambda>i a b m f. (False, f), sv_StrLwr = \<lambda>i a m f. (m, f),
      sv_StrUpr = \<lambda>i a m f. (m, f)\<rparr>
     (path_uefi.fields (\<lambda>p a m f. (EFI_NOT_FOUND, None, f))))
     (print_uefi.fields (\<lambda>Out t f. f) (\<lambda>Out a f. f) (\<lambda>Out c r f. f))"

definition small_files :: "(u64 \<times> protocol \<times> u64) set file_uefi" where
  "small_files = print_uefi.extend idle_uefi (file_uefi.fields
     (\<lambda>v f. (EFI_UNSUPPORTED, None, f)) (\<lambda>d n m f. (EFI_NOT_FOUND, 0, f)) (\<lambda>h f. f) (\<lambda>h off f. (EFI_UNSUPPORTED, f))
     (\<lambda>h n b m f. (EFI_UNSUPPORTED, 0, m, f)) (\<lambda>h i n b m f. (EFI_UNSUPPORTED, 0, m, f)) (\<lambda>l p b n a m f. (EFI_UNSUPPORTED, 0, m, f))
     (\<lambda>h p i f. let h' = (if h = 0 then 0x500 else h)
        in if i = 0 \<or> (h', p, i) \<in> f then (EFI_UNSUPPORTED, h, f) else (EFI_SUCCESS, h', insert (h', p, i) f))
     (\<lambda>h p i f. (EFI_SUCCESS, f - {(h, p, i)})) (\<lambda>h p old new f. (EFI_UNSUPPORTED, f)))"

definition small_file_state :: "(u64 \<times> protocol \<times> u64) set efi_state" where
  "small_file_state = \<lparr>mem = \<lambda>_. 0, firmware = {}, LibInitialized = False, LibFwInstance = False, LibImageHandle = 0, ST = 0,
     PoolAllocationType = 4, UnicodeInterface = None, EFIDebug = 0, L_EFIDebug = 0x100, VarLanguage = 0x200,
     VarBootOrder = 0x300, EfiGlobalVariable = 0x400\<rparr>"

lemmas small_files_simps = small_files_def idle_uefi_def uefi.defs path_uefi.defs print_uefi.defs file_uefi.defs small_file_state_def

lemma small_files_laws: "protocol_laws small_files (\<lambda>f. f)"
  unfolding protocol_laws_def by (auto simp: small_files_simps Let_def)

theorem LibInstallProtocolInterfaces_all_or_nothing_witness:
  "\<exists>New s'. LibInstallProtocolInterfaces small_files 0 [(BlockIoProtocol, 7), (UiProtocol, 0)] small_file_state = (EFI_UNSUPPORTED, New, s')
    \<and> New = 0 \<and> firmware s' = {}"
proof -
  obtain st New s' where r: "LibInstallProtocolInterfaces small_files 0 [(BlockIoProtocol, 7), (UiProtocol, 0)] small_file_state = (st, New, s')"
    by (metis prod_cases3)
  have "st = EFI_UNSUPPORTED" using r by (auto simp: LibInstallProtocolInterfaces_def small_files_simps Let_def split: if_splits)
  then show ?thesis using LibInstallProtocolInterfaces_all_or_nothing [OF small_files_laws r] r by (simp add: small_file_state_def)
qed


subsection \<open>Reading from memory\<close>

lemma clipped:
  fixes Offset n Size :: u64
  assumes "unat Offset + unat n < 2 ^ 64"
  shows "unat (if Offset + n > Size then if Offset \<ge> Size then 0 else Size - Offset else n) = min (unat n) (unat Size - unat Offset)"
  using assms by (auto simp: word_less_nat_alt word_le_nat_alt unat_add_no_wrap unat_sub_le)

lemma CopyMem_slice:
  assumes "bytes_at (mem s) a bs" "off + n \<le> length bs" "length bs < 2 ^ 64" "region d n \<inter> region a (length bs) = {}"
  shows "wrote (mem s) d (take n (drop off bs)) (mem (CopyMem d (a + of_nat off) (of_nat n) s))"
proof -
  have l: "length (take n (drop off bs)) = n" using assms(2) by simp
  have "bytes_at (mem s) (a + of_nat off) (take n (drop off bs))"
    using assms(1,2) by (simp add: bytes_at_def add.assoc del: of_nat_add flip: of_nat_add)
  moreover have "region (a + of_nat off) n \<subseteq> region a (length bs)" using assms(2,3) by (intro region_off_sub) simp_all
  ultimately show ?thesis using CopyMem_wrote [of s "a + of_nat off" "take n (drop off bs)" d] assms by (simp add: l) blast
qed

lemma ReadSimpleReadFile_memory:
  assumes "read64 (mem s) (h + 16) = a" "a \<noteq> 0" "unat (read64 (mem s) (h + 24)) = length bs" "bytes_at (mem s) a bs"
    and "unat Offset + unat n < 2 ^ 64" "region Buffer (unat n) \<inter> region a (length bs) = {}"
  shows "\<exists>m'. ReadSimpleReadFile sv h Offset n Buffer s
      = (EFI_SUCCESS, of_nat (length (take (unat n) (drop (unat Offset) bs))), s\<lparr>mem := m'\<rparr>)
    \<and> wrote (mem s) Buffer (take (unat n) (drop (unat Offset) bs)) m'"
proof -
  let ?n = "min (unat n) (length bs - unat Offset)"
  define k where "k = (if Offset + n > read64 (mem s) (h + 24) then if Offset \<ge> read64 (mem s) (h + 24) then 0 else read64 (mem s) (h + 24) - Offset else n)"
  have k: "unat k = ?n" unfolding k_def clipped [OF assms(5)] assms(3) ..
  have k': "k = of_nat ?n" unfolding k [symmetric] by simp
  have l: "length bs < 2 ^ 64" unfolding assms(3) [symmetric] using unsigned_less [of "read64 (mem s) (h + 24)"] by simp
  have t: "take ?n (drop (unat Offset) bs) = take (unat n) (drop (unat Offset) bs)" by (cases "unat n \<le> length bs - unat Offset") (simp_all add: min_def)
  have r: "ReadSimpleReadFile sv h Offset n Buffer s = (EFI_SUCCESS, k, CopyMem Buffer (a + Offset) k s)"
    using assms(1,2) by (simp add: ReadSimpleReadFile_def k_def Let_def)
  have w: "wrote (mem s) Buffer (take ?n (drop (unat Offset) bs)) (mem (CopyMem Buffer (a + Offset) k s))"
  proof (cases "unat Offset \<le> length bs")
    case True
    have "region Buffer ?n \<inter> region a (length bs) = {}" using assms(6) region_mono [of ?n "unat n" Buffer] by auto
    then show ?thesis using CopyMem_slice [OF assms(4) _ l, of "unat Offset" ?n Buffer] True k' by simp
  next
    case False
    then show ?thesis using k by (simp add: wrote_def CopyMem_def RtCopyMem_def)
  qed
  then show ?thesis unfolding r t
    by (intro exI [of _ "mem (CopyMem Buffer (a + Offset) k s)"]) (simp add: k' CopyMem_def min.commute)
qed

text \<open>If the end of the range wraps, it is not clipped: more is copied than the source has.\<close>

lemma ReadSimpleReadFile_wraps:
  assumes "read64 (mem s) (h + 16) \<noteq> 0" "2 ^ 64 \<le> unat Offset + unat n" "Offset + n \<le> read64 (mem s) (h + 24)"
  shows "fst (snd (ReadSimpleReadFile sv h Offset n Buffer s)) = n"
  using assms by (simp add: ReadSimpleReadFile_def Let_def leD)

text \<open>C35: A file that the caller has in memory is opened with a handle from the pool, which has the signature
  \<open>srdr\<close>, and any reading from the handle returns the part of the file at the offset, cut at the end of the file, and copies exactly these bytes
  to the buffer, as long as the end of the range does not wrap. Nothing else but the handle changes.\<close>

theorem simple_read_slices:
  assumes "bytes_at (mem s) a bs" "a \<noteq> 0" "length bs < 2 ^ 64" "sv_AllocatePool sv (PoolAllocationType s) 40 (firmware s) = (EFI_SUCCESS, Some h, f)" "h \<noteq> 0"
    and "region h 40 \<inter> region a (length bs) = {}" "region Buffer (unat n) \<inter> region a (length bs) = {}"
    and "unat Offset + unat n < 2 ^ 64"
  shows "\<exists>s1 m'. OpenSimpleReadFile sv b a (of_nat (length bs)) path s = Some (EFI_SUCCESS, path, Some 0, Some h, s1) \<and> read64 (mem s1) h = 0x72647273
    \<and> ReadSimpleReadFile sv h Offset n Buffer s1
      = (EFI_SUCCESS, of_nat (length (take (unat n) (drop (unat Offset) bs))), s\<lparr>mem := m', firmware := f\<rparr>)
    \<and> bytes_at m' Buffer (take (unat n) (drop (unat Offset) bs))
    \<and> (\<forall>x. x \<notin> region h 40 \<union> region Buffer (unat n) \<longrightarrow> m' x = mem s x)"
proof -
  define m0 where "m0 = write64 (RtZeroMem h 40 (mem s)) h SIMPLE_READ_SIGNATURE"
  define m1 where "m1 = write64 (write64 m0 (h + 16) a) (h + 24) (of_nat (length bs))"
  define s1 where "s1 = s\<lparr>mem := m1, firmware := f\<rparr>"
  have open_: "OpenSimpleReadFile sv b a (of_nat (length bs)) path s = Some (EFI_SUCCESS, path, Some 0, Some h, s1)"
    using assms(2,4,5) by (simp add: OpenSimpleReadFile_def AllocateZeroPool_def AllocatePool_def ZeroMem_def
        sizeof_SIMPLE_READ_HANDLE_def s1_def m1_def m0_def Let_def)
  have sub: "region h 8 \<subseteq> region h 40" "region (h + 16) 8 \<subseteq> region h 40" "region (h + 24) 8 \<subseteq> region h 40"
    using region_off_sub [of 0 8 40 h] region_off_sub [of 16 8 40 h] region_off_sub [of 24 8 40 h] by simp_all
  have out: "m1 x = mem s x" if "x \<notin> region h 40" for x
  proof -
    have "x \<notin> region h 8" "x \<notin> region (h + 16) 8" "x \<notin> region (h + 24) 8" using that sub by blast+
    then show ?thesis using that by (simp add: m1_def m0_def RtZeroMem_def mem_simps set_loop_region)
  qed
  have apart: "region (h + 24) 8 \<inter> region (h + 16) 8 = {}" using regions_apart [of 16 8 24 8 h] by auto
  have signature: "read64 m1 h = 0x72647273"
  proof -
    have a: "region (h + 16) 8 \<inter> region h 8 = {}" "region (h + 24) 8 \<inter> region h 8 = {}"
      using regions_apart [of 0 8 16 8 h] regions_apart [of 0 8 24 8 h] by auto
    have "read64 m1 h = read64 (write64 m0 (h + 16) a) h"
      unfolding m1_def by (rule read64_cong, rule write64_outside, use a(2) in blast)
    also have "\<dots> = read64 m0 h" by (rule read64_cong, rule write64_outside, use a(1) in blast)
    finally show ?thesis by (simp add: m0_def SIMPLE_READ_SIGNATURE_value)
  qed
  have "read64 m1 (h + 16) = a"
  proof -
    have "read64 m1 (h + 16) = read64 (write64 m0 (h + 16) a) (h + 16)"
      unfolding m1_def by (rule read64_cong, rule write64_outside, use apart in blast)
    then show ?thesis by simp
  qed
  moreover have "unat (read64 m1 (h + 24)) = length bs" using assms(3) by (simp add: m1_def unat_of_nat_lt)
  moreover have "bytes_at m1 a bs"
    using assms(1,3,6) out bytes_at_cong by blast
  ultimately obtain m' where m': "ReadSimpleReadFile sv h Offset n Buffer s1
      = (EFI_SUCCESS, of_nat (length (take (unat n) (drop (unat Offset) bs))), s1\<lparr>mem := m'\<rparr>)"
      "wrote m1 Buffer (take (unat n) (drop (unat Offset) bs)) m'"
    using ReadSimpleReadFile_memory [of s1 h a bs Offset n Buffer sv] assms(2,7,8) by (auto simp: s1_def)
  have "m' x = mem s x" if "x \<notin> region h 40 \<union> region Buffer (unat n)" for x
  proof -
    have "x \<notin> region Buffer (length (take (unat n) (drop (unat Offset) bs)))"
      using that region_mono [of "length (take (unat n) (drop (unat Offset) bs))" "unat n" Buffer] by auto
    then show ?thesis using m'(2) out that by (simp add: wrote_def)
  qed
  then show ?thesis using open_ m' signature by (intro exI [of _ s1] exI [of _ m']) (simp add: s1_def wrote_def)
qed

theorem simple_read_slices_witness:
  "\<exists>s1 m'. OpenSimpleReadFile small_files False 0x2000 3 0 (small_file_state\<lparr>mem := (\<lambda>_. 0)(0x2000 := 7, 0x2001 := 8, 0x2002 := 9)\<rparr>)
      = Some (EFI_SUCCESS, 0, Some 0, Some 0x1000, s1)
    \<and> ReadSimpleReadFile small_files 0x1000 1 100 0x3000 s1 = (EFI_SUCCESS, 2, small_file_state\<lparr>mem := m'\<rparr>) \<and> m' 0x3000 = 8 \<and> m' 0x3001 = 9"
proof -
  have r: "region 0x1000 40 \<inter> region 0x2000 3 = {}" "region 0x3000 100 \<inter> region 0x2000 3 = {}"
    using regions_apart [where j = 0 and n = 40 and k = "0x1000" and l = 3 and b = "0x1000"]
      regions_apart [where j = 0 and n = 3 and k = "0x1000" and l = 100 and b = "0x2000"] by auto
  have "sv_AllocatePool small_files t 40 f = (EFI_SUCCESS, Some 0x1000, f)" for t f by (simp add: small_files_simps)
  then show ?thesis
    using simple_read_slices [where s = "small_file_state\<lparr>mem := (\<lambda>_. 0)(0x2000 := 7, 0x2001 := 8, 0x2002 := 9)\<rparr>" and a = "0x2000"
        and bs = "[7, 8, 9]" and sv = small_files and h = "0x1000" and f = "{}" and Buffer = "0x3000" and n = 100 and Offset = 1
        and b = False and path = 0] r
    by (auto simp: bytes_at_Cons small_file_state_def simp flip: numeral_3_eq_3)
qed

subsection \<open>Looking for a string\<close>

text \<open>When the first string of an interface is in another language, asking for a device string never
  returns, even if a later string is in the language asked for: the search does not move on.\<close>

theorem LibGetUiString_hangs:
  assumes "sv_HandleProtocol sv Handle UiProtocol (firmware s) = (EFI_SUCCESS, Some Ui, f)"
    and "LangCode (mem s) (read64 (mem s) (Ui + 8)) \<noteq> 0"
    and "strcmpa (mem s) (LangCode (mem s) (read64 (mem s) (Ui + 8))) Lang = Some r" "r \<noteq> 0"
  shows "LibGetUiString sv Handle 0 Lang b s = None"
  using search_entries_stuck [OF assms(2-4)] by (simp add: LibGetUiString_def assms(1))

text \<open>An interface whose only entry is in the language ``a'' when ``b'' is asked for.\<close>

definition ui_files :: "(u64 \<times> protocol \<times> u64) set file_uefi" where
  "ui_files = small_files\<lparr>sv_HandleProtocol := \<lambda>h p f. (EFI_SUCCESS, Some 0x100, f)\<rparr>"

definition small_ui :: "(u64 \<times> protocol \<times> u64) set efi_state" where
  "small_ui = small_file_state\<lparr>mem := (\<lambda>_. 0)(0x108 := 0, 0x109 := 2, 0x201 := 3, 0x300 := 97, 0x400 := 98)\<rparr>"

theorem LibGetUiString_hangs_witness: "LibGetUiString ui_files 0x10 0 0x400 b small_ui = None"
proof (rule LibGetUiString_hangs)
  show "sv_HandleProtocol ui_files 0x10 UiProtocol (firmware small_ui) = (EFI_SUCCESS, Some 0x100, firmware small_ui)"
    by (simp add: ui_files_def)
  have e: "read64 (mem small_ui) (0x100 + 8) = 0x200" "LangCode (mem small_ui) 0x200 = 0x300"
    by (simp_all add: small_ui_def LangCode_def load_eval)
  then show "LangCode (mem small_ui) (read64 (mem small_ui) (0x100 + 8)) \<noteq> 0" by simp
  show "strcmpa (mem small_ui) (LangCode (mem small_ui) (read64 (mem small_ui) (0x100 + 8))) 0x400 = Some (97 - 98)"
    unfolding e by (subst strcmpa.simps) (simp add: small_ui_def)
qed simp

end
