(* ===== verification/EfiReloc.thy ===== *)
theory EfiReloc
  imports EfiHand
begin

text \<open>
  The relocation of a loaded image by the start-up code, \<open>gnuefi/reloc_x86_64.c\<close>, \<open>gnuefi/reloc_aarch64.c\<close> and
  \<open>gnuefi/reloc_mips64el.c\<close>. The dynamic section is an array of pairs of words, a tag and a value. A relocation
  entry has the offset at 0, its type in the word at 8, and an addend at 16 where entries have one. The three
  files differ in the tags they look at, in the entries they apply and in what they do to the word that an entry
  names; the walk over the entries is the same text in each.
\<close>

subsection \<open>The walk over the entries\<close>

text \<open>\<open>app\<close> is the \<open>switch\<close> on the type of the entry at an address.\<close>

partial_function (option) reloc_loop :: "(u64 \<Rightarrow> memory \<Rightarrow> memory) \<Rightarrow> u64 \<Rightarrow> u64 \<Rightarrow> u64 \<Rightarrow> memory \<Rightarrow> memory option" where
  "reloc_loop app relent rel relsz m =
     (if sint relsz > 0 then reloc_loop app relent (rel + relent) (relsz - relent) (app rel m) else Some m)"

subsection \<open>x86-64\<close>

text \<open>The tags: 7 is the table of relocations, 8 its size and 9 the size of an entry.\<close>

partial_function (option) dyn_loop ::
  "memory \<Rightarrow> u64 \<Rightarrow> u64 \<Rightarrow> u64 \<Rightarrow> u64 \<Rightarrow> u64 \<Rightarrow> (u64 \<times> u64 \<times> u64) option" where
  "dyn_loop m ldbase dyn rel relsz relent =
     (let tag = read64 m dyn; val = read64 m (dyn + 8)
      in if tag = 0 then Some (rel, relsz, relent)
         else dyn_loop m ldbase (dyn + 16) (if tag = 7 then val + ldbase else rel)
           (if tag = 8 then val else relsz) (if tag = 9 then val else relent))"

definition apply_reloc :: "u64 \<Rightarrow> u64 \<Rightarrow> memory \<Rightarrow> memory" where
  "apply_reloc ldbase rel m =
     (if read64 m (rel + 8) AND 0xFFFFFFFF = 8
      then let addr = ldbase + read64 m rel in write64 m addr (read64 m addr + ldbase)
      else m)"

definition relocate :: "u64 \<Rightarrow> u64 \<Rightarrow> memory \<Rightarrow> (u64 \<times> memory) option" where
  "relocate ldbase dyn m = do {
     (rel, relsz, relent) \<leftarrow> dyn_loop m ldbase dyn 0 0 0;
     if rel = 0 \<and> relent = 0 then Some (EFI_SUCCESS, m)
     else if rel = 0 \<or> relent = 0 then Some (EFI_LOAD_ERROR, m)
     else map_option (\<lambda>m. (EFI_SUCCESS, m)) (reloc_loop (apply_reloc ldbase) relent rel relsz m)
   }"

subsection \<open>AArch64\<close>

text \<open>The section is read as above; the word is set from the addend of the entry.\<close>

definition apply_reloc_aarch64 :: "u64 \<Rightarrow> u64 \<Rightarrow> memory \<Rightarrow> memory" where
  "apply_reloc_aarch64 ldbase rel m =
     (if read64 m (rel + 8) AND 0xFFFFFFFF = 1027
      then write64 m (ldbase + read64 m rel) (ldbase + read64 m (rel + 16))
      else m)"

definition relocate_aarch64 :: "u64 \<Rightarrow> u64 \<Rightarrow> memory \<Rightarrow> (u64 \<times> memory) option" where
  "relocate_aarch64 ldbase dyn m = do {
     (rel, relsz, relent) \<leftarrow> dyn_loop m ldbase dyn 0 0 0;
     if rel = 0 \<and> relent = 0 then Some (EFI_SUCCESS, m)
     else if rel = 0 \<or> relent = 0 then Some (EFI_LOAD_ERROR, m)
     else map_option (\<lambda>m. (EFI_SUCCESS, m)) (reloc_loop (apply_reloc_aarch64 ldbase) relent rel relsz m)
   }"

subsection \<open>MIPS64\<close>

text \<open>The tags: 17 is the table of relocations, 18 its size, 19 the size of an entry, 3 the global offset
  table and 0x7000000A the number of its local entries. A missing entry size is an error here only
  when there is no table; a table with entries of size 0 is walked forever.\<close>

partial_function (option) dyn_loop_mips ::
  "memory \<Rightarrow> u64 \<Rightarrow> u64 \<Rightarrow> u64 \<Rightarrow> u64 \<Rightarrow> u64 \<Rightarrow> u64 \<Rightarrow> u64 \<Rightarrow> (u64 \<times> u64 \<times> u64 \<times> u64 \<times> u64) option" where
  "dyn_loop_mips m ldbase dyn rel relsz relent addr gotsz =
     (let tag = read64 m dyn; val = read64 m (dyn + 8)
      in if tag = 0 then Some (rel, relsz, relent, addr, gotsz)
         else dyn_loop_mips m ldbase (dyn + 16) (if tag = 17 then val + ldbase else rel)
           (if tag = 18 then val else relsz) (if tag = 19 then val else relent)
           (if tag = 3 then val + ldbase else addr) (if tag = 0x7000000A then val else gotsz))"

partial_function (option) got_loop :: "u64 \<Rightarrow> u64 \<Rightarrow> u64 \<Rightarrow> memory \<Rightarrow> memory option" where
  "got_loop ldbase addr gotsz m =
     (if sint gotsz > 0 then got_loop ldbase (addr + 8) (gotsz - 1) (write64 m addr (read64 m addr + ldbase)) else Some m)"

text \<open>The bytes of each halfword are swapped, then the halfwords are reversed.\<close>

definition swap_uint64 :: "u64 \<Rightarrow> u64" where
  "swap_uint64 v =
     (let v = push_bit 8 (v AND 0x00FF00FF00FF00FF) OR (drop_bit 8 v AND 0x00FF00FF00FF00FF)
      in push_bit 48 v OR push_bit 16 (v AND 0xFFFF0000) OR (drop_bit 16 v AND 0xFFFF0000) OR drop_bit 48 v)"

definition apply_reloc_mips :: "u64 \<Rightarrow> u64 \<Rightarrow> memory \<Rightarrow> memory" where
  "apply_reloc_mips ldbase rel m =
     (if swap_uint64 (read64 m (rel + 8)) AND 0xFFFFFFFF = push_bit 8 18 OR 3
      then let addr = ldbase + read64 m rel in write64 m addr (read64 m addr + ldbase)
      else m)"

definition relocate_mips :: "u64 \<Rightarrow> u64 \<Rightarrow> memory \<Rightarrow> (u64 \<times> memory) option" where
  "relocate_mips ldbase dyn m = do {
     (rel, relsz, relent, addr, gotsz) \<leftarrow> dyn_loop_mips m ldbase dyn 0 0 0 0 0;
     if rel = 0 \<and> relent = 0 \<and> addr = 0 \<and> gotsz = 0 then Some (EFI_SUCCESS, m)
     else if rel = 0 \<and> relent \<noteq> 0 \<or> addr = 0 \<and> gotsz \<noteq> 0 then Some (EFI_LOAD_ERROR, m)
     else do {
       m \<leftarrow> got_loop ldbase addr gotsz m;
       m \<leftarrow> reloc_loop (apply_reloc_mips ldbase) relent rel relsz m;
       Some (EFI_SUCCESS, m)
     }
   }"

subsection \<open>What the walk does\<close>

text \<open>Words that do not overlap, and none in a set.\<close>

fun separate :: "u64 list \<Rightarrow> bool" where
  "separate [] \<longleftrightarrow> True"
| "separate (t # ts) \<longleftrightarrow> (\<forall>u \<in> set ts. region t 8 \<inter> region u 8 = {}) \<and> separate ts"

definition words :: "u64 list \<Rightarrow> u64 set" where
  "words ts = (\<Union>t \<in> set ts. region t 8)"

lemma words_simps [simp]: "words [] = {}" "words (t # ts) = region t 8 \<union> words ts"
  by (simp_all add: words_def)

text \<open>A table of entries of \<open>es\<close> bytes, and the words that its entries name.\<close>

fun table_at :: "(memory \<Rightarrow> u64 \<Rightarrow> 'r \<Rightarrow> bool) \<Rightarrow> nat \<Rightarrow> memory \<Rightarrow> u64 \<Rightarrow> 'r list \<Rightarrow> bool" where
  "table_at entry es m a [] \<longleftrightarrow> True"
| "table_at entry es m a (r # rs) \<longleftrightarrow> entry m a r \<and> table_at entry es m (a + of_nat es) rs"

definition targets :: "('r \<Rightarrow> u64 option) \<Rightarrow> 'r list \<Rightarrow> u64 list" where
  "targets target rs = List.map_filter target rs"

lemma targets_simps [simp]:
  "targets target [] = []"
  "targets target (r # rs) = (case target r of None \<Rightarrow> targets target rs | Some t \<Rightarrow> t # targets target rs)"
  by (simp_all add: targets_def List.map_filter_simps split: option.splits)

lemma targets_set: "t \<in> set (targets target rs) \<longleftrightarrow> (\<exists>r \<in> set rs. target r = Some t)"
  by (induction rs) (auto split: option.splits)

text \<open>What the walk relies on: entries of \<open>es\<close> bytes, of which \<open>app\<close> either sets one word, from the entry and the
  word's old value, or does nothing.\<close>

locale relocator =
  fixes app :: "u64 \<Rightarrow> memory \<Rightarrow> memory"
    and es :: nat
    and entry_at :: "memory \<Rightarrow> u64 \<Rightarrow> 'r \<Rightarrow> bool"
    and target :: "'r \<Rightarrow> u64 option"
    and val :: "'r \<Rightarrow> u64 \<Rightarrow> u64"
  assumes es: "0 < es"
    and entry_cong: "entry_at m a r \<Longrightarrow> (\<And>b. b \<in> region a es \<Longrightarrow> m' b = m b) \<Longrightarrow> entry_at m' a r"
    and app: "entry_at m a r \<Longrightarrow> app a m = (case target r of None \<Rightarrow> m | Some t \<Rightarrow> write64 m t (val r (read64 m t)))"
begin

lemma table_at_cong:
  "table_at entry_at es m a rs \<Longrightarrow> length rs * es < 2 ^ 64 \<Longrightarrow> (\<And>b. b \<in> region a (length rs * es) \<Longrightarrow> m' b = m b) \<Longrightarrow> table_at entry_at es m' a rs"
proof (induction rs arbitrary: a)
  case (Cons r rs)
  let ?n = "length (r # rs) * es"
  have sub: "region a es \<subseteq> region a ?n" "region (a + of_nat es) (length rs * es) \<subseteq> region a ?n"
    using region_mono [of es ?n a] region_off_sub [of es "length rs * es" ?n a] Cons.prems(2) by simp_all
  have 1: "\<And>b. b \<in> region a es \<Longrightarrow> m' b = m b" "\<And>b. b \<in> region (a + of_nat es) (length rs * es) \<Longrightarrow> m' b = m b"
    using Cons.prems(3) sub by blast+
  have "entry_at m a r" "table_at entry_at es m (a + of_nat es) rs" using Cons.prems(1) by simp_all
  moreover have "length rs * es < 2 ^ 64" using Cons.prems(2) by simp
  ultimately show ?case using Cons.IH [OF _ _ 1(2)] entry_cong [OF _ 1(1)] by simp
qed simp

lemma reloc_loop_sets:
  "table_at entry_at es m a rs \<Longrightarrow> length rs * es < 2 ^ 63 \<Longrightarrow> separate (targets target rs) \<Longrightarrow> words (targets target rs) \<inter> region a (length rs * es) = {} \<Longrightarrow>
   \<exists>m'. reloc_loop app (of_nat es) a (of_nat (length rs * es)) m = Some m'
     \<and> (\<forall>r \<in> set rs. \<forall>t. target r = Some t \<longrightarrow> read64 m' t = val r (read64 m t)) \<and> (\<forall>b. b \<notin> words (targets target rs) \<longrightarrow> m' b = m b)"
proof (induction rs arbitrary: m a)
  case Nil
  show ?case by (subst reloc_loop.simps) simp
next
  case (Cons r rs)
  let ?n = "length (r # rs) * es"
  let ?m = "app a m"
  let ?T = "words (targets target [r])"
  have sz: "of_nat ?n - of_nat es = (of_nat (length rs * es) :: u64)" by simp
  have "sint (of_nat ?n :: u64) = int ?n" using Cons.prems(2) by (rule sint_of_nat64)
  then have pos: "sint (of_nat ?n :: u64) > 0" using es by (simp add: add_pos_nonneg)
  have step: "reloc_loop app (of_nat es) a (of_nat ?n) m = reloc_loop app (of_nat es) (a + of_nat es) (of_nat (length rs * es)) ?m"
    using pos by (subst reloc_loop.simps) (simp only: sz if_True)
  have sub: "region (a + of_nat es) (length rs * es) \<subseteq> region a ?n"
    using region_off_sub [of es "length rs * es" ?n a] Cons.prems(2) by simp
  have m: "?m = (case target r of None \<Rightarrow> m | Some t \<Rightarrow> write64 m t (val r (read64 m t)))" using Cons.prems(1) by (simp add: app)
  have keep: "?m b = m b" if "b \<notin> ?T" for b
    using that by (auto simp: m mem_simps split: option.splits)
  have tl: "words (targets target (r # rs)) = ?T \<union> words (targets target rs)" by (auto split: option.splits)
  have "table_at entry_at es ?m (a + of_nat es) rs"
  proof (rule table_at_cong)
    show "table_at entry_at es m (a + of_nat es) rs" using Cons.prems(1) by simp
    show "?m b = m b" if "b \<in> region (a + of_nat es) (length rs * es)" for b using that Cons.prems(4) sub tl by (intro keep) blast
  qed (use Cons.prems(2) in simp)
  moreover have "separate (targets target rs)" using Cons.prems(3) by (auto split: option.splits)
  moreover have "length rs * es < 2 ^ 63" using Cons.prems(2) by simp
  moreover have "words (targets target rs) \<inter> region (a + of_nat es) (length rs * es) = {}" using Cons.prems(4) sub tl by blast
  ultimately obtain m' where m': "reloc_loop app (of_nat es) (a + of_nat es) (of_nat (length rs * es)) ?m = Some m'"
      "\<And>r t. r \<in> set rs \<Longrightarrow> target r = Some t \<Longrightarrow> read64 m' t = val r (read64 ?m t)" "\<And>b. b \<notin> words (targets target rs) \<Longrightarrow> m' b = ?m b"
    using Cons.IH [of ?m "a + of_nat es"] by blast
  have first: "read64 m' t = val r (read64 m t)" if t: "target r = Some t" for t
  proof -
    have "region t 8 \<inter> words (targets target rs) = {}" using Cons.prems(3) t by (auto simp: words_def)
    then have "read64 m' t = read64 ?m t" using m'(3) by (intro read64_cong) blast
    then show ?thesis by (simp add: m t)
  qed
  have rest: "read64 m' t = val q (read64 m t)" if q: "q \<in> set rs" "target q = Some t" for q t
  proof -
    have "region t 8 \<inter> ?T = {}" using Cons.prems(3) q by (auto simp: targets_set split: option.splits)
    then have "read64 ?m t = read64 m t" using keep by (intro read64_cong) blast
    then show ?thesis using m'(2) [OF q] by simp
  qed
  have "\<forall>q \<in> set (r # rs). \<forall>t. target q = Some t \<longrightarrow> read64 m' t = val q (read64 m t)" using first rest by auto
  moreover have "\<forall>b. b \<notin> words (targets target (r # rs)) \<longrightarrow> m' b = m b" using m'(3) keep tl by auto
  ultimately show ?case unfolding step using m'(1) by blast
qed

end

subsection \<open>The entries of the three machines\<close>

fun rel_at :: "memory \<Rightarrow> u64 \<Rightarrow> u64 \<times> u64 \<Rightarrow> bool" where
  "rel_at m a (off, info) \<longleftrightarrow> read64 m a = off \<and> read64 m (a + 8) = info"

fun rela_at :: "memory \<Rightarrow> u64 \<Rightarrow> u64 \<times> u64 \<times> u64 \<Rightarrow> bool" where
  "rela_at m a (off, info, add) \<longleftrightarrow> read64 m a = off \<and> read64 m (a + 8) = info \<and> read64 m (a + 16) = add"

text \<open>The word that an entry names, if it is a relative relocation.\<close>

fun target_x86 :: "u64 \<Rightarrow> u64 \<times> u64 \<Rightarrow> u64 option" where
  "target_x86 ldbase (off, info) = (if info AND 0xFFFFFFFF = 8 then Some (ldbase + off) else None)"

fun target_aarch64 :: "u64 \<Rightarrow> u64 \<times> u64 \<times> u64 \<Rightarrow> u64 option" where
  "target_aarch64 ldbase (off, info, add) = (if info AND 0xFFFFFFFF = 1027 then Some (ldbase + off) else None)"

fun target_mips :: "u64 \<Rightarrow> u64 \<times> u64 \<Rightarrow> u64 option" where
  "target_mips ldbase (off, info) = (if swap_uint64 info AND 0xFFFFFFFF = 4611 then Some (ldbase + off) else None)"

lemma read64_in:
  assumes "\<And>b. b \<in> region a n \<Longrightarrow> m' b = m b" "k + 8 \<le> n" "n < 2 ^ 64"
  shows "read64 m' (a + of_nat k) = read64 m (a + of_nat k)"
  using assms region_off_sub [of k 8 n a] by (intro read64_cong) auto

lemma rel_at_cong: "rel_at m a r \<Longrightarrow> 16 \<le> n \<Longrightarrow> n < 2 ^ 64 \<Longrightarrow> (\<And>b. b \<in> region a n \<Longrightarrow> m' b = m b) \<Longrightarrow> rel_at m' a r"
  using read64_in [of a n m' m 0] read64_in [of a n m' m 8] by (cases r) simp

lemma rela_at_cong: "rela_at m a r \<Longrightarrow> (\<And>b. b \<in> region a 24 \<Longrightarrow> m' b = m b) \<Longrightarrow> rela_at m' a r"
  using read64_in [of a 24 m' m 0] read64_in [of a 24 m' m 8] read64_in [of a 24 m' m 16] by (cases r) simp

interpretation x86: relocator "apply_reloc ldbase" 24 rel_at "target_x86 ldbase" "\<lambda>r old. old + ldbase" for ldbase
proof unfold_locales
  show "rel_at m' a r" if "rel_at m a r" "\<And>b. b \<in> region a 24 \<Longrightarrow> m' b = m b" for m a r m'
    by (rule rel_at_cong [OF that(1) _ _ that(2)]) simp_all
  show "apply_reloc ldbase a m = (case target_x86 ldbase r of None \<Rightarrow> m | Some t \<Rightarrow> write64 m t (read64 m t + ldbase))" if "rel_at m a r" for m a r
    using that by (cases r) (auto simp: apply_reloc_def Let_def)
qed simp

interpretation aarch64: relocator "apply_reloc_aarch64 ldbase" 24 rela_at "target_aarch64 ldbase" "\<lambda>(off, info, add) old. ldbase + add" for ldbase
proof unfold_locales
  show "rela_at m' a r" if "rela_at m a r" "\<And>b. b \<in> region a 24 \<Longrightarrow> m' b = m b" for m a r m'
    using that by (rule rela_at_cong)
  show "apply_reloc_aarch64 ldbase a m
      = (case target_aarch64 ldbase r of None \<Rightarrow> m | Some t \<Rightarrow> write64 m t ((\<lambda>(off, info, add) old. ldbase + add) r (read64 m t)))" if "rela_at m a r" for m a r
    using that by (cases r) (auto simp: apply_reloc_aarch64_def)
qed simp

interpretation mips: relocator "apply_reloc_mips ldbase" 16 rel_at "target_mips ldbase" "\<lambda>r old. old + ldbase" for ldbase
proof unfold_locales
  show "rel_at m' a r" if "rel_at m a r" "\<And>b. b \<in> region a 16 \<Longrightarrow> m' b = m b" for m a r m'
    by (rule rel_at_cong [OF that(1) _ _ that(2)]) simp_all
  show "apply_reloc_mips ldbase a m = (case target_mips ldbase r of None \<Rightarrow> m | Some t \<Rightarrow> write64 m t (read64 m t + ldbase))" if "rel_at m a r" for m a r
    using that by (cases r) (auto simp: apply_reloc_mips_def Let_def)
qed simp

subsection \<open>The dynamic section\<close>

text \<open>A dynamic section with its tags and values.\<close>

fun dyn_at :: "memory \<Rightarrow> u64 \<Rightarrow> (u64 \<times> u64) list \<Rightarrow> bool" where
  "dyn_at m a [] \<longleftrightarrow> read64 m a = 0"
| "dyn_at m a ((t, v) # es) \<longleftrightarrow> t \<noteq> 0 \<and> read64 m a = t \<and> read64 m (a + 8) = v \<and> dyn_at m (a + 16) es"

definition last_value :: "u64 \<Rightarrow> (u64 \<times> u64) list \<Rightarrow> u64 option" where
  "last_value t es = map_of (rev es) t"

lemma last_value_simps:
  "last_value t [] = None" "last_value t ((k, v) # es) = (case last_value t es of None \<Rightarrow> if t = k then Some v else None | Some w \<Rightarrow> Some w)"
  by (simp_all add: last_value_def map_add_def split: option.splits)

lemma dyn_loop_entries:
  "dyn_at m a es \<Longrightarrow> dyn_loop m ldbase a rel relsz relent =
     Some (case last_value 7 es of None \<Rightarrow> rel | Some v \<Rightarrow> v + ldbase,
       case last_value 8 es of None \<Rightarrow> relsz | Some v \<Rightarrow> v, case last_value 9 es of None \<Rightarrow> relent | Some v \<Rightarrow> v)"
proof (induction m a es arbitrary: rel relsz relent rule: dyn_at.induct)
  case (1 m a)
  then show ?case by (subst dyn_loop.simps) (simp add: last_value_simps)
next
  case (2 m a t v es)
  then show ?case by (subst dyn_loop.simps) (auto simp: last_value_simps Let_def split: option.splits)
qed


subsection \<open>Relocated images\<close>

text \<open>C36: Relocation returns. For a dynamic section with a table of relocations of 24 bytes whose words lie apart
  and not in the table, the load address is added to every word that a relative relocation names, and
  nothing else in memory changes.\<close>

theorem relocate_adds_base:
  assumes "dyn_at m dyn es" "last_value 7 es = Some tab" "last_value 8 es = Some (of_nat (length rs * 24))" "last_value 9 es = Some 24"
    and "tab + ldbase \<noteq> 0" "table_at rel_at 24 m (tab + ldbase) rs" "length rs * 24 < 2 ^ 63"
    and "separate (targets (target_x86 ldbase) rs)" "words (targets (target_x86 ldbase) rs) \<inter> region (tab + ldbase) (length rs * 24) = {}"
  shows "\<exists>m'. relocate ldbase dyn m = Some (EFI_SUCCESS, m')
    \<and> (\<forall>t \<in> set (targets (target_x86 ldbase) rs). read64 m' t = read64 m t + ldbase)
    \<and> (\<forall>b. b \<notin> words (targets (target_x86 ldbase) rs) \<longrightarrow> m' b = m b)"
proof -
  obtain m' where "reloc_loop (apply_reloc ldbase) (of_nat 24) (tab + ldbase) (of_nat (length rs * 24)) m = Some m'"
      "\<forall>r \<in> set rs. \<forall>t. target_x86 ldbase r = Some t \<longrightarrow> read64 m' t = read64 m t + ldbase"
      "\<forall>b. b \<notin> words (targets (target_x86 ldbase) rs) \<longrightarrow> m' b = m b"
    using x86.reloc_loop_sets [OF assms(6-9)] by blast
  then show ?thesis using assms(2-5) by (auto simp: relocate_def dyn_loop_entries [OF assms(1)] targets_set)
qed

text \<open>On AArch64 every such word is set to the load address plus the addend of its entry, whatever it was.\<close>

theorem relocate_aarch64_sets:
  assumes "dyn_at m dyn es" "last_value 7 es = Some tab" "last_value 8 es = Some (of_nat (length rs * 24))" "last_value 9 es = Some 24"
    and "tab + ldbase \<noteq> 0" "table_at rela_at 24 m (tab + ldbase) rs" "length rs * 24 < 2 ^ 63"
    and "separate (targets (target_aarch64 ldbase) rs)" "words (targets (target_aarch64 ldbase) rs) \<inter> region (tab + ldbase) (length rs * 24) = {}"
  shows "\<exists>m'. relocate_aarch64 ldbase dyn m = Some (EFI_SUCCESS, m')
    \<and> (\<forall>(off, info, add) \<in> set rs. info AND 0xFFFFFFFF = 1027 \<longrightarrow> read64 m' (ldbase + off) = ldbase + add)
    \<and> (\<forall>b. b \<notin> words (targets (target_aarch64 ldbase) rs) \<longrightarrow> m' b = m b)"
proof -
  obtain m' where "reloc_loop (apply_reloc_aarch64 ldbase) (of_nat 24) (tab + ldbase) (of_nat (length rs * 24)) m = Some m'"
      "\<forall>r \<in> set rs. \<forall>t. target_aarch64 ldbase r = Some t \<longrightarrow> read64 m' t = (\<lambda>(off, info, add) old. ldbase + add) r (read64 m t)"
      "\<forall>b. b \<notin> words (targets (target_aarch64 ldbase) rs) \<longrightarrow> m' b = m b"
    using aarch64.reloc_loop_sets [OF assms(6-9)] by blast
  then show ?thesis using assms(2-5) by (fastforce simp: relocate_aarch64_def dyn_loop_entries [OF assms(1)])
qed

text \<open>Without a table and an entry size there is nothing to do; with only one of them the image is refused.\<close>

lemma relocate_incomplete:
  assumes "dyn_at m dyn es" "last_value 7 es = None"
  shows "relocate ldbase dyn m = Some (if last_value 9 es \<in> {None, Some 0} then EFI_SUCCESS else EFI_LOAD_ERROR, m)"
  using assms(2) by (auto simp: relocate_def dyn_loop_entries [OF assms(1)] split: option.splits)

text \<open>An image at 0x10000: its dynamic section is at 0x100, its table at 0x11000, and one relocation names the
  word at 0x12000.\<close>

definition small_image :: memory where
  "small_image = (\<lambda>_. 0)(0x100 := 7, 0x109 := 0x10, 0x110 := 8, 0x118 := 24, 0x120 := 9, 0x128 := 24,
     0x11001 := 0x20, 0x11008 := 8, 0x12000 := 5)"

theorem relocate_adds_base_witness: "\<exists>m'. relocate 0x10000 0x100 small_image = Some (EFI_SUCCESS, m') \<and> read64 m' 0x12000 = 0x10005"
proof -
  have d: "dyn_at small_image 0x100 [(7, 0x1000), (8, 24), (9, 24)]" by (simp add: small_image_def load_eval)
  have r: "table_at rel_at 24 small_image 0x11000 [(0x2000, 8)]" by (simp add: small_image_def load_eval)
  have t: "targets (target_x86 0x10000) [(0x2000, 8)] = [0x12000]" by simp
  have "region 0x12000 8 \<inter> region 0x11000 24 = {}"
    using regions_apart [of 0 24 "0x1000" 8 "0x11000"] by auto
  moreover have "read64 small_image 0x12000 = 5" by (simp add: small_image_def load_eval)
  ultimately show ?thesis
    using relocate_adds_base [OF d, of "0x1000" "[(0x2000, 8)]" "0x10000"] r by (auto simp: t last_value_simps)
qed

text \<open>On MIPS64 the load address is added to the local entries of the global offset table first.\<close>

lemma dyn_loop_mips_entries:
  "dyn_at m a es \<Longrightarrow> dyn_loop_mips m ldbase a rel relsz relent addr gotsz =
     Some (case last_value 17 es of None \<Rightarrow> rel | Some v \<Rightarrow> v + ldbase,
       case last_value 18 es of None \<Rightarrow> relsz | Some v \<Rightarrow> v, case last_value 19 es of None \<Rightarrow> relent | Some v \<Rightarrow> v,
       case last_value 3 es of None \<Rightarrow> addr | Some v \<Rightarrow> v + ldbase, case last_value 0x7000000A es of None \<Rightarrow> gotsz | Some v \<Rightarrow> v)"
proof (induction m a es arbitrary: rel relsz relent addr gotsz rule: dyn_at.induct)
  case (1 m a)
  then show ?case by (subst dyn_loop_mips.simps) (simp add: last_value_simps)
next
  case (2 m a t v es)
  then show ?case by (subst dyn_loop_mips.simps) (auto simp: last_value_simps Let_def split: option.splits)
qed

lemma got_loop_adds:
  "n * 8 < 2 ^ 63 \<Longrightarrow> \<exists>m'. got_loop l a (of_nat n) m = Some m'
     \<and> (\<forall>k < n. read64 m' (a + of_nat (8 * k)) = read64 m (a + of_nat (8 * k)) + l) \<and> (\<forall>b. b \<notin> region a (n * 8) \<longrightarrow> m' b = m b)"
proof (induction n arbitrary: a m)
  case 0
  show ?case by (subst got_loop.simps) simp
next
  case (Suc n)
  let ?m = "write64 m a (read64 m a + l)"
  have "sint (of_nat (Suc n) :: u64) = int (Suc n)" using Suc.prems by (intro sint_of_nat64) simp
  then have pos: "sint (of_nat (Suc n) :: u64) > 0" by simp
  have one: "of_nat (Suc n) - 1 = (of_nat n :: u64)" by simp
  have step: "got_loop l a (of_nat (Suc n)) m = got_loop l (a + 8) (of_nat n) ?m"
    using pos by (subst got_loop.simps) (simp only: one if_True)
  obtain m' where m': "got_loop l (a + 8) (of_nat n) ?m = Some m'"
      "\<And>k. k < n \<Longrightarrow> read64 m' (a + 8 + of_nat (8 * k)) = read64 ?m (a + 8 + of_nat (8 * k)) + l" "\<And>b. b \<notin> region (a + 8) (n * 8) \<Longrightarrow> m' b = ?m b"
    using Suc.IH [of "a + 8" ?m] Suc.prems by auto
  have r: "region a 8 \<inter> region (a + 8) (n * 8) = {}" using regions_apart [of 0 8 8 "n * 8" a] Suc.prems by simp
  have sub: "region a 8 \<subseteq> region a (Suc n * 8)" "region (a + 8) (n * 8) \<subseteq> region a (Suc n * 8)"
    using region_mono [of 8 "Suc n * 8" a] region_off_sub [of 8 "n * 8" "Suc n * 8" a] Suc.prems by simp_all
  have "read64 m' (a + of_nat (8 * k)) = read64 m (a + of_nat (8 * k)) + l" if k: "k < Suc n" for k
  proof (cases k)
    case 0
    have "read64 m' a = read64 ?m a" using m'(3) r by (intro read64_cong) blast
    then show ?thesis using 0 by simp
  next
    case (Suc j)
    have e: "a + of_nat (8 * k) = a + 8 + of_nat (8 * j)" by (simp add: Suc)
    have "region (a + 8 + of_nat (8 * j)) 8 \<subseteq> region (a + 8) (n * 8)" using Suc k Suc.prems by (intro region_off_sub) simp_all
    then have "read64 ?m (a + 8 + of_nat (8 * j)) = read64 m (a + 8 + of_nat (8 * j))"
      using r by (intro read64_cong write64_outside) blast
    then show ?thesis unfolding e using m'(2) [of j] k Suc by simp
  qed
  moreover have "m' b = m b" if "b \<notin> region a (Suc n * 8)" for b
  proof -
    have "b \<notin> region a 8" "b \<notin> region (a + 8) (n * 8)" using that sub by blast+
    then show ?thesis using m'(3) by (simp add: mem_simps)
  qed
  ultimately show ?case unfolding step using m'(1) by blast
qed

theorem relocate_mips_adds_base:
  assumes "dyn_at m dyn es" "last_value 17 es = Some tab" "last_value 18 es = Some (of_nat (length rs * 16))" "last_value 19 es = Some 16"
    and "last_value 3 es = Some got" "last_value 0x7000000A es = Some (of_nat n)" "n * 8 < 2 ^ 63" "tab + ldbase \<noteq> 0" "got + ldbase \<noteq> 0"
    and "table_at rel_at 16 m (tab + ldbase) rs" "length rs * 16 < 2 ^ 63"
    and "separate (targets (target_mips ldbase) rs)" "words (targets (target_mips ldbase) rs) \<inter> region (tab + ldbase) (length rs * 16) = {}"
    and "region (got + ldbase) (n * 8) \<inter> (region (tab + ldbase) (length rs * 16) \<union> words (targets (target_mips ldbase) rs)) = {}"
  shows "\<exists>m'. relocate_mips ldbase dyn m = Some (EFI_SUCCESS, m')
    \<and> (\<forall>k < n. read64 m' (got + ldbase + of_nat (8 * k)) = read64 m (got + ldbase + of_nat (8 * k)) + ldbase)
    \<and> (\<forall>t \<in> set (targets (target_mips ldbase) rs). read64 m' t = read64 m t + ldbase)
    \<and> (\<forall>b. b \<notin> region (got + ldbase) (n * 8) \<union> words (targets (target_mips ldbase) rs) \<longrightarrow> m' b = m b)"
proof -
  let ?W = "words (targets (target_mips ldbase) rs)" and ?G = "region (got + ldbase) (n * 8)"
  obtain m1 where m1: "got_loop ldbase (got + ldbase) (of_nat n) m = Some m1"
      "\<forall>k < n. read64 m1 (got + ldbase + of_nat (8 * k)) = read64 m (got + ldbase + of_nat (8 * k)) + ldbase" "\<And>b. b \<notin> ?G \<Longrightarrow> m1 b = m b"
    using got_loop_adds [OF assms(7), of ldbase "got + ldbase" m] by blast
  have "table_at rel_at 16 m1 (tab + ldbase) rs"
    by (rule mips.table_at_cong [OF assms(10)]) (use assms(11,14) m1(3) in auto)
  then obtain m' where m': "reloc_loop (apply_reloc_mips ldbase) (of_nat 16) (tab + ldbase) (of_nat (length rs * 16)) m1 = Some m'"
      "\<forall>r \<in> set rs. \<forall>t. target_mips ldbase r = Some t \<longrightarrow> read64 m' t = read64 m1 t + ldbase" "\<forall>b. b \<notin> ?W \<longrightarrow> m' b = m1 b"
    using mips.reloc_loop_sets [OF _ assms(11-13)] by blast
  have "read64 m' (got + ldbase + of_nat (8 * k)) = read64 m1 (got + ldbase + of_nat (8 * k))" if "k < n" for k
  proof -
    have "region (got + ldbase + of_nat (8 * k)) 8 \<subseteq> ?G" using that assms(7) by (intro region_off_sub) simp_all
    then show ?thesis using m'(3) assms(14) by (intro read64_cong) blast
  qed
  moreover have "read64 m' t = read64 m t + ldbase" if "t \<in> set (targets (target_mips ldbase) rs)" for t
  proof -
    have "read64 m1 t = read64 m t" using that m1(3) assms(14) by (intro read64_cong) (auto simp: words_def)
    then show ?thesis using that m'(2) by (auto simp: targets_set simp del: target_mips.simps)
  qed
  ultimately show ?thesis
    using m1 m' assms(2-6,8,9) by (auto simp: relocate_mips_def dyn_loop_mips_entries [OF assms(1)] simp del: target_mips.simps)
qed

text \<open>The same image with an entry for AArch64, and with an entry and an offset table of one word at 0x13000 for
  MIPS64.\<close>

definition small_aarch64 :: memory where
  "small_aarch64 = small_image(0x11009 := 4, 0x11008 := 3, 0x11010 := 7)"

theorem relocate_aarch64_sets_witness: "\<exists>m'. relocate_aarch64 0x10000 0x100 small_aarch64 = Some (EFI_SUCCESS, m') \<and> read64 m' 0x12000 = 0x10007"
proof -
  have d: "dyn_at small_aarch64 0x100 [(7, 0x1000), (8, 24), (9, 24)]" by (simp add: small_aarch64_def small_image_def load_eval)
  have r: "table_at rela_at 24 small_aarch64 0x11000 [(0x2000, 1027, 7)]" by (simp add: small_aarch64_def small_image_def load_eval)
  have t: "targets (target_aarch64 0x10000) [(0x2000, 1027, 7)] = [0x12000]" by simp
  have "region 0x12000 8 \<inter> region 0x11000 24 = {}"
    using regions_apart [of 0 24 "0x1000" 8 "0x11000"] by auto
  then show ?thesis
    using relocate_aarch64_sets [OF d, of "0x1000" "[(0x2000, 1027, 7)]" "0x10000"] r by (auto simp: t last_value_simps)
qed

definition small_mips :: memory where
  "small_mips = (\<lambda>_. 0)(0x100 := 17, 0x109 := 0x10, 0x110 := 18, 0x118 := 16, 0x120 := 19, 0x128 := 16, 0x130 := 3, 0x139 := 0x30,
     0x140 := 0x0A, 0x143 := 0x70, 0x148 := 1, 0x11001 := 0x20, 0x1100F := 3, 0x1100E := 18, 0x12000 := 5, 0x13000 := 6)"

theorem relocate_mips_adds_base_witness:
  "\<exists>m'. relocate_mips 0x10000 0x100 small_mips = Some (EFI_SUCCESS, m') \<and> read64 m' 0x12000 = 0x10005 \<and> read64 m' 0x13000 = 0x10006"
proof -
  let ?es = "[(17, 0x1000), (18, 16), (19, 16), (3, 0x3000), (0x7000000A, 1)] :: (u64 \<times> u64) list" and ?r = "(0x2000, 0x0312000000000000) :: u64 \<times> u64"
  have d: "dyn_at small_mips 0x100 ?es" by (simp add: small_mips_def load_eval)
  have r: "table_at rel_at 16 small_mips 0x11000 [?r]" by (simp add: small_mips_def load_eval)
  have sw: "swap_uint64 0x0312000000000000 = 4611" by (simp add: swap_uint64_def)
  have t: "targets (target_mips 0x10000) [?r] = [0x12000]" by (simp add: sw)
  have w: "read64 small_mips 0x12000 = 5" "read64 small_mips 0x13000 = 6" by (simp_all add: small_mips_def load_eval)
  have "region 0x12000 8 \<inter> region 0x11000 16 = {}" "region 0x13000 8 \<inter> region 0x11000 16 = {}" "region 0x13000 8 \<inter> region 0x12000 8 = {}"
    using regions_apart [of 0 16 "0x1000" 8 "0x11000"] regions_apart [of 0 16 "0x2000" 8 "0x11000"] regions_apart [of 0 8 "0x1000" 8 "0x12000"] by auto
  then show ?thesis
    using relocate_mips_adds_base [OF d, of "0x1000" "[?r]" "0x3000" 1 "0x10000"] r w by (auto simp: t sw last_value_simps)
qed

end
