(* ===== verification/EfiStart.thy ===== *)
theory EfiStart
  imports EfiReloc
begin

text \<open>
  What a program finds around it on the firmware: the command line (\<open>lib/cmdline.c\<close>) and the SMBIOS tables
  (\<open>lib/smbios.c\<close>). The static arrays of the command line have their addresses as arguments.
\<close>

subsection \<open>The command line\<close>

record 'f start_uefi = "'f file_uefi" +
  sv_OpenProtocol :: "u64 \<Rightarrow> protocol \<Rightarrow> u64 \<Rightarrow> u32 \<Rightarrow> 'f \<Rightarrow> u64 \<times> u64 option \<times> 'f"

definition EFI_OPEN_PROTOCOL_GET_PROTOCOL :: u32 where "EFI_OPEN_PROTOCOL_GET_PROTOCOL = 2"
definition MAX_CMDLINE_SIZE :: u64 where "MAX_CMDLINE_SIZE = 1024"
definition MAX_CMDLINE_ARGC :: u64 where "MAX_CMDLINE_ARGC = 32"

text \<open>The loop over the characters: the start of the last argument, the number of arguments and memory.\<close>

definition add_argument :: "u64 \<Rightarrow> u64 \<Rightarrow> u64 \<Rightarrow> memory \<Rightarrow> u64 \<times> memory" where
  "add_argument Argv Argc ArgStart m =
     (if Argc < MAX_CMDLINE_ARGC then (Argc + 1, write64 m (Argv + Argc * 8) ArgStart) else (Argc, m))"

partial_function (option) argument_loop :: "u64 \<Rightarrow> u64 \<Rightarrow> u64 \<Rightarrow> u64 \<Rightarrow> memory \<Rightarrow> (u64 \<times> u64 \<times> memory) option" where
  "argument_loop Argv c ArgStart Argc m =
     (if read16 m c = 0 then Some (ArgStart, Argc, m)
      else if read16 m c = 0x20 then
        let (Argc, m) = add_argument Argv Argc ArgStart (write16 m c 0)
        in argument_loop Argv (c + 2) (c + 2) Argc m
      else argument_loop Argv (c + 2) ArgStart Argc m)"

definition split_arguments :: "u64 \<Rightarrow> u64 \<Rightarrow> memory \<Rightarrow> (u64 \<times> memory) option" where
  "split_arguments ArgvContents Argv m = do {
     (ArgStart, Argc, m) \<leftarrow> argument_loop Argv ArgvContents ArgvContents 0 m;
     Some (if read16 m ArgStart \<noteq> 0 then add_argument Argv Argc ArgStart m else (Argc, m))
   }"

text \<open>The number of arguments, or -1, the array if it was stored, and the state.\<close>

definition GetShellArgcArgvFromLoadedImage ::
  "('f, 'y) start_uefi_scheme \<Rightarrow> u64 \<Rightarrow> u64 \<Rightarrow> u64 \<Rightarrow> ('f, 'z) efi_state_scheme \<Rightarrow> (u64 \<times> u64 option \<times> ('f, 'z) efi_state_scheme) option" where
  "GetShellArgcArgvFromLoadedImage sv ArgvContents Argv ImageHandle s =
     (let (Status, v, f) = sv_OpenProtocol sv ImageHandle LoadedImageProtocol ImageHandle EFI_OPEN_PROTOCOL_GET_PROTOCOL (firmware s);
          s = s\<lparr>firmware := f\<rparr>;
          LoadedImage = (case v of None \<Rightarrow> 0 | Some i \<Rightarrow> i)
      in if EFI_ERROR Status then Some (- 1, None, s)
         else
           let BufLen = ucast (read32 (mem s) (LoadedImage + 48)) :: u64
           in if BufLen < 2 then Some (- 1, None, s)
              else do {
                let BufLen = (if BufLen > MAX_CMDLINE_SIZE * 2 then MAX_CMDLINE_SIZE * 2 else BufLen);
                let s = CopyMem ArgvContents (read64 (mem s) (LoadedImage + 56)) BufLen s;
                (Argc, m) \<leftarrow> split_arguments ArgvContents Argv (write16 (mem s) (ArgvContents + (MAX_CMDLINE_SIZE - 1) * 2) 0);
                Some (Argc, Some Argv, s\<lparr>mem := m\<rparr>)
              })"

text \<open>The parameters protocol has the array at 0 and the count at 8, the shell interface has them at 16 and 24.\<close>

definition GetShellArgcArgv ::
  "('f, 'y) start_uefi_scheme \<Rightarrow> u64 \<Rightarrow> u64 \<Rightarrow> u64 \<Rightarrow> ('f, 'z) efi_state_scheme \<Rightarrow> (u64 \<times> u64 option \<times> ('f, 'z) efi_state_scheme) option" where
  "GetShellArgcArgv sv ArgvContents Argv ImageHandle s =
     (let (Status, v, f) = sv_OpenProtocol sv ImageHandle ShellParametersProtocol ImageHandle EFI_OPEN_PROTOCOL_GET_PROTOCOL (firmware s);
          s = s\<lparr>firmware := f\<rparr>;
          Parameters = (case v of None \<Rightarrow> 0 | Some i \<Rightarrow> i)
      in if \<not> EFI_ERROR Status then Some (read64 (mem s) (Parameters + 8), Some (read64 (mem s) Parameters), s)
         else
           let (Status, v, f) = sv_OpenProtocol sv ImageHandle ShellInterfaceProtocol ImageHandle EFI_OPEN_PROTOCOL_GET_PROTOCOL (firmware s);
               s = s\<lparr>firmware := f\<rparr>;
               Interface = (case v of None \<Rightarrow> 0 | Some i \<Rightarrow> i)
           in if \<not> EFI_ERROR Status then Some (read64 (mem s) (Interface + 24), Some (read64 (mem s) (Interface + 16)), s)
              else GetShellArgcArgvFromLoadedImage sv ArgvContents Argv ImageHandle s)"

subsection \<open>SMBIOS\<close>

text \<open>The end of a string, and the loop over the strings with the rounds left: the string, and the structure
  that \<open>Smbios\<close> points to afterwards.\<close>

partial_function (option) string_end :: "memory \<Rightarrow> u64 \<Rightarrow> u64 option" where
  "string_end m String = (if m String \<noteq> 0 then string_end m (String + 1) else Some String)"

text \<open>\<open>Index\<close> counts from 1 to \<open>StringNumber\<close>, at which the loop returns.\<close>

fun smbios_loop :: "memory \<Rightarrow> u64 \<Rightarrow> nat \<Rightarrow> u64 \<Rightarrow> (u64 \<times> u64) option" where
  "smbios_loop m Smbios 0 String = Some (0, Smbios)"
| "smbios_loop m Smbios (Suc 0) String = Some (String, Smbios)"
| "smbios_loop m Smbios (Suc (Suc n)) String = do {
     String \<leftarrow> string_end m String;
     let String = String + 1;
     if m String = 0 then Some (0, String + 1) else smbios_loop m Smbios (Suc n) String
   }"

definition LibGetSmbiosString :: "memory \<Rightarrow> u64 \<Rightarrow> u16 \<Rightarrow> (u64 \<times> u64) option" where
  "LibGetSmbiosString m Smbios StringNumber = smbios_loop m Smbios (unat StringNumber) (Smbios + ucast (m (Smbios + 1)))"

text \<open>The loop over the structures, with the rounds left. A structure of type 1 that is too short is met again
  in every round.\<close>

fun structure_loop ::
  "nat \<Rightarrow> u64 \<Rightarrow> u64 \<Rightarrow> u64 \<Rightarrow> ('f, 'z) efi_state_scheme \<Rightarrow> (u64 option \<times> ('f, 'z) efi_state_scheme) option" where
  "structure_loop 0 SystemGuid Smbios SmbiosEnd s = Some (None, s)"
| "structure_loop (Suc n) SystemGuid Smbios SmbiosEnd s =
     (if mem s Smbios = 1 then
        if mem s (Smbios + 1) < 0x19 then structure_loop n SystemGuid Smbios SmbiosEnd s
        else do {
          let s = CopyMem SystemGuid (Smbios + 8) 16 s;
          (String, Smbios) \<leftarrow> LibGetSmbiosString (mem s) Smbios (ucast (mem s (Smbios + 7)));
          Some (Some String, s)
        }
      else do {
        (String, Smbios) \<leftarrow> LibGetSmbiosString (mem s) Smbios (- 1);
        if Smbios \<ge> SmbiosEnd then Some (None, s) else structure_loop n SystemGuid Smbios SmbiosEnd s
      })"

text \<open>Status, serial number if it was stored, and state.\<close>

definition LibGetSmbiosSystemGuidAndSerialNumber ::
  "u64 \<Rightarrow> u64 \<Rightarrow> ('f, 'z) efi_state_scheme \<Rightarrow> (u64 \<times> u64 option \<times> ('f, 'z) efi_state_scheme) option" where
  "LibGetSmbiosSystemGuidAndSerialNumber SMBIOSTableGuid SystemGuid s =
     (let (Status, v) = LibGetSystemConfigurationTable SMBIOSTableGuid s
      in if EFI_ERROR Status then Some (EFI_NOT_FOUND, None, s)
         else do {
           SmbiosTable \<leftarrow> v;
           let TableLength = read16 (mem s) (SmbiosTable + 22);
           let TableAddress = read32 (mem s) (SmbiosTable + 24);
           (String, s) \<leftarrow> structure_loop (unat TableLength) SystemGuid (ucast TableAddress) (ucast (TableAddress + ucast TableLength)) s;
           Some (EFI_SUCCESS, String, s)
         })"


subsection \<open>What the arguments are\<close>

text \<open>The pieces between spaces; a last piece that is empty is not an argument.\<close>

fun pieces :: "u16 list \<Rightarrow> u16 list list" where
  "pieces [] = [[]]"
| "pieces (c # cs) = (if c = 0x20 then [] # pieces cs else (c # hd (pieces cs)) # tl (pieces cs))"

definition arguments :: "u16 list \<Rightarrow> u16 list list" where
  "arguments cs = (let ps = pieces cs in if last ps = [] then butlast ps else ps)"

definition slot :: "u64 \<Rightarrow> nat \<Rightarrow> u64" where
  "slot Argv k = Argv + of_nat (8 * k)"

text \<open>The slots from the nth on hold the arguments, as far as there are slots, with their texts in \<open>R\<close>.\<close>

definition holds_args :: "memory \<Rightarrow> u64 \<Rightarrow> nat \<Rightarrow> u16 list list \<Rightarrow> u64 set \<Rightarrow> bool" where
  "holds_args m Argv n qs R \<longleftrightarrow>
     (\<forall>k < length qs. n + k < 32 \<longrightarrow> str16 m (read64 m (slot Argv (n + k))) (qs ! k) \<and> str_region (read64 m (slot Argv (n + k))) (qs ! k) \<subseteq> R)"

lemma holds_args_Nil [simp]: "holds_args m Argv n [] R"
  by (simp add: holds_args_def)

lemma holds_args_Cons:
  "holds_args m Argv n (q # qs) R \<longleftrightarrow>
     (n < 32 \<longrightarrow> str16 m (read64 m (slot Argv n)) q \<and> str_region (read64 m (slot Argv n)) q \<subseteq> R) \<and> holds_args m Argv (Suc n) qs R"
  by (auto simp: holds_args_def All_less_Suc2)

lemma holds_args_append: "holds_args m Argv n (qs @ rs) R \<longleftrightarrow> holds_args m Argv n qs R \<and> holds_args m Argv (n + length qs) rs R"
  by (induction qs arbitrary: n) (simp_all add: holds_args_Cons)

lemma slots_within: "k < 32 \<Longrightarrow> region (slot Argv k) 8 \<subseteq> region Argv 256"
  unfolding slot_def by (rule region_off_sub) simp_all

lemma slots_apart: "j < k \<Longrightarrow> k < 32 \<Longrightarrow> region (slot Argv j) 8 \<inter> region (slot Argv k) 8 = {}"
  unfolding slot_def by (rule regions_apart) simp_all

lemma pieces_ne [simp]: "pieces cs \<noteq> []"
  by (cases cs) auto

lemma pieces_length: "p \<in> set (pieces cs) \<Longrightarrow> length p \<le> length cs"
proof (induction cs arbitrary: p)
  case (Cons c cs)
  show ?case
  proof (cases "c = 0x20 \<or> p \<in> set (tl (pieces cs))")
    case True
    then show ?thesis using Cons list.set_sel(2) [of "pieces cs" p] by (auto split: if_splits simp: le_SucI)
  next
    case False
    then show ?thesis using Cons.prems Cons.IH [OF list.set_sel(1) [OF pieces_ne]] by auto
  qed
qed simp

text \<open>A string is cut in two by a terminator in the place of a character.\<close>

lemma cut_string:
  assumes "str16 m a (p @ x # cs)" "2 * length (p @ x # cs) + 2 < 2 ^ 64"
  defines "c \<equiv> a + 2 * of_nat (length p)"
  shows "str16 (write16 m c 0) a p" "str16 (write16 m c 0) (c + 2) cs"
proof -
  have s: "(\<forall>k < length p. p ! k \<noteq> 0 \<and> read16 m (a + 2 * of_nat k) = p ! k)" "str16 m (c + 2) cs"
    using assms(1) by (simp_all add: str16_append c_def)
  have r: "str_region c (x # cs) = region c 2 \<union> str_region (c + 2) cs" "region c 2 \<inter> str_region (c + 2) cs = {}"
    using str_region_Cons(1) [of cs c x] str_region_Cons(2) [of cs c] assms(2) by simp_all
  have d: "region a (2 * length p) \<inter> str_region c (x # cs) = {}" using str_region_append(2) [OF assms(2)] by (simp add: c_def)
  have "read16 (write16 m c 0) (a + 2 * of_nat k) = p ! k" if "k < length p" for k
  proof -
    have "region (a + of_nat (2 * k)) 2 \<subseteq> region a (2 * length p)" using that assms(2) by (intro region_off_sub) simp_all
    then have "read16 (write16 m c 0) (a + 2 * of_nat k) = read16 m (a + 2 * of_nat k)"
      using d r by (intro read16_cong write16_outside) auto
    then show ?thesis using s that by simp
  qed
  then show "str16 (write16 m c 0) a p" using s(1) str16_append [of "write16 m c 0" a p "[]"] by (simp add: c_def)
  have "str16 (write16 m c 0) (c + 2) cs = str16 m (c + 2) cs"
    using r assms(2) by (intro str16_cong write16_outside) auto
  then show "str16 (write16 m c 0) (c + 2) cs" using s(2) by simp
qed

definition slots_from :: "u64 \<Rightarrow> nat \<Rightarrow> u64 set" where
  "slots_from Argv n = region (slot Argv n) (256 - 8 * n)"

lemma slots_from_within: "n \<le> 32 \<Longrightarrow> slots_from Argv n \<subseteq> region Argv 256"
  unfolding slots_from_def slot_def by (rule region_off_sub) simp_all

lemma slots_from_Suc:
  assumes "n < 32"
  shows "slots_from Argv n = region (slot Argv n) 8 \<union> slots_from Argv (Suc n)" "region (slot Argv n) 8 \<inter> slots_from Argv (Suc n) = {}"
proof -
  have 1: "x \<in> slots_from Argv k \<longleftrightarrow> 8 * k \<le> unat (x - Argv) \<and> unat (x - Argv) < 256" if "k \<le> 32" for x k
    using that in_region_off [of "8 * k" "256 - 8 * k" x Argv] by (simp add: slots_from_def slot_def)
  have 2: "x \<in> region (slot Argv n) 8 \<longleftrightarrow> 8 * n \<le> unat (x - Argv) \<and> unat (x - Argv) < 8 * n + 8" for x
    unfolding slot_def by (rule in_region_off) (use assms in simp)
  show "slots_from Argv n = region (slot Argv n) 8 \<union> slots_from Argv (Suc n)" using assms by (auto simp: 1 2)
  show "region (slot Argv n) 8 \<inter> slots_from Argv (Suc n) = {}" using assms by (auto simp: 1 2)
qed

lemma add_argument_slot:
  assumes "n \<le> 32"
  shows "add_argument Argv (of_nat n) a m = (of_nat (min 32 (Suc n)), if n < 32 then write64 m (slot Argv n) a else m)"
proof -
  have "(of_nat n :: u64) < MAX_CMDLINE_ARGC \<longleftrightarrow> n < 32"
    using assms by (simp add: MAX_CMDLINE_ARGC_def word_less_nat_alt unat_of_nat_lt)
  moreover have "of_nat n + 1 = (of_nat (Suc n) :: u64)" "Argv + of_nat n * 8 = slot Argv n" by (simp_all add: slot_def mult.commute)
  moreover have "min 32 (Suc n) = (if n < 32 then Suc n else n)" using assms by simp
  ultimately show ?thesis by (cases "n < 32") (simp_all only: add_argument_def if_True if_False)
qed

lemma holds_args_keep:
  assumes "holds_args m Argv n qs R" "\<And>b. b \<in> R \<Longrightarrow> m' b = m b" "\<forall>q \<in> set qs. 2 * length q + 2 < 2 ^ 64"
    and "\<And>k b. k < length qs \<Longrightarrow> n + k < 32 \<Longrightarrow> b \<in> region (slot Argv (n + k)) 8 \<Longrightarrow> m' b = m b"
  shows "holds_args m' Argv n qs R"
  unfolding holds_args_def
proof (intro allI impI)
  fix k assume k: "k < length qs" "n + k < 32"
  have r: "read64 m' (slot Argv (n + k)) = read64 m (slot Argv (n + k))"
    by (rule read64_cong) (use assms(4) k in blast)
  have h: "str16 m (read64 m (slot Argv (n + k))) (qs ! k)" "str_region (read64 m (slot Argv (n + k))) (qs ! k) \<subseteq> R"
    using assms(1) k by (simp_all add: holds_args_def)
  have "str16 m' (read64 m (slot Argv (n + k))) (qs ! k) = str16 m (read64 m (slot Argv (n + k))) (qs ! k)"
    using h(2) assms(2,3) k by (intro str16_cong) auto
  then show "str16 m' (read64 m' (slot Argv (n + k))) (qs ! k) \<and> str_region (read64 m' (slot Argv (n + k))) (qs ! k) \<subseteq> R"
    using h r by simp
qed

lemma holds_args_mono: "holds_args m Argv n qs R \<Longrightarrow> R \<subseteq> R' \<Longrightarrow> holds_args m Argv n qs R'"
  unfolding holds_args_def by blast

lemma holds_args_full [simp]: "32 \<le> n \<Longrightarrow> holds_args m Argv n qs R"
  by (simp add: holds_args_def)

lemma argument_loop_pieces:
  assumes "str16 m a (p @ cs)" "2 * length (p @ cs) + 2 < 2 ^ 64" "n \<le> 32" "str_region a (p @ cs) \<inter> region Argv 256 = {}"
    and "ps = (p @ hd (pieces cs)) # tl (pieces cs)"
  shows "\<exists>a' m'. argument_loop Argv (a + 2 * of_nat (length p)) a (of_nat n) m = Some (a', of_nat (min 32 (n + (length ps - 1))), m')
    \<and> holds_args m' Argv n (butlast ps) (str_region a (p @ cs)) \<and> str16 m' a' (last ps) \<and> str_region a' (last ps) \<subseteq> str_region a (p @ cs)
    \<and> (\<forall>b. b \<notin> region (a + 2 * of_nat (length p)) (2 * length cs) \<union> slots_from Argv n \<longrightarrow> m' b = m b)"
  using assms
proof (induction cs arbitrary: m a p n ps)
  case Nil
  then have "read16 m (a + 2 * of_nat (length p)) = 0" using str16_append [of m a p "[]"] by simp
  then show ?case using Nil by (subst argument_loop.simps) simp
next
  case (Cons x cs)
  let ?c = "a + 2 * of_nat (length p)"
  have x: "read16 m ?c = x" "x \<noteq> 0" using Cons.prems(1) by (simp_all add: str16_append)
  have next_c: "?c + 2 = a + 2 * of_nat (length (p @ [x]))" by simp
  show ?case
  proof (cases "x = 0x20")
    case False
    have ps: "ps = ((p @ [x]) @ hd (pieces cs)) # tl (pieces cs)" using False Cons.prems(5) by simp
    have "region (?c + 2) (2 * length cs) \<subseteq> region ?c (2 * length (x # cs))"
      using region_off_sub [of 2 "2 * length cs" "2 * length (x # cs)" ?c] Cons.prems(2) by simp
    then have sub: "region (?c + 2) (2 * length cs) \<union> slots_from Argv n \<subseteq> region ?c (2 * length (x # cs)) \<union> slots_from Argv n" by blast
    have e: "(p @ [x]) @ cs = p @ x # cs" by simp
    have step: "argument_loop Argv ?c a (of_nat n) m = argument_loop Argv (?c + 2) a (of_nat n) m"
      using x False by (subst argument_loop.simps) simp
    show ?thesis
      using Cons.IH [of m a "p @ [x]" n ps, unfolded e next_c [symmetric], OF Cons.prems(1-4) ps]
      unfolding step using subsetD [OF sub] by (elim exE conjE) (intro exI conjI, assumption+, blast)
  next
    case True
    define m1 where "m1 = write16 m ?c 0"
    define m2 where "m2 = (if n < 32 then write64 m1 (slot Argv n) a else m1)"
    let ?n = "min 32 (Suc n)"
    have ps: "ps = p # pieces cs" "pieces cs = ([] @ hd (pieces cs)) # tl (pieces cs)" using True Cons.prems(5) by simp_all
    let ?W = "str_region a (p @ x # cs)" and ?S = "str_region (?c + 2) cs"
    have W: "?W = str_region a p \<union> ?S" "str_region a p \<inter> ?S = {}"
      unfolding next_c using str_region_append [of "p @ [x]" cs a] Cons.prems(2) by simp_all
    have sub: "region (?c + 2) (2 * length cs) \<subseteq> ?S" by (rule region_mono) simp
    have cut: "str16 m1 a p" "str16 m1 (?c + 2) cs"
      using cut_string [OF Cons.prems(1,2)] by (simp_all add: m1_def)
    have m2: "m2 b = m1 b" if "b \<notin> region Argv 256" for b
      using that slots_within [of n Argv] by (auto simp: m2_def intro!: write64_outside)
    have p2: "str16 m2 a p = str16 m1 a p" and c2: "str16 m2 (?c + 2) cs = str16 m1 (?c + 2) cs"
      using W Cons.prems(2,4) by (intro str16_cong m2; force)+
    have step: "argument_loop Argv ?c a (of_nat n) m = argument_loop Argv (?c + 2) (?c + 2) (of_nat ?n) m2"
      using x True by (subst argument_loop.simps) (simp add: add_argument_slot [OF Cons.prems(3)] m2_def m1_def)
    have S: "?S \<inter> region Argv 256 = {}" "2 * length cs + 2 < 2 ^ 64" "?n \<le> 32" using W(1) Cons.prems(2,4) by auto
    have z: "?c + 2 + 2 * of_nat (length ([] :: u16 list)) = ?c + 2" by simp
    have cs2: "str16 m2 (?c + 2) cs" using c2 cut(2) by simp
    obtain a' m' where r: "argument_loop Argv (?c + 2) (?c + 2) (of_nat ?n) m2 = Some (a', of_nat (min 32 (?n + (length (pieces cs) - 1))), m')"
      and h: "holds_args m' Argv ?n (butlast (pieces cs)) ?S" and l: "str16 m' a' (last (pieces cs))" "str_region a' (last (pieces cs)) \<subseteq> ?S"
      and keep: "\<forall>b. b \<notin> region (?c + 2) (2 * length cs) \<union> slots_from Argv ?n \<longrightarrow> m' b = m2 b"
      using Cons.IH [of m2 "?c + 2" "[]" ?n "pieces cs", unfolded append_Nil z,
        OF cs2 S(2,3,1) ps(2) [unfolded append_Nil]] by blast
    have first: "holds_args m' Argv n [p] ?W" if n: "n < 32"
    proof -
      note sl = slots_from_Suc [OF n, of Argv] slots_from_within [of n Argv] slots_within [OF n, of Argv]
      have k: "?n = Suc n" using n by simp
      have d: "region (slot Argv n) 8 \<inter> (region (?c + 2) (2 * length cs) \<union> slots_from Argv (Suc n)) = {}"
        using sl(2,4) sub S(1) n by blast
      have d': "str_region a p \<inter> (region (?c + 2) (2 * length cs) \<union> slots_from Argv (Suc n)) = {}"
        using sl(1,3) sub W Cons.prems(4) n by auto
      have "read64 m' (slot Argv n) = read64 m2 (slot Argv n)"
        by (rule read64_cong) (use keep d in \<open>unfold k, blast\<close>)
      then have "read64 m' (slot Argv n) = a" using n by (simp add: m2_def)
      moreover have "str16 m' a p = str16 m2 a p"
        by (rule str16_cong) (use Cons.prems(2) in simp, use keep d' in \<open>unfold k, blast\<close>)
      ultimately show ?thesis using cut(1) p2 W by (simp add: holds_args_Cons)
    qed
    have "holds_args m' Argv n (butlast ps) ?W"
    proof (cases "n < 32")
      case True
      then have "holds_args m' Argv (Suc n) (butlast (pieces cs)) ?W" using holds_args_mono [OF h] W by auto
      then show ?thesis using first [OF True] holds_args_append [of m' Argv n "[p]" "butlast (pieces cs)"] by (simp add: ps(1))
    qed simp
    moreover have "m' b = m b" if "b \<notin> region ?c (2 * length (x # cs)) \<union> slots_from Argv n" for b
    proof -
      have "region ?c 2 \<subseteq> region ?c (2 * length (x # cs))" "region (?c + 2) (2 * length cs) \<subseteq> region ?c (2 * length (x # cs))"
        using region_mono [of 2 "2 * length (x # cs)" ?c] region_off_sub [of 2 "2 * length cs" "2 * length (x # cs)" ?c] Cons.prems(2) by simp_all
      then have b: "b \<notin> region ?c 2" "b \<notin> region (?c + 2) (2 * length cs)" using that by auto
      show ?thesis
      proof (cases "n < 32")
        case True
        then have "b \<notin> region (slot Argv n) 8" "b \<notin> slots_from Argv ?n" using that slots_from_Suc [OF True, of Argv] by auto
        then show ?thesis using b keep by (simp add: m2_def m1_def mem_simps)
      next
        case False
        then show ?thesis using b keep Cons.prems(3) by (simp add: m2_def m1_def mem_simps slots_from_def region_def)
      qed
    qed
    moreover have "min 32 (?n + (length (pieces cs) - 1)) = min 32 (n + (length ps - 1))"
    proof -
      have "1 \<le> length (pieces cs)" by (simp add: Suc_leI)
      then show ?thesis using Cons.prems(3) by (simp add: ps(1) min_def)
    qed
    ultimately show ?thesis unfolding step using r l W by (auto simp: ps(1))
  qed
qed

text \<open>C37: Splitting the command line of an image returns: the arguments are the pieces of the text between its
  spaces, of which the first 32 are in the array, in order, each as a string of its own inside the copied
  text; an empty piece counts, but for the last. Only the text and the array change.\<close>

theorem split_arguments_pieces:
  assumes "str16 m A cs" "2 * length cs + 2 < 2 ^ 64" "str_region A cs \<inter> region Argv 256 = {}"
  shows "\<exists>m'. split_arguments A Argv m = Some (of_nat (min 32 (length (arguments cs))), m')
    \<and> (\<forall>k < min 32 (length (arguments cs)). str16 m' (read64 m' (slot Argv k)) (arguments cs ! k) \<and> str_region (read64 m' (slot Argv k)) (arguments cs ! k) \<subseteq> str_region A cs)
    \<and> (\<forall>b. b \<notin> str_region A cs \<union> region Argv 256 \<longrightarrow> m' b = m b)"
proof -
  let ?ps = "pieces cs" and ?R = "str_region A cs"
  have ps: "?ps = ([] @ hd ?ps) # tl ?ps" by simp
  have A: "A + 2 * of_nat (length ([] :: u16 list)) = A" "(of_nat 0 :: u64) = 0" by simp_all
  obtain a m1 where r: "argument_loop Argv A A 0 m = Some (a, of_nat (min 32 (length ?ps - 1)), m1)"
    and h: "holds_args m1 Argv 0 (butlast ?ps) ?R" and l: "str16 m1 a (last ?ps)" "str_region a (last ?ps) \<subseteq> ?R"
    and keep: "\<forall>b. b \<notin> region A (2 * length cs) \<union> slots_from Argv 0 \<longrightarrow> m1 b = m b"
    using argument_loop_pieces [of m A "[]" cs 0 Argv ?ps, unfolded append_Nil A add_0, OF assms(1,2) _ assms(3)] ps by auto
  obtain j where j: "j = min 32 (length ?ps - 1)" by blast
  note r = r [folded j]
  have keep1: "m1 b = m b" if "b \<notin> ?R \<union> region Argv 256" for b
    using that keep slots_from_within [of 0 Argv] region_mono [of "2 * length cs" "2 * length cs + 2" A] by auto
  have z: "read16 m1 a = 0 \<longleftrightarrow> last ?ps = []" using l(1) by (cases "last ?ps") auto
  have lens: "1 \<le> length ?ps" "\<forall>q \<in> set ?ps. 2 * length q + 2 < 2 ^ 64"
    using pieces_length [of _ cs] assms(2) by (simp_all add: Suc_leI) (meson order_le_less_trans mult_le_mono2 add_le_mono1 le_refl)
  have get: "str16 m' (read64 m' (slot Argv k)) (qs ! k) \<and> str_region (read64 m' (slot Argv k)) (qs ! k) \<subseteq> ?R"
    if "holds_args m' Argv 0 qs ?R" "k < min 32 (length qs)" for m' qs k
    using that by (simp add: holds_args_def)
  show ?thesis
  proof (cases "last ?ps = []")
    case True
    then have "arguments cs = butlast ?ps" by (simp add: arguments_def Let_def)
    moreover have "split_arguments A Argv m = Some (of_nat j, m1)" using r z True by (simp add: split_arguments_def)
    ultimately show ?thesis using get [OF h] keep1 j by simp
  next
    case False
    define m2 where "m2 = (if j < 32 then write64 m1 (slot Argv j) a else m1)"
    have args: "arguments cs = butlast ?ps @ [last ?ps]" using False by (simp add: arguments_def Let_def)
    have s: "split_arguments A Argv m = Some (of_nat (min 32 (length (arguments cs))), m2)"
    proof -
      have "min 32 (Suc j) = min 32 (length (arguments cs))" using lens(1) by (cases "length ?ps") (simp_all add: args j)
      then show ?thesis using r z False add_argument_slot [of j Argv a m1] j by (simp add: split_arguments_def m2_def del: min.assoc min_Suc_Suc)
    qed
    have m2: "m2 b = m1 b" if "b \<notin> region (slot Argv j) 8 \<or> 32 \<le> j" for b
      using that by (auto simp: m2_def intro!: write64_outside)
    have R2: "m2 b = m1 b" if "b \<in> ?R" for b
      using that slots_within [of j Argv] assms(3) by (intro m2) (cases "j < 32"; auto)
    have "holds_args m2 Argv 0 (butlast ?ps) ?R"
    proof (rule holds_args_keep [OF h R2])
      show "\<forall>q \<in> set (butlast ?ps). 2 * length q + 2 < 2 ^ 64" using lens(2) in_set_butlastD by fast
      show "m2 b = m1 b" if "k < length (butlast ?ps)" "0 + k < 32" "b \<in> region (slot Argv (0 + k)) 8" for k b
      proof (rule m2)
        have "j < 32 \<Longrightarrow> k < j" using that(1) by (simp add: j)
        then show "b \<notin> region (slot Argv j) 8 \<or> 32 \<le> j" using that(3) slots_apart [of k j Argv] by (cases "j < 32") auto
      qed
    qed
    moreover have "holds_args m2 Argv (length (butlast ?ps)) [last ?ps] ?R"
    proof -
      have "str16 m2 a (last ?ps) = str16 m1 a (last ?ps)" using lens l(2) R2 by (intro str16_cong) auto
      moreover have "length ?ps - 1 < 32 \<Longrightarrow> read64 m2 (slot Argv (length ?ps - 1)) = a" by (simp add: m2_def j)
      ultimately show ?thesis using l by (simp add: holds_args_Cons)
    qed
    ultimately have "holds_args m2 Argv 0 (arguments cs) ?R" unfolding args holds_args_append by simp
    moreover have "m2 b = m b" if "b \<notin> ?R \<union> region Argv 256" for b
    proof -
      have "b \<notin> region (slot Argv j) 8 \<or> 32 \<le> j" using that slots_within [of j Argv] by (cases "j < 32") auto
      then show ?thesis using m2 keep1 that by simp
    qed
    ultimately show ?thesis using s get by blast
  qed
qed

text \<open>The command line ``ab  c'' at 0x100, with two spaces.\<close>

definition small_line :: memory where
  "small_line = (\<lambda>_. 0)(0x100 := 97, 0x102 := 98, 0x104 := 0x20, 0x106 := 0x20, 0x108 := 99)"

theorem split_arguments_pieces_witness:
  "\<exists>m'. split_arguments 0x100 0x1000 small_line = Some (3, m') \<and> str16 m' (read64 m' 0x1000) [97, 98] \<and> str16 m' (read64 m' 0x1010) [99]"
proof -
  let ?cs = "[97, 98, 0x20, 0x20, 99] :: u16 list"
  have s: "str16 small_line 0x100 ?cs" by (simp add: small_line_def load_eval)
  have a: "arguments ?cs = [[97, 98], [], [99]]" by (simp add: arguments_def)
  have d: "str_region 0x100 ?cs \<inter> region 0x1000 256 = {}" using regions_apart [of 0 12 "0xF00" 256 "0x100"] by simp
  obtain m' where r: "split_arguments 0x100 0x1000 small_line = Some (of_nat (min 32 (length (arguments ?cs))), m')"
    and h: "\<forall>k < min 32 (length (arguments ?cs)). str16 m' (read64 m' (slot 0x1000 k)) (arguments ?cs ! k)"
    using split_arguments_pieces [OF s _ d] by auto
  show ?thesis using r h [rule_format, of 0] h [rule_format, of 2] by (simp add: a slot_def)
qed

end
