(* ===== verification/EfiInput.thy ===== *)
theory EfiInput
  imports EfiStart
begin

text \<open>
  Waiting for events (\<open>lib/event.c\<close>), reading a line from the console (\<open>lib/console.c\<close>), access to ports
  and to the PCI configuration through the firmware (\<open>lib/hw.c\<close>), and the dump of memory that
  \<open>lib/print.c\<close> prints. The system table has the console for input at 48; such a console has the
  event for a key at 16. An access is to ports or to the configuration space, and its width is the number that
  the firmware is given. The arrays \<open>DumpHex\<close> prints from have addresses.
\<close>

subsection \<open>Services\<close>

datatype io_space = Io | PciConfig

record 'f input_uefi = "'f start_uefi" +
  sv_CreateEvent :: "u32 \<Rightarrow> u64 \<Rightarrow> u64 \<Rightarrow> u64 \<Rightarrow> 'f \<Rightarrow> u64 \<times> u64 option \<times> 'f"
  sv_RegisterProtocolNotify :: "protocol \<Rightarrow> u64 \<Rightarrow> u64 \<Rightarrow> memory \<Rightarrow> 'f \<Rightarrow> u64 \<times> memory \<times> 'f"
  sv_SignalEvent :: "u64 \<Rightarrow> 'f \<Rightarrow> 'f"
  sv_SetTimer :: "u64 \<Rightarrow> u32 \<Rightarrow> u64 \<Rightarrow> 'f \<Rightarrow> 'f"
  sv_WaitForEvent :: "u64 list \<Rightarrow> 'f \<Rightarrow> u64 \<times> u64 option \<times> 'f"
  sv_CloseEvent :: "u64 \<Rightarrow> 'f \<Rightarrow> 'f"
  con_ReadKeyStroke :: "u64 \<Rightarrow> 'f \<Rightarrow> u64 \<times> (u16 \<times> u16) option \<times> 'f"
  con_QueryMode :: "u64 \<Rightarrow> u64 \<Rightarrow> 'f \<Rightarrow> u64 \<times> (u64 \<times> u64) option \<times> 'f"
  io_Read :: "io_space \<Rightarrow> u64 \<Rightarrow> u32 \<Rightarrow> u64 \<Rightarrow> 'f \<Rightarrow> u64 \<times> u32 option \<times> 'f"
  io_Write :: "io_space \<Rightarrow> u64 \<Rightarrow> u32 \<Rightarrow> u64 \<Rightarrow> u64 \<Rightarrow> 'f \<Rightarrow> u64 \<times> 'f"

definition EVT_TIMER :: u32 where "EVT_TIMER = 0x80000000"
definition EVT_NOTIFY_SIGNAL :: u32 where "EVT_NOTIFY_SIGNAL = 0x200"
definition TimerRelative :: u32 where "TimerRelative = 2"
definition EFI_TIMEOUT :: u64 where "EFI_TIMEOUT = EFIERR 18"

subsection \<open>Events\<close>

text \<open>The event, or 0; an event that cannot be registered is not closed.\<close>

definition LibCreateProtocolNotifyEvent ::
  "('f, 'y) input_uefi_scheme \<Rightarrow> protocol \<Rightarrow> u64 \<Rightarrow> u64 \<Rightarrow> u64 \<Rightarrow> u64 \<Rightarrow> ('f, 'z) efi_state_scheme \<Rightarrow> (u64 \<times> ('f, 'z) efi_state_scheme) option" where
  "LibCreateProtocolNotifyEvent sv ProtocolGuid NotifyTpl NotifyFunction NotifyContext Registration s =
     (let (Status, v, f) = sv_CreateEvent sv EVT_NOTIFY_SIGNAL NotifyTpl NotifyFunction NotifyContext (firmware s);
          s = s\<lparr>firmware := f\<rparr>
      in if EFI_ERROR Status then Some (0, s)
         else do {
           Event \<leftarrow> v;
           let (Status, m, f) = sv_RegisterProtocolNotify sv ProtocolGuid Event Registration (mem s) (firmware s);
           let s = s\<lparr>mem := m, firmware := f\<rparr>;
           if EFI_ERROR Status then Some (0, s)
           else Some (Event, s\<lparr>firmware := sv_SignalEvent sv Event (firmware s)\<rparr>)
         })"

definition WaitForSingleEvent ::
  "('f, 'y) input_uefi_scheme \<Rightarrow> u64 \<Rightarrow> u64 \<Rightarrow> ('f, 'z) efi_state_scheme \<Rightarrow> (u64 \<times> ('f, 'z) efi_state_scheme) option" where
  "WaitForSingleEvent sv Event Timeout s =
     (if Timeout \<noteq> 0 then
        let (Status, v, f) = sv_CreateEvent sv EVT_TIMER 0 0 0 (firmware s)
        in if EFI_ERROR Status then Some (Status, s\<lparr>firmware := f\<rparr>)
           else do {
             TimerEvent \<leftarrow> v;
             let f = sv_SetTimer sv TimerEvent TimerRelative Timeout f;
             let (Status, Index, f) = sv_WaitForEvent sv [Event, TimerEvent] f;
             let s = s\<lparr>firmware := sv_CloseEvent sv TimerEvent f\<rparr>;
             if EFI_ERROR Status then Some (Status, s)
             else do { Index \<leftarrow> Index; Some (if Index = 1 then EFI_TIMEOUT else Status, s) }
           }
      else
        let (Status, Index, f) = sv_WaitForEvent sv [Event] (firmware s)
        in Some (Status, s\<lparr>firmware := f\<rparr>))"

definition ConIn :: "('f, 'z) efi_state_scheme \<Rightarrow> u64" where
  "ConIn s = read64 (mem s) (ST s + 48)"

text \<open>The key, as scan code and character.\<close>

partial_function (option) WaitForEventWithTimeout ::
  "('f, 'y) input_uefi_scheme \<Rightarrow> u64 \<Rightarrow> u64 \<Rightarrow> u64 \<Rightarrow> u64 \<Rightarrow> u64 \<Rightarrow> u16 \<times> u16 \<Rightarrow> ('f, 'z) efi_state_scheme
     \<Rightarrow> ((u16 \<times> u16) \<times> ('f, 'z) efi_state_scheme) option" where
  "WaitForEventWithTimeout sv Event Timeout Row Column String TimeoutKey s = do {
     (len, s) \<leftarrow> PrintAt sv Column Row (Wide String) [Timeout] s;
     (Status, s) \<leftarrow> WaitForSingleEvent sv Event 10000000 s;
     (Key, s) \<leftarrow> (if Status = EFI_SUCCESS then
         let (Status, Key, f) = con_ReadKeyStroke sv (ConIn s) (firmware s); s = s\<lparr>firmware := f\<rparr>
         in if \<not> EFI_ERROR Status then do { k \<leftarrow> Key; Some (Some k, s) } else Some (None, s)
       else Some (None, s));
     if Key \<noteq> None then Some (the Key, s)
     else if Timeout > 0 then WaitForEventWithTimeout sv Event Timeout Row Column String TimeoutKey s
     else Some (TimeoutKey, s)
   }"

subsection \<open>Reading a line\<close>

definition Output_efi :: "('f, 'y) print_uefi_scheme \<Rightarrow> u16 list \<Rightarrow> ('f, 'z) efi_state_scheme \<Rightarrow> ('f, 'z) efi_state_scheme" where
  "Output_efi sv Str s = s\<lparr>firmware := sv_OutputString sv (ConOut s) Str (firmware s)\<rparr>"

text \<open>The loop gives the length of the line. A character that is echoed is the string at its place in the
  line, which has just been terminated.\<close>

partial_function (option) input_loop ::
  "('f, 'y) input_uefi_scheme \<Rightarrow> u64 \<Rightarrow> u64 \<Rightarrow> u64 \<Rightarrow> u64 \<Rightarrow> u64 \<Rightarrow> ('f, 'z) efi_state_scheme \<Rightarrow> (u64 \<times> ('f, 'z) efi_state_scheme) option" where
  "input_loop sv Out In InStr MaxLen Count s = do {
     (Status, s) \<leftarrow> WaitForSingleEvent sv (read64 (mem s) (In + 16)) 0 s;
     let (Status, Key, f) = con_ReadKeyStroke sv In (firmware s);
     let s = s\<lparr>firmware := f\<rparr>;
     if EFI_ERROR Status then Some (Count, s)
     else do {
       (ScanCode, c) \<leftarrow> Key;
       if c = 10 \<or> c = 13 then Some (Count, s)
       else if c = 8 then
         if Count \<noteq> 0 then input_loop sv Out In InStr MaxLen (Count - 1) (s\<lparr>firmware := sv_OutputString sv Out [8, 32, 8] (firmware s)\<rparr>)
         else input_loop sv Out In InStr MaxLen Count s
       else if c \<ge> 32 then
         if Count < MaxLen - 1 then
           input_loop sv Out In InStr MaxLen (Count + 1)
             (s\<lparr>mem := write16 (write16 (mem s) (InStr + Count * 2) c) (InStr + (Count + 1) * 2) 0,
                firmware := sv_OutputString sv Out [c] (firmware s)\<rparr>)
         else input_loop sv Out In InStr MaxLen Count s
       else input_loop sv Out In InStr MaxLen Count s
     }
   }"

text \<open>\<open>Prompt\<close> is the text of the prompt, if there is one.\<close>

definition IInput ::
  "('f, 'y) input_uefi_scheme \<Rightarrow> u64 \<Rightarrow> u64 \<Rightarrow> u16 list option \<Rightarrow> u64 \<Rightarrow> u64 \<Rightarrow> ('f, 'z) efi_state_scheme \<Rightarrow> ('f, 'z) efi_state_scheme option" where
  "IInput sv Out In Prompt InStr MaxLen s = do {
     let s = (case Prompt of None \<Rightarrow> s | Some t \<Rightarrow> s\<lparr>firmware := sv_OutputString sv Out t (firmware s)\<rparr>);
     (Count, s) \<leftarrow> input_loop sv Out In InStr MaxLen 0 s;
     Some (s\<lparr>mem := write16 (mem s) (InStr + Count * 2) 0\<rparr>)
   }"

definition Input_efi ::
  "('f, 'y) input_uefi_scheme \<Rightarrow> u16 list option \<Rightarrow> u64 \<Rightarrow> u64 \<Rightarrow> ('f, 'z) efi_state_scheme \<Rightarrow> ('f, 'z) efi_state_scheme option" where
  "Input_efi sv Prompt InStr MaxLen s = IInput sv (ConOut s) (ConIn s) Prompt InStr MaxLen s"

subsection \<open>Hardware\<close>

text \<open>Status, the interface if it was stored, and state. The first search does not fail unless the path has the
  protocol already; it may have moved the path.\<close>

definition InitializeGlobalIoDevice ::
  "('f, 'y) path_uefi_scheme \<Rightarrow> u64 \<Rightarrow> protocol \<Rightarrow> ('f, 'z) efi_state_scheme \<Rightarrow> (u64 \<times> u64 option \<times> ('f, 'z) efi_state_scheme) option" where
  "InitializeGlobalIoDevice sv DevicePath Protocol s =
     (let (Status, out, f) = sv_LocateDevicePath sv Protocol DevicePath (mem s) (firmware s);
          s = s\<lparr>firmware := f\<rparr>
      in if \<not> EFI_ERROR Status then Some (EFI_LOAD_ERROR, None, s)
         else
           let DevicePath = (case out of None \<Rightarrow> DevicePath | Some (rest, device) \<Rightarrow> rest);
               (Status, out', f) = sv_LocateDevicePath sv DeviceIoProtocol DevicePath (mem s) (firmware s);
               s = s\<lparr>firmware := f\<rparr>
           in if EFI_ERROR Status then Some (Status, None, s)
              else do {
                (rest, Handle) \<leftarrow> (if out' = None then out else out');
                let (Status, v, f) = sv_HandleProtocol sv Handle DeviceIoProtocol (firmware s);
                Some (Status, v, s\<lparr>firmware := f\<rparr>)
              })"

definition ReadPort :: "('f, 'y) input_uefi_scheme \<Rightarrow> u64 \<Rightarrow> u32 \<Rightarrow> u64 \<Rightarrow> ('f, 'z) efi_state_scheme \<Rightarrow> (u32 \<times> ('f, 'z) efi_state_scheme) option" where
  "ReadPort sv GlobalIoFncs Width Port s =
     (let (Status, Data, f) = io_Read sv Io GlobalIoFncs Width Port (firmware s)
      in do { d \<leftarrow> Data; Some (d, s\<lparr>firmware := f\<rparr>) })"

definition WritePort :: "('f, 'y) input_uefi_scheme \<Rightarrow> u64 \<Rightarrow> u32 \<Rightarrow> u64 \<Rightarrow> u64 \<Rightarrow> ('f, 'z) efi_state_scheme \<Rightarrow> u32 \<times> ('f, 'z) efi_state_scheme" where
  "WritePort sv GlobalIoFncs Width Port Data s =
     (let (Status, f) = io_Write sv Io GlobalIoFncs Width Port Data (firmware s) in (ucast Data, s\<lparr>firmware := f\<rparr>))"

definition ReadPciConfig :: "('f, 'y) input_uefi_scheme \<Rightarrow> u64 \<Rightarrow> u32 \<Rightarrow> u64 \<Rightarrow> ('f, 'z) efi_state_scheme \<Rightarrow> (u32 \<times> ('f, 'z) efi_state_scheme) option" where
  "ReadPciConfig sv GlobalIoFncs Width Address s =
     (let (Status, Data, f) = io_Read sv PciConfig GlobalIoFncs Width Address (firmware s)
      in do { d \<leftarrow> Data; Some (d, s\<lparr>firmware := f\<rparr>) })"

definition WritePciConfig :: "('f, 'y) input_uefi_scheme \<Rightarrow> u64 \<Rightarrow> u32 \<Rightarrow> u64 \<Rightarrow> u64 \<Rightarrow> ('f, 'z) efi_state_scheme \<Rightarrow> u32 \<times> ('f, 'z) efi_state_scheme" where
  "WritePciConfig sv GlobalIoFncs Width Address Data s =
     (let (Status, f) = io_Write sv PciConfig GlobalIoFncs Width Address Data (firmware s) in (ucast Data, s\<lparr>firmware := f\<rparr>))"

subsection \<open>Dumping memory\<close>

text \<open>One line: \<open>Val\<close> has three characters for each byte, \<open>Str\<close> one.\<close>

fun dump_bytes :: "nat \<Rightarrow> u64 \<Rightarrow> u64 \<Rightarrow> u64 \<Rightarrow> u64 \<Rightarrow> memory \<Rightarrow> memory" where
  "dump_bytes 0 Index Data Val Str m = m(Val + Index * 3 := 0, Str + Index := 0)"
| "dump_bytes (Suc n) Index Data Val Str m =
     (let c = m (Data + Index);
          m = m(Val + Index * 3 := ucast (Hex ! unat (drop_bit 4 c)),
                Val + Index * 3 + 1 := ucast (Hex ! unat (c AND 0xF)),
                Val + Index * 3 + 2 := (if Index = 7 then 0x2D else 0x20),
                Str + Index := (if c < 0x20 \<or> c > 0x7A then 0x2E else c))
      in dump_bytes n (Index + 1) Data Val Str m)"

partial_function (option) dump_loop ::
  "('f, 'y) input_uefi_scheme \<Rightarrow> u64 \<Rightarrow> u64 \<Rightarrow> u64 \<Rightarrow> u64 \<Rightarrow> u64 \<Rightarrow> u64 \<Rightarrow> u64 \<Rightarrow> u64 \<Rightarrow> u64 \<Rightarrow> u64 \<Rightarrow> ('f, 'z) efi_state_scheme
     \<Rightarrow> ('f, 'z) efi_state_scheme option" where
  "dump_loop sv Empty Val Str ReturnStr Indent ScreenSize ScreenCount Offset DataSize Data s =
     (if DataSize = 0 then Some s
      else do {
        let Size = (if 16 > DataSize then DataSize else 16);
        let s = s\<lparr>mem := dump_bytes (unat Size) 0 Data Val Str (mem s)\<rparr>;
        (len, s) \<leftarrow> Print_efi sv (Lit (wlit ''%*a%X: %-.48a *%a*'' @ [10])) [Indent, Empty, Offset, Val, Str] s;
        let ScreenCount = ScreenCount + 1;
        (ScreenCount, s) \<leftarrow> (if ScreenCount \<ge> ScreenSize \<and> ScreenSize \<noteq> 0 then do {
             (len, s) \<leftarrow> Print_efi sv (Lit (wlit ''Press Enter to continue :'')) [] s;
             s \<leftarrow> Input_efi sv (Some []) ReturnStr 1 s;
             (len, s) \<leftarrow> Print_efi sv (Lit [10]) [] s;
             Some (0, s)
           }
           else Some (ScreenCount, s));
        dump_loop sv Empty Val Str ReturnStr Indent ScreenSize ScreenCount (Offset + Size) (DataSize - Size) (Data + Size) s
      })"

definition DumpHex ::
  "('f, 'y) input_uefi_scheme \<Rightarrow> u64 \<Rightarrow> u64 \<Rightarrow> u64 \<Rightarrow> u64 \<Rightarrow> u64 \<Rightarrow> u64 \<Rightarrow> u64 \<Rightarrow> u64 \<Rightarrow> ('f, 'z) efi_state_scheme
     \<Rightarrow> ('f, 'z) efi_state_scheme option" where
  "DumpHex sv Empty Val Str ReturnStr Indent Offset DataSize UserData s =
     (let Mode = scast (read32 (mem s) (read64 (mem s) (ConOut s + 72) + 4)) :: u64;
          (Status, v, f) = con_QueryMode sv (ConOut s) Mode (firmware s)
      in do {
        (TempColumn, ScreenSize) \<leftarrow> v;
        dump_loop sv Empty Val Str ReturnStr Indent (ScreenSize - 2) 0 Offset DataSize UserData (s\<lparr>firmware := f\<rparr>)
      })"


subsection \<open>The line editor\<close>

text \<open>What a line becomes and what is echoed when the keys are typed, with room for \<open>n\<close> characters. The end
  of the keys ends the line as a return does.\<close>

fun edit :: "nat \<Rightarrow> u16 list \<Rightarrow> u16 list \<Rightarrow> u16 list \<times> u16 list" where
  "edit n line [] = (line, [])"
| "edit n line (c # ks) =
     (if c = 10 \<or> c = 13 then (line, [])
      else if c = 8 \<and> line \<noteq> [] then apsnd (\<lambda>out. [8, 32, 8] @ out) (edit n (butlast line) ks)
      else if c \<ge> 32 \<and> length line < n then apsnd (\<lambda>out. c # out) (edit n (line @ [c]) ks)
      else edit n line ks)"

text \<open>A console whose keyboard delivers the keys that \<open>keys\<close> tells from the state of the firmware and then fails,
  and whose screen, \<open>shown\<close>, gets what is printed.\<close>

definition console_laws :: "('f, 'y) input_uefi_scheme \<Rightarrow> u64 \<Rightarrow> u64 \<Rightarrow> ('f \<Rightarrow> u16 list) \<Rightarrow> ('f \<Rightarrow> u16 list) \<Rightarrow> bool" where
  "console_laws sv Out In keys shown \<longleftrightarrow>
     (\<forall>e f. keys (snd (snd (sv_WaitForEvent sv [e] f))) = keys f \<and> shown (snd (snd (sv_WaitForEvent sv [e] f))) = shown f)
     \<and> (\<forall>f. case con_ReadKeyStroke sv In f of (st, k, f') \<Rightarrow> shown f' = shown f
          \<and> (case keys f of [] \<Rightarrow> EFI_ERROR st | c # cs \<Rightarrow> \<not> EFI_ERROR st \<and> map_option snd k = Some c \<and> keys f' = cs))
     \<and> (\<forall>t f. keys (sv_OutputString sv Out t f) = keys f \<and> shown (sv_OutputString sv Out t f) = shown f @ t)"

definition stored :: "memory \<Rightarrow> u64 \<Rightarrow> u16 list \<Rightarrow> bool" where
  "stored m a l \<longleftrightarrow> (\<forall>k < length l. l ! k \<noteq> 0 \<and> read16 m (a + 2 * of_nat k) = l ! k)"

lemma stored_butlast: "stored m a l \<Longrightarrow> stored m a (butlast l)"
  by (simp add: stored_def nth_butlast)

lemma stored_end: "stored m a l \<Longrightarrow> read16 m (a + 2 * of_nat (length l)) = 0 \<Longrightarrow> str16 m a l"
  using str16_append [of m a l "[]"] by (simp add: stored_def)

lemma stored_write:
  assumes "stored m a l" "length l \<le> j" "2 * j + 2 < 2 ^ 64"
  shows "stored (write16 m (a + 2 * of_nat j) v) a l"
proof -
  have "read16 (write16 m (a + 2 * of_nat j) v) (a + 2 * of_nat k) = read16 m (a + 2 * of_nat k)" if "k < length l" for k
  proof (rule read16_cong)
    have "region (a + of_nat (2 * k)) 2 \<inter> region (a + of_nat (2 * j)) 2 = {}" using that assms(2,3) by (intro regions_apart) simp_all
    then show "write16 m (a + 2 * of_nat j) v b = m b" if "b \<in> region (a + 2 * of_nat k) 2" for b
      using that by (intro write16_outside) auto
  qed
  then show ?thesis using assms(1) by (simp add: stored_def)
qed

lemma stored_snoc:
  assumes "stored m a l" "c \<noteq> 0" "2 * length l + 4 < 2 ^ 64"
  shows "stored (write16 (write16 m (a + 2 * of_nat (length l)) c) (a + 2 * of_nat (Suc (length l))) v) a (l @ [c])"
proof -
  let ?m = "write16 m (a + 2 * of_nat (length l)) c"
  have "stored ?m a l" using assms by (intro stored_write) simp_all
  then have "stored ?m a (l @ [c])" using assms(2) by (auto simp: stored_def nth_append less_Suc_eq)
  then show ?thesis using assms(3) by (rule_tac stored_write) simp_all
qed

lemma write16_within:
  assumes "b \<notin> region a (2 * n)" "j < n" "2 * n < 2 ^ 64"
  shows "write16 m (a + 2 * of_nat j) v b = m b"
proof -
  have "region (a + of_nat (2 * j)) 2 \<subseteq> region a (2 * n)" using assms by (intro region_off_sub) simp_all
  then show ?thesis using assms(1) by (intro write16_outside) auto
qed

lemma console_key:
  assumes "console_laws sv Out In keys shown" "sv_WaitForEvent sv [e] f = (st, i, f1)" "con_ReadKeyStroke sv In f1 = (st2, k, f2)"
  shows "keys f = [] \<Longrightarrow> EFI_ERROR st2" "keys f = c # cs \<Longrightarrow> \<not> EFI_ERROR st2 \<and> map_option snd k = Some c \<and> keys f2 = cs"
    and "shown f2 = shown f"
proof -
  note L = assms(1) [unfolded console_laws_def]
  have 1: "keys f1 = keys f" "shown f1 = shown f" using L [THEN conjunct1, THEN spec [of _ e], THEN spec [of _ f]] assms(2) by simp_all
  note 2 = L [THEN conjunct2, THEN conjunct1, THEN spec [of _ f1]]
  show "keys f = [] \<Longrightarrow> EFI_ERROR st2" "keys f = c # cs \<Longrightarrow> \<not> EFI_ERROR st2 \<and> map_option snd k = Some c \<and> keys f2 = cs" "shown f2 = shown f"
    using 1 2 assms(3) by auto
qed

lemma console_output:
  "console_laws sv Out In keys shown \<Longrightarrow> keys (sv_OutputString sv Out t f) = keys f \<and> shown (sv_OutputString sv Out t f) = shown f @ t"
  unfolding console_laws_def by blast

lemma input_loop_step:
  assumes "sv_WaitForEvent sv [read64 (mem s) (In + 16)] (firmware s) = (st, i, f1)" "con_ReadKeyStroke sv In f1 = (st2, Some (sc, c), f2)"
    and "\<not> EFI_ERROR st2"
  shows "input_loop sv Out In InStr MaxLen Count s =
     (if c = 10 \<or> c = 13 then Some (Count, s\<lparr>firmware := f2\<rparr>)
      else if c = 8 then
        if \<not> Count = 0 then input_loop sv Out In InStr MaxLen (Count - 1) (s\<lparr>firmware := sv_OutputString sv Out [8, 32, 8] f2\<rparr>)
        else input_loop sv Out In InStr MaxLen Count (s\<lparr>firmware := f2\<rparr>)
      else if c \<ge> 32 \<and> Count < MaxLen - 1 then
        input_loop sv Out In InStr MaxLen (Count + 1)
          (s\<lparr>mem := write16 (write16 (mem s) (InStr + Count * 2) c) (InStr + (Count + 1) * 2) 0,
             firmware := sv_OutputString sv Out [c] f2\<rparr>)
      else input_loop sv Out In InStr MaxLen Count (s\<lparr>firmware := f2\<rparr>))"
  using assms by (subst input_loop.simps) (simp add: WaitForSingleEvent_def Let_def)

lemma input_loop_edits:
  assumes laws: "console_laws sv Out In keys shown" and room: "2 * unat MaxLen < 2 ^ 64" "n = unat MaxLen - 1" "MaxLen \<noteq> 0"
  shows "keys (firmware s) = ks \<Longrightarrow> stored (mem s) InStr line \<Longrightarrow> length line \<le> n \<Longrightarrow> edit n line ks = (line', echo) \<Longrightarrow>
    \<exists>m' f'. input_loop sv Out In InStr MaxLen (of_nat (length line)) s = Some (of_nat (length line'), s\<lparr>mem := m', firmware := f'\<rparr>)
      \<and> stored m' InStr line' \<and> length line' \<le> n \<and> shown f' = shown (firmware s) @ echo
      \<and> (\<forall>b. b \<notin> region InStr (2 * unat MaxLen) \<longrightarrow> m' b = mem s b)"
proof (induction ks arbitrary: s line line' echo)
  case Nil
  obtain st i f1 where w: "sv_WaitForEvent sv [read64 (mem s) (In + 16)] (firmware s) = (st, i, f1)" by (metis prod_cases3)
  obtain st2 k f2 where r: "con_ReadKeyStroke sv In f1 = (st2, k, f2)" by (metis prod_cases3)
  have "EFI_ERROR st2" "shown f2 = shown (firmware s)" using console_key [OF laws w r] Nil(1) by simp_all
  then show ?case using Nil w r
    by (subst input_loop.simps) (auto simp: WaitForSingleEvent_def intro!: exI [of _ "mem s"] exI [of _ f2])
next
  case (Cons c ks)
  obtain st i f1 where w: "sv_WaitForEvent sv [read64 (mem s) (In + 16)] (firmware s) = (st, i, f1)" by (metis prod_cases3)
  obtain st2 k f2 where r: "con_ReadKeyStroke sv In f1 = (st2, k, f2)" by (metis prod_cases3)
  have k: "\<not> EFI_ERROR st2" "shown f2 = shown (firmware s)" "map_option snd k = Some c" "keys f2 = ks"
    using console_key [OF laws w r] Cons.prems(1) by simp_all
  then obtain sc where sc: "k = Some (sc, c)" by auto
  let ?s = "s\<lparr>firmware := f2\<rparr>"
  note out = console_output [OF laws]
  have nn: "n < 2 ^ 63" "unat (MaxLen - 1) = n" using room by (simp_all add: unat_minus_one)
  have len: "(of_nat (length line) :: u64) = 0 \<longleftrightarrow> line = []" "(of_nat (length line) :: u64) < MaxLen - 1 \<longleftrightarrow> length line < n"
    using Cons.prems(3) nn by (simp_all add: word_less_nat_alt word_unat_eq_iff unat_of_nat_lt)
  note step = input_loop_step [OF w r [unfolded sc] k(1), of Out InStr MaxLen "of_nat (length line)", unfolded len]
  consider "c = 10 \<or> c = 13" | "c = 8" "line \<noteq> []" | "c \<ge> 32" "length line < n"
    | "c \<noteq> 10" "c \<noteq> 13" "\<not> (c = 8 \<and> line \<noteq> [])" "\<not> (c \<ge> 32 \<and> length line < n)" by blast
  then show ?case
  proof cases
    case 1
    then show ?thesis unfolding step using Cons.prems k(2) by (intro exI [of _ "mem s"] exI [of _ f2]) auto
  next
    case 2
    let ?t = "s\<lparr>firmware := sv_OutputString sv Out [8, 32, 8] f2\<rparr>"
    obtain e where e: "edit n (butlast line) ks = (line', e)" "echo = [8, 32, 8] @ e"
      using Cons.prems(4) 2 by (cases "edit n (butlast line) ks") auto
    have "of_nat (length line) - 1 = (of_nat (length (butlast line)) :: u64)" using 2(2) by (cases line rule: rev_cases) simp_all
    then show ?thesis unfolding step
      using Cons.IH [of ?t "butlast line" line' e] Cons.prems(2,3) k e 2 out stored_butlast by auto
  next
    case 3
    let ?m = "write16 (write16 (mem s) (InStr + 2 * of_nat (length line)) c) (InStr + 2 * of_nat (Suc (length line))) 0"
    let ?t = "s\<lparr>mem := ?m, firmware := sv_OutputString sv Out [c] f2\<rparr>"
    have c: "c \<noteq> 10" "c \<noteq> 13" "c \<noteq> 8" using 3(1) by (auto simp: word_le_nat_alt)
    obtain e where e: "edit n (line @ [c]) ks = (line', e)" "echo = c # e"
      using Cons.prems(4) 3 c by (cases "edit n (line @ [c]) ks") auto
    have m: "write16 (write16 (mem s) (InStr + of_nat (length line) * 2) c) (InStr + (of_nat (length line) + 1) * 2) 0 = ?m"
      by (simp add: algebra_simps)
    have "2 * length line + 4 < 2 ^ 64" "c \<noteq> 0" using 3 room(1,2) by (linarith, auto)
    then have st: "stored ?m InStr (line @ [c])" using Cons.prems(2) by (intro stored_snoc)
    have keep: "?m b = mem s b" if "b \<notin> region InStr (2 * unat MaxLen)" for b
      using that 3(2) room by (simp add: write16_within del: of_nat_Suc)
    have l1: "of_nat (length line) + 1 = (of_nat (length (line @ [c])) :: u64)" by simp
    show ?thesis unfolding step unfolding m unfolding l1
      using Cons.IH [of ?t "line @ [c]" line' e] st 3 k e c out keep by auto
  next
    case 4
    then have "edit n line ks = (line', echo)" using Cons.prems(4) by auto
    moreover have "input_loop sv Out In InStr MaxLen (of_nat (length line)) s = input_loop sv Out In InStr MaxLen (of_nat (length line)) ?s"
      unfolding step using 4 by auto
    ultimately show ?thesis using Cons.IH [of ?s line line' echo] Cons.prems(2,3) k by auto
  qed
qed

text \<open>C38: Reading a line returns when the keys end or a return is typed. The array then holds the line that the
  keys make, back spaces taking characters away and the rest being dropped when the line is full, as a string
  with its terminator inside the array; the screen shows the prompt and the echo of the line, and nothing
  else in memory changes.\<close>

theorem IInput_edits:
  assumes "console_laws sv Out In keys shown" "MaxLen \<noteq> 0" "2 * unat MaxLen < 2 ^ 64"
    and "edit (unat MaxLen - 1) [] (keys (firmware s)) = (line, echo)"
  shows "\<exists>m' f'. IInput sv Out In (Some prompt) InStr MaxLen s = Some (s\<lparr>mem := m', firmware := f'\<rparr>)
    \<and> str16 m' InStr line \<and> length line < unat MaxLen \<and> shown f' = shown (firmware s) @ prompt @ echo
    \<and> (\<forall>b. b \<notin> region InStr (2 * unat MaxLen) \<longrightarrow> m' b = mem s b)"
proof -
  let ?s = "s\<lparr>firmware := sv_OutputString sv Out prompt (firmware s)\<rparr>"
  note out = console_output [OF assms(1), of prompt "firmware s"]
  obtain m' f' where r: "input_loop sv Out In InStr MaxLen (of_nat (length ([] :: u16 list))) ?s
      = Some (of_nat (length line), s\<lparr>mem := m', firmware := f'\<rparr>)"
    and l: "stored m' InStr line" "length line \<le> unat MaxLen - 1" "shown f' = shown (firmware s) @ prompt @ echo"
      "\<forall>b. b \<notin> region InStr (2 * unat MaxLen) \<longrightarrow> m' b = mem s b"
    using input_loop_edits [OF assms(1,3) refl assms(2), of ?s "keys (firmware s)" InStr "[]" line echo] assms(4) out
    by (auto simp: stored_def)
  let ?m = "write16 m' (InStr + 2 * of_nat (length line)) 0"
  have n: "length line < unat MaxLen" using l(2) assms(2) unat_gt_0 [of MaxLen] by linarith
  have "stored ?m InStr line" using l(1) n assms(3) by (intro stored_write) simp_all
  then have "str16 ?m InStr line" by (rule stored_end) simp
  moreover have "IInput sv Out In (Some prompt) InStr MaxLen s = Some (s\<lparr>mem := ?m, firmware := f'\<rparr>)"
    using r by (simp add: IInput_def mult.commute)
  moreover have "?m b = mem s b" if "b \<notin> region InStr (2 * unat MaxLen)" for b
    using that n l(4) assms(3) by (simp add: write16_within)
  ultimately show ?thesis using l(3) n by blast
qed


text \<open>A keyboard with keys to come and a screen with what it shows; a wait for a key and another event is
  always ended by the other event.\<close>

definition typing_uefi :: "(u16 list \<times> u16 list) input_uefi" where
  "typing_uefi = start_uefi.extend (file_uefi.extend (print_uefi.extend
     (idle_uefi\<lparr>sv_OutputString := \<lambda>out t (k, shown). (k, shown @ t)\<rparr>)
     (file_uefi.fields
       (\<lambda>v f. (EFI_UNSUPPORTED, None, f)) (\<lambda>d n m f. (EFI_NOT_FOUND, 0, f)) (\<lambda>h f. f) (\<lambda>h off f. (EFI_UNSUPPORTED, f))
       (\<lambda>h n b m f. (EFI_UNSUPPORTED, 0, m, f)) (\<lambda>h i n b m f. (EFI_UNSUPPORTED, 0, m, f)) (\<lambda>l p b n a m f. (EFI_UNSUPPORTED, 0, m, f))
       (\<lambda>h p i f. (EFI_UNSUPPORTED, h, f)) (\<lambda>h p i f. (EFI_UNSUPPORTED, f)) (\<lambda>h p old new f. (EFI_UNSUPPORTED, f))))
     (start_uefi.fields (\<lambda>h p a n f. (EFI_UNSUPPORTED, None, f))))
     (input_uefi.fields (\<lambda>t l n c f. (EFI_SUCCESS, Some 0x30, f)) (\<lambda>p e a m f. (EFI_UNSUPPORTED, m, f)) (\<lambda>e f. f) (\<lambda>e d t f. f)
       (\<lambda>es f. (EFI_SUCCESS, Some (of_nat (length es) - 1), f)) (\<lambda>e f. f)
       (\<lambda>c (k, shown). case k of [] \<Rightarrow> (EFI_UNSUPPORTED, None, k, shown) | x # xs \<Rightarrow> (EFI_SUCCESS, Some (0, x), xs, shown))
       (\<lambda>c m f. (EFI_SUCCESS, Some (80, 25), f)) (\<lambda>sp d w a f. (EFI_SUCCESS, Some 0, f)) (\<lambda>sp d w a x f. (EFI_SUCCESS, f)))"

definition typing_state :: "u16 list \<Rightarrow> (u16 list \<times> u16 list) efi_state" where
  "typing_state ks = \<lparr>mem = \<lambda>_. 0, firmware = (ks, []), LibInitialized = False, LibFwInstance = False, LibImageHandle = 0, ST = 0,
     PoolAllocationType = 4, UnicodeInterface = None, EFIDebug = 0, L_EFIDebug = 0x100, VarLanguage = 0x200,
     VarBootOrder = 0x300, EfiGlobalVariable = 0x400\<rparr>"

lemmas typing_simps = typing_uefi_def idle_uefi_def uefi.defs path_uefi.defs print_uefi.defs file_uefi.defs start_uefi.defs input_uefi.defs

lemma typing_laws: "console_laws typing_uefi Out In fst snd"
  unfolding console_laws_def by (auto simp: typing_simps split: list.splits)

text \<open>``abX'', a back space and a return are typed into an array of three characters.\<close>

theorem IInput_edits_witness:
  "\<exists>m' f'. IInput typing_uefi 0x10 0x20 (Some [62]) 0x1000 3 (typing_state [97, 98, 88, 8, 13])
      = Some (typing_state [97, 98, 88, 8, 13]\<lparr>mem := m', firmware := f'\<rparr>)
    \<and> str16 m' 0x1000 [97] \<and> snd f' = [62, 97, 98, 8, 32, 8]"
proof -
  have "edit (unat (3 :: u64) - 1) [] (fst (firmware (typing_state [97, 98, 88, 8, 13]))) = ([97], [97, 98, 8, 32, 8])"
    by (simp add: typing_state_def)
  from IInput_edits [OF typing_laws _ _ this, of "0x10" "0x20" "[62]" "0x1000"] show ?thesis by (auto simp: typing_state_def)
qed

lemma wait_never:
  assumes "\<And>f. \<exists>e f'. sv_CreateEvent sv EVT_TIMER 0 0 0 f = (EFI_SUCCESS, Some e, f')" "\<And>a b f. \<exists>f'. sv_WaitForEvent sv [a, b] f = (EFI_SUCCESS, Some 1, f')"
    and "WaitForSingleEvent sv Event 10000000 s = Some (st, s')"
  shows "st = EFI_TIMEOUT"
proof -
  obtain e f1 where 1: "sv_CreateEvent sv EVT_TIMER 0 0 0 (firmware s) = (EFI_SUCCESS, Some e, f1)" using assms(1) by blast
  obtain f2 where 2: "sv_WaitForEvent sv [Event, e] (sv_SetTimer sv e TimerRelative 10000000 f1) = (EFI_SUCCESS, Some 1, f2)" using assms(2) by blast
  show ?thesis using assms(3) 1 2 by (simp add: WaitForSingleEvent_def)
qed

text \<open>The time-out of a wait does not count down: when only the timer ends the waits, a wait with any
  time-out that is not zero never returns.\<close>

theorem WaitForEventWithTimeout_hangs:
  assumes "\<And>f. \<exists>e f'. sv_CreateEvent sv EVT_TIMER 0 0 0 f = (EFI_SUCCESS, Some e, f')" "\<And>a b f. \<exists>f'. sv_WaitForEvent sv [a, b] f = (EFI_SUCCESS, Some 1, f')"
    and "Timeout \<noteq> 0"
  shows "WaitForEventWithTimeout sv Event Timeout Row Column String TimeoutKey s = None"
proof (rule ccontr)
  assume "WaitForEventWithTimeout sv Event Timeout Row Column String TimeoutKey s \<noteq> None"
  then obtain y where "WaitForEventWithTimeout sv Event Timeout Row Column String TimeoutKey s = Some y" by blast
  then have "sv = sv \<and> Timeout = Timeout \<longrightarrow> False"
  proof (rule WaitForEventWithTimeout.raw_induct [where P = "\<lambda>v e t r c str k s y. v = sv \<and> t = Timeout \<longrightarrow> False", rotated])
    fix wait v e t r c str k s y
    assume IH: "\<And>v e t r c str k s y. wait v e t r c str k s = Some y \<Longrightarrow> v = sv \<and> t = Timeout \<longrightarrow> False"
      and eq: "do {
        (len, s) \<leftarrow> PrintAt v c r (Wide str) [t] s;
        (Status, s) \<leftarrow> WaitForSingleEvent v e 10000000 s;
        (Key, s) \<leftarrow> (if Status = EFI_SUCCESS then
            let (Status, Key, f) = con_ReadKeyStroke v (ConIn s) (firmware s); s = s\<lparr>firmware := f\<rparr>
            in if \<not> EFI_ERROR Status then do { k \<leftarrow> Key; Some (Some k, s) } else Some (None, s)
          else Some (None, s));
        if Key \<noteq> None then Some (the Key, s)
        else if t > 0 then wait v e t r c str k s
        else Some (k, s)
      } = Some y"
    show "v = sv \<and> t = Timeout \<longrightarrow> False"
    proof (intro impI)
      assume v: "v = sv \<and> t = Timeout"
      obtain len s1 where p: "PrintAt v c r (Wide str) [t] s = Some (len, s1)"
        using eq by (cases "PrintAt v c r (Wide str) [t] s") auto
      obtain st s2 where w: "WaitForSingleEvent v e 10000000 s1 = Some (st, s2)"
        using eq p by (cases "WaitForSingleEvent v e 10000000 s1") auto
      have "st \<noteq> EFI_SUCCESS" using wait_never [OF assms(1,2), of e s1 st s2] w v by (auto simp: EFI_TIMEOUT_def EFIERR_def EFI_SUCCESS_def)
      moreover have "0 < t" using v assms(3) by (simp add: word_gt_0)
      ultimately have "wait v e t r c str k s2 = Some y" using eq p w by simp
      then show False using IH v by blast
    qed
  qed
  then show False by simp
qed

text \<open>``Enter'' would end the wait, but is never asked for.\<close>

theorem WaitForEventWithTimeout_hangs_witness:
  "WaitForEventWithTimeout typing_uefi 0x40 5 0 0 0x500 (0, 13) (typing_state [13]) = None"
  by (rule WaitForEventWithTimeout_hangs) (auto simp: typing_simps)

end
