(* ===== verification/EfiRuntime.thy ===== *)
theory EfiRuntime
  imports EfiInput
begin

text \<open>
  What the library needs after the boot services are gone, \<open>lib/runtime/vm.c\<close>, which moves pointers to the
  virtual address map, and the 64-bit arithmetic for processors with 32 bits, \<open>lib/ia32/math.c\<close>. The
  conversion of a pointer is a service of the firmware: it is given a disposition and the address of the
  pointer. A list entry has its forward link at 0 and its backward link at 8.
\<close>

subsection \<open>Virtual addresses\<close>

type_synonym 'f convert = "u64 \<Rightarrow> u64 \<Rightarrow> memory \<Rightarrow> 'f \<Rightarrow> memory \<times> 'f"

definition EFI_OPTIONAL_PTR :: u64 where "EFI_OPTIONAL_PTR = 1"
definition EFI_INTERNAL_PTR :: u64 where "EFI_INTERNAL_PTR = 4"

definition convert_at :: "'f convert \<Rightarrow> u64 \<Rightarrow> u64 \<Rightarrow> ('f, 'z) efi_state_scheme \<Rightarrow> ('f, 'z) efi_state_scheme" where
  "convert_at ConvertPointer d p s = (let (m, f) = ConvertPointer d p (mem s) (firmware s) in s\<lparr>mem := m, firmware := f\<rparr>)"

text \<open>The addresses are those of the library's variables.\<close>

definition RtLibEnableVirtualMappings ::
  "'f convert \<Rightarrow> u64 \<Rightarrow> u64 \<Rightarrow> u64 \<Rightarrow> u64 \<Rightarrow> ('f, 'z) efi_state_scheme \<Rightarrow> ('f, 'z) efi_state_scheme" where
  "RtLibEnableVirtualMappings ConvertPointer RT LibRuntimeDebugOut LibRuntimeRaiseTPL LibRuntimeRestoreTPL s =
     (if LibFwInstance s then s
      else
        let s = convert_at ConvertPointer EFI_INTERNAL_PTR RT s;
            s = convert_at ConvertPointer EFI_OPTIONAL_PTR LibRuntimeDebugOut s;
            s = convert_at ConvertPointer EFI_INTERNAL_PTR LibRuntimeRaiseTPL s
        in convert_at ConvertPointer EFI_INTERNAL_PTR LibRuntimeRestoreTPL s)"

partial_function (option) convert_loop ::
  "'f convert \<Rightarrow> u64 \<Rightarrow> u64 \<Rightarrow> u64 \<Rightarrow> ('f, 'z) efi_state_scheme \<Rightarrow> ('f, 'z) efi_state_scheme option" where
  "convert_loop ConvertPointer DebugDisposition ListHead Link s =
     (let NextLink = read64 (mem s) Link;
          s = convert_at ConvertPointer (if read64 (mem s) Link = ListHead then DebugDisposition else 0) Link s;
          s = convert_at ConvertPointer (if read64 (mem s) (Link + 8) = ListHead then DebugDisposition else 0) (Link + 8) s
      in if NextLink \<noteq> ListHead then convert_loop ConvertPointer DebugDisposition ListHead NextLink s else Some s)"

definition RtConvertList :: "'f convert \<Rightarrow> u64 \<Rightarrow> u64 \<Rightarrow> ('f, 'z) efi_state_scheme \<Rightarrow> ('f, 'z) efi_state_scheme option" where
  "RtConvertList ConvertPointer DebugDisposition ListHead s = convert_loop ConvertPointer DebugDisposition ListHead ListHead s"

subsection \<open>Arithmetic with 32 bits\<close>

definition LShiftU64_ia32 :: "u64 \<Rightarrow> u32 \<Rightarrow> u64 option" where
  "LShiftU64_ia32 Operand Count = (if Count < 64 then Some (push_bit (unat Count) Operand) else None)"

definition RShiftU64_ia32 :: "u64 \<Rightarrow> u32 \<Rightarrow> u64 option" where
  "RShiftU64_ia32 Operand Count = (if Count < 64 then Some (drop_bit (unat Count) Operand) else None)"

definition MultU64x32_ia32 :: "u64 \<Rightarrow> u32 \<Rightarrow> u64" where
  "MultU64x32_ia32 Multiplicand Multiplier = Multiplicand * ucast Multiplier"

text \<open>One bit of the division: the remainder and the dividend are shifted left as one number, and if the divisor
  can be taken from the remainder, it is, and the low bit of the dividend is set.\<close>

definition div_step :: "u32 \<Rightarrow> u64 \<times> u32 \<Rightarrow> u64 \<times> u32" where
  "div_step Divisor = (\<lambda>(Dividend, Rem).
     let Rem = push_bit 1 Rem OR (if bit Dividend 63 then 1 else 0); Dividend = push_bit 1 Dividend
     in if Rem \<ge> Divisor then (Dividend + 1, Rem - Divisor) else (Dividend, Rem))"

primrec div_loop :: "nat \<Rightarrow> u32 \<Rightarrow> u64 \<times> u32 \<Rightarrow> u64 \<times> u32" where
  "div_loop 0 Divisor s = s"
| "div_loop (Suc n) Divisor s = div_loop n Divisor (div_step Divisor s)"

text \<open>The quotient, which has taken the place of the dividend, and the remainder. The assertions on the divisor are
  compiled out.\<close>

definition DivU64x32_ia32 :: "u64 \<Rightarrow> u32 \<Rightarrow> u64 \<times> u32" where
  "DivU64x32_ia32 Dividend Divisor = div_loop 64 Divisor (Dividend, 0)"

subsection \<open>The list in the virtual map\<close>

text \<open>A ring of entries from its head on, and entries that do not overlap.\<close>

fun ring :: "memory \<Rightarrow> u64 \<Rightarrow> u64 list \<Rightarrow> bool" where
  "ring m h [] \<longleftrightarrow> False"
| "ring m h [x] \<longleftrightarrow> read64 m x = h"
| "ring m h (x # y # ys) \<longleftrightarrow> read64 m x = y \<and> y \<noteq> h \<and> ring m h (y # ys)"

fun spaced :: "u64 list \<Rightarrow> bool" where
  "spaced [] \<longleftrightarrow> True"
| "spaced (x # xs) \<longleftrightarrow> (\<forall>y \<in> set xs. region x 16 \<inter> region y 16 = {}) \<and> spaced xs"

definition entries :: "u64 list \<Rightarrow> u64 set" where
  "entries xs = (\<Union>x \<in> set xs. region x 16)"

lemma entries_simps [simp]: "entries [] = {}" "entries (x # xs) = region x 16 \<union> entries xs"
  by (simp_all add: entries_def)

text \<open>The service translates the pointer at the address, by its disposition.\<close>

definition converts :: "'f convert \<Rightarrow> (u64 \<Rightarrow> u64 \<Rightarrow> u64) \<Rightarrow> bool" where
  "converts cvt T \<longleftrightarrow> (\<forall>d p m f. cvt d p m f = (write64 m p (T d (read64 m p)), f))"

lemma links_in: "region x 8 \<subseteq> region x 16" "region (x + 8) 8 \<subseteq> region x 16" "region x 8 \<inter> region (x + 8) 8 = {}"
  using region_mono [of 8 16 x] region_off_sub [of 8 8 16 x] regions_apart [of 0 8 8 8 x] by simp_all

lemma ring_cong: "ring m h xs \<Longrightarrow> (\<And>x. x \<in> set xs \<Longrightarrow> read64 m' x = read64 m x) \<Longrightarrow> ring m' h xs"
  by (induction m h xs rule: ring.induct) auto

text \<open>What one pointer becomes.\<close>

definition linked :: "(u64 \<Rightarrow> u64 \<Rightarrow> u64) \<Rightarrow> u64 \<Rightarrow> u64 \<Rightarrow> u64 \<Rightarrow> u64" where
  "linked T d h p = T (if p = h then d else 0) p"

lemma convert_loop_ring:
  assumes "converts cvt T"
  shows "ring (mem s) h xs \<Longrightarrow> spaced xs \<Longrightarrow> \<exists>m'. convert_loop cvt d h (hd xs) s = Some (s\<lparr>mem := m'\<rparr>)
    \<and> (\<forall>x \<in> set xs. read64 m' x = linked T d h (read64 (mem s) x) \<and> read64 m' (x + 8) = linked T d h (read64 (mem s) (x + 8)))
    \<and> (\<forall>b. b \<notin> entries xs \<longrightarrow> m' b = mem s b)"
proof (induction xs arbitrary: s)
  case (Cons x xs)
  let ?m1 = "write64 (mem s) x (linked T d h (read64 (mem s) x))"
  let ?m2 = "write64 ?m1 (x + 8) (linked T d h (read64 (mem s) (x + 8)))"
  have c: "convert_at cvt d' p s' = s'\<lparr>mem := write64 (mem s') p (T d' (read64 (mem s') p))\<rparr>" for d' p and s' :: "('a, 'b) efi_state_scheme"
    using assms by (simp add: convert_at_def converts_def)
  have keep: "?m2 b = mem s b" if "b \<notin> region x 16" for b
  proof -
    have "b \<notin> region x 8" "b \<notin> region (x + 8) 8" using that links_in by blast+
    then show ?thesis by (simp add: mem_simps)
  qed
  have r1: "read64 (write64 (mem s) x v) (x + 8) = read64 (mem s) (x + 8)" for v
    using links_in(3) [of x] by (intro read64_cong write64_outside) blast
  have step: "convert_loop cvt d h x s = (if read64 (mem s) x \<noteq> h then convert_loop cvt d h (read64 (mem s) x) (s\<lparr>mem := ?m2\<rparr>) else Some (s\<lparr>mem := ?m2\<rparr>))"
    by (subst convert_loop.simps) (simp add: c r1 linked_def Let_def)
  have "read64 ?m2 x = read64 ?m1 x" using links_in(3) [of x] by (intro read64_cong write64_outside) blast
  then have own: "read64 ?m2 x = linked T d h (read64 (mem s) x)" "read64 ?m2 (x + 8) = linked T d h (read64 (mem s) (x + 8))" by simp_all
  show ?case
  proof (cases xs)
    case Nil
    then have "read64 (mem s) x = h" using Cons.prems(1) by simp
    then show ?thesis unfolding list.sel step using Nil own keep by (intro exI [of _ ?m2]) simp
  next
    case (Cons y ys)
    have y: "read64 (mem s) x = y" "y \<noteq> h" "ring (mem s) h xs" using Cons.prems(1) Cons by simp_all
    have far: "region x 16 \<inter> region z 16 = {}" if "z \<in> set xs" for z using Cons.prems(2) that by simp
    have others: "read64 ?m2 z = read64 (mem s) z" "read64 ?m2 (z + 8) = read64 (mem s) (z + 8)" if "z \<in> set xs" for z
      using far [OF that] links_in [of z] keep by (intro read64_cong; blast)+
    obtain m' where m': "convert_loop cvt d h (hd xs) (s\<lparr>mem := ?m2\<rparr>) = Some (s\<lparr>mem := m'\<rparr>)"
        "\<And>z. z \<in> set xs \<Longrightarrow> read64 m' z = linked T d h (read64 ?m2 z) \<and> read64 m' (z + 8) = linked T d h (read64 ?m2 (z + 8))"
        "\<And>b. b \<notin> entries xs \<Longrightarrow> m' b = ?m2 b"
      using Cons.IH [of "s\<lparr>mem := ?m2\<rparr>"] ring_cong [OF y(3) others(1)] Cons.prems(2) by auto
    have "region x 16 \<inter> entries xs = {}" using far by (auto simp: entries_def)
    then have "read64 m' x = read64 ?m2 x" "read64 m' (x + 8) = read64 ?m2 (x + 8)"
      using links_in [of x] m'(3) by (intro read64_cong; blast)+
    then have "\<forall>z \<in> set (x # xs). read64 m' z = linked T d h (read64 (mem s) z) \<and> read64 m' (z + 8) = linked T d h (read64 (mem s) (z + 8))"
      using own others m'(2) by simp
    moreover have "convert_loop cvt d h x s = Some (s\<lparr>mem := m'\<rparr>)" unfolding step using m'(1) y Cons by simp
    ultimately show ?thesis using m'(3) keep by auto
  qed
qed simp

text \<open>On a ring of entries that do not overlap \<open>RtConvertList\<close> returns; the forward and the backward link of
  every entry have been converted once, those to the head with the given disposition and the others with 0; and
  nothing outside the entries has changed.\<close>

theorem RtConvertList_converts:
  assumes "converts cvt T" "ring (mem s) h xs" "hd xs = h" "spaced xs"
  shows "\<exists>m'. RtConvertList cvt d h s = Some (s\<lparr>mem := m'\<rparr>)
    \<and> (\<forall>x \<in> set xs. read64 m' x = linked T d h (read64 (mem s) x) \<and> read64 m' (x + 8) = linked T d h (read64 (mem s) (x + 8)))
    \<and> (\<forall>b. b \<notin> entries xs \<longrightarrow> m' b = mem s b)"
  using convert_loop_ring [OF assms(1,2,4), of d] assms(3) by (simp add: RtConvertList_def)

text \<open>A head at 0x1000 and one entry at 0x2000; the service moves pointers up, the null pointer apart.\<close>

definition small_ring :: "unit efi_state" where
  "small_ring = \<lparr>mem = (\<lambda>_. 0)(0x1001 := 0x20, 0x1009 := 0x20, 0x2001 := 0x10, 0x2009 := 0x10), firmware = (),
     LibInitialized = True, LibFwInstance = False, LibImageHandle = 0, ST = 0, PoolAllocationType = 0,
     UnicodeInterface = None, EFIDebug = 0, L_EFIDebug = 0x100, VarLanguage = 0x200, VarBootOrder = 0x300,
     EfiGlobalVariable = 0x400\<rparr>"

definition small_move :: "unit convert" where
  "small_move d p m f = (write64 m p (if d = EFI_OPTIONAL_PTR \<and> read64 m p = 0 then 0 else read64 m p + 0x100000), f)"

theorem RtConvertList_converts_witness:
  "\<exists>m'. RtConvertList small_move EFI_INTERNAL_PTR 0x1000 small_ring = Some (small_ring\<lparr>mem := m'\<rparr>)
    \<and> read64 m' 0x1000 = 0x102000 \<and> read64 m' 0x2000 = 0x101000 \<and> read64 m' 0x2008 = 0x101000"
proof -
  define T :: "u64 \<Rightarrow> u64 \<Rightarrow> u64" where "T d v = (if d = EFI_OPTIONAL_PTR \<and> v = 0 then 0 else v + 0x100000)" for d v
  have c: "converts small_move T" by (simp add: converts_def small_move_def T_def)
  have r: "ring (mem small_ring) 0x1000 [0x1000, 0x2000]" by (simp add: small_ring_def load_eval)
  have "region 0x1000 16 \<inter> region 0x2000 16 = {}" using regions_apart [of 0 16 "0x1000" 16 "0x1000"] by simp
  then have p: "spaced [0x1000, 0x2000]" by simp
  have v: "read64 (mem small_ring) 0x1000 = 0x2000" "read64 (mem small_ring) 0x2000 = 0x1000" "read64 (mem small_ring) 0x2008 = 0x1000"
    by (simp_all add: small_ring_def load_eval)
  show ?thesis using RtConvertList_converts [OF c r _ p, of EFI_INTERNAL_PTR] by (auto simp: v linked_def T_def EFI_INTERNAL_PTR_def EFI_OPTIONAL_PTR_def)
qed

subsection \<open>Long division\<close>

text \<open>The remainder and the dividend as one number of 96 bits.\<close>

definition joined :: "u64 \<times> u32 \<Rightarrow> nat" where
  "joined = (\<lambda>(D, R). unat R * 2 ^ 64 + unat D)"

lemma doubled_dividend: "unat (push_bit 1 (D :: u64)) = 2 * (unat D mod 2 ^ 63)"
proof -
  have "unat (push_bit 1 D) = (2 * unat D) mod (2 * 2 ^ 63)" by (simp add: push_bit_eq_mult unat_word_ariths mult.commute)
  also have "\<dots> = 2 * (unat D mod 2 ^ 63)" by (rule mult_mod_right [symmetric])
  finally show ?thesis .
qed

lemma shifted_dividend: "unat (push_bit 1 (D :: u64)) + (if bit D 63 then 2 ^ 64 else 0) = 2 * unat D"
proof -
  have l: "unat D < 2 ^ 64" using unsigned_less [of D] by simp
  have "bit D 63 \<longleftrightarrow> bit (unat D) 63" by (simp add: bit_unsigned_iff)
  also have "\<dots> \<longleftrightarrow> odd (unat D div 2 ^ 63)" by (rule bit_iff_odd)
  also have "\<dots> \<longleftrightarrow> 2 ^ 63 \<le> unat D"
  proof (cases "2 ^ 63 \<le> unat D")
    case True
    then have "unat D div 2 ^ 63 = 1" using l by (intro div_nat_eqI) simp_all
    then show ?thesis using True by simp
  qed simp
  finally have b: "bit D 63 \<longleftrightarrow> 2 ^ 63 \<le> unat D" .
  have "unat D < 0x10000000000000000" using l by simp
  then have "unat D - 0x8000000000000000 < 0x8000000000000000" by linarith
  then have "unat D - 2 ^ 63 < 2 ^ 63" by simp
  then have "unat D mod 2 ^ 63 = unat D - 2 ^ 63" if "2 ^ 63 \<le> unat D" using that by (simp only: le_mod_geq mod_less)
  then show ?thesis using b unfolding doubled_dividend by (cases "2 ^ 63 \<le> unat D") simp_all
qed

lemma shifted_remainder:
  assumes "unat (R :: u32) < 2 ^ 31"
  shows "unat (push_bit 1 R OR (if c then 1 else 0)) = 2 * unat R + (if c then 1 else 0)"
proof -
  have "push_bit 1 R OR (if c then 1 else 0) = 2 * R + (if c then 1 else 0)" by (simp add: push_bit_eq_mult or_one_eq mult.commute)
  then show ?thesis using assms by (simp add: unat_word_ariths)
qed

lemma div_step_joined:
  assumes "R < Divisor" "Divisor < 0x80000000" and "div_step Divisor (D, R) = (D', R')"
  shows "\<exists>q \<le> 1. joined (D', R') + q * unat Divisor * 2 ^ 64 = 2 * joined (D, R) + q \<and> R' < Divisor"
proof -
  let ?R = "push_bit 1 R OR (if bit D 63 then 1 else 0)" and ?D = "push_bit 1 D"
  have lt: "unat R < unat Divisor" "unat Divisor < 2 ^ 31" using assms(1,2) by (simp_all add: word_less_nat_alt)
  have R: "unat ?R = 2 * unat R + (if bit D 63 then 1 else 0)" using lt by (intro shifted_remainder) simp
  have V: "unat ?R * 2 ^ 64 + unat ?D = 2 * joined (D, R)"
    using R shifted_dividend [of D] by (simp add: joined_def split: if_splits)
  show ?thesis
  proof (cases "?R \<ge> Divisor")
    case True
    then have e: "D' = ?D + 1" "R' = ?R - Divisor" using assms(3) by (simp_all add: div_step_def)
    have ge: "unat Divisor \<le> unat ?R" using True by (simp add: word_le_nat_alt)
    have "unat D' = unat ?D + 1"
    proof -
      have "unat ?D = 2 * (unat D mod 2 ^ 63)" by (rule doubled_dividend)
      moreover have "unat D mod 2 ^ 63 < 2 ^ 63" by (rule mod_less_divisor) simp
      ultimately have "unat ?D + 1 < 2 ^ 64" by simp
      then show ?thesis unfolding e by (simp add: unat_word_ariths)
    qed
    moreover have r: "unat R' = unat ?R - unat Divisor" unfolding e by (rule unat_sub [OF True])
    moreover have "R' < Divisor" using r R lt by (simp add: word_less_nat_alt split: if_splits)
    ultimately show ?thesis using V ge
      by (intro exI [of _ 1]) (simp add: joined_def diff_mult_distrib)
  next
    case False
    then have "D' = ?D" "R' = ?R" using assms(3) by (simp_all add: div_step_def)
    then show ?thesis using V False by (intro exI [of _ 0]) (simp add: joined_def not_le)
  qed
qed

lemma div_loop_joined:
  assumes "Divisor < 0x80000000"
  shows "R < Divisor \<Longrightarrow> div_loop n Divisor (D, R) = (D', R') \<Longrightarrow>
    \<exists>Q < 2 ^ n. joined (D', R') + Q * unat Divisor * 2 ^ 64 = joined (D, R) * 2 ^ n + Q \<and> R' < Divisor"
proof (induction n arbitrary: D R)
  case (Suc n)
  obtain E S where st: "div_step Divisor (D, R) = (E, S)" by (cases "div_step Divisor (D, R)")
  obtain q where q: "q \<le> 1" "joined (E, S) + q * unat Divisor * 2 ^ 64 = 2 * joined (D, R) + q" "S < Divisor"
    using div_step_joined [OF Suc.prems(1) assms st] by auto
  obtain Q where Q: "Q < 2 ^ n" "joined (D', R') + Q * unat Divisor * 2 ^ 64 = joined (E, S) * 2 ^ n + Q" "R' < Divisor"
    using Suc.IH [OF q(3)] Suc.prems(2) st by auto
  have "joined (D', R') + (Q + q * 2 ^ n) * unat Divisor * 2 ^ 64
      = (joined (E, S) + q * unat Divisor * 2 ^ 64) * 2 ^ n + Q" using Q(2) by (simp add: algebra_simps)
  also have "\<dots> = joined (D, R) * 2 ^ Suc n + (Q + q * 2 ^ n)" unfolding q(2) by (simp add: algebra_simps)
  finally have "joined (D', R') + (Q + q * 2 ^ n) * unat Divisor * 2 ^ 64 = joined (D, R) * 2 ^ Suc n + (Q + q * 2 ^ n)" .
  moreover have "Q + q * 2 ^ n < 2 ^ Suc n" using q(1) Q(1) by (cases "q = 0") (simp_all add: le_Suc_eq)
  ultimately show ?case using Q(3) by blast
qed simp

lemma ucast_mod_small:
  assumes "(d :: u32) \<noteq> 0"
  shows "unat (ucast ((x :: u64) mod ucast d) :: u32) = unat x mod unat d"
proof -
  have "unat d < 2 ^ 32" using unsigned_less [of d] by simp
  moreover have "unat x mod unat d < unat d" using assms by (simp add: unat_gt_0)
  ultimately have "unat x mod unat d < 2 ^ 32" by linarith
  moreover have "unat (x mod ucast d) = unat x mod unat d" by (simp add: unat_mod_distrib unat_ucast_up)
  ultimately show ?thesis by (simp add: unsigned_ucast_eq take_bit_nat_eq_self)
qed

text \<open>C39: For every divisor from 1 to \<open>2^31 - 1\<close> the 64 shift and subtract steps of \<open>DivU64x32\<close> give the
  quotient and the remainder of the dividend.\<close>

theorem DivU64x32_ia32_divides:
  assumes "0 < Divisor" "Divisor < 0x80000000"
  shows "DivU64x32_ia32 Dividend Divisor = (Dividend div ucast Divisor, ucast (Dividend mod ucast Divisor))"
proof -
  obtain D R where r: "DivU64x32_ia32 Dividend Divisor = (D, R)" by (cases "DivU64x32_ia32 Dividend Divisor")
  obtain Q where Q: "Q < 2 ^ 64" "joined (D, R) + Q * unat Divisor * 2 ^ 64 = joined (Dividend, 0) * 2 ^ 64 + Q" "R < Divisor"
    using div_loop_joined [OF assms(2), of 0 64 Dividend D R] assms(1) r by (auto simp: DivU64x32_ia32_def)
  have e: "unat D + (unat R + Q * unat Divisor) * 2 ^ 64 = Q + unat Dividend * 2 ^ 64"
    using Q(2) by (simp add: joined_def algebra_simps)
  have D: "unat D < 2 ^ 64" using unsigned_less [of D] by simp
  have "unat D = (unat D + (unat R + Q * unat Divisor) * 2 ^ 64) mod 2 ^ 64" using D by (simp only: mod_mult_self1 mod_less)
  also have "\<dots> = Q" unfolding e using Q(1) by simp
  finally have q: "unat D = Q" .
  then have s: "unat R + Q * unat Divisor = unat Dividend" using e by simp
  have lt: "unat R < unat Divisor" using Q(3) by (simp add: word_less_nat_alt)
  have "D = Dividend div ucast Divisor"
    using q lt s [symmetric] by (simp add: word_unat_eq_iff unat_div_distrib unat_ucast_up)
  moreover have "R = ucast (Dividend mod ucast Divisor)"
    using lt s [symmetric] assms(1) by (simp add: word_unat_eq_iff ucast_mod_small)
  ultimately show ?thesis using r by simp
qed

theorem DivU64x32_ia32_divides_witness: "DivU64x32_ia32 0x123456789ABCDEF0 0x7FFFFFFF = (0x2468ACF1, 0x3F258BE1)"
  by (subst DivU64x32_ia32_divides) simp_all

end
