(* ===== verification/Session.thy ===== *)
theory Session
  imports KernelInit
begin

text \<open>
  The running kernel as its user sees it: a line typed on the keyboard, one interrupt for a key, and the
  command it gives. The keyboard controller is the device behind port 0x60.
\<close>

subsection \<open>Keys and interrupts\<close>

text \<open>How often port 0x60 was read.\<close>

definition reads60 :: "io_event list \<Rightarrow> nat" where
  "reads60 l = length (filter (\<lambda>e. case e of InB p v \<Rightarrow> p = 0x60 | _ \<Rightarrow> False) l)"

text \<open>The controller hands out the scancodes one after the other, one for each read.\<close>

definition keyboard_sends :: "'a io_scheme \<Rightarrow> u8 list \<Rightarrow> bool" where
  "keyboard_sends s scs \<longleftrightarrow>
     (\<forall>k < length scs. \<forall>l. reads60 l = reads60 (io_log s) + k \<longrightarrow> ucast (port_in s l 0x60) = scs ! k)"

fun handle_interrupts :: "registers_t list \<Rightarrow> 'a cpu_scheme \<Rightarrow> 'a cpu_scheme option" where
  "handle_interrupts [] s = Some s"
| "handle_interrupts (r # rs) s = do { s \<leftarrow> isr_handler r s; handle_interrupts rs s }"

definition keyboard_irqs :: "registers_t list \<Rightarrow> bool" where
  "keyboard_irqs rs \<longleftrightarrow> (\<forall>r \<in> set rs. isrNumber r = 33)"

text \<open>The scancodes of a line: keys that stand for a character, the shift key (0x2A) and the releases of
  keys (above 58), of which that of shift (0xAA) counts. Not among them are backspace, tab, enter and
  caps lock. The characters of a line follow from its scancodes; a key with shift gives the
  character of the table minus 32.\<close>

definition line_key :: "u8 \<Rightarrow> bool" where
  "line_key sc \<longleftrightarrow> sc \<notin> {0x0E, 0x0F, 0x1C, 58}"

definition key_char :: "bool \<Rightarrow> u8 \<Rightarrow> u8" where
  "key_char shift sc = (if shift then ASCIITable ! unat sc - 32 else ASCIITable ! unat sc)"

fun line_chars :: "bool \<Rightarrow> u8 list \<Rightarrow> u8 list" where
  "line_chars shift [] = []"
| "line_chars shift (sc # scs) =
     (if sc = 0x2A then line_chars True scs
      else if sc = 0xAA then line_chars False scs
      else if sc > 58 then line_chars shift scs
      else key_char shift sc # line_chars shift scs)"

lemma length_line_chars: "length (line_chars shift scs) \<le> length scs"
  by (induction scs arbitrary: shift) (auto intro: le_SucI)

text \<open>The terminal is ready for a line: it fits to the right of the cursor, its buffer and the glyphs of
  its characters are not on the screen.\<close>

definition line_fits :: "u8 list \<Rightarrow> 'a cpu_scheme \<Rightarrow> bool" where
  "line_fits chs s \<longleftrightarrow>
     screen_ok (TargetFrameBuffer s)
     \<and> unat (cursor_x s) + 8 * length chs + 8 \<le> unat (Width (TargetFrameBuffer s))
     \<and> unat (Width (TargetFrameBuffer s)) \<le> unat (PixelsPerScanline (TargetFrameBuffer s))
     \<and> unat (cursor_y s) + 16 \<le> unat (Height (TargetFrameBuffer s))
     \<and> (\<forall>c \<in> set chs. glyph_outside s c)
     \<and> (\<forall>k < length chs. input s + of_nat k \<notin> screen (TargetFrameBuffer s))"

lemma handle_keyboard: "isrNumber r = 33 \<Longrightarrow>
  isr_handler r s = do { s \<leftarrow> HandleKeyboard s; Some (outb 0x20 0x20 (outb 0xA0 0x20 s)) }"
  by (simp add: isr_handler_def Let_def)

lemma keyboard_sends_hd: "keyboard_sends s (sc # scs) \<Longrightarrow> ucast (port_in s (io_log s) 0x60) = sc"
  by (auto simp: keyboard_sends_def)

lemma reads60_events [simp]:
  "reads60 (OutB p v # l) = reads60 l" "reads60 (InB 0x60 v # l) = Suc (reads60 l)" "reads60 [] = 0"
  by (simp_all add: reads60_def)

text \<open>One character key: the state behind the acknowledged interrupt.\<close>

lemma type_one:
  fixes s :: "'a cpu_scheme"
  defines "c \<equiv> key_char (upperCase s)"
  assumes "isEnabled s" "sc < 58" "sc \<notin> {0x0E, 0x0F, 0x1C, 0x2A}" "ucast (port_in s (io_log s) 0x60) = sc" "isrNumber r = 33"
    and fits: "line_fits (c sc # chs) s"
  shows "\<exists>m t. isr_handler r s = Some t \<and> (\<forall>b. b \<notin> screen (TargetFrameBuffer s) \<longrightarrow> m b = mem s b)
    \<and> t = s\<lparr>io_log := OutB 0x20 0x20 # OutB 0xA0 0x20 # InB 0x60 sc # io_log s, mem := m(input s := c sc),
            cursor_x := cursor_x s + 8, input := input s + 1, inputLen := inputLen s + 1\<rparr>"
proof -
  let ?w = "unat (Width (TargetFrameBuffer s))"
  have f: "unat (cursor_x s) + 16 \<le> ?w" using fits by (simp add: line_fits_def)
  have "unat (cursor_x s) + unat (16 :: u32) < 2 ^ LENGTH(32)"
    using le_less_trans [OF f unat_lt_u32] by simp
  then have x: "unat (cursor_x s + 16) = unat (cursor_x s) + unat (16 :: u32)" by (rule unat_add_no_wrap)
  have e: "cursor_x s + 8 + 8 = cursor_x s + 16" by simp
  have nw: "\<not> cursor_x s + 8 + 8 > Width (TargetFrameBuffer s)" unfolding e word_less_nat_alt x using f by simp
  have cell: "cell_ok s" "glyph_outside s (c sc)" "input s \<notin> screen (TargetFrameBuffer s)"
    using fits by (auto simp: line_fits_def cell_ok_def)
  obtain m where m: "painted (TargetFrameBuffer s) (color s)
      (glyph_pixels (mem s) (glyph_at (Font s) (c sc)) (cursor_x s) (cursor_y s) (cursor_y s + 16)) (mem s) m"
    "HandleKeyboard s = Some (s\<lparr>io_log := InB 0x60 sc # io_log s, mem := m(input s := c sc), cursor_x := cursor_x s + 8,
               input := input s + 1, inputLen := inputLen s + 1\<rparr>)"
    using HandleKeyboard_char [of s] assms(2-5) cell nw by (auto simp: c_def key_char_def)
  then have "\<forall>b. b \<notin> screen (TargetFrameBuffer s) \<longrightarrow> m b = mem s b" by (simp add: painted_def)
  with m(2) show ?thesis unfolding handle_keyboard [OF assms(6)] by (auto simp: outb_def event_def)
qed

text \<open>The shift key and the release of a key: nothing but the state of shift changes.\<close>

lemma silent_one:
  assumes "isEnabled s" "ucast (port_in s (io_log s) 0x60) = sc" "isrNumber r = 33" "sc = 0x2A \<or> sc > 58"
  shows "isr_handler r s = Some (s\<lparr>io_log := OutB 0x20 0x20 # OutB 0xA0 0x20 # InB 0x60 sc # io_log s,
      upperCase := (if sc = 0x2A then True else if sc = 0xAA then False else upperCase s)\<rparr>)"
proof -
  have "sc \<notin> {0x0F, 0x0E, 0x1C}" using assms(4) by auto
  then show ?thesis
    using assms unfolding handle_keyboard [OF assms(3)]
    by (auto simp: HandleKeyboard_def inb_def outb_def event_def TranslateScancode_def)
qed

lemma line_fits_next:
  assumes "line_fits (c # chs) s"
    and "TargetFrameBuffer t = TargetFrameBuffer s" "Font t = Font s" "cursor_y t = cursor_y s"
    "cursor_x t = cursor_x s + 8" "input t = input s + 1"
  shows "line_fits chs t"
proof -
  have f: "unat (cursor_x s) + 8 * length chs + 16 \<le> unat (Width (TargetFrameBuffer s))"
    using assms(1) by (simp add: line_fits_def)
  have "unat (cursor_x s) + unat (8 :: u32) < 2 ^ LENGTH(32)"
    using le_less_trans [OF f unat_lt_u32] by simp
  then have x: "unat (cursor_x t) = unat (cursor_x s) + 8" unfolding assms(5) by (simp add: unat_add_no_wrap)
  have "input t + of_nat k \<notin> screen (TargetFrameBuffer t)" if "k < length chs" for k
  proof -
    have "input s + of_nat (Suc k) \<notin> screen (TargetFrameBuffer s)"
      using assms(1) that unfolding line_fits_def by (metis Suc_less_eq length_Cons)
    then show ?thesis by (simp add: assms(2,6) add.assoc)
  qed
  then show ?thesis using assms(1) f x by (auto simp: line_fits_def glyph_outside_def assms(2-4))
qed

text \<open>What typing leaves alone, and what it adds, with the number of scancodes read.\<close>

definition typed :: "nat \<Rightarrow> u8 list \<Rightarrow> 'a cpu_scheme \<Rightarrow> 'a cpu_scheme \<Rightarrow> bool" where
  "typed n chs s t \<longleftrightarrow>
     (\<forall>k < length chs. mem t (input s + of_nat k) = chs ! k)
     \<and> (\<forall>b. b \<notin> screen (TargetFrameBuffer s) \<union> region (input s) (length chs) \<longrightarrow> mem t b = mem s b)
     \<and> input t = input s + of_nat (length chs) \<and> inputLen t = inputLen s + of_nat (length chs)
     \<and> commandPrompt t = commandPrompt s \<and> isEnabled t \<and> port_in t = port_in s
     \<and> reads60 (io_log t) = reads60 (io_log s) + n"

lemma typed_silent:
  assumes "typed n chs u t" and u: "u = s\<lparr>io_log := OutB 0x20 0x20 # OutB 0xA0 0x20 # InB 0x60 sc # io_log s, upperCase := b\<rparr>"
  shows "typed (Suc n) chs s t"
  using assms(1) unfolding u typed_def by simp

lemma typed_Cons:
  assumes "line_fits (c # chs) s"
    and m: "\<forall>b. b \<notin> screen (TargetFrameBuffer s) \<longrightarrow> m b = mem s b" and len: "Suc (length chs) < 2 ^ 64"
    and u: "u = s\<lparr>io_log := OutB 0x20 0x20 # OutB 0xA0 0x20 # InB 0x60 sc # io_log s, mem := m(input s := c),
            cursor_x := cursor_x s + 8, input := input s + 1, inputLen := inputLen s + 1\<rparr>"
    and t: "typed n chs u t"
  shows "typed (Suc n) (c # chs) s t"
proof -
  let ?S = "screen (TargetFrameBuffer s)"
  have out: "mem t b = mem u b" if "b \<notin> ?S" "b \<notin> region (input s + 1) (length chs)" for b
    using t that by (simp add: typed_def u)
  have off: "b \<in> region (input s + 1) (length chs) \<longleftrightarrow> 1 \<le> unat (b - input s) \<and> unat (b - input s) < 1 + length chs" for b
    using in_region_off [of 1 "length chs" b "input s"] len by simp
  have "\<forall>k < length (c # chs). input s + of_nat k \<notin> ?S" using assms(1) unfolding line_fits_def by blast
  then have first: "input s \<notin> ?S" using spec [of _ 0] by fastforce
  have c0: "mem t (input s) = c" using out [OF first] off [of "input s"] by (simp add: u)
  have cs: "mem t (input s + of_nat (Suc k)) = chs ! k" if "k < length chs" for k
    using t that by (simp add: typed_def u add.assoc)
  have chars: "mem t (input s + of_nat k) = (c # chs) ! k" if "k < Suc (length chs)" for k
  proof (cases k)
    case 0
    then show ?thesis using c0 by simp
  next
    case (Suc j)
    then show ?thesis using cs [of j] that by simp
  qed
  have rest: "mem t b = mem s b" if "b \<notin> ?S" "b \<notin> region (input s) (Suc (length chs))" for b
  proof -
    have "b \<notin> region (input s + 1) (length chs)" "b \<noteq> input s" using that(2) off [of b] by (auto simp: region_def)
    then show ?thesis using out [OF that(1)] m that(1) by (simp add: u)
  qed
  have "input t = input s + 1 + of_nat (length chs)" "inputLen t = inputLen s + 1 + of_nat (length chs)"
    "commandPrompt t = commandPrompt s" "isEnabled t" "port_in t = port_in s"
    "reads60 (io_log t) = Suc (reads60 (io_log s)) + n"
    using t by (simp_all add: typed_def u)
  then show ?thesis using chars rest by (simp add: typed_def add.assoc)
qed

lemma keyboard_sends_tl:
  assumes "keyboard_sends s (sc # scs)" "port_in u = port_in s" "reads60 (io_log u) = Suc (reads60 (io_log s))"
  shows "keyboard_sends u scs"
proof -
  have "ucast (port_in u l 0x60) = scs ! k" if "k < length scs" "reads60 l = reads60 (io_log u) + k" for k l
  proof -
    have "ucast (port_in s l 0x60) = (sc # scs) ! Suc k"
      using assms(1,3) that unfolding keyboard_sends_def by auto
    then show ?thesis by (simp add: assms(2))
  qed
  then show ?thesis by (simp add: keyboard_sends_def)
qed

lemma type_keys:
  fixes s :: "'a cpu_scheme"
  assumes "length rs = length scs" "keyboard_irqs rs" "isEnabled s" "keyboard_sends s scs" "\<forall>sc \<in> set scs. line_key sc"
    and "line_fits (line_chars (upperCase s) scs) s" "length scs < 2 ^ 64"
  shows "\<exists>t. handle_interrupts rs s = Some t \<and> typed (length scs) (line_chars (upperCase s) scs) s t"
  using assms
proof (induction scs arbitrary: rs s)
  case Nil
  then show ?case by (simp add: typed_def)
next
  case (Cons sc scs)
  obtain r rs' where r: "rs = r # rs'" "length rs' = length scs" using Cons.prems(1) by (cases rs) auto
  have irq: "isrNumber r = 33" "keyboard_irqs rs'" using Cons.prems(2) by (simp_all add: r(1) keyboard_irqs_def)
  have sent: "ucast (port_in s (io_log s) 0x60) = sc" using Cons.prems(4) by (rule keyboard_sends_hd)
  have lk: "sc \<notin> {0x0E, 0x0F, 0x1C, 58}" using Cons.prems(5) by (simp add: line_key_def)
  let ?chs = "line_chars (upperCase s) scs"
  show ?case
  proof (cases "sc = 0x2A \<or> sc > 58")
    case True
    define u where "u = s\<lparr>io_log := OutB 0x20 0x20 # OutB 0xA0 0x20 # InB 0x60 sc # io_log s,
      upperCase := (if sc = 0x2A then True else if sc = 0xAA then False else upperCase s)\<rparr>"
    have i: "isr_handler r s = Some u" unfolding u_def using Cons.prems(3) sent irq(1) True by (rule silent_one)
    have chs: "line_chars (upperCase s) (sc # scs) = line_chars (upperCase u) scs" using True by (auto simp: u_def)
    have ks: "keyboard_sends u scs" by (rule keyboard_sends_tl [OF Cons.prems(4)]) (simp_all add: u_def)
    have "line_fits (line_chars (upperCase u) scs) u"
      using Cons.prems(6) unfolding chs by (simp add: line_fits_def glyph_outside_def u_def)
    then obtain t where t: "handle_interrupts rs' u = Some t" "typed (length scs) (line_chars (upperCase u) scs) u t"
      using Cons.IH [OF r(2) irq(2) _ ks] Cons.prems(3,5,7) by (auto simp: u_def)
    have "typed (length (sc # scs)) (line_chars (upperCase s) (sc # scs)) s t"
      unfolding chs using typed_silent [OF t(2) u_def] by simp
    then show ?thesis using i t(1) by (simp add: r(1))
  next
    case False
    then have k: "sc < 58" "sc \<notin> {0x0E, 0x0F, 0x1C, 0x2A}" using lk by auto
    then have chs: "line_chars (upperCase s) (sc # scs) = key_char (upperCase s) sc # ?chs" by auto
    obtain m u where m: "\<forall>b. b \<notin> screen (TargetFrameBuffer s) \<longrightarrow> m b = mem s b" and i: "isr_handler r s = Some u"
      and u: "u = s\<lparr>io_log := OutB 0x20 0x20 # OutB 0xA0 0x20 # InB 0x60 sc # io_log s, mem := m(input s := key_char (upperCase s) sc),
              cursor_x := cursor_x s + 8, input := input s + 1, inputLen := inputLen s + 1\<rparr>"
      using type_one [OF Cons.prems(3) k sent irq(1) Cons.prems(6) [unfolded chs]] by auto
    have ks: "keyboard_sends u scs" by (rule keyboard_sends_tl [OF Cons.prems(4)]) (simp_all add: u)
    have up: "upperCase u = upperCase s" by (simp add: u)
    have lf: "line_fits (line_chars (upperCase u) scs) u"
      unfolding up by (rule line_fits_next [of "key_char (upperCase s) sc" _ s]) (use Cons.prems(6) chs in \<open>simp_all add: u\<close>)
    obtain t where t: "handle_interrupts rs' u = Some t" "typed (length scs) ?chs u t"
      using Cons.IH [OF r(2) irq(2) _ ks _ lf] Cons.prems(3,5,7) up by (auto simp: u)
    have "Suc (length ?chs) < 2 ^ 64" using le_less_trans [OF _ Cons.prems(7), of "Suc (length ?chs)"] length_line_chars [of _ scs] by simp
    then have "typed (length (sc # scs)) (line_chars (upperCase s) (sc # scs)) s t"
      unfolding chs using typed_Cons [OF Cons.prems(6) [unfolded chs] m _ u t(2)] by simp
    then show ?thesis using i t(1) by (simp add: r(1))
  qed
qed

subsection \<open>A line and its command\<close>

lemma handle_interrupts_append:
  "handle_interrupts (rs @ qs) s = do { t \<leftarrow> handle_interrupts rs s; handle_interrupts qs t }"
  by (induction rs arbitrary: s) (auto split: Option.bind_splits)

lemma keyboard_sends_last:
  assumes "keyboard_sends s (scs @ [sc])" "port_in t = port_in s" "reads60 (io_log t) = reads60 (io_log s) + length scs"
  shows "ucast (port_in t (io_log t) 0x60) = sc"
  using assms unfolding keyboard_sends_def by (auto dest!: spec [of _ "length scs"])

lemma keyboard_sends_prefix: "keyboard_sends s (scs @ [sc]) \<Longrightarrow> keyboard_sends s scs"
  unfolding keyboard_sends_def by (metis length_append_singleton less_SucI nth_append)

text \<open>A sequence of handled interrupts is a run of the idle loop.\<close>

lemma kernel_runs_first: "kernel_runs t u \<Longrightarrow> kernel_step s t \<Longrightarrow> kernel_runs s u"
  by (induction rule: kernel_runs.induct) (blast intro: kernel_runs.intros)+

lemma handle_interrupts_runs:
  "handle_interrupts rs s = Some t \<Longrightarrow> \<forall>r \<in> set rs. 32 \<le> isrNumber r \<Longrightarrow> kernel_runs s t"
proof (induction rs arbitrary: s)
  case Nil
  then show ?case by (simp add: kernel_runs.start)
next
  case (Cons r rs)
  then obtain u where u: "isr_handler r s = Some u" "handle_interrupts rs u = Some t" by (auto simp: bind_eq_Some_conv)
  then have "kernel_step s u" using Cons.prems(2) by (auto intro: kernel_step.irq)
  moreover have "kernel_runs u t" using Cons.IH [OF u(2)] Cons.prems(2) by simp
  ultimately show ?case by (rule kernel_runs_first [rotated])
qed

text \<open>The enter key: the command runs on the line as it is in memory, and the interrupt is acknowledged.\<close>

lemma enter_key:
  assumes "isEnabled t" "ucast (port_in t (io_log t) 0x60) = (0x1C :: u8)" "isrNumber r = 33"
  shows "isr_handler r t = map_option (\<lambda>v. outb 0x20 0x20 (outb 0xA0 0x20 v))
    (ExecutePrompt (NextLine (t\<lparr>io_log := InB 0x60 0x1C # io_log t\<rparr>)))"
  unfolding handle_keyboard [OF assms(3)]
  using assms(1,2) by (simp add: HandleKeyboard_def inb_def event_def EnterHandler_def Let_def map_conv_bind_option comp_def)

text \<open>The line buffer after a line: the characters typed, and behind them what was there before.\<close>

definition line_byte :: "memory \<Rightarrow> u64 \<Rightarrow> u8 list \<Rightarrow> nat \<Rightarrow> u8" where
  "line_byte m p chs k = (if k < length chs then chs ! k else m (p + of_nat k))"

lemma strcmp_line:
  assumes "\<forall>k < length chs. m' (p + of_nat k) = chs ! k"
    and "\<forall>b. b \<notin> S \<union> region p (length chs) \<longrightarrow> m' b = m b"
    and "\<forall>k < n. p + of_nat k \<notin> S" "n < 2 ^ 64" "j + length ws \<le> n"
  shows "strcmp_lit m' (p + of_nat j) ws \<longleftrightarrow> map (line_byte m p chs) [j..<j + length ws] = lit ws"
proof -
  have "m' (p + of_nat k) = line_byte m p chs k" if "k < n" for k
  proof (cases "k < length chs")
    case True
    then show ?thesis using assms(1) by (simp add: line_byte_def)
  next
    case False
    have "unat (of_nat k :: u64) = k" using that assms(4) by (intro unat_of_nat_lt) simp
    then have "p + of_nat k \<notin> region p (length chs)" using False by (simp add: region_def)
    then show ?thesis using False assms(2,3) that by (simp add: line_byte_def)
  qed
  then have "m' (p + of_nat j + of_nat k) = line_byte m p chs (k + j)" if "k < length ws" for k
    using assms(5) that by (simp add: add.assoc add.commute [of _ j] flip: of_nat_add)
  then have "map (\<lambda>k. m' (p + of_nat j + of_nat k)) [0..<length ws] = map (\<lambda>k. line_byte m p chs (k + j)) [0..<length ws]"
    by (intro map_cong) simp_all
  also have "\<dots> = map (line_byte m p chs) [j..<j + length ws]"
    unfolding map_add_upt [of j "length ws", unfolded add.commute [of "length ws"], symmetric] by simp
  finally show ?thesis by (simp add: strcmp_lit_def)
qed

subsection \<open>Properties\<close>

definition keyboard_regs :: registers_t where
  "keyboard_regs = registers_at (interrupt_stack 33 0 0 (replicate 15 0) [0, 8, 2, 0, 16])"

text \<open>The small machine with a keyboard that sends the key A, its release and then enter.\<close>

definition small_typist :: cpu where
  "small_typist = small_cpu\<lparr>port_in := \<lambda>l _. if reads60 l = 0 then 0x1E else if reads60 l = 1 then 0x9E else 0x1C\<rparr>"

lemma small_typist_fields:
  "isEnabled small_typist" "\<not> upperCase small_typist" "input small_typist = 0x6000" "commandPrompt small_typist = 0x6000"
  "port_in small_typist l p = (if reads60 l = 0 then 0x1E else if reads60 l = 1 then 0x9E else 0x1C)" "io_log small_typist = []"
  "TargetFrameBuffer small_typist = TargetFrameBuffer small_screen" "Font small_typist = Font small_screen"
  "cursor_x small_typist = 0" "cursor_y small_typist = 0" "mem small_typist = mem small_shell"
  by (simp_all add: small_typist_def small_cpu_def small_shell_def small_timer_def small_store_def small_disk_def small_io_def
      small_screen_def gfx.defs io.defs ahci.defs storage.defs timer.defs kbd.defs shell.defs cpu.defs)

text \<open>C17: A line typed on the keyboard reaches the terminal. After one interrupt for each key pressed or
  released, shift included, in whatever number whose characters fit on the row, and one for the enter
  key, the command interpreter has run on a memory that holds exactly the characters of the keys at
  the start of the line buffer and is otherwise, but for the screen, the memory before the line. So
  a command word is recognised, at any position in the buffer, exactly if it is what the typed
  characters give followed by what the buffer held before: the rest of an older line counts as typed.
  The interrupt that ran the command is acknowledged. The keys are those without backspace, tab and
  caps lock.\<close>

theorem typed_line_executes:
  fixes s :: "'a cpu_scheme"
  defines "p \<equiv> commandPrompt s" and "chs \<equiv> line_chars (upperCase s)"
  assumes "length rs = length scs" "keyboard_irqs (rs @ [r])" "isEnabled s" "keyboard_sends s (scs @ [0x1C])"
    and "\<forall>sc \<in> set scs. line_key sc" "line_fits (chs scs) s" "length scs < 2 ^ 64"
    and "input s = p" "\<forall>k < 0x100. p + of_nat k \<notin> screen (TargetFrameBuffer s)"
  shows "\<exists>u. handle_interrupts (rs @ [r]) s = map_option (\<lambda>t. outb 0x20 0x20 (outb 0xA0 0x20 t)) (ExecutePrompt u)
    \<and> commandPrompt u = p
    \<and> (\<forall>k < length (chs scs). mem u (p + of_nat k) = chs scs ! k)
    \<and> (\<forall>b. b \<notin> screen (TargetFrameBuffer s) \<union> region p (length (chs scs)) \<longrightarrow> mem u b = mem s b)
    \<and> (\<forall>ws j. j + length ws \<le> 0x100 \<longrightarrow> strcmp_lit (mem u) (p + of_nat j) ws
         = (map (line_byte (mem s) p (chs scs)) [j..<j + length ws] = lit ws))"
proof -
  have irq: "keyboard_irqs rs" "isrNumber r = 33" using assms(4) by (simp_all add: keyboard_irqs_def)
  obtain t where t: "handle_interrupts rs s = Some t" and ty: "typed (length scs) (chs scs) s t"
    using type_keys [OF assms(3) irq(1) assms(5) keyboard_sends_prefix [OF assms(6)] assms(7)] assms(8,9)
    unfolding chs_def by blast
  let ?u = "NextLine (t\<lparr>io_log := InB 0x60 0x1C # io_log t\<rparr>)"
  have u: "mem ?u = mem t" "commandPrompt ?u = p" using ty by (simp_all add: NextLine_def typed_def p_def)
  have "ucast (port_in t (io_log t) 0x60) = (0x1C :: u8)"
    using ty by (intro keyboard_sends_last [OF assms(6)]) (simp_all add: typed_def)
  then have e: "isr_handler r t = map_option (\<lambda>v. outb 0x20 0x20 (outb 0xA0 0x20 v)) (ExecutePrompt ?u)"
    using ty by (intro enter_key irq(2)) (simp_all add: typed_def)
  have "handle_interrupts (rs @ [r]) s = map_option (\<lambda>v. outb 0x20 0x20 (outb 0xA0 0x20 v)) (ExecutePrompt ?u)"
    by (cases "ExecutePrompt ?u") (simp_all add: handle_interrupts_append t e)
  moreover have line: "\<forall>k < length (chs scs). mem ?u (p + of_nat k) = chs scs ! k"
    and rest: "\<forall>b. b \<notin> screen (TargetFrameBuffer s) \<union> region p (length (chs scs)) \<longrightarrow> mem ?u b = mem s b"
    using ty unfolding u typed_def assms(10) by blast+
  moreover have "strcmp_lit (mem ?u) (p + of_nat j) ws
      \<longleftrightarrow> map (line_byte (mem s) p (chs scs)) [j..<j + length ws] = lit ws" if "j + length ws \<le> 0x100" for ws j
    using that by (intro strcmp_line [OF line rest assms(11)]) simp_all
  ultimately show ?thesis using u(2) by blast
qed

theorem typed_line_executes_witness:
  "\<exists>u. handle_interrupts (replicate 3 keyboard_regs) small_typist
      = map_option (\<lambda>t. outb 0x20 0x20 (outb 0xA0 0x20 t)) (ExecutePrompt u)
    \<and> mem u 0x6000 = 97 \<and> strcmp_lit (mem u) 0x6000 ''a'' \<and> \<not> strcmp_lit (mem u) 0x6000 ''b''"
proof -
  have c: "key_char False 0x1E = 97" by (simp add: ASCIITable_def lit_def key_char_def)
  have irq: "keyboard_irqs (replicate 2 keyboard_regs @ [keyboard_regs])"
    by (simp add: keyboard_irqs_def keyboard_regs_def interrupt_stack_def stub_entry_def isr_entry_def cpu_pushes_def
        error_vectors_def hw_error_vectors_def pushall_rev registers_at_def numeral_eq_Suc)
  have ks: "keyboard_sends small_typist ([0x1E, 0x9E] @ [0x1C])"
    by (auto simp: keyboard_sends_def small_typist_fields less_Suc_eq)
  have "unat (0x1610 + of_nat k :: u64) = 0x1610 + k" if "k < 16" for k
    using that by (subst unat_add_of_nat) simp_all
  then have g: "glyph_outside small_typist 97"
    by (auto simp: glyph_outside_def small_typist_fields glyph_at_def intro!: low_not_on_small_screen)
      (simp add: small_screen_def)
  have "0x6000 + of_nat k \<notin> screen (TargetFrameBuffer small_typist)" if "k < 0x100" for k
    unfolding small_typist_fields using that unat_add_of_nat [of "0x6000 :: u64" k]
    by (intro low_not_on_small_screen) simp
  then have o: "\<forall>k < 0x100. commandPrompt small_typist + of_nat k \<notin> screen (TargetFrameBuffer small_typist)"
    by (simp add: small_typist_fields(4))
  then have "input small_typist \<notin> screen (TargetFrameBuffer small_typist)"
    using spec [OF o, of 0] by (simp add: small_typist_fields(3,4))
  then have fits: "line_fits [97] small_typist"
    using small_screen_ok(1) g
    by (simp add: line_fits_def small_typist_fields small_screen_fields)
  have chs: "line_chars (upperCase small_typist) [0x1E, 0x9E] = [97]" by (simp add: small_typist_fields c)
  have pre: "length (replicate 2 keyboard_regs) = length [0x1E, 0x9E :: u8]" "isEnabled small_typist"
    "\<forall>sc \<in> set [0x1E, 0x9E]. line_key sc" "length [0x1E, 0x9E :: u8] < 2 ^ 64" "input small_typist = commandPrompt small_typist"
    by (simp_all add: small_typist_fields line_key_def)
  obtain u where u: "handle_interrupts (replicate 2 keyboard_regs @ [keyboard_regs]) small_typist
      = map_option (\<lambda>t. outb 0x20 0x20 (outb 0xA0 0x20 t)) (ExecutePrompt u)"
    "\<forall>k < length [97 :: u8]. mem u (commandPrompt small_typist + of_nat k) = [97] ! k"
    "\<forall>ws j. j + length ws \<le> 0x100 \<longrightarrow> strcmp_lit (mem u) (commandPrompt small_typist + of_nat j) ws
         = (map (line_byte (mem small_typist) (commandPrompt small_typist) [97]) [j..<j + length ws] = lit ws)"
    using typed_line_executes [OF pre(1) irq pre(2) ks pre(3) _ pre(4,5) o, unfolded chs, OF fits] by blast
  have "mem u 0x6000 = 97" using u(2) by (simp add: small_typist_fields)
  moreover have "strcmp_lit (mem u) 0x6000 ''a''" "\<not> strcmp_lit (mem u) 0x6000 ''b''"
    using u(3) [rule_format, of 0 "''a''"] u(3) [rule_format, of 0 "''b''"]
    by (simp_all add: line_byte_def lit_def small_typist_fields(4))
  moreover have "replicate 2 keyboard_regs @ [keyboard_regs] = replicate 3 keyboard_regs"
    by (simp add: numeral_eq_Suc)
  ultimately show ?thesis using u(1) by metis
qed

end
